(* ===== verification/Prelude.thy ===== *)
theory Prelude
  imports Main "HOL-Library.Word"
begin

text \<open>
  Shared vocabulary of the development: the Go value types the node is written with, Go's
  \<open>panic\<close>, the overflow-checked helpers of \<^verbatim>\<open>client/common/math/integer.go\<close>, byte strings and
  the conversions of \<^verbatim>\<open>holiman/uint256\<close> the node uses, and the generic lemmas on words, lists
  and maps that the component theories rely on.

  Conventions: \<open>uint64\<close> is \<^typ>\<open>64 word\<close> (arithmetic wraps as in Go), \<open>uint256.Int\<close> is
  \<^typ>\<open>256 word\<close>, \<open>big.Int\<close> is \<^typ>\<open>int\<close>, \<open>common.Hash\<close> is the \<^typ>\<open>256 word\<close> its 32 bytes
  denote big-endian, \<open>common.Address\<close> likewise is a \<^typ>\<open>160 word\<close>, \<open>[]byte\<close> is a list of
  \<^typ>\<open>8 word\<close> (a nil slice is the empty list), a Go map is a partial function.
\<close>

unbundle bit_operations_syntax

section \<open>Value types\<close>

type_synonym u8 = "8 word"
type_synonym u16 = "16 word"
type_synonym u64 = "64 word"
type_synonym u256 = "256 word"
type_synonym hash = "256 word"
type_synonym address = "160 word"
type_synonym bytes = "u8 list"

named_theorems go_simps \<open>unfolding rules of the Go-level combinators\<close>
named_theorems u64_simps \<open>arithmetic facts on 64-bit words in terms of their numeric value\<close>

section \<open>Panics\<close>

text \<open>
  A Go computation returns, panics, or (only in the interpreter, whose recursion is bounded by an
  explicit fuel argument) has not finished within its fuel.
\<close>

datatype 'a go = Ret 'a | Panic string | NoFuel

fun go_bind :: "'a go \<Rightarrow> ('a \<Rightarrow> 'b go) \<Rightarrow> 'b go" where
  "go_bind (Ret x) f = f x"
| "go_bind (Panic m) f = Panic m"
| "go_bind NoFuel f = NoFuel"

fun returns :: "'a go \<Rightarrow> bool" where
  "returns (Ret x) = True"
| "returns (Panic m) = False"
| "returns NoFuel = False"

lemma go_bind_Ret_iff [simp]: "go_bind m f = Ret y \<longleftrightarrow> (\<exists>x. m = Ret x \<and> f x = Ret y)"
  by (cases m) auto

lemma go_bind_NoFuel_iff: "go_bind m f = NoFuel \<longleftrightarrow> m = NoFuel \<or> (\<exists>x. m = Ret x \<and> f x = NoFuel)"
  by (cases m) auto

lemma go_bind_assoc: "go_bind (go_bind m f) g = go_bind m (\<lambda>x. go_bind (f x) g)"
  by (cases m) auto

lemma returns_iff: "returns m \<longleftrightarrow> (\<exists>x. m = Ret x)"
  by (cases m) auto

lemma go_bind_cong [fundef_cong]:
  "m = m' \<Longrightarrow> (\<And>x. m' = Ret x \<Longrightarrow> f x = f' x) \<Longrightarrow> go_bind m f = go_bind m' f'"
  by (cases m') auto

text \<open>An error check that returns early with a non-nil error.\<close>

lemma go_bind_checked:
  "go_bind m (\<lambda>err. if err \<noteq> None then Ret err else k) = Ret None \<longleftrightarrow> m = Ret None \<and> k = Ret None"
  by (cases m) auto

lemma if_Ret_error:
  "(if b then Ret (Some e) else k) = Ret None \<longleftrightarrow> \<not> b \<and> k = Ret None"
  by simp

section \<open>Checked 64-bit arithmetic\<close>

text \<open>
  \<open>math.SafeAdd\<close> and \<open>math.SafeMul\<close> return the wrapped result and an overflow flag, computed
  by \<open>bits.Add64\<close> and \<open>bits.Mul64\<close> from the 128-bit result.
\<close>

abbreviation MaxUint64 :: u64 where "MaxUint64 \<equiv> 0xFFFFFFFFFFFFFFFF"

definition SafeSub :: "u64 \<Rightarrow> u64 \<Rightarrow> u64 \<times> bool" where
  "SafeSub x y = (x - y, unat x < unat y)"

definition SafeAdd :: "u64 \<Rightarrow> u64 \<Rightarrow> u64 \<times> bool" where
  "SafeAdd x y = (x + y, 2 ^ 64 \<le> unat x + unat y)"

definition SafeMul :: "u64 \<Rightarrow> u64 \<Rightarrow> u64 \<times> bool" where
  "SafeMul x y = (x * y, 2 ^ 64 \<le> unat x * unat y)"

definition BigMax :: "int \<Rightarrow> int \<Rightarrow> int" where
  "BigMax x y = (if x < y then y else x)"

definition BigMin :: "int \<Rightarrow> int \<Rightarrow> int" where
  "BigMin x y = (if x > y then y else x)"

lemma unat_u64_less [simp]: "unat (x :: u64) < 18446744073709551616"
  using unsigned_less [of x, where ?'a = nat] by simp

lemma unat_add_u64: "unat ((x :: u64) + y) = (unat x + unat y) mod 2 ^ 64"
  by (simp add: unat_word_ariths)

lemma unat_mult_u64: "unat ((x :: u64) * y) = (unat x * unat y) mod 2 ^ 64"
  by (simp add: unat_word_ariths)

lemma SafeAdd_exact [u64_simps]: "SafeAdd x y = (z, False) \<Longrightarrow> unat z = unat x + unat y"
  by (auto simp: SafeAdd_def unat_add_u64)

lemma SafeAdd_overflow: "SafeAdd x y = (z, True) \<Longrightarrow> 2 ^ 64 \<le> unat x + unat y"
  by (auto simp: SafeAdd_def)

lemma SafeMul_exact [u64_simps]: "SafeMul x y = (z, False) \<Longrightarrow> unat z = unat x * unat y"
  by (auto simp: SafeMul_def unat_mult_u64)

lemma unat_sub_u64: "y \<le> x \<Longrightarrow> unat ((x :: u64) - y) = unat x - unat y"
  by (simp add: unat_sub)

lemma u64_le_iff: "(x :: u64) \<le> y \<longleftrightarrow> unat x \<le> unat y"
  by (simp add: word_le_nat_alt)

lemma u64_less_iff: "(x :: u64) < y \<longleftrightarrow> unat x < unat y"
  by (simp add: word_less_nat_alt)

lemma sint_diff_u64:
  "uint (x :: u64) < 2 ^ 63 \<Longrightarrow> uint (y :: u64) < 2 ^ 63 \<Longrightarrow> sint (x - y) = uint x - uint y"
proof (transfer, goal_cases)
  case (1 x y)
  have "signed_take_bit 63 (take_bit 64 x - take_bit 64 y) = take_bit 64 x - take_bit 64 y"
    using 1 by (intro signed_take_bit_int_eq_self) (auto simp: take_bit_int_def)
  moreover have "signed_take_bit 63 (x - y) = signed_take_bit 63 (take_bit 64 x - take_bit 64 y)"
    by (simp add: signed_take_bit_eq_iff_take_bit_eq take_bit_diff)
  ultimately show ?case by simp
qed

lemma int_div_less_iff: "0 < k \<Longrightarrow> (x :: int) div k < a \<longleftrightarrow> x < a * k"
proof
  assume k: "0 < k" and "x div k < a"
  then have "(x div k + 1) * k \<le> a * k" by (intro mult_right_mono) auto
  moreover have "x < (x div k + 1) * k"
    using div_mult_mod_eq [of x k] pos_mod_bound [OF k, of x] unfolding distrib_right by linarith
  ultimately show "x < a * k" by simp
next
  assume k: "0 < k" and x: "x < a * k"
  show "x div k < a"
  proof (rule ccontr)
    assume "\<not> x div k < a"
    then have "a * k \<le> x div k * k" using k by (intro mult_right_mono) auto
    also have "\<dots> \<le> x" using div_mult_mod_eq [of x k] pos_mod_sign [OF k, of x] by linarith
    finally show False using x by simp
  qed
qed

lemma sint_u64_small: "uint (x :: u64) < 2 ^ 63 \<Longrightarrow> sint x = uint x"
  using sint_diff_u64 [of x 0] by simp

lemma uint_of_nat_u64: "k < 2 ^ 64 \<Longrightarrow> uint (word_of_nat k :: u64) = int k"
  by (simp add: unsigned_of_nat take_bit_nat_eq_self_iff)

section \<open>Slices, padding and the uint256 conversions\<close>

text \<open>\<open>len\<close> as a \<open>uint64\<close>.\<close>

definition len64 :: "'a list \<Rightarrow> u64" where
  "len64 xs = word_of_nat (length xs)"

lemma unat_len64: "length xs < 2 ^ 64 \<Longrightarrow> unat (len64 xs) = length xs"
  by (simp add: len64_def unat_of_nat)

text \<open>Go's slice expression \<open>s[lo:hi]\<close> panics unless \<open>lo \<le> hi \<le> len s\<close>.\<close>

definition slice :: "'a list \<Rightarrow> nat \<Rightarrow> nat \<Rightarrow> 'a list go" where
  "slice s lo hi = (if lo \<le> hi \<and> hi \<le> length s then Ret (take (hi - lo) (drop lo s))
                    else Panic ''slice bounds out of range'')"

lemma slice_Ret: "lo \<le> hi \<Longrightarrow> hi \<le> length s \<Longrightarrow> slice s lo hi = Ret (take (hi - lo) (drop lo s))"
  by (simp add: slice_def)

text \<open>\<open>common.RightPadBytes\<close> and \<open>common.LeftPadBytes\<close> of \<^verbatim>\<open>client/common/bytes.go\<close>.\<close>

definition RightPadBytes :: "bytes \<Rightarrow> nat \<Rightarrow> bytes" where
  "RightPadBytes s l = (if l \<le> length s then s else s @ replicate (l - length s) 0)"

definition LeftPadBytes :: "bytes \<Rightarrow> nat \<Rightarrow> bytes" where
  "LeftPadBytes s l = (if l \<le> length s then s else replicate (l - length s) 0 @ s)"

lemma length_RightPadBytes [simp]: "length (RightPadBytes s l) = max (length s) l"
  by (simp add: RightPadBytes_def)

lemma length_LeftPadBytes [simp]: "length (LeftPadBytes s l) = max (length s) l"
  by (simp add: LeftPadBytes_def)

text \<open>
  \<open>uint256.SetBytes\<close> reads at most the last 32 bytes big-endian; \<open>Bytes32\<close> writes 32 bytes
  big-endian; \<open>Bytes20\<close> keeps the low 160 bits; \<open>SetFromBig\<close> and \<open>FromBig\<close> reduce modulo
  \<open>2^256\<close>.
\<close>

definition bytes_to_nat :: "bytes \<Rightarrow> nat" where
  "bytes_to_nat bs = foldl (\<lambda>n b. n * 256 + unat b) 0 bs"

definition SetBytes :: "bytes \<Rightarrow> u256" where
  "SetBytes bs = word_of_nat (bytes_to_nat bs)"

fun nat_to_bytes :: "nat \<Rightarrow> nat \<Rightarrow> bytes" where
  "nat_to_bytes 0 n = []"
| "nat_to_bytes (Suc k) n = nat_to_bytes k (n div 256) @ [word_of_nat n]"

definition Bytes32 :: "u256 \<Rightarrow> bytes" where
  "Bytes32 w = nat_to_bytes 32 (unat w)"

definition Bytes20 :: "u256 \<Rightarrow> address" where
  "Bytes20 w = ucast w"

definition AddrToU256 :: "address \<Rightarrow> u256" where
  "AddrToU256 a = ucast a"

definition FromBig :: "int \<Rightarrow> u256" where
  "FromBig i = word_of_int i"

definition ToBig :: "u256 \<Rightarrow> int" where
  "ToBig w = uint w"

definition IsUint64 :: "u256 \<Rightarrow> bool" where
  "IsUint64 w = (unat w < 2 ^ 64)"

definition Uint64 :: "u256 \<Rightarrow> u64" where
  "Uint64 w = ucast w"

definition Uint64WithOverflow :: "u256 \<Rightarrow> u64 \<times> bool" where
  "Uint64WithOverflow w = (ucast w, \<not> IsUint64 w)"

definition SetUint64 :: "u64 \<Rightarrow> u256" where
  "SetUint64 w = ucast w"

lemma length_nat_to_bytes [simp]: "length (nat_to_bytes k n) = k"
  by (induction k arbitrary: n) auto

lemma length_Bytes32 [simp]: "length (Bytes32 w) = 32"
  by (simp add: Bytes32_def)

lemma bytes_to_nat_append [simp]:
  "bytes_to_nat (xs @ [b]) = bytes_to_nat xs * 256 + unat b"
  by (simp add: bytes_to_nat_def)

lemma bytes_to_nat_Nil [simp]: "bytes_to_nat [] = 0"
  by (simp add: bytes_to_nat_def)

lemma bytes_to_nat_less: "bytes_to_nat bs < 256 ^ length bs"
proof (induction bs rule: rev_induct)
  case Nil
  then show ?case by simp
next
  case (snoc b bs)
  have "unat b < 256" using unsigned_less [of b, where ?'a = nat] by simp
  with snoc have "bytes_to_nat bs * 256 + unat b < (bytes_to_nat bs + 1) * 256" by simp
  also have "\<dots> \<le> 256 ^ length bs * 256"
    using snoc by (intro mult_le_mono1) simp
  finally show ?case by (simp add: mult.commute)
qed

lemma bytes_to_nat_to_bytes: "bytes_to_nat (nat_to_bytes k n) = n mod 256 ^ k"
proof (induction k arbitrary: n)
  case 0
  then show ?case by simp
next
  case (Suc k)
  have "unat (word_of_nat n :: u8) = n mod 256" by (simp add: unat_of_nat)
  with Suc have "bytes_to_nat (nat_to_bytes (Suc k) n) = (n div 256) mod 256 ^ k * 256 + n mod 256"
    by simp
  also have "\<dots> = n mod (256 * 256 ^ k)"
    by (metis add.commute mod_mult2_eq mult.commute)
  finally show ?case by simp
qed

lemma SetBytes_Bytes32 [simp]: "SetBytes (Bytes32 w) = w"
proof -
  have "unat w < 256 ^ 32" using unsigned_less [of w, where ?'a = nat] by simp
  then show ?thesis
    by (simp add: SetBytes_def Bytes32_def bytes_to_nat_to_bytes del: nat_to_bytes.simps)
qed

lemma unat_Uint64: "IsUint64 w \<Longrightarrow> unat (Uint64 w) = unat w"
  by (simp add: IsUint64_def Uint64_def unsigned_ucast_eq take_bit_nat_eq_self_iff)

lemma Uint64WithOverflow_exact:
  "Uint64WithOverflow w = (x, False) \<Longrightarrow> unat x = unat w \<and> x = Uint64 w"
  by (auto simp: Uint64WithOverflow_def Uint64_def IsUint64_def unsigned_ucast_eq
    take_bit_nat_eq_self_iff)

lemma Bytes20_AddrToU256 [simp]: "Bytes20 (AddrToU256 a) = a"
  unfolding Bytes20_def AddrToU256_def by transfer (simp add: take_bit_int_def)

lemma Uint64_SetUint64 [simp]: "Uint64 (SetUint64 w) = w"
  unfolding Uint64_def SetUint64_def by transfer (simp add: take_bit_int_def)

lemma uint_FromBig: "0 \<le> d \<Longrightarrow> d < 2 ^ 256 \<Longrightarrow> uint (FromBig d) = d"
  by (simp add: FromBig_def uint_word_of_int)

lemma uint_SetUint64: "uint (SetUint64 x) = uint x"
  unfolding SetUint64_def by transfer (simp add: take_bit_int_def)

section \<open>Maps with a default\<close>

text \<open>Reading a Go map of value type \<open>'v\<close> at an absent key gives the zero value of \<open>'v\<close>.\<close>

definition map_get :: "'v \<Rightarrow> ('k \<rightharpoonup> 'v) \<Rightarrow> 'k \<Rightarrow> 'v" where
  "map_get z m k = (case m k of None \<Rightarrow> z | Some v \<Rightarrow> v)"

lemma map_get_upd [simp]: "map_get z (m(k \<mapsto> v)) k' = (if k' = k then v else map_get z m k')"
  by (simp add: map_get_def)

lemma map_get_del [simp]: "map_get z (m(k := None)) k' = (if k' = k then z else map_get z m k')"
  by (simp add: map_get_def)

lemma map_get_empty [simp]: "map_get z Map.empty k = z"
  by (simp add: map_get_def)

end
