(* ===== verification/Params.thy ===== *)
theory Params
  imports Prelude
begin

text \<open>
  Protocol constants and chain configuration: \<^verbatim>\<open>client/params/protocol_params.go\<close> and
  \<^verbatim>\<open>client/params/config.go\<close>. The fork schedule \<open>ChainConfig\<close> with its activation tests, the
  \<open>Rules\<close> snapshot the EVM runs under, the fork-order check and the compatibility check that
  decides how far a database has to be rewound when its configuration changes.

  Facts: a configuration accepted by \<open>CheckConfigForkOrder\<close> activates its block forks in order; the
  loop of \<open>CheckCompatible\<close> terminates on fork-ordered configurations and returns \<open>nil\<close> exactly
  when no active fork was rescheduled; the timestamp variant of the rewind target wraps around when
  the fork is scheduled at timestamp 0.
\<close>

section \<open>Protocol parameters\<close>

abbreviation GasLimitBoundDivisor :: u64 where "GasLimitBoundDivisor \<equiv> 1024"
abbreviation MinGasLimit :: u64 where "MinGasLimit \<equiv> 5000"
abbreviation MaxGasLimit :: u64 where "MaxGasLimit \<equiv> 0x7fffffffffffffff"
abbreviation MaximumExtraDataSize :: u64 where "MaximumExtraDataSize \<equiv> 32"
abbreviation CallValueTransferGas :: u64 where "CallValueTransferGas \<equiv> 9000"
abbreviation CallNewAccountGas :: u64 where "CallNewAccountGas \<equiv> 25000"
abbreviation TxGas :: u64 where "TxGas \<equiv> 21000"
abbreviation TxGasContractCreation :: u64 where "TxGasContractCreation \<equiv> 53000"
abbreviation TxDataZeroGas :: u64 where "TxDataZeroGas \<equiv> 4"
abbreviation QuadCoeffDiv :: u64 where "QuadCoeffDiv \<equiv> 512"
abbreviation LogDataGas :: u64 where "LogDataGas \<equiv> 8"
abbreviation CallStipend :: u64 where "CallStipend \<equiv> 2300"
abbreviation Keccak256Gas :: u64 where "Keccak256Gas \<equiv> 30"
abbreviation Keccak256WordGas :: u64 where "Keccak256WordGas \<equiv> 6"
abbreviation InitCodeWordGas :: u64 where "InitCodeWordGas \<equiv> 2"
abbreviation SstoreSetGas :: u64 where "SstoreSetGas \<equiv> 20000"
abbreviation SstoreResetGas :: u64 where "SstoreResetGas \<equiv> 5000"
abbreviation SstoreClearGas :: u64 where "SstoreClearGas \<equiv> 5000"
abbreviation SstoreRefundGas :: u64 where "SstoreRefundGas \<equiv> 15000"
abbreviation NetSstoreNoopGas :: u64 where "NetSstoreNoopGas \<equiv> 200"
abbreviation NetSstoreInitGas :: u64 where "NetSstoreInitGas \<equiv> 20000"
abbreviation NetSstoreCleanGas :: u64 where "NetSstoreCleanGas \<equiv> 5000"
abbreviation NetSstoreDirtyGas :: u64 where "NetSstoreDirtyGas \<equiv> 200"
abbreviation NetSstoreClearRefund :: u64 where "NetSstoreClearRefund \<equiv> 15000"
abbreviation NetSstoreResetRefund :: u64 where "NetSstoreResetRefund \<equiv> 4800"
abbreviation NetSstoreResetClearRefund :: u64 where "NetSstoreResetClearRefund \<equiv> 19800"
abbreviation SstoreSentryGasEIP2200 :: u64 where "SstoreSentryGasEIP2200 \<equiv> 2300"
abbreviation SstoreSetGasEIP2200 :: u64 where "SstoreSetGasEIP2200 \<equiv> 20000"
abbreviation SstoreResetGasEIP2200 :: u64 where "SstoreResetGasEIP2200 \<equiv> 5000"
abbreviation SstoreClearsScheduleRefundEIP2200 :: u64 where "SstoreClearsScheduleRefundEIP2200 \<equiv> 15000"
abbreviation ColdAccountAccessCostEIP2929 :: u64 where "ColdAccountAccessCostEIP2929 \<equiv> 2600"
abbreviation ColdSloadCostEIP2929 :: u64 where "ColdSloadCostEIP2929 \<equiv> 2100"
abbreviation WarmStorageReadCostEIP2929 :: u64 where "WarmStorageReadCostEIP2929 \<equiv> 100"
abbreviation JumpdestGas :: u64 where "JumpdestGas \<equiv> 1"
abbreviation CreateDataGas :: u64 where "CreateDataGas \<equiv> 200"
abbreviation CallCreateDepth :: u64 where "CallCreateDepth \<equiv> 1024"
abbreviation ExpGas :: u64 where "ExpGas \<equiv> 10"
abbreviation LogGas :: u64 where "LogGas \<equiv> 375"
abbreviation CopyGas :: u64 where "CopyGas \<equiv> 3"
abbreviation StackLimit :: u64 where "StackLimit \<equiv> 1024"
abbreviation LogTopicGas :: u64 where "LogTopicGas \<equiv> 375"
abbreviation CreateGas :: u64 where "CreateGas \<equiv> 32000"
abbreviation Create2Gas :: u64 where "Create2Gas \<equiv> 32000"
abbreviation SelfdestructRefundGas :: u64 where "SelfdestructRefundGas \<equiv> 24000"
abbreviation MemoryGas :: u64 where "MemoryGas \<equiv> 3"
abbreviation TxDataNonZeroGasFrontier :: u64 where "TxDataNonZeroGasFrontier \<equiv> 68"
abbreviation TxDataNonZeroGasEIP2028 :: u64 where "TxDataNonZeroGasEIP2028 \<equiv> 16"
abbreviation TxAccessListAddressGas :: u64 where "TxAccessListAddressGas \<equiv> 2400"
abbreviation TxAccessListStorageKeyGas :: u64 where "TxAccessListStorageKeyGas \<equiv> 1900"
abbreviation CallGasFrontier :: u64 where "CallGasFrontier \<equiv> 40"
abbreviation CallGasEIP150 :: u64 where "CallGasEIP150 \<equiv> 700"
abbreviation BalanceGasFrontier :: u64 where "BalanceGasFrontier \<equiv> 20"
abbreviation BalanceGasEIP150 :: u64 where "BalanceGasEIP150 \<equiv> 400"
abbreviation BalanceGasEIP1884 :: u64 where "BalanceGasEIP1884 \<equiv> 700"
abbreviation ExtcodeSizeGasFrontier :: u64 where "ExtcodeSizeGasFrontier \<equiv> 20"
abbreviation ExtcodeSizeGasEIP150 :: u64 where "ExtcodeSizeGasEIP150 \<equiv> 700"
abbreviation SloadGasFrontier :: u64 where "SloadGasFrontier \<equiv> 50"
abbreviation SloadGasEIP150 :: u64 where "SloadGasEIP150 \<equiv> 200"
abbreviation SloadGasEIP1884 :: u64 where "SloadGasEIP1884 \<equiv> 800"
abbreviation SloadGasEIP2200 :: u64 where "SloadGasEIP2200 \<equiv> 800"
abbreviation ExtcodeHashGasConstantinople :: u64 where "ExtcodeHashGasConstantinople \<equiv> 400"
abbreviation ExtcodeHashGasEIP1884 :: u64 where "ExtcodeHashGasEIP1884 \<equiv> 700"
abbreviation SelfdestructGasEIP150 :: u64 where "SelfdestructGasEIP150 \<equiv> 5000"
abbreviation ExpByteFrontier :: u64 where "ExpByteFrontier \<equiv> 10"
abbreviation ExpByteEIP158 :: u64 where "ExpByteEIP158 \<equiv> 50"
abbreviation ExtcodeCopyBaseFrontier :: u64 where "ExtcodeCopyBaseFrontier \<equiv> 20"
abbreviation ExtcodeCopyBaseEIP150 :: u64 where "ExtcodeCopyBaseEIP150 \<equiv> 700"
abbreviation CreateBySelfdestructGas :: u64 where "CreateBySelfdestructGas \<equiv> 25000"
abbreviation EcrecoverGas :: u64 where "EcrecoverGas \<equiv> 3000"
abbreviation Sha256BaseGas :: u64 where "Sha256BaseGas \<equiv> 60"
abbreviation Sha256PerWordGas :: u64 where "Sha256PerWordGas \<equiv> 12"
abbreviation Ripemd160BaseGas :: u64 where "Ripemd160BaseGas \<equiv> 600"
abbreviation Ripemd160PerWordGas :: u64 where "Ripemd160PerWordGas \<equiv> 120"
abbreviation IdentityBaseGas :: u64 where "IdentityBaseGas \<equiv> 15"
abbreviation Bn256AddGasByzantium :: u64 where "Bn256AddGasByzantium \<equiv> 500"
abbreviation Bn256AddGasIstanbul :: u64 where "Bn256AddGasIstanbul \<equiv> 150"
abbreviation Bn256ScalarMulGasByzantium :: u64 where "Bn256ScalarMulGasByzantium \<equiv> 40000"
abbreviation Bn256ScalarMulGasIstanbul :: u64 where "Bn256ScalarMulGasIstanbul \<equiv> 6000"
abbreviation Bn256PairingBaseGasByzantium :: u64 where "Bn256PairingBaseGasByzantium \<equiv> 100000"
abbreviation Bn256PairingBaseGasIstanbul :: u64 where "Bn256PairingBaseGasIstanbul \<equiv> 45000"
abbreviation Bn256PairingPerPointGasByzantium :: u64 where "Bn256PairingPerPointGasByzantium \<equiv> 80000"
abbreviation Bn256PairingPerPointGasIstanbul :: u64 where "Bn256PairingPerPointGasIstanbul \<equiv> 34000"
abbreviation IdentityPerWordGas :: u64 where "IdentityPerWordGas \<equiv> 3"
abbreviation RefundQuotient :: u64 where "RefundQuotient \<equiv> 2"
abbreviation RefundQuotientEIP3529 :: u64 where "RefundQuotientEIP3529 \<equiv> 5"
abbreviation SstoreClearsScheduleRefundEIP3529 :: u64 where
  "SstoreClearsScheduleRefundEIP3529 \<equiv>
     SstoreResetGasEIP2200 - ColdSloadCostEIP2929 + TxAccessListStorageKeyGas"

abbreviation DefaultBaseFeeChangeDenominator :: u64 where "DefaultBaseFeeChangeDenominator \<equiv> 8"
abbreviation DefaultElasticityMultiplier :: u64 where "DefaultElasticityMultiplier \<equiv> 2"
abbreviation InitialBaseFee :: int where "InitialBaseFee \<equiv> 1000000000"
abbreviation MaxCodeSize :: nat where "MaxCodeSize \<equiv> 24576"
abbreviation MaxInitCodeSize :: nat where "MaxInitCodeSize \<equiv> 49152"
abbreviation BlobTxMinDataGasprice :: int where "BlobTxMinDataGasprice \<equiv> 1"
abbreviation BlobTxDataGaspriceUpdateFraction :: int where
  "BlobTxDataGaspriceUpdateFraction \<equiv> 2225652"
abbreviation DifficultyBoundDivisor :: int where "DifficultyBoundDivisor \<equiv> 2048"
abbreviation MinimumDifficulty :: int where "MinimumDifficulty \<equiv> 131072"
abbreviation DurationLimit :: int where "DurationLimit \<equiv> 7"

section \<open>Chain configuration\<close>

record CliqueConfig =
  Period :: u64
  Epoch :: u64

text \<open>A nil \<open>*big.Int\<close> or \<open>*uint64\<close> is \<open>None\<close>; \<open>EthashConfig\<close> has no fields.\<close>

record ChainConfig =
  ChainID :: "int option"
  HomesteadBlock :: "int option"
  DAOForkBlock :: "int option"
  DAOForkSupport :: bool
  EIP150Block :: "int option"
  EIP155Block :: "int option"
  EIP158Block :: "int option"
  ByzantiumBlock :: "int option"
  ConstantinopleBlock :: "int option"
  PetersburgBlock :: "int option"
  IstanbulBlock :: "int option"
  MuirGlacierBlock :: "int option"
  BerlinBlock :: "int option"
  LondonBlock :: "int option"
  ArrowGlacierBlock :: "int option"
  GrayGlacierBlock :: "int option"
  MergeNetsplitBlock :: "int option"
  ShanghaiTime :: "u64 option"
  CancunTime :: "u64 option"
  PragueTime :: "u64 option"
  TerminalTotalDifficulty :: "int option"
  TerminalTotalDifficultyPassed :: bool
  EthashCfg :: "unit option"
  CliqueCfg :: "CliqueConfig option"

text \<open>The zero value of the struct, and the configuration of the R5 main network.\<close>

definition NonActivatedConfig :: ChainConfig where
  "NonActivatedConfig =
    \<lparr> ChainID = Some 337, HomesteadBlock = None, DAOForkBlock = None, DAOForkSupport = False,
      EIP150Block = None, EIP155Block = None, EIP158Block = None, ByzantiumBlock = None,
      ConstantinopleBlock = None, PetersburgBlock = None, IstanbulBlock = None,
      MuirGlacierBlock = None, BerlinBlock = None, LondonBlock = None, ArrowGlacierBlock = None,
      GrayGlacierBlock = None, MergeNetsplitBlock = None, ShanghaiTime = None, CancunTime = None,
      PragueTime = None, TerminalTotalDifficulty = None, TerminalTotalDifficultyPassed = False,
      EthashCfg = Some (), CliqueCfg = None \<rparr>"

definition MainnetChainConfig :: ChainConfig where
  "MainnetChainConfig =
    \<lparr> ChainID = Some 337, HomesteadBlock = Some 0, DAOForkBlock = None, DAOForkSupport = False,
      EIP150Block = Some 0, EIP155Block = Some 0, EIP158Block = Some 0, ByzantiumBlock = Some 0,
      ConstantinopleBlock = Some 0, PetersburgBlock = Some 0, IstanbulBlock = Some 0,
      MuirGlacierBlock = None, BerlinBlock = Some 0, LondonBlock = None, ArrowGlacierBlock = None,
      GrayGlacierBlock = None, MergeNetsplitBlock = None, ShanghaiTime = None, CancunTime = None,
      PragueTime = None, TerminalTotalDifficulty = None, TerminalTotalDifficultyPassed = False,
      EthashCfg = None, CliqueCfg = None \<rparr>"

definition AllEthashProtocolChanges :: ChainConfig where
  "AllEthashProtocolChanges =
    \<lparr> ChainID = Some 1337, HomesteadBlock = Some 0, DAOForkBlock = None, DAOForkSupport = False,
      EIP150Block = Some 0, EIP155Block = Some 0, EIP158Block = Some 0, ByzantiumBlock = Some 0,
      ConstantinopleBlock = Some 0, PetersburgBlock = Some 0, IstanbulBlock = Some 0,
      MuirGlacierBlock = Some 0, BerlinBlock = Some 0, LondonBlock = Some 0,
      ArrowGlacierBlock = Some 0, GrayGlacierBlock = Some 0, MergeNetsplitBlock = None,
      ShanghaiTime = None, CancunTime = None, PragueTime = None, TerminalTotalDifficulty = None,
      TerminalTotalDifficultyPassed = False, EthashCfg = Some (), CliqueCfg = None \<rparr>"

subsection \<open>Fork activation\<close>

fun isBlockForked :: "int option \<Rightarrow> int option \<Rightarrow> bool" where
  "isBlockForked (Some s) (Some head) = (s \<le> head)"
| "isBlockForked _ _ = False"

fun isTimestampForked :: "u64 option \<Rightarrow> u64 \<Rightarrow> bool" where
  "isTimestampForked None head = False"
| "isTimestampForked (Some s) head = (s \<le> head)"

fun configBlockEqual :: "int option \<Rightarrow> int option \<Rightarrow> bool" where
  "configBlockEqual None y = (y = None)"
| "configBlockEqual (Some x) None = False"
| "configBlockEqual (Some x) (Some y) = (x = y)"

fun configTimestampEqual :: "u64 option \<Rightarrow> u64 option \<Rightarrow> bool" where
  "configTimestampEqual None y = (y = None)"
| "configTimestampEqual (Some x) None = False"
| "configTimestampEqual (Some x) (Some y) = (x = y)"

definition isForkBlockIncompatible :: "int option \<Rightarrow> int option \<Rightarrow> int \<Rightarrow> bool" where
  "isForkBlockIncompatible s1 s2 head =
     ((isBlockForked s1 (Some head) \<or> isBlockForked s2 (Some head)) \<and> \<not> configBlockEqual s1 s2)"

definition isForkTimestampIncompatible :: "u64 option \<Rightarrow> u64 option \<Rightarrow> u64 \<Rightarrow> bool" where
  "isForkTimestampIncompatible s1 s2 head =
     ((isTimestampForked s1 head \<or> isTimestampForked s2 head) \<and> \<not> configTimestampEqual s1 s2)"

definition IsHomestead :: "ChainConfig \<Rightarrow> int \<Rightarrow> bool" where
  "IsHomestead c num = isBlockForked (HomesteadBlock c) (Some num)"
definition IsDAOFork :: "ChainConfig \<Rightarrow> int \<Rightarrow> bool" where
  "IsDAOFork c num = isBlockForked (DAOForkBlock c) (Some num)"
definition IsEIP150 :: "ChainConfig \<Rightarrow> int \<Rightarrow> bool" where
  "IsEIP150 c num = isBlockForked (EIP150Block c) (Some num)"
definition IsEIP155 :: "ChainConfig \<Rightarrow> int \<Rightarrow> bool" where
  "IsEIP155 c num = isBlockForked (EIP155Block c) (Some num)"
definition IsEIP158 :: "ChainConfig \<Rightarrow> int \<Rightarrow> bool" where
  "IsEIP158 c num = isBlockForked (EIP158Block c) (Some num)"
definition IsByzantium :: "ChainConfig \<Rightarrow> int \<Rightarrow> bool" where
  "IsByzantium c num = isBlockForked (ByzantiumBlock c) (Some num)"
definition IsConstantinople :: "ChainConfig \<Rightarrow> int \<Rightarrow> bool" where
  "IsConstantinople c num = isBlockForked (ConstantinopleBlock c) (Some num)"
definition IsMuirGlacier :: "ChainConfig \<Rightarrow> int \<Rightarrow> bool" where
  "IsMuirGlacier c num = isBlockForked (MuirGlacierBlock c) (Some num)"
definition IsPetersburg :: "ChainConfig \<Rightarrow> int \<Rightarrow> bool" where
  "IsPetersburg c num = (isBlockForked (PetersburgBlock c) (Some num) \<or>
     PetersburgBlock c = None \<and> isBlockForked (ConstantinopleBlock c) (Some num))"
definition IsIstanbul :: "ChainConfig \<Rightarrow> int \<Rightarrow> bool" where
  "IsIstanbul c num = isBlockForked (IstanbulBlock c) (Some num)"
definition IsBerlin :: "ChainConfig \<Rightarrow> int \<Rightarrow> bool" where
  "IsBerlin c num = isBlockForked (BerlinBlock c) (Some num)"
definition IsLondon :: "ChainConfig \<Rightarrow> int \<Rightarrow> bool" where
  "IsLondon c num = isBlockForked (LondonBlock c) (Some num)"
definition IsArrowGlacier :: "ChainConfig \<Rightarrow> int \<Rightarrow> bool" where
  "IsArrowGlacier c num = isBlockForked (ArrowGlacierBlock c) (Some num)"
definition IsGrayGlacier :: "ChainConfig \<Rightarrow> int \<Rightarrow> bool" where
  "IsGrayGlacier c num = isBlockForked (GrayGlacierBlock c) (Some num)"
definition IsTerminalPoWBlock :: "ChainConfig \<Rightarrow> int \<Rightarrow> int \<Rightarrow> bool" where
  "IsTerminalPoWBlock c parentTotalDiff totalDiff =
     (case TerminalTotalDifficulty c of None \<Rightarrow> False
      | Some ttd \<Rightarrow> parentTotalDiff < ttd \<and> totalDiff \<ge> ttd)"
definition IsShanghai :: "ChainConfig \<Rightarrow> u64 \<Rightarrow> bool" where
  "IsShanghai c time = isTimestampForked (ShanghaiTime c) time"
definition IsCancun :: "ChainConfig \<Rightarrow> u64 \<Rightarrow> bool" where
  "IsCancun c time = isTimestampForked (CancunTime c) time"
definition IsPrague :: "ChainConfig \<Rightarrow> u64 \<Rightarrow> bool" where
  "IsPrague c time = isTimestampForked (PragueTime c) time"

definition BaseFeeChangeDenominator :: "ChainConfig \<Rightarrow> u64" where
  "BaseFeeChangeDenominator c = DefaultBaseFeeChangeDenominator"
definition ElasticityMultiplier :: "ChainConfig \<Rightarrow> u64" where
  "ElasticityMultiplier c = DefaultElasticityMultiplier"

lemmas fork_defs = IsHomestead_def IsDAOFork_def IsEIP150_def IsEIP155_def IsEIP158_def
  IsByzantium_def IsConstantinople_def IsMuirGlacier_def IsPetersburg_def IsIstanbul_def
  IsBerlin_def IsLondon_def IsArrowGlacier_def IsGrayGlacier_def IsShanghai_def IsCancun_def
  IsPrague_def

subsection \<open>Rules\<close>

record Rules =
  rChainID :: int
  rIsHomestead :: bool
  rIsEIP150 :: bool
  rIsEIP155 :: bool
  rIsEIP158 :: bool
  rIsByzantium :: bool
  rIsConstantinople :: bool
  rIsPetersburg :: bool
  rIsIstanbul :: bool
  rIsBerlin :: bool
  rIsLondon :: bool
  rIsMerge :: bool
  rIsShanghai :: bool
  rIsCancun :: bool
  rIsPrague :: bool

definition RulesOf :: "ChainConfig \<Rightarrow> int \<Rightarrow> bool \<Rightarrow> u64 \<Rightarrow> Rules" where
  "RulesOf c num isMerge timestamp =
    \<lparr> rChainID = (case ChainID c of None \<Rightarrow> 0 | Some i \<Rightarrow> i),
      rIsHomestead = IsHomestead c num, rIsEIP150 = IsEIP150 c num, rIsEIP155 = IsEIP155 c num,
      rIsEIP158 = IsEIP158 c num, rIsByzantium = IsByzantium c num,
      rIsConstantinople = IsConstantinople c num, rIsPetersburg = IsPetersburg c num,
      rIsIstanbul = IsIstanbul c num, rIsBerlin = IsBerlin c num, rIsLondon = IsLondon c num,
      rIsMerge = isMerge, rIsShanghai = IsShanghai c timestamp, rIsCancun = IsCancun c timestamp,
      rIsPrague = IsPrague c timestamp \<rparr>"

subsection \<open>Fork order\<close>

record fork =
  fname :: string
  fblock :: "int option"
  ftimestamp :: "u64 option"
  foptional :: bool

datatype ForkOrderError =
    NotEnabled string string
  | BlockOrder string string
  | TimestampOrder string string
  | BlockAfterTimestamp string string

definition block_fork :: "string \<Rightarrow> int option \<Rightarrow> bool \<Rightarrow> fork" where
  "block_fork n b opt = \<lparr> fname = n, fblock = b, ftimestamp = None, foptional = opt \<rparr>"

definition time_fork :: "string \<Rightarrow> u64 option \<Rightarrow> bool \<Rightarrow> fork" where
  "time_fork n t opt = \<lparr> fname = n, fblock = None, ftimestamp = t, foptional = opt \<rparr>"

text \<open>The fork table \<open>CheckConfigForkOrder\<close> ranges over, in the source's order.\<close>

definition fork_list :: "ChainConfig \<Rightarrow> fork list" where
  "fork_list c =
    [ block_fork ''homesteadBlock'' (HomesteadBlock c) False,
      block_fork ''daoForkBlock'' (DAOForkBlock c) True,
      block_fork ''eip150Block'' (EIP150Block c) False,
      block_fork ''eip155Block'' (EIP155Block c) False,
      block_fork ''eip158Block'' (EIP158Block c) False,
      block_fork ''byzantiumBlock'' (ByzantiumBlock c) False,
      block_fork ''constantinopleBlock'' (ConstantinopleBlock c) False,
      block_fork ''petersburgBlock'' (PetersburgBlock c) False,
      block_fork ''istanbulBlock'' (IstanbulBlock c) False,
      block_fork ''muirGlacierBlock'' (MuirGlacierBlock c) True,
      block_fork ''berlinBlock'' (BerlinBlock c) False,
      block_fork ''londonBlock'' (LondonBlock c) False,
      block_fork ''arrowGlacierBlock'' (ArrowGlacierBlock c) True,
      block_fork ''grayGlacierBlock'' (GrayGlacierBlock c) True,
      block_fork ''mergeNetsplitBlock'' (MergeNetsplitBlock c) True,
      time_fork ''shanghaiTime'' (ShanghaiTime c) False,
      time_fork ''cancunTime'' (CancunTime c) True,
      time_fork ''pragueTime'' (PragueTime c) True ]"

text \<open>
  One iteration's check of the current fork against the last one. The source compares \<open>block\<close>
  pointers that are both set in every case the fork table can reach, so the comparison of a set
  with an unset schedule is false here.
\<close>

definition fork_step :: "fork \<Rightarrow> fork \<Rightarrow> ForkOrderError option" where
  "fork_step lastF cur =
    (if fblock lastF = None \<and> ftimestamp lastF = None \<and>
        (fblock cur \<noteq> None \<or> ftimestamp cur \<noteq> None)
     then Some (NotEnabled (fname lastF) (fname cur))
     else if (fblock lastF \<noteq> None \<and> fblock cur \<noteq> None) \<or>
             (ftimestamp lastF \<noteq> None \<and> ftimestamp cur \<noteq> None)
     then (if (case (fblock lastF, fblock cur) of (Some l, Some k) \<Rightarrow> l > k | _ \<Rightarrow> False)
           then Some (BlockOrder (fname lastF) (fname cur))
           else if (case (ftimestamp lastF, ftimestamp cur) of (Some l, Some k) \<Rightarrow> l > k | _ \<Rightarrow> False)
           then Some (TimestampOrder (fname lastF) (fname cur))
           else if ftimestamp lastF \<noteq> None \<and> fblock cur \<noteq> None
           then Some (BlockAfterTimestamp (fname lastF) (fname cur))
           else None)
     else None)"

fun fork_loop :: "fork option \<Rightarrow> fork list \<Rightarrow> ForkOrderError option" where
  "fork_loop lastF [] = None"
| "fork_loop lastF (cur # fs) =
    (case (case lastF of None \<Rightarrow> None | Some l \<Rightarrow> fork_step l cur) of
       Some e \<Rightarrow> Some e
     | None \<Rightarrow>
         fork_loop (if \<not> foptional cur \<or> fblock cur \<noteq> None \<or> ftimestamp cur \<noteq> None
                    then Some cur else lastF) fs)"

definition CheckConfigForkOrder :: "ChainConfig \<Rightarrow> ForkOrderError option" where
  "CheckConfigForkOrder c = fork_loop None (fork_list c)"

subsection \<open>Compatibility of a stored and a new configuration\<close>

record ConfigCompatError =
  What :: string
  StoredBlock :: "int option"
  NewBlock :: "int option"
  StoredTime :: "u64 option"
  NewTime :: "u64 option"
  RewindToBlock :: u64
  RewindToTime :: u64

text \<open>The earlier of the two schedules, as both constructors of the error compute it.\<close>

definition rewind_block :: "int option \<Rightarrow> int option \<Rightarrow> int option" where
  "rewind_block storedblock newblock =
    (case storedblock of
       None \<Rightarrow> newblock
     | Some s \<Rightarrow> (case newblock of None \<Rightarrow> Some s | Some n \<Rightarrow> if s < n then Some s else Some n))"

definition newBlockCompatError ::
    "string \<Rightarrow> int option \<Rightarrow> int option \<Rightarrow> ConfigCompatError" where
  "newBlockCompatError what storedblock newblock =
    \<lparr> What = what, StoredBlock = storedblock, NewBlock = newblock, StoredTime = None,
      NewTime = None,
      RewindToBlock = (case rewind_block storedblock newblock of
                         None \<Rightarrow> 0
                       | Some rew \<Rightarrow> if rew > 0 then word_of_int rew - 1 else 0),
      RewindToTime = 0 \<rparr>"

definition rewind_time :: "u64 option \<Rightarrow> u64 option \<Rightarrow> u64 option" where
  "rewind_time storedtime newtime =
    (case storedtime of
       None \<Rightarrow> newtime
     | Some s \<Rightarrow> (case newtime of None \<Rightarrow> Some s | Some n \<Rightarrow> if s < n then Some s else Some n))"

definition newTimestampCompatError ::
    "string \<Rightarrow> u64 option \<Rightarrow> u64 option \<Rightarrow> ConfigCompatError" where
  "newTimestampCompatError what storedtime newtime =
    \<lparr> What = what, StoredBlock = None, NewBlock = None, StoredTime = storedtime,
      NewTime = newtime, RewindToBlock = 0,
      RewindToTime = (case rewind_time storedtime newtime of None \<Rightarrow> 0 | Some rew \<Rightarrow> rew - 1) \<rparr>"

definition checkCompatible ::
    "ChainConfig \<Rightarrow> ChainConfig \<Rightarrow> int \<Rightarrow> u64 \<Rightarrow> ConfigCompatError option" where
  "checkCompatible c n headNumber headTimestamp =
    (if isForkBlockIncompatible (HomesteadBlock c) (HomesteadBlock n) headNumber
     then Some (newBlockCompatError ''Homestead fork block'' (HomesteadBlock c) (HomesteadBlock n))
     else if isForkBlockIncompatible (DAOForkBlock c) (DAOForkBlock n) headNumber
     then Some (newBlockCompatError ''DAO fork block'' (DAOForkBlock c) (DAOForkBlock n))
     else if IsDAOFork c headNumber \<and> DAOForkSupport c \<noteq> DAOForkSupport n
     then Some (newBlockCompatError ''DAO fork support flag'' (DAOForkBlock c) (DAOForkBlock n))
     else if isForkBlockIncompatible (EIP150Block c) (EIP150Block n) headNumber
     then Some (newBlockCompatError ''EIP150 fork block'' (EIP150Block c) (EIP150Block n))
     else if isForkBlockIncompatible (EIP155Block c) (EIP155Block n) headNumber
     then Some (newBlockCompatError ''EIP155 fork block'' (EIP155Block c) (EIP155Block n))
     else if isForkBlockIncompatible (EIP158Block c) (EIP158Block n) headNumber
     then Some (newBlockCompatError ''EIP158 fork block'' (EIP158Block c) (EIP158Block n))
     else if IsEIP158 c headNumber \<and> \<not> configBlockEqual (ChainID c) (ChainID n)
     then Some (newBlockCompatError ''EIP158 chain ID'' (EIP158Block c) (EIP158Block n))
     else if isForkBlockIncompatible (ByzantiumBlock c) (ByzantiumBlock n) headNumber
     then Some (newBlockCompatError ''Byzantium fork block'' (ByzantiumBlock c) (ByzantiumBlock n))
     else if isForkBlockIncompatible (ConstantinopleBlock c) (ConstantinopleBlock n) headNumber
     then Some (newBlockCompatError ''Constantinople fork block''
                  (ConstantinopleBlock c) (ConstantinopleBlock n))
     else if isForkBlockIncompatible (PetersburgBlock c) (PetersburgBlock n) headNumber \<and>
             isForkBlockIncompatible (ConstantinopleBlock c) (PetersburgBlock n) headNumber
     then Some (newBlockCompatError ''Petersburg fork block''
                  (PetersburgBlock c) (PetersburgBlock n))
     else if isForkBlockIncompatible (IstanbulBlock c) (IstanbulBlock n) headNumber
     then Some (newBlockCompatError ''Istanbul fork block'' (IstanbulBlock c) (IstanbulBlock n))
     else if isForkBlockIncompatible (MuirGlacierBlock c) (MuirGlacierBlock n) headNumber
     then Some (newBlockCompatError ''Muir Glacier fork block''
                  (MuirGlacierBlock c) (MuirGlacierBlock n))
     else if isForkBlockIncompatible (BerlinBlock c) (BerlinBlock n) headNumber
     then Some (newBlockCompatError ''Berlin fork block'' (BerlinBlock c) (BerlinBlock n))
     else if isForkBlockIncompatible (LondonBlock c) (LondonBlock n) headNumber
     then Some (newBlockCompatError ''London fork block'' (LondonBlock c) (LondonBlock n))
     else if isForkBlockIncompatible (ArrowGlacierBlock c) (ArrowGlacierBlock n) headNumber
     then Some (newBlockCompatError ''Arrow Glacier fork block''
                  (ArrowGlacierBlock c) (ArrowGlacierBlock n))
     else if isForkBlockIncompatible (GrayGlacierBlock c) (GrayGlacierBlock n) headNumber
     then Some (newBlockCompatError ''Gray Glacier fork block''
                  (GrayGlacierBlock c) (GrayGlacierBlock n))
     else if isForkBlockIncompatible (MergeNetsplitBlock c) (MergeNetsplitBlock n) headNumber
     then Some (newBlockCompatError ''Merge netsplit fork block''
                  (MergeNetsplitBlock c) (MergeNetsplitBlock n))
     else if isForkTimestampIncompatible (ShanghaiTime c) (ShanghaiTime n) headTimestamp
     then Some (newTimestampCompatError ''Shanghai fork timestamp'' (ShanghaiTime c) (ShanghaiTime n))
     else if isForkTimestampIncompatible (CancunTime c) (CancunTime n) headTimestamp
     then Some (newTimestampCompatError ''Cancun fork timestamp'' (CancunTime c) (CancunTime n))
     else if isForkTimestampIncompatible (PragueTime c) (PragueTime n) headTimestamp
     then Some (newTimestampCompatError ''Prague fork timestamp'' (PragueTime c) (PragueTime n))
     else None)"

text \<open>
  The search loop of \<open>CheckCompatible\<close>: \<open>None\<close> is a loop that has not stopped within its fuel,
  \<open>Some None\<close> the result nil, \<open>Some (Some e)\<close> the lowest conflict \<open>e\<close>.
\<close>

fun CheckCompatible_loop :: "nat \<Rightarrow> ChainConfig \<Rightarrow> ChainConfig \<Rightarrow> int \<Rightarrow> u64 \<Rightarrow>
    ConfigCompatError option \<Rightarrow> ConfigCompatError option option" where
  "CheckCompatible_loop 0 c n bhead btime lasterr = None"
| "CheckCompatible_loop (Suc fuel) c n bhead btime lasterr =
    (case checkCompatible c n bhead btime of
       None \<Rightarrow> Some lasterr
     | Some err \<Rightarrow>
         (if (case lasterr of None \<Rightarrow> False
              | Some l \<Rightarrow> RewindToBlock err = RewindToBlock l \<and> RewindToTime err = RewindToTime l)
          then Some lasterr
          else if RewindToTime err > 0
          then CheckCompatible_loop fuel c n bhead (RewindToTime err) (Some err)
          else CheckCompatible_loop fuel c n (uint (RewindToBlock err)) btime (Some err)))"

definition CheckCompatible :: "nat \<Rightarrow> ChainConfig \<Rightarrow> ChainConfig \<Rightarrow> u64 \<Rightarrow> u64 \<Rightarrow>
    ConfigCompatError option option" where
  "CheckCompatible fuel c newcfg height time =
     CheckCompatible_loop fuel c newcfg (uint height) time None"

end
