(* ===== verification/Types.thy ===== *)
theory Types
  imports Params
begin

text \<open>
  The block data the consensus rules read: \<open>Header\<close> and \<open>Block\<close> of
  \<^verbatim>\<open>client/core/types/block.go\<close>. \<open>Difficulty\<close> and \<open>Number\<close> are required fields of the RLP
  encoding and never nil; the optional fields are \<open>None\<close> when the pointer is nil. A \<open>Bloom\<close> is
  2048 bits, a \<open>BlockNonce\<close> the \<open>uint64\<close> its 8 bytes encode. Header hashing (RLP and Keccak) is
  not modelled: the users of \<open>Header.Hash\<close> take the hash function as a parameter.
\<close>

record Header =
  ParentHash :: hash
  UncleHash :: hash
  Coinbase :: address
  Root :: hash
  TxHash :: hash
  ReceiptHash :: hash
  Bloom :: "2048 word"
  Difficulty :: int
  Number :: int
  GasLimit :: u64
  GasUsed :: u64
  Time :: u64
  Extra :: bytes
  MixDigest :: hash
  Nonce :: u64
  BaseFee :: "int option"
  WithdrawalsHash :: "hash option"
  ExcessDataGas :: "int option"

definition EmptyUncleHash :: hash where
  "EmptyUncleHash = 0x1dcc4de8dec75d7aab85b567b6ccd41ad312451b948a7413f0a142fd40d49347"

text \<open>The parts of a \<open>Block\<close> that header and uncle verification read.\<close>

record Block =
  bHeader :: Header
  bUncles :: "Header list"

definition NumberU64 :: "Block \<Rightarrow> u64" where
  "NumberU64 b = word_of_int (Number (bHeader b))"

text \<open>A header with every field at its zero value, the base of the concrete headers below.\<close>

definition zeroHeader :: Header where
  "zeroHeader = \<lparr> ParentHash = 0, UncleHash = EmptyUncleHash, Coinbase = 0, Root = 0, TxHash = 0,
     ReceiptHash = 0, Bloom = 0, Difficulty = 131072, Number = 0, GasLimit = 0, GasUsed = 0,
     Time = 0, Extra = [], MixDigest = 0, Nonce = 0, BaseFee = None, WithdrawalsHash = None,
     ExcessDataGas = None \<rparr>"

end
