(* ===== verification/Misc_Fees.thy ===== *)
theory Misc_Fees
  imports Types
begin

text \<open>
  The fork-specific header rules of \<^verbatim>\<open>client/consensus/misc\<close>: the gas-limit corridor
  (\<^verbatim>\<open>gaslimit.go\<close>), the EIP-1559 base fee (\<^verbatim>\<open>eip1559.go\<close>), the EIP-4844 data-gas price with its
  Taylor-series loop (\<^verbatim>\<open>eip4844.go\<close>) and the DAO extra-data rule (\<^verbatim>\<open>dao.go\<close>).

  Facts: the gas-limit check is the intended corridor on all limits a header may carry; the base
  fee moves by at most one eighth (or by 1) and in the direction of the gas used; the loop of
  \<open>fakeExponential\<close> ends for every numerator, and the price it yields is at least the factor and
  monotone in the numerator.
\<close>

section \<open>Definitions\<close>

datatype HeaderError =
    ErrExtraTooLong
  | ErrFutureBlock
  | ErrOlderBlockTime
  | ErrDifficultyMismatch
  | ErrGasLimitAboveMax
  | ErrGasUsedAboveLimit
  | ErrBaseFeeBeforeFork
  | ErrGasLimitCorridor
  | ErrGasLimitBelowMin
  | ErrMissingBaseFee
  | ErrInvalidBaseFee
  | ErrInvalidNumber
  | ErrShanghai
  | ErrCancun
  | ErrInvalidDifficulty
  | ErrInvalidMixDigest
  | ErrInvalidPoW
  | ErrBadProDAOExtra
  | ErrBadNoDAOExtra
  | ErrUnknownAncestor
  | ErrTooManyUncles
  | ErrDuplicateUncle
  | ErrUncleIsAncestor
  | ErrDanglingUncle

text \<open>\<open>big.Int.Div\<close> is Euclidean division (the remainder is never negative); division by zero panics.\<close>

definition BigDiv :: "int \<Rightarrow> int \<Rightarrow> int go" where
  "BigDiv x d = (if d = 0 then Panic ''division by zero'' else Ret (sgn d * (x div \<bar>d\<bar>)))"

text \<open>\<open>int64\<close> values are 64-bit words read with \<^const>\<open>sint\<close>; \<open>diff *= -1\<close> wraps.\<close>

definition VerifyGaslimit :: "u64 \<Rightarrow> u64 \<Rightarrow> HeaderError option" where
  "VerifyGaslimit parentGasLimit headerGasLimit =
    (let diff = parentGasLimit - headerGasLimit;
         diff = (if sint diff < 0 then - diff else diff);
         limit = parentGasLimit div GasLimitBoundDivisor
     in if diff \<ge> limit then Some ErrGasLimitCorridor
        else if headerGasLimit < MinGasLimit then Some ErrGasLimitBelowMin
        else None)"

definition CalcBaseFee :: "ChainConfig \<Rightarrow> Header \<Rightarrow> int go" where
  "CalcBaseFee config parent =
    (if \<not> IsLondon config (Number parent) then Ret InitialBaseFee
     else case BaseFee parent of None \<Rightarrow> Panic ''nil pointer dereference'' | Some baseFee \<Rightarrow>
      let parentGasTarget = GasLimit parent div ElasticityMultiplier config in
      if GasUsed parent = parentGasTarget then Ret baseFee
      else if GasUsed parent > parentGasTarget then
        go_bind (BigDiv (uint (GasUsed parent - parentGasTarget) * baseFee) (uint parentGasTarget))
          (\<lambda>num. go_bind (BigDiv num (uint (BaseFeeChangeDenominator config)))
          (\<lambda>num. Ret (baseFee + BigMax num 1)))
      else
        go_bind (BigDiv (uint (parentGasTarget - GasUsed parent) * baseFee) (uint parentGasTarget))
          (\<lambda>num. go_bind (BigDiv num (uint (BaseFeeChangeDenominator config)))
          (\<lambda>num. Ret (BigMax (baseFee - num) 0))))"

definition VerifyEip1559Header :: "ChainConfig \<Rightarrow> Header \<Rightarrow> Header \<Rightarrow> HeaderError option go" where
  "VerifyEip1559Header config parent header =
    (let parentGasLimit =
           (if \<not> IsLondon config (Number parent)
            then GasLimit parent * ElasticityMultiplier config else GasLimit parent) in
     case VerifyGaslimit parentGasLimit (GasLimit header) of
       Some e \<Rightarrow> Ret (Some e)
     | None \<Rightarrow>
        (case BaseFee header of
           None \<Rightarrow> Ret (Some ErrMissingBaseFee)
         | Some have \<Rightarrow>
             go_bind (CalcBaseFee config parent) (\<lambda>expectedBaseFee.
               Ret (if have \<noteq> expectedBaseFee then Some ErrInvalidBaseFee else None))))"

text \<open>
  The loop of \<open>fakeExponential\<close> with its locals \<open>i\<close>, \<open>output\<close>, \<open>accum\<close>. It is only entered with a
  positive \<open>accum\<close>, hence a non-zero denominator, and \<open>i\<close> starts at 1, so neither division in the
  body can panic; \<open>None\<close> is a loop that never ends.
\<close>

definition eucl_div :: "int \<Rightarrow> int \<Rightarrow> int" where
  "eucl_div x d = sgn d * (x div \<bar>d\<bar>)"

partial_function (option) fakeExponential_loop ::
    "int \<Rightarrow> int \<Rightarrow> int \<Rightarrow> int \<Rightarrow> int \<Rightarrow> int option" where
  "fakeExponential_loop numerator denominator i output accum =
    (if accum > 0
     then fakeExponential_loop numerator denominator (i + 1) (output + accum)
            (eucl_div (eucl_div (accum * numerator) denominator) i)
     else Some output)"

definition fakeExponential :: "int \<Rightarrow> int \<Rightarrow> int \<Rightarrow> int go" where
  "fakeExponential factor numerator denominator =
    (case fakeExponential_loop numerator denominator 1 0 (factor * denominator) of
       None \<Rightarrow> NoFuel
     | Some output \<Rightarrow> BigDiv output denominator)"

definition CalcBlobFee :: "int option \<Rightarrow> int go" where
  "CalcBlobFee excessDataGas =
    (case excessDataGas of
       None \<Rightarrow> Ret BlobTxMinDataGasprice
     | Some e \<Rightarrow> fakeExponential BlobTxMinDataGasprice e BlobTxDataGaspriceUpdateFraction)"

text \<open>The bytes of \<open>dao-hard-fork\<close>.\<close>

definition DAOForkBlockExtra :: bytes where
  "DAOForkBlockExtra =
     [0x64, 0x61, 0x6f, 0x2d, 0x68, 0x61, 0x72, 0x64, 0x2d, 0x66, 0x6f, 0x72, 0x6b]"

definition VerifyDAOHeaderExtraData :: "ChainConfig \<Rightarrow> Header \<Rightarrow> HeaderError option" where
  "VerifyDAOHeaderExtraData config header =
    (case DAOForkBlock config of
       None \<Rightarrow> None
     | Some forkBlock \<Rightarrow>
         let limit = forkBlock + 10 in
         if Number header < forkBlock \<or> Number header \<ge> limit then None
         else if DAOForkSupport config
         then (if Extra header \<noteq> DAOForkBlockExtra then Some ErrBadProDAOExtra else None)
         else (if Extra header = DAOForkBlockExtra then Some ErrBadNoDAOExtra else None))"

section \<open>The gas-limit corridor\<close>

lemma VerifyGaslimit_None_iff:
  assumes "p \<le> MaxGasLimit" "h \<le> MaxGasLimit"
  shows "VerifyGaslimit p h = None \<longleftrightarrow>
           \<bar>uint p - uint h\<bar> < uint p div 1024 \<and> 5000 \<le> uint h"
proof -
  have b: "uint p < 2 ^ 63" "uint h < 2 ^ 63" using assms by (simp_all add: word_le_def)
  define d where "d = (if sint (p - h) < 0 then - (p - h) else p - h)"
  have "uint d = \<bar>uint p - uint h\<bar>"
    using b by (auto simp: d_def sint_diff_u64 uint_sub_if')
  then show ?thesis
    by (simp add: VerifyGaslimit_def Let_def word_le_def word_less_def uint_div not_le flip: d_def)
qed

text \<open>
  For all gas limits a header may carry (at most \<open>2^63-1\<close>), \<open>VerifyGaslimit\<close> accepts exactly when
  the new limit differs from the parent's by less than a 1024th of the parent's and is at least
  5000; the signed 64-bit subtraction it uses does not wrap there.
\<close>

theorem VerifyGaslimit_corridor:
  assumes "p \<le> MaxGasLimit" "h \<le> MaxGasLimit"
  shows "VerifyGaslimit p h = None \<longleftrightarrow>
           \<bar>uint p - uint h\<bar> < uint p div 1024 \<and> 5000 \<le> uint h"
  using assms by (rule VerifyGaslimit_None_iff)

theorem VerifyGaslimit_corridor_witness:
  "VerifyGaslimit 30000000 30029295 = None \<and> VerifyGaslimit 30000000 30029296 \<noteq> None"
  using VerifyGaslimit_corridor [of 30000000 30029295] VerifyGaslimit_corridor [of 30000000 30029296]
  by simp

section \<open>The base fee\<close>

lemma eucl_div_pos: "0 < d \<Longrightarrow> eucl_div x d = x div d"
  by (simp add: eucl_div_def)

lemma BigDiv_pos: "0 < d \<Longrightarrow> BigDiv x d = Ret (x div d)"
  by (simp add: BigDiv_def)

lemma CalcBaseFee_London:
  assumes "IsLondon config (Number parent)" "BaseFee parent = Some b"
    and "t = uint (GasLimit parent) div 2" "0 < t"
  shows "CalcBaseFee config parent = Ret
    (let g = uint (GasUsed parent) in
     if g = t then b else if g > t then b + max 1 ((g - t) * b div t div 8)
     else max 0 (b - (t - g) * b div t div 8))"
proof -
  have t: "uint (GasLimit parent div 2) = t" using assms by (simp add: uint_div)
  have eq: "GasUsed parent = GasLimit parent div 2 \<longleftrightarrow> uint (GasUsed parent) = t"
    by (simp add: word_uint_eq_iff t)
  show ?thesis
    using assms(1,2,4)
    by (auto simp: CalcBaseFee_def eq Let_def ElasticityMultiplier_def BaseFeeChangeDenominator_def
          BigDiv_pos t word_less_def BigMax_def uint_sub_if' max_def)
qed

lemma fee_delta_le:
  fixes b t k :: int
  assumes "0 \<le> b" "0 < t" "k \<le> t"
  shows "k * b div t div 8 \<le> b div 8"
proof -
  have "k * b div t \<le> t * b div t" using assms by (intro zdiv_mono1 mult_right_mono) auto
  then show ?thesis using assms by (intro zdiv_mono1) auto
qed

text \<open>
  On a London parent with a positive gas target whose gas used is at most twice the target,
  \<open>CalcBaseFee\<close> returns a non-negative fee; it is unchanged at the target, strictly higher above it
  by at most \<open>max 1 (b div 8)\<close>, and not higher below it, by at most \<open>b div 8\<close> lower.
\<close>

theorem CalcBaseFee_bounds:
  assumes "IsLondon config (Number parent)" "BaseFee parent = Some b" "0 \<le> b"
    and "t = uint (GasLimit parent) div 2" "0 < t"
    and "g = uint (GasUsed parent)" "g \<le> 2 * t"
  shows "\<exists>f. CalcBaseFee config parent = Ret f \<and> 0 \<le> f \<and>
           (g = t \<longrightarrow> f = b) \<and>
           (g > t \<longrightarrow> b < f \<and> f \<le> b + max 1 (b div 8)) \<and>
           (g < t \<longrightarrow> f \<le> b \<and> b - b div 8 \<le> f)"
proof -
  define u v where "u = (g - t) * b div t div 8" and "v = (t - g) * b div t div 8"
  have "CalcBaseFee config parent =
      Ret (if g = t then b else if g > t then b + max 1 u else max 0 (b - v))"
    using CalcBaseFee_London [OF assms(1,2,4,5)] by (simp add: u_def v_def assms(6) Let_def)
  moreover have "u \<le> b div 8" "v \<le> b div 8"
    unfolding u_def v_def using assms by (auto intro: fee_delta_le)
  moreover have "g < t \<Longrightarrow> 0 \<le> v"
    using assms by (simp add: v_def pos_imp_zdiv_nonneg_iff)
  moreover have "b div 8 \<le> b" using assms(3) by linarith
  ultimately show ?thesis using assms(3) by (simp add: max_def)
qed

theorem CalcBaseFee_bounds_witness:
  "\<exists>f. CalcBaseFee AllEthashProtocolChanges
         (zeroHeader \<lparr> GasLimit := 30000000, GasUsed := 30000000, BaseFee := Some 1000000000 \<rparr>) = Ret f \<and>
       1000000000 < f \<and> f \<le> 1125000000"
proof -
  have "IsLondon AllEthashProtocolChanges (Number zeroHeader)"
    by (simp add: IsLondon_def AllEthashProtocolChanges_def zeroHeader_def)
  then show ?thesis
    using CalcBaseFee_bounds [of AllEthashProtocolChanges
      "zeroHeader \<lparr> GasLimit := 30000000, GasUsed := 30000000, BaseFee := Some 1000000000 \<rparr>"
      1000000000 15000000 30000000] by fastforce
qed

section \<open>The data-gas price\<close>

lemma fakeExponential_induct [consumes 3, case_names step]:
  fixes num denom :: int
  assumes pos: "0 < num" "0 < denom" and i: "1 \<le> i"
    and step: "\<And>i out acc. 1 \<le> i \<Longrightarrow>
      (0 < acc \<Longrightarrow> P (i + 1) (out + acc) (acc * num div denom div i)) \<Longrightarrow> P i out acc"
  shows "P i (out :: int) (acc :: int)"
proof -
  let ?r = "inv_image (less_than <*lex*> less_than)
              (\<lambda>(i, out :: int, acc). (nat (num div denom + 1 - i), nat acc))"
  have "wf ?r" by auto
  then have "1 \<le> i \<Longrightarrow> P i out acc" for i out acc
  proof (induction "(i, out, acc)" arbitrary: i out acc rule: wf_induct_rule)
    case less
    show ?case
    proof (rule step [OF \<open>1 \<le> i\<close>])
      assume acc: "0 < acc"
      have eq: "acc * num div denom div i = acc * num div (denom * i)"
        using pos less(2) by (simp add: zdiv_zmult2_eq)
      have "acc * num div (denom * i) < acc" if "num div denom < i"
      proof -
        have "num < i * denom" using that pos by (simp add: int_div_less_iff)
        then have "acc * num < acc * (denom * i)" using acc by (simp add: mult.commute)
        moreover have "0 < denom * i" using pos less(2) by simp
        ultimately show ?thesis by (simp only: int_div_less_iff)
      qed
      then have "((i + 1, out + acc, acc * num div denom div i), i, out, acc) \<in> ?r"
        using eq acc less(2) by auto
      from less(1) [OF this] less(2) show "P (i + 1) (out + acc) (acc * num div denom div i)" by simp
    qed
  qed
  then show ?thesis using i by blast
qed

lemma fakeExponential_loop_ge:
  assumes "0 < num" "0 < denom" "1 \<le> i"
  shows "\<exists>y. fakeExponential_loop num denom i out acc = Some y \<and> out + max 0 acc \<le> y"
  using assms
proof (induction i out acc rule: fakeExponential_induct)
  case (step i out acc)
  have "0 < acc \<Longrightarrow> 0 \<le> acc * num div denom div i"
    using step(1) assms by (simp add: pos_imp_zdiv_nonneg_iff)
  with step assms show ?case
    by (subst fakeExponential_loop.simps) (fastforce simp: eucl_div_pos)
qed

lemma fakeExponential_loop_mono:
  assumes "0 < num'" "0 < denom" "1 \<le> i" "0 < num" "num \<le> num'"
    and "out \<le> out'" "acc \<le> acc'"
    and "fakeExponential_loop num denom i out acc = Some y"
    and "fakeExponential_loop num' denom i out' acc' = Some y'"
  shows "y \<le> y'"
  using assms
proof (induction i out' acc' arbitrary: out acc rule: fakeExponential_induct)
  case (step i out' acc')
  show ?case
  proof (cases "0 < acc")
    case True
    have "acc * num \<le> acc' * num'"
      using step.prems True by (intro mult_mono) auto
    then have "acc * num div denom div i \<le> acc' * num' div denom div i"
      using assms(2) step(1) by (intro zdiv_mono1) auto
    then show ?thesis
      using step.prems step(1) assms(2) True
      by (intro step.IH [of "out + acc" "acc * num div denom div i"])
        (auto simp: eucl_div_pos fakeExponential_loop.simps [of _ _ i])
  next
    case False
    then have "y = out" using step.prems by (simp add: fakeExponential_loop.simps [of _ _ i])
    then show ?thesis
      using step.prems fakeExponential_loop_ge [of num' denom i out' acc'] step(1) assms(1,2) by fastforce
  qed
qed

lemma fakeExponential_loop_nonpos:
  assumes "num \<le> 0" "0 < denom"
  shows "fakeExponential_loop num denom 1 out acc = Some (out + max 0 acc)"
proof -
  have "acc * num div denom \<le> 0" if "0 < acc"
    using assms that by (simp add: div_nonpos_pos_le0 mult_nonneg_nonpos)
  then show ?thesis
    using assms by (subst fakeExponential_loop.simps, subst fakeExponential_loop.simps)
      (auto simp: eucl_div_pos)
qed


lemma fakeExponential_returns:
  assumes "0 < denom" "0 \<le> factor"
  shows "\<exists>y. fakeExponential factor num denom = Ret y \<and> factor \<le> y"
proof (cases "0 < num")
  case True
  then obtain y where y: "fakeExponential_loop num denom 1 0 (factor * denom) = Some y"
      "factor * denom \<le> y"
    using fakeExponential_loop_ge [of num denom 1 0 "factor * denom"] assms by auto
  have "factor * denom div denom \<le> y div denom" using y assms by (intro zdiv_mono1) auto
  then show ?thesis using y assms by (simp add: fakeExponential_def BigDiv_pos)
next
  case False
  then show ?thesis
    using assms by (simp add: fakeExponential_def fakeExponential_loop_nonpos BigDiv_pos max_def)
qed

lemma fakeExponential_mono:
  assumes "0 < denom" "0 \<le> factor" "num \<le> num'"
    and "fakeExponential factor num denom = Ret y" "fakeExponential factor num' denom = Ret y'"
  shows "y \<le> y'"
proof (cases "0 < num")
  case True
  then obtain o1 o2
    where o: "fakeExponential_loop num denom 1 0 (factor * denom) = Some o1"
        "fakeExponential_loop num' denom 1 0 (factor * denom) = Some o2"
    using fakeExponential_loop_ge [of num denom 1 0 "factor * denom"]
      fakeExponential_loop_ge [of num' denom 1 0 "factor * denom"] assms by fastforce
  then have "o1 \<le> o2"
    using True assms by (intro fakeExponential_loop_mono [OF _ _ _ _ _ _ _ o]) auto
  then show ?thesis
    using o assms by (auto simp: fakeExponential_def BigDiv_pos intro!: zdiv_mono1)
next
  case False
  then have "y = factor"
    using assms by (simp add: fakeExponential_def fakeExponential_loop_nonpos BigDiv_pos max_def
      split: if_splits)
  then show ?thesis using fakeExponential_returns [OF assms(1,2), of num'] assms by auto
qed

text \<open>
  \<open>CalcBlobFee\<close> terminates and returns for every excess data gas; the price is at least the minimum
  price 1 and never falls when the excess grows.
\<close>

theorem CalcBlobFee_total_mono:
  "\<exists>y y'. CalcBlobFee (Some e) = Ret y \<and> CalcBlobFee (Some (e + \<bar>d\<bar>)) = Ret y' \<and>
     1 \<le> y \<and> y \<le> y'"
proof -
  obtain y where y: "CalcBlobFee (Some e) = Ret y" "1 \<le> y"
    using fakeExponential_returns [of BlobTxDataGaspriceUpdateFraction 1 e]
    by (auto simp: CalcBlobFee_def)
  obtain y' where y': "CalcBlobFee (Some (e + \<bar>d\<bar>)) = Ret y'"
    using fakeExponential_returns [of BlobTxDataGaspriceUpdateFraction 1 "e + \<bar>d\<bar>"]
    by (auto simp: CalcBlobFee_def)
  have "y \<le> y'"
    using y y' fakeExponential_mono [of BlobTxDataGaspriceUpdateFraction 1 e "e + \<bar>d\<bar>" y y']
    by (simp add: CalcBlobFee_def)
  with y y' show ?thesis by blast
qed

end
