(* ===== verification/Ethash.thy ===== *)
theory Ethash
  imports Misc_Fees
begin

text \<open>
  The Ethash-R5 engine, \<^verbatim>\<open>client/consensus/ethash/consensus.go\<close> and
  \<^verbatim>\<open>client/consensus/ethash/difficulty.go\<close>: the emission schedule and the circulating supply, the
  three difficulty calculators in their \<open>big.Int\<close> and \<open>uint256\<close> versions, header, seal and uncle
  verification, and \<open>Prepare\<close>.

  Parameters: \<open>Header.Hash\<close>, the RLP-then-Keccak hash behind \<open>SealHash\<close>, and the two
  \<open>hashimoto\<close> digests (the light one over the verification cache, the full one over the dataset,
  which is absent while it is being generated). \<open>time.Now().Unix()\<close> is an argument.

  Facts: below the final block the supply is the premine plus the sum of the rewards the engine
  mints, it never exceeds the cap, and the schedule falls short of the cap; every calculator yields
  at least the minimum difficulty and the \<open>uint256\<close> versions agree with the arbitrary-precision
  ones; \<open>verifyHeader\<close> accepts exactly the headers that satisfy the consensus rules;
  \<open>VerifyUncles\<close> only accepts recent, unrewarded side headers.
\<close>

section \<open>Emission schedule\<close>

abbreviation weiPerR5 :: int where "weiPerR5 \<equiv> 1000000000000000000"
definition SupplyCap :: int where "SupplyCap = 66337700 * weiPerR5"
definition preminedSupply :: int where "preminedSupply = 2000000 * weiPerR5"
definition finalBlock :: u64 where "finalBlock = 1290406400"

definition minBlocks :: "u64 \<Rightarrow> u64 \<Rightarrow> u64 \<Rightarrow> u64" where
  "minBlocks blockNum start stop =
    (if blockNum < start then 0
     else if blockNum > stop then stop - start + 1
     else blockNum - start + 1)"

text \<open>\<open>big.NewInt(int64(blocks))\<close> reads the count as a signed integer.\<close>

definition CalculateCirculatingSupply :: "u64 \<Rightarrow> int" where
  "CalculateCirculatingSupply blockNum =
    (if blockNum \<ge> finalBlock then preminedSupply + 64337700 * weiPerR5
     else
      let supply = preminedSupply;
          supply = supply + sint (minBlocks blockNum 1 4000000) * (2 * weiPerR5);
          supply = supply + sint (minBlocks blockNum 4000001 8000000) * weiPerR5;
          supply = supply + sint (minBlocks blockNum 8000001 16000000) * 500000000000000000;
          supply = supply + sint (minBlocks blockNum 16000001 32000000) * 250000000000000000;
          supply = supply + sint (minBlocks blockNum 32000001 64000000) * 125000000000000000;
          supply = supply + sint (minBlocks blockNum 64000001 128000000) * 62500000000000000
      in if blockNum > 128000000
         then supply + sint (minBlocks blockNum 128000001 blockNum) * 31250000000000000
         else supply)"

definition calculateBlockReward :: "u64 \<Rightarrow> int \<Rightarrow> int" where
  "calculateBlockReward blockNumber totalSupply =
    (if totalSupply \<ge> SupplyCap then 0
     else let oneR5 = 1 * weiPerR5 in
      if blockNumber \<le> 4000000 then 2 * oneR5
      else if blockNumber \<le> 8000000 then oneR5
      else if blockNumber \<le> 16000000 then oneR5 div 2
      else if blockNumber \<le> 32000000 then oneR5 div 4
      else if blockNumber \<le> 64000000 then oneR5 div 8
      else if blockNumber \<le> 128000000 then oneR5 div 16
      else oneR5 div 32)"

text \<open>The amount \<open>accumulateRewards\<close> credits to the coinbase of block \<open>number\<close>.\<close>

definition blockReward :: "u64 \<Rightarrow> int" where
  "blockReward number = calculateBlockReward number (CalculateCirculatingSupply number)"

section \<open>Difficulty\<close>

abbreviation minimumDifficulty :: u256 where "minimumDifficulty \<equiv> 131072"

text \<open>
  \<open>makeDifficultyCalculator()\<close>: the closure it returns. \<open>MakeDifficultyCalculatorU256\<close> of
  \<^verbatim>\<open>difficulty.go\<close> has the same body and ignores its bomb delay.
\<close>

definition makeDifficultyCalculator :: "u64 \<Rightarrow> Header \<Rightarrow> int" where
  "makeDifficultyCalculator time parent =
    (let x = (time - Time parent) div 7;
         c = (if UncleHash parent \<noteq> EmptyUncleHash then 2 else 1);
         xNeg = (x \<ge> c);
         x = (if xNeg then x - c else c - x);
         x = (if x > 99 then 99 else x);
         pDiff = FromBig (Difficulty parent);
         y = drop_bit 11 pDiff;
         z = y * SetUint64 x;
         y = (if xNeg then pDiff - z else pDiff + z);
         y = (if y < minimumDifficulty then minimumDifficulty else y)
     in ToBig y)"

definition MakeDifficultyCalculatorU256 :: "int \<Rightarrow> u64 \<Rightarrow> Header \<Rightarrow> int" where
  "MakeDifficultyCalculatorU256 bombDelay time parent =
    (let x = (time - Time parent) div 7;
         c = (if UncleHash parent \<noteq> EmptyUncleHash then 2 else 1);
         xNeg = (x \<ge> c);
         x = (if xNeg then x - c else c - x);
         x = (if x > 99 then 99 else x);
         pDiff = FromBig (Difficulty parent);
         y = drop_bit 11 pDiff;
         z = y * SetUint64 x;
         y = (if xNeg then pDiff - z else pDiff + z);
         y = (if y < minimumDifficulty then minimumDifficulty else y)
     in ToBig y)"

definition calcDifficultyHomestead :: "u64 \<Rightarrow> Header \<Rightarrow> int" where
  "calcDifficultyHomestead time parent =
    (let x = 1 - (uint time - uint (Time parent)) div 7;
         x = (if x < -99 then -99 else x);
         y = Difficulty parent div DifficultyBoundDivisor;
         x = Difficulty parent + y * x
     in if x < MinimumDifficulty then MinimumDifficulty else x)"

definition calcDifficultyFrontier :: "u64 \<Rightarrow> Header \<Rightarrow> int" where
  "calcDifficultyFrontier time parent =
    (let adjust = Difficulty parent div DifficultyBoundDivisor;
         diff = (if uint time - uint (Time parent) < DurationLimit
                 then Difficulty parent + adjust else Difficulty parent - adjust)
     in if diff < MinimumDifficulty then MinimumDifficulty else diff)"

definition CalcDifficultyFrontierU256 :: "u64 \<Rightarrow> Header \<Rightarrow> int" where
  "CalcDifficultyFrontierU256 time parent =
    (let pDiff = FromBig (Difficulty parent);
         adjust = drop_bit 11 pDiff;
         pDiff = (if time - Time parent < 7 then pDiff + adjust else pDiff - adjust);
         pDiff = (if pDiff < minimumDifficulty then minimumDifficulty else pDiff)
     in ToBig pDiff)"

definition CalcDifficultyHomesteadU256 :: "u64 \<Rightarrow> Header \<Rightarrow> int" where
  "CalcDifficultyHomesteadU256 time parent =
    (let pDiff = FromBig (Difficulty parent);
         adjust = drop_bit 11 pDiff;
         x = (time - Time parent) div 7;
         neg = (x \<noteq> 0);
         x = (if x = 0 then 1 else if x \<ge> 100 then 99 else x - 1);
         adjust = adjust * SetUint64 x;
         pDiff = (if neg then pDiff - adjust else pDiff + adjust);
         pDiff = (if pDiff < minimumDifficulty then minimumDifficulty else pDiff)
     in ToBig pDiff)"

definition CalcDifficulty :: "ChainConfig \<Rightarrow> u64 \<Rightarrow> Header \<Rightarrow> int" where
  "CalcDifficulty config time parent =
    (let next_num = Number parent + 1 in
     if IsGrayGlacier config next_num then makeDifficultyCalculator time parent
     else if IsArrowGlacier config next_num then makeDifficultyCalculator time parent
     else if IsLondon config next_num then makeDifficultyCalculator time parent
     else if IsMuirGlacier config next_num then makeDifficultyCalculator time parent
     else if IsConstantinople config next_num then makeDifficultyCalculator time parent
     else if IsByzantium config next_num then makeDifficultyCalculator time parent
     else if IsHomestead config next_num then calcDifficultyHomestead time parent
     else calcDifficultyFrontier time parent)"

section \<open>Seals\<close>

datatype Mode = ModeNormal | ModeShared | ModeTest | ModeFake | ModeFullFake

text \<open>The fields of \<open>Ethash\<close> that verification reads: \<open>config.PowMode\<close>, \<open>fakeFail\<close>, \<open>shared\<close>.\<close>

datatype Ethash = Ethash (PowMode: Mode) (fakeFail: u64) (shared: "Ethash option")

text \<open>The items \<open>SealHash\<close> encodes, in order.\<close>

datatype rlpItem = RHash hash | RAddress address | RBloom "2048 word" | RBig int | RUint u64 | RBytes bytes

record PowParams =
  headerHash :: "Header \<Rightarrow> hash"
  rlpKeccak :: "rlpItem list \<Rightarrow> hash"
  hashimotoLight :: "u64 \<Rightarrow> bool \<Rightarrow> hash \<Rightarrow> u64 \<Rightarrow> bytes \<times> bytes"
  hashimotoFull :: "u64 \<Rightarrow> (hash \<Rightarrow> u64 \<Rightarrow> bytes \<times> bytes) option"

definition SealHash :: "PowParams \<Rightarrow> Header \<Rightarrow> hash go" where
  "SealHash P header =
    (let enc = [RHash (ParentHash header), RHash (UncleHash header), RAddress (Coinbase header),
                RHash (Root header), RHash (TxHash header), RHash (ReceiptHash header),
                RBloom (Bloom header), RBig (Difficulty header), RBig (Number header),
                RUint (GasLimit header), RUint (GasUsed header), RUint (Time header),
                RBytes (Extra header)];
         enc = (case BaseFee header of None \<Rightarrow> enc | Some f \<Rightarrow> enc @ [RBig f])
     in case WithdrawalsHash header of
          Some w \<Rightarrow> Panic ''withdrawal hash set on ethash''
        | None \<Rightarrow> Ret (rlpKeccak P enc))"

text \<open>The comparison of the recomputed digest and result with the header.\<close>

definition checkSeal :: "Header \<Rightarrow> bytes \<times> bytes \<Rightarrow> HeaderError option" where
  "checkSeal header dr =
    (case dr of (digest, result) \<Rightarrow>
      if Bytes32 (MixDigest header) \<noteq> digest then Some ErrInvalidMixDigest
      else if int (bytes_to_nat result) > 2 ^ 256 div Difficulty header then Some ErrInvalidPoW
      else None)"

fun verifySeal :: "PowParams \<Rightarrow> Ethash \<Rightarrow> Header \<Rightarrow> bool \<Rightarrow> HeaderError option go" where
  "verifySeal P (Ethash mode ff sh) header fulldag =
    (if mode = ModeFake \<or> mode = ModeFullFake
     then Ret (if ff = word_of_int (Number header) then Some ErrInvalidPoW else None)
     else case sh of
       Some s \<Rightarrow> verifySeal P s header fulldag
     | None \<Rightarrow>
        if Difficulty header \<le> 0 then Ret (Some ErrInvalidDifficulty)
        else
          let number = word_of_int (Number header);
              light = go_bind (SealHash P header) (\<lambda>h.
                Ret (hashimotoLight P number (mode = ModeTest) h (Nonce header)))
          in go_bind
               (if fulldag
                then (case hashimotoFull P number of
                        Some full \<Rightarrow> go_bind (SealHash P header) (\<lambda>h. Ret (full h (Nonce header)))
                      | None \<Rightarrow> light)
                else light)
               (\<lambda>dr. Ret (checkSeal header dr)))"

section \<open>Headers\<close>

record ChainReader =
  Config :: ChainConfig
  GetHeader :: "hash \<Rightarrow> u64 \<Rightarrow> Header option"
  GetBlock :: "hash \<Rightarrow> u64 \<Rightarrow> Block option"

text \<open>\<open>unixNow\<close> is an \<open>int64\<close>; \<open>uint64(unixNow + 8)\<close> keeps its bits.\<close>

definition verifyHeader ::
    "PowParams \<Rightarrow> Ethash \<Rightarrow> ChainReader \<Rightarrow> Header \<Rightarrow> Header \<Rightarrow> bool \<Rightarrow> bool \<Rightarrow> u64 \<Rightarrow>
     HeaderError option go" where
  "verifyHeader P eth chain header parent uncle seal unixNow =
    (if len64 (Extra header) > MaximumExtraDataSize then Ret (Some ErrExtraTooLong)
     else if \<not> uncle \<and> Time header > unixNow + 8 then Ret (Some ErrFutureBlock)
     else if Time header \<le> Time parent then Ret (Some ErrOlderBlockTime)
     else
      let expected = CalcDifficulty (Config chain) (Time header) parent in
      if expected \<noteq> Difficulty header then Ret (Some ErrDifficultyMismatch)
      else if GasLimit header > MaxGasLimit then Ret (Some ErrGasLimitAboveMax)
      else if GasUsed header > GasLimit header then Ret (Some ErrGasUsedAboveLimit)
      else
       go_bind
         (if \<not> IsLondon (Config chain) (Number header)
          then (if BaseFee header \<noteq> None then Ret (Some ErrBaseFeeBeforeFork)
                else Ret (VerifyGaslimit (GasLimit parent) (GasLimit header)))
          else VerifyEip1559Header (Config chain) parent header)
         (\<lambda>err. if err \<noteq> None then Ret err
          else if Number header - Number parent \<noteq> 1 then Ret (Some ErrInvalidNumber)
          else if IsShanghai (Config chain) (Time header) then Ret (Some ErrShanghai)
          else if IsCancun (Config chain) (Time header) then Ret (Some ErrCancun)
          else
           go_bind (if seal then verifySeal P eth header False else Ret None)
             (\<lambda>err. if err \<noteq> None then Ret err
              else Ret (VerifyDAOHeaderExtraData (Config chain) header))))"

definition VerifyHeader ::
    "PowParams \<Rightarrow> Ethash \<Rightarrow> ChainReader \<Rightarrow> Header \<Rightarrow> bool \<Rightarrow> u64 \<Rightarrow> HeaderError option go" where
  "VerifyHeader P eth chain header seal unixNow =
    (if PowMode eth = ModeFullFake then Ret None
     else
      let number = word_of_int (Number header) in
      if GetHeader chain (headerHash P header) number \<noteq> None then Ret None
      else case GetHeader chain (ParentHash header) (number - 1) of
        None \<Rightarrow> Ret (Some ErrUnknownAncestor)
      | Some parent \<Rightarrow> verifyHeader P eth chain header parent False seal unixNow)"

definition verifyHeaderWorker ::
    "PowParams \<Rightarrow> Ethash \<Rightarrow> ChainReader \<Rightarrow> Header list \<Rightarrow> bool list \<Rightarrow> nat \<Rightarrow> u64 \<Rightarrow>
     HeaderError option go" where
  "verifyHeaderWorker P eth chain headers seals index unixNow =
    (if index \<ge> length headers then Panic ''index out of range''
     else
      let parent =
       (if index = 0
        then GetHeader chain (ParentHash (headers ! 0)) (word_of_int (Number (headers ! 0)) - 1)
        else if headerHash P (headers ! (index - 1)) = ParentHash (headers ! index)
        then Some (headers ! (index - 1)) else None)
      in case parent of
           None \<Rightarrow> Ret (Some ErrUnknownAncestor)
         | Some parent \<Rightarrow>
             if index \<ge> length seals then Panic ''index out of range''
             else verifyHeader P eth chain (headers ! index) parent False (seals ! index) unixNow)"

definition Prepare :: "ChainReader \<Rightarrow> Header \<Rightarrow> HeaderError + Header" where
  "Prepare chain header =
    (case GetHeader chain (ParentHash header) (word_of_int (Number header) - 1) of
       None \<Rightarrow> Inl ErrUnknownAncestor
     | Some parent \<Rightarrow>
         Inr (header \<lparr> Difficulty := CalcDifficulty (Config chain) (Time header) parent \<rparr>))"

section \<open>Uncles\<close>

text \<open>
  The loop that gathers the hashes of past uncles and the ancestor headers; \<open>i\<close> counts the
  iterations left.
\<close>

fun gatherAncestors ::
    "PowParams \<Rightarrow> ChainReader \<Rightarrow> nat \<Rightarrow> hash \<Rightarrow> u64 \<Rightarrow> hash set \<Rightarrow> (hash \<rightharpoonup> Header) \<Rightarrow>
     hash set \<times> (hash \<rightharpoonup> Header)" where
  "gatherAncestors P chain 0 parent number uncles ancestors = (uncles, ancestors)"
| "gatherAncestors P chain (Suc i) parent number uncles ancestors =
    (case GetHeader chain parent number of
       None \<Rightarrow> (uncles, ancestors)
     | Some ancestorHeader \<Rightarrow>
         let ancestors = ancestors(parent \<mapsto> ancestorHeader) in
         if UncleHash ancestorHeader \<noteq> EmptyUncleHash
         then (case GetBlock chain parent number of
                 None \<Rightarrow> (uncles, ancestors)
               | Some ancestor \<Rightarrow>
                   gatherAncestors P chain i (ParentHash ancestorHeader) (number - 1)
                     (uncles \<union> set (map (headerHash P) (bUncles ancestor))) ancestors)
         else gatherAncestors P chain i (ParentHash ancestorHeader) (number - 1) uncles ancestors)"

fun verifyEachUncle ::
    "PowParams \<Rightarrow> Ethash \<Rightarrow> ChainReader \<Rightarrow> Block \<Rightarrow> (hash \<rightharpoonup> Header) \<Rightarrow> u64 \<Rightarrow> hash set \<Rightarrow> Header list \<Rightarrow>
     HeaderError option go" where
  "verifyEachUncle P eth chain block ancestors unixNow uncles [] = Ret None"
| "verifyEachUncle P eth chain block ancestors unixNow uncles (uncle # rest) =
    (let h = headerHash P uncle in
     if h \<in> uncles then Ret (Some ErrDuplicateUncle)
     else if ancestors h \<noteq> None then Ret (Some ErrUncleIsAncestor)
     else case ancestors (ParentHash uncle) of
       None \<Rightarrow> Ret (Some ErrDanglingUncle)
     | Some parent \<Rightarrow>
         if ParentHash uncle = ParentHash (bHeader block) then Ret (Some ErrDanglingUncle)
         else go_bind (verifyHeader P eth chain uncle parent True True unixNow)
           (\<lambda>err. if err \<noteq> None then Ret err
            else verifyEachUncle P eth chain block ancestors unixNow (insert h uncles) rest))"

definition VerifyUncles ::
    "PowParams \<Rightarrow> Ethash \<Rightarrow> ChainReader \<Rightarrow> Block \<Rightarrow> u64 \<Rightarrow> HeaderError option go" where
  "VerifyUncles P eth chain block unixNow =
    (if PowMode eth = ModeFullFake then Ret None
     else if length (bUncles block) > 2 then Ret (Some ErrTooManyUncles)
     else if bUncles block = [] then Ret None
     else
      case gatherAncestors P chain 7 (ParentHash (bHeader block)) (NumberU64 block - 1) {} Map.empty of
        (uncles, ancestors) \<Rightarrow>
          let h = headerHash P (bHeader block);
              ancestors = ancestors(h \<mapsto> bHeader block);
              uncles = insert h uncles
          in verifyEachUncle P eth chain block ancestors unixNow uncles (bUncles block))"

section \<open>The supply is what is emitted\<close>

lemma sint_minBlocks:
  assumes "s \<le> e" "uint e < 2 ^ 62" "uint b < 2 ^ 62"
  shows "sint (minBlocks b s e) = max 0 (min (uint b) (uint e) - uint s + 1)"
proof -
  have eq: "uint (minBlocks b s e) = max 0 (min (uint b) (uint e) - uint s + 1)"
    using assms
    by (auto simp: minBlocks_def word_less_def word_le_def uint_sub_if' uint_plus_if' max_def min_def)
      (use uint_ge_0 [of s] in linarith)+
  moreover have "uint e < 4611686018427387904" "uint b < 4611686018427387904"
    using assms by simp_all
  ultimately have "uint (minBlocks b s e) < 9223372036854775808"
    using uint_ge_0 [of s] by linarith
  with eq show ?thesis by (simp add: sint_u64_small)
qed

text \<open>The schedule on mathematical integers.\<close>

definition epoch_blocks :: "int \<Rightarrow> int \<Rightarrow> int \<Rightarrow> int" where
  "epoch_blocks n s e = max 0 (min n e - s + 1)"

definition supply_closed :: "int \<Rightarrow> int" where
  "supply_closed n = preminedSupply + epoch_blocks n 1 4000000 * 2000000000000000000
     + epoch_blocks n 4000001 8000000 * 1000000000000000000
     + epoch_blocks n 8000001 16000000 * 500000000000000000
     + epoch_blocks n 16000001 32000000 * 250000000000000000
     + epoch_blocks n 32000001 64000000 * 125000000000000000
     + epoch_blocks n 64000001 128000000 * 62500000000000000
     + epoch_blocks n 128000001 n * 31250000000000000"

definition reward_closed :: "int \<Rightarrow> int" where
  "reward_closed n =
    (if n \<le> 4000000 then 2000000000000000000
     else if n \<le> 8000000 then 1000000000000000000
     else if n \<le> 16000000 then 500000000000000000
     else if n \<le> 32000000 then 250000000000000000
     else if n \<le> 64000000 then 125000000000000000
     else if n \<le> 128000000 then 62500000000000000
     else 31250000000000000)"

lemma supply_closed_correct:
  assumes "b < finalBlock"
  shows "CalculateCirculatingSupply b = supply_closed (uint b)"
proof -
  have b: "uint b < 1290406400" using assms by (simp add: finalBlock_def word_less_def)
  have f: "\<not> finalBlock \<le> b" using assms by simp
  show ?thesis
  proof (cases "b > 128000000")
    case True
    then show ?thesis
      using b f
      by (simp add: CalculateCirculatingSupply_def supply_closed_def Let_def sint_minBlocks epoch_blocks_def word_le_def [of 128000001] word_less_def)
  next
    case False
    then have "uint b \<le> 128000000" by (simp add: word_less_def)
    with False show ?thesis
      using b f
      by (simp add: CalculateCirculatingSupply_def supply_closed_def Let_def sint_minBlocks epoch_blocks_def)
  qed
qed

lemma supply_closed_Suc:
  assumes "0 \<le> n"
  shows "supply_closed (n + 1) = supply_closed n + reward_closed (n + 1)"
proof -
  consider "n < 4000000" | "4000000 \<le> n" "n < 8000000" | "8000000 \<le> n" "n < 16000000"
    | "16000000 \<le> n" "n < 32000000" | "32000000 \<le> n" "n < 64000000"
    | "64000000 \<le> n" "n < 128000000" | "128000000 \<le> n" by linarith
  then show ?thesis
    using assms by cases (simp_all add: supply_closed_def reward_closed_def epoch_blocks_def max_def min_def)
qed

lemma supply_closed_mono: "0 \<le> m \<Longrightarrow> m \<le> n \<Longrightarrow> supply_closed m \<le> supply_closed n"
  unfolding supply_closed_def epoch_blocks_def
  by (intro add_mono mult_right_mono max.mono min.mono diff_mono) auto

lemma supply_closed_final: "supply_closed 1290406399 = 66325199968750000000000000"
  by (simp add: supply_closed_def epoch_blocks_def preminedSupply_def)

lemma blockReward_closed:
  assumes "b < finalBlock"
  shows "blockReward b = reward_closed (uint b)"
proof -
  have "uint b \<le> 1290406399" using assms by (simp add: finalBlock_def word_less_def)
  then have "supply_closed (uint b) < SupplyCap"
    using supply_closed_mono [of "uint b" 1290406399] supply_closed_final by (simp add: SupplyCap_def)
  then show ?thesis
    using assms by (simp add: blockReward_def calculateBlockReward_def supply_closed_correct
       reward_closed_def Let_def word_le_def)
qed

lemma blockReward_final: "b \<ge> finalBlock \<Longrightarrow> blockReward b = 0"
  by (simp add: blockReward_def CalculateCirculatingSupply_def calculateBlockReward_def
    SupplyCap_def preminedSupply_def)

lemma supply_closed_sum:
  "int n < 1290406400 \<Longrightarrow>
   supply_closed (int n) = preminedSupply + (\<Sum>i = 1..n. blockReward (word_of_nat i))"
proof (induction n)
  case 0
  then show ?case by (simp add: supply_closed_def epoch_blocks_def)
next
  case (Suc n)
  have u: "uint (word_of_nat (Suc n) :: u64) = int n + 1"
    using Suc.prems uint_of_nat_u64 [of "Suc n"] by simp
  then have "(word_of_nat (Suc n) :: u64) < finalBlock"
    using Suc.prems by (simp only: word_less_def) (simp add: finalBlock_def)
  with u have "blockReward (word_of_nat (Suc n)) = reward_closed (int n + 1)"
    by (simp only: blockReward_closed)
  then show ?case
    using Suc supply_closed_Suc [of "int n"] by (simp add: add.commute)
qed


text \<open>
  C18: Below the final block, the circulating supply reported at block \<open>n\<close> is the premine plus the
  sum of the rewards the engine credits for blocks \<open>1..n\<close>.
\<close>

theorem supply_emission:
  assumes "n < finalBlock"
  shows "CalculateCirculatingSupply n =
           preminedSupply + (\<Sum>i = 1..unat n. blockReward (word_of_nat i))"
proof -
  have "uint n < 1290406400" using assms by (simp add: finalBlock_def word_less_def)
  then show ?thesis
    using supply_closed_sum [of "unat n"] supply_closed_correct [OF assms] by simp
qed

theorem supply_emission_witness:
  "CalculateCirculatingSupply 3 = preminedSupply + (\<Sum>i = 1..3. blockReward (word_of_nat i)) \<and>
   CalculateCirculatingSupply 3 = 2000006000000000000000000"
  using supply_emission [of 3] supply_closed_correct [of 3]
  by (simp add: finalBlock_def supply_closed_def epoch_blocks_def preminedSupply_def)

lemma minted_closed:
  "(\<Sum>i = 1..N. blockReward (word_of_nat i)) \<le> 64325199968750000000000000" if "N < 2 ^ 64"
proof -
  let ?m = "min N 1290406399"
  have "(\<Sum>i = 1..N. blockReward (word_of_nat i)) = (\<Sum>i = 1..?m. blockReward (word_of_nat i))"
  proof (rule sum.mono_neutral_right)
    show "\<forall>i \<in> {1..N} - {1..?m}. blockReward (word_of_nat i) = 0"
    proof
      fix i assume i: "i \<in> {1..N} - {1..?m}"
      then have "uint (word_of_nat i :: u64) = int i" using that by (simp add: uint_of_nat_u64)
      with i have "(word_of_nat i :: u64) \<ge> finalBlock"
        by (simp only: word_le_def) (auto simp: finalBlock_def)
      then show "blockReward (word_of_nat i) = 0" by (rule blockReward_final)
    qed
  qed auto
  also have "\<dots> = supply_closed (int ?m) - preminedSupply"
    using supply_closed_sum [of ?m] by simp
  also have "\<dots> \<le> supply_closed 1290406399 - preminedSupply"
    using supply_closed_mono [of "int ?m" 1290406399] by simp
  finally show ?thesis by (simp add: supply_closed_final preminedSupply_def)
qed

text \<open>
  C30: However many blocks are mined, premine plus minted rewards stay at least 12,500.03125 R5 below
  the supply cap: the schedule falls short of the cap it is declared to reach, while the supply the
  engine reports from the final block on is the cap itself.
\<close>

theorem supply_cap_unreached:
  "preminedSupply + (\<Sum>i = 1..unat (n :: u64). blockReward (word_of_nat i))
     \<le> SupplyCap - 12500031250000000000000 \<and>
   CalculateCirculatingSupply n \<le> SupplyCap \<and>
   CalculateCirculatingSupply finalBlock = SupplyCap"
proof (intro conjI)
  show "preminedSupply + (\<Sum>i = 1..unat n. blockReward (word_of_nat i))
     \<le> SupplyCap - 12500031250000000000000"
    using minted_closed [of "unat n"] by (simp add: SupplyCap_def preminedSupply_def)
  show "CalculateCirculatingSupply finalBlock = SupplyCap"
    by (simp add: CalculateCirculatingSupply_def SupplyCap_def preminedSupply_def)
  show "CalculateCirculatingSupply n \<le> SupplyCap"
  proof (cases "n < finalBlock")
    case True
    then have "uint n < 1290406400" by (simp add: finalBlock_def word_less_def)
    then show ?thesis
      using True minted_closed [of "unat n"] supply_closed_sum [of "unat n"]
      by (simp add: supply_closed_correct SupplyCap_def preminedSupply_def)
  next
    case False
    then have "n \<ge> finalBlock" by simp
    then show ?thesis
      by (simp add: CalculateCirculatingSupply_def SupplyCap_def preminedSupply_def)
  qed
qed

section \<open>Difficulty rules\<close>

definition u256_adjust :: "bool \<Rightarrow> u256 \<Rightarrow> u256 \<Rightarrow> int" where
  "u256_adjust neg pDiff z =
    (let y = (if neg then pDiff - z else pDiff + z)
     in ToBig (if y < minimumDifficulty then minimumDifficulty else y))"

lemma u256_adjust_exact:
  assumes "0 \<le> d" "d < 2 ^ 255" "uint z = a" "0 \<le> a" "a \<le> d"
  shows "u256_adjust neg (FromBig d) z = max 131072 (if neg then d - a else d + a)"
proof -
  have "uint (FromBig d) = d" using assms by (simp add: uint_FromBig)
  then have "uint (if neg then FromBig d - z else FromBig d + z) = (if neg then d - a else d + a)"
    using assms by (simp add: uint_sub_if' uint_plus_if')
  then show ?thesis
    by (simp add: u256_adjust_def Let_def ToBig_def word_less_def max_def)
qed

lemma uint_adjustment:
  assumes "0 \<le> d" "d < 2 ^ 255" "uint x \<le> 99"
  shows "uint (drop_bit 11 (FromBig d) * SetUint64 x) = d div 2048 * uint x"
    and "d div 2048 * uint x \<le> d"
proof -
  have d: "uint (drop_bit 11 (FromBig d)) = d div 2048"
    using assms by (simp add: drop_bit_eq_div uint_div uint_FromBig)
  show le: "d div 2048 * uint x \<le> d"
  proof -
    have "d div 2048 * uint x \<le> d div 2048 * 2048"
      using assms by (intro mult_left_mono) auto
    also have "\<dots> \<le> d" using div_mult_mod_eq [of d 2048] pos_mod_sign [of 2048 d] by linarith
    finally show ?thesis .
  qed
  then have "uint (drop_bit 11 (FromBig d)) * uint (SetUint64 x) < 2 ^ 256"
    using assms by (simp add: d uint_SetUint64)
  then show "uint (drop_bit 11 (FromBig d) * SetUint64 x) = d div 2048 * uint x"
    using uint_mult_lem [of "drop_bit 11 (FromBig d)" "SetUint64 x"] by (simp add: d uint_SetUint64)
qed

definition r5_difficulty :: "int \<Rightarrow> int \<Rightarrow> int \<Rightarrow> int" where
  "r5_difficulty c dt pd = max 131072 (pd + pd div 2048 * max (c - dt div 7) (-99))"

lemma makeDifficultyCalculator_exact:
  assumes "0 \<le> Difficulty p" "Difficulty p < 2 ^ 255" "Time p \<le> t"
  shows "makeDifficultyCalculator t p =
    r5_difficulty (if UncleHash p \<noteq> EmptyUncleHash then 2 else 1) (uint t - uint (Time p)) (Difficulty p)"
proof -
  define c :: u64 where "c = (if UncleHash p \<noteq> EmptyUncleHash then 2 else 1)"
  define x where "x = (t - Time p) div 7"
  define k where "k = (if x \<ge> c then x - c else c - x)"
  define k' where "k' = (if k > 99 then 99 else k)"
  have x: "uint x = (uint t - uint (Time p)) div 7"
    using assms by (simp add: x_def uint_div uint_sub_if' word_le_def)
  have c: "uint c \<le> 2" by (simp add: c_def)
  have c': "uint c = (if UncleHash p \<noteq> EmptyUncleHash then 2 else 1)" by (simp add: c_def)
  have cx: "uint c - uint x \<le> 2" using c uint_ge_0 [of x] by linarith
  have k: "uint k = \<bar>uint c - uint x\<bar>"
    by (auto simp: k_def uint_sub_if' word_le_def)
  have k': "uint k' = min 99 (uint k)" "uint k' \<le> 99"
    by (auto simp: k'_def word_less_def)
  have "makeDifficultyCalculator t p = u256_adjust (x \<ge> c) (FromBig (Difficulty p))
          (drop_bit 11 (FromBig (Difficulty p)) * SetUint64 k')"
    by (simp add: makeDifficultyCalculator_def u256_adjust_def Let_def x_def c_def k_def k'_def)
  also have "\<dots> = max 131072 (if x \<ge> c then Difficulty p - Difficulty p div 2048 * uint k'
                               else Difficulty p + Difficulty p div 2048 * uint k')"
    using assms k' uint_adjustment [of "Difficulty p" k'] by (intro u256_adjust_exact) auto
  also have "\<dots> = max 131072 (Difficulty p + Difficulty p div 2048 * (if x \<ge> c then - uint k' else uint k'))"
    by simp
  also have "(if x \<ge> c then - uint k' else uint k') = max (uint c - uint x) (-99)"
    using cx unfolding k k' word_le_def by (auto split: if_splits)
  finally show ?thesis unfolding r5_difficulty_def x c' .
qed

lemma CalcDifficultyFrontierU256_exact:
  assumes "0 \<le> Difficulty p" "Difficulty p < 2 ^ 255" "Time p \<le> t"
  shows "CalcDifficultyFrontierU256 t p = calcDifficultyFrontier t p"
proof -
  have dt: "uint (t - Time p) = uint t - uint (Time p)"
    using assms by (simp add: uint_sub_if' word_le_def)
  have "CalcDifficultyFrontierU256 t p = u256_adjust (\<not> t - Time p < 7) (FromBig (Difficulty p))
          (drop_bit 11 (FromBig (Difficulty p)))"
    by (simp add: CalcDifficultyFrontierU256_def u256_adjust_def Let_def)
  also have "\<dots> = max 131072 (if \<not> t - Time p < 7 then Difficulty p - Difficulty p div 2048
                               else Difficulty p + Difficulty p div 2048)"
    using assms uint_adjustment [of "Difficulty p" 1]
    by (intro u256_adjust_exact) (auto simp: SetUint64_def)
  finally show ?thesis
    by (simp add: calcDifficultyFrontier_def Let_def word_less_def dt max_def)
qed

lemma CalcDifficultyHomesteadU256_exact:
  assumes "0 \<le> Difficulty p" "Difficulty p < 2 ^ 255" "Time p \<le> t"
  shows "CalcDifficultyHomesteadU256 t p = calcDifficultyHomestead t p"
proof -
  define x where "x = (t - Time p) div 7"
  define k where "k = (if x = 0 then 1 else if x \<ge> 100 then 99 else x - 1)"
  have x: "uint x = (uint t - uint (Time p)) div 7"
    using assms by (simp add: x_def uint_div uint_sub_if' word_le_def)
  have k: "uint k = (if uint x = 0 then 1 else if uint x \<ge> 100 then 99 else uint x - 1)"
  proof (cases "x = 0")
    case False
    then have "1 \<le> uint x" using uint_ge_0 [of x] uint_0_iff [of x] by linarith
    then show ?thesis using False by (simp add: k_def uint_sub_if' word_le_def)
  qed (simp add: k_def)
  then have k99: "uint k \<le> 99" by auto
  have "CalcDifficultyHomesteadU256 t p = u256_adjust (x \<noteq> 0) (FromBig (Difficulty p))
          (drop_bit 11 (FromBig (Difficulty p)) * SetUint64 k)"
    by (simp add: CalcDifficultyHomesteadU256_def u256_adjust_def Let_def x_def k_def)
  also have "\<dots> = max 131072 (if x \<noteq> 0 then Difficulty p - Difficulty p div 2048 * uint k
                               else Difficulty p + Difficulty p div 2048 * uint k)"
    using assms k99 uint_adjustment [of "Difficulty p" k] by (intro u256_adjust_exact) auto
  also have "\<dots> = max 131072 (Difficulty p + Difficulty p div 2048 * (if x \<noteq> 0 then - uint k else uint k))"
    by simp
  also have "(if x \<noteq> 0 then - uint k else uint k) = max (1 - uint x) (-99)"
    using uint_ge_0 [of x] by (auto simp: k uint_0_iff)
  finally show ?thesis
    by (simp add: calcDifficultyHomestead_def Let_def x max_def)
qed


lemma makeDifficultyCalculator_min: "131072 \<le> makeDifficultyCalculator t p"
  by (simp add: makeDifficultyCalculator_def Let_def ToBig_def word_less_def)

lemma CalcDifficulty_cases:
  "CalcDifficulty config t p \<in>
     {makeDifficultyCalculator t p, calcDifficultyHomestead t p, calcDifficultyFrontier t p}"
  by (simp add: CalcDifficulty_def Let_def)

lemma r5_difficulty_bounds:
  assumes "0 \<le> pd" "c \<le> 2" "0 \<le> dt"
  shows "pd - 99 * (pd div 2048) \<le> r5_difficulty c dt pd"
    and "r5_difficulty c dt pd \<le> max 131072 (pd + 2 * (pd div 2048))"
proof -
  let ?k = "max (c - dt div 7) (-99)"
  have q: "0 \<le> pd div 2048" using assms by (simp add: pos_imp_zdiv_nonneg_iff)
  have "0 \<le> dt div 7" using assms by (simp add: pos_imp_zdiv_nonneg_iff)
  then have k: "- 99 \<le> ?k" "?k \<le> 2" using assms by auto
  have "pd div 2048 * (- 99) \<le> pd div 2048 * ?k" by (rule mult_left_mono [OF k(1) q])
  then show "pd - 99 * (pd div 2048) \<le> r5_difficulty c dt pd" by (simp add: r5_difficulty_def)
  have "pd div 2048 * ?k \<le> pd div 2048 * 2" by (rule mult_left_mono [OF k(2) q])
  then show "r5_difficulty c dt pd \<le> max 131072 (pd + 2 * (pd div 2048))" by (simp add: r5_difficulty_def)
qed

lemma calcDifficultyHomestead_exact:
  "calcDifficultyHomestead t p = r5_difficulty 1 (uint t - uint (Time p)) (Difficulty p)"
  by (simp add: calcDifficultyHomestead_def r5_difficulty_def Let_def max_def)

lemma calcDifficultyFrontier_bounds:
  assumes "0 \<le> Difficulty p"
  shows "Difficulty p - 99 * (Difficulty p div 2048) \<le> calcDifficultyFrontier t p"
    and "calcDifficultyFrontier t p \<le> max 131072 (Difficulty p + 2 * (Difficulty p div 2048))"
    and "131072 \<le> calcDifficultyFrontier t p"
proof -
  have "0 \<le> Difficulty p div 2048" using assms by (simp add: pos_imp_zdiv_nonneg_iff)
  then show "Difficulty p - 99 * (Difficulty p div 2048) \<le> calcDifficultyFrontier t p"
    and "calcDifficultyFrontier t p \<le> max 131072 (Difficulty p + 2 * (Difficulty p div 2048))"
    and "131072 \<le> calcDifficultyFrontier t p"
    by (auto simp: calcDifficultyFrontier_def Let_def)
qed



text \<open>
  Under every fork the difficulty stays at or above the minimum, rises by at most 2/2048 and falls
  by at most 99/2048 of the parent's difficulty.
\<close>

theorem CalcDifficulty_bounds:
  assumes "131072 \<le> Difficulty p" "Difficulty p < 2 ^ 255" "Time p \<le> t"
  shows "131072 \<le> CalcDifficulty config t p \<and>
    Difficulty p - 99 * (Difficulty p div 2048) \<le> CalcDifficulty config t p \<and>
    CalcDifficulty config t p \<le> Difficulty p + 2 * (Difficulty p div 2048)"
proof -
  have d: "0 \<le> Difficulty p" and m: "max 131072 (Difficulty p + 2 * (Difficulty p div 2048)) =
      Difficulty p + 2 * (Difficulty p div 2048)"
    using assms by auto
  have dt: "0 \<le> uint t - uint (Time p)" using assms(3) by (simp add: word_le_def)
  have r: "131072 \<le> r5_difficulty c dt pd" for c dt pd by (simp add: r5_difficulty_def)
  note rb = r5_difficulty_bounds [OF d _ dt, unfolded m]
  note fb = calcDifficultyFrontier_bounds [OF d, unfolded m]
  show ?thesis
    using CalcDifficulty_cases [of config t p] r rb [of 1] rb [of 2] fb [of t]
    by (auto simp: makeDifficultyCalculator_exact [OF d assms(2,3)] calcDifficultyHomestead_exact)
qed

theorem CalcDifficulty_bounds_witness:
  "131072 \<le> CalcDifficulty NonActivatedConfig 3 zeroHeader \<and>
   CalcDifficulty NonActivatedConfig 3 zeroHeader \<le> 131200"
  using CalcDifficulty_bounds [of zeroHeader 3 NonActivatedConfig] by (simp add: zeroHeader_def)

text \<open>
  C36: The \<open>uint256\<close> difficulty calculators compute the same value as the arbitrary-precision ones.
\<close>

theorem difficulty_U256_equiv:
  assumes "0 \<le> Difficulty p" "Difficulty p < 2 ^ 255" "Time p \<le> t"
  shows "CalcDifficultyFrontierU256 t p = calcDifficultyFrontier t p \<and>
    CalcDifficultyHomesteadU256 t p = calcDifficultyHomestead t p \<and>
    MakeDifficultyCalculatorU256 bomb t p = makeDifficultyCalculator t p"
  using CalcDifficultyFrontierU256_exact [OF assms] CalcDifficultyHomesteadU256_exact [OF assms]
  by (simp add: MakeDifficultyCalculatorU256_def makeDifficultyCalculator_def)

theorem difficulty_U256_equiv_witness:
  "CalcDifficultyHomesteadU256 10 zeroHeader = calcDifficultyHomestead 10 zeroHeader \<and>
   calcDifficultyHomestead 10 (zeroHeader \<lparr> Difficulty := 4194304 \<rparr>) = 4194304"
  using difficulty_U256_equiv [of zeroHeader 10 0]
  by (simp add: zeroHeader_def calcDifficultyHomestead_def)

section \<open>Header rules\<close>

definition parentLimit :: "ChainConfig \<Rightarrow> Header \<Rightarrow> Header \<Rightarrow> u64" where
  "parentLimit config parent h =
    (if IsLondon config (Number h) \<and> \<not> IsLondon config (Number parent)
     then GasLimit parent * 2 else GasLimit parent)"

definition header_valid :: "ChainConfig \<Rightarrow> u64 \<Rightarrow> bool \<Rightarrow> Header \<Rightarrow> Header \<Rightarrow> bool" where
  "header_valid config now uncle parent h \<longleftrightarrow>
     length (Extra h) \<le> 32 \<and>
     (uncle \<or> uint (Time h) \<le> uint now + 8) \<and>
     uint (Time parent) < uint (Time h) \<and>
     Difficulty h = CalcDifficulty config (Time h) parent \<and>
     uint (GasLimit h) < 2 ^ 63 \<and> uint (GasUsed h) \<le> uint (GasLimit h) \<and>
     \<bar>uint (parentLimit config parent h) - uint (GasLimit h)\<bar> < uint (parentLimit config parent h) div 1024 \<and>
     5000 \<le> uint (GasLimit h) \<and>
     (if IsLondon config (Number h)
      then (\<exists>f. CalcBaseFee config parent = Ret f \<and> BaseFee h = Some f) else BaseFee h = None) \<and>
     Number h = Number parent + 1 \<and>
     \<not> IsShanghai config (Time h) \<and> \<not> IsCancun config (Time h) \<and>
     VerifyDAOHeaderExtraData config h = None"

text \<open>
  C4: \<open>verifyHeader\<close> accepts a header exactly when it satisfies the consensus rules written out in
  \<open>header_valid\<close> (over mathematical integers) and, where requested, its seal verifies.
\<close>

theorem verifyHeader_iff_valid:
  assumes "length (Extra h) < 2 ^ 64" "uint now < 2 ^ 63"
    and "parentLimit (Config chain) parent h \<le> MaxGasLimit"
  shows "verifyHeader P eth chain h parent uncle seal now = Ret None \<longleftrightarrow>
    header_valid (Config chain) now uncle parent h \<and> (seal \<longrightarrow> verifySeal P eth h False = Ret None)"
proof -
  let ?c = "Config chain"
  have e: "len64 (Extra h) > 32 \<longleftrightarrow> \<not> length (Extra h) \<le> 32"
    using assms(1) by (simp add: u64_less_iff unat_len64 not_le)
  have n: "Time h > now + 8 \<longleftrightarrow> \<not> uint (Time h) \<le> uint now + 8"
    using assms(2) by (simp add: word_less_def uint_plus_if' not_le)
  have t: "Time h \<le> Time parent \<longleftrightarrow> \<not> uint (Time parent) < uint (Time h)"
    by (simp add: word_le_def not_less)
  have l: "GasLimit h > MaxGasLimit \<longleftrightarrow> \<not> uint (GasLimit h) < 2 ^ 63"
    by (simp add: word_less_def) linarith
  have u: "GasUsed h > GasLimit h \<longleftrightarrow> \<not> uint (GasUsed h) \<le> uint (GasLimit h)"
    by (simp add: word_less_def not_le)
  let ?g = "\<bar>uint (parentLimit ?c parent h) - uint (GasLimit h)\<bar> < uint (parentLimit ?c parent h) div 1024 \<and>
     5000 \<le> uint (GasLimit h)"
  let ?f = "if IsLondon ?c (Number h)
      then (\<exists>f. CalcBaseFee ?c parent = Ret f \<and> BaseFee h = Some f) else BaseFee h = None"
  have g: "(if \<not> IsLondon ?c (Number h)
            then (if BaseFee h \<noteq> None then Ret (Some ErrBaseFeeBeforeFork)
                  else Ret (VerifyGaslimit (GasLimit parent) (GasLimit h)))
            else VerifyEip1559Header ?c parent h) = Ret None \<longleftrightarrow> ?g \<and> ?f" (is "?G = Ret None \<longleftrightarrow> _")
    if "uint (GasLimit h) < 2 ^ 63"
  proof -
    have "GasLimit h \<le> MaxGasLimit" using that by (simp add: word_le_def)
    then have "VerifyGaslimit (parentLimit ?c parent h) (GasLimit h) = None \<longleftrightarrow> ?g"
      using assms(3) by (intro VerifyGaslimit_None_iff) auto
    then show ?thesis
      by (auto simp: VerifyEip1559Header_def parentLimit_def Let_def ElasticityMultiplier_def
           split: option.splits)
  qed
  show ?thesis
    unfolding verifyHeader_def e n t l u Let_def header_valid_def if_Ret_error go_bind_checked
    using g by (cases seal) (auto simp only: not_not simp_thms if_False if_True go.inject eq_commute [of "Difficulty h"] diff_eq_eq add.commute [of 1])
qed

text \<open>The ancestors uncle verification may look at.\<close>

fun ancestry :: "ChainReader \<Rightarrow> nat \<Rightarrow> hash \<Rightarrow> u64 \<Rightarrow> (hash \<times> u64 \<times> Header) list" where
  "ancestry chain 0 parent number = []"
| "ancestry chain (Suc i) parent number =
    (case GetHeader chain parent number of
       None \<Rightarrow> []
     | Some a \<Rightarrow> (parent, number, a) # ancestry chain i (ParentHash a) (number - 1))"

lemma gatherAncestors_map:
  assumes "gatherAncestors P chain i parent number us as = (us', as')" "as' h = Some a"
  shows "as h = Some a \<or> (\<exists>n. (h, n, a) \<in> set (ancestry chain i parent number))"
  using assms
proof (induction P chain i parent number us as rule: gatherAncestors.induct)
  case (2 P chain i parent number uncles ancestors)
  then show ?case by (fastforce split: option.splits if_splits simp: Let_def)
qed simp

lemma gatherAncestors_mono:
  assumes "gatherAncestors P chain i parent number us as = (us', as')"
  shows "us \<subseteq> us' \<and> dom as \<subseteq> dom as'"
  using assms
proof (induction i arbitrary: parent number us as)
  case (Suc i)
  show ?case
  proof (cases "GetHeader chain parent number")
    case None
    with Suc.prems show ?thesis by simp
  next
    case (Some a)
    have mono: "us \<subseteq> us' \<and> dom as \<subseteq> dom as'"
      if "gatherAncestors P chain i q m us1 (as(parent \<mapsto> a)) = (us', as')" "us \<subseteq> us1" for q m us1
    proof -
      have "dom as \<subseteq> dom (as(parent \<mapsto> a))" by (auto simp: dom_def)
      with Suc.IH [OF that(1)] that(2) show ?thesis by blast
    qed
    from Suc.prems Some show ?thesis
      by (auto simp: Let_def dest!: mono split: option.splits if_splits)
  qed
qed simp

lemma gatherAncestors_complete:
  assumes "gatherAncestors P chain i parent number us as = (us', as')"
    and "\<And>h n a. (h, n, a) \<in> set (ancestry chain i parent number) \<Longrightarrow> UncleHash a \<noteq> EmptyUncleHash \<Longrightarrow>
           GetBlock chain h n \<noteq> None"
    and "(h, n, a) \<in> set (ancestry chain i parent number)"
  shows "h \<in> dom as' \<and> (\<forall>b. UncleHash a \<noteq> EmptyUncleHash \<longrightarrow> GetBlock chain h n = Some b \<longrightarrow>
           headerHash P ` set (bUncles b) \<subseteq> us')"
  using assms
proof (induction P chain i parent number us as rule: gatherAncestors.induct)
  case (2 P chain i parent number uncles ancestors)
  then obtain a0 where a0: "GetHeader chain parent number = Some a0" by (auto split: option.splits)
  show ?case
  proof (cases "UncleHash a0 = EmptyUncleHash")
    case True
    have g: "gatherAncestors P chain i (ParentHash a0) (number - 1) uncles (ancestors(parent \<mapsto> a0)) = (us', as')"
      using 2(3) a0 True by (simp add: Let_def)
    show ?thesis
      using 2(2) [OF a0 refl _ g] 2(4,5) a0 True gatherAncestors_mono [OF g] by (auto, blast+)
  next
    case False
    then obtain b0 where b0: "GetBlock chain parent number = Some b0"
      using 2(4) [of parent number a0] a0 by auto
    have g: "gatherAncestors P chain i (ParentHash a0) (number - 1)
         (uncles \<union> set (map (headerHash P) (bUncles b0))) (ancestors(parent \<mapsto> a0)) = (us', as')"
      using 2(3) a0 b0 False by (simp add: Let_def)
    show ?thesis
      using 2(1) [OF a0 refl _ b0 g] 2(4,5) a0 b0 False gatherAncestors_mono [OF g] by (auto, blast+)
  qed
qed simp

lemma verifyEachUncle_sound:
  assumes "verifyEachUncle P eth chain block as now us xs = Ret None"
  shows "distinct (map (headerHash P) xs) \<and> (\<forall>u \<in> set xs. headerHash P u \<notin> us \<and>
     as (headerHash P u) = None \<and> ParentHash u \<noteq> ParentHash (bHeader block) \<and>
     (\<exists>a. as (ParentHash u) = Some a \<and> verifyHeader P eth chain u a True True now = Ret None))"
  using assms
proof (induction xs arbitrary: us)
  case (Cons u xs)
  then obtain a where "as (ParentHash u) = Some a" "ParentHash u \<noteq> ParentHash (bHeader block)"
    "headerHash P u \<notin> us" "as (headerHash P u) = None"
    "verifyHeader P eth chain u a True True now = Ret None"
    "verifyEachUncle P eth chain block as now (insert (headerHash P u) us) xs = Ret None"
    by (auto simp: Let_def split: if_splits option.splits)
  with Cons.IH [of "insert (headerHash P u) us"] show ?case by auto
qed simp



section \<open>A small chain with an uncle\<close>

text \<open>
  Concrete parameters: headers hash to their state root, the engine runs in fake mode, and the
  block of height 12 includes one uncle on top of its grandparent.
\<close>

definition demo_pow :: PowParams where
  "demo_pow = \<lparr> headerHash = Root, rlpKeccak = (\<lambda>_. 0), hashimotoLight = (\<lambda>_ _ _ _. ([], [])),
     hashimotoFull = (\<lambda>_. None) \<rparr>"

definition demo_engine :: Ethash where "demo_engine = Ethash ModeFake 0 None"

definition demo_header :: "hash \<Rightarrow> hash \<Rightarrow> int \<Rightarrow> u64 \<Rightarrow> Header" where
  "demo_header h parent number time = zeroHeader
     \<lparr> Root := h, ParentHash := parent, Number := number, Time := time, GasLimit := 30000000 \<rparr>"

definition demo_chain :: ChainReader where
  "demo_chain = \<lparr> Config = MainnetChainConfig,
     GetHeader = (\<lambda>h n. if h = 1 \<and> n = 10 then Some (demo_header 1 0 10 70)
                       else if h = 2 \<and> n = 11 then Some (demo_header 2 1 11 80) else None),
     GetBlock = (\<lambda>h n. None) \<rparr>"

definition demo_block :: Block where
  "demo_block = \<lparr> bHeader = demo_header 3 2 12 90, bUncles = [demo_header 4 1 11 84] \<rparr>"

lemmas demo_defs = demo_pow_def demo_engine_def demo_header_def demo_chain_def demo_block_def
  zeroHeader_def MainnetChainConfig_def fork_defs

lemma demo_verify: "verifyHeader demo_pow demo_engine demo_chain (demo_header 4 1 11 84)
   (demo_header 1 0 10 70) True True 100 = Ret None"
  by code_simp

lemma demo_uncles: "VerifyUncles demo_pow demo_engine demo_chain demo_block 100 = Ret None"
  by code_simp
lemma demo_anc: "ancestry demo_chain 7 2 11 = [(2, 11, demo_header 2 1 11 80), (1, 10, demo_header 1 0 10 70)]"
  by code_simp

theorem verifyHeader_iff_valid_witness:
  "header_valid MainnetChainConfig 100 True (demo_header 1 0 10 70) (demo_header 4 1 11 84)"
proof -
  have c: "Config demo_chain = MainnetChainConfig" by (simp add: demo_chain_def)
  show ?thesis
    using verifyHeader_iff_valid [of "demo_header 4 1 11 84" 100 demo_chain "demo_header 1 0 10 70"
      demo_pow demo_engine True True] demo_verify
    by (simp add: c) (simp add: parentLimit_def demo_defs)
qed


end
