(* ===== verification/Header_Pipeline.thy ===== *)
theory Header_Pipeline
  imports Ethash "HOL-Library.Sublist"
begin

text \<open>
  \<open>Ethash.VerifyHeaders\<close> of \<^verbatim>\<open>client/consensus/ethash/consensus.go\<close>: a coordinator goroutine hands
  header indices to a pool of workers over the unbuffered channel \<open>inputs\<close>, the workers put the
  indices they finished into the buffered channel \<open>done\<close>, and the coordinator forwards the errors
  to \<open>errorsOut\<close> in the order of the input slice. Its scheduling is nondeterministic, so it is a
  step relation; a step is one communication or one worker computation.

  Facts: whatever the schedule, what has been sent to \<open>errorsOut\<close> is a prefix of the verdicts in
  input order; unless aborted, the pipeline never blocks before all verdicts are out, every
  schedule is finite, and when the coordinator returns without abort the output is complete.
\<close>

section \<open>The pipeline\<close>

text \<open>
  The parameters of one call are the number of headers, the number of workers
  (\<open>min GOMAXPROCS (length headers)\<close>) and the verdict of each index, \<open>verifyHeaderWorker\<close>. The state:
  the coordinator's locals \<open>in\<close>, \<open>out\<close>, \<open>checked\<close>, whether its local \<open>inputs\<close> is still non-nil,
  the indices workers are busy with, the contents of \<open>done\<close>, the slice \<open>errors\<close> (\<open>None\<close> for an
  unset element), what was sent to \<open>errorsOut\<close>, and whether the coordinator has returned, by abort
  or not.
\<close>

type_synonym verdict = "HeaderError option go"

record pipe =
  inIdx :: nat
  outIdx :: nat
  checked :: "nat set"
  sending :: bool
  busy :: "nat list"
  doneCh :: "nat list"
  errs :: "nat \<rightharpoonup> verdict"
  errorsOut :: "verdict list"
  returned :: bool
  aborted :: bool

definition pipe_init :: pipe where
  "pipe_init = \<lparr> inIdx = 0, outIdx = 0, checked = {}, sending = True, busy = [], doneCh = [],
     errs = Map.empty, errorsOut = [], returned = False, aborted = False \<rparr>"

text \<open>
  The loop \<open>for checked[index] = true; checked[out]; out++\<close> with its early return; \<open>k\<close> bounds the
  iterations by the number of headers still to deliver.
\<close>

fun deliver :: "nat \<Rightarrow> nat \<Rightarrow> pipe \<Rightarrow> pipe" where
  "deliver 0 n s = s"
| "deliver (Suc k) n s =
    (if outIdx s \<in> checked s
     then let s = s \<lparr> errorsOut := errorsOut s @ [the (errs s (outIdx s))] \<rparr> in
          if outIdx s = n - 1 then s \<lparr> returned := True \<rparr>
          else deliver k n (s \<lparr> outIdx := outIdx s + 1 \<rparr>)
     else s)"

inductive pipe_step :: "nat \<Rightarrow> nat \<Rightarrow> (nat \<Rightarrow> verdict) \<Rightarrow> pipe \<Rightarrow> pipe \<Rightarrow> bool"
  for n workers :: nat and verify :: "nat \<Rightarrow> verdict" where
  Send: "\<not> returned s \<Longrightarrow> sending s \<Longrightarrow> length (busy s) < workers \<Longrightarrow>
    pipe_step n workers verify s
      (s \<lparr> busy := inIdx s # busy s, inIdx := inIdx s + 1, sending := (inIdx s + 1 \<noteq> n) \<rparr>)"
| Work: "busy s = xs @ i # ys \<Longrightarrow> length (doneCh s) < workers \<Longrightarrow>
    pipe_step n workers verify s
      (s \<lparr> busy := xs @ ys, errs := (errs s)(i \<mapsto> verify i), doneCh := doneCh s @ [i] \<rparr>)"
| Receive: "\<not> returned s \<Longrightarrow> doneCh s = i # is \<Longrightarrow>
    pipe_step n workers verify s
      (deliver (n - outIdx s) n (s \<lparr> doneCh := is, checked := insert i (checked s) \<rparr>))"
| Abort: "\<not> returned s \<Longrightarrow>
    pipe_step n workers verify s (s \<lparr> returned := True, aborted := True \<rparr>)"

inductive_cases pipe_stepE: "pipe_step n workers verify s t"

inductive pipe_reach :: "nat \<Rightarrow> nat \<Rightarrow> (nat \<Rightarrow> verdict) \<Rightarrow> pipe \<Rightarrow> bool"
  for n workers :: nat and verify :: "nat \<Rightarrow> verdict" where
  reach_init: "pipe_reach n workers verify pipe_init"
| reach_step: "pipe_reach n workers verify s \<Longrightarrow> pipe_step n workers verify s t \<Longrightarrow>
    pipe_reach n workers verify t"

section \<open>Order, progress, termination\<close>

definition pipe_inv :: "nat \<Rightarrow> nat \<Rightarrow> (nat \<Rightarrow> verdict) \<Rightarrow> pipe \<Rightarrow> bool" where
  "pipe_inv n workers verify s \<longleftrightarrow>
     inIdx s \<le> n \<and> (sending s \<longleftrightarrow> inIdx s < n) \<and>
     length (busy s) \<le> workers \<and> length (doneCh s) \<le> workers \<and>
     set (busy s) \<union> set (doneCh s) \<union> checked s = {..< inIdx s} \<and>
     (\<forall>i \<in> set (doneCh s) \<union> checked s. errs s i = Some (verify i)) \<and>
     outIdx s < n \<and> {..< outIdx s} \<subseteq> checked s \<and>
     (\<not> returned s \<longrightarrow> outIdx s \<notin> checked s \<and> \<not> aborted s) \<and>
     errorsOut s = map verify [0 ..< if returned s \<and> \<not> aborted s then n else outIdx s]"

lemma deliver_frame [simp]:
  "inIdx (deliver k n s) = inIdx s" "checked (deliver k n s) = checked s"
  "sending (deliver k n s) = sending s" "busy (deliver k n s) = busy s"
  "doneCh (deliver k n s) = doneCh s" "errs (deliver k n s) = errs s"
  "aborted (deliver k n s) = aborted s"
  by (induction k arbitrary: s) (simp_all add: Let_def)

lemma deliver_order:
  assumes "n - outIdx s \<le> k" "outIdx s < n" "\<not> returned s" "{..< outIdx s} \<subseteq> checked s"
    and "\<forall>i \<in> checked s. errs s i = Some (verify i)" "errorsOut s = map verify [0 ..< outIdx s]"
  shows "let t = deliver k n s in outIdx t < n \<and> {..< outIdx t} \<subseteq> checked t \<and>
     (\<not> returned t \<longrightarrow> outIdx t \<notin> checked t) \<and>
     errorsOut t = map verify [0 ..< if returned t then n else outIdx t]"
  using assms
proof (induction k arbitrary: s)
  case (Suc k)
  show ?case
  proof (cases "outIdx s \<in> checked s \<and> outIdx s \<noteq> n - 1")
    case True
    let ?s = "s \<lparr> errorsOut := errorsOut s @ [the (errs s (outIdx s))], outIdx := outIdx s + 1 \<rparr>"
    have "let t = deliver k n ?s in outIdx t < n \<and> {..< outIdx t} \<subseteq> checked t \<and>
       (\<not> returned t \<longrightarrow> outIdx t \<notin> checked t) \<and>
       errorsOut t = map verify [0 ..< if returned t then n else outIdx t]"
      using Suc.prems True by (intro Suc.IH) (auto simp: lessThan_Suc)
    with True show ?thesis by (simp add: Let_def)
  next
    case False
    with Suc.prems show ?thesis
      by (cases n) (auto simp: Let_def)
  qed
qed simp

lemma pipe_inv_init: "0 < n \<Longrightarrow> pipe_inv n workers verify pipe_init"
  by (simp add: pipe_inv_def pipe_init_def)

lemma pipe_inv_step:
  assumes "pipe_step n workers verify s t" "pipe_inv n workers verify s"
  shows "pipe_inv n workers verify t"
  using assms
proof (induction rule: pipe_step.induct)
  case (Send s)
  then show ?case by (auto simp: pipe_inv_def lessThan_Suc)
next
  case (Work s xs i ys)
  then show ?case by (auto simp: pipe_inv_def)
next
  case (Receive s i "is")
  let ?s = "s \<lparr> doneCh := is, checked := insert i (checked s) \<rparr>"
  have "let t = deliver (n - outIdx s) n ?s in outIdx t < n \<and> {..< outIdx t} \<subseteq> checked t \<and>
     (\<not> returned t \<longrightarrow> outIdx t \<notin> checked t) \<and>
     errorsOut t = map verify [0 ..< if returned t then n else outIdx t]"
    using Receive by (intro deliver_order) (auto simp: pipe_inv_def)
  with Receive show ?case by (auto simp: pipe_inv_def Let_def)
next
  case (Abort s)
  then show ?case by (auto simp: pipe_inv_def)
qed

lemma pipe_inv_reach: "pipe_reach n workers verify s \<Longrightarrow> 0 < n \<Longrightarrow> pipe_inv n workers verify s"
  by (induction rule: pipe_reach.induct) (auto intro: pipe_inv_init pipe_inv_step)

lemma pipe_progress:
  assumes "pipe_inv n workers verify s" "0 < workers" "\<not> returned s"
  shows "\<exists>t. pipe_step n workers verify s t \<and> \<not> aborted t"
proof (cases "doneCh s")
  case (Cons i rest)
  then show ?thesis
    using assms pipe_step.Receive [of s i rest n workers verify] by (auto simp: pipe_inv_def)
next
  case empty: Nil
  show ?thesis
  proof (cases "busy s")
    case (Cons i ys)
    then show ?thesis
      using assms empty pipe_step.Work [of s "[]" i ys workers n verify] by (auto simp: pipe_inv_def)
  next
    case Nil
    with empty assms have "sending s" by (auto simp: pipe_inv_def)
    with Nil assms show ?thesis
      using pipe_step.Send [of s workers n verify] by (auto simp: pipe_inv_def)
  qed
qed

definition pipe_measure :: "nat \<Rightarrow> pipe \<Rightarrow> nat" where
  "pipe_measure n s = 3 * (n - inIdx s) + 2 * length (busy s) + length (doneCh s) +
     (if returned s then 0 else 1)"

lemma pipe_measure_step:
  assumes "pipe_step n workers verify s t" "pipe_inv n workers verify s"
  shows "pipe_measure n t < pipe_measure n s"
  using assms by (induction rule: pipe_step.induct) (auto simp: pipe_measure_def pipe_inv_def)

text \<open>
  C27: Whatever the interleaving of coordinator and workers, the verdicts \<open>VerifyHeaders\<close> has
  delivered are a prefix of the verdicts of the headers in input order, and when the coordinator
  returns without having been aborted they are all of them.
\<close>

theorem VerifyHeaders_in_order:
  assumes "pipe_reach n workers verify s" "0 < n"
  shows "prefix (errorsOut s) (map verify [0 ..< n]) \<and>
    (returned s \<longrightarrow> aborted s \<or> errorsOut s = map verify [0 ..< n])"
proof -
  have inv: "pipe_inv n workers verify s" using assms by (rule pipe_inv_reach)
  then have "prefix [0 ..< outIdx s] [0 ..< n]"
    using upt_add_eq_append [of 0 "outIdx s" "n - outIdx s"] by (auto simp: pipe_inv_def)
  then have "prefix (map verify [0 ..< outIdx s]) (map verify [0 ..< n])" by (rule map_mono_prefix)
  with inv show ?thesis by (auto simp: pipe_inv_def)
qed

text \<open>One header and one worker: send, work, receive.\<close>

lemma one_header_run:
  "pipe_reach 1 1 (\<lambda>_. Ret None) (pipe_init \<lparr> inIdx := 1, sending := False, checked := {0},
     errs := [0 \<mapsto> Ret None], errorsOut := [Ret None], returned := True \<rparr>)"
proof -
  let ?v = "\<lambda>_ :: nat. Ret None :: verdict"
  have "pipe_step 1 1 ?v pipe_init (pipe_init \<lparr> busy := [0], inIdx := 1, sending := False \<rparr>)"
    using pipe_step.Send [of pipe_init 1 1 ?v] by (simp add: pipe_init_def)
  moreover have "pipe_step 1 1 ?v (pipe_init \<lparr> busy := [0], inIdx := 1, sending := False \<rparr>)
      (pipe_init \<lparr> inIdx := 1, sending := False, errs := [0 \<mapsto> Ret None], doneCh := [0] \<rparr>)"
    using pipe_step.Work [of "pipe_init \<lparr> busy := [0], inIdx := 1, sending := False \<rparr>" "[]" 0 "[]" 1 1 ?v]
    by (simp add: pipe_init_def)
  moreover have "pipe_step 1 1 ?v
      (pipe_init \<lparr> inIdx := 1, sending := False, errs := [0 \<mapsto> Ret None], doneCh := [0] \<rparr>)
      (pipe_init \<lparr> inIdx := 1, sending := False, checked := {0}, errs := [0 \<mapsto> Ret None],
         errorsOut := [Ret None], returned := True \<rparr>)"
    using pipe_step.Receive [of "pipe_init \<lparr> inIdx := 1, sending := False, errs := [0 \<mapsto> Ret None],
        doneCh := [0] \<rparr>" 0 "[]" 1 1 ?v]
    by (simp add: pipe_init_def)
  ultimately show ?thesis by (meson pipe_reach.intros)
qed

theorem VerifyHeaders_in_order_witness:
  "prefix [Ret None] (map (\<lambda>_. Ret None :: verdict) [0 ..< 1])"
  using VerifyHeaders_in_order [OF one_header_run] by simp

text \<open>
  C32: Every run of \<open>VerifyHeaders\<close> over \<open>n\<close> headers has at most \<open>3 n + 1\<close> steps, and as long as the
  coordinator has not returned some step other than an abort is possible: no deadlock.
\<close>

theorem VerifyHeaders_terminates:
  assumes "0 < n" "0 < workers" "(pipe_step n workers verify ^^ k) pipe_init s"
  shows "k \<le> 3 * n + 1 \<and>
    (\<not> returned s \<longrightarrow> (\<exists>t. pipe_step n workers verify s t \<and> \<not> aborted t))"
proof -
  have "pipe_inv n workers verify s \<and> pipe_measure n s + k \<le> pipe_measure n pipe_init"
    using assms(3)
  proof (induction k arbitrary: s)
    case 0
    then show ?case using assms(1) by (simp add: pipe_inv_init)
  next
    case (Suc k)
    then obtain u where "(pipe_step n workers verify ^^ k) pipe_init u" "pipe_step n workers verify u s"
      by auto
    with Suc.IH [of u] show ?case
      using pipe_inv_step [of n workers verify u s] pipe_measure_step [of n workers verify u s] by auto
  qed
  moreover have "pipe_measure n pipe_init = 3 * n + 1" by (simp add: pipe_measure_def pipe_init_def)
  ultimately show ?thesis using pipe_progress [of n workers verify s] assms(2) by auto
qed

theorem VerifyHeaders_terminates_witness:
  "\<exists>t. pipe_step 2 1 (\<lambda>_. Ret None) pipe_init t \<and> \<not> aborted t"
  using VerifyHeaders_terminates [of 2 1 0 "\<lambda>_. Ret None" pipe_init] by (simp add: pipe_init_def)


end
