(* ===== verification/Access_List.thy ===== *)
theory Access_List
  imports Prelude
begin

text \<open>
  The per-transaction access list of EIP-2929, \<^verbatim>\<open>client/core/state/access_list.go\<close>: a map from
  addresses to an index into a slice of slot sets, \<open>-1\<close> for an address without slots.

  Facts: the index map stays consistent with the slice, so no operation indexes out of range; what
  has been added is reported present and nothing else changes; deleting in reverse order of addition
  restores the list exactly, although \<open>DeleteSlot\<close> truncates the slice. The contract that the gas
  functions and the journal rely on is the locale \<open>warm_list\<close>, interpreted on the model.
\<close>

section \<open>The list\<close>

record accessList =
  addresses :: "address \<rightharpoonup> int"
  slots :: "hash set list"

definition newAccessList :: accessList where
  "newAccessList = \<lparr> addresses = Map.empty, slots = [] \<rparr>"

definition ContainsAddress :: "accessList \<Rightarrow> address \<Rightarrow> bool" where
  "ContainsAddress al a = (addresses al a \<noteq> None)"

text \<open>Indexing the slice: out of range panics.\<close>

definition slot_at :: "accessList \<Rightarrow> int \<Rightarrow> hash set go" where
  "slot_at al idx = (if 0 \<le> idx \<and> nat idx < length (slots al) then Ret (slots al ! nat idx)
                     else Panic ''index out of range'')"

definition Contains :: "accessList \<Rightarrow> address \<Rightarrow> hash \<Rightarrow> (bool \<times> bool) go" where
  "Contains al a slot =
    (case addresses al a of
       None \<Rightarrow> Ret (False, False)
     | Some idx \<Rightarrow>
         if idx = -1 then Ret (True, False)
         else go_bind (slot_at al idx) (\<lambda>slotmap. Ret (True, slot \<in> slotmap)))"

definition AddAddress :: "accessList \<Rightarrow> address \<Rightarrow> accessList \<times> bool" where
  "AddAddress al a =
    (if addresses al a \<noteq> None then (al, False)
     else (al \<lparr> addresses := (addresses al)(a \<mapsto> -1) \<rparr>, True))"

definition AddSlot :: "accessList \<Rightarrow> address \<Rightarrow> hash \<Rightarrow> (accessList \<times> bool \<times> bool) go" where
  "AddSlot al a slot =
    (case addresses al a of
       None \<Rightarrow>
         Ret (al \<lparr> addresses := (addresses al)(a \<mapsto> int (length (slots al))),
                   slots := slots al @ [{slot}] \<rparr>, True, True)
     | Some idx \<Rightarrow>
         if idx = -1
         then Ret (al \<lparr> addresses := (addresses al)(a \<mapsto> int (length (slots al))),
                        slots := slots al @ [{slot}] \<rparr>, False, True)
         else go_bind (slot_at al idx) (\<lambda>slotmap.
           if slot \<notin> slotmap
           then Ret (al \<lparr> slots := (slots al)[nat idx := insert slot slotmap] \<rparr>, False, True)
           else Ret (al, False, False)))"

definition DeleteSlot :: "accessList \<Rightarrow> address \<Rightarrow> hash \<Rightarrow> accessList go" where
  "DeleteSlot al a slot =
    (case addresses al a of
       None \<Rightarrow> Panic ''reverting slot change, address not present in list''
     | Some idx \<Rightarrow>
         go_bind (slot_at al idx) (\<lambda>slotmap.
           let slotmap = slotmap - {slot} in
           if slotmap = {}
           then Ret (al \<lparr> slots := take (nat idx) (slots al),
                          addresses := (addresses al)(a \<mapsto> -1) \<rparr>)
           else Ret (al \<lparr> slots := (slots al)[nat idx := slotmap] \<rparr>)))"

definition DeleteAddress :: "accessList \<Rightarrow> address \<Rightarrow> accessList" where
  "DeleteAddress al a = al \<lparr> addresses := (addresses al)(a := None) \<rparr>"

text \<open>\<open>Copy\<close> builds a list with the same entries; on values it is the identity.\<close>

definition accessList_Copy :: "accessList \<Rightarrow> accessList" where
  "accessList_Copy al = \<lparr> addresses = addresses al, slots = map (\<lambda>slotMap. slotMap) (slots al) \<rparr>"

section \<open>Consistency\<close>

text \<open>
  Indices are \<open>-1\<close> or in range, no two addresses share a slot set, and every slot set in use has an
  element.
\<close>

definition al_wf :: "accessList \<Rightarrow> bool" where
  "al_wf al \<longleftrightarrow>
     (\<forall>a i. addresses al a = Some i \<longrightarrow> i = -1 \<or> 0 \<le> i \<and> nat i < length (slots al)) \<and>
     (\<forall>a b i. addresses al a = Some i \<longrightarrow> addresses al b = Some i \<longrightarrow> i \<noteq> -1 \<longrightarrow> a = b) \<and>
     {} \<notin> set (slots al)"

lemma al_wf_new [simp]: "al_wf newAccessList"
  by (simp add: al_wf_def newAccessList_def)

lemma al_wf_slot_at:
  "al_wf al \<Longrightarrow> addresses al a = Some i \<Longrightarrow> i \<noteq> -1 \<Longrightarrow>
   slot_at al i = Ret (slots al ! nat i) \<and> slots al ! nat i \<noteq> {} \<and> nat i < length (slots al)"
  unfolding al_wf_def slot_at_def by (metis nth_mem)

lemma al_wf_AddAddress: "al_wf al \<Longrightarrow> al_wf (fst (AddAddress al a))"
  by (auto simp: al_wf_def AddAddress_def)

text \<open>The set of warm addresses and slots a list stands for.\<close>

definition warm :: "accessList \<Rightarrow> address set \<times> (address \<times> hash) set" where
  "warm al = (dom (addresses al),
     {(a, k). \<exists>i. addresses al a = Some i \<and> i \<noteq> -1 \<and> k \<in> slots al ! nat i})"

lemma AddSlot_returns:
  assumes "al_wf al"
  shows "\<exists>al' x y. AddSlot al a k = Ret (al', x, y) \<and> al_wf al'"
proof (cases "addresses al a = None \<or> addresses al a = Some (-1)")
  case True
  then show ?thesis using assms
    by (fastforce simp: AddSlot_def al_wf_def nth_append split: if_splits)
next
  case False
  then obtain i where i: "addresses al a = Some i" "i \<noteq> -1" by auto
  note s = al_wf_slot_at [OF assms i]
  have "{} \<notin> set ((slots al)[nat i := insert k (slots al ! nat i)])"
    using assms set_update_subset_insert [of "slots al" "nat i" "insert k (slots al ! nat i)"]
    by (auto simp: al_wf_def)
  then show ?thesis using assms i s by (auto simp: AddSlot_def al_wf_def)
qed


lemma ContainsAddress_warm: "ContainsAddress al a \<longleftrightarrow> a \<in> fst (warm al)"
  by (auto simp: ContainsAddress_def warm_def)

lemma Contains_warm:
  assumes "al_wf al"
  shows "Contains al a k = Ret (a \<in> fst (warm al), (a, k) \<in> snd (warm al))"
  using al_wf_slot_at [OF assms, of a]
  by (auto simp: Contains_def warm_def split: option.splits)

lemma AddAddress_warm:
  "warm (fst (AddAddress al a)) = (insert a (fst (warm al)), snd (warm al)) \<and>
   snd (AddAddress al a) = (a \<notin> fst (warm al))"
  by (auto simp: AddAddress_def warm_def split: if_splits)

lemma AddSlot_warm:
  assumes "al_wf al" "AddSlot al a k = Ret (al', x, y)"
  shows "warm al' = (insert a (fst (warm al)), insert (a, k) (snd (warm al))) \<and>
         x = (a \<notin> fst (warm al)) \<and> y = ((a, k) \<notin> snd (warm al))"
proof (cases "addresses al a = None \<or> addresses al a = Some (-1)")
  case True
  have old: "nat i < length (slots al)" if "addresses al b = Some i" "i \<noteq> -1" for b i
    using al_wf_slot_at [OF assms(1) that] by simp
  from True assms(2) show ?thesis
    by (auto simp: AddSlot_def warm_def nth_append old split: option.splits if_splits dest: old)
next
  case False
  then obtain i where i: "addresses al a = Some i" "i \<noteq> -1" by auto
  note s = al_wf_slot_at [OF assms(1) i]
  have same: "b = a" if "addresses al b = Some j" "j \<noteq> -1" "nat i = nat j" for b j
  proof -
    have "0 \<le> i" "0 \<le> j" using assms(1) i that by (auto simp: al_wf_def)
    then have "i = j" using that by simp
    then show ?thesis using assms(1) i that unfolding al_wf_def by blast
  qed
  from assms(2) i s show ?thesis
    by (auto simp: AddSlot_def warm_def nth_list_update dest: same split: if_splits)
qed

lemma DeleteAddress_undo: "AddAddress al a = (al', True) \<Longrightarrow> DeleteAddress al' a = al"
  by (auto simp: AddAddress_def DeleteAddress_def fun_upd_idem split: if_splits)

lemma DeleteSlot_undo:
  assumes "al_wf al" "AddSlot al a k = Ret (al', x, True)"
  shows "\<exists>al''. DeleteSlot al' a k = Ret al'' \<and> (if x then DeleteAddress al'' a else al'') = al"
proof (cases "addresses al a = None \<or> addresses al a = Some (-1)")
  case True
  with assms(2) show ?thesis
    by (auto simp: AddSlot_def DeleteSlot_def DeleteAddress_def slot_at_def fun_upd_idem
        split: option.splits if_splits)
next
  case False
  then obtain i where i: "addresses al a = Some i" "i \<noteq> -1" by auto
  note s = al_wf_slot_at [OF assms(1) i]
  have "0 \<le> i" using assms(1) i by (auto simp: al_wf_def)
  with assms(2) i s show ?thesis
    by (auto simp: AddSlot_def DeleteSlot_def slot_at_def Let_def list_update_id split: if_splits)
qed

section \<open>The contract\<close>

text \<open>
  What the clients rely on: the gas functions on membership after an addition, the journal on the
  two undo laws.
\<close>

locale warm_list =
  fixes inv :: "'l \<Rightarrow> bool"
    and warm_of :: "'l \<Rightarrow> 'a set \<times> ('a \<times> 'k) set"
    and add_address :: "'l \<Rightarrow> 'a \<Rightarrow> 'l \<times> bool"
    and add_slot :: "'l \<Rightarrow> 'a \<Rightarrow> 'k \<Rightarrow> ('l \<times> bool \<times> bool) go"
    and has :: "'l \<Rightarrow> 'a \<Rightarrow> 'k \<Rightarrow> (bool \<times> bool) go"
    and delete_address :: "'l \<Rightarrow> 'a \<Rightarrow> 'l"
    and delete_slot :: "'l \<Rightarrow> 'a \<Rightarrow> 'k \<Rightarrow> 'l go"
  assumes has_warm: "inv l \<Longrightarrow> has l a k = Ret (a \<in> fst (warm_of l), (a, k) \<in> snd (warm_of l))"
    and add_address_inv: "inv l \<Longrightarrow> inv (fst (add_address l a))"
    and add_address_warm:
      "inv l \<Longrightarrow> warm_of (fst (add_address l a)) = (insert a (fst (warm_of l)), snd (warm_of l))"
    and add_slot_total: "inv l \<Longrightarrow> \<exists>l' x y. add_slot l a k = Ret (l', x, y) \<and> inv l'"
    and add_slot_warm: "inv l \<Longrightarrow> add_slot l a k = Ret (l', x, y) \<Longrightarrow>
      warm_of l' = (insert a (fst (warm_of l)), insert (a, k) (snd (warm_of l)))"
    and undo_address: "inv l \<Longrightarrow> add_address l a = (l', True) \<Longrightarrow> delete_address l' a = l"
    and undo_slot: "inv l \<Longrightarrow> add_slot l a k = Ret (l', x, True) \<Longrightarrow>
      \<exists>l''. delete_slot l' a k = Ret l'' \<and> (if x then delete_address l'' a else l'') = l"
begin

lemma add_slot_has:
  assumes "inv l" "add_slot l a k = Ret (l', x, y)"
  shows "has l' a k = Ret (True, True)"
proof -
  have "inv l'" using add_slot_total [OF assms(1), of a k] assms(2) by auto
  then show ?thesis by (simp add: has_warm add_slot_warm [OF assms])
qed

lemma add_keeps_has:
  assumes "inv l" "has l b j = Ret (True, True)" "add_slot l a k = Ret (l', x, y)"
  shows "has l' b j = Ret (True, True)"
proof -
  have "inv l'" using add_slot_total [OF assms(1), of a k] assms(3) by auto
  then show ?thesis using assms by (auto simp: has_warm add_slot_warm [OF assms(1,3)])
qed

text \<open>Adding a whole transaction access list, address by address and slot by slot.\<close>

primrec add_slots :: "'l \<Rightarrow> 'a \<Rightarrow> 'k list \<Rightarrow> 'l go" where
  "add_slots l a [] = Ret l"
| "add_slots l a (k # ks) = go_bind (add_slot l a k) (\<lambda>(l', _, _). add_slots l' a ks)"

lemma add_slots_warm:
  assumes "inv l"
  shows "\<exists>l'. add_slots l a ks = Ret l' \<and> inv l' \<and>
    warm_of l' = ((if ks = [] then id else insert a) (fst (warm_of l)),
                  {a} \<times> set ks \<union> snd (warm_of l))"
  using assms
proof (induction ks arbitrary: l)
  case (Cons k ks)
  obtain l1 x y where l1: "add_slot l a k = Ret (l1, x, y)" "inv l1"
    using add_slot_total [OF Cons.prems, of a k] by blast
  note w = add_slot_warm [OF Cons.prems l1(1)]
  from Cons.IH [OF l1(2)] l1 w show ?case by auto
qed simp

end

interpretation al: warm_list al_wf warm AddAddress AddSlot Contains DeleteAddress DeleteSlot
proof
  fix l :: accessList and a k
  show "al_wf l \<Longrightarrow> Contains l a k = Ret (a \<in> fst (warm l), (a, k) \<in> snd (warm l))"
    by (rule Contains_warm)
  show "al_wf l \<Longrightarrow> al_wf (fst (AddAddress l a))" by (rule al_wf_AddAddress)
  show "warm (fst (AddAddress l a)) = (insert a (fst (warm l)), snd (warm l))"
    by (simp add: AddAddress_warm)
  show "al_wf l \<Longrightarrow> \<exists>l' x y. AddSlot l a k = Ret (l', x, y) \<and> al_wf l'" by (rule AddSlot_returns)
  fix l' x y
  show "al_wf l \<Longrightarrow> AddSlot l a k = Ret (l', x, y) \<Longrightarrow>
      warm l' = (insert a (fst (warm l)), insert (a, k) (snd (warm l)))"
    by (simp add: AddSlot_warm)
  show "AddAddress l a = (l', True) \<Longrightarrow> DeleteAddress l' a = l" by (rule DeleteAddress_undo)
  show "al_wf l \<Longrightarrow> AddSlot l a k = Ret (l', x, True) \<Longrightarrow>
      \<exists>l''. DeleteSlot l' a k = Ret l'' \<and> (if x then DeleteAddress l'' a else l'') = l"
    by (rule DeleteSlot_undo)
qed

end
