(* ===== verification/State_Object.thy ===== *)
theory State_Object
  imports Params Access_List
begin

text \<open>
  The data of the world state: accounts and the cached account objects of
  \<^verbatim>\<open>client/core/state/state_object.go\<close>, the journal entries of \<^verbatim>\<open>client/core/state/journal.go\<close>, the
  transient storage of \<^verbatim>\<open>client/core/state/transient_storage.go\<close>, and the record \<open>StateDB\<close> of
  \<^verbatim>\<open>client/core/state/statedb.go\<close> they are part of.

  Conventions: the database behind the tries is the parameter \<open>Database\<close>, its reads keyed by address
  (the code hashes the address to find the trie key); only the path without a snapshot tree
  (\<open>snap == nil\<close>) and without a prefetcher is modelled; counters for metrics are left out. A pointer
  to a state object is the object itself: an object is only reached through its address, and the
  copy a \<open>resetObjectChange\<close> holds is not modified while it is in the journal.
\<close>

section \<open>Accounts and objects\<close>

definition EmptyRootHash :: hash where
  "EmptyRootHash = 0x56e81f171bcc55a6ff8345e692c0f86e5b48e01b996cadc001622fb5e363b421"

definition EmptyCodeHash :: hash where
  "EmptyCodeHash = 0xc5d2460186f7233c927e7db2dcc703c0e500b653ca82273b7bfad8045d85a470"

text \<open>\<open>types.StateAccount\<close>, whose balance and code hash may be nil.\<close>

record StateAccount =
  acNonce :: u64
  acBalance :: "int option"
  acRoot :: hash
  acCodeHash :: "hash option"

definition zeroAccount :: StateAccount where
  "zeroAccount = \<lparr> acNonce = 0, acBalance = None, acRoot = 0, acCodeHash = None \<rparr>"

text \<open>An account object: its \<open>data\<close> is flattened into the four fields after the address.\<close>

record stateObject =
  oaddress :: address
  oNonce :: u64
  oBalance :: int
  oRoot :: hash
  oCodeHash :: hash
  ocode :: "bytes option"
  originStorage :: "hash \<rightharpoonup> hash"
  pendingStorage :: "hash \<rightharpoonup> hash"
  dirtyStorage :: "hash \<rightharpoonup> hash"
  dirtyCode :: bool
  suicided :: bool
  deleted :: bool

definition obj_empty :: "stateObject \<Rightarrow> bool" where
  "obj_empty ob = (oNonce ob = 0 \<and> oBalance ob = 0 \<and> oCodeHash ob = EmptyCodeHash)"

definition newObject :: "address \<Rightarrow> StateAccount \<Rightarrow> stateObject" where
  "newObject addr data =
    \<lparr> oaddress = addr, oNonce = acNonce data,
      oBalance = (case acBalance data of None \<Rightarrow> 0 | Some b \<Rightarrow> b),
      oRoot = (if acRoot data = 0 then EmptyRootHash else acRoot data),
      oCodeHash = (case acCodeHash data of None \<Rightarrow> EmptyCodeHash | Some h \<Rightarrow> h),
      ocode = None, originStorage = Map.empty, pendingStorage = Map.empty,
      dirtyStorage = Map.empty, dirtyCode = False, suicided = False, deleted = False \<rparr>"

definition obj_setBalance :: "int \<Rightarrow> stateObject \<Rightarrow> stateObject" where
  "obj_setBalance amount ob = ob \<lparr> oBalance := amount \<rparr>"

definition obj_setNonce :: "u64 \<Rightarrow> stateObject \<Rightarrow> stateObject" where
  "obj_setNonce nonce ob = ob \<lparr> oNonce := nonce \<rparr>"

definition obj_setCode :: "hash \<Rightarrow> bytes option \<Rightarrow> stateObject \<Rightarrow> stateObject" where
  "obj_setCode codeHash code ob = ob \<lparr> ocode := code, oCodeHash := codeHash, dirtyCode := True \<rparr>"

definition obj_setState :: "hash \<Rightarrow> hash \<Rightarrow> stateObject \<Rightarrow> stateObject" where
  "obj_setState key value ob = ob \<lparr> dirtyStorage := (dirtyStorage ob)(key \<mapsto> value) \<rparr>"

definition markSuicided :: "stateObject \<Rightarrow> stateObject" where
  "markSuicided ob = ob \<lparr> suicided := True \<rparr>"

text \<open>\<open>finalise\<close>: the dirty slots become pending.\<close>

definition obj_finalise :: "stateObject \<Rightarrow> stateObject" where
  "obj_finalise ob =
     ob \<lparr> pendingStorage := pendingStorage ob ++ dirtyStorage ob, dirtyStorage := Map.empty \<rparr>"

section \<open>Logs, transient storage, journal\<close>

record Log =
  lAddress :: address
  lTopics :: "hash list"
  lData :: bytes
  lBlockNumber :: u64
  lTxHash :: hash
  lTxIndex :: u64
  lBlockHash :: hash
  lIndex :: u64
  lRemoved :: bool

type_synonym transientStorage = "address \<rightharpoonup> (hash \<rightharpoonup> hash)"

definition transient_Set :: "transientStorage \<Rightarrow> address \<Rightarrow> hash \<Rightarrow> hash \<Rightarrow> transientStorage" where
  "transient_Set t addr key value =
    (let m = (case t addr of None \<Rightarrow> Map.empty | Some m \<Rightarrow> m) in t(addr \<mapsto> m(key \<mapsto> value)))"

definition transient_Get :: "transientStorage \<Rightarrow> address \<Rightarrow> hash \<Rightarrow> hash" where
  "transient_Get t addr key = (case t addr of None \<Rightarrow> 0 | Some m \<Rightarrow> map_get 0 m key)"

datatype journalEntry =
    createObjectChange address
  | resetObjectChange stateObject bool
  | suicideChange address bool int
  | balanceChange address int
  | nonceChange address u64
  | storageChange address hash hash
  | codeChange address "bytes option" hash
  | refundChange u64
  | addLogChange hash
  | addPreimageChange hash
  | touchChange address
  | accessListAddAccountChange address
  | accessListAddSlotChange address hash
  | transientStorageChange address hash hash

fun dirtied :: "journalEntry \<Rightarrow> address option" where
  "dirtied (createObjectChange a) = Some a"
| "dirtied (resetObjectChange prev d) = None"
| "dirtied (suicideChange a p b) = Some a"
| "dirtied (balanceChange a p) = Some a"
| "dirtied (nonceChange a p) = Some a"
| "dirtied (storageChange a k v) = Some a"
| "dirtied (codeChange a c h) = Some a"
| "dirtied (refundChange p) = None"
| "dirtied (addLogChange h) = None"
| "dirtied (addPreimageChange h) = None"
| "dirtied (touchChange a) = Some a"
| "dirtied (accessListAddAccountChange a) = None"
| "dirtied (accessListAddSlotChange a k) = None"
| "dirtied (transientStorageChange a k v) = None"

section \<open>The state database\<close>

text \<open>
  Reads of the database: \<open>trie.GetAccount\<close>; a storage slot of the trie with the given root, where
  opening or reading may fail (\<open>ReadErr\<close>, nothing is cached) or the stored RLP may be malformed (a
  value together with an error); \<open>ContractCode\<close> and \<open>ContractCodeSize\<close>, which return a value and
  possibly an error.
\<close>

datatype storageRead = ReadErr string | ReadVal hash "string option"

record Database =
  dbAccount :: "address \<Rightarrow> string + StateAccount option"
  dbStorage :: "address \<Rightarrow> hash \<Rightarrow> hash \<Rightarrow> storageRead"
  dbCode :: "address \<Rightarrow> hash \<Rightarrow> bytes option \<times> string option"
  dbCodeSize :: "address \<Rightarrow> hash \<Rightarrow> nat \<times> string option"

text \<open>
  \<open>journal.dirties\<close> is a count per address; the code removes a key when its count falls to 0, so a
  count of 0 stands for an absent key.
\<close>

record StateDB =
  sdb :: Database
  stateObjects :: "address \<rightharpoonup> stateObject"
  stateObjectsPending :: "address set"
  stateObjectsDirty :: "address set"
  stateObjectsDestruct :: "address set"
  dbErr :: "string option"
  refund :: u64
  thash :: hash
  txIndex :: u64
  logs :: "hash \<rightharpoonup> Log list"
  logSize :: u64
  preimages :: "hash \<rightharpoonup> bytes"
  sAccessList :: accessList
  sTransient :: transientStorage
  jentries :: "journalEntry list"
  jdirties :: "address \<Rightarrow> nat"
  validRevisions :: "(int \<times> nat) list"
  nextRevisionId :: int

definition newStateDB :: "Database \<Rightarrow> StateDB" where
  "newStateDB db =
    \<lparr> sdb = db, stateObjects = Map.empty, stateObjectsPending = {}, stateObjectsDirty = {},
      stateObjectsDestruct = {}, dbErr = None, refund = 0, thash = 0, txIndex = 0,
      logs = Map.empty, logSize = 0, preimages = Map.empty, sAccessList = newAccessList,
      sTransient = Map.empty, jentries = [], jdirties = (\<lambda>_. 0), validRevisions = [],
      nextRevisionId = 0 \<rparr>"

definition ripemd :: address where "ripemd = 3"

definition setError :: "string \<Rightarrow> StateDB \<Rightarrow> StateDB" where
  "setError e s = (if dbErr s = None then s \<lparr> dbErr := Some e \<rparr> else s)"

definition setErrorOpt :: "string option \<Rightarrow> StateDB \<Rightarrow> StateDB" where
  "setErrorOpt e s = (case e of None \<Rightarrow> s | Some m \<Rightarrow> setError m s)"

text \<open>\<open>journal.append\<close> and \<open>journal.dirty\<close>.\<close>

definition journal_append :: "journalEntry \<Rightarrow> StateDB \<Rightarrow> StateDB" where
  "journal_append e s =
    (let s = s \<lparr> jentries := jentries s @ [e] \<rparr> in
     case dirtied e of
       None \<Rightarrow> s
     | Some addr \<Rightarrow> s \<lparr> jdirties := (jdirties s)(addr := jdirties s addr + 1) \<rparr>)"

definition journal_dirty :: "address \<Rightarrow> StateDB \<Rightarrow> StateDB" where
  "journal_dirty addr s = s \<lparr> jdirties := (jdirties s)(addr := jdirties s addr + 1) \<rparr>"

definition setStateObject :: "stateObject \<Rightarrow> StateDB \<Rightarrow> StateDB" where
  "setStateObject ob s = s \<lparr> stateObjects := (stateObjects s)(oaddress ob \<mapsto> ob) \<rparr>"

end
