(* ===== verification/State_DB.thy ===== *)
theory State_DB
  imports State_Object
begin

text \<open>
  The operations of \<open>StateDB\<close> (\<^verbatim>\<open>client/core/state/statedb.go\<close>), of its account objects
  (\<^verbatim>\<open>client/core/state/state_object.go\<close>) and of the journal's revert functions
  (\<^verbatim>\<open>client/core/state/journal.go\<close>). Reading an account or a slot loads it into the cache, so every
  accessor returns the database it leaves behind next to its value.
\<close>

section \<open>Loading objects\<close>

definition getDeletedStateObject :: "address \<Rightarrow> StateDB \<Rightarrow> stateObject option \<times> StateDB" where
  "getDeletedStateObject addr s =
    (case stateObjects s addr of
       Some obj \<Rightarrow> (Some obj, s)
     | None \<Rightarrow>
         (case dbAccount (sdb s) addr of
            Inl err \<Rightarrow> (None, setError err s)
          | Inr None \<Rightarrow> (None, s)
          | Inr (Some data) \<Rightarrow>
              let obj = newObject addr data in (Some obj, setStateObject obj s)))"

definition getStateObject :: "address \<Rightarrow> StateDB \<Rightarrow> stateObject option \<times> StateDB" where
  "getStateObject addr s =
    (case getDeletedStateObject addr s of
       (Some obj, s) \<Rightarrow> if deleted obj then (None, s) else (Some obj, s)
     | (None, s) \<Rightarrow> (None, s))"

definition createObject ::
    "address \<Rightarrow> StateDB \<Rightarrow> stateObject \<times> stateObject option \<times> StateDB" where
  "createObject addr s =
    (case getDeletedStateObject addr s of
       (None, s) \<Rightarrow>
         let newobj = newObject addr zeroAccount;
             s = journal_append (createObjectChange addr) s;
             s = setStateObject newobj s
         in (newobj, None, s)
     | (Some prev, s) \<Rightarrow>
         let prevdestruct = (oaddress prev \<in> stateObjectsDestruct s);
             s = (if prevdestruct then s
                  else s \<lparr> stateObjectsDestruct := insert (oaddress prev) (stateObjectsDestruct s) \<rparr>);
             newobj = newObject addr zeroAccount;
             s = journal_append (resetObjectChange prev prevdestruct) s;
             s = setStateObject newobj s
         in (newobj, (if deleted prev then None else Some prev), s))"

definition GetOrNewStateObject :: "address \<Rightarrow> StateDB \<Rightarrow> stateObject \<times> StateDB" where
  "GetOrNewStateObject addr s =
    (case getStateObject addr s of
       (Some obj, s) \<Rightarrow> (obj, s)
     | (None, s) \<Rightarrow> (case createObject addr s of (obj, _, s) \<Rightarrow> (obj, s)))"

section \<open>Operations of an object\<close>

text \<open>The object \<open>ob\<close> is the one cached at its address; what it caches is written back.\<close>

definition obj_GetCommittedState :: "stateObject \<Rightarrow> hash \<Rightarrow> StateDB \<Rightarrow> hash \<times> StateDB" where
  "obj_GetCommittedState ob key s =
    (case pendingStorage ob key of
       Some value \<Rightarrow> (value, s)
     | None \<Rightarrow>
        (case originStorage ob key of
           Some value \<Rightarrow> (value, s)
         | None \<Rightarrow>
            if oaddress ob \<in> stateObjectsDestruct s then (0, s)
            else case dbStorage (sdb s) (oaddress ob) (oRoot ob) key of
              ReadErr err \<Rightarrow> (0, setError err s)
            | ReadVal value err \<Rightarrow>
                let s = setErrorOpt err s in
                (value, setStateObject
                          (ob \<lparr> originStorage := (originStorage ob)(key \<mapsto> value) \<rparr>) s)))"

definition obj_GetState :: "stateObject \<Rightarrow> hash \<Rightarrow> StateDB \<Rightarrow> hash \<times> StateDB" where
  "obj_GetState ob key s =
    (case dirtyStorage ob key of
       Some value \<Rightarrow> (value, s)
     | None \<Rightarrow> obj_GetCommittedState ob key s)"

text \<open>The object cached at an address, as a pointer held across a cache update reads it.\<close>

definition cached :: "address \<Rightarrow> StateDB \<Rightarrow> stateObject \<Rightarrow> stateObject" where
  "cached addr s ob = (case stateObjects s addr of Some ob' \<Rightarrow> ob' | None \<Rightarrow> ob)"

definition obj_SetState :: "stateObject \<Rightarrow> hash \<Rightarrow> hash \<Rightarrow> StateDB \<Rightarrow> StateDB" where
  "obj_SetState ob key value s =
    (case obj_GetState ob key s of (prev, s) \<Rightarrow>
       if prev = value then s
       else let s = journal_append (storageChange (oaddress ob) key prev) s
            in setStateObject (obj_setState key value (cached (oaddress ob) s ob)) s)"

definition obj_touch :: "stateObject \<Rightarrow> StateDB \<Rightarrow> StateDB" where
  "obj_touch ob s =
    (let s = journal_append (touchChange (oaddress ob)) s in
     if oaddress ob = ripemd then journal_dirty (oaddress ob) s else s)"

definition obj_SetBalance :: "stateObject \<Rightarrow> int \<Rightarrow> StateDB \<Rightarrow> StateDB" where
  "obj_SetBalance ob amount s =
    (let s = journal_append (balanceChange (oaddress ob) (oBalance ob)) s
     in setStateObject (obj_setBalance amount ob) s)"

definition obj_AddBalance :: "stateObject \<Rightarrow> int \<Rightarrow> StateDB \<Rightarrow> StateDB" where
  "obj_AddBalance ob amount s =
    (if amount = 0 then (if obj_empty ob then obj_touch ob s else s)
     else obj_SetBalance ob (oBalance ob + amount) s)"

definition obj_SubBalance :: "stateObject \<Rightarrow> int \<Rightarrow> StateDB \<Rightarrow> StateDB" where
  "obj_SubBalance ob amount s =
    (if amount = 0 then s else obj_SetBalance ob (oBalance ob - amount) s)"

definition obj_SetNonce :: "stateObject \<Rightarrow> u64 \<Rightarrow> StateDB \<Rightarrow> StateDB" where
  "obj_SetNonce ob nonce s =
    (let s = journal_append (nonceChange (oaddress ob) (oNonce ob)) s
     in setStateObject (obj_setNonce nonce ob) s)"

definition obj_Code :: "stateObject \<Rightarrow> StateDB \<Rightarrow> bytes option \<times> StateDB" where
  "obj_Code ob s =
    (case ocode ob of
       Some c \<Rightarrow> (Some c, s)
     | None \<Rightarrow>
        if oCodeHash ob = EmptyCodeHash then (None, s)
        else case dbCode (sdb s) (oaddress ob) (oCodeHash ob) of
          (code, err) \<Rightarrow>
            let s = setErrorOpt err s in (code, setStateObject (ob \<lparr> ocode := code \<rparr>) s))"

definition obj_CodeSize :: "stateObject \<Rightarrow> StateDB \<Rightarrow> nat \<times> StateDB" where
  "obj_CodeSize ob s =
    (case ocode ob of
       Some c \<Rightarrow> (length c, s)
     | None \<Rightarrow>
        if oCodeHash ob = EmptyCodeHash then (0, s)
        else case dbCodeSize (sdb s) (oaddress ob) (oCodeHash ob) of
          (sz, err) \<Rightarrow> (sz, setErrorOpt err s))"

definition obj_SetCode :: "stateObject \<Rightarrow> hash \<Rightarrow> bytes option \<Rightarrow> StateDB \<Rightarrow> StateDB" where
  "obj_SetCode ob codeHash code s =
    (case obj_Code ob s of (prevcode, s) \<Rightarrow>
       let s = journal_append (codeChange (oaddress ob) prevcode (oCodeHash ob)) s
       in setStateObject (obj_setCode codeHash code (cached (oaddress ob) s ob)) s)"

section \<open>Accessors\<close>

definition Exist :: "address \<Rightarrow> StateDB \<Rightarrow> bool \<times> StateDB" where
  "Exist addr s = (case getStateObject addr s of (so, s) \<Rightarrow> (so \<noteq> None, s))"

definition Empty :: "address \<Rightarrow> StateDB \<Rightarrow> bool \<times> StateDB" where
  "Empty addr s =
    (case getStateObject addr s of (so, s) \<Rightarrow>
       ((case so of None \<Rightarrow> True | Some ob \<Rightarrow> obj_empty ob), s))"

definition GetBalance :: "address \<Rightarrow> StateDB \<Rightarrow> int \<times> StateDB" where
  "GetBalance addr s =
    (case getStateObject addr s of (so, s) \<Rightarrow>
       ((case so of None \<Rightarrow> 0 | Some ob \<Rightarrow> oBalance ob), s))"

definition GetNonce :: "address \<Rightarrow> StateDB \<Rightarrow> u64 \<times> StateDB" where
  "GetNonce addr s =
    (case getStateObject addr s of (so, s) \<Rightarrow>
       ((case so of None \<Rightarrow> 0 | Some ob \<Rightarrow> oNonce ob), s))"

definition GetCode :: "address \<Rightarrow> StateDB \<Rightarrow> bytes option \<times> StateDB" where
  "GetCode addr s =
    (case getStateObject addr s of
       (Some ob, s) \<Rightarrow> obj_Code ob s
     | (None, s) \<Rightarrow> (None, s))"

definition GetCodeSize :: "address \<Rightarrow> StateDB \<Rightarrow> nat \<times> StateDB" where
  "GetCodeSize addr s =
    (case getStateObject addr s of
       (Some ob, s) \<Rightarrow> obj_CodeSize ob s
     | (None, s) \<Rightarrow> (0, s))"

definition GetCodeHash :: "address \<Rightarrow> StateDB \<Rightarrow> hash \<times> StateDB" where
  "GetCodeHash addr s =
    (case getStateObject addr s of (so, s) \<Rightarrow>
       ((case so of None \<Rightarrow> 0 | Some ob \<Rightarrow> oCodeHash ob), s))"

definition GetState :: "address \<Rightarrow> hash \<Rightarrow> StateDB \<Rightarrow> hash \<times> StateDB" where
  "GetState addr key s =
    (case getStateObject addr s of
       (Some ob, s) \<Rightarrow> obj_GetState ob key s
     | (None, s) \<Rightarrow> (0, s))"

definition GetCommittedState :: "address \<Rightarrow> hash \<Rightarrow> StateDB \<Rightarrow> hash \<times> StateDB" where
  "GetCommittedState addr key s =
    (case getStateObject addr s of
       (Some ob, s) \<Rightarrow> obj_GetCommittedState ob key s
     | (None, s) \<Rightarrow> (0, s))"

definition HasSuicided :: "address \<Rightarrow> StateDB \<Rightarrow> bool \<times> StateDB" where
  "HasSuicided addr s =
    (case getStateObject addr s of (so, s) \<Rightarrow>
       ((case so of None \<Rightarrow> False | Some ob \<Rightarrow> suicided ob), s))"

definition GetTransientState :: "address \<Rightarrow> hash \<Rightarrow> StateDB \<Rightarrow> hash" where
  "GetTransientState addr key s = transient_Get (sTransient s) addr key"

definition GetRefund :: "StateDB \<Rightarrow> u64" where
  "GetRefund s = refund s"

definition AddressInAccessList :: "address \<Rightarrow> StateDB \<Rightarrow> bool" where
  "AddressInAccessList addr s = ContainsAddress (sAccessList s) addr"

definition SlotInAccessList :: "address \<Rightarrow> hash \<Rightarrow> StateDB \<Rightarrow> (bool \<times> bool) go" where
  "SlotInAccessList addr slot s = Contains (sAccessList s) addr slot"

section \<open>Setters\<close>

definition AddBalance :: "address \<Rightarrow> int \<Rightarrow> StateDB \<Rightarrow> StateDB" where
  "AddBalance addr amount s =
    (case GetOrNewStateObject addr s of (ob, s) \<Rightarrow> obj_AddBalance ob amount s)"

definition SubBalance :: "address \<Rightarrow> int \<Rightarrow> StateDB \<Rightarrow> StateDB" where
  "SubBalance addr amount s =
    (case GetOrNewStateObject addr s of (ob, s) \<Rightarrow> obj_SubBalance ob amount s)"

definition SetBalance :: "address \<Rightarrow> int \<Rightarrow> StateDB \<Rightarrow> StateDB" where
  "SetBalance addr amount s =
    (case GetOrNewStateObject addr s of (ob, s) \<Rightarrow> obj_SetBalance ob amount s)"

definition SetNonce :: "address \<Rightarrow> u64 \<Rightarrow> StateDB \<Rightarrow> StateDB" where
  "SetNonce addr nonce s =
    (case GetOrNewStateObject addr s of (ob, s) \<Rightarrow> obj_SetNonce ob nonce s)"

definition SetCode :: "(bytes \<Rightarrow> hash) \<Rightarrow> address \<Rightarrow> bytes option \<Rightarrow> StateDB \<Rightarrow> StateDB" where
  "SetCode keccak addr code s =
    (case GetOrNewStateObject addr s of (ob, s) \<Rightarrow>
       obj_SetCode ob (keccak (case code of None \<Rightarrow> [] | Some c \<Rightarrow> c)) code s)"

definition SetState :: "address \<Rightarrow> hash \<Rightarrow> hash \<Rightarrow> StateDB \<Rightarrow> StateDB" where
  "SetState addr key value s =
    (case GetOrNewStateObject addr s of (ob, s) \<Rightarrow> obj_SetState ob key value s)"

definition Suicide :: "address \<Rightarrow> StateDB \<Rightarrow> bool \<times> StateDB" where
  "Suicide addr s =
    (case getStateObject addr s of
       (None, s) \<Rightarrow> (False, s)
     | (Some ob, s) \<Rightarrow>
         let s = journal_append (suicideChange addr (suicided ob) (oBalance ob)) s
         in (True, setStateObject (obj_setBalance 0 (markSuicided ob)) s))"

definition CreateAccount :: "address \<Rightarrow> StateDB \<Rightarrow> StateDB" where
  "CreateAccount addr s =
    (case createObject addr s of
       (newObj, Some prev, s) \<Rightarrow> setStateObject (obj_setBalance (oBalance prev) newObj) s
     | (newObj, None, s) \<Rightarrow> s)"

definition setTransientState :: "address \<Rightarrow> hash \<Rightarrow> hash \<Rightarrow> StateDB \<Rightarrow> StateDB" where
  "setTransientState addr key value s =
     s \<lparr> sTransient := transient_Set (sTransient s) addr key value \<rparr>"

definition SetTransientState :: "address \<Rightarrow> hash \<Rightarrow> hash \<Rightarrow> StateDB \<Rightarrow> StateDB" where
  "SetTransientState addr key value s =
    (let prev = GetTransientState addr key s in
     if prev = value then s
     else setTransientState addr key value (journal_append (transientStorageChange addr key prev) s))"

definition AddLog :: "Log \<Rightarrow> StateDB \<Rightarrow> StateDB" where
  "AddLog l s =
    (let s = journal_append (addLogChange (thash s)) s;
         l = l \<lparr> lTxHash := thash s, lTxIndex := txIndex s, lIndex := logSize s \<rparr>
     in s \<lparr> logs := (logs s)(thash s \<mapsto> map_get [] (logs s) (thash s) @ [l]),
            logSize := logSize s + 1 \<rparr>)"

definition AddPreimage :: "hash \<Rightarrow> bytes \<Rightarrow> StateDB \<Rightarrow> StateDB" where
  "AddPreimage h preimage s =
    (if preimages s h = None
     then let s = journal_append (addPreimageChange h) s
          in s \<lparr> preimages := (preimages s)(h \<mapsto> preimage) \<rparr>
     else s)"

definition AddRefund :: "u64 \<Rightarrow> StateDB \<Rightarrow> StateDB" where
  "AddRefund gas s =
    (let s = journal_append (refundChange (refund s)) s in s \<lparr> refund := refund s + gas \<rparr>)"

definition SubRefund :: "u64 \<Rightarrow> StateDB \<Rightarrow> StateDB go" where
  "SubRefund gas s =
    (let s = journal_append (refundChange (refund s)) s in
     if gas > refund s then Panic ''Refund counter below zero''
     else Ret (s \<lparr> refund := refund s - gas \<rparr>))"

definition AddAddressToAccessList :: "address \<Rightarrow> StateDB \<Rightarrow> StateDB" where
  "AddAddressToAccessList addr s =
    (case AddAddress (sAccessList s) addr of (al, change) \<Rightarrow>
       let s = s \<lparr> sAccessList := al \<rparr> in
       if change then journal_append (accessListAddAccountChange addr) s else s)"

definition AddSlotToAccessList :: "address \<Rightarrow> hash \<Rightarrow> StateDB \<Rightarrow> StateDB go" where
  "AddSlotToAccessList addr slot s =
    go_bind (AddSlot (sAccessList s) addr slot) (\<lambda>(al, addrMod, slotMod).
      let s = s \<lparr> sAccessList := al \<rparr>;
          s = (if addrMod then journal_append (accessListAddAccountChange addr) s else s);
          s = (if slotMod then journal_append (accessListAddSlotChange addr slot) s else s)
      in Ret s)"

definition SetTxContext :: "hash \<Rightarrow> u64 \<Rightarrow> StateDB \<Rightarrow> StateDB" where
  "SetTxContext h ti s = s \<lparr> thash := h, txIndex := ti \<rparr>"

section \<open>Snapshots\<close>

definition Snapshot :: "StateDB \<Rightarrow> int \<times> StateDB" where
  "Snapshot s =
    (let id = nextRevisionId s in
     (id, s \<lparr> nextRevisionId := id + 1,
              validRevisions := validRevisions s @ [(id, length (jentries s))] \<rparr>))"

text \<open>The \<open>revert\<close> methods of the journal entries; a call on a nil object panics.\<close>

definition with_object :: "address \<Rightarrow> (stateObject \<Rightarrow> stateObject) \<Rightarrow> StateDB \<Rightarrow> StateDB go" where
  "with_object addr f s =
    (case getStateObject addr s of
       (None, s) \<Rightarrow> Panic ''nil pointer dereference''
     | (Some ob, s) \<Rightarrow> Ret (setStateObject (f ob) s))"

fun revert_entry :: "journalEntry \<Rightarrow> StateDB \<Rightarrow> StateDB go" where
  "revert_entry (createObjectChange a) s =
     Ret (s \<lparr> stateObjects := (stateObjects s)(a := None),
              stateObjectsDirty := stateObjectsDirty s - {a} \<rparr>)"
| "revert_entry (resetObjectChange prev prevdestruct) s =
     (let s = setStateObject prev s in
      Ret (if prevdestruct then s
           else s \<lparr> stateObjectsDestruct := stateObjectsDestruct s - {oaddress prev} \<rparr>))"
| "revert_entry (suicideChange a prev prevbalance) s =
     (case getStateObject a s of
        (None, s) \<Rightarrow> Ret s
      | (Some ob, s) \<Rightarrow> Ret (setStateObject (obj_setBalance prevbalance (ob \<lparr> suicided := prev \<rparr>)) s))"
| "revert_entry (balanceChange a prev) s = with_object a (obj_setBalance prev) s"
| "revert_entry (nonceChange a prev) s = with_object a (obj_setNonce prev) s"
| "revert_entry (storageChange a key prevalue) s = with_object a (obj_setState key prevalue) s"
| "revert_entry (codeChange a prevcode prevhash) s = with_object a (obj_setCode prevhash prevcode) s"
| "revert_entry (refundChange prev) s = Ret (s \<lparr> refund := prev \<rparr>)"
| "revert_entry (addLogChange txhash) s =
     (let ls = map_get [] (logs s) txhash in
      if length ls = 1 then Ret (s \<lparr> logs := (logs s)(txhash := None), logSize := logSize s - 1 \<rparr>)
      else if ls = [] then Panic ''slice bounds out of range''
      else Ret (s \<lparr> logs := (logs s)(txhash \<mapsto> butlast ls), logSize := logSize s - 1 \<rparr>))"
| "revert_entry (addPreimageChange h) s = Ret (s \<lparr> preimages := (preimages s)(h := None) \<rparr>)"
| "revert_entry (touchChange a) s = Ret s"
| "revert_entry (accessListAddAccountChange a) s =
     Ret (s \<lparr> sAccessList := DeleteAddress (sAccessList s) a \<rparr>)"
| "revert_entry (accessListAddSlotChange a slot) s =
     go_bind (DeleteSlot (sAccessList s) a slot) (\<lambda>al. Ret (s \<lparr> sAccessList := al \<rparr>))"
| "revert_entry (transientStorageChange a key prevalue) s = Ret (setTransientState a key prevalue s)"

definition undirty :: "journalEntry \<Rightarrow> StateDB \<Rightarrow> StateDB" where
  "undirty e s =
    (case dirtied e of
       None \<Rightarrow> s
     | Some addr \<Rightarrow> s \<lparr> jdirties := (jdirties s)(addr := jdirties s addr - 1) \<rparr>)"

text \<open>The loop of \<open>journal.revert\<close> over the entries in reverse order.\<close>

fun revert_loop :: "journalEntry list \<Rightarrow> StateDB \<Rightarrow> StateDB go" where
  "revert_loop [] s = Ret s"
| "revert_loop (e # es) s = go_bind (revert_entry e s) (\<lambda>s. revert_loop es (undirty e s))"

definition journal_revert :: "nat \<Rightarrow> StateDB \<Rightarrow> StateDB go" where
  "journal_revert snapshot s =
    go_bind (revert_loop (rev (drop snapshot (jentries s))) s)
      (\<lambda>s. Ret (s \<lparr> jentries := take snapshot (jentries s) \<rparr>))"

text \<open>\<open>sort.Search\<close> of the Go library: binary search between \<open>i\<close> and \<open>j\<close>.\<close>

function sort_search :: "(nat \<Rightarrow> bool) \<Rightarrow> nat \<Rightarrow> nat \<Rightarrow> nat" where
  "sort_search f i j =
    (if i < j then let h = (i + j) div 2 in
       if f h then sort_search f i h else sort_search f (h + 1) j
     else i)"
  by pat_completeness auto
termination by (relation "measure (\<lambda>(f, i, j). j - i)") auto

declare sort_search.simps [simp del]

definition RevertToSnapshot :: "int \<Rightarrow> StateDB \<Rightarrow> StateDB go" where
  "RevertToSnapshot revid s =
    (let idx = sort_search (\<lambda>i. fst (validRevisions s ! i) \<ge> revid) 0 (length (validRevisions s)) in
     if idx = length (validRevisions s) \<or> fst (validRevisions s ! idx) \<noteq> revid
     then Panic ''revision id cannot be reverted''
     else
      let snapshot = snd (validRevisions s ! idx) in
      go_bind (journal_revert snapshot s)
        (\<lambda>s. Ret (s \<lparr> validRevisions := take idx (validRevisions s) \<rparr>)))"

section \<open>Transaction boundaries\<close>

definition clearJournalAndRefund :: "StateDB \<Rightarrow> StateDB" where
  "clearJournalAndRefund s =
    (let s = (if jentries s \<noteq> [] then s \<lparr> jentries := [], jdirties := (\<lambda>_. 0), refund := 0 \<rparr> else s)
     in s \<lparr> validRevisions := [] \<rparr>)"

text \<open>
  \<open>Finalise\<close> handles every dirty address on its own (the iteration order of a Go map is random), so
  the loop is a pointwise update.
\<close>

definition finalise_dead :: "bool \<Rightarrow> stateObject \<Rightarrow> bool" where
  "finalise_dead deleteEmptyObjects obj = (suicided obj \<or> deleteEmptyObjects \<and> obj_empty obj)"

definition Finalise :: "bool \<Rightarrow> StateDB \<Rightarrow> StateDB" where
  "Finalise deleteEmptyObjects s =
    (let handled = (\<lambda>a. if jdirties s a > 0 then stateObjects s a else None) in
     clearJournalAndRefund
      (s \<lparr> stateObjects := (\<lambda>a. case handled a of
              None \<Rightarrow> stateObjects s a
            | Some obj \<Rightarrow> Some (if finalise_dead deleteEmptyObjects obj
                              then obj \<lparr> deleted := True \<rparr> else obj_finalise obj)),
           stateObjectsDestruct := stateObjectsDestruct s \<union>
             {a. \<exists>b obj. handled b = Some obj \<and> finalise_dead deleteEmptyObjects obj \<and> a = oaddress obj},
           stateObjectsPending := stateObjectsPending s \<union> dom handled,
           stateObjectsDirty := stateObjectsDirty s \<union> dom handled \<rparr>))"

text \<open>\<open>Prepare\<close>; an access-list tuple is an address with its storage keys.\<close>

fun add_keys :: "address \<Rightarrow> hash list \<Rightarrow> accessList \<Rightarrow> accessList go" where
  "add_keys a [] al = Ret al"
| "add_keys a (k # ks) al = go_bind (AddSlot al a k) (\<lambda>(al, _, _). add_keys a ks al)"

fun add_tuples :: "(address \<times> hash list) list \<Rightarrow> accessList \<Rightarrow> accessList go" where
  "add_tuples [] al = Ret al"
| "add_tuples ((a, ks) # ts) al =
     go_bind (add_keys a ks (fst (AddAddress al a))) (\<lambda>al. add_tuples ts al)"

definition StateDB_Prepare :: "Rules \<Rightarrow> address \<Rightarrow> address \<Rightarrow> address option \<Rightarrow> address list \<Rightarrow>
    (address \<times> hash list) list \<Rightarrow> StateDB \<Rightarrow> StateDB go" where
  "StateDB_Prepare rules sender coinbase dst precompiles list s =
    go_bind
      (if rIsBerlin rules
       then
         let al = fst (AddAddress newAccessList sender);
             al = (case dst of None \<Rightarrow> al | Some d \<Rightarrow> fst (AddAddress al d));
             al = foldl (\<lambda>al a. fst (AddAddress al a)) al precompiles
         in go_bind (add_tuples list al) (\<lambda>al.
              Ret (s \<lparr> sAccessList := (if rIsShanghai rules then fst (AddAddress al coinbase) else al) \<rparr>))
       else Ret s)
      (\<lambda>s. Ret (s \<lparr> sTransient := Map.empty \<rparr>))"

end
