(* ===== verification/State_View.thy ===== *)
theory State_View
  imports State_DB
begin

text \<open>
  What a client of \<open>StateDB\<close> can observe, and how each revert function acts on it. The cache of
  objects, the cached original slots and the loaded code are representation: \<open>view\<close> forgets them
  and keeps, per address, the account as the accessors report it, next to the refund counter, logs,
  preimages, access list, transient storage and the bookkeeping sets. Facts: the accessors leave the
  view unchanged and return what it says; the journal's revert functions act on the view as the
  corresponding functions \<open>arevert\<close> (a functional refinement, panics included).
  The dirty count of the RIPEMD precompile is left out of the view: touching that account marks it
  dirty beyond the journal, deliberately.
\<close>

section \<open>The observable state\<close>

record account_view =
  vNonce :: u64
  vBalance :: int
  vRoot :: hash
  vCodeHash :: hash
  vCode :: "bytes option"
  vState :: "hash \<Rightarrow> hash"
  vCommitted :: "hash \<Rightarrow> hash"
  vSuicided :: bool
  vDeleted :: bool

definition overlay :: "('k \<rightharpoonup> 'v) \<Rightarrow> ('k \<Rightarrow> 'v) \<Rightarrow> 'k \<Rightarrow> 'v" where
  "overlay m f k = (case m k of Some v \<Rightarrow> v | None \<Rightarrow> f k)"

definition db_slot :: "Database \<Rightarrow> address set \<Rightarrow> address \<Rightarrow> hash \<Rightarrow> hash \<Rightarrow> hash" where
  "db_slot db D a root k =
    (if a \<in> D then 0 else case dbStorage db a root k of ReadErr e \<Rightarrow> 0 | ReadVal v e \<Rightarrow> v)"

definition committed_value :: "Database \<Rightarrow> address set \<Rightarrow> stateObject \<Rightarrow> hash \<Rightarrow> hash" where
  "committed_value db D ob =
    overlay (pendingStorage ob) (overlay (originStorage ob) (db_slot db D (oaddress ob) (oRoot ob)))"

definition code_view :: "Database \<Rightarrow> address \<Rightarrow> hash \<Rightarrow> bytes option \<Rightarrow> bytes option" where
  "code_view db a h c = (case c of Some x \<Rightarrow> Some x | None \<Rightarrow>
     if h = EmptyCodeHash then None else fst (dbCode db a h))"

definition code_value :: "Database \<Rightarrow> stateObject \<Rightarrow> bytes option" where
  "code_value db ob = code_view db (oaddress ob) (oCodeHash ob) (ocode ob)"

definition obj_view :: "Database \<Rightarrow> address set \<Rightarrow> stateObject \<Rightarrow> account_view" where
  "obj_view db D ob =
    \<lparr> vNonce = oNonce ob, vBalance = oBalance ob, vRoot = oRoot ob, vCodeHash = oCodeHash ob,
      vCode = code_value db ob, vState = overlay (dirtyStorage ob) (committed_value db D ob),
      vCommitted = committed_value db D ob, vSuicided = suicided ob, vDeleted = deleted ob \<rparr>"

lemma overlay_upd [simp]: "overlay (m(k \<mapsto> x)) f = (overlay m f)(k := x)"
  by (auto simp: overlay_def fun_eq_iff)

lemma overlay_Some [simp]: "m k = Some x \<Longrightarrow> overlay m f k = x"
  by (simp add: overlay_def)

lemma overlay_None [simp]: "m k = None \<Longrightarrow> overlay m f k = f k"
  by (simp add: overlay_def)

record state_view =
  vDb :: Database
  vObjs :: "address \<rightharpoonup> account_view"
  vPending :: "address set"
  vDirty :: "address set"
  vDestruct :: "address set"
  vRefund :: u64
  vThash :: hash
  vTxIndex :: u64
  vLogs :: "hash \<Rightarrow> Log list"
  vLogSize :: u64
  vPreimages :: "hash \<rightharpoonup> bytes"
  vAccess :: accessList
  vTransient :: "address \<Rightarrow> hash \<Rightarrow> hash"
  vDirties :: "address \<Rightarrow> nat"

definition db_object :: "Database \<Rightarrow> address \<Rightarrow> stateObject option" where
  "db_object db a =
    (case dbAccount db a of Inr (Some data) \<Rightarrow> Some (newObject a data) | _ \<Rightarrow> None)"

definition lookup_in :: "(address \<rightharpoonup> stateObject) \<Rightarrow> Database \<Rightarrow> address \<Rightarrow> stateObject option" where
  "lookup_in objs db a = (case objs a of Some ob \<Rightarrow> Some ob | None \<Rightarrow> db_object db a)"

abbreviation lookup :: "StateDB \<Rightarrow> address \<Rightarrow> stateObject option" where
  "lookup s \<equiv> lookup_in (stateObjects s) (sdb s)"

definition objs_view :: "Database \<Rightarrow> address set \<Rightarrow> (address \<rightharpoonup> stateObject) \<Rightarrow> address \<rightharpoonup> account_view" where
  "objs_view db D objs = (\<lambda>a. map_option (obj_view db D) (lookup_in objs db a))"

definition unripemd :: "(address \<Rightarrow> nat) \<Rightarrow> address \<Rightarrow> nat" where
  "unripemd f = (\<lambda>a. if a = ripemd then 0 else f a)"

definition view :: "StateDB \<Rightarrow> state_view" where
  "view s =
    \<lparr> vDb = sdb s, vObjs = objs_view (sdb s) (stateObjectsDestruct s) (stateObjects s),
      vPending = stateObjectsPending s, vDirty = stateObjectsDirty s,
      vDestruct = stateObjectsDestruct s, vRefund = refund s, vThash = thash s,
      vTxIndex = txIndex s, vLogs = map_get [] (logs s), vLogSize = logSize s,
      vPreimages = preimages s, vAccess = sAccessList s,
      vTransient = transient_Get (sTransient s), vDirties = unripemd (jdirties s) \<rparr>"

lemma objs_view_upd [simp]:
  "objs_view db D (objs(a \<mapsto> ob)) = (objs_view db D objs)(a \<mapsto> obj_view db D ob)"
  by (auto simp: objs_view_def lookup_in_def fun_eq_iff)

lemma objs_view_del:
  "objs_view db D (objs(a := None)) =
     (objs_view db D objs)(a := map_option (obj_view db D) (db_object db a))"
  by (auto simp: objs_view_def lookup_in_def fun_eq_iff)

lemma lookup_in_Some [simp]: "objs a = Some ob \<Longrightarrow> lookup_in objs db a = Some ob"
  by (simp add: lookup_in_def)

lemma lookup_in_None: "objs a = None \<Longrightarrow> lookup_in objs db a = db_object db a"
  by (simp add: lookup_in_def)

definition wf_objs :: "StateDB \<Rightarrow> bool" where
  "wf_objs s \<longleftrightarrow> (\<forall>a ob. stateObjects s a = Some ob \<longrightarrow> oaddress ob = a) \<and>
     stateObjectsDirty s \<subseteq> dom (stateObjects s)"

definition same_journal :: "StateDB \<Rightarrow> StateDB \<Rightarrow> bool" where
  "same_journal s t \<longleftrightarrow> jentries t = jentries s \<and> validRevisions t = validRevisions s \<and>
     nextRevisionId t = nextRevisionId s"

definition quiet :: "StateDB \<Rightarrow> StateDB \<Rightarrow> bool" where
  "quiet s t \<longleftrightarrow> view t = view s \<and> same_journal s t \<and> wf_objs t"

lemma same_journal_refl [simp]: "same_journal s s" by (simp add: same_journal_def)

lemma same_journal_trans: "same_journal s t \<Longrightarrow> same_journal t u \<Longrightarrow> same_journal s u"
  by (simp add: same_journal_def)

lemma quiet_refl [simp]: "wf_objs s \<Longrightarrow> quiet s s" by (simp add: quiet_def)

lemma quiet_trans: "quiet s t \<Longrightarrow> quiet t u \<Longrightarrow> quiet s u"
  by (auto simp: quiet_def intro: same_journal_trans)

lemma lookup_address: "wf_objs s \<Longrightarrow> lookup s a = Some ob \<Longrightarrow> oaddress ob = a"
  by (auto simp: wf_objs_def lookup_in_def db_object_def newObject_def split: option.splits sum.splits)

lemma setError_sel [simp]:
  "sdb (setError e s) = sdb s" "stateObjects (setError e s) = stateObjects s"
  "stateObjectsDestruct (setError e s) = stateObjectsDestruct s"
  by (simp_all add: setError_def)

lemma setErrorOpt_sel [simp]:
  "sdb (setErrorOpt e s) = sdb s" "stateObjects (setErrorOpt e s) = stateObjects s"
  "stateObjectsDestruct (setErrorOpt e s) = stateObjectsDestruct s"
  by (simp_all add: setErrorOpt_def split: option.split)

lemma quiet_setError [simp]: "wf_objs s \<Longrightarrow> quiet s (setError e s)"
  by (simp add: quiet_def setError_def view_def same_journal_def wf_objs_def)

lemma quiet_setErrorOpt [simp]: "wf_objs s \<Longrightarrow> quiet s (setErrorOpt e s)"
  by (simp add: setErrorOpt_def split: option.split)

lemma wf_setStateObject [simp]: "wf_objs s \<Longrightarrow> wf_objs (setStateObject ob s)"
  by (auto simp: wf_objs_def setStateObject_def)

lemma same_journal_setStateObject [simp]:
  "same_journal s (setStateObject ob t) \<longleftrightarrow> same_journal s t"
  by (simp add: same_journal_def setStateObject_def)

lemma setStateObject_sel [simp]:
  "sdb (setStateObject ob s) = sdb s"
  "stateObjects (setStateObject ob s) = (stateObjects s)(oaddress ob \<mapsto> ob)"
  "stateObjectsDestruct (setStateObject ob s) = stateObjectsDestruct s"
  "jentries (setStateObject ob s) = jentries s"
  "validRevisions (setStateObject ob s) = validRevisions s"
  "nextRevisionId (setStateObject ob s) = nextRevisionId s"
  by (simp_all add: setStateObject_def)

lemma view_setStateObject:
  "view (setStateObject ob s) = (view s)
     \<lparr> vObjs := (vObjs (view s))(oaddress ob \<mapsto> obj_view (sdb s) (stateObjectsDestruct s) ob) \<rparr>"
  by (simp add: view_def setStateObject_def)

lemma quiet_setStateObject:
  assumes "wf_objs s" "lookup s (oaddress ob) = Some ob0"
    and "obj_view (sdb s) (stateObjectsDestruct s) ob = obj_view (sdb s) (stateObjectsDestruct s) ob0"
  shows "quiet s (setStateObject ob s)"
  using assms by (auto simp: quiet_def view_setStateObject)
    (simp add: view_def objs_view_def fun_upd_idem)

section \<open>Reads leave the view unchanged\<close>

lemma getDeletedStateObject_spec:
  assumes "wf_objs s" "getDeletedStateObject a s = (so, t)"
  shows "so = lookup s a \<and> quiet s t \<and> (\<forall>ob. so = Some ob \<longrightarrow> stateObjects t a = Some ob) \<and>
    (so = None \<longrightarrow> stateObjects t a = None \<and> db_object (sdb t) a = None)"
proof (cases "stateObjects s a")
  case (Some ob)
  then have "so = Some ob" "t = s" using assms by (simp_all add: getDeletedStateObject_def)
  then show ?thesis using Some assms by simp
next
  case None
  show ?thesis
  proof (cases "db_object (sdb s) a")
    case none: None
    with None assms show ?thesis
      by (auto simp: getDeletedStateObject_def lookup_in_def db_object_def split: sum.splits option.splits)
  next
    case (Some ob)
    then have ob: "oaddress ob = a" by (auto simp: db_object_def newObject_def split: sum.splits option.splits)
    have t: "so = Some ob" "t = setStateObject ob s"
      using Some None assms by (auto simp: getDeletedStateObject_def db_object_def Let_def split: sum.splits option.splits)
    have "quiet s t"
      unfolding t using assms Some None ob by (intro quiet_setStateObject [of s ob ob]) (auto simp: lookup_in_def)
    then show ?thesis using t ob Some None by (simp add: lookup_in_def)
  qed
qed

definition live :: "StateDB \<Rightarrow> address \<Rightarrow> stateObject option" where
  "live s a = (case lookup s a of Some ob \<Rightarrow> if deleted ob then None else Some ob | None \<Rightarrow> None)"

lemma getStateObject_spec:
  assumes "wf_objs s" "getStateObject a s = (so, t)"
  shows "so = live s a \<and> quiet s t \<and> (\<forall>ob. so = Some ob \<longrightarrow> stateObjects t a = Some ob \<and> oaddress ob = a)"
  using assms getDeletedStateObject_spec [OF assms(1)] lookup_address [OF assms(1), of a]
  by (fastforce simp: getStateObject_def live_def split: prod.splits option.splits if_splits)

lemma view_sel:
  "vDb (view s) = sdb s" "vDestruct (view s) = stateObjectsDestruct s"
  "vObjs (view s) a = map_option (obj_view (sdb s) (stateObjectsDestruct s)) (lookup s a)"
  by (simp_all add: view_def objs_view_def)

definition vlive :: "state_view \<Rightarrow> address \<Rightarrow> account_view option" where
  "vlive v a = (case vObjs v a of Some ob \<Rightarrow> if vDeleted ob then None else Some ob | None \<Rightarrow> None)"

lemma vlive_view: "vlive (view s) a = map_option (obj_view (sdb s) (stateObjectsDestruct s)) (live s a)"
  by (auto simp: vlive_def live_def view_sel obj_view_def split: option.splits)


lemma obj_GetCommittedState_spec:
  assumes "wf_objs s" "stateObjects s (oaddress ob) = Some ob" "obj_GetCommittedState ob k s = (v, t)"
  shows "v = committed_value (sdb s) (stateObjectsDestruct s) ob k \<and> quiet s t \<and>
    (\<exists>ob'. stateObjects t (oaddress ob) = Some ob' \<and> dirtyStorage ob' = dirtyStorage ob \<and>
       oaddress ob' = oaddress ob \<and>
       obj_view (sdb s) (stateObjectsDestruct s) ob' = obj_view (sdb s) (stateObjectsDestruct s) ob)"
proof (cases "pendingStorage ob k = None \<and> originStorage ob k = None \<and> oaddress ob \<notin> stateObjectsDestruct s")
  case False
  then have "t = s" "v = committed_value (sdb s) (stateObjectsDestruct s) ob k"
    using assms(3) by (auto simp: obj_GetCommittedState_def committed_value_def db_slot_def split: option.splits)
  then show ?thesis using assms by simp
next
  case True
  show ?thesis
  proof (cases "dbStorage (sdb s) (oaddress ob) (oRoot ob) k")
    case (ReadErr e)
    with True assms(3) have "t = setError e s" "v = committed_value (sdb s) (stateObjectsDestruct s) ob k"
      by (simp_all add: obj_GetCommittedState_def committed_value_def db_slot_def)
    then show ?thesis using assms by simp
  next
    case (ReadVal w e)
    let ?ob = "ob \<lparr> originStorage := (originStorage ob)(k \<mapsto> w) \<rparr>"
    have t: "v = w" "t = setStateObject ?ob (setErrorOpt e s)"
      using True ReadVal assms(3) by (auto simp: obj_GetCommittedState_def Let_def)
    have c: "committed_value (sdb s) (stateObjectsDestruct s) ?ob =
        committed_value (sdb s) (stateObjectsDestruct s) ob"
      using True ReadVal by (auto simp: committed_value_def db_slot_def overlay_def fun_eq_iff split: option.splits)
    then have o: "obj_view (sdb s) (stateObjectsDestruct s) ?ob = obj_view (sdb s) (stateObjectsDestruct s) ob"
      by (simp add: obj_view_def code_value_def)
    have q: "quiet s (setErrorOpt e s)" using assms(1) by simp
    moreover have "quiet (setErrorOpt e s) t"
      unfolding t using q assms(2) o
      by (intro quiet_setStateObject [where ?ob0.0 = ob]) (auto simp: quiet_def)
    ultimately have "quiet s t" by (rule quiet_trans)
    moreover have "v = committed_value (sdb s) (stateObjectsDestruct s) ob k"
      using True ReadVal t by (simp add: committed_value_def db_slot_def)
    ultimately show ?thesis using t o by simp
  qed
qed

lemma obj_GetState_spec:
  assumes "wf_objs s" "stateObjects s (oaddress ob) = Some ob" "obj_GetState ob k s = (v, t)"
  shows "v = vState (obj_view (sdb s) (stateObjectsDestruct s) ob) k \<and> quiet s t \<and>
    (\<exists>ob'. stateObjects t (oaddress ob) = Some ob' \<and> dirtyStorage ob' = dirtyStorage ob \<and>
       oaddress ob' = oaddress ob \<and>
       obj_view (sdb s) (stateObjectsDestruct s) ob' = obj_view (sdb s) (stateObjectsDestruct s) ob)"
proof (cases "dirtyStorage ob k")
  case None
  then have "obj_GetCommittedState ob k s = (v, t)" using assms(3) by (simp add: obj_GetState_def)
  from obj_GetCommittedState_spec [OF assms(1,2) this] None show ?thesis by (simp add: obj_view_def)
next
  case (Some w)
  then show ?thesis using assms by (simp add: obj_GetState_def obj_view_def)
qed

lemma obj_Code_spec:
  assumes "wf_objs s" "stateObjects s (oaddress ob) = Some ob" "obj_Code ob s = (c, t)"
  shows "c = code_value (sdb s) ob \<and> quiet s t \<and>
    (\<exists>ob'. stateObjects t (oaddress ob) = Some ob' \<and> oaddress ob' = oaddress ob \<and> 
       oCodeHash ob' = oCodeHash ob \<and>
       obj_view (sdb s) (stateObjectsDestruct s) ob' = obj_view (sdb s) (stateObjectsDestruct s) ob)"
proof (cases "ocode ob = None \<and> oCodeHash ob \<noteq> EmptyCodeHash")
  case False
  then have "t = s" "c = code_value (sdb s) ob"
    using assms(3) by (auto simp: obj_Code_def code_value_def code_view_def split: option.splits)
  then show ?thesis using assms by simp
next
  case True
  obtain code e where c: "dbCode (sdb s) (oaddress ob) (oCodeHash ob) = (code, e)" by fastforce
  let ?ob = "ob \<lparr> ocode := code \<rparr>"
  have t: "c = code" "t = setStateObject ?ob (setErrorOpt e s)"
    using True c assms(3) by (auto simp: obj_Code_def Let_def)
  have o: "obj_view (sdb s) (stateObjectsDestruct s) ?ob = obj_view (sdb s) (stateObjectsDestruct s) ob"
    using True c by (auto simp: obj_view_def code_value_def code_view_def committed_value_def split: option.splits)
  have q: "quiet s (setErrorOpt e s)" using assms(1) by simp
  moreover have "quiet (setErrorOpt e s) t"
    unfolding t using q assms(2) o
    by (intro quiet_setStateObject [where ?ob0.0 = ob]) (auto simp: quiet_def)
  ultimately have "quiet s t" by (rule quiet_trans)
  then show ?thesis using t o True c by (simp add: code_value_def code_view_def)
qed


section \<open>Reverting on views\<close>

definition vupd :: "address \<Rightarrow> (account_view \<Rightarrow> account_view) \<Rightarrow> state_view \<Rightarrow> state_view go" where
  "vupd a f v = (case vlive v a of
     None \<Rightarrow> Panic ''nil pointer dereference''
   | Some ob \<Rightarrow> Ret (v \<lparr> vObjs := (vObjs v)(a \<mapsto> f ob) \<rparr>))"

fun arevert :: "journalEntry \<Rightarrow> state_view \<Rightarrow> state_view go" where
  "arevert (createObjectChange a) v =
     Ret (v \<lparr> vObjs := (vObjs v)(a := map_option (obj_view (vDb v) (vDestruct v)) (db_object (vDb v) a)),
              vDirty := vDirty v - {a} \<rparr>)"
| "arevert (resetObjectChange prev pd) v =
     (let D = (if pd then vDestruct v else vDestruct v - {oaddress prev}) in
      Ret (v \<lparr> vObjs := (vObjs v)(oaddress prev \<mapsto> obj_view (vDb v) D prev), vDestruct := D \<rparr>))"
| "arevert (suicideChange a p b) v =
     (case vlive v a of None \<Rightarrow> Ret v
      | Some ob \<Rightarrow> Ret (v \<lparr> vObjs := (vObjs v)(a \<mapsto> ob \<lparr> vSuicided := p, vBalance := b \<rparr>) \<rparr>))"
| "arevert (balanceChange a p) v = vupd a (\<lambda>ob. ob \<lparr> vBalance := p \<rparr>) v"
| "arevert (nonceChange a p) v = vupd a (\<lambda>ob. ob \<lparr> vNonce := p \<rparr>) v"
| "arevert (storageChange a k p) v = vupd a (\<lambda>ob. ob \<lparr> vState := (vState ob)(k := p) \<rparr>) v"
| "arevert (codeChange a c h) v =
     vupd a (\<lambda>ob. ob \<lparr> vCodeHash := h, vCode := code_view (vDb v) a h c \<rparr>) v"
| "arevert (refundChange p) v = Ret (v \<lparr> vRefund := p \<rparr>)"
| "arevert (addLogChange h) v =
     (if vLogs v h = [] then Panic ''slice bounds out of range''
      else Ret (v \<lparr> vLogs := (vLogs v)(h := butlast (vLogs v h)), vLogSize := vLogSize v - 1 \<rparr>))"
| "arevert (addPreimageChange h) v = Ret (v \<lparr> vPreimages := (vPreimages v)(h := None) \<rparr>)"
| "arevert (touchChange a) v = Ret v"
| "arevert (accessListAddAccountChange a) v = Ret (v \<lparr> vAccess := DeleteAddress (vAccess v) a \<rparr>)"
| "arevert (accessListAddSlotChange a k) v =
     go_bind (DeleteSlot (vAccess v) a k) (\<lambda>al. Ret (v \<lparr> vAccess := al \<rparr>))"
| "arevert (transientStorageChange a k p) v =
     Ret (v \<lparr> vTransient := (vTransient v)(a := (vTransient v a)(k := p)) \<rparr>)"

definition vundirty :: "journalEntry \<Rightarrow> state_view \<Rightarrow> state_view" where
  "vundirty e v = (case dirtied e of None \<Rightarrow> v
     | Some a \<Rightarrow> v \<lparr> vDirties := (vDirties v)(a := vDirties v a - 1) \<rparr>)"

fun arevert_loop :: "journalEntry list \<Rightarrow> state_view \<Rightarrow> state_view go" where
  "arevert_loop [] v = Ret v"
| "arevert_loop (e # es) v = go_bind (arevert e v) (\<lambda>v. arevert_loop es (vundirty e v))"

lemma arevert_loop_append:
  "arevert_loop (xs @ ys) v = go_bind (arevert_loop xs v) (arevert_loop ys)"
  by (induction xs arbitrary: v) (simp_all add: go_bind_assoc)

text \<open>A concrete result refines an abstract one.\<close>

definition refines :: "StateDB \<Rightarrow> StateDB go \<Rightarrow> state_view go \<Rightarrow> bool" where
  "refines s m a \<longleftrightarrow> (case m of
     Ret t \<Rightarrow> a = Ret (view t) \<and> wf_objs t \<and> same_journal s t
   | Panic msg \<Rightarrow> a = Panic msg | NoFuel \<Rightarrow> False)"

lemma with_object_refines:
  assumes "wf_objs s" "\<And>ob. oaddress ob = a \<Longrightarrow> oaddress (f ob) = a \<and>
      obj_view (sdb s) (stateObjectsDestruct s) (f ob) = g (obj_view (sdb s) (stateObjectsDestruct s) ob)"
  shows "refines s (with_object a f s) (vupd a g (view s))"
proof -
  obtain so t where t: "getStateObject a s = (so, t)" by fastforce
  note sp = getStateObject_spec [OF assms(1) t]
  then have d: "sdb t = sdb s" "stateObjectsDestruct t = stateObjectsDestruct s"
    unfolding quiet_def by (metis view_sel(1), metis view_sel(2))
  show ?thesis
  proof (cases so)
    case None
    then show ?thesis using sp t by (simp add: refines_def with_object_def vupd_def vlive_view)
  next
    case (Some ob)
    then show ?thesis
      using sp t assms(2) [of ob] d
      by (auto simp: refines_def with_object_def vupd_def vlive_view quiet_def view_setStateObject)
  qed
qed

lemma transient_Get_Set:
  "transient_Get (transient_Set t a k x) = (transient_Get t)(a := (transient_Get t a)(k := x))"
  by (auto simp: transient_Get_def transient_Set_def Let_def fun_eq_iff map_get_def split: option.splits)

lemma objs_view_destruct:
  assumes "\<forall>a ob. objs a = Some ob \<longrightarrow> oaddress ob = a"
  shows "objs_view db (D - {a}) (objs(a \<mapsto> ob)) =
    (objs_view db D objs)(a \<mapsto> obj_view db (D - {a}) ob)"
proof
  fix b
  have "obj_view db (D - {a}) ob' = obj_view db D ob'" if "oaddress ob' \<noteq> a" for ob'
  proof -
    have "db_slot db (D - {a}) (oaddress ob') = db_slot db D (oaddress ob')"
      using that by (simp add: db_slot_def fun_eq_iff)
    then show ?thesis by (simp add: obj_view_def committed_value_def)
  qed
  moreover have "oaddress ob' = b" if "lookup_in objs db b = Some ob'" for ob'
    using that assms by (auto simp: lookup_in_def db_object_def newObject_def split: option.splits sum.splits)
  ultimately show "objs_view db (D - {a}) (objs(a \<mapsto> ob)) b =
      ((objs_view db D objs)(a \<mapsto> obj_view db (D - {a}) ob)) b"
    by (cases "b = a"; cases "lookup_in objs db b") (auto simp: objs_view_def lookup_in_def)
qed


lemma obj_view_set:
  "obj_view db D (obj_setBalance b ob) = (obj_view db D ob) \<lparr> vBalance := b \<rparr>"
  "obj_view db D (obj_setNonce n ob) = (obj_view db D ob) \<lparr> vNonce := n \<rparr>"
  "obj_view db D (obj_setState k x ob) = (obj_view db D ob) \<lparr> vState := (vState (obj_view db D ob))(k := x) \<rparr>"
  "obj_view db D (obj_setCode h c ob) =
     (obj_view db D ob) \<lparr> vCodeHash := h, vCode := code_view db (oaddress ob) h c \<rparr>"
  "obj_view db D (ob \<lparr> suicided := p \<rparr>) = (obj_view db D ob) \<lparr> vSuicided := p \<rparr>"
  by (simp_all add: obj_view_def obj_setBalance_def obj_setNonce_def obj_setState_def obj_setCode_def
      code_value_def committed_value_def)

lemma obj_set_address [simp]:
  "oaddress (obj_setBalance b ob) = oaddress ob" "oaddress (obj_setNonce n ob) = oaddress ob"
  "oaddress (obj_setState k x ob) = oaddress ob" "oaddress (obj_setCode h c ob) = oaddress ob"
  by (simp_all add: obj_setBalance_def obj_setNonce_def obj_setState_def obj_setCode_def)

lemma suicide_refines:
  assumes "wf_objs s"
  shows "refines s (revert_entry (suicideChange a p b) s) (arevert (suicideChange a p b) (view s))"
proof -
  obtain so t where t: "getStateObject a s = (so, t)" by fastforce
  note sp = getStateObject_spec [OF assms t]
  then have d: "sdb t = sdb s" "stateObjectsDestruct t = stateObjectsDestruct s"
    unfolding quiet_def by (metis view_sel(1), metis view_sel(2))
  show ?thesis
  proof (cases so)
    case None
    then show ?thesis using sp t by (auto simp: refines_def vlive_view quiet_def)
  next
    case (Some ob)
    then show ?thesis
      using sp t d by (auto simp: refines_def vlive_view quiet_def view_setStateObject obj_view_set)
  qed
qed

lemma create_refines:
  assumes "wf_objs s"
  shows "refines s (revert_entry (createObjectChange a) s) (arevert (createObjectChange a) (view s))"
  using assms by (auto simp: refines_def view_def objs_view_del wf_objs_def same_journal_def)

lemma reset_refines:
  assumes "wf_objs s"
  shows "refines s (revert_entry (resetObjectChange prev pd) s) (arevert (resetObjectChange prev pd) (view s))"
  using assms objs_view_destruct [of "stateObjects s" "sdb s" "stateObjectsDestruct s" "oaddress prev" prev]
  by (auto simp: refines_def view_def wf_objs_def same_journal_def setStateObject_def Let_def)

lemma log_refines:
  assumes "wf_objs s"
  shows "refines s (revert_entry (addLogChange h) s) (arevert (addLogChange h) (view s))"
proof -
  have "butlast (map_get [] (logs s) h) = []" if "length (map_get [] (logs s) h) = 1"
    using that by (cases "map_get [] (logs s) h") auto
  moreover have "map_get [] (logs s) h \<noteq> []" if "length (map_get [] (logs s) h) = 1" using that by auto
  ultimately show ?thesis
    using assms by (auto simp: refines_def view_def wf_objs_def same_journal_def Let_def fun_eq_iff)
qed

lemma slot_refines:
  assumes "wf_objs s"
  shows "refines s (revert_entry (accessListAddSlotChange a k) s) (arevert (accessListAddSlotChange a k) (view s))"
proof -
  have "DeleteSlot al a k \<noteq> NoFuel" for al
    by (auto simp: DeleteSlot_def slot_at_def Let_def go_bind_NoFuel_iff split: option.splits if_splits)
  then show ?thesis
    using assms by (cases "DeleteSlot (sAccessList s) a k")
      (auto simp: refines_def view_def wf_objs_def same_journal_def)
qed

lemma revert_entry_refines:
  assumes "wf_objs s"
  shows "refines s (revert_entry e s) (arevert e (view s))"
proof (cases e)
  case (balanceChange a p)
  then show ?thesis using assms by (auto intro!: with_object_refines simp: obj_view_set)
next
  case (nonceChange a p)
  then show ?thesis using assms by (auto intro!: with_object_refines simp: obj_view_set)
next
  case (storageChange a k p)
  then show ?thesis using assms by (auto intro!: with_object_refines simp: obj_view_set)
next
  case (codeChange a c h)
  then show ?thesis using assms by (auto intro!: with_object_refines simp: obj_view_set view_sel)
next
  case (createObjectChange a)
  then show ?thesis using create_refines [OF assms] by simp
next
  case (resetObjectChange prev pd)
  then show ?thesis using reset_refines [OF assms] by simp
next
  case (suicideChange a p b)
  then show ?thesis using suicide_refines [OF assms] by simp
next
  case (addLogChange h)
  then show ?thesis using log_refines [OF assms] by simp
next
  case (accessListAddSlotChange a k)
  then show ?thesis using slot_refines [OF assms] by simp
next
  case (refundChange p)
  then show ?thesis using assms by (simp add: refines_def view_def wf_objs_def same_journal_def)
next
  case (addPreimageChange h)
  then show ?thesis using assms by (simp add: refines_def view_def wf_objs_def same_journal_def)
next
  case (touchChange a)
  then show ?thesis using assms by (simp add: refines_def view_def wf_objs_def same_journal_def)
next
  case (accessListAddAccountChange a)
  then show ?thesis using assms by (simp add: refines_def view_def wf_objs_def same_journal_def)
next
  case (transientStorageChange a k p)
  then show ?thesis using assms
    by (simp add: refines_def view_def wf_objs_def same_journal_def setTransientState_def transient_Get_Set)
qed

lemma view_undirty: "view (undirty e s) = vundirty e (view s)"
  by (auto simp: undirty_def vundirty_def view_def unripemd_def fun_eq_iff split: option.splits)

lemma undirty_frame: "wf_objs s \<Longrightarrow> wf_objs (undirty e s) \<and> same_journal s (undirty e s)"
  by (auto simp: undirty_def wf_objs_def same_journal_def split: option.splits)

lemma revert_loop_refines:
  assumes "wf_objs s"
  shows "refines s (revert_loop es s) (arevert_loop es (view s))"
  using assms
proof (induction es arbitrary: s)
  case Nil
  then show ?case by (simp add: refines_def)
next
  case (Cons e es)
  note r = revert_entry_refines [OF Cons.prems, of e]
  show ?case
  proof (cases "revert_entry e s")
    case (Ret t)
    with r have t: "arevert e (view s) = Ret (view t)" "wf_objs t" "same_journal s t"
      by (simp_all add: refines_def)
    note u = undirty_frame [OF t(2), of e]
    have "refines (undirty e t) (revert_loop es (undirty e t)) (arevert_loop es (view (undirty e t)))"
      using u by (intro Cons.IH) simp
    then show ?thesis
      using Ret t u by (auto simp: refines_def view_undirty intro: same_journal_trans split: go.splits)
  qed (use r in \<open>auto simp: refines_def\<close>)
qed

end
