(* ===== verification/State_Snapshot.thy ===== *)
theory State_Snapshot
  imports State_View
begin

text \<open>
  Snapshots of the state database. \<open>extends s t\<close> says that \<open>t\<close> was reached from \<open>s\<close> by journaled
  steps: undoing the additional journal entries leads back to the view of \<open>s\<close>. It is reflexive and
  transitive, every operation of \<open>StateDB\<close> satisfies it (collection \<open>state_steps\<close>), and it is what
  \<open>RevertToSnapshot\<close> needs to succeed and restore the view. Each operation also comes with its
  effect on the view (\<open>..._spec\<close>). The contract with the users of snapshots is the locale
  \<open>snapshot_store\<close>, interpreted on \<open>StateDB\<close>.
\<close>

section \<open>Journaled steps\<close>

definition vtouch :: "address \<Rightarrow> state_view \<Rightarrow> state_view" where
  "vtouch a v = (if a = ripemd then v else v \<lparr> vDirties := (vDirties v)(a := vDirties v a + 1) \<rparr>)"

definition vdirty :: "journalEntry \<Rightarrow> state_view \<Rightarrow> state_view" where
  "vdirty e v = (case dirtied e of None \<Rightarrow> v | Some a \<Rightarrow> vtouch a v)"

lemma view_journal_append: "view (journal_append e s) = vdirty e (view s)"
  by (auto simp: journal_append_def vdirty_def vtouch_def view_def unripemd_def Let_def fun_eq_iff split: option.splits)

lemma journal_append_sel [simp]:
  "jentries (journal_append e s) = jentries s @ [e]"
  "validRevisions (journal_append e s) = validRevisions s"
  "nextRevisionId (journal_append e s) = nextRevisionId s"
  "stateObjects (journal_append e s) = stateObjects s"
  "sdb (journal_append e s) = sdb s"
  "stateObjectsDestruct (journal_append e s) = stateObjectsDestruct s"
  "stateObjectsDirty (journal_append e s) = stateObjectsDirty s"
  by (simp_all add: journal_append_def Let_def split: option.split)

lemma wf_journal_append [simp]: "wf_objs (journal_append e s) \<longleftrightarrow> wf_objs s"
  by (simp add: wf_objs_def)

lemma vdirty_vObjs: "(vdirty e v) \<lparr> vObjs := x \<rparr> = vdirty e (v \<lparr> vObjs := x \<rparr>)"
  by (simp add: vdirty_def vtouch_def split: option.split)

lemma vdirty_sel [simp]:
  "vObjs (vdirty e v) = vObjs v" "vDb (vdirty e v) = vDb v" "vDestruct (vdirty e v) = vDestruct v"
  "vDirty (vdirty e v) = vDirty v" "vAccess (vdirty e v) = vAccess v" "vRefund (vdirty e v) = vRefund v"
  "vLogs (vdirty e v) = vLogs v" "vLogSize (vdirty e v) = vLogSize v"
  "vPreimages (vdirty e v) = vPreimages v" "vTransient (vdirty e v) = vTransient v"
  by (simp_all add: vdirty_def vtouch_def split: option.split)

lemma arevert_vdirty:
  "arevert e (vdirty e' v) = go_bind (arevert e v) (\<lambda>v. Ret (vdirty e' v))"
proof -
  have upd: "(vdirty e' w) \<lparr> vDirty := y \<rparr> = vdirty e' (w \<lparr> vDirty := y \<rparr>)"
    "(vdirty e' w) \<lparr> vDestruct := z \<rparr> = vdirty e' (w \<lparr> vDestruct := z \<rparr>)"
    "(vdirty e' w) \<lparr> vRefund := r \<rparr> = vdirty e' (w \<lparr> vRefund := r \<rparr>)"
    "(vdirty e' w) \<lparr> vLogs := l \<rparr> = vdirty e' (w \<lparr> vLogs := l \<rparr>)"
    "(vdirty e' w) \<lparr> vLogSize := n \<rparr> = vdirty e' (w \<lparr> vLogSize := n \<rparr>)"
    "(vdirty e' w) \<lparr> vPreimages := p \<rparr> = vdirty e' (w \<lparr> vPreimages := p \<rparr>)"
    "(vdirty e' w) \<lparr> vAccess := q \<rparr> = vdirty e' (w \<lparr> vAccess := q \<rparr>)"
    "(vdirty e' w) \<lparr> vTransient := u \<rparr> = vdirty e' (w \<lparr> vTransient := u \<rparr>)" for w y z r l n p q u
    by (simp_all add: vdirty_def vtouch_def split: option.split)
  have live: "vlive (vdirty e' v) a = vlive v a" for a by (simp add: vlive_def)
  show ?thesis
    by (cases e) (simp_all add: upd live vupd_def vdirty_vObjs go_bind_assoc Let_def split: option.split)
qed

lemma vundirty_vdirty: "vDirties v ripemd = 0 \<Longrightarrow> vundirty e (vdirty e v) = v"
  by (auto simp: vundirty_def vdirty_def vtouch_def fun_upd_idem split: option.split)

lemma view_ripemd [simp]: "vDirties (view s) ripemd = 0"
  by (simp add: view_def unripemd_def)

lemma vundirty_vdirty_view [simp]: "vundirty e (vdirty e (view s)) = view s"
  by (simp add: vundirty_vdirty)

text \<open>The revisions of a database: ids strictly increase and stay below the next id.\<close>

definition wf_revs :: "StateDB \<Rightarrow> bool" where
  "wf_revs s \<longleftrightarrow> sorted_wrt (<) (map fst (validRevisions s)) \<and>
     (\<forall>(i, j) \<in> set (validRevisions s). i < nextRevisionId s \<and> j \<le> length (jentries s))"

definition wf_state :: "StateDB \<Rightarrow> bool" where
  "wf_state s \<longleftrightarrow> wf_objs s \<and> wf_revs s \<and> al_wf (sAccessList s)"

text \<open>
  \<open>t\<close> extends \<open>s\<close>: its journal has additional entries, and undoing them leads back to the view of
  \<open>s\<close>; snapshots taken in between are newer than those of \<open>s\<close>.
\<close>

definition extends :: "StateDB \<Rightarrow> StateDB \<Rightarrow> bool" where
  "extends s t \<longleftrightarrow> wf_state t \<and>
     (\<exists>es. jentries t = jentries s @ es \<and> arevert_loop (rev es) (view t) = Ret (view s)) \<and>
     (\<exists>rs. validRevisions t = validRevisions s @ rs \<and>
        (\<forall>(i, j) \<in> set rs. nextRevisionId s \<le> i \<and> length (jentries s) \<le> j)) \<and>
     nextRevisionId s \<le> nextRevisionId t"

lemma extends_refl: "wf_state s \<Longrightarrow> extends s s"
  by (auto simp: extends_def)

lemma extends_trans:
  assumes "extends s t" "extends t u"
  shows "extends s u"
proof -
  obtain es where es: "jentries t = jentries s @ es" "arevert_loop (rev es) (view t) = Ret (view s)"
    using assms(1) by (auto simp: extends_def)
  obtain fs where fs: "jentries u = jentries t @ fs" "arevert_loop (rev fs) (view u) = Ret (view t)"
    using assms(2) by (auto simp: extends_def)
  have "jentries u = jentries s @ (es @ fs)" "arevert_loop (rev (es @ fs)) (view u) = Ret (view s)"
    using es fs by (simp_all add: arevert_loop_append)
  moreover obtain rs where rs: "validRevisions t = validRevisions s @ rs"
      "\<forall>(i, j) \<in> set rs. nextRevisionId s \<le> i \<and> length (jentries s) \<le> j"
    using assms(1) by (auto simp: extends_def)
  moreover obtain qs where qs: "validRevisions u = validRevisions t @ qs"
      "\<forall>(i, j) \<in> set qs. nextRevisionId t \<le> i \<and> length (jentries t) \<le> j"
    using assms(2) by (auto simp: extends_def)
  moreover have "nextRevisionId s \<le> nextRevisionId t" "nextRevisionId t \<le> nextRevisionId u"
    using assms by (auto simp: extends_def)
  moreover have "wf_state u" using assms(2) by (simp add: extends_def)
  ultimately show ?thesis
    unfolding extends_def by (intro conjI exI [of _ "es @ fs"] exI [of _ "rs @ qs"]) (fastforce simp: es)+
qed

lemma vAccess_view [simp]: "vAccess (view s) = sAccessList s"
  by (simp add: view_def)

lemma extends_quiet:
  assumes "wf_state s" "quiet s t"
  shows "extends s t"
proof -
  have "sAccessList t = sAccessList s" using assms(2) by (metis quiet_def vAccess_view)
  then show ?thesis
    using assms by (auto simp: extends_def quiet_def same_journal_def wf_state_def wf_revs_def)
qed

lemma extends_step:
  assumes "wf_state s" "jentries t = jentries s @ [e]"
    and "view t = vdirty e w" "arevert e w = Ret (view s)"
    and "validRevisions t = validRevisions s" "nextRevisionId t = nextRevisionId s"
    and "wf_objs t" "al_wf (sAccessList t)"
  shows "extends s t"
proof -
  have "arevert_loop (rev [e]) (view t) = Ret (view s)"
    by (simp add: assms(3,4) arevert_vdirty)
  then show ?thesis using assms by (fastforce simp: extends_def wf_state_def wf_revs_def)
qed

lemma extends_wf: "extends s t \<Longrightarrow> wf_state t"
  by (simp add: extends_def)

section \<open>Snapshot and revert\<close>

lemma sort_search_correct:
  assumes "\<And>a b. a \<le> b \<Longrightarrow> b < j \<Longrightarrow> f a \<Longrightarrow> f b" "i \<le> j"
    and "\<And>a. a < i \<Longrightarrow> \<not> f a"
  shows "sort_search f i j \<le> j \<and> (\<forall>a < sort_search f i j. \<not> f a) \<and>
    (sort_search f i j < j \<longrightarrow> f (sort_search f i j))"
  using assms
proof (induction f i j rule: sort_search.induct)
  case (1 f i j)
  show ?case
  proof (cases "i < j")
    case True
    define h where "h = (i + j) div 2"
    have h: "i \<le> h" "h < j" using True by (auto simp: h_def)
    show ?thesis
    proof (cases "f h")
      case fh: True
      have "sort_search f i h \<le> h \<and> (\<forall>a < sort_search f i h. \<not> f a) \<and>
          (sort_search f i h < h \<longrightarrow> f (sort_search f i h))"
      proof (rule 1(1) [OF True h_def fh])
        show "\<And>a b. a \<le> b \<Longrightarrow> b < h \<Longrightarrow> f a \<Longrightarrow> f b" using 1(3) h by (meson less_trans)
        show "i \<le> h" by (rule h(1))
        show "\<And>a. a < i \<Longrightarrow> \<not> f a" by (rule 1(5))
      qed
      moreover have "sort_search f i j = sort_search f i h"
        using True fh by (subst sort_search.simps) (simp add: h_def Let_def)
      ultimately show ?thesis using h fh by (cases "sort_search f i h = h") auto
    next
      case fh: False
      have "\<not> f a" if "a < h + 1" for a
        using 1(3) [of a h] that fh h by auto
      then have "sort_search f (h + 1) j \<le> j \<and> (\<forall>a < sort_search f (h + 1) j. \<not> f a) \<and>
          (sort_search f (h + 1) j < j \<longrightarrow> f (sort_search f (h + 1) j))"
        using 1(3) h(2) by (intro 1(2) [OF True h_def fh]) auto
      moreover have "sort_search f i j = sort_search f (h + 1) j"
        using True fh by (subst sort_search.simps) (simp add: h_def Let_def)
      ultimately show ?thesis by simp
    qed
  next
    case False
    then have "sort_search f i j = i" by (subst sort_search.simps) simp
    then show ?thesis using False 1(4,5) by auto
  qed
qed

lemma search_revision:
  fixes vr :: "(int \<times> nat) list"
  assumes "sorted_wrt (<) (map fst vr)" "k < length vr"
  shows "sort_search (\<lambda>i. fst (vr ! k) \<le> fst (vr ! i)) 0 (length vr) = k"
proof -
  let ?f = "\<lambda>i. fst (vr ! k) \<le> fst (vr ! i)"
  let ?i = "sort_search ?f 0 (length vr)"
  have lt: "fst (vr ! a) < fst (vr ! b)" if "a < b" "b < length vr" for a b
    using assms(1) that by (simp add: sorted_wrt_iff_nth_less)
  have i: "?i \<le> length vr \<and> (\<forall>a < ?i. \<not> ?f a) \<and> (?i < length vr \<longrightarrow> ?f ?i)"
  proof (rule sort_search_correct)
    fix a b assume "a \<le> b" "b < length vr" "?f a"
    then show "?f b" using lt [of a b] by (cases "a = b") auto
  qed auto
  have "\<not> k < ?i" using i by auto
  moreover have "\<not> ?i < k" using i lt [of ?i k] assms(2) by fastforce
  ultimately show ?thesis by simp
qed

lemma view_journal_frame [simp]:
  "view (s \<lparr> jentries := es, validRevisions := rs \<rparr>) = view s"
  by (simp add: view_def)

lemma RevertToSnapshot_restores:
  assumes "wf_state s" "Snapshot s = (rid, s1)" "extends s1 t"
  shows "\<exists>u. RevertToSnapshot rid t = Ret u \<and> view u = view s \<and> jentries u = jentries s \<and>
     validRevisions u = validRevisions s \<and> extends s u"
proof -
  let ?n = "length (validRevisions s)"
  have s1: "rid = nextRevisionId s" "s1 = s \<lparr> nextRevisionId := rid + 1,
      validRevisions := validRevisions s @ [(rid, length (jentries s))] \<rparr>"
    using assms(2) by (auto simp: Snapshot_def Let_def)
  have vs: "view s1 = view s" "jentries s1 = jentries s" using s1 by (simp_all add: view_def)
  obtain rs where rs: "validRevisions t = validRevisions s1 @ rs" using assms(3) by (auto simp: extends_def)
  then have n: "?n < length (validRevisions t)" "validRevisions t ! ?n = (rid, length (jentries s))"
    using s1 by (auto simp: nth_append)
  have "sort_search (\<lambda>i. rid \<le> fst (validRevisions t ! i)) 0 (length (validRevisions t)) = ?n"
    using search_revision [of "validRevisions t" ?n] n extends_wf [OF assms(3)]
    by (simp add: wf_state_def wf_revs_def)
  moreover obtain es where es: "jentries t = jentries s @ es" "arevert_loop (rev es) (view t) = Ret (view s)"
    using assms(3) vs by (auto simp: extends_def)
  moreover have "wf_objs t" using extends_wf [OF assms(3)] by (simp add: wf_state_def)
  note r = revert_loop_refines [OF this, of "rev es"]
  then obtain t' where t': "revert_loop (rev es) t = Ret t'" "view t' = view s" "wf_objs t'" "same_journal t t'"
    using es by (auto simp: refines_def split: go.splits)
  define u where "u = t' \<lparr> jentries := jentries s, validRevisions := validRevisions s \<rparr>"
  have "RevertToSnapshot rid t = Ret u"
    using calculation n t' rs s1
    by (simp add: RevertToSnapshot_def journal_revert_def Let_def same_journal_def u_def)
  moreover have u: "view u = view s" "jentries u = jentries s" "validRevisions u = validRevisions s"
    using t' by (simp_all add: u_def)
  moreover have "extends s u"
  proof -
    have "nextRevisionId s \<le> nextRevisionId u"
      using assms(3) t' s1 by (auto simp: extends_def u_def same_journal_def)
    moreover have "sAccessList u = sAccessList s" using u by (metis vAccess_view)
    moreover have "wf_objs u" using t' by (simp add: u_def wf_objs_def)
    ultimately show ?thesis
      using assms(1) u by (fastforce simp: extends_def wf_state_def wf_revs_def)
  qed
  ultimately show ?thesis by blast
qed

lemma Snapshot_extends:
  assumes "wf_state s" "Snapshot s = (rid, s1)"
  shows "extends s s1"
  using assms by (fastforce simp: Snapshot_def Let_def extends_def wf_state_def wf_revs_def view_def
      wf_objs_def sorted_wrt_append)


section \<open>Every operation is journaled\<close>

lemma objs_view_other:
  assumes "\<forall>a ob. objs a = Some ob \<longrightarrow> oaddress ob = a" "D' - {a} = D - {a}"
  shows "objs_view db D' (objs(a \<mapsto> ob)) = (objs_view db D objs)(a \<mapsto> obj_view db D' ob)"
proof
  fix b
  have "obj_view db D' ob' = obj_view db D ob'" if "oaddress ob' \<noteq> a" for ob'
  proof -
    have "oaddress ob' \<in> D' \<longleftrightarrow> oaddress ob' \<in> D" using that assms(2) by blast
    then have "db_slot db D' (oaddress ob') = db_slot db D (oaddress ob')"
      by (simp add: db_slot_def fun_eq_iff)
    then show ?thesis by (simp add: obj_view_def committed_value_def)
  qed
  moreover have "oaddress ob' = b" if "lookup_in objs db b = Some ob'" for ob'
    using that assms by (auto simp: lookup_in_def db_object_def newObject_def split: option.splits sum.splits)
  ultimately show "objs_view db D' (objs(a \<mapsto> ob)) b = ((objs_view db D objs)(a \<mapsto> obj_view db D' ob)) b"
    by (cases "b = a"; cases "lookup_in objs db b") (auto simp: objs_view_def lookup_in_def)
qed

definition new_view :: "Database \<Rightarrow> address set \<Rightarrow> address \<Rightarrow> account_view" where
  "new_view db D a = obj_view db D (newObject a zeroAccount)"

definition acreate :: "address \<Rightarrow> state_view \<Rightarrow> state_view" where
  "acreate a v =
    (case vObjs v a of
       None \<Rightarrow> vdirty (createObjectChange a)
                 (v \<lparr> vObjs := (vObjs v)(a \<mapsto> new_view (vDb v) (vDestruct v) a) \<rparr>)
     | Some _ \<Rightarrow> v \<lparr> vObjs := (vObjs v)(a \<mapsto> new_view (vDb v) (insert a (vDestruct v)) a),
                     vDestruct := insert a (vDestruct v) \<rparr>)"

lemma newObject_sel [simp]: "oaddress (newObject a d) = a" "deleted (newObject a d) = False"
  by (simp_all add: newObject_def)

lemma sAccessList_frame [simp]:
  "sAccessList (setStateObject ob s) = sAccessList s"
  "sAccessList (journal_append e s) = sAccessList s"
  by (simp_all add: setStateObject_def journal_append_def Let_def split: option.split)

lemma vundirty_vdirty_id:
  "vundirty e (vdirty e (view s)) = view s" by simp

lemma vlive_deleted: "vObjs v a = Some x \<Longrightarrow> \<not> vDeleted x \<Longrightarrow> vlive v a = Some x"
  by (simp add: vlive_def)

lemma quiet_sel:
  assumes "quiet s t"
  shows "sdb t = sdb s" "stateObjectsDestruct t = stateObjectsDestruct s" "view t = view s"
  using assms unfolding quiet_def by (metis view_sel(1), metis view_sel(2), simp)

lemma createObject_none:
  assumes "wf_state s" "stateObjects s a = None" "db_object (sdb s) a = None"
    and "t = setStateObject (newObject a zeroAccount) (journal_append (createObjectChange a) s)"
  shows "extends s t \<and> view t = acreate a (view s)"
proof -
  have n: "vObjs (view s) a = None" using assms by (simp add: view_sel lookup_in_None)
  have v: "view t = acreate a (view s)"
    using assms(4) n by (simp add: acreate_def view_setStateObject view_journal_append vdirty_vObjs
        new_view_def view_sel)
  have d: "a \<notin> stateObjectsDirty s" using assms by (auto simp: wf_state_def wf_objs_def)
  have "extends s t"
  proof (rule extends_step [OF assms(1), of t "createObjectChange a"])
    let ?w = "(view s) \<lparr> vObjs := (vObjs (view s))(a \<mapsto> new_view (sdb s) (stateObjectsDestruct s) a) \<rparr>"
    show "view t = vdirty (createObjectChange a) ?w" using n by (simp add: v acreate_def view_sel)
    show "arevert (createObjectChange a) ?w = Ret (view s)"
      using n d assms(3) by (simp add: fun_upd_idem view_sel) (simp add: view_def)
  qed (use assms in \<open>simp_all add: wf_state_def\<close>)
  with v show ?thesis by simp
qed


lemma createObject_some:
  assumes "wf_state s" "stateObjects s a = Some prev" "oaddress nb = a"
    and "t = setStateObject nb
       (journal_append (resetObjectChange prev (a \<in> stateObjectsDestruct s))
         (s \<lparr> stateObjectsDestruct := insert a (stateObjectsDestruct s) \<rparr>))"
  shows "extends s t \<and> view t = (view s)
    \<lparr> vObjs := (vObjs (view s))(a \<mapsto> obj_view (sdb s) (insert a (stateObjectsDestruct s)) nb),
      vDestruct := insert a (stateObjectsDestruct s) \<rparr>" (is "_ \<and> _ = ?v")
proof -
  let ?D = "stateObjectsDestruct s"
  have p: "oaddress prev = a" and wf: "\<forall>a ob. stateObjects s a = Some ob \<longrightarrow> oaddress ob = a"
    using assms(1,2) by (auto simp: wf_state_def wf_objs_def)
  have n: "vObjs (view s) a = Some (obj_view (sdb s) ?D prev)" using assms(2) by (simp add: view_sel)
  have o: "objs_view (sdb s) (insert a ?D) ((stateObjects s)(a \<mapsto> nb)) =
      (objs_view (sdb s) ?D (stateObjects s))(a \<mapsto> obj_view (sdb s) (insert a ?D) nb)"
    using wf by (intro objs_view_other) auto
  have v: "view t = ?v"
    using n o assms(3) unfolding assms(4)
    by (simp add: view_def setStateObject_def journal_append_def del: objs_view_upd)
  have "extends s t"
  proof (rule extends_step [OF assms(1), of t "resetObjectChange prev (a \<in> ?D)"])
    show "view t = vdirty (resetObjectChange prev (a \<in> ?D)) ?v"
      by (simp add: v vdirty_def)
    have "arevert (resetObjectChange prev (a \<in> ?D)) ?v =
        Ret ((view s) \<lparr> vObjs := vObjs (view s), vDestruct := ?D \<rparr>)"
      using p by (cases "a \<in> ?D")
        (simp_all add: Let_def insert_absorb view_sel(1,2) fun_upd_idem [of "vObjs (view s)", OF n])
    then show "arevert (resetObjectChange prev (a \<in> ?D)) ?v = Ret (view s)"
      by (simp add: view_def)
    show "wf_objs t" using assms(1) unfolding assms(4)
      by (intro wf_setStateObject) (simp add: wf_state_def wf_objs_def)
  qed (use assms in \<open>simp_all add: wf_state_def\<close>)
  with v show ?thesis by simp
qed

lemma createObject_cases:
  assumes "wf_state s" "createObject a s = (ob, prev, t)"
  obtains s' where "quiet s s'" "wf_state s'" "vObjs (view s) a = None" "prev = None" "live s a = None"
      "stateObjects s' a = None" "db_object (sdb s') a = None" "ob = newObject a zeroAccount"
      "t = setStateObject ob (journal_append (createObjectChange a) s')"
  | s' p where "quiet s s'" "wf_state s'" "lookup s a = Some p" "stateObjects s' a = Some p"
      "ob = newObject a zeroAccount" "prev = live s a"
      "t = setStateObject ob
       (journal_append (resetObjectChange p (a \<in> stateObjectsDestruct s'))
         (s' \<lparr> stateObjectsDestruct := insert a (stateObjectsDestruct s') \<rparr>))"
proof -
  obtain so s' where g: "getDeletedStateObject a s = (so, s')" by fastforce
  have wf: "wf_objs s" using assms(1) by (simp add: wf_state_def)
  note sp = getDeletedStateObject_spec [OF wf g]
  have wf': "wf_state s'" using sp assms(1) extends_quiet [of s s'] by (auto simp: extends_wf)
  show thesis
  proof (cases so)
    case None
    then show thesis using sp assms(2) g wf'
      by (intro that(1)) (auto simp: createObject_def Let_def view_sel live_def)
  next
    case (Some p)
    then have pa: "oaddress p = a" "stateObjects s' a = Some p" "lookup s a = Some p"
      using sp lookup_address [OF wf, of a p] by auto
    have 1: "prev = live s a" using assms(2) g Some pa by (auto simp: createObject_def Let_def live_def)
    have 2: "ob = newObject a zeroAccount"
      using assms(2) g Some by (simp add: createObject_def Let_def)
    have 3: "t = setStateObject ob
       (journal_append (resetObjectChange p (a \<in> stateObjectsDestruct s'))
         (s' \<lparr> stateObjectsDestruct := insert a (stateObjectsDestruct s') \<rparr>))"
      using assms(2) g Some pa 2
      by (cases "a \<in> stateObjectsDestruct s'") (simp_all add: createObject_def Let_def insert_absorb)
    have 4: "quiet s s'" using sp by simp
    show thesis by (rule that(2) [OF 4 wf' pa(3,2) 2 1 3])
  qed
qed

lemma acreate_some: "vObjs v a = Some x \<Longrightarrow> acreate a v =
  v \<lparr> vObjs := (vObjs v)(a \<mapsto> new_view (vDb v) (insert a (vDestruct v)) a), vDestruct := insert a (vDestruct v) \<rparr>"
  by (simp add: acreate_def)

lemma createObject_spec:
  assumes "wf_state s" "createObject a s = (ob, prev, t)"
  shows "extends s t \<and> view t = acreate a (view s) \<and> ob = newObject a zeroAccount \<and>
    prev = live s a \<and> stateObjects t a = Some ob"
  using assms
proof (cases rule: createObject_cases)
  case (1 s')
  then show ?thesis
    using createObject_none [of s' a t] extends_quiet [OF assms(1) 1(1)] quiet_sel [OF 1(1)]
    by (auto intro: extends_trans)
next
  case (2 s' p)
  have "vObjs (view s) a = Some (obj_view (sdb s) (stateObjectsDestruct s) p)"
    using 2(3) by (simp add: view_sel)
  from acreate_some [OF this] show ?thesis
    using 2 createObject_some [OF 2(2,4) _ 2(7)] extends_quiet [OF assms(1) 2(1)] quiet_sel [OF 2(1)]
    by (auto simp: new_view_def view_sel intro: extends_trans)
qed

lemma CreateAccount_spec:
  assumes "wf_state s"
  shows "extends s (CreateAccount a s) \<and> view (CreateAccount a s) =
    (case vlive (view s) a of None \<Rightarrow> acreate a (view s)
     | Some x \<Rightarrow> (acreate a (view s)) \<lparr> vObjs := (vObjs (view s))(a \<mapsto>
         (new_view (sdb s) (insert a (stateObjectsDestruct s)) a) \<lparr> vBalance := vBalance x \<rparr>) \<rparr>)"
proof -
  obtain ob prev t where c: "createObject a s = (ob, prev, t)" by (metis prod_cases3)
  note sp = createObject_spec [OF assms c]
  show ?thesis
  proof (cases prev)
    case None
    then show ?thesis using sp c by (simp add: CreateAccount_def vlive_view)
  next
    case (Some p0)
    have u: "CreateAccount a s = setStateObject (obj_setBalance (oBalance p0) ob) t"
      using c Some by (simp add: CreateAccount_def)
    from assms c show ?thesis
    proof (cases rule: createObject_cases)
      case (1 s')
      then show ?thesis using Some by simp
    next
      case (2 s' p)
      let ?nb = "obj_setBalance (oBalance p0) ob"
      have nb: "oaddress ?nb = a" using 2 by simp
      have u': "CreateAccount a s = setStateObject ?nb
         (journal_append (resetObjectChange p (a \<in> stateObjectsDestruct s'))
           (s' \<lparr> stateObjectsDestruct := insert a (stateObjectsDestruct s') \<rparr>))"
        unfolding u 2(7) using 2(5) by (simp add: setStateObject_def)
      have "vObjs (view s) a = Some (obj_view (sdb s) (stateObjectsDestruct s) p)"
        using 2(3) by (simp add: view_sel)
      note ac = acreate_some [OF this]
      have l: "vlive (view s) a = Some (obj_view (sdb s) (stateObjectsDestruct s) p0)"
        using 2(6) [symmetric] Some by (simp add: vlive_view)
      have b: "vBalance (obj_view (sdb s) (stateObjectsDestruct s) p0) = oBalance p0"
        by (simp add: obj_view_def)
      show ?thesis
        using createObject_some [OF 2(2,4) nb u'] extends_trans [OF extends_quiet [OF assms 2(1)]]
        by (simp add: l b ac quiet_sel [OF 2(1)] new_view_def view_sel(1,2) obj_view_set 2(5))
    qed
  qed
qed

definition vnew :: "address \<Rightarrow> state_view \<Rightarrow> state_view" where
  "vnew a v = (if vlive v a = None then acreate a v else v)"

lemma GetOrNewStateObject_spec:
  assumes "wf_state s" "GetOrNewStateObject a s = (ob, t)"
  shows "extends s t \<and> view t = vnew a (view s) \<and> stateObjects t a = Some ob \<and>
    oaddress ob = a \<and> \<not> deleted ob"
proof -
  obtain so s' where g: "getStateObject a s = (so, s')" by fastforce
  have wf: "wf_objs s" using assms(1) by (simp add: wf_state_def)
  note sp = getStateObject_spec [OF wf g]
  have e: "extends s s'" and wf': "wf_state s'" and v: "view s' = view s"
    using sp assms(1) extends_quiet [of s s'] by (auto simp: extends_wf quiet_def)
  show ?thesis
  proof (cases so)
    case None
    obtain nb prev u where c: "createObject a s' = (nb, prev, u)" by (metis prod_cases3)
    then have "ob = nb" "t = u" using assms(2) g None by (auto simp: GetOrNewStateObject_def)
    with createObject_spec [OF wf' c] None sp e v show ?thesis
      by (auto simp: vnew_def vlive_view intro: extends_trans)
  next
    case (Some p)
    then have "ob = p" "t = s'" using assms(2) g by (auto simp: GetOrNewStateObject_def)
    with Some sp e v show ?thesis
      by (auto simp: vnew_def vlive_view live_def split: option.splits if_splits)
  qed
qed


subsection \<open>Accounts\<close>

text \<open>Overwriting the live account \<open>a\<close> with a journal entry that restores it.\<close>

lemma set_step:
  assumes "wf_state s" "stateObjects s a = Some ob" "oaddress ob' = a" "\<not> deleted ob'"
    and "t = setStateObject ob' (journal_append e s)"
    and "\<And>v. vlive v a = Some (obj_view (sdb s) (stateObjectsDestruct s) ob') \<Longrightarrow> vDb v = sdb s \<Longrightarrow>
      arevert e v = Ret (v \<lparr> vObjs := (vObjs v)(a \<mapsto> obj_view (sdb s) (stateObjectsDestruct s) ob) \<rparr>)"
  shows "extends s t \<and> view t = vdirty e ((view s)
     \<lparr> vObjs := (vObjs (view s))(a \<mapsto> obj_view (sdb s) (stateObjectsDestruct s) ob') \<rparr>)"
proof -
  let ?w = "(view s) \<lparr> vObjs := (vObjs (view s))(a \<mapsto> obj_view (sdb s) (stateObjectsDestruct s) ob') \<rparr>"
  have v: "view t = vdirty e ?w"
    unfolding assms(5) by (simp add: view_setStateObject view_journal_append vdirty_vObjs assms(3))
  have n: "vObjs (view s) a = Some (obj_view (sdb s) (stateObjectsDestruct s) ob)"
    using assms(2) by (simp add: view_sel)
  have "vlive ?w a = Some (obj_view (sdb s) (stateObjectsDestruct s) ob')"
    using assms(4) by (simp add: vlive_def obj_view_def)
  then have "arevert e ?w = Ret ((view s) \<lparr> vObjs := vObjs (view s) \<rparr>)"
    by (subst assms(6)) (simp_all add: view_sel fun_upd_idem [of "vObjs (view s)", OF n])
  then have "extends s t"
    using assms(1,5) by (intro extends_step [OF assms(1) _ v]) (simp_all add: wf_state_def)
  with v show ?thesis by simp
qed

lemma vdirty_Some: "dirtied e = Some a \<Longrightarrow> vdirty e v = vtouch a v"
  by (simp add: vdirty_def)

lemma obj_view_restore:
  "(obj_view db D ob) \<lparr> vBalance := oBalance ob \<rparr> = obj_view db D ob"
  "(obj_view db D ob) \<lparr> vNonce := oNonce ob \<rparr> = obj_view db D ob"
  "(obj_view db D ob) \<lparr> vSuicided := suicided ob \<rparr> = obj_view db D ob"
  "(obj_view db D ob) \<lparr> vState := vState (obj_view db D ob) \<rparr> = obj_view db D ob"
  by (simp_all add: obj_view_def)

lemma obj_set_deleted [simp]:
  "deleted (obj_setBalance b ob) = deleted ob" "deleted (obj_setNonce n ob) = deleted ob"
  "deleted (obj_setState k x ob) = deleted ob" "deleted (obj_setCode h c ob) = deleted ob"
  by (simp_all add: obj_setBalance_def obj_setNonce_def obj_setState_def obj_setCode_def)

text \<open>The live account \<open>a\<close> of a view replaced by \<open>f\<close> of it, and marked dirty.\<close>

definition vset :: "address \<Rightarrow> (account_view \<Rightarrow> account_view) \<Rightarrow> state_view \<Rightarrow> state_view" where
  "vset a f v = vtouch a (v \<lparr> vObjs := (vObjs v)(a := map_option f (vObjs v a)) \<rparr>)"

lemma set_step_vset:
  assumes "wf_state s" "stateObjects s a = Some ob" "oaddress ob' = a" "\<not> deleted ob'"
    and "t = setStateObject ob' (journal_append e s)" "dirtied e = Some a"
    and "obj_view (sdb s) (stateObjectsDestruct s) ob' = f (obj_view (sdb s) (stateObjectsDestruct s) ob)"
    and "\<And>v. vlive v a = Some (obj_view (sdb s) (stateObjectsDestruct s) ob') \<Longrightarrow> vDb v = sdb s \<Longrightarrow>
      arevert e v = Ret (v \<lparr> vObjs := (vObjs v)(a \<mapsto> obj_view (sdb s) (stateObjectsDestruct s) ob) \<rparr>)"
  shows "extends s t \<and> view t = vset a f (view s)"
proof -
  have "vObjs (view s) a = Some (obj_view (sdb s) (stateObjectsDestruct s) ob)"
    using assms(2) by (simp add: view_sel)
  with set_step [OF assms(1-5,8)] assms(6,7) show ?thesis by (simp add: vset_def vdirty_Some)
qed

lemma wf_state_address: "wf_state s \<Longrightarrow> stateObjects s a = Some ob \<Longrightarrow> oaddress ob = a"
  by (auto simp: wf_state_def wf_objs_def)

lemma obj_SetBalance_spec:
  assumes "wf_state s" "stateObjects s a = Some ob" "\<not> deleted ob"
  shows "extends s (obj_SetBalance ob x s) \<and>
    view (obj_SetBalance ob x s) = vset a (\<lambda>o1. o1 \<lparr> vBalance := x \<rparr>) (view s)"
  using assms wf_state_address [OF assms(1,2)]
  by (intro set_step_vset [where e = "balanceChange a (oBalance ob)" and ob' = "obj_setBalance x ob"])
    (simp_all add: obj_SetBalance_def obj_view_set vupd_def obj_view_restore)

lemma obj_SetNonce_spec:
  assumes "wf_state s" "stateObjects s a = Some ob" "\<not> deleted ob"
  shows "extends s (obj_SetNonce ob x s) \<and>
    view (obj_SetNonce ob x s) = vset a (\<lambda>o1. o1 \<lparr> vNonce := x \<rparr>) (view s)"
  using assms wf_state_address [OF assms(1,2)]
  by (intro set_step_vset [where e = "nonceChange a (oNonce ob)" and ob' = "obj_setNonce x ob"])
    (simp_all add: obj_SetNonce_def obj_view_set vupd_def obj_view_restore)

lemma obj_touch_spec:
  assumes "wf_state s" "stateObjects s a = Some ob"
  shows "extends s (obj_touch ob s) \<and> view (obj_touch ob s) = vtouch a (view s)"
proof -
  have a: "oaddress ob = a" using wf_state_address [OF assms] .
  have v: "view (obj_touch ob s) = vdirty (touchChange a) (view s)"
  proof (cases "a = ripemd")
    case True
    then have "view (obj_touch ob s) = view s"
      by (simp add: obj_touch_def a journal_dirty_def journal_append_def view_def unripemd_def Let_def fun_eq_iff)
    with True show ?thesis by (simp add: vdirty_def vtouch_def)
  qed (simp add: obj_touch_def a view_journal_append Let_def)
  have "extends s (obj_touch ob s)"
    by (rule extends_step [OF assms(1) _ v])
      (use assms(1) in \<open>simp_all add: a obj_touch_def journal_dirty_def Let_def wf_state_def wf_objs_def\<close>)
  with v show ?thesis by (simp add: vdirty_def)
qed


lemma obj_SetState_spec:
  assumes "wf_state s" "stateObjects s a = Some ob" "\<not> deleted ob"
  shows "extends s (obj_SetState ob k x s) \<and>
    view (obj_SetState ob k x s) =
      (if vState (obj_view (sdb s) (stateObjectsDestruct s) ob) k = x then view s
       else vset a (\<lambda>o1. o1 \<lparr> vState := (vState o1)(k := x) \<rparr>) (view s))"
proof -
  have a: "oaddress ob = a" using wf_state_address [OF assms(1,2)] .
  obtain p s' where g: "obj_GetState ob k s = (p, s')" by fastforce
  have wf: "wf_objs s" using assms(1) by (simp add: wf_state_def)
  obtain ob1 where sp: "p = vState (obj_view (sdb s) (stateObjectsDestruct s) ob) k" "quiet s s'"
      "stateObjects s' a = Some ob1" "oaddress ob1 = a"
      "obj_view (sdb s) (stateObjectsDestruct s) ob1 = obj_view (sdb s) (stateObjectsDestruct s) ob"
    using obj_GetState_spec [OF wf _ g] assms(2) a by auto
  note q = quiet_sel [OF sp(2)]
  have e: "extends s s'" and wf': "wf_state s'"
    using extends_quiet [OF assms(1) sp(2)] by (simp_all add: extends_wf)
  show ?thesis
  proof (cases "p = x")
    case True
    then have "obj_SetState ob k x s = s'" using g by (simp add: obj_SetState_def)
    then show ?thesis using True e sp q by simp
  next
    case False
    let ?t = "obj_SetState ob k x s" and ?e = "storageChange a k p"
    have t: "?t = setStateObject (obj_setState k x ob1) (journal_append ?e s')"
      using False g a sp(3) by (simp add: obj_SetState_def cached_def Let_def)
    have del: "\<not> deleted ob1"
      using sp(5) assms(3) by (metis (no_types, lifting) account_view.select_convs(9) obj_view_def)
    have "extends s' ?t \<and> view ?t = vset a (\<lambda>o1. o1 \<lparr> vState := (vState o1)(k := x) \<rparr>) (view s')"
      using sp del t
      by (intro set_step_vset [OF wf', where e = ?e and ob' = "obj_setState k x ob1" and ob = ob1])
        (simp_all add: obj_view_set vupd_def obj_view_restore q)
    then show ?thesis using e q False sp by (auto intro: extends_trans)
  qed
qed

lemma obj_SetCode_spec:
  assumes "wf_state s" "stateObjects s a = Some ob" "\<not> deleted ob"
  shows "extends s (obj_SetCode ob h c s) \<and> view (obj_SetCode ob h c s) =
      vset a (\<lambda>o1. o1 \<lparr> vCodeHash := h, vCode := code_view (sdb s) a h c \<rparr>) (view s)"
proof -
  have a: "oaddress ob = a" using wf_state_address [OF assms(1,2)] .
  obtain p s' where g: "obj_Code ob s = (p, s')" by fastforce
  have wf: "wf_objs s" using assms(1) by (simp add: wf_state_def)
  obtain ob1 where sp: "p = code_value (sdb s) ob" "quiet s s'"
      "stateObjects s' a = Some ob1" "oaddress ob1 = a" "oCodeHash ob1 = oCodeHash ob"
      "obj_view (sdb s) (stateObjectsDestruct s) ob1 = obj_view (sdb s) (stateObjectsDestruct s) ob"
    using obj_Code_spec [OF wf _ g] assms(2) a by auto
  note q = quiet_sel [OF sp(2)]
  have e: "extends s s'" and wf': "wf_state s'"
    using extends_quiet [OF assms(1) sp(2)] by (simp_all add: extends_wf)
  let ?t = "obj_SetCode ob h c s" and ?e = "codeChange a p (oCodeHash ob)"
  have t: "?t = setStateObject (obj_setCode h c ob1) (journal_append ?e s')"
    using g a sp(3) by (simp add: obj_SetCode_def cached_def Let_def)
  have del: "\<not> deleted ob1"
    using sp(6) assms(3) by (metis (no_types, lifting) account_view.select_convs(9) obj_view_def)
  have code: "code_view (sdb s) a (oCodeHash ob) p = p"
    by (auto simp: sp(1) code_value_def code_view_def a split: option.splits)
  have "(obj_view (sdb s) (stateObjectsDestruct s) ob1) \<lparr> vCodeHash := oCodeHash ob, vCode := p \<rparr> =
      obj_view (sdb s) (stateObjectsDestruct s) ob1"
    using sp by (simp add: obj_view_def)
  with code have "extends s' ?t \<and> view ?t =
      vset a (\<lambda>o1. o1 \<lparr> vCodeHash := h, vCode := code_view (sdb s) a h c \<rparr>) (view s')"
    using sp del t
    by (intro set_step_vset [OF wf', where e = ?e and ob' = "obj_setCode h c ob1" and ob = ob1])
      (simp_all add: obj_view_set vupd_def q)
  then show ?thesis using e q by (auto intro: extends_trans)
qed


subsection \<open>The setters of the database\<close>

definition vempty :: "account_view \<Rightarrow> bool" where
  "vempty x = (vNonce x = 0 \<and> vBalance x = 0 \<and> vCodeHash x = EmptyCodeHash)"

lemma obj_empty_view: "obj_empty ob = vempty (obj_view db D ob)"
  by (simp add: obj_empty_def vempty_def obj_view_def)

lemma with_new:
  assumes "wf_state s"
    and "\<And>ob u. wf_state u \<Longrightarrow> stateObjects u a = Some ob \<Longrightarrow> \<not> deleted ob \<Longrightarrow> sdb u = sdb s \<Longrightarrow>
      view u = vnew a (view s) \<Longrightarrow>
      vObjs (view u) a = Some (obj_view (sdb u) (stateObjectsDestruct u) ob) \<Longrightarrow>
      extends u (f ob u) \<and> view (f ob u) = g (vnew a (view s))"
  shows "extends s (case GetOrNewStateObject a s of (ob, u) \<Rightarrow> f ob u) \<and>
    view (case GetOrNewStateObject a s of (ob, u) \<Rightarrow> f ob u) = g (vnew a (view s))"
proof -
  obtain ob u where g: "GetOrNewStateObject a s = (ob, u)" by fastforce
  have sp: "extends s u" "view u = vnew a (view s)" "stateObjects u a = Some ob" "\<not> deleted ob"
    using GetOrNewStateObject_spec [OF assms(1) g] by blast+
  have "vDb (view u) = vDb (view s)" using sp by (simp add: vnew_def acreate_def split: option.split)
  then have db: "sdb u = sdb s" by (simp add: view_sel)
  have vo: "vObjs (view u) a = Some (obj_view (sdb u) (stateObjectsDestruct u) ob)"
    using sp(3) by (simp add: view_sel(3))
  show ?thesis
    using g extends_trans [OF sp(1)] assms(2) [OF extends_wf [OF sp(1)] sp(3,4) db sp(2) vo] by simp
qed

lemma SetBalance_spec:
  assumes "wf_state s"
  shows "extends s (SetBalance a x s) \<and>
    view (SetBalance a x s) = vset a (\<lambda>o1. o1 \<lparr> vBalance := x \<rparr>) (vnew a (view s))"
  unfolding SetBalance_def using assms
  by (rule with_new) (metis obj_SetBalance_spec)

lemma SetNonce_spec:
  assumes "wf_state s"
  shows "extends s (SetNonce a x s) \<and>
    view (SetNonce a x s) = vset a (\<lambda>o1. o1 \<lparr> vNonce := x \<rparr>) (vnew a (view s))"
  unfolding SetNonce_def using assms
  by (rule with_new) (metis obj_SetNonce_spec)

lemma SetCode_spec:
  assumes "wf_state s"
  shows "extends s (SetCode kec a c s) \<and> view (SetCode kec a c s) =
    (let h = kec (case c of None \<Rightarrow> [] | Some x \<Rightarrow> x) in
     vset a (\<lambda>o1. o1 \<lparr> vCodeHash := h, vCode := code_view (sdb s) a h c \<rparr>) (vnew a (view s)))"
  unfolding SetCode_def Let_def using assms
  by (rule with_new) (metis obj_SetCode_spec)

definition vSetState :: "address \<Rightarrow> hash \<Rightarrow> hash \<Rightarrow> state_view \<Rightarrow> state_view" where
  "vSetState a k x v = (if map_option (\<lambda>o1. vState o1 k) (vObjs v a) = Some x then v
     else vset a (\<lambda>o1. o1 \<lparr> vState := (vState o1)(k := x) \<rparr>) v)"

lemma SetState_spec:
  assumes "wf_state s"
  shows "extends s (SetState a k x s) \<and> view (SetState a k x s) = vSetState a k x (vnew a (view s))"
  unfolding SetState_def using assms
proof (rule with_new)
  fix ob u assume "wf_state u" "stateObjects u a = Some ob" "\<not> deleted ob" "view u = vnew a (view s)"
    "vObjs (view u) a = Some (obj_view (sdb u) (stateObjectsDestruct u) ob)"
  then show "extends u (obj_SetState ob k x u) \<and>
      view (obj_SetState ob k x u) = vSetState a k x (vnew a (view s))"
    using obj_SetState_spec [of u a ob k x] by (auto simp: vSetState_def)
qed

definition vAddBalance :: "address \<Rightarrow> int \<Rightarrow> state_view \<Rightarrow> state_view" where
  "vAddBalance a x v = (if x = 0 then (if map_option vempty (vObjs v a) = Some True then vtouch a v else v)
     else vset a (\<lambda>o1. o1 \<lparr> vBalance := vBalance o1 + x \<rparr>) v)"

lemma vset_cong: "map_option f (vObjs v a) = map_option g (vObjs v a) \<Longrightarrow> vset a f v = vset a g v"
  by (simp add: vset_def)

lemma AddBalance_spec:
  assumes "wf_state s"
  shows "extends s (AddBalance a x s) \<and> view (AddBalance a x s) = vAddBalance a x (vnew a (view s))"
  unfolding AddBalance_def using assms
proof (rule with_new)
  fix ob u assume u: "wf_state u" "stateObjects u a = Some ob" "\<not> deleted ob" "view u = vnew a (view s)"
    "vObjs (view u) a = Some (obj_view (sdb u) (stateObjectsDestruct u) ob)"
  have "vset a (\<lambda>o1. o1 \<lparr> vBalance := oBalance ob + x \<rparr>) (view u) =
      vset a (\<lambda>o1. o1 \<lparr> vBalance := vBalance o1 + x \<rparr>) (view u)"
    using u(5) by (intro vset_cong) (simp add: obj_view_def)
  then show "extends u (obj_AddBalance ob x u) \<and>
      view (obj_AddBalance ob x u) = vAddBalance a x (vnew a (view s))"
    using u(5) obj_SetBalance_spec [OF u(1-3), of "oBalance ob + x"] obj_touch_spec [OF u(1,2)]
      extends_refl [OF u(1)] unfolding u(4) [symmetric]
    by (simp add: obj_AddBalance_def vAddBalance_def obj_empty_view [of ob "sdb u" "stateObjectsDestruct u"])
qed

definition vSubBalance :: "address \<Rightarrow> int \<Rightarrow> state_view \<Rightarrow> state_view" where
  "vSubBalance a x v = (if x = 0 then v else vset a (\<lambda>o1. o1 \<lparr> vBalance := vBalance o1 - x \<rparr>) v)"

lemma SubBalance_spec:
  assumes "wf_state s"
  shows "extends s (SubBalance a x s) \<and> view (SubBalance a x s) = vSubBalance a x (vnew a (view s))"
  unfolding SubBalance_def using assms
proof (rule with_new)
  fix ob u assume u: "wf_state u" "stateObjects u a = Some ob" "\<not> deleted ob" "view u = vnew a (view s)"
    "vObjs (view u) a = Some (obj_view (sdb u) (stateObjectsDestruct u) ob)"
  have "vset a (\<lambda>o1. o1 \<lparr> vBalance := oBalance ob - x \<rparr>) (view u) =
      vset a (\<lambda>o1. o1 \<lparr> vBalance := vBalance o1 - x \<rparr>) (view u)"
    using u(5) by (intro vset_cong) (simp add: obj_view_def)
  then show "extends u (obj_SubBalance ob x u) \<and>
      view (obj_SubBalance ob x u) = vSubBalance a x (vnew a (view s))"
    using obj_SetBalance_spec [OF u(1-3), of "oBalance ob - x"] extends_refl [OF u(1)]
    unfolding u(4) [symmetric] by (simp add: obj_SubBalance_def vSubBalance_def)
qed

lemma Suicide_spec:
  assumes "wf_state s" "Suicide a s = (b, t)"
  shows "extends s t \<and> b = (vlive (view s) a \<noteq> None) \<and>
    view t = (if b then vset a (\<lambda>o1. o1 \<lparr> vSuicided := True, vBalance := 0 \<rparr>) (view s) else view s)"
proof -
  obtain so s' where g: "getStateObject a s = (so, s')" by fastforce
  have wf: "wf_objs s" using assms(1) by (simp add: wf_state_def)
  note sp = getStateObject_spec [OF wf g]
  then have q: "quiet s s'" by simp
  have e: "extends s s'" and wf': "wf_state s'"
    using extends_quiet [OF assms(1) q] by (simp_all add: extends_wf)
  note qs = quiet_sel [OF q]
  show ?thesis
  proof (cases so)
    case None
    then show ?thesis using assms(2) g sp e qs by (auto simp: Suicide_def vlive_view)
  next
    case (Some ob)
    then have ob: "stateObjects s' a = Some ob" "oaddress ob = a" "\<not> deleted ob" "live s a = Some ob"
      using sp by (auto simp: live_def split: option.splits if_splits)
    let ?e = "suicideChange a (suicided ob) (oBalance ob)"
    let ?ob = "obj_setBalance 0 (markSuicided ob)"
    have t: "t = setStateObject ?ob (journal_append ?e s')" "b"
      using assms(2) g Some by (auto simp: Suicide_def Let_def)
    have "extends s' t \<and> view t = vset a (\<lambda>o1. o1 \<lparr> vSuicided := True, vBalance := 0 \<rparr>) (view s')"
      using ob t(1)
      by (intro set_step_vset [OF wf', where e = ?e and ob' = ?ob and ob = ob])
        (simp_all add: obj_view_set markSuicided_def, simp add: obj_view_def)
    then show ?thesis using e qs t ob by (auto simp: vlive_view intro: extends_trans)
  qed
qed


lemma SetTransientState_spec:
  assumes "wf_state s"
  shows "extends s (SetTransientState a k x s) \<and> view (SetTransientState a k x s) =
    (view s) \<lparr> vTransient := (vTransient (view s))(a := (vTransient (view s) a)(k := x)) \<rparr>"
proof (cases "GetTransientState a k s = x")
  case True
  then show ?thesis
    using assms extends_refl
    by (simp add: SetTransientState_def GetTransientState_def) (auto simp: view_def fun_eq_iff)
next
  case False
  let ?t = "SetTransientState a k x s" and ?e = "transientStorageChange a k (GetTransientState a k s)"
  have t: "?t = setTransientState a k x (journal_append ?e s)"
    using False by (simp add: SetTransientState_def Let_def)
  have v: "view ?t = (view s) \<lparr> vTransient := (vTransient (view s))(a := (vTransient (view s) a)(k := x)) \<rparr>"
    by (simp add: t setTransientState_def journal_append_def view_def transient_Get_Set Let_def)
  have "extends s ?t"
  proof (rule extends_step [OF assms, of ?t ?e])
    show "view ?t = vdirty ?e (view ?t)" by (simp add: vdirty_def)
    show "arevert ?e (view ?t) = Ret (view s)"
      by (simp add: v GetTransientState_def) (simp add: view_def fun_upd_idem)
  qed (use assms in \<open>simp_all add: t setTransientState_def wf_state_def wf_objs_def\<close>)
  with v show ?thesis by simp
qed

lemma AddLog_spec:
  assumes "wf_state s"
  shows "extends s (AddLog l s)"
proof (rule extends_step [OF assms, of _ "addLogChange (thash s)"])
  let ?l = "l \<lparr> lTxHash := thash s, lTxIndex := txIndex s, lIndex := logSize s \<rparr>"
  let ?w = "(view s) \<lparr> vLogs := (vLogs (view s))(thash s := vLogs (view s) (thash s) @ [?l]),
      vLogSize := vLogSize (view s) + 1 \<rparr>"
  show "view (AddLog l s) = vdirty (addLogChange (thash s)) ?w"
    by (simp add: AddLog_def journal_append_def view_def Let_def vdirty_def fun_eq_iff)
  show "arevert (addLogChange (thash s)) ?w = Ret (view s)"
    by (simp add: view_def fun_upd_idem)
qed (use assms in \<open>simp_all add: AddLog_def journal_append_def Let_def wf_state_def wf_objs_def\<close>)

lemma AddPreimage_spec:
  assumes "wf_state s"
  shows "extends s (AddPreimage h p s)"
proof (cases "preimages s h")
  case None
  show ?thesis
  proof (rule extends_step [OF assms, of _ "addPreimageChange h"])
    let ?w = "(view s) \<lparr> vPreimages := (preimages s)(h \<mapsto> p) \<rparr>"
    show "view (AddPreimage h p s) = vdirty (addPreimageChange h) ?w"
      using None by (simp add: AddPreimage_def journal_append_def view_def Let_def vdirty_def)
    show "arevert (addPreimageChange h) ?w = Ret (view s)"
      using None by (simp add: view_def fun_upd_idem)
  qed (use assms None in \<open>simp_all add: AddPreimage_def journal_append_def Let_def wf_state_def wf_objs_def\<close>)
qed (use assms in \<open>simp add: AddPreimage_def extends_refl\<close>)

lemma AddRefund_spec:
  assumes "wf_state s"
  shows "extends s (AddRefund g s)"
proof (rule extends_step [OF assms, of _ "refundChange (refund s)"])
  show "view (AddRefund g s) = vdirty (refundChange (refund s)) ((view s) \<lparr> vRefund := refund s + g \<rparr>)"
    by (simp add: AddRefund_def journal_append_def view_def Let_def vdirty_def)
  show "arevert (refundChange (refund s)) ((view s) \<lparr> vRefund := refund s + g \<rparr>) = Ret (view s)"
    by (simp add: view_def)
qed (use assms in \<open>simp_all add: AddRefund_def journal_append_def Let_def wf_state_def wf_objs_def\<close>)

lemma SubRefund_spec:
  assumes "wf_state s" "SubRefund g s = Ret t"
  shows "extends s t"
proof (rule extends_step [OF assms(1), of _ "refundChange (refund s)"])
  have t: "t = (journal_append (refundChange (refund s)) s) \<lparr> refund := refund s - g \<rparr>"
    using assms(2) by (simp add: SubRefund_def Let_def journal_append_def split: if_splits)
  show "view t = vdirty (refundChange (refund s)) ((view s) \<lparr> vRefund := refund s - g \<rparr>)"
    by (simp add: t journal_append_def view_def Let_def vdirty_def)
  show "arevert (refundChange (refund s)) ((view s) \<lparr> vRefund := refund s - g \<rparr>) = Ret (view s)"
    by (simp add: view_def)
  show "jentries t = jentries s @ [refundChange (refund s)]" "validRevisions t = validRevisions s"
    "nextRevisionId t = nextRevisionId s" "wf_objs t" "al_wf (sAccessList t)"
    using assms(1) by (simp_all add: t wf_state_def wf_objs_def)
qed

lemma AddAddressToAccessList_spec:
  assumes "wf_state s"
  shows "extends s (AddAddressToAccessList a s) \<and>
    view (AddAddressToAccessList a s) = (view s) \<lparr> vAccess := fst (AddAddress (sAccessList s) a) \<rparr>"
proof -
  let ?t = "AddAddressToAccessList a s"
  obtain al' c where al: "AddAddress (sAccessList s) a = (al', c)" by fastforce
  have wf: "al_wf al'" using assms al al.add_address_inv [of "sAccessList s" a] by (simp add: wf_state_def)
  have v: "view ?t = (view s) \<lparr> vAccess := al' \<rparr>"
    using al by (simp add: AddAddressToAccessList_def journal_append_def view_def Let_def)
  show ?thesis
  proof (cases c)
    case True
    have "extends s ?t"
    proof (rule extends_step [OF assms, of ?t "accessListAddAccountChange a"])
      show "view ?t = vdirty (accessListAddAccountChange a) (view ?t)" by (simp add: vdirty_def)
      have "DeleteAddress al' a = sAccessList s"
        using al True assms al.undo_address by (simp add: wf_state_def)
      then show "arevert (accessListAddAccountChange a) (view ?t) = Ret (view s)"
        by (simp add: v)
    qed (use assms al True wf in \<open>simp_all add: AddAddressToAccessList_def journal_append_def Let_def wf_state_def wf_objs_def\<close>)
    with v al show ?thesis by simp
  next
    case False
    then have "al' = sAccessList s" using al by (auto simp: AddAddress_def split: if_splits)
    then have "?t = s" using al False by (simp add: AddAddressToAccessList_def)
    with v al show ?thesis using assms by (simp add: extends_refl)
  qed
qed

lemma AddSlotToAccessList_spec:
  assumes "wf_state s"
  shows "\<exists>t al' x y. AddSlotToAccessList a k s = Ret t \<and> extends s t \<and>
    AddSlot (sAccessList s) a k = Ret (al', x, y) \<and> view t = (view s) \<lparr> vAccess := al' \<rparr>"
proof -
  have wf0: "al_wf (sAccessList s)" using assms by (simp add: wf_state_def)
  obtain al' x y where al: "AddSlot (sAccessList s) a k = Ret (al', x, y)" and wf: "al_wf al'"
    using al.add_slot_total [OF wf0] by blast
  define t where "t = (let s = s \<lparr> sAccessList := al' \<rparr>;
          s = (if x then journal_append (accessListAddAccountChange a) s else s);
          s = (if y then journal_append (accessListAddSlotChange a k) s else s) in s)"
  have r: "AddSlotToAccessList a k s = Ret t" using al by (simp add: AddSlotToAccessList_def t_def Let_def)
  have v: "view t = (view s) \<lparr> vAccess := al' \<rparr>"
    by (simp add: t_def journal_append_def view_def Let_def)
  have "extends s t"
  proof (cases y)
    case True
    have "AddSlot (sAccessList s) a k = Ret (al', x, True)" using al True by simp
    from al.undo_slot [OF wf0 this] obtain al''
      where u: "DeleteSlot al' a k = Ret al''" "(if x then DeleteAddress al'' a else al'') = sAccessList s"
      by blast
    let ?es = "(if x then [accessListAddAccountChange a] else []) @ [accessListAddSlotChange a k]"
    have "arevert_loop (rev ?es) (view t) = Ret ((view s) \<lparr> vAccess := sAccessList s \<rparr>)"
      using u by (cases x) (simp_all add: v vundirty_def)
    moreover have "(view s) \<lparr> vAccess := sAccessList s \<rparr> = view s" by (simp add: view_def)
    moreover have "jentries t = jentries s @ ?es" using True by (simp add: t_def journal_append_def Let_def)
    moreover have "validRevisions t = validRevisions s" "nextRevisionId t = nextRevisionId s"
      "wf_objs t" "sAccessList t = al'"
      using assms by (simp_all add: t_def journal_append_def Let_def wf_state_def wf_objs_def)
    ultimately show ?thesis
      using assms wf by (fastforce simp: extends_def wf_state_def wf_revs_def)
  next
    case False
    then have "\<not> x" "al' = sAccessList s"
      using al by (auto simp: AddSlot_def slot_at_def split: option.splits if_splits)
    then have "t = s" using False by (simp add: t_def)
    then show ?thesis using assms by (simp add: extends_refl)
  qed
  with r v al show ?thesis by blast
qed


subsection \<open>The accessors\<close>

definition vbalance :: "state_view \<Rightarrow> address \<Rightarrow> int" where
  "vbalance v a = (case vlive v a of None \<Rightarrow> 0 | Some x \<Rightarrow> vBalance x)"
definition vnonce :: "state_view \<Rightarrow> address \<Rightarrow> u64" where
  "vnonce v a = (case vlive v a of None \<Rightarrow> 0 | Some x \<Rightarrow> vNonce x)"
definition vcodehash :: "state_view \<Rightarrow> address \<Rightarrow> hash" where
  "vcodehash v a = (case vlive v a of None \<Rightarrow> 0 | Some x \<Rightarrow> vCodeHash x)"
definition vcode :: "state_view \<Rightarrow> address \<Rightarrow> bytes option" where
  "vcode v a = (case vlive v a of None \<Rightarrow> None | Some x \<Rightarrow> vCode x)"
definition vstate :: "state_view \<Rightarrow> address \<Rightarrow> hash \<Rightarrow> hash" where
  "vstate v a k = (case vlive v a of None \<Rightarrow> 0 | Some x \<Rightarrow> vState x k)"
definition vcommitted :: "state_view \<Rightarrow> address \<Rightarrow> hash \<Rightarrow> hash" where
  "vcommitted v a k = (case vlive v a of None \<Rightarrow> 0 | Some x \<Rightarrow> vCommitted x k)"

lemma getStateObject_read:
  assumes "wf_state s"
  shows "fst (getStateObject a s) = live s a" "quiet s (snd (getStateObject a s))"
  using getStateObject_spec [of s a "fst (getStateObject a s)" "snd (getStateObject a s)"] assms
  by (simp_all add: wf_state_def)

lemma read_spec:
  assumes "wf_state s" "\<And>so. f so = g (map_option (obj_view (sdb s) (stateObjectsDestruct s)) so)"
    and "(case getStateObject a s of (so, s) \<Rightarrow> (f so, s)) = (x, t)"
  shows "x = g (vlive (view s) a) \<and> quiet s t"
  using getStateObject_read [OF assms(1), of a] assms(2,3) by (auto simp: vlive_view split: prod.splits)

lemma Exist_spec: "wf_state s \<Longrightarrow> Exist a s = (x, t) \<Longrightarrow> x = (vlive (view s) a \<noteq> None) \<and> quiet s t"
  unfolding Exist_def by (erule read_spec) auto

lemma Empty_spec: "wf_state s \<Longrightarrow> Empty a s = (x, t) \<Longrightarrow>
    x = (case vlive (view s) a of None \<Rightarrow> True | Some o1 \<Rightarrow> vempty o1) \<and> quiet s t"
  unfolding Empty_def by (erule read_spec) (auto simp: obj_empty_view split: option.split)

lemma GetBalance_spec: "wf_state s \<Longrightarrow> GetBalance a s = (x, t) \<Longrightarrow> x = vbalance (view s) a \<and> quiet s t"
  unfolding GetBalance_def vbalance_def by (erule read_spec) (auto simp: obj_view_def split: option.split)

lemma GetNonce_spec: "wf_state s \<Longrightarrow> GetNonce a s = (x, t) \<Longrightarrow> x = vnonce (view s) a \<and> quiet s t"
  unfolding GetNonce_def vnonce_def by (erule read_spec) (auto simp: obj_view_def split: option.split)

lemma GetCodeHash_spec: "wf_state s \<Longrightarrow> GetCodeHash a s = (x, t) \<Longrightarrow> x = vcodehash (view s) a \<and> quiet s t"
  unfolding GetCodeHash_def vcodehash_def by (erule read_spec) (auto simp: obj_view_def split: option.split)

lemma HasSuicided_spec: "wf_state s \<Longrightarrow> HasSuicided a s = (x, t) \<Longrightarrow>
    x = (case vlive (view s) a of None \<Rightarrow> False | Some o1 \<Rightarrow> vSuicided o1) \<and> quiet s t"
  unfolding HasSuicided_def by (erule read_spec) (auto simp: obj_view_def split: option.split)

text \<open>Accessors that go on to load a slot or the code of a live object.\<close>

lemma load_spec:
  assumes "wf_state s" "(case getStateObject a s of (Some ob, s) \<Rightarrow> f ob s | (None, s) \<Rightarrow> (z, s)) = (x, t)"
    and "\<And>ob u y t. wf_objs u \<Longrightarrow> stateObjects u (oaddress ob) = Some ob \<Longrightarrow> f ob u = (y, t) \<Longrightarrow>
      y = g (obj_view (sdb u) (stateObjectsDestruct u) ob) \<and> quiet u t"
  shows "x = (case vlive (view s) a of None \<Rightarrow> z | Some o1 \<Rightarrow> g o1) \<and> quiet s t"
proof -
  obtain so u where u: "getStateObject a s = (so, u)" by fastforce
  have sp: "so = live s a" "quiet s u" "\<And>ob. so = Some ob \<Longrightarrow> stateObjects u a = Some ob \<and> oaddress ob = a"
    using getStateObject_spec [OF _ u] assms(1) by (auto simp: wf_state_def)
  note q = quiet_sel [OF sp(2)]
  have wf: "wf_objs u" using sp(2) by (simp add: quiet_def)
  show ?thesis
  proof (cases so)
    case None
    then have "live s a = None" "x = z" "t = u" using sp(1) assms(2) u by auto
    then show ?thesis using sp(2) by (simp add: vlive_view)
  next
    case (Some ob)
    then have l: "live s a = Some ob" and f: "f ob u = (x, t)" using sp(1) assms(2) u by auto
    from assms(3) [OF wf _ f] sp(3) [OF Some] have "x = g (obj_view (sdb u) (stateObjectsDestruct u) ob)" "quiet u t"
      by auto
    then show ?thesis using sp(2) l q by (auto simp: vlive_view intro: quiet_trans)
  qed
qed

lemma GetState_spec: "wf_state s \<Longrightarrow> GetState a k s = (x, t) \<Longrightarrow> x = vstate (view s) a k \<and> quiet s t"
  unfolding GetState_def vstate_def by (erule (1) load_spec) (use obj_GetState_spec in blast)

lemma GetCommittedState_spec:
  "wf_state s \<Longrightarrow> GetCommittedState a k s = (x, t) \<Longrightarrow> x = vcommitted (view s) a k \<and> quiet s t"
  unfolding GetCommittedState_def vcommitted_def
  by (erule (1) load_spec) (use obj_GetCommittedState_spec in \<open>fastforce simp: obj_view_def\<close>)

lemma GetCode_spec: "wf_state s \<Longrightarrow> GetCode a s = (x, t) \<Longrightarrow> x = vcode (view s) a \<and> quiet s t"
  unfolding GetCode_def vcode_def
  by (erule (1) load_spec) (use obj_Code_spec in \<open>fastforce simp: obj_view_def\<close>)

lemma obj_CodeSize_quiet: "wf_objs s \<Longrightarrow> obj_CodeSize ob s = (x, t) \<Longrightarrow> quiet s t"
  by (auto simp: obj_CodeSize_def split: option.splits if_splits prod.splits)

lemma GetCodeSize_quiet:
  assumes "wf_state s" "GetCodeSize a s = (x, t)"
  shows "quiet s t"
proof -
  obtain so u where u: "getStateObject a s = (so, u)" by fastforce
  then have "quiet s u" using getStateObject_read [OF assms(1), of a] by simp
  moreover from this have "quiet u t"
    using assms(2) u obj_CodeSize_quiet [of u] by (cases so) (auto simp: GetCodeSize_def quiet_def)
  ultimately show ?thesis by (rule quiet_trans)
qed

text \<open>Every operation keeps the way back open.\<close>

named_theorems state_steps \<open>operations whose result extends the state they start from\<close>

lemma extends_reads [state_steps]:
  assumes "wf_state s"
  shows "Exist a s = (b, t) \<Longrightarrow> extends s t" "Empty a s = (b, t) \<Longrightarrow> extends s t"
    "GetBalance a s = (x, t) \<Longrightarrow> extends s t" "GetNonce a s = (n, t) \<Longrightarrow> extends s t"
    "GetCodeHash a s = (h, t) \<Longrightarrow> extends s t" "HasSuicided a s = (b, t) \<Longrightarrow> extends s t"
    "GetState a k s = (h, t) \<Longrightarrow> extends s t" "GetCommittedState a k s = (h, t) \<Longrightarrow> extends s t"
    "GetCode a s = (c, t) \<Longrightarrow> extends s t" "GetCodeSize a s = (m, t) \<Longrightarrow> extends s t"
proof -
  note q = extends_quiet [OF assms]
  show "Exist a s = (b, t) \<Longrightarrow> extends s t" using q Exist_spec [OF assms] by blast
  show "Empty a s = (b, t) \<Longrightarrow> extends s t" using q Empty_spec [OF assms] by blast
  show "GetBalance a s = (x, t) \<Longrightarrow> extends s t" using q GetBalance_spec [OF assms] by blast
  show "GetNonce a s = (n, t) \<Longrightarrow> extends s t" using q GetNonce_spec [OF assms] by blast
  show "GetCodeHash a s = (h, t) \<Longrightarrow> extends s t" using q GetCodeHash_spec [OF assms] by blast
  show "HasSuicided a s = (b, t) \<Longrightarrow> extends s t" using q HasSuicided_spec [OF assms] by blast
  show "GetState a k s = (h, t) \<Longrightarrow> extends s t" using q GetState_spec [OF assms] by blast
  show "GetCommittedState a k s = (h, t) \<Longrightarrow> extends s t" using q GetCommittedState_spec [OF assms] by blast
  show "GetCode a s = (c, t) \<Longrightarrow> extends s t" using q GetCode_spec [OF assms] by blast
  show "GetCodeSize a s = (m, t) \<Longrightarrow> extends s t" using q GetCodeSize_quiet [OF assms] by blast
qed

lemma extends_writes [state_steps]:
  assumes "wf_state s"
  shows "extends s (AddBalance a x s)" "extends s (SubBalance a x s)" "extends s (SetBalance a x s)"
    "extends s (SetNonce a n s)" "extends s (SetCode kec a c s)" "extends s (SetState a k h s)"
    "extends s (CreateAccount a s)" "extends s (SetTransientState a k h s)" "extends s (AddLog l s)"
    "extends s (AddPreimage h p s)" "extends s (AddRefund g s)" "extends s (AddAddressToAccessList a s)"
    "Suicide a s = (b, t) \<Longrightarrow> extends s t" "SubRefund g s = Ret t \<Longrightarrow> extends s t"
    "AddSlotToAccessList a k s = Ret t \<Longrightarrow> extends s t"
proof -
  show "extends s (AddBalance a x s)" using AddBalance_spec [OF assms] by blast
  show "extends s (SubBalance a x s)" using SubBalance_spec [OF assms] by blast
  show "extends s (SetBalance a x s)" using SetBalance_spec [OF assms] by blast
  show "extends s (SetNonce a n s)" using SetNonce_spec [OF assms] by blast
  show "extends s (SetCode kec a c s)" using SetCode_spec [OF assms] by blast
  show "extends s (SetState a k h s)" using SetState_spec [OF assms] by blast
  show "extends s (CreateAccount a s)" using CreateAccount_spec [OF assms] by blast
  show "extends s (SetTransientState a k h s)" using SetTransientState_spec [OF assms] by blast
  show "extends s (AddLog l s)" using AddLog_spec [OF assms] by blast
  show "extends s (AddPreimage h p s)" using AddPreimage_spec [OF assms] by blast
  show "extends s (AddRefund g s)" using AddRefund_spec [OF assms] by blast
  show "extends s (AddAddressToAccessList a s)" using AddAddressToAccessList_spec [OF assms] by blast
  show "Suicide a s = (b, t) \<Longrightarrow> extends s t" using Suicide_spec [OF assms] by blast
  show "SubRefund g s = Ret t \<Longrightarrow> extends s t" using SubRefund_spec [OF assms] by blast
  show "AddSlotToAccessList a k s = Ret t \<Longrightarrow> extends s t"
    using AddSlotToAccessList_spec [OF assms, of a k] by auto
qed

section \<open>The contract of a snapshot store\<close>

locale snapshot_store =
  fixes wf :: "'s \<Rightarrow> bool"
    and obs :: "'s \<Rightarrow> 'v"
    and ext :: "'s \<Rightarrow> 's \<Rightarrow> bool"
    and snapshot :: "'s \<Rightarrow> 'i \<times> 's"
    and revert_to :: "'i \<Rightarrow> 's \<Rightarrow> 's go"
  assumes ext_refl: "wf s \<Longrightarrow> ext s s"
    and ext_trans: "ext s t \<Longrightarrow> ext t u \<Longrightarrow> ext s u"
    and ext_wf: "ext s t \<Longrightarrow> wf t"
    and snapshot_ext: "wf s \<Longrightarrow> snapshot s = (i, t) \<Longrightarrow> ext s t"
    and snapshot_obs: "snapshot s = (i, t) \<Longrightarrow> obs t = obs s"
    and revert_restores: "wf s \<Longrightarrow> snapshot s = (i, s1) \<Longrightarrow> ext s1 t \<Longrightarrow>
      \<exists>u. revert_to i t = Ret u \<and> obs u = obs s \<and> ext s u"
begin

lemma snapshot_wf: "wf s \<Longrightarrow> snapshot s = (i, t) \<Longrightarrow> wf t"
  using snapshot_ext ext_wf by blast

lemma revert_returns:
  assumes "wf s" "snapshot s = (i, s1)" "ext s1 t" "revert_to i t = m"
  shows "\<exists>u. m = Ret u \<and> obs u = obs s \<and> ext s u"
  using revert_restores [OF assms(1-3)] assms(4) by simp

text \<open>Work done under a snapshot and kept.\<close>

lemma keep_ext: "wf s \<Longrightarrow> snapshot s = (i, s1) \<Longrightarrow> ext s1 t \<Longrightarrow> ext s t"
  using snapshot_ext ext_trans by blast

text \<open>A snapshot taken inside the work of an outer one can be reverted first.\<close>

lemma nested_revert:
  assumes "wf s" "snapshot s = (i, s1)" "ext s1 s2" "snapshot s2 = (j, s3)" "ext s3 t"
  shows "\<exists>u w. revert_to j t = Ret u \<and> obs u = obs s2 \<and> revert_to i u = Ret w \<and> obs w = obs s"
proof -
  obtain u where u: "revert_to j t = Ret u" "obs u = obs s2" "ext s2 u"
    using revert_restores [OF ext_wf [OF assms(3)] assms(4,5)] by blast
  obtain w where "revert_to i u = Ret w" "obs w = obs s"
    using revert_restores [OF assms(1,2) ext_trans [OF assms(3) u(3)]] by blast
  with u show ?thesis by blast
qed

end

lemma Snapshot_view: "Snapshot s = (i, t) \<Longrightarrow> view t = view s"
  by (auto simp: Snapshot_def Let_def view_def)

interpretation sdb: snapshot_store wf_state view extends Snapshot RevertToSnapshot
proof
  show "\<And>s i s1 t. wf_state s \<Longrightarrow> Snapshot s = (i, s1) \<Longrightarrow> extends s1 t \<Longrightarrow>
      \<exists>u. RevertToSnapshot i t = Ret u \<and> view u = view s \<and> extends s u"
    using RevertToSnapshot_restores by blast
qed (fact extends_refl extends_trans extends_wf Snapshot_extends Snapshot_view)+

end
