(* ===== verification/State_Props.thy ===== *)
theory State_Props
  imports State_Snapshot
begin

text \<open>
  Properties of the world state as its users see it: any sequence of operations, snapshots and
  reverts in between included, is undone by reverting to the snapshot taken before it; a value read
  is the value last written; \<open>Finalise\<close> ends a transaction by committing the dirty slots and removing
  the dead accounts. A sequence of calls on a \<open>StateDB\<close> is a list of \<open>state_op\<close>.
\<close>

section \<open>Sequences of operations\<close>

datatype state_op =
    OpAddBalance address int
  | OpSubBalance address int
  | OpSetBalance address int
  | OpSetNonce address u64
  | OpSetCode address "bytes option"
  | OpSetState address hash hash
  | OpSuicide address
  | OpCreateAccount address
  | OpSetTransientState address hash hash
  | OpAddLog Log
  | OpAddPreimage hash bytes
  | OpAddRefund u64
  | OpSubRefund u64
  | OpAddAddress address
  | OpAddSlot address hash
  | OpGetBalance address
  | OpGetCode address
  | OpGetState address hash
  | OpGetCommittedState address hash
  | OpReverted "state_op list"

fun run_op :: "(bytes \<Rightarrow> hash) \<Rightarrow> state_op \<Rightarrow> StateDB \<Rightarrow> StateDB go"
  and run_ops :: "(bytes \<Rightarrow> hash) \<Rightarrow> state_op list \<Rightarrow> StateDB \<Rightarrow> StateDB go" where
  "run_op kec (OpAddBalance a x) s = Ret (AddBalance a x s)"
| "run_op kec (OpSubBalance a x) s = Ret (SubBalance a x s)"
| "run_op kec (OpSetBalance a x) s = Ret (SetBalance a x s)"
| "run_op kec (OpSetNonce a n) s = Ret (SetNonce a n s)"
| "run_op kec (OpSetCode a c) s = Ret (SetCode kec a c s)"
| "run_op kec (OpSetState a k x) s = Ret (SetState a k x s)"
| "run_op kec (OpSuicide a) s = Ret (snd (Suicide a s))"
| "run_op kec (OpCreateAccount a) s = Ret (CreateAccount a s)"
| "run_op kec (OpSetTransientState a k x) s = Ret (SetTransientState a k x s)"
| "run_op kec (OpAddLog l) s = Ret (AddLog l s)"
| "run_op kec (OpAddPreimage h p) s = Ret (AddPreimage h p s)"
| "run_op kec (OpAddRefund g) s = Ret (AddRefund g s)"
| "run_op kec (OpSubRefund g) s = SubRefund g s"
| "run_op kec (OpAddAddress a) s = Ret (AddAddressToAccessList a s)"
| "run_op kec (OpAddSlot a k) s = AddSlotToAccessList a k s"
| "run_op kec (OpGetBalance a) s = Ret (snd (GetBalance a s))"
| "run_op kec (OpGetCode a) s = Ret (snd (GetCode a s))"
| "run_op kec (OpGetState a k) s = Ret (snd (GetState a k s))"
| "run_op kec (OpGetCommittedState a k) s = Ret (snd (GetCommittedState a k s))"
| "run_op kec (OpReverted ops) s =
     (case Snapshot s of (i, s) \<Rightarrow> go_bind (run_ops kec ops s) (RevertToSnapshot i))"
| "run_ops kec [] s = Ret s"
| "run_ops kec (op # ops) s = go_bind (run_op kec op s) (run_ops kec ops)"

lemma extends_snd:
  assumes "wf_state s"
  shows "extends s (snd (Suicide a s))" "extends s (snd (GetBalance a s))"
    "extends s (snd (GetCode a s))" "extends s (snd (GetState a k s))"
    "extends s (snd (GetCommittedState a k s))"
  using extends_writes(13) [OF assms, OF prod.collapse [symmetric]]
    extends_reads(3) [OF assms, OF prod.collapse [symmetric]]
    extends_reads(7) [OF assms, OF prod.collapse [symmetric]]
    extends_reads(8) [OF assms, OF prod.collapse [symmetric]]
    extends_reads(9) [OF assms, OF prod.collapse [symmetric]] by blast+

lemma run_extends:
  "wf_state s \<Longrightarrow> run_op kec op s = Ret t \<Longrightarrow> extends s t"
  "wf_state s \<Longrightarrow> run_ops kec ops s = Ret t \<Longrightarrow> extends s t"
proof (induction kec op s and kec ops s arbitrary: t and t rule: run_op_run_ops.induct)
  case (20 kec ops s)
  obtain i s1 where s1: "Snapshot s = (i, s1)" by fastforce
  with 20 obtain u where "run_ops kec ops s1 = Ret u" "RevertToSnapshot i u = Ret t" by auto
  moreover from this have "extends s1 u"
    using 20(1) [OF s1 [symmetric] sdb.snapshot_wf [OF 20(2) s1]] by blast
  ultimately show ?case using sdb.revert_returns [OF 20(2) s1] by fastforce
next
  case (21 kec s)
  then show ?case by (simp add: extends_refl)
next
  case (22 kec op ops s)
  then obtain u where u: "run_op kec op s = Ret u" "run_ops kec ops u = Ret t" by auto
  have "extends s u" using 22 u by blast
  moreover from this have "extends u t" using 22(2) [OF u(1)] u(2) by (blast intro: extends_wf)
  ultimately show ?case by (rule extends_trans)
qed (auto intro: extends_writes extends_snd)


text \<open>
  C3: whatever sequence of state operations ran after a snapshot was taken (writes, reads that load
  accounts into the cache, self-destructs, account re-creations, nested snapshots that were reverted),
  \<open>RevertToSnapshot\<close> to that snapshot does not panic and gives back exactly the observable state of
  the moment the snapshot was taken.
\<close>

theorem RevertToSnapshot_restores_view:
  assumes "wf_state s" "Snapshot s = (i, s1)" "run_ops kec ops s1 = Ret t"
  shows "\<exists>u. RevertToSnapshot i t = Ret u \<and> view u = view s"
  using sdb.revert_restores [OF assms(1,2) run_extends(2) [OF sdb.snapshot_wf [OF assms(1,2)] assms(3)]]
  by blast

definition emptyDb :: Database where
  "emptyDb = \<lparr> dbAccount = (\<lambda>_. Inr None), dbStorage = (\<lambda>_ _ _. ReadVal 0 None),
     dbCode = (\<lambda>_ _. (None, None)), dbCodeSize = (\<lambda>_ _. (0, None)) \<rparr>"

lemma sort_search_step:
  "\<not> i < j \<Longrightarrow> sort_search f i j = i"
  "i < j \<Longrightarrow> f ((i + j) div 2) \<Longrightarrow> sort_search f i j = sort_search f i ((i + j) div 2)"
  "i < j \<Longrightarrow> \<not> f ((i + j) div 2) \<Longrightarrow> sort_search f i j = sort_search f ((i + j) div 2 + 1) j"
  by (simp_all add: sort_search.simps [of f i j] Let_def)

lemmas state_eval =
  getDeletedStateObject_def getStateObject_def createObject_def GetOrNewStateObject_def
  obj_GetCommittedState_def obj_GetState_def cached_def obj_SetState_def obj_touch_def
  obj_SetBalance_def obj_AddBalance_def obj_SubBalance_def obj_SetNonce_def obj_setBalance_def
  obj_setNonce_def obj_setState_def markSuicided_def obj_empty_def newObject_def zeroAccount_def
  GetBalance_def GetNonce_def GetState_def Exist_def AddBalance_def SubBalance_def SetNonce_def
  SetState_def Suicide_def AddSlotToAccessList_def AddSlot_def DeleteSlot_def slot_at_def
  DeleteAddress_def newAccessList_def AddAddress_def Snapshot_def RevertToSnapshot_def
  journal_revert_def journal_append_def journal_dirty_def setStateObject_def undirty_def
  with_object_def setErrorOpt_def setError_def ripemd_def sort_search_step Let_def

lemma wf_state_new: "wf_state (newStateDB db)"
  by (simp add: wf_state_def wf_objs_def wf_revs_def newStateDB_def)

definition demo_ops :: "state_op list" where
  "demo_ops = [OpAddBalance 1 5, OpSetState 1 2 3, OpReverted [OpSuicide 1, OpAddSlot 7 8], OpSetNonce 1 9]"

theorem RevertToSnapshot_restores_view_witness:
  "\<exists>i s1 t u. Snapshot (newStateDB emptyDb) = (i, s1) \<and> run_ops (\<lambda>_. 0) demo_ops s1 = Ret t \<and>
     fst (GetBalance 1 t) = 5 \<and> fst (GetNonce 1 t) = 9 \<and>
     RevertToSnapshot i t = Ret u \<and> view u = view (newStateDB emptyDb)"
proof -
  obtain i s1 where s1: "Snapshot (newStateDB emptyDb) = (i, s1)" by fastforce
  have "\<exists>t. run_ops (\<lambda>_. 0) demo_ops s1 = Ret t \<and> fst (GetBalance 1 t) = 5 \<and> fst (GetNonce 1 t) = 9"
    using s1 [symmetric] by (simp add: demo_ops_def newStateDB_def emptyDb_def state_eval)
  with s1 RevertToSnapshot_restores_view [OF wf_state_new s1] show ?thesis by blast
qed

section \<open>Reading back what was written\<close>

lemma vtouch_sel [simp]: "vObjs (vtouch a v) = vObjs v" "vDb (vtouch a v) = vDb v"
  by (simp_all add: vtouch_def)

lemma vlive_vtouch [simp]: "vlive (vtouch a v) b = vlive v b"
  by (simp add: vlive_def)

lemma vlive_vset:
  assumes "\<And>x. vDeleted (f x) = vDeleted x"
  shows "vlive (vset a f v) b = (if b = a then map_option f (vlive v a) else vlive v b)"
  using assms by (auto simp: vlive_def vset_def split: option.split)

lemma vlive_vnew:
  "vlive (vnew a v) b = (if b = a \<and> vlive v a = None
     then Some (new_view (vDb v) (vDestruct (vnew a v)) a) else vlive v b)"
  by (auto simp: vnew_def acreate_def vlive_def new_view_def obj_view_def split: option.split)

lemma new_view_sel [simp]: "vBalance (new_view db D a) = 0" "vNonce (new_view db D a) = 0"
  by (simp_all add: new_view_def obj_view_def newObject_def zeroAccount_def)

lemma vbalance_add: "vbalance (vAddBalance a x (vnew a v)) b = vbalance v b + (if b = a then x else 0)"
  by (auto simp: vbalance_def vAddBalance_def vlive_vset vlive_vnew split: option.splits)

lemma vbalance_sub: "vbalance (vSubBalance a x (vnew a v)) b = vbalance v b - (if b = a then x else 0)"
  by (auto simp: vbalance_def vSubBalance_def vlive_vset vlive_vnew split: option.splits)

lemma vnonce_set: "vnonce (vset a (\<lambda>o1. o1 \<lparr> vNonce := n \<rparr>) (vnew a v)) b = (if b = a then n else vnonce v b)"
  by (auto simp: vnonce_def vlive_vset vlive_vnew split: option.splits)

lemma vstate_set:
  "vlive v a \<noteq> None \<Longrightarrow> vstate (vSetState a k x (vnew a v)) b j = (if b = a \<and> j = k then x else vstate v b j)"
  by (auto simp: vstate_def vSetState_def vlive_vset vlive_vnew vnew_def)
    (auto simp: vlive_def split: option.splits if_splits)

lemma fst_spec:
  assumes "wf_state s"
  shows "fst (GetBalance a s) = vbalance (view s) a" "fst (GetNonce a s) = vnonce (view s) a"
    "fst (GetState a k s) = vstate (view s) a k" "fst (Exist a s) = (vlive (view s) a \<noteq> None)"
    "fst (GetCommittedState a k s) = vcommitted (view s) a k"
  using GetBalance_spec [OF assms, of a "fst (GetBalance a s)" "snd (GetBalance a s)"]
    GetNonce_spec [OF assms, of a "fst (GetNonce a s)" "snd (GetNonce a s)"]
    GetState_spec [OF assms, of a k "fst (GetState a k s)" "snd (GetState a k s)"]
    GetCommittedState_spec [OF assms, of a k "fst (GetCommittedState a k s)" "snd (GetCommittedState a k s)"]
    Exist_spec [OF assms, of a "fst (Exist a s)" "snd (Exist a s)"]
  by simp_all

text \<open>
  a read returns what was last written: after \<open>AddBalance\<close>, \<open>SubBalance\<close>, \<open>SetNonce\<close> and
  \<open>SetState\<close> the written account or slot reads back the new value and every other account and slot
  reads as before (an account that does not exist is created on the way).
\<close>

theorem StateDB_get_after_set:
  assumes "wf_state s"
  shows "fst (GetBalance b (AddBalance a x s)) = fst (GetBalance b s) + (if b = a then x else 0) \<and>
    fst (GetBalance b (SubBalance a x s)) = fst (GetBalance b s) - (if b = a then x else 0) \<and>
    fst (GetNonce b (SetNonce a n s)) = (if b = a then n else fst (GetNonce b s)) \<and>
    (fst (Exist a s) \<longrightarrow>
       fst (GetState b j (SetState a k h s)) = (if b = a \<and> j = k then h else fst (GetState b j s)))"
proof -
  note A = AddBalance_spec [OF assms, of a x] and B = SubBalance_spec [OF assms, of a x]
    and C = SetNonce_spec [OF assms, of a n] and D = SetState_spec [OF assms, of a k h]
  have "wf_state (AddBalance a x s)" "wf_state (SubBalance a x s)" "wf_state (SetNonce a n s)"
    "wf_state (SetState a k h s)"
    using A B C D by (auto intro: extends_wf)
  then show ?thesis
    using A B C D by (simp add: fst_spec assms vbalance_add vbalance_sub vnonce_set vstate_set)
qed

definition demo_state :: StateDB where
  "demo_state = SetNonce 1 9 (SetState 1 2 3 (AddBalance 1 5 (newStateDB emptyDb)))"

lemma wf_demo_state: "wf_state demo_state"
  unfolding demo_state_def
  by (intro extends_wf [OF extends_writes(4)] extends_wf [OF extends_writes(6)] extends_wf [OF extends_writes(1)] wf_state_new)

theorem StateDB_get_after_set_witness:
  "fst (GetBalance 1 (AddBalance 1 37 demo_state)) = 42 \<and>
   fst (GetState 1 2 (SetState 1 2 11 demo_state)) = 11 \<and>
   fst (GetNonce 1 (SetNonce 6 4 demo_state)) = 9"
  using StateDB_get_after_set [OF wf_demo_state, of 1 1 37 9 2 2 11]
    StateDB_get_after_set [OF wf_demo_state, of 1 6 0 4 0 0 0]
  by (simp add: demo_state_def newStateDB_def emptyDb_def state_eval)

section \<open>The end of a transaction\<close>

lemma obj_view_D_cong: "oaddress ob \<in> D' \<longleftrightarrow> oaddress ob \<in> D \<Longrightarrow> obj_view db D' ob = obj_view db D ob"
proof -
  assume "oaddress ob \<in> D' \<longleftrightarrow> oaddress ob \<in> D"
  then have "db_slot db D' (oaddress ob) = db_slot db D (oaddress ob)" by (simp add: db_slot_def fun_eq_iff)
  then show ?thesis by (simp add: obj_view_def committed_value_def)
qed

lemma overlay_add: "overlay (p ++ q) f = overlay q (overlay p f)"
  by (auto simp: overlay_def map_add_def fun_eq_iff split: option.split)

lemma overlay_empty [simp]: "overlay Map.empty f = f"
  by (simp add: overlay_def fun_eq_iff)

lemma obj_view_finalise:
  "obj_view db D (obj_finalise ob) = (obj_view db D ob) \<lparr> vCommitted := vState (obj_view db D ob) \<rparr>"
  by (simp add: obj_view_def obj_finalise_def committed_value_def code_value_def overlay_add)

lemma clearJournalAndRefund_sel [simp]:
  "stateObjects (clearJournalAndRefund s) = stateObjects s" "sdb (clearJournalAndRefund s) = sdb s"
  "stateObjectsDestruct (clearJournalAndRefund s) = stateObjectsDestruct s"
  "jentries (clearJournalAndRefund s) = []" "validRevisions (clearJournalAndRefund s) = []"
  by (auto simp: clearJournalAndRefund_def Let_def)

lemma Finalise_destruct:
  assumes "wf_state s"
  shows "a \<in> stateObjectsDestruct (Finalise d s) \<longleftrightarrow> a \<in> stateObjectsDestruct s \<or>
    (jdirties s a > 0 \<and> (\<exists>ob. stateObjects s a = Some ob \<and> finalise_dead d ob))"
proof -
  have "(\<exists>b ob. (if jdirties s b > 0 then stateObjects s b else None) = Some ob \<and> finalise_dead d ob \<and>
      a = oaddress ob) \<longleftrightarrow> (jdirties s a > 0 \<and> (\<exists>ob. stateObjects s a = Some ob \<and> finalise_dead d ob))"
    using wf_state_address [OF assms] by (auto split: if_splits)
  then show ?thesis by (simp add: Finalise_def Let_def)
qed

lemma Finalise_object:
  "stateObjects (Finalise d s) a = (case stateObjects s a of None \<Rightarrow> None
   | Some ob \<Rightarrow> Some (if jdirties s a = 0 then ob
       else if finalise_dead d ob then ob \<lparr> deleted := True \<rparr> else obj_finalise ob))"
  by (simp add: Finalise_def Let_def split: option.split)

lemma Finalise_sdb [simp]: "sdb (Finalise d s) = sdb s"
  by (simp add: Finalise_def Let_def)

lemma Finalise_live:
  assumes "wf_state s"
  shows "vlive (view (Finalise d s)) a =
    (if jdirties s a = 0 \<or> stateObjects s a = None then vlive (view s) a
     else case vlive (view s) a of None \<Rightarrow> None | Some x \<Rightarrow>
       if vSuicided x \<or> d \<and> vempty x then None else Some (x \<lparr> vCommitted := vState x \<rparr>))"
proof -
  let ?t = "Finalise d s" and ?V = "\<lambda>u. obj_view (sdb s) (stateObjectsDestruct u)"
  have same: "?V ?t ob = ?V s ob" if "oaddress ob = a"
      "\<not> (jdirties s a > 0 \<and> (\<exists>ob. stateObjects s a = Some ob \<and> finalise_dead d ob))" for ob
    using that Finalise_destruct [OF assms, of a d] by (intro obj_view_D_cong) auto
  show ?thesis
  proof (cases "stateObjects s a")
    case None
    then have "stateObjects ?t a = None" by (simp add: Finalise_object)
    moreover have "map_option (?V ?t) (db_object (sdb s) a) = map_option (?V s) (db_object (sdb s) a)"
      using None same by (auto simp: db_object_def split: sum.split option.split)
    ultimately show ?thesis
      using None by (simp add: vlive_def view_sel lookup_in_None)
  next
    case (Some ob)
    have a: "oaddress ob = a" using wf_state_address [OF assms Some] .
    have sel: "vSuicided (?V s ob) = suicided ob" "vDeleted (?V s ob) = deleted ob"
      "vempty (?V s ob) = obj_empty ob"
      using obj_empty_view [of ob] by (simp_all add: obj_view_def)
    have vs: "vlive (view s) a = (if deleted ob then None else Some (?V s ob))"
      using Some by (simp add: vlive_def view_sel sel)
    show ?thesis
    proof (cases "jdirties s a > 0")
      case False
      then have "stateObjects ?t a = Some ob" using Some by (simp add: Finalise_object)
      then show ?thesis
        using Some a False same [of ob] by (simp add: vlive_def view_sel)
    next
      case dirty: True
      show ?thesis
      proof (cases "finalise_dead d ob")
        case True
        then have "stateObjects ?t a = Some (ob \<lparr> deleted := True \<rparr>)"
          using Some dirty by (simp add: Finalise_object)
        then have "vlive (view ?t) a = None" by (simp add: vlive_def view_sel obj_view_def)
        then show ?thesis using True dirty Some vs by (auto simp: finalise_dead_def sel split: option.split)
      next
        case False
        then have t: "stateObjects ?t a = Some (obj_finalise ob)"
          using Some dirty by (simp add: Finalise_object)
        have "?V ?t (obj_finalise ob) = (?V s ob) \<lparr> vCommitted := vState (?V s ob) \<rparr>"
          using same [of "obj_finalise ob"] False Some a by (simp add: obj_view_finalise) (simp add: obj_finalise_def)
        then have "vlive (view ?t) a = (if deleted ob then None else Some ((?V s ob) \<lparr> vCommitted := vState (?V s ob) \<rparr>))"
          using t by (simp add: vlive_def view_sel sel)
        then show ?thesis using False dirty Some vs by (auto simp: finalise_dead_def sel)
      qed
    qed
  qed
qed

text \<open>
  \<open>Finalise\<close> ends the transaction: the journal and all revisions are gone; a touched account
  that self-destructed, or that is empty when empty objects are deleted, no longer exists; of any
  other touched account every slot written becomes the committed value and nothing else changes;
  untouched accounts stay as they are.
\<close>

theorem Finalise_settles:
  assumes "wf_state s"
  shows "jentries (Finalise d s) = [] \<and> validRevisions (Finalise d s) = [] \<and>
    (jdirties s a > 0 \<longrightarrow> stateObjects s a \<noteq> None \<longrightarrow>
       (\<forall>x. vlive (view s) a = Some x \<longrightarrow>
          vlive (view (Finalise d s)) a =
            (if vSuicided x \<or> d \<and> vempty x then None else Some (x \<lparr> vCommitted := vState x \<rparr>)))) \<and>
    (jdirties s a = 0 \<longrightarrow> vlive (view (Finalise d s)) a = vlive (view s) a)"
  using Finalise_live [OF assms, of d a] by (auto simp: Finalise_def Let_def)

theorem Finalise_settles_witness:
  "jentries demo_state \<noteq> [] \<and> jentries (Finalise True demo_state) = [] \<and>
   map_option (\<lambda>x. vCommitted x 2) (vlive (view demo_state) 1) = Some 0 \<and>
   map_option (\<lambda>x. vCommitted x 2) (vlive (view (Finalise True demo_state)) 1) = Some 3"
proof -
  obtain x where x: "vlive (view demo_state) 1 = Some x" "vCommitted x 2 = 0" "vState x 2 = 3"
      "\<not> vSuicided x" "vBalance x = 5"
    by (simp add: demo_state_def newStateDB_def emptyDb_def state_eval)
      (simp add: vlive_def view_sel obj_view_def committed_value_def overlay_def db_slot_def)
  have dirty: "jdirties demo_state 1 > 0" "stateObjects demo_state 1 \<noteq> None" "jentries demo_state \<noteq> []"
    by (simp_all add: demo_state_def newStateDB_def emptyDb_def state_eval)
  show ?thesis
    using Finalise_settles [OF wf_demo_state, of True 1] x dirty by (auto simp: vempty_def)
qed

end
