(* ===== verification/State_Refine.thy ===== *)
theory State_Refine
  imports State_Props
begin

text \<open>
  An abstract specification of the world state: a machine without journal, revisions, object cache or
  storage layers, whose state is the observable state \<open>state_view\<close> and in which reverting to a snapshot
  means going back to the saved value. \<open>StateDB\<close> with its journal implements it.
\<close>

section \<open>The abstract machine\<close>

fun aop :: "(bytes \<Rightarrow> hash) \<Rightarrow> state_op \<Rightarrow> state_view \<Rightarrow> state_view go"
  and aops :: "(bytes \<Rightarrow> hash) \<Rightarrow> state_op list \<Rightarrow> state_view \<Rightarrow> state_view go" where
  "aop kec (OpAddBalance a x) v = Ret (vAddBalance a x (vnew a v))"
| "aop kec (OpSubBalance a x) v = Ret (vSubBalance a x (vnew a v))"
| "aop kec (OpSetBalance a x) v = Ret (vset a (\<lambda>o1. o1 \<lparr> vBalance := x \<rparr>) (vnew a v))"
| "aop kec (OpSetNonce a n) v = Ret (vset a (\<lambda>o1. o1 \<lparr> vNonce := n \<rparr>) (vnew a v))"
| "aop kec (OpSetCode a c) v = Ret (let h = kec (case c of None \<Rightarrow> [] | Some x \<Rightarrow> x) in
     vset a (\<lambda>o1. o1 \<lparr> vCodeHash := h, vCode := code_view (vDb v) a h c \<rparr>) (vnew a v))"
| "aop kec (OpSetState a k x) v = Ret (vSetState a k x (vnew a v))"
| "aop kec (OpSuicide a) v = Ret (if vlive v a \<noteq> None
     then vset a (\<lambda>o1. o1 \<lparr> vSuicided := True, vBalance := 0 \<rparr>) v else v)"
| "aop kec (OpCreateAccount a) v = Ret (case vlive v a of None \<Rightarrow> acreate a v
     | Some x \<Rightarrow> (acreate a v) \<lparr> vObjs := (vObjs v)(a \<mapsto>
         (new_view (vDb v) (insert a (vDestruct v)) a) \<lparr> vBalance := vBalance x \<rparr>) \<rparr>)"
| "aop kec (OpSetTransientState a k x) v =
     Ret (v \<lparr> vTransient := (vTransient v)(a := (vTransient v a)(k := x)) \<rparr>)"
| "aop kec (OpAddLog l) v = Ret (v \<lparr>
     vLogs := (vLogs v)(vThash v := vLogs v (vThash v) @
       [l \<lparr> lTxHash := vThash v, lTxIndex := vTxIndex v, lIndex := vLogSize v \<rparr>]),
     vLogSize := vLogSize v + 1 \<rparr>)"
| "aop kec (OpAddPreimage h p) v =
     Ret (if vPreimages v h = None then v \<lparr> vPreimages := (vPreimages v)(h \<mapsto> p) \<rparr> else v)"
| "aop kec (OpAddRefund g) v = Ret (v \<lparr> vRefund := vRefund v + g \<rparr>)"
| "aop kec (OpSubRefund g) v =
     (if g > vRefund v then Panic ''Refund counter below zero'' else Ret (v \<lparr> vRefund := vRefund v - g \<rparr>))"
| "aop kec (OpAddAddress a) v = Ret (v \<lparr> vAccess := fst (AddAddress (vAccess v) a) \<rparr>)"
| "aop kec (OpAddSlot a k) v =
     go_bind (AddSlot (vAccess v) a k) (\<lambda>(al, x, y). Ret (v \<lparr> vAccess := al \<rparr>))"
| "aop kec (OpGetBalance a) v = Ret v"
| "aop kec (OpGetCode a) v = Ret v"
| "aop kec (OpGetState a k) v = Ret v"
| "aop kec (OpGetCommittedState a k) v = Ret v"
| "aop kec (OpReverted ops) v = go_bind (aops kec ops v) (\<lambda>_. Ret v)"
| "aops kec [] v = Ret v"
| "aops kec (op # ops) v = go_bind (aop kec op v) (aops kec ops)"

section \<open>Refinement\<close>

definition go_map :: "('a \<Rightarrow> 'b) \<Rightarrow> 'a go \<Rightarrow> 'b go" where
  "go_map f m = go_bind m (\<lambda>x. Ret (f x))"

lemma go_map_simps [simp]: "go_map f (Ret x) = Ret (f x)" "go_map f (Panic e) = Panic e" "go_map f NoFuel = NoFuel"
  by (simp_all add: go_map_def)

lemma counters_view:
  "view (AddLog l s) = (view s) \<lparr>
     vLogs := (vLogs (view s))(vThash (view s) := vLogs (view s) (vThash (view s)) @
       [l \<lparr> lTxHash := vThash (view s), lTxIndex := vTxIndex (view s), lIndex := vLogSize (view s) \<rparr>]),
     vLogSize := vLogSize (view s) + 1 \<rparr>"
  "view (AddPreimage h p s) =
     (if vPreimages (view s) h = None then (view s) \<lparr> vPreimages := (vPreimages (view s))(h \<mapsto> p) \<rparr> else view s)"
  "view (AddRefund g s) = (view s) \<lparr> vRefund := vRefund (view s) + g \<rparr>"
  by (simp_all add: AddLog_def AddPreimage_def AddRefund_def journal_append_def view_def Let_def fun_eq_iff)

lemma SubRefund_view:
  "go_map view (SubRefund g s) =
     (if g > vRefund (view s) then Panic ''Refund counter below zero'' else Ret ((view s) \<lparr> vRefund := vRefund (view s) - g \<rparr>))"
  by (simp add: SubRefund_def journal_append_def view_def Let_def)

lemma AddSlot_view:
  assumes "wf_state s"
  shows "go_map view (AddSlotToAccessList a k s) =
    go_bind (AddSlot (vAccess (view s)) a k) (\<lambda>(al, x, y). Ret ((view s) \<lparr> vAccess := al \<rparr>))"
  using AddSlotToAccessList_spec [OF assms, of a k] by auto

lemma reads_view:
  assumes "wf_state s"
  shows "view (snd (GetBalance a s)) = view s" "view (snd (GetCode a s)) = view s"
    "view (snd (GetState a k s)) = view s" "view (snd (GetCommittedState a k s)) = view s"
  using GetBalance_spec [OF assms, OF prod.collapse [symmetric]] GetCode_spec [OF assms, OF prod.collapse [symmetric]]
    GetState_spec [OF assms, OF prod.collapse [symmetric]] GetCommittedState_spec [OF assms, OF prod.collapse [symmetric]]
  by (auto simp: quiet_def)

lemma writes_view:
  assumes "wf_state s"
  shows "aop kec (OpAddBalance a x) (view s) = Ret (view (AddBalance a x s))"
    "aop kec (OpSubBalance a x) (view s) = Ret (view (SubBalance a x s))"
    "aop kec (OpSetBalance a x) (view s) = Ret (view (SetBalance a x s))"
    "aop kec (OpSetNonce a n) (view s) = Ret (view (SetNonce a n s))"
    "aop kec (OpSetCode a c) (view s) = Ret (view (SetCode kec a c s))"
    "aop kec (OpSetState a k y) (view s) = Ret (view (SetState a k y s))"
    "aop kec (OpSuicide a) (view s) = Ret (view (snd (Suicide a s)))"
    "aop kec (OpCreateAccount a) (view s) = Ret (view (CreateAccount a s))"
    "aop kec (OpSetTransientState a k y) (view s) = Ret (view (SetTransientState a k y s))"
    "aop kec (OpAddAddress a) (view s) = Ret (view (AddAddressToAccessList a s))"
  using AddBalance_spec [OF assms, of a x] SubBalance_spec [OF assms, of a x] SetBalance_spec [OF assms, of a x]
    SetNonce_spec [OF assms, of a n] SetCode_spec [OF assms, of kec a c] SetState_spec [OF assms, of a k y]
    Suicide_spec [OF assms, OF prod.collapse [symmetric], of a] CreateAccount_spec [OF assms, of a]
    SetTransientState_spec [OF assms, of a k y] AddAddressToAccessList_spec [OF assms, of a]
  by (simp_all add: view_sel cong: option.case_cong)

lemma run_refines:
  "wf_state s \<Longrightarrow> go_map view (run_op kec op s) = aop kec op (view s)"
  "wf_state s \<Longrightarrow> go_map view (run_ops kec ops s) = aops kec ops (view s)"
proof (induction kec op s and kec ops s rule: run_op_run_ops.induct)
  case (20 kec ops s)
  obtain i s1 where s1: "Snapshot s = (i, s1)" by fastforce
  have wf1: "wf_state s1" using sdb.snapshot_wf [OF 20(2) s1] .
  have ih: "go_map view (run_ops kec ops s1) = aops kec ops (view s)"
    using 20(1) [OF s1 [symmetric] wf1] Snapshot_view [OF s1] by simp
  show ?case
  proof (cases "run_ops kec ops s1")
    case (Ret u)
    obtain w where "RevertToSnapshot i u = Ret w" "view w = view s"
      using sdb.revert_restores [OF 20(2) s1 run_extends(2) [OF wf1 Ret]] by blast
    moreover have "aops kec ops (view s) = Ret (view u)" using ih Ret by simp
    ultimately show ?thesis using s1 Ret by simp
  qed (use ih s1 in \<open>simp_all add: ih [symmetric]\<close>)
next
  case (22 kec op ops s)
  show ?case
  proof (cases "run_op kec op s")
    case (Ret u)
    then show ?thesis using 22 run_extends(1) [OF 22(3) Ret] by (simp add: 22(1) [symmetric] extends_wf)
  qed (use 22 in \<open>simp_all add: 22(1) [symmetric]\<close>)
qed (simp_all only: run_op.simps run_ops.simps go_map_simps writes_view,
    simp_all only: aop.simps aops.simps reads_view counters_view SubRefund_view AddSlot_view)

text \<open>
  C5: the journaled \<open>StateDB\<close> refines the abstract machine. For every sequence of operations, with snapshots
  reverted anywhere in it, the observable state it reaches is the one the abstract machine computes, in
  which a reverted block is the identity; and it panics exactly when, and with the message with which, the
  abstract machine does (only the refund counter can).
\<close>

theorem StateDB_refines:
  assumes "wf_state s"
  shows "go_map view (run_ops kec ops s) = aops kec ops (view s)"
  using run_refines(2) [OF assms] .

theorem StateDB_refines_witness:
  "go_map view (run_ops (\<lambda>_. 0) [OpAddBalance 1 5, OpReverted [OpSuicide 1, OpSetState 1 2 3], OpSubRefund 1] (newStateDB emptyDb)) =
   Panic ''Refund counter below zero''"
proof -
  have "vRefund (view (newStateDB emptyDb)) = 0" by (simp add: view_def newStateDB_def)
  then show ?thesis unfolding StateDB_refines [OF wf_state_new]
    by (simp add: vAddBalance_def vset_def vnew_def acreate_def vdirty_def vtouch_def split: option.split)
qed

end
