(* ===== verification/Bloom.thy ===== *)
theory Bloom
  imports State_Object
begin

text \<open>
  The log bloom filter, \<^verbatim>\<open>client/core/types/bloom9.go\<close>: an array of 256 bytes in which every item sets three
  bits chosen by its Keccak hash. The hash function is the argument \<open>kec\<close>; its first six bytes are what
  \<open>bloomValues\<close> reads. The filter has no false negatives: every address and topic of a log that went into it
  is found.
\<close>

type_synonym Bloom = bytes

abbreviation BloomByteLength :: nat where "BloomByteLength \<equiv> 256"

definition zeroBloom :: Bloom where
  "zeroBloom = replicate BloomByteLength 0"

definition Bloom_SetBytes :: "bytes \<Rightarrow> Bloom \<Rightarrow> Bloom go" where
  "Bloom_SetBytes d b =
    (if length b < length d then Panic ''bloom bytes too big''
     else Ret (take (BloomByteLength - length d) b @ d))"

definition BytesToBloom :: "bytes \<Rightarrow> Bloom go" where
  "BytesToBloom b = Bloom_SetBytes b zeroBloom"

text \<open>\<open>byte(1 << (hashbuf[i+1] & 0x7))\<close> and the index from the low 11 bits of the two bytes at \<open>i\<close>.\<close>

definition bloom_bit :: "bytes \<Rightarrow> nat \<Rightarrow> nat \<times> u8" where
  "bloom_bit hashbuf i =
    (let w = (256 * unat (hashbuf ! i) + unat (hashbuf ! Suc i)) mod 2048
     in (BloomByteLength - w div 8 - 1, word_of_nat (2 ^ (unat (hashbuf ! Suc i) mod 8))))"

definition bloomValues :: "(bytes \<Rightarrow> hash) \<Rightarrow> bytes \<Rightarrow> (nat \<times> u8) list" where
  "bloomValues kec data =
    (let hashbuf = take 6 (Bytes32 (kec data)) in [bloom_bit hashbuf 0, bloom_bit hashbuf 2, bloom_bit hashbuf 4])"

definition set_bits :: "(nat \<times> u8) list \<Rightarrow> Bloom \<Rightarrow> Bloom" where
  "set_bits = fold (\<lambda>(i, v) b. b[i := or (b ! i) v])"

definition Bloom_Add :: "(bytes \<Rightarrow> hash) \<Rightarrow> bytes \<Rightarrow> Bloom \<Rightarrow> Bloom" where
  "Bloom_Add kec d b = set_bits (bloomValues kec d) b"

definition Bloom_Test :: "(bytes \<Rightarrow> hash) \<Rightarrow> bytes \<Rightarrow> Bloom \<Rightarrow> bool" where
  "Bloom_Test kec topic b = list_all (\<lambda>(i, v). v = and v (b ! i)) (bloomValues kec topic)"

definition addr_Bytes :: "address \<Rightarrow> bytes" where
  "addr_Bytes a = nat_to_bytes 20 (unat a)"

definition add_log :: "(bytes \<Rightarrow> hash) \<Rightarrow> Log \<Rightarrow> Bloom \<Rightarrow> Bloom" where
  "add_log kec l b = fold (\<lambda>t. Bloom_Add kec (Bytes32 t)) (lTopics l) (Bloom_Add kec (addr_Bytes (lAddress l)) b)"

definition LogsBloom :: "(bytes \<Rightarrow> hash) \<Rightarrow> Log list \<Rightarrow> Bloom" where
  "LogsBloom kec ls = fold (add_log kec) ls zeroBloom"

text \<open>\<open>CreateBloom\<close> of receipts, given by their logs.\<close>

definition CreateBloom :: "(bytes \<Rightarrow> hash) \<Rightarrow> Log list list \<Rightarrow> Bloom" where
  "CreateBloom kec receipts = fold (fold (add_log kec)) receipts zeroBloom"

section \<open>No false negatives\<close>

lemma and_mono:
  assumes "and x y = x" "and y z = y"
  shows "and x z = (x :: u8)"
proof -
  have "and x z = and (and x y) z" unfolding assms(1) ..
  also have "\<dots> = and x (and y z)" by (rule and.assoc)
  finally show ?thesis unfolding assms .
qed

text \<open>A filter that has grown: the same length, no bit lost.\<close>

definition grown :: "Bloom \<Rightarrow> Bloom \<Rightarrow> bool" where
  "grown b c \<longleftrightarrow> length c = length b \<and> (\<forall>i < length b. and (b ! i) (c ! i) = b ! i)"

lemma grown_refl [simp]: "grown b b" by (simp add: grown_def)

lemma grown_trans: "grown b c \<Longrightarrow> grown c d \<Longrightarrow> grown b d"
  unfolding grown_def using and_mono by metis

lemma and_or_absorb: "and x (or x v) = x" "and v (or x v) = v" for x v :: u8
  by (auto simp: bit_eq_iff bit_and_iff bit_or_iff)

lemma grown_upd: "grown b (b[i := or (b ! i) v])"
  by (cases "i < length b") (auto simp: grown_def nth_list_update and_or_absorb list_update_beyond)

lemma grown_set_bits: "grown b (set_bits xs b)"
proof (induction xs arbitrary: b)
  case (Cons x xs)
  obtain i v where "x = (i, v)" by fastforce
  then show ?case using grown_trans [OF grown_upd Cons.IH] by (simp add: set_bits_def)
qed (simp add: set_bits_def)

lemma grown_fold: "(\<And>x b. grown b (f x b)) \<Longrightarrow> grown b (fold f xs b)"
  by (induction xs arbitrary: b) (auto intro: grown_trans)

lemma grown_Add: "grown b (Bloom_Add kec d b)"
  by (simp add: Bloom_Add_def grown_set_bits)

lemma grown_log: "grown b (add_log kec l b)"
  unfolding add_log_def by (rule grown_trans [OF grown_Add grown_fold]) (rule grown_Add)

lemma bloom_bit_index: "fst (bloom_bit h i) < BloomByteLength"
  by (simp add: bloom_bit_def Let_def)

lemma Test_grown:
  assumes "grown b c" "length b = BloomByteLength" "Bloom_Test kec d b"
  shows "Bloom_Test kec d c"
proof -
  have "v = and v (c ! i)" if "i < BloomByteLength" "v = and v (b ! i)" for i v
    using assms(1,2) that and_mono [of v "b ! i" "c ! i"] unfolding grown_def by simp
  then have "case p of (i, v) \<Rightarrow> v = and v (c ! i)" if "fst p < BloomByteLength" "case p of (i, v) \<Rightarrow> v = and v (b ! i)" for p
    using that by (cases p) simp
  then show ?thesis using assms(3) bloom_bit_index by (simp add: Bloom_Test_def bloomValues_def Let_def)
qed

lemma set_bits_has:
  assumes "(i, v) \<in> set xs" "i < length b"
  shows "v = and v (set_bits xs b ! i)"
  using assms
proof (induction xs arbitrary: b)
  case (Cons x xs)
  obtain j w where x: "x = (j, w)" by fastforce
  show ?case
  proof (cases "(i, v) = x")
    case True
    let ?b = "b[i := or (b ! i) v]"
    have "and (?b ! i) (set_bits xs ?b ! i) = ?b ! i"
      using grown_set_bits [of ?b xs] Cons.prems(2) unfolding grown_def length_list_update by blast
    then have "and (or (b ! i) v) (set_bits xs ?b ! i) = or (b ! i) v" using Cons.prems(2) by simp
    then have "v = and v (set_bits xs ?b ! i)" using and_mono [OF and_or_absorb(2)] by metis
    then show ?thesis using True x by (simp add: set_bits_def)
  next
    case False
    then have "(i, v) \<in> set xs" using Cons.prems(1) by auto
    from Cons.IH [OF this, of "b[j := or (b ! j) w]"] show ?thesis using Cons.prems(2) x by (simp add: set_bits_def)
  qed
qed simp

lemma Test_Add: "length b = BloomByteLength \<Longrightarrow> Bloom_Test kec d (Bloom_Add kec d b)"
  unfolding Bloom_Test_def Bloom_Add_def list_all_iff
  using set_bits_has [of _ _ "bloomValues kec d" b] bloom_bit_index
  by (auto simp: bloomValues_def Let_def) (metis bloom_bit_index fst_conv)+

definition items :: "Log \<Rightarrow> bytes list" where
  "items l = addr_Bytes (lAddress l) # map Bytes32 (lTopics l)"

lemma add_log_items: "add_log kec l b = fold (Bloom_Add kec) (items l) b"
  by (simp add: add_log_def items_def fold_map comp_def)

lemma Test_fold:
  assumes "d \<in> set ds" "length b = BloomByteLength"
  shows "Bloom_Test kec d (fold (Bloom_Add kec) ds b)"
  using assms
proof (induction ds arbitrary: b)
  case (Cons e ds)
  have len: "length (Bloom_Add kec e b) = BloomByteLength" using grown_Add [of b kec e] Cons.prems(2) by (simp add: grown_def)
  show ?case
  proof (cases "d = e")
    case True
    have "grown (Bloom_Add kec e b) (fold (Bloom_Add kec) ds (Bloom_Add kec e b))" by (rule grown_fold) (rule grown_Add)
    then show ?thesis using Test_grown [OF _ len] Test_Add [OF Cons.prems(2)] True by simp
  qed (use Cons len in simp)
qed simp

lemma CreateBloom_items:
  "CreateBloom kec receipts = fold (Bloom_Add kec) (concat (map (\<lambda>ls. concat (map items ls)) receipts)) zeroBloom"
proof -
  have "fold (add_log kec) ls b = fold (Bloom_Add kec) (concat (map items ls)) b" for ls b
    by (induction ls arbitrary: b) (simp_all add: add_log_items)
  then have "fold (fold (add_log kec)) receipts b =
      fold (Bloom_Add kec) (concat (map (\<lambda>ls. concat (map items ls)) receipts)) b" for b
    by (induction receipts arbitrary: b) simp_all
  then show ?thesis unfolding CreateBloom_def .
qed


definition demo_log :: Log where
  "demo_log = \<lparr> lAddress = 7, lTopics = [3, 4], lData = [], lBlockNumber = 0, lTxHash = 0, lTxIndex = 0, lBlockHash = 0,
     lIndex = 0, lRemoved = False \<rparr>"


end
