(* ===== verification/VM_Base.thy ===== *)
theory VM_Base
  imports Params
begin

text \<open>
  The value-level parts of the virtual machine: its errors (\<^verbatim>\<open>client/core/vm/errors.go\<close>), the stack
  (\<^verbatim>\<open>stack.go\<close>, \<^verbatim>\<open>stack_table.go\<close>), the memory (\<^verbatim>\<open>memory.go\<close>), and the size and gas helpers of
  \<^verbatim>\<open>common.go\<close> and \<^verbatim>\<open>gas.go\<close>.

  Conventions: a stack is a list with its top first (the code appends at the end of a slice); an
  index out of range is \<open>Panic\<close>. A slice expression beyond the length of a slice is a panic here even
  where Go would allow it up to the capacity. \<open>uint256.Int\<close> is a 256-bit word with wrap-around.

  Facts: memory reads return what was written and a resized memory has a length that is large enough
  for them; \<open>toWordSize\<close> is the rounded-up quotient; \<open>calcMemSize64\<close> is exact unless it reports an
  overflow; the all-but-one-64th rule of \<open>callGas\<close>.
\<close>

section \<open>Errors\<close>

datatype vmErr =
    ErrOutOfGas
  | ErrCodeStoreOutOfGas
  | ErrDepth
  | ErrInsufficientBalance
  | ErrContractAddressCollision
  | ErrExecutionReverted
  | ErrMaxInitCodeSizeExceeded
  | ErrMaxCodeSizeExceeded
  | ErrInvalidJump
  | ErrWriteProtection
  | ErrReturnDataOutOfBounds
  | ErrGasUintOverflow
  | ErrInvalidCode
  | ErrNonceUintOverflow
  | errStopToken
  | ErrStackUnderflow int int
  | ErrStackOverflow int int
  | ErrInvalidOpCode u8
  | ErrOther string

section \<open>Stack\<close>

type_synonym vmStack = "u256 list"

abbreviation stackPanic :: "'a go" where
  "stackPanic \<equiv> Panic ''stack: index out of range''"

definition push :: "u256 \<Rightarrow> vmStack \<Rightarrow> vmStack" where
  "push d st = d # st"

definition Back :: "vmStack \<Rightarrow> nat \<Rightarrow> u256 go" where
  "Back st n = (if n < length st then Ret (st ! n) else stackPanic)"

definition dup :: "nat \<Rightarrow> vmStack \<Rightarrow> vmStack go" where
  "dup n st = (if 0 < n \<and> n \<le> length st then Ret (push (st ! (n - 1)) st) else stackPanic)"

definition swap :: "nat \<Rightarrow> vmStack \<Rightarrow> vmStack go" where
  "swap n st =
    (if 0 < n \<and> n \<le> length st then Ret (st[0 := st ! (n - 1), n - 1 := st ! 0]) else stackPanic)"

text \<open>The stack bounds of an operation that pops and pushes the given numbers of items.\<close>

definition maxStack :: "int \<Rightarrow> int \<Rightarrow> int" where
  "maxStack pop psh = uint StackLimit + pop - psh"

definition minStack :: "int \<Rightarrow> int \<Rightarrow> int" where
  "minStack pops psh = pops"

definition minSwapStack :: "int \<Rightarrow> int" where "minSwapStack n = minStack n n"
definition maxSwapStack :: "int \<Rightarrow> int" where "maxSwapStack n = maxStack n n"
definition minDupStack :: "int \<Rightarrow> int" where "minDupStack n = minStack n (n + 1)"
definition maxDupStack :: "int \<Rightarrow> int" where "maxDupStack n = maxStack n (n + 1)"

lemmas stack_bound_defs = maxStack_def minStack_def minSwapStack_def maxSwapStack_def
  minDupStack_def maxDupStack_def

lemma Back_Ret [simp]: "n < length st \<Longrightarrow> Back st n = Ret (st ! n)"
  by (simp add: Back_def)

lemma length_dup: "dup n st = Ret st' \<Longrightarrow> length st' = Suc (length st)"
  by (auto simp: dup_def push_def split: if_splits)

lemma length_swap: "swap n st = Ret st' \<Longrightarrow> length st' = length st"
  by (auto simp: swap_def split: if_splits)

section \<open>Memory\<close>

record Memory =
  mstore :: bytes
  lastGasCost :: u64

definition NewMemory :: Memory where
  "NewMemory = \<lparr> mstore = [], lastGasCost = 0 \<rparr>"

definition mem_Len :: "Memory \<Rightarrow> nat" where
  "mem_Len m = length (mstore m)"

abbreviation memPanic :: "'a go" where
  "memPanic \<equiv> Panic ''memory: index out of range''"

text \<open>\<open>copy(store[lo:], v)\<close> for data that fits.\<close>

definition overwrite :: "bytes \<Rightarrow> nat \<Rightarrow> bytes \<Rightarrow> bytes" where
  "overwrite s lo v = take lo s @ v @ drop (lo + length v) s"

lemma length_overwrite [simp]: "lo + length v \<le> length s \<Longrightarrow> length (overwrite s lo v) = length s"
  by (simp add: overwrite_def)

definition mem_Set :: "u64 \<Rightarrow> u64 \<Rightarrow> bytes \<Rightarrow> Memory \<Rightarrow> Memory go" where
  "mem_Set offset sz value m =
    (if sz > 0
     then if offset + sz > len64 (mstore m) then Panic ''invalid memory: store empty''
          else if offset + sz < offset then memPanic
          else Ret (m \<lparr> mstore := overwrite (mstore m) (unat offset) (take (unat sz) value) \<rparr>)
     else Ret m)"

text \<open>
  \<open>Set32\<close> checks \<open>offset + 32\<close> with wrap-around; \<open>copy\<close> then writes at most what fits behind
  \<open>offset\<close>.
\<close>

definition mem_Set32 :: "u64 \<Rightarrow> u256 \<Rightarrow> Memory \<Rightarrow> Memory go" where
  "mem_Set32 offset val m =
    (if offset + 32 > len64 (mstore m) then Panic ''invalid memory: store empty''
     else if unat offset > mem_Len m then memPanic
     else Ret (m \<lparr> mstore := overwrite (mstore m) (unat offset)
                               (take (mem_Len m - unat offset) (Bytes32 val)) \<rparr>))"

definition mem_Resize :: "u64 \<Rightarrow> Memory \<Rightarrow> Memory" where
  "mem_Resize sz m =
    (if len64 (mstore m) < sz
     then m \<lparr> mstore := mstore m @ replicate (unat (sz - len64 (mstore m))) 0 \<rparr> else m)"

text \<open>
  \<open>GetPtr\<close> and \<open>GetCopy\<close> take their arguments as \<open>int64\<close> conversions of \<open>uint64\<close> values, so a value
  above \<open>2^63 - 1\<close> is negative.
\<close>

definition mem_slice :: "bytes \<Rightarrow> int \<Rightarrow> int \<Rightarrow> bytes go" where
  "mem_slice s lo hi =
    (if 0 \<le> lo \<and> lo \<le> hi \<and> hi \<le> int (length s) then Ret (take (nat (hi - lo)) (drop (nat lo) s))
     else memPanic)"

definition GetPtr :: "u64 \<Rightarrow> u64 \<Rightarrow> Memory \<Rightarrow> bytes go" where
  "GetPtr offset sz m =
    (if sz = 0 then Ret []
     else if int (mem_Len m) > sint offset then mem_slice (mstore m) (sint offset) (sint (offset + sz))
     else Ret [])"

definition GetCopy :: "u64 \<Rightarrow> u64 \<Rightarrow> Memory \<Rightarrow> bytes go" where
  "GetCopy offset sz m =
    (if sz = 0 then Ret []
     else if int (mem_Len m) > sint offset
     then (if sint sz < 0 then Panic ''makeslice: len out of range''
           else mem_slice (mstore m) (sint offset) (sint (offset + sz)))
     else Ret [])"

text \<open>A region that lies within the memory, as the resize before an instruction guarantees.\<close>

definition mem_covers :: "Memory \<Rightarrow> u64 \<Rightarrow> u64 \<Rightarrow> bool" where
  "mem_covers m off sz \<longleftrightarrow> mem_Len m < 2 ^ 63 \<and> (sz = 0 \<or> unat off + unat sz \<le> mem_Len m)"

lemma unat_uint_less: "unat (x :: u64) < n \<Longrightarrow> uint x < int n"
  by (simp only: uint_nat of_nat_less_iff)

lemma covers_words:
  assumes "mem_covers m off sz" "sz \<noteq> 0"
  shows "sint off = uint off" "sint (off + sz) = uint off + uint sz"
    "unat (off + sz) = unat off + unat sz" "unat off < mem_Len m" "0 < unat sz" "0 \<le> sint sz"
    "uint off + uint sz \<le> int (mem_Len m)" "uint off < int (mem_Len m)"
proof -
  have le: "unat off + unat sz \<le> mem_Len m" and lt: "mem_Len m < 2 ^ 63"
    using assms by (auto simp: mem_covers_def)
  show sum: "unat (off + sz) = unat off + unat sz"
    using le lt by (simp add: unat_word_ariths)
  show "0 < unat sz" using assms(2) by (simp add: unat_gt_0)
  then show off: "unat off < mem_Len m" using le by simp
  have s: "sint x = uint x" if "unat x \<le> mem_Len m" for x :: u64
    using that lt unat_uint_less [of x "2 ^ 63"] by (intro sint_u64_small) simp
  show "sint off = uint off" using le by (intro s) simp
  have "uint (off + sz) = uint off + uint sz" using sum by (simp only: uint_nat of_nat_add)
  then show "sint (off + sz) = uint off + uint sz" using s [of "off + sz"] le sum by simp
  have "int (unat off + unat sz) \<le> int (mem_Len m)" using le by (simp only: of_nat_le_iff)
  then show "uint off + uint sz \<le> int (mem_Len m)" by simp
  show "uint off < int (mem_Len m)" using unat_uint_less [OF off] .
  have "sint sz = uint sz" using le by (intro s) simp
  then show "0 \<le> sint sz" by simp
qed

lemma GetPtr_covers:
  "mem_covers m off sz \<Longrightarrow> GetPtr off sz m = Ret (take (unat sz) (drop (unat off) (mstore m)))"
  using covers_words [of m off sz]
  by (cases "sz = 0") (auto simp: GetPtr_def mem_slice_def mem_Len_def)

lemma GetCopy_covers: "mem_covers m off sz \<Longrightarrow> GetCopy off sz m = GetPtr off sz m"
  using covers_words(6) [of m off sz] by (cases "sz = 0") (auto simp: GetCopy_def GetPtr_def)

lemma unat_len64_mem: "mem_Len m < 2 ^ 63 \<Longrightarrow> unat (len64 (mstore m)) = mem_Len m"
  by (simp add: mem_Len_def unat_len64)

lemma mem_Set_covers:
  assumes "mem_covers m off sz"
  shows "\<exists>m'. mem_Set off sz v m = Ret m' \<and> mem_Len m' = mem_Len m \<and> lastGasCost m' = lastGasCost m"
proof (cases "sz = 0")
  case False
  note w = covers_words [OF assms False]
  have "unat off + unat sz \<le> mem_Len m" "mem_Len m < 2 ^ 63"
    using assms False by (auto simp: mem_covers_def)
  then have "\<not> off + sz > len64 (mstore m)" "\<not> off + sz < off"
    "unat off + length (take (unat sz) v) \<le> length (mstore m)"
    using w(3) by (auto simp: word_less_nat_alt unat_len64_mem mem_Len_def [symmetric])
  then show ?thesis using False by (auto simp: mem_Set_def mem_Len_def word_gt_0)
qed (auto simp: mem_Set_def)

lemma mem_Set32_covers:
  assumes "mem_covers m off 32"
  shows "\<exists>m'. mem_Set32 off v m = Ret m' \<and> mem_Len m' = mem_Len m \<and> lastGasCost m' = lastGasCost m \<and>
    mstore m' = overwrite (mstore m) (unat off) (Bytes32 v)"
proof -
  note w = covers_words [OF assms]
  have "unat off + 32 \<le> mem_Len m" "mem_Len m < 2 ^ 63" using assms by (auto simp: mem_covers_def)
  then have "\<not> off + 32 > len64 (mstore m)" "\<not> unat off > mem_Len m"
    "take (mem_Len m - unat off) (Bytes32 v) = Bytes32 v"
    using w(3) by (auto simp: word_less_nat_alt unat_len64_mem)
  then show ?thesis using \<open>unat off + 32 \<le> mem_Len m\<close> by (auto simp: mem_Set32_def mem_Len_def)
qed

lemma mem_Resize_Len:
  assumes "mem_Len m < 2 ^ 63"
  shows "mem_Len (mem_Resize sz m) = max (mem_Len m) (unat sz)"
  using assms unat_len64_mem [OF assms]
  by (auto simp: mem_Resize_def mem_Len_def word_less_nat_alt unat_sub_u64 u64_le_iff)

lemma mem_roundtrip32:
  assumes "mem_covers m off 32" "mem_Set32 off v m = Ret m'"
  shows "GetPtr off 32 m' = Ret (Bytes32 v)"
proof -
  have m': "mem_Len m' = mem_Len m" "mstore m' = overwrite (mstore m) (unat off) (Bytes32 v)"
    using mem_Set32_covers [OF assms(1), of v] assms(2) by auto
  then have "mem_covers m' off 32" using assms(1) by (simp add: mem_covers_def)
  moreover have "unat off \<le> length (mstore m)" using assms(1) by (simp add: mem_covers_def mem_Len_def)
  ultimately show ?thesis using m' by (simp add: GetPtr_covers overwrite_def)
qed

section \<open>Sizes\<close>

definition calcMemSize64WithUint :: "u256 \<Rightarrow> u64 \<Rightarrow> u64 \<times> bool" where
  "calcMemSize64WithUint off length64 =
    (if length64 = 0 then (0, False)
     else case Uint64WithOverflow off of (offset64, overflow) \<Rightarrow>
       if overflow then (0, True)
       else let val = offset64 + length64 in (val, val < offset64))"

definition calcMemSize64 :: "u256 \<Rightarrow> u256 \<Rightarrow> u64 \<times> bool" where
  "calcMemSize64 off l =
    (if \<not> IsUint64 l then (0, True) else calcMemSize64WithUint off (Uint64 l))"

definition getData :: "bytes \<Rightarrow> u64 \<Rightarrow> u64 \<Rightarrow> bytes go" where
  "getData data start sz =
    (let l = len64 data;
         start = (if start > l then l else start);
         end = start + sz;
         end = (if end > l then l else end)
     in if start \<le> end then Ret (RightPadBytes (take (unat (end - start)) (drop (unat start) data)) (nat (sint sz)))
        else Panic ''slice bounds out of range'')"

definition toWordSize :: "u64 \<Rightarrow> u64" where
  "toWordSize sz = (if sz > MaxUint64 - 31 then MaxUint64 div 32 + 1 else (sz + 31) div 32)"

definition allZero :: "bytes \<Rightarrow> bool" where
  "allZero b = list_all (\<lambda>x. x = 0) b"

lemma toWordSize_exact: "unat (toWordSize sz) = (unat sz + 31) div 32"
proof (cases "sz > MaxUint64 - 31")
  case True
  then have "18446744073709551584 < unat sz" "unat sz < 18446744073709551616"
    by (simp_all add: word_less_nat_alt)
  then have "(unat sz + 31) div 32 = 576460752303423488" by linarith
  with True show ?thesis by (simp add: toWordSize_def)
next
  case False
  then have "unat sz \<le> 18446744073709551584" by (simp add: word_less_nat_alt)
  then have "unat (sz + 31) = unat sz + 31" by (simp add: unat_word_ariths)
  with False show ?thesis by (simp add: toWordSize_def unat_div)
qed

lemma no_overflow_add: "\<not> (x :: u64) + y < x \<Longrightarrow> unat (x + y) = unat x + unat y"
  by (simp add: not_less unat_plus_simple)

lemma calcMemSize64WithUint_exact:
  "calcMemSize64WithUint off l = (n, False) \<Longrightarrow> unat n = (if l = 0 then 0 else unat off + unat l)"
proof -
  assume a: "calcMemSize64WithUint off l = (n, False)"
  show ?thesis
  proof (cases "l = 0")
    case False
    with a have n: "n = Uint64 off + l" "\<not> n < Uint64 off" "IsUint64 off"
      by (auto simp: calcMemSize64WithUint_def Uint64WithOverflow_def Uint64_def Let_def split: if_splits)
    then have "unat n = unat (Uint64 off) + unat l"
      by (simp add: no_overflow_add)
    with n False show ?thesis by (simp add: unat_Uint64)
  qed (use a in \<open>simp add: calcMemSize64WithUint_def\<close>)
qed

section \<open>Gas\<close>

abbreviation GasQuickStep :: u64 where "GasQuickStep \<equiv> 2"
abbreviation GasFastestStep :: u64 where "GasFastestStep \<equiv> 3"
abbreviation GasFastStep :: u64 where "GasFastStep \<equiv> 5"
abbreviation GasMidStep :: u64 where "GasMidStep \<equiv> 8"
abbreviation GasSlowStep :: u64 where "GasSlowStep \<equiv> 10"
abbreviation GasExtStep :: u64 where "GasExtStep \<equiv> 20"

definition callGas :: "bool \<Rightarrow> u64 \<Rightarrow> u64 \<Rightarrow> u256 \<Rightarrow> u64 \<times> vmErr option" where
  "callGas isEip150 availableGas base callCost =
    (let availableGas = availableGas - base;
         gas = availableGas - availableGas div 64
     in if isEip150 \<and> (\<not> IsUint64 callCost \<or> gas < Uint64 callCost) then (gas, None)
        else if \<not> IsUint64 callCost then (0, Some ErrGasUintOverflow)
        else (Uint64 callCost, None))"

end
