(* ===== verification/VM_Analysis.thy ===== *)
theory VM_Analysis
  imports VM_Base
begin

text \<open>
  The jump-destination analysis of \<^verbatim>\<open>client/core/vm/analysis.go\<close>: one pass over the code that marks
  the bytes inside push data in a bit vector, 8 and 16 bits at a time. Positions are naturals (a code
  slice is far below \<open>2^63\<close> bytes).

  Facts: the pass never writes outside the vector, and a position of the code is reported as code
  exactly when it is the start of an instruction of the naive left-to-right decoding.
\<close>

section \<open>The bit vector\<close>

type_synonym bitvec = bytes

abbreviation set2BitsMask :: u16 where "set2BitsMask \<equiv> 0b11"
abbreviation set3BitsMask :: u16 where "set3BitsMask \<equiv> 0b111"
abbreviation set4BitsMask :: u16 where "set4BitsMask \<equiv> 0b1111"
abbreviation set5BitsMask :: u16 where "set5BitsMask \<equiv> 0b11111"
abbreviation set6BitsMask :: u16 where "set6BitsMask \<equiv> 0b111111"
abbreviation set7BitsMask :: u16 where "set7BitsMask \<equiv> 0b1111111"

definition bits_upd :: "nat \<Rightarrow> (u8 \<Rightarrow> u8) \<Rightarrow> bitvec \<Rightarrow> bitvec go" where
  "bits_upd i f bits = (if i < length bits then Ret (bits[i := f (bits ! i)]) else Panic ''index out of range'')"

definition set1 :: "nat \<Rightarrow> bitvec \<Rightarrow> bitvec go" where
  "set1 pos bits = bits_upd (pos div 8) (\<lambda>b. b OR push_bit (pos mod 8) 1) bits"

definition setN :: "u16 \<Rightarrow> nat \<Rightarrow> bitvec \<Rightarrow> bitvec go" where
  "setN flag pos bits =
    (let a = push_bit (pos mod 8) flag in
     go_bind (bits_upd (pos div 8) (\<lambda>b. b OR ucast a) bits) (\<lambda>bits.
       let b = ucast (drop_bit 8 a) in
       if b \<noteq> 0 then bits_upd (pos div 8 + 1) (\<lambda>_. b) bits else Ret bits))"

definition set8 :: "nat \<Rightarrow> bitvec \<Rightarrow> bitvec go" where
  "set8 pos bits =
    (let a = push_bit (pos mod 8) 0xFF in
     go_bind (bits_upd (pos div 8) (\<lambda>b. b OR a) bits) (\<lambda>bits.
       bits_upd (pos div 8 + 1) (\<lambda>_. NOT a) bits))"

definition set16 :: "nat \<Rightarrow> bitvec \<Rightarrow> bitvec go" where
  "set16 pos bits =
    (let a = push_bit (pos mod 8) 0xFF in
     go_bind (bits_upd (pos div 8) (\<lambda>b. b OR a) bits) (\<lambda>bits.
       go_bind (bits_upd (pos div 8 + 1) (\<lambda>_. 0xFF) bits) (\<lambda>bits.
         bits_upd (pos div 8 + 2) (\<lambda>_. NOT a) bits)))"

definition codeSegment :: "bitvec \<Rightarrow> nat \<Rightarrow> bool go" where
  "codeSegment bits pos =
    (if pos div 8 < length bits then Ret (drop_bit (pos mod 8) (bits ! (pos div 8)) AND 1 = 0)
     else Panic ''index out of range'')"

section \<open>The pass\<close>

text \<open>The two loops over a push of 8 or more bytes.\<close>

fun mark16 :: "nat \<Rightarrow> nat \<Rightarrow> bitvec \<Rightarrow> (nat \<times> nat \<times> bitvec) go" where
  "mark16 numbits pc bits =
    (if numbits \<ge> 16 then go_bind (set16 pc bits) (mark16 (numbits - 16) (pc + 16))
     else Ret (numbits, pc, bits))"

fun mark8 :: "nat \<Rightarrow> nat \<Rightarrow> bitvec \<Rightarrow> (nat \<times> nat \<times> bitvec) go" where
  "mark8 numbits pc bits =
    (if numbits \<ge> 8 then go_bind (set8 pc bits) (mark8 (numbits - 8) (pc + 8))
     else Ret (numbits, pc, bits))"

declare mark16.simps [simp del] mark8.simps [simp del]

definition mark_rest :: "nat \<Rightarrow> nat \<Rightarrow> bitvec \<Rightarrow> (nat \<times> bitvec) go" where
  "mark_rest numbits pc bits =
    (let step = (\<lambda>m. go_bind m (\<lambda>bits. Ret (pc + numbits, bits))) in
     if numbits = 1 then step (set1 pc bits)
     else if numbits = 2 then step (setN set2BitsMask pc bits)
     else if numbits = 3 then step (setN set3BitsMask pc bits)
     else if numbits = 4 then step (setN set4BitsMask pc bits)
     else if numbits = 5 then step (setN set5BitsMask pc bits)
     else if numbits = 6 then step (setN set6BitsMask pc bits)
     else if numbits = 7 then step (setN set7BitsMask pc bits)
     else Ret (pc, bits))"

definition mark_push :: "nat \<Rightarrow> nat \<Rightarrow> bitvec \<Rightarrow> (nat \<times> bitvec) go" where
  "mark_push numbits pc bits =
    go_bind (if numbits \<ge> 8
             then go_bind (mark16 numbits pc bits) (\<lambda>(numbits, pc, bits). mark8 numbits pc bits)
             else Ret (numbits, pc, bits))
      (\<lambda>(numbits, pc, bits). mark_rest numbits pc bits)"

text \<open>
  \<open>int8(op) < int8(PUSH1)\<close> holds for the opcodes below \<open>PUSH1\<close> and those above \<open>PUSH32\<close>. The loop
  runs on a fuel of the code's length, one unit per instruction.
\<close>

definition is_push :: "u8 \<Rightarrow> bool" where
  "is_push b = (\<not> sint b < sint (0x60 :: u8))"

fun codeBitmap_loop :: "nat \<Rightarrow> bytes \<Rightarrow> nat \<Rightarrow> bitvec \<Rightarrow> bitvec go" where
  "codeBitmap_loop fuel code pc bits =
    (if pc < length code
     then case fuel of 0 \<Rightarrow> NoFuel | Suc fuel \<Rightarrow>
       let b = code ! pc; pc = pc + 1 in
       if \<not> is_push b then codeBitmap_loop fuel code pc bits
       else go_bind (mark_push (unat (b - 0x60 + 1)) pc bits)
              (\<lambda>(pc, bits). codeBitmap_loop fuel code pc bits)
     else Ret bits)"

declare codeBitmap_loop.simps [simp del]

definition codeBitmap :: "bytes \<Rightarrow> bitvec go" where
  "codeBitmap code =
     codeBitmap_loop (length code) code 0 (replicate (length code div 8 + 1 + 4) 0)"

section \<open>Correctness\<close>

definition marked :: "bitvec \<Rightarrow> nat \<Rightarrow> bool" where
  "marked bits p \<longleftrightarrow> bit (bits ! (p div 8)) (p mod 8)"

definition marks :: "nat \<Rightarrow> nat \<Rightarrow> bitvec \<Rightarrow> bitvec \<Rightarrow> bool" where
  "marks pos n bits bits' \<longleftrightarrow> length bits' = length bits \<and>
     (\<forall>p. p div 8 < length bits \<longrightarrow> marked bits' p = (marked bits p \<or> pos \<le> p \<and> p < pos + n))"

definition clear_from :: "nat \<Rightarrow> bitvec \<Rightarrow> bool" where
  "clear_from pos bits \<longleftrightarrow> (\<forall>p. pos \<le> p \<longrightarrow> p div 8 < length bits \<longrightarrow> \<not> marked bits p)"

lemma marks_clear: "marks pos n bits bits' \<Longrightarrow> clear_from pos bits \<Longrightarrow> clear_from (pos + n) bits'"
  by (auto simp: marks_def clear_from_def)

lemma marks_trans: "marks pos n a b \<Longrightarrow> marks (pos + n) m b c \<Longrightarrow> marks pos (n + m) a c"
  by (auto simp: marks_def)

lemma marks_0 [simp]: "marks pos 0 bits bits"
  by (auto simp: marks_def)

lemma codeSegment_marked: "p div 8 < length bits \<Longrightarrow> codeSegment bits p = Ret (\<not> marked bits p)"
  by (auto simp: codeSegment_def marked_def and_one_eq bit_iff_odd_drop_bit even_iff_mod_2_eq_zero)

lemma marked_upd: "j < length bits \<Longrightarrow>
    marked (bits[j := v]) p = (if p div 8 = j then bit v (p mod 8) else marked bits p)"
  by (auto simp: marked_def nth_list_update)

lemma bit_push_FF: "bit (push_bit k (0xFF :: u8)) i \<longleftrightarrow> k \<le> i \<and> i < 8"
proof -
  have "(0xFF :: u8) = - 1" by simp
  then show ?thesis by (simp only: bit_push_bit_iff bit_minus_1_iff) auto
qed

lemma bit_FF: "bit (0xFF :: u8) i \<longleftrightarrow> i < 8"
  using bit_push_FF [of 0] by simp

text \<open>The positions of a run of at most 16 bits, byte by byte.\<close>

lemma run8:
  fixes pos :: nat
  assumes "n \<le> 8" "i < 8"
  shows "(pos \<le> 8 * j + i \<and> 8 * j + i < pos + n) \<longleftrightarrow>
     (j = pos div 8 \<and> pos mod 8 \<le> i \<and> i < pos mod 8 + n) \<or>
     (j = pos div 8 + 1 \<and> i + 8 < pos mod 8 + n)"
proof -
  define q where "q = pos div 8"
  define k where "k = pos mod 8"
  have p: "pos = 8 * q + k" "k < 8" by (simp_all add: q_def k_def)
  consider "j < q" | "j = q" | "j = q + 1" | "j > q + 1" by linarith
  then show ?thesis unfolding q_def [symmetric] k_def [symmetric] using p assms by cases auto
qed

lemma run16:
  fixes pos :: nat
  assumes "i < 8"
  shows "(pos \<le> 8 * j + i \<and> 8 * j + i < pos + 16) \<longleftrightarrow>
     (j = pos div 8 \<and> pos mod 8 \<le> i) \<or> j = pos div 8 + 1 \<or> (j = pos div 8 + 2 \<and> i < pos mod 8)"
proof -
  define q where "q = pos div 8"
  define k where "k = pos mod 8"
  have p: "pos = 8 * q + k" "k < 8" by (simp_all add: q_def k_def)
  consider "j < q" | "j = q" | "j = q + 1" | "j = q + 2" | "j > q + 2" by linarith
  then show ?thesis unfolding q_def [symmetric] k_def [symmetric] using p assms by cases auto
qed

lemma clear_byte:
  assumes "clear_from pos bits" "pos div 8 < j" "j < length bits" "i < 8"
  shows "\<not> bit (bits ! j) i"
proof -
  have "pos < 8 * j" using assms(2) by (simp add: div_less_iff_less_mult mult.commute)
  then show ?thesis using assms(1,3,4) by (auto simp: clear_from_def marked_def dest!: spec [of _ "8 * j + i"])
qed

text \<open>What has to hold bit by bit of a vector that differs in the bytes of a run.\<close>

lemma marksI:
  assumes "length b = length bits"
    and "\<And>j i. j < length bits \<Longrightarrow> i < 8 \<Longrightarrow>
      bit (b ! j) i = (bit (bits ! j) i \<or> pos \<le> 8 * j + i \<and> 8 * j + i < pos + n)"
  shows "marks pos n bits b"
  unfolding marks_def marked_def
proof (intro conjI allI impI)
  fix p assume "p div 8 < length bits"
  then show "bit (b ! (p div 8)) (p mod 8) = (bit (bits ! (p div 8)) (p mod 8) \<or> pos \<le> p \<and> p < pos + n)"
    using assms(2) [of "p div 8" "p mod 8"] by (simp add: mult.commute)
qed (rule assms(1))

lemma marksI8:
  assumes "n \<le> 8" "length b = length bits"
    and "\<And>j i. j < length bits \<Longrightarrow> i < 8 \<Longrightarrow>
      bit (b ! j) i = (bit (bits ! j) i \<or> (j = pos div 8 \<and> pos mod 8 \<le> i \<and> i < pos mod 8 + n) \<or>
        (j = pos div 8 + 1 \<and> i + 8 < pos mod 8 + n))"
  shows "marks pos n bits b"
  using assms by (intro marksI) (simp_all add: run8)

lemma marksI16:
  assumes "length b = length bits"
    and "\<And>j i. j < length bits \<Longrightarrow> i < 8 \<Longrightarrow>
      bit (b ! j) i = (bit (bits ! j) i \<or> (j = pos div 8 \<and> pos mod 8 \<le> i) \<or> j = pos div 8 + 1 \<or>
        (j = pos div 8 + 2 \<and> i < pos mod 8))"
  shows "marks pos 16 bits b"
  using assms by (intro marksI) (simp_all add: run16)

lemma set1_marks:
  assumes "pos div 8 < length bits"
  shows "\<exists>b. set1 pos bits = Ret b \<and> marks pos 1 bits b"
proof -
  have "bit (push_bit (pos mod 8) (1 :: u8)) i \<longleftrightarrow> i = pos mod 8" if "i < 8" for i
    using that by (auto simp: bit_push_bit_iff bit_1_iff simp del: push_bit_of_1)
  moreover have "\<not> i + 8 < pos mod 8 + 1" for i by (simp add: not_less)
  ultimately show ?thesis
    using assms by (auto simp: set1_def bits_upd_def nth_list_update bit_or_iff
      intro!: marksI8 split: if_splits simp del: push_bit_of_1)
qed

lemma set8_marks:
  assumes "pos div 8 + 1 < length bits" "clear_from pos bits"
  shows "\<exists>b. set8 pos bits = Ret b \<and> marks pos 8 bits b"
  using assms(1) clear_byte [OF assms(2), of "pos div 8 + 1"]
  by (auto simp: set8_def Let_def bits_upd_def nth_list_update bit_or_iff bit_push_FF bit_not_iff
    intro!: marksI8 split: if_splits)

lemma set16_marks:
  assumes "pos div 8 + 2 < length bits" "clear_from pos bits"
  shows "\<exists>b. set16 pos bits = Ret b \<and> marks pos 16 bits b"
  using assms(1) bit_FF [THEN iffD2] clear_byte [OF assms(2), of "pos div 8 + 1"] clear_byte [OF assms(2), of "pos div 8 + 2"]
  by (auto simp: set16_def Let_def bits_upd_def nth_list_update bit_or_iff bit_push_FF bit_FF bit_not_iff
    intro!: marksI16 split: if_splits)

lemma setN_marks:
  assumes "flag = mask n" "1 \<le> n" "n < 8" "pos div 8 + 1 < length bits" "clear_from pos bits"
  shows "\<exists>b. setN flag pos bits = Ret b \<and> marks pos n bits b"
proof -
  let ?a = "push_bit (pos mod 8) flag"
  have lo: "bit (ucast ?a :: u8) i \<longleftrightarrow> i < 8 \<and> pos mod 8 \<le> i \<and> i < pos mod 8 + n" for i
    using assms(1,3) by (auto simp: bit_ucast_iff bit_push_bit_iff bit_mask_iff)
  have hi: "bit (ucast (drop_bit 8 ?a) :: u8) i \<longleftrightarrow> i < 8 \<and> i + 8 < pos mod 8 + n" for i
    using assms(1,3) by (auto simp: bit_ucast_iff bit_push_bit_iff bit_mask_iff bit_drop_bit_eq add.commute)
  have z: "\<not> i + 8 < pos mod 8 + n" if "ucast (drop_bit 8 ?a) = (0 :: u8)" for i
    using hi [of 0] that by auto
  show ?thesis
    using assms(2-4) z clear_byte [OF assms(5), of "pos div 8 + 1"]
    by (auto simp: setN_def Let_def bits_upd_def nth_list_update bit_or_iff lo hi intro!: marksI8 split: if_splits)
qed

lemma mark16_ok:
  "clear_from pc bits \<Longrightarrow> n \<le> 32 \<Longrightarrow> (pc + n) div 8 < length bits \<Longrightarrow>
   \<exists>b. mark16 n pc bits = Ret (n mod 16, pc + n - n mod 16, b) \<and> marks pc (n - n mod 16) bits b"
proof (induction n pc bits rule: mark16.induct)
  case (1 n pc bits)
  show ?case
  proof (cases "16 \<le> n")
    case True
    have "(pc + 16) div 8 \<le> (pc + n) div 8" using True by (intro div_le_mono) simp
    then have "pc div 8 + 2 < length bits" using 1(4) by simp
    from set16_marks [OF this 1(2)] obtain b where b: "set16 pc bits = Ret b" "marks pc 16 bits b" by blast
    have "\<exists>c. mark16 (n - 16) (pc + 16) b =
        Ret ((n - 16) mod 16, pc + 16 + (n - 16) - (n - 16) mod 16, c) \<and>
        marks (pc + 16) (n - 16 - (n - 16) mod 16) b c"
      using 1(1) [OF True, of b] b marks_clear [OF b(2) 1(2)] 1(3,4) True by (simp add: marks_def)
    then obtain c where c: "mark16 (n - 16) (pc + 16) b = Ret (n mod 16, pc + n - n mod 16, c)"
        "marks (pc + 16) (n - 16 - n mod 16) b c"
      using True by (auto simp: le_mod_geq)
    have "16 + (n - 16 - n mod 16) = n - n mod 16" using True by (simp add: le_mod_geq)
    with marks_trans [OF b(2) c(2)] b(1) c(1) True show ?thesis by (simp add: mark16.simps)
  next
    case False
    then show ?thesis by (simp add: mark16.simps)
  qed
qed

lemma mark8_ok:
  "clear_from pc bits \<Longrightarrow> n < 16 \<Longrightarrow> (pc + n) div 8 < length bits \<Longrightarrow>
   \<exists>b. mark8 n pc bits = Ret (n mod 8, pc + n - n mod 8, b) \<and> marks pc (n - n mod 8) bits b"
proof (cases "8 \<le> n")
  case True
  assume a: "clear_from pc bits" "n < 16" "(pc + n) div 8 < length bits"
  have "(pc + 8) div 8 \<le> (pc + n) div 8" using True by (intro div_le_mono) simp
  then have "pc div 8 + 1 < length bits" using a(3) by simp
  from set8_marks [OF this a(1)] obtain b where b: "set8 pc bits = Ret b" "marks pc 8 bits b" by blast
  have "n mod 8 = n - 8" using True a(2) by (simp add: le_mod_geq)
  then show ?thesis using b True a(2) by (simp add: mark8.simps)
qed (simp add: mark8.simps)

lemma mark_rest_ok:
  assumes "clear_from pc bits" "n < 8" "n = 0 \<or> pc div 8 + 1 < length bits"
  shows "\<exists>b. mark_rest n pc bits = Ret (pc + n, b) \<and> marks pc n bits b"
proof -
  have m: "(3 :: u16) = mask 2" "(7 :: u16) = mask 3" "(15 :: u16) = mask 4" "(31 :: u16) = mask 5"
    "(63 :: u16) = mask 6" "(127 :: u16) = mask 7"
    by (simp_all add: mask_eq_exp_minus_1)
  have s: "\<exists>b. setN flag pc bits = Ret b \<and> marks pc k bits b" if "flag = mask k" "1 \<le> k" "k < 8" "n \<noteq> 0" for flag k
    using setN_marks [OF that(1-3) _ assms(1)] assms(3) that(4) by simp
  consider "n = 0" | "n = 1" | "n = 2" | "n = 3" | "n = 4" | "n = 5" | "n = 6" | "n = 7" using assms(2) by linarith
  then show ?thesis
    using set1_marks [of pc bits] assms(3) s [OF m(1)] s [OF m(2)] s [OF m(3)] s [OF m(4)] s [OF m(5)] s [OF m(6)]
    by cases (auto simp: mark_rest_def Let_def marks_def)
qed

lemma mark_push_ok:
  assumes "clear_from pc bits" "n \<le> 32" "pc div 8 + 4 < length bits"
  shows "\<exists>b. mark_push n pc bits = Ret (pc + n, b) \<and> marks pc n bits b"
proof (cases "8 \<le> n")
  case True
  define r s where "r = n mod 16" and "s = r mod 8"
  have rs: "r \<le> n" "s \<le> r" "r < 16" "s < 8" by (simp_all add: r_def s_def mod_less_eq_dividend)
  have "(pc + n) div 8 \<le> (pc + 32) div 8" using assms(2) by (intro div_le_mono) simp
  then have room: "(pc + n) div 8 < length bits" using assms(3) by simp
  obtain b where b: "mark16 n pc bits = Ret (r, pc + n - r, b)" "marks pc (n - r) bits b"
    using mark16_ok [OF assms(1,2) room] unfolding r_def by blast
  have l: "length b = length bits" using b(2) by (simp add: marks_def)
  have cb: "clear_from (pc + n - r) b" using marks_clear [OF b(2) assms(1)] rs by simp
  have "(pc + n - r + r) div 8 < length b" using room l rs by simp
  from mark8_ok [OF cb rs(3) this] obtain c where
    c: "mark8 r (pc + n - r) b = Ret (s, pc + n - s, c)" "marks (pc + n - r) (r - s) b c"
    using rs unfolding s_def by auto
  have lc: "length c = length bits" using c(2) l by (simp add: marks_def)
  have bc: "marks pc (n - s) bits c"
    using marks_trans [OF b(2), of "r - s" c] c(2) rs by simp
  have cc: "clear_from (pc + n - s) c" using marks_clear [OF bc assms(1)] rs by simp
  have "pc + n - s \<le> pc + 24" if "s \<noteq> 0"
  proof -
    have "s = n mod 8" unfolding s_def r_def by (simp add: mod_mod_cancel)
    then have "n - s = 8 * (n div 8)" by (simp add: minus_mod_eq_mult_div)
    moreover have "n div 8 \<le> 3" using assms(2) that \<open>s = n mod 8\<close> by (cases "n = 32") auto
    ultimately show ?thesis using rs by linarith
  qed
  then have "s = 0 \<or> (pc + n - s) div 8 \<le> (pc + 24) div 8" by (auto intro: div_le_mono)
  then have "s = 0 \<or> (pc + n - s) div 8 + 1 < length c" using assms(3) lc by auto
  from mark_rest_ok [OF cc rs(4) this] obtain d where
    d: "mark_rest s (pc + n - s) c = Ret (pc + n, d)" "marks (pc + n - s) s c d"
    using rs by auto
  have "marks pc n bits d" using marks_trans [OF bc, of s d] d(2) rs by simp
  then show ?thesis using True b(1) c(1) d(1) by (simp add: mark_push_def)
next
  case False
  then show ?thesis using mark_rest_ok [OF assms(1), of n] assms(3) False
    by (auto simp: mark_push_def)
qed

text \<open>The reference: the starts of the instructions when the code is read from the left.\<close>

definition push_len :: "u8 \<Rightarrow> nat" where
  "push_len b = (if 0x60 \<le> b \<and> b \<le> 0x7F then unat b - 95 else 0)"

fun instr_starts :: "nat \<Rightarrow> bytes \<Rightarrow> nat list" where
  "instr_starts pos [] = []"
| "instr_starts pos (b # bs) = pos # instr_starts (pos + 1 + push_len b) (drop (push_len b) bs)"

lemma is_push_iff: "is_push b \<longleftrightarrow> 0x60 \<le> b \<and> b \<le> 0x7F"
proof -
  have "sint b = (if uint b < 128 then uint b else uint b - 256)"
  proof -
    define x where "x = uint b"
    have x: "0 \<le> x" "x < 256" using unsigned_less [of b, where ?'a = int] by (simp_all add: x_def)
    have "sint b = signed_take_bit 7 x" by (simp add: x_def sint_uint)
    also have "\<dots> = (x + 128) mod 256 - 128" by (simp add: signed_take_bit_eq_take_bit_shift take_bit_eq_mod)
    also have "\<dots> = (if x < 128 then x else x - 256)"
    proof (cases "x < 128")
      case False
      then have "(x + 128) mod 256 = (x - 128) mod 256" using mod_add_self2 [of "x - 128" 256] by (simp add: algebra_simps)
      then show ?thesis using False x by simp
    qed (use x in simp)
    finally show ?thesis by (simp add: x_def)
  qed
  moreover have "uint b < 256" using unsigned_less [of b, where ?'a = int] by simp
  ultimately show ?thesis by (auto simp: is_push_def word_le_def)
qed

lemma push_len_is_push: "is_push b \<Longrightarrow> unat (b - 0x60 + 1) = push_len b" "\<not> is_push b \<Longrightarrow> push_len b = 0"
  "push_len b \<le> 32"
proof -
  have *: "96 \<le> unat b" "unat b \<le> 127" if "is_push b"
    using that by (auto simp: is_push_iff word_le_nat_alt)
  show "unat (b - 0x60 + 1) = push_len b" if "is_push b"
  proof -
    have "unat (b - 0x60) = unat b - 96" using that by (subst unat_sub) (auto simp: is_push_iff)
    then have "unat (b - 0x60 + 1) = unat b - 96 + 1" using * [OF that] by (subst unat_word_ariths) simp
    then show ?thesis using that * [OF that] by (simp add: push_len_def is_push_iff)
  qed
  show "\<not> is_push b \<Longrightarrow> push_len b = 0" by (auto simp: is_push_iff push_len_def)
  then show "push_len b \<le> 32" using * by (auto simp: push_len_def is_push_iff)
qed

lemma instr_starts_ge: "p \<in> set (instr_starts pos bs) \<Longrightarrow> pos \<le> p"
  by (induction pos bs rule: instr_starts.induct) auto

lemma codeBitmap_loop_ok:
  assumes "length bits = length code div 8 + 5" "clear_from pc bits" "length code - pc \<le> fuel"
  shows "\<exists>b. codeBitmap_loop fuel code pc bits = Ret b \<and> length b = length bits \<and>
    (\<forall>p. p div 8 < length bits \<longrightarrow> p < pc \<longrightarrow> marked b p = marked bits p) \<and>
    (\<forall>p. pc \<le> p \<longrightarrow> p < length code \<longrightarrow> marked b p = (p \<notin> set (instr_starts pc (drop pc code))))"
  using assms
proof (induction fuel arbitrary: pc bits)
  case 0
  then show ?case by (subst codeBitmap_loop.simps) simp
next
  case (Suc fuel)
  show ?case
  proof (cases "pc < length code")
    case False
    then show ?thesis by (subst codeBitmap_loop.simps) simp
  next
    case True
    let ?b = "code ! pc"
    let ?n = "push_len ?b"
    have d: "drop pc code = ?b # drop (pc + 1) code" using True by (simp add: Cons_nth_drop_Suc)
    have starts: "instr_starts pc (drop pc code) = pc # instr_starts (pc + 1 + ?n) (drop (pc + 1 + ?n) code)"
      unfolding d by (simp add: add.commute)
    have c1: "clear_from (pc + 1) bits" using Suc.prems(2) by (simp add: clear_from_def)
    have n32: "?n \<le> 32" by (rule push_len_is_push)
    have "(pc + 1) div 8 \<le> length code div 8" using True by (intro div_le_mono) simp
    then have room: "(pc + 1) div 8 + 4 < length bits" using Suc.prems(1) by simp
    obtain b1 where b1: "marks (pc + 1) ?n bits b1"
        "codeBitmap_loop (Suc fuel) code pc bits = codeBitmap_loop fuel code (pc + 1 + ?n) b1"
    proof (cases "is_push ?b")
      case p: True
      obtain b1 where "mark_push ?n (pc + 1) bits = Ret (pc + 1 + ?n, b1)" "marks (pc + 1) ?n bits b1"
        using mark_push_ok [OF c1 n32 room] by blast
      with that p True push_len_is_push(1) [OF p] show thesis
        by (simp add: codeBitmap_loop.simps [of "Suc fuel"] Let_def)
    next
      case False
      with that [of bits] True push_len_is_push(2) [OF False] show thesis
        by (simp add: codeBitmap_loop.simps [of "Suc fuel"] Let_def)
    qed
    have fuel: "length code - (pc + 1 + ?n) \<le> fuel" using Suc.prems(3) True by linarith
    have l: "length b1 = length bits" using b1(1) by (simp add: marks_def)
    obtain b2 where b2: "codeBitmap_loop fuel code (pc + 1 + ?n) b1 = Ret b2" "length b2 = length b1"
      "\<forall>p. p div 8 < length b1 \<longrightarrow> p < pc + 1 + ?n \<longrightarrow> marked b2 p = marked b1 p"
      "\<forall>p. pc + 1 + ?n \<le> p \<longrightarrow> p < length code \<longrightarrow>
         marked b2 p = (p \<notin> set (instr_starts (pc + 1 + ?n) (drop (pc + 1 + ?n) code)))"
      using Suc.IH [of b1 "pc + 1 + ?n"] l fuel Suc.prems(1) marks_clear [OF b1(1) c1] by auto
    have m1: "marked b1 p = (marked bits p \<or> pc + 1 \<le> p \<and> p < pc + 1 + ?n)" if "p div 8 < length bits" for p
      using b1(1) that by (simp add: marks_def)
    have inside: "p div 8 < length bits" if "p < length code" for p
      using that Suc.prems(1) div_le_mono [of p "length code" 8] by simp
    have later: "p \<notin> set (instr_starts (pc + 1 + ?n) (drop (pc + 1 + ?n) code))" if "p < pc + 1 + ?n" for p
      using instr_starts_ge [of p "pc + 1 + ?n"] that by auto
    have "marked b2 p = (p \<notin> set (instr_starts pc (drop pc code)))" if "pc \<le> p" "p < length code" for p
    proof (cases "pc + 1 + ?n \<le> p")
      case True
      then show ?thesis using b2(4) that starts by auto
    next
      case False
      have "\<not> marked bits p" using Suc.prems(2) that inside by (simp add: clear_from_def)
      then have "marked b2 p = (pc \<noteq> p)" using b2(3) l inside m1 that False by auto
      then show ?thesis using later [of p] False starts by auto
    qed
    moreover have "marked b2 p = marked bits p" if "p div 8 < length bits" "p < pc" for p
      using b2(3) l m1 that by auto
    ultimately show ?thesis using b1(2) b2(1,2) l by auto
  qed
qed

lemma codeBitmap_segment:
  assumes "p < length code"
  shows "\<exists>bits. codeBitmap code = Ret bits \<and> codeSegment bits p = Ret (p \<in> set (instr_starts 0 code))"
proof -
  let ?z = "replicate (length code div 8 + 1 + 4) (0 :: u8)"
  have "clear_from 0 ?z" by (simp add: clear_from_def marked_def)
  then obtain b where "codeBitmap code = Ret b" "length b = length code div 8 + 5"
      "marked b p = (p \<notin> set (instr_starts 0 code))"
    using codeBitmap_loop_ok [of ?z code 0 "length code"] assms by (auto simp: codeBitmap_def)
  then show ?thesis using codeSegment_marked [of p b] assms div_le_mono [of p "length code" 8] by simp
qed

text \<open>
  the jump-destination analysis is exact: \<open>codeBitmap\<close> returns (it never writes outside its bit
  vector), and \<open>codeSegment\<close> reports a position inside the code as code exactly when it is the start of
  an instruction of the naive left-to-right decoding, whatever the packing into words of 8 and 16 bits.
\<close>

theorem codeBitmap_exact:
  assumes "p < length code"
  shows "\<exists>bits. codeBitmap code = Ret bits \<and> codeSegment bits p = Ret (p \<in> set (instr_starts 0 code))"
  using assms by (rule codeBitmap_segment)

theorem codeBitmap_exact_witness:
  "(\<exists>bits. codeBitmap [0x60, 0x5B, 0x5B] = Ret bits \<and> codeSegment bits 1 = Ret False) \<and>
   (\<exists>bits. codeBitmap [0x60, 0x5B, 0x5B] = Ret bits \<and> codeSegment bits 2 = Ret True)"
  using codeBitmap_exact [of 1 "[0x60, 0x5B, 0x5B]"] codeBitmap_exact [of 2 "[0x60, 0x5B, 0x5B]"]
  by (simp add: push_len_def)

end
