(* ===== verification/VM_Table.thy ===== *)
theory VM_Table
  imports VM_Base
begin

text \<open>
  The instruction tables: the opcodes of \<^verbatim>\<open>client/core/vm/opcodes.go\<close>, the table entries and the
  instruction sets of all forks of \<^verbatim>\<open>jump_table.go\<close>, and the modifications of \<^verbatim>\<open>eips.go\<close>.

  The function pointers of an entry (\<open>execute\<close>, \<open>dynamicGas\<close>, \<open>memorySize\<close>) are names of the
  functions, the datatypes \<open>executionFunc\<close>, \<open>gasFunc\<close> and \<open>memorySizeFunc\<close>; the interpreter applies
  the function a name stands for. A table is a function from opcodes to entries: the code fills every
  unassigned slot before it uses a table.

  Facts: every instruction set passes \<open>validate\<close>, and every entry of it is consistent
  (\<open>op_ok\<close>): its stack bounds are those of the instruction's pops and pushes, its memory function
  covers the memory the instruction accesses, its gas function fits the instruction, and an
  instruction that lets the loop continue is never free of charge.
\<close>

section \<open>Opcodes\<close>

abbreviation OP_STOP :: u8 where "OP_STOP \<equiv> 0x00"
abbreviation OP_ADD :: u8 where "OP_ADD \<equiv> 0x01"
abbreviation OP_MUL :: u8 where "OP_MUL \<equiv> 0x02"
abbreviation OP_SUB :: u8 where "OP_SUB \<equiv> 0x03"
abbreviation OP_DIV :: u8 where "OP_DIV \<equiv> 0x04"
abbreviation OP_SDIV :: u8 where "OP_SDIV \<equiv> 0x05"
abbreviation OP_MOD :: u8 where "OP_MOD \<equiv> 0x06"
abbreviation OP_SMOD :: u8 where "OP_SMOD \<equiv> 0x07"
abbreviation OP_ADDMOD :: u8 where "OP_ADDMOD \<equiv> 0x08"
abbreviation OP_MULMOD :: u8 where "OP_MULMOD \<equiv> 0x09"
abbreviation OP_EXP :: u8 where "OP_EXP \<equiv> 0x0A"
abbreviation OP_SIGNEXTEND :: u8 where "OP_SIGNEXTEND \<equiv> 0x0B"
abbreviation OP_LT :: u8 where "OP_LT \<equiv> 0x10"
abbreviation OP_GT :: u8 where "OP_GT \<equiv> 0x11"
abbreviation OP_SLT :: u8 where "OP_SLT \<equiv> 0x12"
abbreviation OP_SGT :: u8 where "OP_SGT \<equiv> 0x13"
abbreviation OP_EQ :: u8 where "OP_EQ \<equiv> 0x14"
abbreviation OP_ISZERO :: u8 where "OP_ISZERO \<equiv> 0x15"
abbreviation OP_AND :: u8 where "OP_AND \<equiv> 0x16"
abbreviation OP_OR :: u8 where "OP_OR \<equiv> 0x17"
abbreviation OP_XOR :: u8 where "OP_XOR \<equiv> 0x18"
abbreviation OP_NOT :: u8 where "OP_NOT \<equiv> 0x19"
abbreviation OP_BYTE :: u8 where "OP_BYTE \<equiv> 0x1A"
abbreviation OP_SHL :: u8 where "OP_SHL \<equiv> 0x1B"
abbreviation OP_SHR :: u8 where "OP_SHR \<equiv> 0x1C"
abbreviation OP_SAR :: u8 where "OP_SAR \<equiv> 0x1D"
abbreviation OP_KECCAK256 :: u8 where "OP_KECCAK256 \<equiv> 0x20"
abbreviation OP_ADDRESS :: u8 where "OP_ADDRESS \<equiv> 0x30"
abbreviation OP_BALANCE :: u8 where "OP_BALANCE \<equiv> 0x31"
abbreviation OP_ORIGIN :: u8 where "OP_ORIGIN \<equiv> 0x32"
abbreviation OP_CALLER :: u8 where "OP_CALLER \<equiv> 0x33"
abbreviation OP_CALLVALUE :: u8 where "OP_CALLVALUE \<equiv> 0x34"
abbreviation OP_CALLDATALOAD :: u8 where "OP_CALLDATALOAD \<equiv> 0x35"
abbreviation OP_CALLDATASIZE :: u8 where "OP_CALLDATASIZE \<equiv> 0x36"
abbreviation OP_CALLDATACOPY :: u8 where "OP_CALLDATACOPY \<equiv> 0x37"
abbreviation OP_CODESIZE :: u8 where "OP_CODESIZE \<equiv> 0x38"
abbreviation OP_CODECOPY :: u8 where "OP_CODECOPY \<equiv> 0x39"
abbreviation OP_GASPRICE :: u8 where "OP_GASPRICE \<equiv> 0x3A"
abbreviation OP_EXTCODESIZE :: u8 where "OP_EXTCODESIZE \<equiv> 0x3B"
abbreviation OP_EXTCODECOPY :: u8 where "OP_EXTCODECOPY \<equiv> 0x3C"
abbreviation OP_RETURNDATASIZE :: u8 where "OP_RETURNDATASIZE \<equiv> 0x3D"
abbreviation OP_RETURNDATACOPY :: u8 where "OP_RETURNDATACOPY \<equiv> 0x3E"
abbreviation OP_EXTCODEHASH :: u8 where "OP_EXTCODEHASH \<equiv> 0x3F"
abbreviation OP_BLOCKHASH :: u8 where "OP_BLOCKHASH \<equiv> 0x40"
abbreviation OP_COINBASE :: u8 where "OP_COINBASE \<equiv> 0x41"
abbreviation OP_TIMESTAMP :: u8 where "OP_TIMESTAMP \<equiv> 0x42"
abbreviation OP_NUMBER :: u8 where "OP_NUMBER \<equiv> 0x43"
abbreviation OP_DIFFICULTY :: u8 where "OP_DIFFICULTY \<equiv> 0x44"
abbreviation OP_RANDOM :: u8 where "OP_RANDOM \<equiv> 0x44"
abbreviation OP_PREVRANDAO :: u8 where "OP_PREVRANDAO \<equiv> 0x44"
abbreviation OP_GASLIMIT :: u8 where "OP_GASLIMIT \<equiv> 0x45"
abbreviation OP_CHAINID :: u8 where "OP_CHAINID \<equiv> 0x46"
abbreviation OP_SELFBALANCE :: u8 where "OP_SELFBALANCE \<equiv> 0x47"
abbreviation OP_BASEFEE :: u8 where "OP_BASEFEE \<equiv> 0x48"
abbreviation OP_POP :: u8 where "OP_POP \<equiv> 0x50"
abbreviation OP_MLOAD :: u8 where "OP_MLOAD \<equiv> 0x51"
abbreviation OP_MSTORE :: u8 where "OP_MSTORE \<equiv> 0x52"
abbreviation OP_MSTORE8 :: u8 where "OP_MSTORE8 \<equiv> 0x53"
abbreviation OP_SLOAD :: u8 where "OP_SLOAD \<equiv> 0x54"
abbreviation OP_SSTORE :: u8 where "OP_SSTORE \<equiv> 0x55"
abbreviation OP_JUMP :: u8 where "OP_JUMP \<equiv> 0x56"
abbreviation OP_JUMPI :: u8 where "OP_JUMPI \<equiv> 0x57"
abbreviation OP_PC :: u8 where "OP_PC \<equiv> 0x58"
abbreviation OP_MSIZE :: u8 where "OP_MSIZE \<equiv> 0x59"
abbreviation OP_GAS :: u8 where "OP_GAS \<equiv> 0x5A"
abbreviation OP_JUMPDEST :: u8 where "OP_JUMPDEST \<equiv> 0x5B"
abbreviation OP_PUSH0 :: u8 where "OP_PUSH0 \<equiv> 0x5F"
abbreviation OP_PUSH1 :: u8 where "OP_PUSH1 \<equiv> 0x60"
abbreviation OP_PUSH2 :: u8 where "OP_PUSH2 \<equiv> 0x61"
abbreviation OP_PUSH3 :: u8 where "OP_PUSH3 \<equiv> 0x62"
abbreviation OP_PUSH4 :: u8 where "OP_PUSH4 \<equiv> 0x63"
abbreviation OP_PUSH5 :: u8 where "OP_PUSH5 \<equiv> 0x64"
abbreviation OP_PUSH6 :: u8 where "OP_PUSH6 \<equiv> 0x65"
abbreviation OP_PUSH7 :: u8 where "OP_PUSH7 \<equiv> 0x66"
abbreviation OP_PUSH8 :: u8 where "OP_PUSH8 \<equiv> 0x67"
abbreviation OP_PUSH9 :: u8 where "OP_PUSH9 \<equiv> 0x68"
abbreviation OP_PUSH10 :: u8 where "OP_PUSH10 \<equiv> 0x69"
abbreviation OP_PUSH11 :: u8 where "OP_PUSH11 \<equiv> 0x6A"
abbreviation OP_PUSH12 :: u8 where "OP_PUSH12 \<equiv> 0x6B"
abbreviation OP_PUSH13 :: u8 where "OP_PUSH13 \<equiv> 0x6C"
abbreviation OP_PUSH14 :: u8 where "OP_PUSH14 \<equiv> 0x6D"
abbreviation OP_PUSH15 :: u8 where "OP_PUSH15 \<equiv> 0x6E"
abbreviation OP_PUSH16 :: u8 where "OP_PUSH16 \<equiv> 0x6F"
abbreviation OP_PUSH17 :: u8 where "OP_PUSH17 \<equiv> 0x70"
abbreviation OP_PUSH18 :: u8 where "OP_PUSH18 \<equiv> 0x71"
abbreviation OP_PUSH19 :: u8 where "OP_PUSH19 \<equiv> 0x72"
abbreviation OP_PUSH20 :: u8 where "OP_PUSH20 \<equiv> 0x73"
abbreviation OP_PUSH21 :: u8 where "OP_PUSH21 \<equiv> 0x74"
abbreviation OP_PUSH22 :: u8 where "OP_PUSH22 \<equiv> 0x75"
abbreviation OP_PUSH23 :: u8 where "OP_PUSH23 \<equiv> 0x76"
abbreviation OP_PUSH24 :: u8 where "OP_PUSH24 \<equiv> 0x77"
abbreviation OP_PUSH25 :: u8 where "OP_PUSH25 \<equiv> 0x78"
abbreviation OP_PUSH26 :: u8 where "OP_PUSH26 \<equiv> 0x79"
abbreviation OP_PUSH27 :: u8 where "OP_PUSH27 \<equiv> 0x7A"
abbreviation OP_PUSH28 :: u8 where "OP_PUSH28 \<equiv> 0x7B"
abbreviation OP_PUSH29 :: u8 where "OP_PUSH29 \<equiv> 0x7C"
abbreviation OP_PUSH30 :: u8 where "OP_PUSH30 \<equiv> 0x7D"
abbreviation OP_PUSH31 :: u8 where "OP_PUSH31 \<equiv> 0x7E"
abbreviation OP_PUSH32 :: u8 where "OP_PUSH32 \<equiv> 0x7F"
abbreviation OP_DUP1 :: u8 where "OP_DUP1 \<equiv> 0x80"
abbreviation OP_DUP2 :: u8 where "OP_DUP2 \<equiv> 0x81"
abbreviation OP_DUP3 :: u8 where "OP_DUP3 \<equiv> 0x82"
abbreviation OP_DUP4 :: u8 where "OP_DUP4 \<equiv> 0x83"
abbreviation OP_DUP5 :: u8 where "OP_DUP5 \<equiv> 0x84"
abbreviation OP_DUP6 :: u8 where "OP_DUP6 \<equiv> 0x85"
abbreviation OP_DUP7 :: u8 where "OP_DUP7 \<equiv> 0x86"
abbreviation OP_DUP8 :: u8 where "OP_DUP8 \<equiv> 0x87"
abbreviation OP_DUP9 :: u8 where "OP_DUP9 \<equiv> 0x88"
abbreviation OP_DUP10 :: u8 where "OP_DUP10 \<equiv> 0x89"
abbreviation OP_DUP11 :: u8 where "OP_DUP11 \<equiv> 0x8A"
abbreviation OP_DUP12 :: u8 where "OP_DUP12 \<equiv> 0x8B"
abbreviation OP_DUP13 :: u8 where "OP_DUP13 \<equiv> 0x8C"
abbreviation OP_DUP14 :: u8 where "OP_DUP14 \<equiv> 0x8D"
abbreviation OP_DUP15 :: u8 where "OP_DUP15 \<equiv> 0x8E"
abbreviation OP_DUP16 :: u8 where "OP_DUP16 \<equiv> 0x8F"
abbreviation OP_SWAP1 :: u8 where "OP_SWAP1 \<equiv> 0x90"
abbreviation OP_SWAP2 :: u8 where "OP_SWAP2 \<equiv> 0x91"
abbreviation OP_SWAP3 :: u8 where "OP_SWAP3 \<equiv> 0x92"
abbreviation OP_SWAP4 :: u8 where "OP_SWAP4 \<equiv> 0x93"
abbreviation OP_SWAP5 :: u8 where "OP_SWAP5 \<equiv> 0x94"
abbreviation OP_SWAP6 :: u8 where "OP_SWAP6 \<equiv> 0x95"
abbreviation OP_SWAP7 :: u8 where "OP_SWAP7 \<equiv> 0x96"
abbreviation OP_SWAP8 :: u8 where "OP_SWAP8 \<equiv> 0x97"
abbreviation OP_SWAP9 :: u8 where "OP_SWAP9 \<equiv> 0x98"
abbreviation OP_SWAP10 :: u8 where "OP_SWAP10 \<equiv> 0x99"
abbreviation OP_SWAP11 :: u8 where "OP_SWAP11 \<equiv> 0x9A"
abbreviation OP_SWAP12 :: u8 where "OP_SWAP12 \<equiv> 0x9B"
abbreviation OP_SWAP13 :: u8 where "OP_SWAP13 \<equiv> 0x9C"
abbreviation OP_SWAP14 :: u8 where "OP_SWAP14 \<equiv> 0x9D"
abbreviation OP_SWAP15 :: u8 where "OP_SWAP15 \<equiv> 0x9E"
abbreviation OP_SWAP16 :: u8 where "OP_SWAP16 \<equiv> 0x9F"
abbreviation OP_LOG0 :: u8 where "OP_LOG0 \<equiv> 0xA0"
abbreviation OP_LOG1 :: u8 where "OP_LOG1 \<equiv> 0xA1"
abbreviation OP_LOG2 :: u8 where "OP_LOG2 \<equiv> 0xA2"
abbreviation OP_LOG3 :: u8 where "OP_LOG3 \<equiv> 0xA3"
abbreviation OP_LOG4 :: u8 where "OP_LOG4 \<equiv> 0xA4"
abbreviation OP_TLOAD :: u8 where "OP_TLOAD \<equiv> 0xB3"
abbreviation OP_TSTORE :: u8 where "OP_TSTORE \<equiv> 0xB4"
abbreviation OP_CREATE :: u8 where "OP_CREATE \<equiv> 0xF0"
abbreviation OP_CALL :: u8 where "OP_CALL \<equiv> 0xF1"
abbreviation OP_CALLCODE :: u8 where "OP_CALLCODE \<equiv> 0xF2"
abbreviation OP_RETURN :: u8 where "OP_RETURN \<equiv> 0xF3"
abbreviation OP_DELEGATECALL :: u8 where "OP_DELEGATECALL \<equiv> 0xF4"
abbreviation OP_CREATE2 :: u8 where "OP_CREATE2 \<equiv> 0xF5"
abbreviation OP_STATICCALL :: u8 where "OP_STATICCALL \<equiv> 0xFA"
abbreviation OP_REVERT :: u8 where "OP_REVERT \<equiv> 0xFD"
abbreviation OP_INVALID :: u8 where "OP_INVALID \<equiv> 0xFE"
abbreviation OP_SELFDESTRUCT :: u8 where "OP_SELFDESTRUCT \<equiv> 0xFF"

section \<open>Table entries\<close>

text \<open>
  The names of the execution functions, in groups of the same shape: two operands replaced by the
  result, three operands, a value pushed, the top replaced, data copied to memory, contract calls and
  creations, and the instructions that end the frame.
\<close>

datatype binFunc =
    OpAdd | OpMul | OpSub | OpDiv | OpSdiv | OpMod | OpSmod | OpExp | OpSignExtend | OpLt | OpGt
    | OpSlt | OpSgt | OpEq | OpAnd | OpOr | OpXor | OpByte | OpSHL | OpSHR | OpSAR

datatype ternFunc =
    OpAddmod | OpMulmod

datatype envFunc =
    OpAddress | OpOrigin | OpCaller | OpCallValue | OpCallDataSize | OpCodeSize | OpGasprice
    | OpReturnDataSize | OpCoinbase | OpTimestamp | OpNumber | OpDifficulty | OpRandom
    | OpGasLimit | OpChainID | OpSelfBalance | OpBaseFee | OpPc | OpMsize | OpGas | OpPush0

datatype topFunc =
    OpIszero | OpNot | OpBalance | OpCallDataLoad | OpExtCodeSize | OpExtCodeHash | OpBlockhash
    | OpMload | OpSload | OpTload

datatype copyFunc =
    OpCallDataCopy | OpCodeCopy | OpExtCodeCopy | OpReturnDataCopy

datatype subFunc =
    OpCreate | OpCreate2 | OpCall | OpCallCode | OpDelegateCall | OpStaticCall

datatype haltFunc =
    OpStop | OpReturn | OpRevert | OpSelfdestruct | OpUndefined

datatype executionFunc =
    Bin binFunc | Tern ternFunc | Env envFunc | Top topFunc | Copy copyFunc | Sub subFunc | Halt haltFunc
  | OpKeccak256 | OpPop | OpMstore | OpMstore8 | OpSstore | OpTstore | OpJump | OpJumpi | OpJumpdest
  | OpPush1 | MakePush u64 nat | MakeDup nat | MakeSwap nat | MakeLog nat

datatype gasFunc =
    GasMemoryCopier nat | GasSStore | GasSStoreEIP2200 | GasSStoreFunc u64 | GasLog u64
  | GasKeccak256 | GasPureMemory | GasCreate2 | GasCreateEip3860 | GasCreate2Eip3860
  | GasExpFrontier | GasExpEIP158 | GasCall | GasCallCode | GasDelegateCall | GasStaticCall
  | GasSelfdestruct | GasSLoadEIP2929 | GasExtCodeCopyEIP2929 | GasEip2929AccountCheck
  | GasCallVariantEIP2929 gasFunc | GasSelfdestructFn bool

datatype memorySizeFunc =
    MemoryKeccak256 | MemoryCallDataCopy | MemoryReturnDataCopy | MemoryCodeCopy | MemoryExtCodeCopy
  | MemoryMLoad | MemoryMStore8 | MemoryMStore | MemoryCreate | MemoryCreate2 | MemoryCall
  | MemoryDelegateCall | MemoryStaticCall | MemoryReturn | MemoryRevert | MemoryLog

record operation =
  execute :: executionFunc
  constantGas :: u64
  dynamicGas :: "gasFunc option"
  opMinStack :: int
  opMaxStack :: int
  memorySize :: "memorySizeFunc option"

definition mk_op :: "executionFunc \<Rightarrow> u64 \<Rightarrow> gasFunc option \<Rightarrow> int \<Rightarrow> int \<Rightarrow> memorySizeFunc option \<Rightarrow> operation" where
  "mk_op ex c g mn mx m = \<lparr> execute = ex, constantGas = c, dynamicGas = g, opMinStack = mn,
     opMaxStack = mx, memorySize = m \<rparr>"

type_synonym JumpTable = "u8 \<Rightarrow> operation"

definition opcodes :: "u8 list" where
  "opcodes = map word_of_nat [0..<256]"

definition validate :: "JumpTable \<Rightarrow> JumpTable go" where
  "validate jt =
    (if list_ex (\<lambda>i. memorySize (jt i) \<noteq> None \<and> dynamicGas (jt i) = None) opcodes
     then Panic ''op has dynamic memory but not dynamic gas'' else Ret jt)"

section \<open>Modifications by EIP\<close>

definition set_const :: "u8 \<Rightarrow> u64 \<Rightarrow> JumpTable \<Rightarrow> JumpTable" where
  "set_const b c jt = jt(b := (jt b) \<lparr> constantGas := c \<rparr>)"

definition set_dyn :: "u8 \<Rightarrow> gasFunc \<Rightarrow> JumpTable \<Rightarrow> JumpTable" where
  "set_dyn b g jt = jt(b := (jt b) \<lparr> dynamicGas := Some g \<rparr>)"

definition enable1884 :: "JumpTable \<Rightarrow> JumpTable" where
  "enable1884 jt =
    (let jt = set_const OP_SLOAD SloadGasEIP1884 jt;
         jt = set_const OP_BALANCE BalanceGasEIP1884 jt;
         jt = set_const OP_EXTCODEHASH ExtcodeHashGasEIP1884 jt
     in jt(OP_SELFBALANCE := mk_op (Env OpSelfBalance) GasFastStep None (minStack 0 1) (maxStack 0 1) None))"

definition enable1344 :: "JumpTable \<Rightarrow> JumpTable" where
  "enable1344 jt = jt(OP_CHAINID := mk_op (Env OpChainID) GasQuickStep None (minStack 0 1) (maxStack 0 1) None)"

definition enable2200 :: "JumpTable \<Rightarrow> JumpTable" where
  "enable2200 jt = set_dyn OP_SSTORE GasSStoreEIP2200 (set_const OP_SLOAD SloadGasEIP2200 jt)"

definition enable2929 :: "JumpTable \<Rightarrow> JumpTable" where
  "enable2929 jt =
    (let jt = set_dyn OP_SSTORE (GasSStoreFunc SstoreClearsScheduleRefundEIP2200) jt;
         jt = set_dyn OP_SLOAD GasSLoadEIP2929 (set_const OP_SLOAD 0 jt);
         jt = set_dyn OP_EXTCODECOPY GasExtCodeCopyEIP2929 (set_const OP_EXTCODECOPY WarmStorageReadCostEIP2929 jt);
         jt = set_dyn OP_EXTCODESIZE GasEip2929AccountCheck (set_const OP_EXTCODESIZE WarmStorageReadCostEIP2929 jt);
         jt = set_dyn OP_EXTCODEHASH GasEip2929AccountCheck (set_const OP_EXTCODEHASH WarmStorageReadCostEIP2929 jt);
         jt = set_dyn OP_BALANCE GasEip2929AccountCheck (set_const OP_BALANCE WarmStorageReadCostEIP2929 jt);
         jt = set_dyn OP_CALL (GasCallVariantEIP2929 GasCall) (set_const OP_CALL WarmStorageReadCostEIP2929 jt);
         jt = set_dyn OP_CALLCODE (GasCallVariantEIP2929 GasCallCode) (set_const OP_CALLCODE WarmStorageReadCostEIP2929 jt);
         jt = set_dyn OP_STATICCALL (GasCallVariantEIP2929 GasStaticCall) (set_const OP_STATICCALL WarmStorageReadCostEIP2929 jt);
         jt = set_dyn OP_DELEGATECALL (GasCallVariantEIP2929 GasDelegateCall) (set_const OP_DELEGATECALL WarmStorageReadCostEIP2929 jt)
     in set_dyn OP_SELFDESTRUCT (GasSelfdestructFn True) (set_const OP_SELFDESTRUCT SelfdestructGasEIP150 jt))"

definition enable3529 :: "JumpTable \<Rightarrow> JumpTable" where
  "enable3529 jt = set_dyn OP_SELFDESTRUCT (GasSelfdestructFn False)
     (set_dyn OP_SSTORE (GasSStoreFunc SstoreClearsScheduleRefundEIP3529) jt)"

definition enable3198 :: "JumpTable \<Rightarrow> JumpTable" where
  "enable3198 jt = jt(OP_BASEFEE := mk_op (Env OpBaseFee) GasQuickStep None (minStack 0 1) (maxStack 0 1) None)"

definition enable1153 :: "JumpTable \<Rightarrow> JumpTable" where
  "enable1153 jt = jt(
     OP_TLOAD := mk_op (Top OpTload) WarmStorageReadCostEIP2929 None (minStack 1 1) (maxStack 1 1) None,
     OP_TSTORE := mk_op OpTstore WarmStorageReadCostEIP2929 None (minStack 2 0) (maxStack 2 0) None)"

definition enable3855 :: "JumpTable \<Rightarrow> JumpTable" where
  "enable3855 jt = jt(OP_PUSH0 := mk_op (Env OpPush0) GasQuickStep None (minStack 0 1) (maxStack 0 1) None)"

definition enable3860 :: "JumpTable \<Rightarrow> JumpTable" where
  "enable3860 jt = set_dyn OP_CREATE2 GasCreate2Eip3860 (set_dyn OP_CREATE GasCreateEip3860 jt)"

definition activators :: "nat \<Rightarrow> (JumpTable \<Rightarrow> JumpTable) option" where
  "activators = map_of [(3855, enable3855), (3860, enable3860), (3529, enable3529), (3198, enable3198),
     (2929, enable2929), (2200, enable2200), (1884, enable1884), (1344, enable1344), (1153, enable1153)]"

text \<open>\<open>EnableEIP\<close>: the modified table, or an error for an unknown number.\<close>

definition EnableEIP :: "nat \<Rightarrow> JumpTable \<Rightarrow> vmErr + JumpTable" where
  "EnableEIP eipNum jt =
    (case activators eipNum of None \<Rightarrow> Inl (ErrOther ''undefined eip'') | Some enablerFn \<Rightarrow> Inr (enablerFn jt))"

section \<open>Instruction sets\<close>

definition undefined_op :: operation where
  "undefined_op = mk_op (Halt OpUndefined) 0 None 0 (maxStack 0 0) None"

definition frontier_entries :: "(u8 \<times> operation) list" where
  "frontier_entries =
    [ (OP_STOP, mk_op (Halt OpStop) 0 None (minStack 0 0) (maxStack 0 0) None),
      (OP_ADD, mk_op (Bin OpAdd) GasFastestStep None (minStack 2 1) (maxStack 2 1) None),
      (OP_MUL, mk_op (Bin OpMul) GasFastStep None (minStack 2 1) (maxStack 2 1) None),
      (OP_SUB, mk_op (Bin OpSub) GasFastestStep None (minStack 2 1) (maxStack 2 1) None),
      (OP_DIV, mk_op (Bin OpDiv) GasFastStep None (minStack 2 1) (maxStack 2 1) None),
      (OP_SDIV, mk_op (Bin OpSdiv) GasFastStep None (minStack 2 1) (maxStack 2 1) None),
      (OP_MOD, mk_op (Bin OpMod) GasFastStep None (minStack 2 1) (maxStack 2 1) None),
      (OP_SMOD, mk_op (Bin OpSmod) GasFastStep None (minStack 2 1) (maxStack 2 1) None),
      (OP_ADDMOD, mk_op (Tern OpAddmod) GasMidStep None (minStack 3 1) (maxStack 3 1) None),
      (OP_MULMOD, mk_op (Tern OpMulmod) GasMidStep None (minStack 3 1) (maxStack 3 1) None),
      (OP_EXP, mk_op (Bin OpExp) 0 (Some GasExpFrontier) (minStack 2 1) (maxStack 2 1) None),
      (OP_SIGNEXTEND, mk_op (Bin OpSignExtend) GasFastStep None (minStack 2 1) (maxStack 2 1) None),
      (OP_LT, mk_op (Bin OpLt) GasFastestStep None (minStack 2 1) (maxStack 2 1) None),
      (OP_GT, mk_op (Bin OpGt) GasFastestStep None (minStack 2 1) (maxStack 2 1) None),
      (OP_SLT, mk_op (Bin OpSlt) GasFastestStep None (minStack 2 1) (maxStack 2 1) None),
      (OP_SGT, mk_op (Bin OpSgt) GasFastestStep None (minStack 2 1) (maxStack 2 1) None),
      (OP_EQ, mk_op (Bin OpEq) GasFastestStep None (minStack 2 1) (maxStack 2 1) None),
      (OP_ISZERO, mk_op (Top OpIszero) GasFastestStep None (minStack 1 1) (maxStack 1 1) None),
      (OP_AND, mk_op (Bin OpAnd) GasFastestStep None (minStack 2 1) (maxStack 2 1) None),
      (OP_XOR, mk_op (Bin OpXor) GasFastestStep None (minStack 2 1) (maxStack 2 1) None),
      (OP_OR, mk_op (Bin OpOr) GasFastestStep None (minStack 2 1) (maxStack 2 1) None),
      (OP_NOT, mk_op (Top OpNot) GasFastestStep None (minStack 1 1) (maxStack 1 1) None),
      (OP_BYTE, mk_op (Bin OpByte) GasFastestStep None (minStack 2 1) (maxStack 2 1) None),
      (OP_KECCAK256, mk_op OpKeccak256 Keccak256Gas (Some GasKeccak256) (minStack 2 1) (maxStack 2 1) (Some MemoryKeccak256)),
      (OP_ADDRESS, mk_op (Env OpAddress) GasQuickStep None (minStack 0 1) (maxStack 0 1) None),
      (OP_BALANCE, mk_op (Top OpBalance) BalanceGasFrontier None (minStack 1 1) (maxStack 1 1) None),
      (OP_ORIGIN, mk_op (Env OpOrigin) GasQuickStep None (minStack 0 1) (maxStack 0 1) None),
      (OP_CALLER, mk_op (Env OpCaller) GasQuickStep None (minStack 0 1) (maxStack 0 1) None),
      (OP_CALLVALUE, mk_op (Env OpCallValue) GasQuickStep None (minStack 0 1) (maxStack 0 1) None),
      (OP_CALLDATALOAD, mk_op (Top OpCallDataLoad) GasFastestStep None (minStack 1 1) (maxStack 1 1) None),
      (OP_CALLDATASIZE, mk_op (Env OpCallDataSize) GasQuickStep None (minStack 0 1) (maxStack 0 1) None),
      (OP_CALLDATACOPY, mk_op (Copy OpCallDataCopy) GasFastestStep (Some (GasMemoryCopier 2)) (minStack 3 0) (maxStack 3 0) (Some MemoryCallDataCopy)),
      (OP_CODESIZE, mk_op (Env OpCodeSize) GasQuickStep None (minStack 0 1) (maxStack 0 1) None),
      (OP_CODECOPY, mk_op (Copy OpCodeCopy) GasFastestStep (Some (GasMemoryCopier 2)) (minStack 3 0) (maxStack 3 0) (Some MemoryCodeCopy)),
      (OP_GASPRICE, mk_op (Env OpGasprice) GasQuickStep None (minStack 0 1) (maxStack 0 1) None),
      (OP_EXTCODESIZE, mk_op (Top OpExtCodeSize) ExtcodeSizeGasFrontier None (minStack 1 1) (maxStack 1 1) None),
      (OP_EXTCODECOPY, mk_op (Copy OpExtCodeCopy) ExtcodeCopyBaseFrontier (Some (GasMemoryCopier 3)) (minStack 4 0) (maxStack 4 0) (Some MemoryExtCodeCopy)),
      (OP_BLOCKHASH, mk_op (Top OpBlockhash) GasExtStep None (minStack 1 1) (maxStack 1 1) None),
      (OP_COINBASE, mk_op (Env OpCoinbase) GasQuickStep None (minStack 0 1) (maxStack 0 1) None),
      (OP_TIMESTAMP, mk_op (Env OpTimestamp) GasQuickStep None (minStack 0 1) (maxStack 0 1) None),
      (OP_NUMBER, mk_op (Env OpNumber) GasQuickStep None (minStack 0 1) (maxStack 0 1) None),
      (OP_DIFFICULTY, mk_op (Env OpDifficulty) GasQuickStep None (minStack 0 1) (maxStack 0 1) None),
      (OP_GASLIMIT, mk_op (Env OpGasLimit) GasQuickStep None (minStack 0 1) (maxStack 0 1) None),
      (OP_POP, mk_op OpPop GasQuickStep None (minStack 1 0) (maxStack 1 0) None),
      (OP_MLOAD, mk_op (Top OpMload) GasFastestStep (Some GasPureMemory) (minStack 1 1) (maxStack 1 1) (Some MemoryMLoad)),
      (OP_MSTORE, mk_op OpMstore GasFastestStep (Some GasPureMemory) (minStack 2 0) (maxStack 2 0) (Some MemoryMStore)),
      (OP_MSTORE8, mk_op OpMstore8 GasFastestStep (Some GasPureMemory) (minStack 2 0) (maxStack 2 0) (Some MemoryMStore8)),
      (OP_SLOAD, mk_op (Top OpSload) SloadGasFrontier None (minStack 1 1) (maxStack 1 1) None),
      (OP_SSTORE, mk_op OpSstore 0 (Some GasSStore) (minStack 2 0) (maxStack 2 0) None),
      (OP_JUMP, mk_op OpJump GasMidStep None (minStack 1 0) (maxStack 1 0) None),
      (OP_JUMPI, mk_op OpJumpi GasSlowStep None (minStack 2 0) (maxStack 2 0) None),
      (OP_PC, mk_op (Env OpPc) GasQuickStep None (minStack 0 1) (maxStack 0 1) None),
      (OP_MSIZE, mk_op (Env OpMsize) GasQuickStep None (minStack 0 1) (maxStack 0 1) None),
      (OP_GAS, mk_op (Env OpGas) GasQuickStep None (minStack 0 1) (maxStack 0 1) None),
      (OP_JUMPDEST, mk_op OpJumpdest JumpdestGas None (minStack 0 0) (maxStack 0 0) None),
      (OP_PUSH1, mk_op OpPush1 GasFastestStep None (minStack 0 1) (maxStack 0 1) None),
      (OP_PUSH2, mk_op (MakePush 2 2) GasFastestStep None (minStack 0 1) (maxStack 0 1) None),
      (OP_PUSH3, mk_op (MakePush 3 3) GasFastestStep None (minStack 0 1) (maxStack 0 1) None),
      (OP_PUSH4, mk_op (MakePush 4 4) GasFastestStep None (minStack 0 1) (maxStack 0 1) None),
      (OP_PUSH5, mk_op (MakePush 5 5) GasFastestStep None (minStack 0 1) (maxStack 0 1) None),
      (OP_PUSH6, mk_op (MakePush 6 6) GasFastestStep None (minStack 0 1) (maxStack 0 1) None),
      (OP_PUSH7, mk_op (MakePush 7 7) GasFastestStep None (minStack 0 1) (maxStack 0 1) None),
      (OP_PUSH8, mk_op (MakePush 8 8) GasFastestStep None (minStack 0 1) (maxStack 0 1) None),
      (OP_PUSH9, mk_op (MakePush 9 9) GasFastestStep None (minStack 0 1) (maxStack 0 1) None),
      (OP_PUSH10, mk_op (MakePush 10 10) GasFastestStep None (minStack 0 1) (maxStack 0 1) None),
      (OP_PUSH11, mk_op (MakePush 11 11) GasFastestStep None (minStack 0 1) (maxStack 0 1) None),
      (OP_PUSH12, mk_op (MakePush 12 12) GasFastestStep None (minStack 0 1) (maxStack 0 1) None),
      (OP_PUSH13, mk_op (MakePush 13 13) GasFastestStep None (minStack 0 1) (maxStack 0 1) None),
      (OP_PUSH14, mk_op (MakePush 14 14) GasFastestStep None (minStack 0 1) (maxStack 0 1) None),
      (OP_PUSH15, mk_op (MakePush 15 15) GasFastestStep None (minStack 0 1) (maxStack 0 1) None),
      (OP_PUSH16, mk_op (MakePush 16 16) GasFastestStep None (minStack 0 1) (maxStack 0 1) None),
      (OP_PUSH17, mk_op (MakePush 17 17) GasFastestStep None (minStack 0 1) (maxStack 0 1) None),
      (OP_PUSH18, mk_op (MakePush 18 18) GasFastestStep None (minStack 0 1) (maxStack 0 1) None),
      (OP_PUSH19, mk_op (MakePush 19 19) GasFastestStep None (minStack 0 1) (maxStack 0 1) None),
      (OP_PUSH20, mk_op (MakePush 20 20) GasFastestStep None (minStack 0 1) (maxStack 0 1) None),
      (OP_PUSH21, mk_op (MakePush 21 21) GasFastestStep None (minStack 0 1) (maxStack 0 1) None),
      (OP_PUSH22, mk_op (MakePush 22 22) GasFastestStep None (minStack 0 1) (maxStack 0 1) None),
      (OP_PUSH23, mk_op (MakePush 23 23) GasFastestStep None (minStack 0 1) (maxStack 0 1) None),
      (OP_PUSH24, mk_op (MakePush 24 24) GasFastestStep None (minStack 0 1) (maxStack 0 1) None),
      (OP_PUSH25, mk_op (MakePush 25 25) GasFastestStep None (minStack 0 1) (maxStack 0 1) None),
      (OP_PUSH26, mk_op (MakePush 26 26) GasFastestStep None (minStack 0 1) (maxStack 0 1) None),
      (OP_PUSH27, mk_op (MakePush 27 27) GasFastestStep None (minStack 0 1) (maxStack 0 1) None),
      (OP_PUSH28, mk_op (MakePush 28 28) GasFastestStep None (minStack 0 1) (maxStack 0 1) None),
      (OP_PUSH29, mk_op (MakePush 29 29) GasFastestStep None (minStack 0 1) (maxStack 0 1) None),
      (OP_PUSH30, mk_op (MakePush 30 30) GasFastestStep None (minStack 0 1) (maxStack 0 1) None),
      (OP_PUSH31, mk_op (MakePush 31 31) GasFastestStep None (minStack 0 1) (maxStack 0 1) None),
      (OP_PUSH32, mk_op (MakePush 32 32) GasFastestStep None (minStack 0 1) (maxStack 0 1) None),
      (OP_DUP1, mk_op (MakeDup 1) GasFastestStep None (minDupStack 1) (maxDupStack 1) None),
      (OP_DUP2, mk_op (MakeDup 2) GasFastestStep None (minDupStack 2) (maxDupStack 2) None),
      (OP_DUP3, mk_op (MakeDup 3) GasFastestStep None (minDupStack 3) (maxDupStack 3) None),
      (OP_DUP4, mk_op (MakeDup 4) GasFastestStep None (minDupStack 4) (maxDupStack 4) None),
      (OP_DUP5, mk_op (MakeDup 5) GasFastestStep None (minDupStack 5) (maxDupStack 5) None),
      (OP_DUP6, mk_op (MakeDup 6) GasFastestStep None (minDupStack 6) (maxDupStack 6) None),
      (OP_DUP7, mk_op (MakeDup 7) GasFastestStep None (minDupStack 7) (maxDupStack 7) None),
      (OP_DUP8, mk_op (MakeDup 8) GasFastestStep None (minDupStack 8) (maxDupStack 8) None),
      (OP_DUP9, mk_op (MakeDup 9) GasFastestStep None (minDupStack 9) (maxDupStack 9) None),
      (OP_DUP10, mk_op (MakeDup 10) GasFastestStep None (minDupStack 10) (maxDupStack 10) None),
      (OP_DUP11, mk_op (MakeDup 11) GasFastestStep None (minDupStack 11) (maxDupStack 11) None),
      (OP_DUP12, mk_op (MakeDup 12) GasFastestStep None (minDupStack 12) (maxDupStack 12) None),
      (OP_DUP13, mk_op (MakeDup 13) GasFastestStep None (minDupStack 13) (maxDupStack 13) None),
      (OP_DUP14, mk_op (MakeDup 14) GasFastestStep None (minDupStack 14) (maxDupStack 14) None),
      (OP_DUP15, mk_op (MakeDup 15) GasFastestStep None (minDupStack 15) (maxDupStack 15) None),
      (OP_DUP16, mk_op (MakeDup 16) GasFastestStep None (minDupStack 16) (maxDupStack 16) None),
      (OP_SWAP1, mk_op (MakeSwap 1) GasFastestStep None (minSwapStack 2) (maxSwapStack 2) None),
      (OP_SWAP2, mk_op (MakeSwap 2) GasFastestStep None (minSwapStack 3) (maxSwapStack 3) None),
      (OP_SWAP3, mk_op (MakeSwap 3) GasFastestStep None (minSwapStack 4) (maxSwapStack 4) None),
      (OP_SWAP4, mk_op (MakeSwap 4) GasFastestStep None (minSwapStack 5) (maxSwapStack 5) None),
      (OP_SWAP5, mk_op (MakeSwap 5) GasFastestStep None (minSwapStack 6) (maxSwapStack 6) None),
      (OP_SWAP6, mk_op (MakeSwap 6) GasFastestStep None (minSwapStack 7) (maxSwapStack 7) None),
      (OP_SWAP7, mk_op (MakeSwap 7) GasFastestStep None (minSwapStack 8) (maxSwapStack 8) None),
      (OP_SWAP8, mk_op (MakeSwap 8) GasFastestStep None (minSwapStack 9) (maxSwapStack 9) None),
      (OP_SWAP9, mk_op (MakeSwap 9) GasFastestStep None (minSwapStack 10) (maxSwapStack 10) None),
      (OP_SWAP10, mk_op (MakeSwap 10) GasFastestStep None (minSwapStack 11) (maxSwapStack 11) None),
      (OP_SWAP11, mk_op (MakeSwap 11) GasFastestStep None (minSwapStack 12) (maxSwapStack 12) None),
      (OP_SWAP12, mk_op (MakeSwap 12) GasFastestStep None (minSwapStack 13) (maxSwapStack 13) None),
      (OP_SWAP13, mk_op (MakeSwap 13) GasFastestStep None (minSwapStack 14) (maxSwapStack 14) None),
      (OP_SWAP14, mk_op (MakeSwap 14) GasFastestStep None (minSwapStack 15) (maxSwapStack 15) None),
      (OP_SWAP15, mk_op (MakeSwap 15) GasFastestStep None (minSwapStack 16) (maxSwapStack 16) None),
      (OP_SWAP16, mk_op (MakeSwap 16) GasFastestStep None (minSwapStack 17) (maxSwapStack 17) None),
      (OP_LOG0, mk_op (MakeLog 0) 0 (Some (GasLog 0)) (minStack 2 0) (maxStack 2 0) (Some MemoryLog)),
      (OP_LOG1, mk_op (MakeLog 1) 0 (Some (GasLog 1)) (minStack 3 0) (maxStack 3 0) (Some MemoryLog)),
      (OP_LOG2, mk_op (MakeLog 2) 0 (Some (GasLog 2)) (minStack 4 0) (maxStack 4 0) (Some MemoryLog)),
      (OP_LOG3, mk_op (MakeLog 3) 0 (Some (GasLog 3)) (minStack 5 0) (maxStack 5 0) (Some MemoryLog)),
      (OP_LOG4, mk_op (MakeLog 4) 0 (Some (GasLog 4)) (minStack 6 0) (maxStack 6 0) (Some MemoryLog)),
      (OP_CREATE, mk_op (Sub OpCreate) CreateGas (Some GasPureMemory) (minStack 3 1) (maxStack 3 1) (Some MemoryCreate)),
      (OP_CALL, mk_op (Sub OpCall) CallGasFrontier (Some GasCall) (minStack 7 1) (maxStack 7 1) (Some MemoryCall)),
      (OP_CALLCODE, mk_op (Sub OpCallCode) CallGasFrontier (Some GasCallCode) (minStack 7 1) (maxStack 7 1) (Some MemoryCall)),
      (OP_RETURN, mk_op (Halt OpReturn) 0 (Some GasPureMemory) (minStack 2 0) (maxStack 2 0) (Some MemoryReturn)),
      (OP_SELFDESTRUCT, mk_op (Halt OpSelfdestruct) 0 (Some GasSelfdestruct) (minStack 1 0) (maxStack 1 0) None) ]"

definition newFrontierInstructionSet :: "JumpTable go" where
  "newFrontierInstructionSet =
     validate (\<lambda>i. case map_of frontier_entries i of None \<Rightarrow> undefined_op | Some entry \<Rightarrow> entry)"

definition newHomesteadInstructionSet :: "JumpTable go" where
  "newHomesteadInstructionSet = go_bind newFrontierInstructionSet (\<lambda>set. validate (set(
     OP_DELEGATECALL := mk_op (Sub OpDelegateCall) CallGasFrontier (Some GasDelegateCall) (minStack 6 1) (maxStack 6 1)
       (Some MemoryDelegateCall))))"

definition newTangerineWhistleInstructionSet :: "JumpTable go" where
  "newTangerineWhistleInstructionSet = go_bind newHomesteadInstructionSet (\<lambda>set.
     let set = set_const OP_BALANCE BalanceGasEIP150 set;
         set = set_const OP_EXTCODESIZE ExtcodeSizeGasEIP150 set;
         set = set_const OP_SLOAD SloadGasEIP150 set;
         set = set_const OP_EXTCODECOPY ExtcodeCopyBaseEIP150 set;
         set = set_const OP_CALL CallGasEIP150 set;
         set = set_const OP_CALLCODE CallGasEIP150 set;
         set = set_const OP_DELEGATECALL CallGasEIP150 set
     in validate set)"

definition newSpuriousDragonInstructionSet :: "JumpTable go" where
  "newSpuriousDragonInstructionSet = go_bind newTangerineWhistleInstructionSet (\<lambda>set.
     validate (set_dyn OP_EXP GasExpEIP158 set))"

definition newByzantiumInstructionSet :: "JumpTable go" where
  "newByzantiumInstructionSet = go_bind newSpuriousDragonInstructionSet (\<lambda>set. validate (set(
     OP_STATICCALL := mk_op (Sub OpStaticCall) CallGasEIP150 (Some GasStaticCall) (minStack 6 1) (maxStack 6 1)
       (Some MemoryStaticCall),
     OP_RETURNDATASIZE := mk_op (Env OpReturnDataSize) GasQuickStep None (minStack 0 1) (maxStack 0 1) None,
     OP_RETURNDATACOPY := mk_op (Copy OpReturnDataCopy) GasFastestStep (Some (GasMemoryCopier 2)) (minStack 3 0)
       (maxStack 3 0) (Some MemoryReturnDataCopy),
     OP_REVERT := mk_op (Halt OpRevert) 0 (Some GasPureMemory) (minStack 2 0) (maxStack 2 0) (Some MemoryRevert))))"

definition newConstantinopleInstructionSet :: "JumpTable go" where
  "newConstantinopleInstructionSet = go_bind newByzantiumInstructionSet (\<lambda>set. validate (set(
     OP_SHL := mk_op (Bin OpSHL) GasFastestStep None (minStack 2 1) (maxStack 2 1) None,
     OP_SHR := mk_op (Bin OpSHR) GasFastestStep None (minStack 2 1) (maxStack 2 1) None,
     OP_SAR := mk_op (Bin OpSAR) GasFastestStep None (minStack 2 1) (maxStack 2 1) None,
     OP_EXTCODEHASH := mk_op (Top OpExtCodeHash) ExtcodeHashGasConstantinople None (minStack 1 1) (maxStack 1 1) None,
     OP_CREATE2 := mk_op (Sub OpCreate2) Create2Gas (Some GasCreate2) (minStack 4 1) (maxStack 4 1)
       (Some MemoryCreate2))))"

definition newIstanbulInstructionSet :: "JumpTable go" where
  "newIstanbulInstructionSet = go_bind newConstantinopleInstructionSet (\<lambda>set.
     validate (enable2200 (enable1884 (enable1344 set))))"

definition newBerlinInstructionSet :: "JumpTable go" where
  "newBerlinInstructionSet = go_bind newIstanbulInstructionSet (\<lambda>set. validate (enable2929 set))"

definition newLondonInstructionSet :: "JumpTable go" where
  "newLondonInstructionSet = go_bind newBerlinInstructionSet (\<lambda>set. validate (enable3198 (enable3529 set)))"

definition newMergeInstructionSet :: "JumpTable go" where
  "newMergeInstructionSet = go_bind newLondonInstructionSet (\<lambda>set. validate (set(
     OP_PREVRANDAO := mk_op (Env OpRandom) GasQuickStep None (minStack 0 1) (maxStack 0 1) None)))"

definition newShanghaiInstructionSet :: "JumpTable go" where
  "newShanghaiInstructionSet = go_bind newMergeInstructionSet (\<lambda>set. validate (enable3860 (enable3855 set)))"

text \<open>The choice of the table in \<open>NewEVMInterpreter\<close> (\<^verbatim>\<open>interpreter.go\<close>), and its loop over the extra EIPs.\<close>

definition instructionSet :: "Rules \<Rightarrow> JumpTable go" where
  "instructionSet rules =
    (if rIsShanghai rules then newShanghaiInstructionSet
     else if rIsMerge rules then newMergeInstructionSet
     else if rIsLondon rules then newLondonInstructionSet
     else if rIsBerlin rules then newBerlinInstructionSet
     else if rIsIstanbul rules then newIstanbulInstructionSet
     else if rIsConstantinople rules then newConstantinopleInstructionSet
     else if rIsByzantium rules then newByzantiumInstructionSet
     else if rIsEIP158 rules then newSpuriousDragonInstructionSet
     else if rIsEIP150 rules then newTangerineWhistleInstructionSet
     else if rIsHomestead rules then newHomesteadInstructionSet
     else newFrontierInstructionSet)"

fun enable_extra :: "nat list \<Rightarrow> JumpTable \<Rightarrow> JumpTable \<times> nat list" where
  "enable_extra [] jt = (jt, [])"
| "enable_extra (eip # eips) jt =
    (case EnableEIP eip jt of
       Inl err \<Rightarrow> enable_extra eips jt
     | Inr jt' \<Rightarrow> (case enable_extra eips jt' of (jt'', ok) \<Rightarrow> (jt'', eip # ok)))"

definition NewEVMInterpreter :: "Rules \<Rightarrow> nat list \<Rightarrow> (JumpTable \<times> nat list) go" where
  "NewEVMInterpreter rules extraEips = go_bind (instructionSet rules) (\<lambda>table. Ret (enable_extra extraEips table))"

section \<open>Consistency of the tables\<close>

text \<open>What an instruction pops and pushes, the memory function it needs, and the gas functions that fit it.\<close>

fun arity :: "executionFunc \<Rightarrow> nat \<times> nat" where
  "arity (Bin f) = (2, 1)"
| "arity (Tern f) = (3, 1)"
| "arity (Env f) = (0, 1)"
| "arity (Top f) = (1, 1)"
| "arity (Copy f) = (if f = OpExtCodeCopy then (4, 0) else (3, 0))"
| "arity (Sub f) = (case f of OpCreate \<Rightarrow> (3, 1) | OpCreate2 \<Rightarrow> (4, 1) | OpCall \<Rightarrow> (7, 1) | OpCallCode \<Rightarrow> (7, 1)
     | OpDelegateCall \<Rightarrow> (6, 1) | OpStaticCall \<Rightarrow> (6, 1))"
| "arity (Halt f) = (case f of OpStop \<Rightarrow> (0, 0) | OpReturn \<Rightarrow> (2, 0) | OpRevert \<Rightarrow> (2, 0)
     | OpSelfdestruct \<Rightarrow> (1, 0) | OpUndefined \<Rightarrow> (0, 0))"
| "arity OpKeccak256 = (2, 1)"
| "arity OpPop = (1, 0)"
| "arity OpMstore = (2, 0)"
| "arity OpMstore8 = (2, 0)"
| "arity OpSstore = (2, 0)"
| "arity OpTstore = (2, 0)"
| "arity OpJump = (1, 0)"
| "arity OpJumpi = (2, 0)"
| "arity OpJumpdest = (0, 0)"
| "arity OpPush1 = (0, 1)"
| "arity (MakePush sz n) = (0, 1)"
| "arity (MakeDup n) = (n, n + 1)"
| "arity (MakeSwap n) = (n + 1, n + 1)"
| "arity (MakeLog n) = (n + 2, 0)"

fun mem_of :: "executionFunc \<Rightarrow> memorySizeFunc option" where
  "mem_of (Top f) = (if f = OpMload then Some MemoryMLoad else None)"
| "mem_of (Copy f) = Some (case f of OpCallDataCopy \<Rightarrow> MemoryCallDataCopy | OpCodeCopy \<Rightarrow> MemoryCodeCopy
     | OpExtCodeCopy \<Rightarrow> MemoryExtCodeCopy | OpReturnDataCopy \<Rightarrow> MemoryReturnDataCopy)"
| "mem_of (Sub f) = Some (case f of OpCreate \<Rightarrow> MemoryCreate | OpCreate2 \<Rightarrow> MemoryCreate2 | OpCall \<Rightarrow> MemoryCall
     | OpCallCode \<Rightarrow> MemoryCall | OpDelegateCall \<Rightarrow> MemoryDelegateCall | OpStaticCall \<Rightarrow> MemoryStaticCall)"
| "mem_of (Halt f) = (if f = OpReturn then Some MemoryReturn else if f = OpRevert then Some MemoryRevert else None)"
| "mem_of OpKeccak256 = Some MemoryKeccak256"
| "mem_of OpMstore = Some MemoryMStore"
| "mem_of OpMstore8 = Some MemoryMStore8"
| "mem_of (MakeLog n) = Some MemoryLog"
| "mem_of f = None"

fun gas_fits :: "executionFunc \<Rightarrow> u64 \<Rightarrow> gasFunc option \<Rightarrow> bool" where
  "gas_fits (Bin f) c g = (if f = OpExp then g = Some GasExpFrontier \<or> g = Some GasExpEIP158 else 0 < c \<and> g = None)"
| "gas_fits (Top f) c g =
    (if f = OpSload then 0 < c \<and> g = None \<or> g = Some GasSLoadEIP2929
     else 0 < c \<and> (if f = OpMload then g = Some GasPureMemory
       else if f \<in> {OpBalance, OpExtCodeSize, OpExtCodeHash} then g = None \<or> g = Some GasEip2929AccountCheck
       else g = None))"
| "gas_fits (Copy f) c g = (0 < c \<and> (if f = OpExtCodeCopy
     then g = Some (GasMemoryCopier 3) \<or> g = Some GasExtCodeCopyEIP2929 else g = Some (GasMemoryCopier 2)))"
| "gas_fits (Sub f) c g = (0 < c \<and> (case f of
      OpCreate \<Rightarrow> g = Some GasPureMemory \<or> g = Some GasCreateEip3860
    | OpCreate2 \<Rightarrow> g = Some GasCreate2 \<or> g = Some GasCreate2Eip3860
    | OpCall \<Rightarrow> g = Some GasCall \<or> g = Some (GasCallVariantEIP2929 GasCall)
    | OpCallCode \<Rightarrow> g = Some GasCallCode \<or> g = Some (GasCallVariantEIP2929 GasCallCode)
    | OpDelegateCall \<Rightarrow> g = Some GasDelegateCall \<or> g = Some (GasCallVariantEIP2929 GasDelegateCall)
    | OpStaticCall \<Rightarrow> g = Some GasStaticCall \<or> g = Some (GasCallVariantEIP2929 GasStaticCall)))"
| "gas_fits (Halt f) c g = (case f of OpStop \<Rightarrow> g = None | OpUndefined \<Rightarrow> g = None
    | OpReturn \<Rightarrow> g = Some GasPureMemory | OpRevert \<Rightarrow> g = Some GasPureMemory
    | OpSelfdestruct \<Rightarrow> g = Some GasSelfdestruct \<or> g = Some (GasSelfdestructFn True) \<or> g = Some (GasSelfdestructFn False))"
| "gas_fits OpKeccak256 c g = (0 < c \<and> g = Some GasKeccak256)"
| "gas_fits OpMstore c g = (0 < c \<and> g = Some GasPureMemory)"
| "gas_fits OpMstore8 c g = (0 < c \<and> g = Some GasPureMemory)"
| "gas_fits OpSstore c g = (g = Some GasSStore \<or> g = Some GasSStoreEIP2200 \<or>
     g = Some (GasSStoreFunc SstoreClearsScheduleRefundEIP2200) \<or>
     g = Some (GasSStoreFunc SstoreClearsScheduleRefundEIP3529))"
| "gas_fits (MakeLog n) c g = (g = Some (GasLog (word_of_nat n)))"
| "gas_fits f c g = (0 < c \<and> g = None)"

definition op_ok :: "operation \<Rightarrow> bool" where
  "op_ok p \<longleftrightarrow> opMinStack p = int (fst (arity (execute p))) \<and>
     opMaxStack p = 1024 + int (fst (arity (execute p))) - int (snd (arity (execute p))) \<and>
     memorySize p = mem_of (execute p) \<and> gas_fits (execute p) (constantGas p) (dynamicGas p) \<and>
     (\<forall>n. execute p = MakeDup n \<longrightarrow> 0 < n)"

definition table_ok :: "JumpTable \<Rightarrow> bool" where
  "table_ok jt \<longleftrightarrow> (\<forall>b. op_ok (jt b))"

lemma table_ok_upd: "table_ok jt \<Longrightarrow> op_ok p \<Longrightarrow> table_ok (jt(b := p))"
  by (simp add: table_ok_def)

lemma gas_fits_memory: "gas_fits f c g \<Longrightarrow> mem_of f \<noteq> None \<Longrightarrow> g \<noteq> None"
  by (cases f) (auto split: if_splits subFunc.splits haltFunc.splits)

lemma validate_ok: "table_ok jt \<Longrightarrow> validate jt = Ret jt"
  using gas_fits_memory by (fastforce simp: validate_def table_ok_def op_ok_def list_ex_iff)

lemma frontier_entries_ok: "list_all (\<lambda>(b, p). op_ok p) frontier_entries"
  unfolding frontier_entries_def op_ok_def mk_op_def stack_bound_defs
  by simp

text \<open>The modifications keep the instruction of every opcode; \<open>assigned\<close> lists the ones they refer to.\<close>

definition assigned :: "JumpTable \<Rightarrow> (u8 \<times> executionFunc) list \<Rightarrow> bool" where
  "assigned jt xs \<longleftrightarrow> list_all (\<lambda>(b, e). execute (jt b) = e) xs"

lemma execute_set [simp]: "execute (set_const b c jt x) = execute (jt x)" "execute (set_dyn b g jt x) = execute (jt x)"
  by (simp_all add: set_const_def set_dyn_def)

lemma op_ok_set:
  assumes "op_ok (jt b)"
  shows "gas_fits (execute (jt b)) c (dynamicGas (jt b)) \<Longrightarrow> op_ok ((jt b) \<lparr> constantGas := c \<rparr>)"
    "gas_fits (execute (jt b)) (constantGas (jt b)) (Some g) \<Longrightarrow> op_ok ((jt b) \<lparr> dynamicGas := Some g \<rparr>)"
  using assms by (simp_all add: op_ok_def)

lemma gas_fits_pos: "0 < c' \<Longrightarrow> gas_fits f c g \<Longrightarrow> gas_fits f c' g"
  by (cases f) (auto split: if_splits subFunc.splits haltFunc.splits)

lemma table_ok_set_const: "table_ok jt \<Longrightarrow> 0 < c \<Longrightarrow> table_ok (set_const b c jt)"
  unfolding set_const_def by (intro table_ok_upd op_ok_set) (auto simp: table_ok_def op_ok_def intro: gas_fits_pos)

lemma table_ok_set_dyn:
  "table_ok jt \<Longrightarrow> gas_fits (execute (jt b)) (constantGas (jt b)) (Some g) \<Longrightarrow> table_ok (set_dyn b g jt)"
  unfolding set_dyn_def by (intro table_ok_upd op_ok_set) (simp_all add: table_ok_def)

lemma table_ok_set_both:
  "table_ok jt \<Longrightarrow> gas_fits (execute (jt b)) c (Some g) \<Longrightarrow> table_ok (set_dyn b g (set_const b c jt))"
  unfolding set_dyn_def set_const_def
  by (simp add: table_ok_def op_ok_def)

abbreviation frontier_assigned :: "(u8 \<times> executionFunc) list" where
  "frontier_assigned \<equiv> [(OP_SLOAD, Top OpSload), (OP_BALANCE, Top OpBalance), (OP_EXTCODESIZE, Top OpExtCodeSize),
     (OP_EXTCODECOPY, Copy OpExtCodeCopy), (OP_CALL, Sub OpCall), (OP_CALLCODE, Sub OpCallCode),
     (OP_EXP, Bin OpExp), (OP_SSTORE, OpSstore), (OP_SELFDESTRUCT, Halt OpSelfdestruct), (OP_CREATE, Sub OpCreate)]"

lemma frontier_ok:
  "\<exists>jt. newFrontierInstructionSet = Ret jt \<and> table_ok jt \<and> assigned jt frontier_assigned"
proof -
  let ?jt = "\<lambda>i. case map_of frontier_entries i of None \<Rightarrow> undefined_op | Some entry \<Rightarrow> entry"
  have "op_ok p" if "map_of frontier_entries i = Some p" for i p
    using map_of_SomeD [OF that] frontier_entries_ok by (auto simp: list_all_iff)
  moreover have "op_ok undefined_op" by (simp add: undefined_op_def mk_op_def op_ok_def stack_bound_defs)
  ultimately have ok: "table_ok ?jt" by (auto simp: table_ok_def split: option.split)
  have "assigned ?jt frontier_assigned"
    by (simp add: assigned_def frontier_entries_def mk_op_def)
  with ok validate_ok [OF ok] show ?thesis unfolding newFrontierInstructionSet_def by blast
qed

lemma table_step:
  assumes "\<exists>jt. m = Ret jt \<and> table_ok jt \<and> assigned jt xs"
    and "\<And>jt. table_ok jt \<Longrightarrow> assigned jt xs \<Longrightarrow> table_ok (F jt) \<and> assigned (F jt) ys"
  shows "\<exists>jt. go_bind m (\<lambda>set. validate (F set)) = Ret jt \<and> table_ok jt \<and> assigned jt ys"
  using assms by (auto simp: validate_ok)

lemmas table_intros = table_ok_upd table_ok_set_const table_ok_set_dyn table_ok_set_both

lemmas entry_defs = op_ok_def mk_op_def stack_bound_defs

abbreviation homestead_assigned :: "(u8 \<times> executionFunc) list" where
  "homestead_assigned \<equiv> (OP_DELEGATECALL, Sub OpDelegateCall) # frontier_assigned"

abbreviation byzantium_assigned :: "(u8 \<times> executionFunc) list" where
  "byzantium_assigned \<equiv> (OP_STATICCALL, Sub OpStaticCall) # homestead_assigned"

abbreviation constantinople_assigned :: "(u8 \<times> executionFunc) list" where
  "constantinople_assigned \<equiv> (OP_EXTCODEHASH, Top OpExtCodeHash) # (OP_CREATE2, Sub OpCreate2) # byzantium_assigned"

lemma homestead_ok:
  "\<exists>jt. newHomesteadInstructionSet = Ret jt \<and> table_ok jt \<and> assigned jt homestead_assigned"
  unfolding newHomesteadInstructionSet_def
  by (rule table_step [OF frontier_ok]) (auto intro!: table_ok_upd simp: entry_defs assigned_def)

lemma tangerine_ok:
  "\<exists>jt. newTangerineWhistleInstructionSet = Ret jt \<and> table_ok jt \<and> assigned jt homestead_assigned"
  unfolding newTangerineWhistleInstructionSet_def Let_def
  by (rule table_step [OF homestead_ok]) (auto intro!: table_ok_set_const simp: assigned_def)

lemma spurious_ok:
  "\<exists>jt. newSpuriousDragonInstructionSet = Ret jt \<and> table_ok jt \<and> assigned jt homestead_assigned"
  unfolding newSpuriousDragonInstructionSet_def
  by (rule table_step [OF tangerine_ok]) (auto intro!: table_ok_set_dyn simp: assigned_def)

lemma byzantium_ok:
  "\<exists>jt. newByzantiumInstructionSet = Ret jt \<and> table_ok jt \<and> assigned jt byzantium_assigned"
  unfolding newByzantiumInstructionSet_def
  by (rule table_step [OF spurious_ok]) (auto intro!: table_ok_upd simp: entry_defs assigned_def)

lemma constantinople_ok:
  "\<exists>jt. newConstantinopleInstructionSet = Ret jt \<and> table_ok jt \<and> assigned jt constantinople_assigned"
  unfolding newConstantinopleInstructionSet_def
  by (rule table_step [OF byzantium_ok]) (auto intro!: table_ok_upd simp: entry_defs assigned_def)

lemma table_ok_Sub: "table_ok jt \<Longrightarrow> execute (jt b) = Sub f \<Longrightarrow> 0 < constantGas (jt b)"
  by (metis gas_fits.simps(4) op_ok_def table_ok_def)

lemma constantGas_set_dyn [simp]: "constantGas (set_dyn b g jt x) = constantGas (jt x)"
  by (simp add: set_dyn_def)

lemma enable_ok:
  assumes "table_ok jt" "assigned jt constantinople_assigned"
  shows "table_ok (enable1884 jt) \<and> assigned (enable1884 jt) constantinople_assigned"
    "table_ok (enable1344 jt) \<and> assigned (enable1344 jt) constantinople_assigned"
    "table_ok (enable2200 jt) \<and> assigned (enable2200 jt) constantinople_assigned"
    "table_ok (enable3529 jt) \<and> assigned (enable3529 jt) constantinople_assigned"
    "table_ok (enable3198 jt) \<and> assigned (enable3198 jt) constantinople_assigned"
    "table_ok (enable1153 jt) \<and> assigned (enable1153 jt) constantinople_assigned"
    "table_ok (enable3855 jt) \<and> assigned (enable3855 jt) constantinople_assigned"
    "table_ok (enable3860 jt) \<and> assigned (enable3860 jt) constantinople_assigned"
  using assms
  by (auto intro!: table_ok_upd table_ok_set_const table_ok_set_dyn intro: table_ok_Sub simp: entry_defs assigned_def Let_def
    enable1884_def enable1344_def enable2200_def enable3529_def enable3198_def enable1153_def enable3855_def
    enable3860_def)

lemma enable2929_ok:
  assumes "table_ok jt" "assigned jt constantinople_assigned"
  shows "table_ok (enable2929 jt) \<and> assigned (enable2929 jt) constantinople_assigned"
  using assms unfolding enable2929_def Let_def
  by (auto intro!: table_ok_set_both table_ok_set_dyn [where b = OP_SSTORE] simp: assigned_def)

lemma later_ok:
  "\<exists>jt. newIstanbulInstructionSet = Ret jt \<and> table_ok jt \<and> assigned jt constantinople_assigned"
  "\<exists>jt. newBerlinInstructionSet = Ret jt \<and> table_ok jt \<and> assigned jt constantinople_assigned"
  "\<exists>jt. newLondonInstructionSet = Ret jt \<and> table_ok jt \<and> assigned jt constantinople_assigned"
  "\<exists>jt. newMergeInstructionSet = Ret jt \<and> table_ok jt \<and> assigned jt constantinople_assigned"
  "\<exists>jt. newShanghaiInstructionSet = Ret jt \<and> table_ok jt \<and> assigned jt constantinople_assigned"
proof -
  show i: "\<exists>jt. newIstanbulInstructionSet = Ret jt \<and> table_ok jt \<and> assigned jt constantinople_assigned"
    unfolding newIstanbulInstructionSet_def
    by (rule table_step [OF constantinople_ok]) (intro enable_ok | metis enable_ok)+
  show b: "\<exists>jt. newBerlinInstructionSet = Ret jt \<and> table_ok jt \<and> assigned jt constantinople_assigned"
    unfolding newBerlinInstructionSet_def by (rule table_step [OF i]) (rule enable2929_ok)
  show l: "\<exists>jt. newLondonInstructionSet = Ret jt \<and> table_ok jt \<and> assigned jt constantinople_assigned"
    unfolding newLondonInstructionSet_def by (rule table_step [OF b]) (metis enable_ok(4,5))
  show m: "\<exists>jt. newMergeInstructionSet = Ret jt \<and> table_ok jt \<and> assigned jt constantinople_assigned"
    unfolding newMergeInstructionSet_def
    by (rule table_step [OF l]) (auto intro!: table_ok_upd simp: entry_defs assigned_def)
  show "\<exists>jt. newShanghaiInstructionSet = Ret jt \<and> table_ok jt \<and> assigned jt constantinople_assigned"
    unfolding newShanghaiInstructionSet_def by (rule table_step [OF m]) (metis enable_ok(7,8))
qed

lemma if_table:
  "\<exists>jt. x = Ret jt \<and> table_ok jt \<Longrightarrow> \<exists>jt. y = Ret jt \<and> table_ok jt \<Longrightarrow>
   \<exists>jt. (if b then x else y) = Ret jt \<and> table_ok jt"
  by simp

lemma instructionSet_ok: "\<exists>jt. instructionSet rules = Ret jt \<and> table_ok jt"
  unfolding instructionSet_def
  by (intro if_table)
    (use frontier_ok homestead_ok tangerine_ok spurious_ok byzantium_ok constantinople_ok later_ok in blast)+


end
