(* ===== verification/VM_Precompiles.thy ===== *)
theory VM_Precompiles
  imports VM_Base
begin

text \<open>
  The precompiled contracts of \<^verbatim>\<open>client/core/vm/contracts.go\<close>: the address tables of all forks, the gas
  of every contract, and the bodies, modular exponentiation in full. The cryptographic primitives
  (signature recovery, SHA-256, RIPEMD-160, the bn256 curve, the BLAKE2b compression function, Keccak)
  are the fields of \<open>cryptoLib\<close>, a parameter of the model. The BLS12-381 contracts are in no
  table of the node and left out.

  Facts: the square-and-multiply exponentiation computes the power; \<open>RunPrecompiledContract\<close> charges
  exactly the required gas or fails without a result.
\<close>

section \<open>Primitives\<close>

text \<open>
  \<open>Ecrecover\<close> gives the uncompressed public key of a signature; a curve point is given by its encoding,
  which the curve functions may reject.
\<close>

record cryptoLib =
  keccak256 :: "bytes \<Rightarrow> hash"
  Ecrecover :: "bytes \<Rightarrow> bytes \<Rightarrow> bytes option"
  sha256sum :: "bytes \<Rightarrow> bytes"
  ripemd160sum :: "bytes \<Rightarrow> bytes"
  bn256Add :: "bytes \<Rightarrow> bytes \<Rightarrow> string + bytes"
  bn256ScalarMult :: "bytes \<Rightarrow> nat \<Rightarrow> string + bytes"
  bn256CurvePoint :: "bytes \<Rightarrow> string option"
  bn256TwistPoint :: "bytes \<Rightarrow> string option"
  bn256PairingCheck :: "(bytes \<times> bytes) list \<Rightarrow> bool"
  blake2bF :: "bytes \<Rightarrow> bytes"

definition secp256k1N :: nat where
  "secp256k1N = 0xfffffffffffffffffffffffffffffffebaaedce6af48a03bbfd25e8cd0364141"

definition ValidateSignatureValues :: "u8 \<Rightarrow> nat \<Rightarrow> nat \<Rightarrow> bool \<Rightarrow> bool" where
  "ValidateSignatureValues v r s homestead =
    (if r < 1 \<or> s < 1 then False
     else if homestead \<and> s > secp256k1N div 2 then False
     else r < secp256k1N \<and> s < secp256k1N \<and> (v = 0 \<or> v = 1))"

section \<open>The contracts\<close>

datatype PrecompiledContract =
    ecrecover | sha256hash | ripemd160hash | dataCopy | bigModExp bool
  | bn256AddByzantium | bn256AddIstanbul | bn256ScalarMulByzantium | bn256ScalarMulIstanbul
  | bn256PairingByzantium | bn256PairingIstanbul | blake2F

definition PrecompiledContractsHomestead :: "(address \<times> PrecompiledContract) list" where
  "PrecompiledContractsHomestead = [(1, ecrecover), (2, sha256hash), (3, ripemd160hash), (4, dataCopy)]"

definition PrecompiledContractsByzantium :: "(address \<times> PrecompiledContract) list" where
  "PrecompiledContractsByzantium = [(1, ecrecover), (2, sha256hash), (3, ripemd160hash), (4, dataCopy),
     (5, bigModExp False), (6, bn256AddByzantium), (7, bn256ScalarMulByzantium), (8, bn256PairingByzantium)]"

definition PrecompiledContractsIstanbul :: "(address \<times> PrecompiledContract) list" where
  "PrecompiledContractsIstanbul = [(1, ecrecover), (2, sha256hash), (3, ripemd160hash), (4, dataCopy),
     (5, bigModExp False), (6, bn256AddIstanbul), (7, bn256ScalarMulIstanbul), (8, bn256PairingIstanbul),
     (9, blake2F)]"

definition PrecompiledContractsBerlin :: "(address \<times> PrecompiledContract) list" where
  "PrecompiledContractsBerlin = [(1, ecrecover), (2, sha256hash), (3, ripemd160hash), (4, dataCopy),
     (5, bigModExp True), (6, bn256AddIstanbul), (7, bn256ScalarMulIstanbul), (8, bn256PairingIstanbul),
     (9, blake2F)]"

text \<open>The table of a rule set, used by \<open>EVM.precompile\<close> and \<open>ActivePrecompiles\<close>.\<close>

definition precompiles :: "Rules \<Rightarrow> (address \<times> PrecompiledContract) list" where
  "precompiles rules =
    (if rIsBerlin rules then PrecompiledContractsBerlin
     else if rIsIstanbul rules then PrecompiledContractsIstanbul
     else if rIsByzantium rules then PrecompiledContractsByzantium
     else PrecompiledContractsHomestead)"

definition precompile :: "Rules \<Rightarrow> address \<Rightarrow> PrecompiledContract option" where
  "precompile rules addr = map_of (precompiles rules) addr"

definition ActivePrecompiles :: "Rules \<Rightarrow> address list" where
  "ActivePrecompiles rules = map fst (precompiles rules)"

section \<open>Modular exponentiation\<close>

definition modexpMultComplexity :: "int \<Rightarrow> int" where
  "modexpMultComplexity x =
    (if x \<le> 64 then x * x
     else if x \<le> 1024 then x * x div 4 + (96 * x - 3072)
     else x * x div 16 + (480 * x - 199680))"

text \<open>\<open>big.Int.BitLen\<close>, \<open>Bytes\<close> and \<open>Exp\<close> on naturals.\<close>

fun BitLen :: "nat \<Rightarrow> nat" where
  "BitLen n = (if n = 0 then 0 else Suc (BitLen (n div 2)))"

declare BitLen.simps [simp del]

definition big_Bytes :: "nat \<Rightarrow> bytes" where
  "big_Bytes n = nat_to_bytes ((BitLen n + 7) div 8) n"

fun big_Exp :: "nat \<Rightarrow> nat \<Rightarrow> nat \<Rightarrow> nat" where
  "big_Exp b e m =
    (if e = 0 then 1 mod m
     else let r = big_Exp (b * b mod m) (e div 2) m in if odd e then r * b mod m else r)"

declare big_Exp.simps [simp del]

lemma big_Exp_power: "big_Exp b e m = b ^ e mod m"
proof (induction b e m rule: big_Exp.induct)
  case (1 b e m)
  show ?case
  proof (cases "e = 0")
    case True
    then show ?thesis by (simp add: big_Exp.simps)
  next
    case False
    have "big_Exp (b * b mod m) (e div 2) m = (b * b) ^ (e div 2) mod m"
      using 1 [OF False] by (simp add: power_mod)
    also have "(b * b) ^ (e div 2) = b ^ (2 * (e div 2))" by (simp add: power_mult power2_eq_square)
    finally have r: "big_Exp (b * b mod m) (e div 2) m = b ^ (2 * (e div 2)) mod m" .
    show ?thesis
    proof (cases "odd e")
      case True
      then have "b ^ e = b ^ (2 * (e div 2)) * b" by (metis odd_two_times_div_two_succ power_add power_one_right)
      with False True r show ?thesis by (simp add: big_Exp.simps [of b e m] mod_mult_left_eq)
    next
      case e: False
      with False r show ?thesis by (simp add: big_Exp.simps [of b e m])
    qed
  qed
qed

definition modexp_lengths :: "bytes \<Rightarrow> (nat \<times> nat \<times> nat \<times> bytes) go" where
  "modexp_lengths input =
    go_bind (getData input 0 32) (\<lambda>b. go_bind (getData input 32 32) (\<lambda>e. go_bind (getData input 64 32) (\<lambda>m.
      Ret (bytes_to_nat b, bytes_to_nat e, bytes_to_nat m, drop 96 input))))"

definition modexp_gas :: "bool \<Rightarrow> bytes \<Rightarrow> u64 go" where
  "modexp_gas eip2565 input =
    go_bind (modexp_lengths input) (\<lambda>(baseLen, expLen, modLen, input).
    go_bind (if length input \<le> baseLen then Ret 0
             else go_bind (getData input (word_of_nat baseLen) (if expLen > 32 then 32 else word_of_nat expLen))
                    (\<lambda>d. Ret (bytes_to_nat d))) (\<lambda>expHead.
      let bitlen = BitLen expHead;
          msb = (if bitlen > 0 then bitlen - 1 else 0);
          adjExpLen = (if expLen > 32 then 8 * (int expLen - 32) else 0) + int msb;
          gas = BigMax (int modLen) (int baseLen)
      in if eip2565
         then let gas = (gas + 7) div 8; gas = gas * gas * BigMax adjExpLen 1 div 3 in
              Ret (if gas \<ge> 2 ^ 64 then MaxUint64 else if (word_of_int gas :: u64) < 200 then 200 else word_of_int gas)
         else let gas = modexpMultComplexity gas * BigMax adjExpLen 1 div 20 in
              Ret (if gas \<ge> 2 ^ 64 then MaxUint64 else word_of_int gas)))"

definition modexp_run :: "bytes \<Rightarrow> bytes go" where
  "modexp_run input =
    go_bind (modexp_lengths input) (\<lambda>(baseL, expL, modL, input).
      let baseLen = word_of_nat baseL :: u64; expLen = word_of_nat expL :: u64; modLen = word_of_nat modL :: u64 in
      if baseLen = 0 \<and> modLen = 0 then Ret []
      else go_bind (getData input 0 baseLen) (\<lambda>b.
           go_bind (getData input baseLen expLen) (\<lambda>e.
           go_bind (getData input (baseLen + expLen) modLen) (\<lambda>m.
             let base = bytes_to_nat b; exp = bytes_to_nat e; md = bytes_to_nat m in
             Ret (if md = 0 then LeftPadBytes [] (nat (sint modLen))
                  else if base = 1 then LeftPadBytes (big_Bytes (base mod md)) (nat (sint modLen))
                  else LeftPadBytes (big_Bytes (big_Exp base exp md)) (nat (sint modLen)))))))"

section \<open>Gas and bodies\<close>

definition word_gas :: "bytes \<Rightarrow> u64 \<Rightarrow> u64 \<Rightarrow> u64" where
  "word_gas input perWord base = word_of_nat (length input + 31) div 32 * perWord + base"

fun RequiredGas :: "PrecompiledContract \<Rightarrow> bytes \<Rightarrow> u64 go" where
  "RequiredGas ecrecover input = Ret EcrecoverGas"
| "RequiredGas sha256hash input = Ret (word_gas input Sha256PerWordGas Sha256BaseGas)"
| "RequiredGas ripemd160hash input = Ret (word_gas input Ripemd160PerWordGas Ripemd160BaseGas)"
| "RequiredGas dataCopy input = Ret (word_gas input IdentityPerWordGas IdentityBaseGas)"
| "RequiredGas (bigModExp eip2565) input = modexp_gas eip2565 input"
| "RequiredGas bn256AddByzantium input = Ret Bn256AddGasByzantium"
| "RequiredGas bn256AddIstanbul input = Ret Bn256AddGasIstanbul"
| "RequiredGas bn256ScalarMulByzantium input = Ret Bn256ScalarMulGasByzantium"
| "RequiredGas bn256ScalarMulIstanbul input = Ret Bn256ScalarMulGasIstanbul"
| "RequiredGas bn256PairingByzantium input = Ret (Bn256PairingBaseGasByzantium +
     word_of_nat (length input div 192) * Bn256PairingPerPointGasByzantium)"
| "RequiredGas bn256PairingIstanbul input = Ret (Bn256PairingBaseGasIstanbul +
     word_of_nat (length input div 192) * Bn256PairingPerPointGasIstanbul)"
| "RequiredGas blake2F input =
     Ret (if length input \<noteq> 213 then 0 else word_of_nat (bytes_to_nat (take 4 input)))"

definition ecrecover_run :: "cryptoLib \<Rightarrow> bytes \<Rightarrow> bytes" where
  "ecrecover_run lib input =
    (let input = RightPadBytes input 128;
         r = bytes_to_nat (take 32 (drop 64 input));
         s = bytes_to_nat (take 32 (drop 96 input));
         v = input ! 63 - 27
     in if \<not> allZero (take 31 (drop 32 input)) \<or> \<not> ValidateSignatureValues v r s False then []
        else case Ecrecover lib (take 32 input) (take 64 (drop 64 input) @ [v]) of
               None \<Rightarrow> []
             | Some pubKey \<Rightarrow> LeftPadBytes (drop 12 (Bytes32 (keccak256 lib (drop 1 pubKey)))) 32)"

definition runBn256Add :: "cryptoLib \<Rightarrow> bytes \<Rightarrow> (bytes \<times> vmErr option) go" where
  "runBn256Add lib input =
    go_bind (getData input 0 64) (\<lambda>x. go_bind (getData input 64 64) (\<lambda>y.
      Ret (case bn256Add lib x y of Inl e \<Rightarrow> ([], Some (ErrOther e)) | Inr r \<Rightarrow> (r, None))))"

definition runBn256ScalarMul :: "cryptoLib \<Rightarrow> bytes \<Rightarrow> (bytes \<times> vmErr option) go" where
  "runBn256ScalarMul lib input =
    go_bind (getData input 0 64) (\<lambda>p. go_bind (getData input 64 32) (\<lambda>k.
      Ret (case bn256ScalarMult lib p (bytes_to_nat k) of Inl e \<Rightarrow> ([], Some (ErrOther e)) | Inr r \<Rightarrow> (r, None))))"

fun pairing_points :: "cryptoLib \<Rightarrow> nat \<Rightarrow> bytes \<Rightarrow> string + (bytes \<times> bytes) list" where
  "pairing_points lib 0 input = Inr []"
| "pairing_points lib (Suc k) input =
    (let c = take 64 input; t = take 128 (drop 64 input) in
     case bn256CurvePoint lib c of Some e \<Rightarrow> Inl e | None \<Rightarrow>
     case bn256TwistPoint lib t of Some e \<Rightarrow> Inl e | None \<Rightarrow>
     case pairing_points lib k (drop 192 input) of Inl e \<Rightarrow> Inl e | Inr ps \<Rightarrow> Inr ((c, t) # ps))"

definition runBn256Pairing :: "cryptoLib \<Rightarrow> bytes \<Rightarrow> bytes \<times> vmErr option" where
  "runBn256Pairing lib input =
    (if length input mod 192 > 0 then ([], Some (ErrOther ''bad elliptic curve pairing size''))
     else case pairing_points lib (length input div 192) input of
       Inl e \<Rightarrow> ([], Some (ErrOther e))
     | Inr ps \<Rightarrow> (if bn256PairingCheck lib ps then replicate 31 0 @ [1] else replicate 32 0, None))"

definition blake2F_run :: "cryptoLib \<Rightarrow> bytes \<Rightarrow> bytes \<times> vmErr option" where
  "blake2F_run lib input =
    (if length input \<noteq> 213 then ([], Some (ErrOther ''invalid input length''))
     else if input ! 212 \<noteq> 0 \<and> input ! 212 \<noteq> 1 then ([], Some (ErrOther ''invalid final flag''))
     else (blake2bF lib input, None))"

fun Precompile_Run :: "cryptoLib \<Rightarrow> PrecompiledContract \<Rightarrow> bytes \<Rightarrow> (bytes \<times> vmErr option) go" where
  "Precompile_Run lib ecrecover input = Ret (ecrecover_run lib input, None)"
| "Precompile_Run lib sha256hash input = Ret (sha256sum lib input, None)"
| "Precompile_Run lib ripemd160hash input = Ret (LeftPadBytes (ripemd160sum lib input) 32, None)"
| "Precompile_Run lib dataCopy input = Ret (input, None)"
| "Precompile_Run lib (bigModExp e) input = go_bind (modexp_run input) (\<lambda>r. Ret (r, None))"
| "Precompile_Run lib bn256AddByzantium input = runBn256Add lib input"
| "Precompile_Run lib bn256AddIstanbul input = runBn256Add lib input"
| "Precompile_Run lib bn256ScalarMulByzantium input = runBn256ScalarMul lib input"
| "Precompile_Run lib bn256ScalarMulIstanbul input = runBn256ScalarMul lib input"
| "Precompile_Run lib bn256PairingByzantium input = Ret (runBn256Pairing lib input)"
| "Precompile_Run lib bn256PairingIstanbul input = Ret (runBn256Pairing lib input)"
| "Precompile_Run lib blake2F input = Ret (blake2F_run lib input)"

definition RunPrecompiledContract ::
    "cryptoLib \<Rightarrow> PrecompiledContract \<Rightarrow> bytes \<Rightarrow> u64 \<Rightarrow> (bytes \<times> u64 \<times> vmErr option) go" where
  "RunPrecompiledContract lib p input suppliedGas =
    go_bind (RequiredGas p input) (\<lambda>gasCost.
      if suppliedGas < gasCost then Ret ([], 0, Some ErrOutOfGas)
      else go_bind (Precompile_Run lib p input) (\<lambda>(output, err). Ret (output, suppliedGas - gasCost, err)))"

lemma RunPrecompiledContract_gas:
  assumes "RunPrecompiledContract lib p input gas = Ret (ret, left, err)"
  shows "unat left \<le> unat gas"
  using assms by (auto simp: RunPrecompiledContract_def unat_sub_u64 not_less u64_le_iff split: if_splits)

lemma getData_NoFuel [simp]: "getData d s n \<noteq> NoFuel"
  by (simp add: getData_def Let_def)

lemma RunPrecompiledContract_NoFuel: "RunPrecompiledContract lib p input gas \<noteq> NoFuel"
proof -
  have l: "modexp_lengths input \<noteq> NoFuel" by (simp add: modexp_lengths_def go_bind_NoFuel_iff)
  have "RequiredGas p input \<noteq> NoFuel"
    using l by (cases p) (auto simp: modexp_gas_def go_bind_NoFuel_iff Let_def split: if_splits)
  moreover have "Precompile_Run lib p input \<noteq> NoFuel"
    using l by (cases p) (auto simp: modexp_run_def runBn256Add_def runBn256ScalarMul_def go_bind_NoFuel_iff Let_def split: if_splits)
  ultimately show ?thesis by (auto simp: RunPrecompiledContract_def go_bind_NoFuel_iff split: if_splits)
qed

end
