(* ===== verification/VM_Contract.thy ===== *)
theory VM_Contract
  imports State_Snapshot VM_Analysis VM_Table VM_Precompiles
begin

text \<open>
  The state of the virtual machine: the contract of a call frame (\<^verbatim>\<open>client/core/vm/contract.go\<close>), the
  block and transaction context and the EVM object (\<^verbatim>\<open>client/core/vm/evm.go\<close>), the interpreter's
  mutable fields (\<^verbatim>\<open>interpreter.go\<close>), and the value transfer of \<^verbatim>\<open>client/core/evm.go\<close>.

  What an execution never changes is the record \<open>vmContext\<close>: block and transaction data, chain
  configuration and rules, the instruction table, the cancellation flag, the cryptographic and the arithmetic library.
  What it changes is the record \<open>EVM\<close>: the state database, the call depth, \<open>callGasTemp\<close>, the read-only
  flag, the return data and the jump-destination cache. The cache is a map that all contracts of one call
  tree share; \<open>NewContract\<close> starts a new one for a caller that is not a contract. A \<open>frame\<close> holds the
  program counter, memory, stack and contract of the running call. Tracers are not modelled.
\<close>

section \<open>Contracts\<close>

record Contract =
  CallerAddress :: address
  selfAddr :: address
  canalysis :: "bitvec option"
  Code :: bytes
  CodeHash :: hash
  CodeAddr :: "address option"
  Input :: bytes
  Gas :: u64
  cvalue :: int

datatype ContractRef = AccountRef address | ContractOf Contract

fun ref_Address :: "ContractRef \<Rightarrow> address" where
  "ref_Address (AccountRef a) = a"
| "ref_Address (ContractOf c) = selfAddr c"

section \<open>Context and machine\<close>

text \<open>
  The arithmetic of \<^verbatim>\<open>holiman/uint256\<close> beyond wrapping addition, subtraction and multiplication,
  comparisons and bit operations, which are those of 256-bit words. \<open>uint256_doc\<close> is the behaviour its
  documentation states; no fact about the interpreter depends on it.
\<close>

record uint256Lib =
  uDiv :: "u256 \<Rightarrow> u256 \<Rightarrow> u256"
  uSDiv :: "u256 \<Rightarrow> u256 \<Rightarrow> u256"
  uMod :: "u256 \<Rightarrow> u256 \<Rightarrow> u256"
  uSMod :: "u256 \<Rightarrow> u256 \<Rightarrow> u256"
  uExp :: "u256 \<Rightarrow> u256 \<Rightarrow> u256"
  uExtendSign :: "u256 \<Rightarrow> u256 \<Rightarrow> u256"
  uByte :: "u256 \<Rightarrow> u256 \<Rightarrow> u256"
  uAddMod :: "u256 \<Rightarrow> u256 \<Rightarrow> u256 \<Rightarrow> u256"
  uMulMod :: "u256 \<Rightarrow> u256 \<Rightarrow> u256 \<Rightarrow> u256"
  uSRsh :: "u256 \<Rightarrow> nat \<Rightarrow> u256"

definition uint256_doc :: uint256Lib where
  "uint256_doc =
    \<lparr> uDiv = (\<lambda>x y. if y = 0 then 0 else x div y),
      uSDiv = (\<lambda>x y. if y = 0 then 0
        else word_of_int (sgn (sint x) * sgn (sint y) * (\<bar>sint x\<bar> div \<bar>sint y\<bar>))),
      uMod = (\<lambda>x y. if y = 0 then 0 else x mod y),
      uSMod = (\<lambda>x y. if y = 0 then 0 else word_of_int (sgn (sint x) * (\<bar>sint x\<bar> mod \<bar>sint y\<bar>))),
      uExp = (\<lambda>b e. b ^ unat e),
      uExtendSign = (\<lambda>x b. if b > 30 then x else word_of_int (signed_take_bit (unat b * 8 + 7) (uint x))),
      uByte = (\<lambda>x n. if n < 32 then drop_bit (8 * (31 - unat n)) x AND 0xFF else 0),
      uAddMod = (\<lambda>x y m. if m = 0 then 0 else word_of_nat ((unat x + unat y) mod unat m)),
      uMulMod = (\<lambda>x y m. if m = 0 then 0 else word_of_nat ((unat x * unat y) mod unat m)),
      uSRsh = (\<lambda>x n. word_of_int (sint x div 2 ^ n)) \<rparr>"

record vmContext =
  GetHash :: "u64 \<Rightarrow> hash"
  bCoinbase :: address
  bGasLimit :: u64
  bBlockNumber :: int
  bTime :: u64
  bDifficulty :: int
  bBaseFee :: int
  bRandom :: "hash option"
  txOrigin :: address
  txGasPrice :: int
  chainConfig :: ChainConfig
  chainRules :: Rules
  EnablePreimageRecording :: bool
  jumpTable :: JumpTable
  abort :: bool
  lib :: cryptoLib
  u256lib :: uint256Lib

record EVM =
  statedb :: StateDB
  depth :: int
  callGasTemp :: u64
  readOnly :: bool
  returnData :: bytes
  jumpdests :: "hash \<rightharpoonup> bitvec"

record frame =
  fpc :: u64
  fmem :: Memory
  fstack :: vmStack
  fcontract :: Contract

section \<open>Operations of a contract\<close>

definition NewContract :: "ContractRef \<Rightarrow> address \<Rightarrow> int \<Rightarrow> u64 \<Rightarrow> EVM \<Rightarrow> Contract \<times> EVM" where
  "NewContract caller object value gas evm =
    (\<lparr> CallerAddress = ref_Address caller, selfAddr = object, canalysis = None, Code = [], CodeHash = 0,
       CodeAddr = None, Input = [], Gas = gas, cvalue = value \<rparr>,
     case caller of ContractOf parent \<Rightarrow> evm | AccountRef a \<Rightarrow> evm \<lparr> jumpdests := Map.empty \<rparr>)"

definition SetCallCode :: "address \<Rightarrow> hash \<Rightarrow> bytes \<Rightarrow> Contract \<Rightarrow> Contract" where
  "SetCallCode addr hash code c = c \<lparr> Code := code, CodeHash := hash, CodeAddr := Some addr \<rparr>"

definition SetCodeOptionalHash :: "address \<Rightarrow> bytes \<Rightarrow> hash \<Rightarrow> Contract \<Rightarrow> Contract" where
  "SetCodeOptionalHash addr code hash c = c \<lparr> Code := code, CodeHash := hash, CodeAddr := Some addr \<rparr>"

text \<open>\<open>AsDelegate\<close> asserts that the caller is a contract.\<close>

definition AsDelegate :: "ContractRef \<Rightarrow> Contract \<Rightarrow> Contract go" where
  "AsDelegate caller c =
    (case caller of
       AccountRef a \<Rightarrow> Panic ''interface conversion''
     | ContractOf parent \<Rightarrow> Ret (c \<lparr> CallerAddress := CallerAddress parent, cvalue := cvalue parent \<rparr>))"

definition GetOp :: "u64 \<Rightarrow> Contract \<Rightarrow> u8" where
  "GetOp n c = (if n < len64 (Code c) then Code c ! unat n else OP_STOP)"

definition UseGas :: "u64 \<Rightarrow> Contract \<Rightarrow> Contract option" where
  "UseGas gas c = (if Gas c < gas then None else Some (c \<lparr> Gas := Gas c - gas \<rparr>))"

text \<open>
  \<open>isCode\<close> with its two caches; \<open>c.analysis == nil\<close> is tested before and, redundantly, after the
  test of the code hash.
\<close>

definition isCode :: "u64 \<Rightarrow> Contract \<Rightarrow> EVM \<Rightarrow> (bool \<times> Contract \<times> EVM) go" where
  "isCode udest c evm =
    (case canalysis c of
       Some bits \<Rightarrow> go_bind (codeSegment bits (unat udest)) (\<lambda>b. Ret (b, c, evm))
     | None \<Rightarrow>
        if CodeHash c \<noteq> 0
        then go_bind (case jumpdests evm (CodeHash c) of
                        Some bits \<Rightarrow> Ret (bits, evm)
                      | None \<Rightarrow> go_bind (codeBitmap (Code c)) (\<lambda>bits.
                          Ret (bits, evm \<lparr> jumpdests := (jumpdests evm)(CodeHash c \<mapsto> bits) \<rparr>)))
               (\<lambda>(bits, evm). go_bind (codeSegment bits (unat udest))
                  (\<lambda>b. Ret (b, c \<lparr> canalysis := Some bits \<rparr>, evm)))
        else go_bind (codeBitmap (Code c)) (\<lambda>bits.
               go_bind (codeSegment bits (unat udest)) (\<lambda>b. Ret (b, c \<lparr> canalysis := Some bits \<rparr>, evm))))"

definition validJumpdest :: "u256 \<Rightarrow> Contract \<Rightarrow> EVM \<Rightarrow> (bool \<times> Contract \<times> EVM) go" where
  "validJumpdest dest c evm =
    (case Uint64WithOverflow dest of (udest, overflow) \<Rightarrow>
       if overflow \<or> udest \<ge> len64 (Code c) then Ret (False, c, evm)
       else if Code c ! unat udest \<noteq> OP_JUMPDEST then Ret (False, c, evm)
       else isCode udest c evm)"

section \<open>Value transfer\<close>

definition CanTransfer :: "address \<Rightarrow> int \<Rightarrow> StateDB \<Rightarrow> bool \<times> StateDB" where
  "CanTransfer addr amount db = (case GetBalance addr db of (b, db) \<Rightarrow> (b \<ge> amount, db))"

definition Transfer :: "address \<Rightarrow> address \<Rightarrow> int \<Rightarrow> StateDB \<Rightarrow> StateDB" where
  "Transfer sender recipient amount db = AddBalance recipient amount (SubBalance sender amount db)"

section \<open>Addresses of new contracts\<close>

text \<open>The RLP encoding of the pair of an address and a nonce, which is shorter than 56 bytes.\<close>

definition rlp_uint :: "u64 \<Rightarrow> bytes" where
  "rlp_uint n = (let b = big_Bytes (unat n) in
     if n = 0 then [0x80] else if n < 0x80 then b else (0x80 + word_of_nat (length b)) # b)"

definition CreateAddress :: "cryptoLib \<Rightarrow> address \<Rightarrow> u64 \<Rightarrow> address" where
  "CreateAddress lb b nonce =
    (let payload = 0x94 # nat_to_bytes 20 (unat b) @ rlp_uint nonce
     in ucast (keccak256 lb ((0xC0 + word_of_nat (length payload)) # payload)))"

definition CreateAddress2 :: "cryptoLib \<Rightarrow> address \<Rightarrow> u256 \<Rightarrow> hash \<Rightarrow> address" where
  "CreateAddress2 lb b salt inithash =
     ucast (keccak256 lb (0xFF # nat_to_bytes 20 (unat b) @ Bytes32 salt @ Bytes32 inithash))"

section \<open>Facts\<close>

lemma UseGas_Some: "UseGas g c = Some c' \<Longrightarrow> unat (Gas c') = unat (Gas c) - unat g \<and> unat g \<le> unat (Gas c) \<and>
    c' = c \<lparr> Gas := Gas c - g \<rparr>"
  by (auto simp: UseGas_def not_less u64_le_iff unat_sub_u64 split: if_splits)

text \<open>
  The caches are consistent: the analysis of a contract is that of its code, and an entry of the shared
  map is the analysis of every code with that hash.
\<close>

definition cache_ok :: "Contract \<Rightarrow> EVM \<Rightarrow> bool" where
  "cache_ok c evm \<longleftrightarrow> (\<forall>bits. canalysis c = Some bits \<longrightarrow> codeBitmap (Code c) = Ret bits) \<and>
     (\<forall>bits. CodeHash c \<noteq> 0 \<longrightarrow> jumpdests evm (CodeHash c) = Some bits \<longrightarrow> codeBitmap (Code c) = Ret bits)"

lemma isCode_exact:
  assumes "cache_ok c evm" "unat udest < length (Code c)"
  shows "\<exists>c' evm'. isCode udest c evm = Ret (unat udest \<in> set (instr_starts 0 (Code c)), c', evm') \<and>
    cache_ok c' evm' \<and> (\<exists>a. c' = c \<lparr> canalysis := a \<rparr>) \<and> (\<exists>j. evm' = evm \<lparr> jumpdests := j \<rparr>)"
proof -
  obtain bits where b: "codeBitmap (Code c) = Ret bits"
      "codeSegment bits (unat udest) = Ret (unat udest \<in> set (instr_starts 0 (Code c)))"
    using codeBitmap_segment [OF assms(2)] by blast
  show ?thesis
  proof (cases "canalysis c")
    case None
    show ?thesis
    proof (cases "CodeHash c \<noteq> 0 \<and> jumpdests evm (CodeHash c) \<noteq> None")
      case True
      then have "jumpdests evm (CodeHash c) = Some bits" using assms(1) b by (auto simp: cache_ok_def)
      then show ?thesis using True None b assms(1)
        by (intro exI [of _ "c \<lparr> canalysis := Some bits \<rparr>"] exI [of _ evm])
          (auto simp: isCode_def cache_ok_def intro!: exI [of _ "jumpdests evm"])
    next
      case False
      show ?thesis
      proof (cases "CodeHash c = 0")
        case True
        with None b assms(1) show ?thesis
          by (intro exI [of _ "c \<lparr> canalysis := Some bits \<rparr>"] exI [of _ evm])
            (auto simp: isCode_def cache_ok_def intro!: exI [of _ "jumpdests evm"])
      next
        case c: False
        with False None b assms(1) show ?thesis
          by (intro exI [of _ "c \<lparr> canalysis := Some bits \<rparr>"]
                exI [of _ "evm \<lparr> jumpdests := (jumpdests evm)(CodeHash c \<mapsto> bits) \<rparr>"])
            (auto simp: isCode_def cache_ok_def)
      qed
    qed
  next
    case (Some bits')
    with assms(1) b have "bits' = bits" by (auto simp: cache_ok_def)
    with Some b assms(1) show ?thesis
      by (intro exI [of _ c] exI [of _ evm])
        (auto simp: isCode_def intro!: exI [of _ "canalysis c"] exI [of _ "jumpdests evm"])
  qed
qed

end
