(* ===== verification/VM_Gas.thy ===== *)
theory VM_Gas
  imports VM_Contract
begin

text \<open>
  The memory-size functions of \<^verbatim>\<open>client/core/vm/memory_table.go\<close> and the dynamic gas functions of
  \<^verbatim>\<open>gas_table.go\<close> and, for EIP-2929, \<^verbatim>\<open>operations_acl.go\<close>.

  A gas function gets the context, the frame (contract, stack, memory) and the machine, and the memory
  size the instruction asks for; it returns the gas, an error, and the frame and the machine it leaves
  behind: it records the memory fee, reads and warms accounts and slots, moves the refund counter and
  sets \<open>callGasTemp\<close>. The dispatchers \<open>memory_size\<close> and \<open>dynamic_gas\<close> apply the function a name of the
  instruction table stands for.
\<close>

section \<open>Memory sizes\<close>

definition mem_need :: "nat \<Rightarrow> nat \<Rightarrow> vmStack \<Rightarrow> (u64 \<times> bool) go" where
  "mem_need i j st = go_bind (Back st i) (\<lambda>off. go_bind (Back st j) (\<lambda>l. Ret (calcMemSize64 off l)))"

definition mem_need_fixed :: "nat \<Rightarrow> u64 \<Rightarrow> vmStack \<Rightarrow> (u64 \<times> bool) go" where
  "mem_need_fixed i l st = go_bind (Back st i) (\<lambda>off. Ret (calcMemSize64WithUint off l))"

definition memoryKeccak256 :: "vmStack \<Rightarrow> (u64 \<times> bool) go" where "memoryKeccak256 = mem_need 0 1"
definition memoryCallDataCopy :: "vmStack \<Rightarrow> (u64 \<times> bool) go" where "memoryCallDataCopy = mem_need 0 2"
definition memoryReturnDataCopy :: "vmStack \<Rightarrow> (u64 \<times> bool) go" where "memoryReturnDataCopy = mem_need 0 2"
definition memoryCodeCopy :: "vmStack \<Rightarrow> (u64 \<times> bool) go" where "memoryCodeCopy = mem_need 0 2"
definition memoryExtCodeCopy :: "vmStack \<Rightarrow> (u64 \<times> bool) go" where "memoryExtCodeCopy = mem_need 1 3"
definition memoryMLoad :: "vmStack \<Rightarrow> (u64 \<times> bool) go" where "memoryMLoad = mem_need_fixed 0 32"
definition memoryMStore8 :: "vmStack \<Rightarrow> (u64 \<times> bool) go" where "memoryMStore8 = mem_need_fixed 0 1"
definition memoryMStore :: "vmStack \<Rightarrow> (u64 \<times> bool) go" where "memoryMStore = mem_need_fixed 0 32"
definition memoryCreate :: "vmStack \<Rightarrow> (u64 \<times> bool) go" where "memoryCreate = mem_need 1 2"
definition memoryCreate2 :: "vmStack \<Rightarrow> (u64 \<times> bool) go" where "memoryCreate2 = mem_need 1 2"
definition memoryReturn :: "vmStack \<Rightarrow> (u64 \<times> bool) go" where "memoryReturn = mem_need 0 1"
definition memoryRevert :: "vmStack \<Rightarrow> (u64 \<times> bool) go" where "memoryRevert = mem_need 0 1"
definition memoryLog :: "vmStack \<Rightarrow> (u64 \<times> bool) go" where "memoryLog = mem_need 0 1"

text \<open>The larger of the argument and the return region of a call.\<close>

definition mem_need2 :: "nat \<Rightarrow> nat \<Rightarrow> nat \<Rightarrow> nat \<Rightarrow> vmStack \<Rightarrow> (u64 \<times> bool) go" where
  "mem_need2 ro rs ao as st =
    go_bind (mem_need ro rs st) (\<lambda>(x, overflow).
      if overflow then Ret (0, True)
      else go_bind (mem_need ao as st) (\<lambda>(y, overflow).
        if overflow then Ret (0, True) else if x > y then Ret (x, False) else Ret (y, False)))"

definition memoryCall :: "vmStack \<Rightarrow> (u64 \<times> bool) go" where "memoryCall = mem_need2 5 6 3 4"
definition memoryDelegateCall :: "vmStack \<Rightarrow> (u64 \<times> bool) go" where "memoryDelegateCall = mem_need2 4 5 2 3"
definition memoryStaticCall :: "vmStack \<Rightarrow> (u64 \<times> bool) go" where "memoryStaticCall = mem_need2 4 5 2 3"

fun memory_size :: "memorySizeFunc \<Rightarrow> vmStack \<Rightarrow> (u64 \<times> bool) go" where
  "memory_size MemoryKeccak256 = memoryKeccak256"
| "memory_size MemoryCallDataCopy = memoryCallDataCopy"
| "memory_size MemoryReturnDataCopy = memoryReturnDataCopy"
| "memory_size MemoryCodeCopy = memoryCodeCopy"
| "memory_size MemoryExtCodeCopy = memoryExtCodeCopy"
| "memory_size MemoryMLoad = memoryMLoad"
| "memory_size MemoryMStore8 = memoryMStore8"
| "memory_size MemoryMStore = memoryMStore"
| "memory_size MemoryCreate = memoryCreate"
| "memory_size MemoryCreate2 = memoryCreate2"
| "memory_size MemoryCall = memoryCall"
| "memory_size MemoryDelegateCall = memoryDelegateCall"
| "memory_size MemoryStaticCall = memoryStaticCall"
| "memory_size MemoryReturn = memoryReturn"
| "memory_size MemoryRevert = memoryRevert"
| "memory_size MemoryLog = memoryLog"

section \<open>Results of gas functions\<close>

type_synonym gasRes = "(u64 \<times> vmErr option \<times> frame \<times> EVM) go"

definition gas_ret :: "u64 \<Rightarrow> frame \<Rightarrow> EVM \<Rightarrow> gasRes" where
  "gas_ret g f evm = Ret (g, None, f, evm)"

definition gas_err :: "vmErr \<Rightarrow> frame \<Rightarrow> EVM \<Rightarrow> gasRes" where
  "gas_err e f evm = Ret (0, Some e, f, evm)"

text \<open>\<open>if gas, overflow = math.SafeAdd(gas, x); overflow { return 0, ErrGasUintOverflow }\<close>\<close>

definition add_gas :: "u64 \<Rightarrow> u64 \<Rightarrow> frame \<Rightarrow> EVM \<Rightarrow> (u64 \<Rightarrow> gasRes) \<Rightarrow> gasRes" where
  "add_gas g x f evm k =
    (case SafeAdd g x of (r, overflow) \<Rightarrow> if overflow then gas_err ErrGasUintOverflow f evm else k r)"

definition mul_gas :: "u64 \<Rightarrow> u64 \<Rightarrow> frame \<Rightarrow> EVM \<Rightarrow> (u64 \<Rightarrow> gasRes) \<Rightarrow> gasRes" where
  "mul_gas g x f evm k =
    (case SafeMul g x of (r, overflow) \<Rightarrow> if overflow then gas_err ErrGasUintOverflow f evm else k r)"

definition read_u64 :: "nat \<Rightarrow> frame \<Rightarrow> EVM \<Rightarrow> (u64 \<Rightarrow> gasRes) \<Rightarrow> gasRes" where
  "read_u64 i f evm k =
    go_bind (Back (fstack f) i) (\<lambda>x. case Uint64WithOverflow x of (v, overflow) \<Rightarrow>
      if overflow then gas_err ErrGasUintOverflow f evm else k v)"

section \<open>Memory\<close>

definition memoryGasCost :: "Memory \<Rightarrow> u64 \<Rightarrow> u64 \<times> vmErr option \<times> Memory" where
  "memoryGasCost mem newMemSize =
    (if newMemSize = 0 then (0, None, mem)
     else if newMemSize > 0x1FFFFFFFE0 then (0, Some ErrGasUintOverflow, mem)
     else
       let newMemSizeWords = toWordSize newMemSize;
           newMemSize = newMemSizeWords * 32
       in if newMemSize > len64 (mstore mem)
          then let square = newMemSizeWords * newMemSizeWords;
                   linCoef = newMemSizeWords * MemoryGas;
                   quadCoef = square div QuadCoeffDiv;
                   newTotalFee = linCoef + quadCoef
               in (newTotalFee - lastGasCost mem, None, mem \<lparr> lastGasCost := newTotalFee \<rparr>)
          else (0, None, mem))"

definition with_memory :: "frame \<Rightarrow> EVM \<Rightarrow> u64 \<Rightarrow> (u64 \<Rightarrow> frame \<Rightarrow> gasRes) \<Rightarrow> gasRes" where
  "with_memory f evm memSz k =
    (case memoryGasCost (fmem f) memSz of (gas, err, mem) \<Rightarrow>
       case err of Some e \<Rightarrow> gas_err e (f \<lparr> fmem := mem \<rparr>) evm | None \<Rightarrow> k gas (f \<lparr> fmem := mem \<rparr>))"

definition memoryCopierGas :: "nat \<Rightarrow> frame \<Rightarrow> EVM \<Rightarrow> u64 \<Rightarrow> gasRes" where
  "memoryCopierGas stackpos f evm memSz =
    with_memory f evm memSz (\<lambda>gas f.
      read_u64 stackpos f evm (\<lambda>words.
        mul_gas (toWordSize words) CopyGas f evm (\<lambda>words.
          add_gas gas words f evm (\<lambda>gas. gas_ret gas f evm))))"

definition pureMemoryGascost :: "frame \<Rightarrow> EVM \<Rightarrow> u64 \<Rightarrow> gasRes" where
  "pureMemoryGascost f evm memSz = with_memory f evm memSz (\<lambda>gas f. gas_ret gas f evm)"

definition makeGasLog :: "u64 \<Rightarrow> frame \<Rightarrow> EVM \<Rightarrow> u64 \<Rightarrow> gasRes" where
  "makeGasLog n f evm memSz =
    read_u64 1 f evm (\<lambda>requestedSize.
      with_memory f evm memSz (\<lambda>gas f.
        add_gas gas LogGas f evm (\<lambda>gas.
          add_gas gas (n * LogTopicGas) f evm (\<lambda>gas.
            mul_gas requestedSize LogDataGas f evm (\<lambda>memorySizeGas.
              add_gas gas memorySizeGas f evm (\<lambda>gas. gas_ret gas f evm))))))"

definition gasKeccak256 :: "frame \<Rightarrow> EVM \<Rightarrow> u64 \<Rightarrow> gasRes" where
  "gasKeccak256 f evm memSz =
    with_memory f evm memSz (\<lambda>gas f.
      read_u64 1 f evm (\<lambda>wordGas.
        mul_gas (toWordSize wordGas) Keccak256WordGas f evm (\<lambda>wordGas.
          add_gas gas wordGas f evm (\<lambda>gas. gas_ret gas f evm))))"

definition gasCreate2 :: "frame \<Rightarrow> EVM \<Rightarrow> u64 \<Rightarrow> gasRes" where
  "gasCreate2 f evm memSz =
    with_memory f evm memSz (\<lambda>gas f.
      read_u64 2 f evm (\<lambda>wordGas.
        mul_gas (toWordSize wordGas) Keccak256WordGas f evm (\<lambda>wordGas.
          add_gas gas wordGas f evm (\<lambda>gas. gas_ret gas f evm))))"

definition create_initcode_gas :: "u64 \<Rightarrow> frame \<Rightarrow> EVM \<Rightarrow> u64 \<Rightarrow> gasRes" where
  "create_initcode_gas perWord f evm memSz =
    with_memory f evm memSz (\<lambda>gas f.
      go_bind (Back (fstack f) 2) (\<lambda>x. case Uint64WithOverflow x of (sz, overflow) \<Rightarrow>
        if overflow \<or> unat sz > MaxInitCodeSize then gas_err ErrGasUintOverflow f evm
        else add_gas gas (perWord * ((sz + 31) div 32)) f evm (\<lambda>gas. gas_ret gas f evm)))"

definition gasCreateEip3860 :: "frame \<Rightarrow> EVM \<Rightarrow> u64 \<Rightarrow> gasRes" where
  "gasCreateEip3860 = create_initcode_gas InitCodeWordGas"

definition gasCreate2Eip3860 :: "frame \<Rightarrow> EVM \<Rightarrow> u64 \<Rightarrow> gasRes" where
  "gasCreate2Eip3860 = create_initcode_gas (InitCodeWordGas + Keccak256WordGas)"

definition exp_gas :: "u64 \<Rightarrow> frame \<Rightarrow> EVM \<Rightarrow> gasRes" where
  "exp_gas perByte f evm =
    go_bind (Back (fstack f) 1) (\<lambda>e.
      let expByteLen = word_of_nat ((BitLen (unat e) + 7) div 8) in
      add_gas (expByteLen * perByte) ExpGas f evm (\<lambda>gas. gas_ret gas f evm))"

definition gasExpFrontier :: "frame \<Rightarrow> EVM \<Rightarrow> u64 \<Rightarrow> gasRes" where
  "gasExpFrontier f evm memSz = exp_gas ExpByteFrontier f evm"

definition gasExpEIP158 :: "frame \<Rightarrow> EVM \<Rightarrow> u64 \<Rightarrow> gasRes" where
  "gasExpEIP158 f evm memSz = exp_gas ExpByteEIP158 f evm"

section \<open>Storage\<close>

text \<open>The refunds of a slot that was already written in the transaction, with the constants of the EIP.\<close>

definition sstore_refund :: "u64 \<Rightarrow> u64 \<Rightarrow> u64 \<Rightarrow> hash \<Rightarrow> hash \<Rightarrow> hash \<Rightarrow> StateDB \<Rightarrow> StateDB go" where
  "sstore_refund clearing resetInit resetExisting original current value db =
    go_bind (if original \<noteq> 0
             then if current = 0 then SubRefund clearing db
                  else if value = 0 then Ret (AddRefund clearing db) else Ret db
             else Ret db)
      (\<lambda>db. Ret (if original = value
                 then if original = 0 then AddRefund resetInit db else AddRefund resetExisting db
                 else db))"

definition gasSStore :: "vmContext \<Rightarrow> frame \<Rightarrow> EVM \<Rightarrow> gasRes" where
  "gasSStore ctx f evm =
    go_bind (Back (fstack f) 1) (\<lambda>y. go_bind (Back (fstack f) 0) (\<lambda>x.
      let addr = selfAddr (fcontract f) in
      case GetState addr x (statedb evm) of (current, db) \<Rightarrow>
      if rIsPetersburg (chainRules ctx) \<or> \<not> rIsConstantinople (chainRules ctx)
      then (if current = 0 \<and> y \<noteq> 0 then gas_ret SstoreSetGas f (evm \<lparr> statedb := db \<rparr>)
            else if current \<noteq> 0 \<and> y = 0
            then gas_ret SstoreClearGas f (evm \<lparr> statedb := AddRefund SstoreRefundGas db \<rparr>)
            else gas_ret SstoreResetGas f (evm \<lparr> statedb := db \<rparr>))
      else if current = y then gas_ret NetSstoreNoopGas f (evm \<lparr> statedb := db \<rparr>)
      else case GetCommittedState addr x db of (original, db) \<Rightarrow>
        if original = current
        then if original = 0 then gas_ret NetSstoreInitGas f (evm \<lparr> statedb := db \<rparr>)
             else gas_ret NetSstoreCleanGas f
                    (evm \<lparr> statedb := (if y = 0 then AddRefund NetSstoreClearRefund db else db) \<rparr>)
        else go_bind (sstore_refund NetSstoreClearRefund NetSstoreResetClearRefund NetSstoreResetRefund
                        original current y db)
               (\<lambda>db. gas_ret NetSstoreDirtyGas f (evm \<lparr> statedb := db \<rparr>))))"

definition gasSStoreEIP2200 :: "frame \<Rightarrow> EVM \<Rightarrow> gasRes" where
  "gasSStoreEIP2200 f evm =
    (if Gas (fcontract f) \<le> SstoreSentryGasEIP2200
     then gas_err (ErrOther ''not enough gas for reentrancy sentry'') f evm
     else go_bind (Back (fstack f) 1) (\<lambda>y. go_bind (Back (fstack f) 0) (\<lambda>x.
      let addr = selfAddr (fcontract f) in
      case GetState addr x (statedb evm) of (current, db) \<Rightarrow>
      if current = y then gas_ret SloadGasEIP2200 f (evm \<lparr> statedb := db \<rparr>)
      else case GetCommittedState addr x db of (original, db) \<Rightarrow>
        if original = current
        then if original = 0 then gas_ret SstoreSetGasEIP2200 f (evm \<lparr> statedb := db \<rparr>)
             else gas_ret SstoreResetGasEIP2200 f
                    (evm \<lparr> statedb := (if y = 0 then AddRefund SstoreClearsScheduleRefundEIP2200 db else db) \<rparr>)
        else go_bind (sstore_refund SstoreClearsScheduleRefundEIP2200 (SstoreSetGasEIP2200 - SloadGasEIP2200)
                        (SstoreResetGasEIP2200 - SloadGasEIP2200) original current y db)
               (\<lambda>db. gas_ret SloadGasEIP2200 f (evm \<lparr> statedb := db \<rparr>)))))"

text \<open>\<open>makeGasSStoreFunc\<close>: charge a cold slot, panic if the contract itself is not in the access list.\<close>

definition makeGasSStoreFunc :: "u64 \<Rightarrow> frame \<Rightarrow> EVM \<Rightarrow> gasRes" where
  "makeGasSStoreFunc clearingRefund f evm =
    (if Gas (fcontract f) \<le> SstoreSentryGasEIP2200
     then gas_err (ErrOther ''not enough gas for reentrancy sentry'') f evm
     else go_bind (Back (fstack f) 1) (\<lambda>y. go_bind (Back (fstack f) 0) (\<lambda>x.
      let addr = selfAddr (fcontract f) in
      case GetState addr x (statedb evm) of (current, db) \<Rightarrow>
      go_bind (SlotInAccessList addr x db) (\<lambda>(addrPresent, slotPresent).
      go_bind (if \<not> slotPresent
               then go_bind (AddSlotToAccessList addr x db) (\<lambda>db.
                      if \<not> addrPresent
                      then Panic ''impossible case: address was not present in access list during sstore op''
                      else Ret (ColdSloadCostEIP2929, db))
               else Ret (0, db)) (\<lambda>(cost, db).
      if current = y then gas_ret (cost + WarmStorageReadCostEIP2929) f (evm \<lparr> statedb := db \<rparr>)
      else case GetCommittedState addr x db of (original, db) \<Rightarrow>
        if original = current
        then if original = 0 then gas_ret (cost + SstoreSetGasEIP2200) f (evm \<lparr> statedb := db \<rparr>)
             else gas_ret (cost + (SstoreResetGasEIP2200 - ColdSloadCostEIP2929)) f
                    (evm \<lparr> statedb := (if y = 0 then AddRefund clearingRefund db else db) \<rparr>)
        else go_bind (sstore_refund clearingRefund (SstoreSetGasEIP2200 - WarmStorageReadCostEIP2929)
                        ((SstoreResetGasEIP2200 - ColdSloadCostEIP2929) - WarmStorageReadCostEIP2929)
                        original current y db)
               (\<lambda>db. gas_ret (cost + WarmStorageReadCostEIP2929) f (evm \<lparr> statedb := db \<rparr>)))))))"

definition gasSLoadEIP2929 :: "frame \<Rightarrow> EVM \<Rightarrow> gasRes" where
  "gasSLoadEIP2929 f evm =
    go_bind (Back (fstack f) 0) (\<lambda>slot.
      let addr = selfAddr (fcontract f) in
      go_bind (SlotInAccessList addr slot (statedb evm)) (\<lambda>(_, slotPresent).
        if \<not> slotPresent
        then go_bind (AddSlotToAccessList addr slot (statedb evm))
               (\<lambda>db. gas_ret ColdSloadCostEIP2929 f (evm \<lparr> statedb := db \<rparr>))
        else gas_ret WarmStorageReadCostEIP2929 f evm))"

section \<open>Accounts and calls\<close>

definition gasExtCodeCopyEIP2929 :: "frame \<Rightarrow> EVM \<Rightarrow> u64 \<Rightarrow> gasRes" where
  "gasExtCodeCopyEIP2929 f evm memSz =
    go_bind (memoryCopierGas 3 f evm memSz) (\<lambda>(gas, err, f, evm).
      case err of Some e \<Rightarrow> gas_err e f evm
      | None \<Rightarrow> go_bind (Back (fstack f) 0) (\<lambda>x.
          let addr = Bytes20 x in
          if \<not> AddressInAccessList addr (statedb evm)
          then let evm = evm \<lparr> statedb := AddAddressToAccessList addr (statedb evm) \<rparr> in
               add_gas gas (ColdAccountAccessCostEIP2929 - WarmStorageReadCostEIP2929) f evm
                 (\<lambda>gas. gas_ret gas f evm)
          else gas_ret gas f evm))"

definition gasEip2929AccountCheck :: "frame \<Rightarrow> EVM \<Rightarrow> gasRes" where
  "gasEip2929AccountCheck f evm =
    go_bind (Back (fstack f) 0) (\<lambda>x.
      let addr = Bytes20 x in
      if \<not> AddressInAccessList addr (statedb evm)
      then gas_ret (ColdAccountAccessCostEIP2929 - WarmStorageReadCostEIP2929) f
             (evm \<lparr> statedb := AddAddressToAccessList addr (statedb evm) \<rparr>)
      else gas_ret 0 f evm)"

text \<open>
  The end shared by the call gas functions: the gas so far is the base of \<open>callGas\<close>, which sets
  \<open>callGasTemp\<close>.
\<close>

definition finish_call_gas :: "vmContext \<Rightarrow> u64 \<Rightarrow> frame \<Rightarrow> EVM \<Rightarrow> gasRes" where
  "finish_call_gas ctx gas f evm =
    go_bind (Back (fstack f) 0) (\<lambda>callCost.
      case callGas (rIsEIP150 (chainRules ctx)) (Gas (fcontract f)) gas callCost of (temp, err) \<Rightarrow>
        let evm = evm \<lparr> callGasTemp := temp \<rparr> in
        case err of Some e \<Rightarrow> gas_err e f evm
        | None \<Rightarrow> add_gas gas temp f evm (\<lambda>gas. gas_ret gas f evm))"

definition gasCall :: "vmContext \<Rightarrow> frame \<Rightarrow> EVM \<Rightarrow> u64 \<Rightarrow> gasRes" where
  "gasCall ctx f evm memSz =
    go_bind (Back (fstack f) 2) (\<lambda>v. go_bind (Back (fstack f) 1) (\<lambda>a.
      let transfersValue = (v \<noteq> 0); address = Bytes20 a in
      case (if rIsEIP158 (chainRules ctx)
            then if transfersValue then Empty address (statedb evm) else (False, statedb evm)
            else case Exist address (statedb evm) of (b, db) \<Rightarrow> (\<not> b, db)) of (isNew, db) \<Rightarrow>
      let evm = evm \<lparr> statedb := db \<rparr>;
          gas = (if isNew then CallNewAccountGas else 0);
          gas = (if transfersValue then gas + CallValueTransferGas else gas)
      in with_memory f evm memSz (\<lambda>memoryGas f.
           add_gas gas memoryGas f evm (\<lambda>gas. finish_call_gas ctx gas f evm))))"

definition gasCallCode :: "vmContext \<Rightarrow> frame \<Rightarrow> EVM \<Rightarrow> u64 \<Rightarrow> gasRes" where
  "gasCallCode ctx f evm memSz =
    with_memory f evm memSz (\<lambda>memoryGas f.
      go_bind (Back (fstack f) 2) (\<lambda>v.
        let gas = (if v \<noteq> 0 then CallValueTransferGas else 0) in
        add_gas gas memoryGas f evm (\<lambda>gas. finish_call_gas ctx gas f evm)))"

definition gasDelegateCall :: "vmContext \<Rightarrow> frame \<Rightarrow> EVM \<Rightarrow> u64 \<Rightarrow> gasRes" where
  "gasDelegateCall ctx f evm memSz = with_memory f evm memSz (\<lambda>gas f. finish_call_gas ctx gas f evm)"

definition gasStaticCall :: "vmContext \<Rightarrow> frame \<Rightarrow> EVM \<Rightarrow> u64 \<Rightarrow> gasRes" where
  "gasStaticCall ctx f evm memSz = with_memory f evm memSz (\<lambda>gas f. finish_call_gas ctx gas f evm)"

text \<open>
  \<open>makeCallVariantGasCallEIP2929\<close>: a cold callee's surcharge is taken from the contract while the old
  calculator runs, so that the all-but-one-64th rule sees it, and given back afterwards.
\<close>

definition makeCallVariantGasCallEIP2929 ::
    "(frame \<Rightarrow> EVM \<Rightarrow> u64 \<Rightarrow> gasRes) \<Rightarrow> frame \<Rightarrow> EVM \<Rightarrow> u64 \<Rightarrow> gasRes" where
  "makeCallVariantGasCallEIP2929 oldCalculator f evm memSz =
    go_bind (Back (fstack f) 1) (\<lambda>a.
      let addr = Bytes20 a;
          coldCost = ColdAccountAccessCostEIP2929 - WarmStorageReadCostEIP2929
      in if AddressInAccessList addr (statedb evm) then oldCalculator f evm memSz
         else
          let evm = evm \<lparr> statedb := AddAddressToAccessList addr (statedb evm) \<rparr> in
          case UseGas coldCost (fcontract f) of
            None \<Rightarrow> gas_err ErrOutOfGas f evm
          | Some c \<Rightarrow> go_bind (oldCalculator (f \<lparr> fcontract := c \<rparr>) evm memSz) (\<lambda>(gas, err, f, evm).
              case err of Some e \<Rightarrow> Ret (gas, err, f, evm)
              | None \<Rightarrow> gas_ret (gas + coldCost)
                  (f \<lparr> fcontract := (fcontract f) \<lparr> Gas := Gas (fcontract f) + coldCost \<rparr> \<rparr>) evm))"

definition gasSelfdestruct :: "vmContext \<Rightarrow> frame \<Rightarrow> EVM \<Rightarrow> gasRes" where
  "gasSelfdestruct ctx f evm =
    go_bind (if rIsEIP150 (chainRules ctx)
             then go_bind (Back (fstack f) 0) (\<lambda>a.
               let address = Bytes20 a in
               Ret (if rIsEIP158 (chainRules ctx)
                    then (case Empty address (statedb evm) of (e, db) \<Rightarrow>
                          if e then (case GetBalance (selfAddr (fcontract f)) db of (b, db) \<Rightarrow>
                                 (SelfdestructGasEIP150 + (if b \<noteq> 0 then CreateBySelfdestructGas else 0), db))
                          else (SelfdestructGasEIP150, db))
                    else (case Exist address (statedb evm) of (b, db) \<Rightarrow>
                          (SelfdestructGasEIP150 + (if b then 0 else CreateBySelfdestructGas), db))))
             else Ret (0, statedb evm))
      (\<lambda>(gas, db).
        case HasSuicided (selfAddr (fcontract f)) db of (h, db) \<Rightarrow>
          gas_ret gas f (evm \<lparr> statedb := (if h then db else AddRefund SelfdestructRefundGas db) \<rparr>))"

definition makeSelfdestructGasFn :: "bool \<Rightarrow> frame \<Rightarrow> EVM \<Rightarrow> gasRes" where
  "makeSelfdestructGasFn refundsEnabled f evm =
    go_bind (Back (fstack f) 0) (\<lambda>a.
      let address = Bytes20 a;
          warm_or = (if AddressInAccessList address (statedb evm) then (0, statedb evm)
                     else (ColdAccountAccessCostEIP2929, AddAddressToAccessList address (statedb evm)))
      in case warm_or of (gas, db) \<Rightarrow>
         case Empty address db of (e, db) \<Rightarrow>
         case (if e then GetBalance (selfAddr (fcontract f)) db else (0, db)) of (b, db) \<Rightarrow>
         let gas = (if e \<and> b \<noteq> 0 then gas + CreateBySelfdestructGas else gas) in
         case (if refundsEnabled then HasSuicided (selfAddr (fcontract f)) db else (True, db)) of (h, db) \<Rightarrow>
           gas_ret gas f (evm \<lparr> statedb := (if h then db else AddRefund SelfdestructRefundGas db) \<rparr>))"

section \<open>Dispatch\<close>

fun dynamic_gas :: "vmContext \<Rightarrow> gasFunc \<Rightarrow> frame \<Rightarrow> EVM \<Rightarrow> u64 \<Rightarrow> gasRes" where
  "dynamic_gas ctx (GasMemoryCopier n) f evm ms = memoryCopierGas n f evm ms"
| "dynamic_gas ctx GasSStore f evm ms = gasSStore ctx f evm"
| "dynamic_gas ctx GasSStoreEIP2200 f evm ms = gasSStoreEIP2200 f evm"
| "dynamic_gas ctx (GasSStoreFunc c) f evm ms = makeGasSStoreFunc c f evm"
| "dynamic_gas ctx (GasLog n) f evm ms = makeGasLog n f evm ms"
| "dynamic_gas ctx GasKeccak256 f evm ms = gasKeccak256 f evm ms"
| "dynamic_gas ctx GasPureMemory f evm ms = pureMemoryGascost f evm ms"
| "dynamic_gas ctx GasCreate2 f evm ms = gasCreate2 f evm ms"
| "dynamic_gas ctx GasCreateEip3860 f evm ms = gasCreateEip3860 f evm ms"
| "dynamic_gas ctx GasCreate2Eip3860 f evm ms = gasCreate2Eip3860 f evm ms"
| "dynamic_gas ctx GasExpFrontier f evm ms = gasExpFrontier f evm ms"
| "dynamic_gas ctx GasExpEIP158 f evm ms = gasExpEIP158 f evm ms"
| "dynamic_gas ctx GasCall f evm ms = gasCall ctx f evm ms"
| "dynamic_gas ctx GasCallCode f evm ms = gasCallCode ctx f evm ms"
| "dynamic_gas ctx GasDelegateCall f evm ms = gasDelegateCall ctx f evm ms"
| "dynamic_gas ctx GasStaticCall f evm ms = gasStaticCall ctx f evm ms"
| "dynamic_gas ctx GasSelfdestruct f evm ms = gasSelfdestruct ctx f evm"
| "dynamic_gas ctx GasSLoadEIP2929 f evm ms = gasSLoadEIP2929 f evm"
| "dynamic_gas ctx GasExtCodeCopyEIP2929 f evm ms = gasExtCodeCopyEIP2929 f evm ms"
| "dynamic_gas ctx GasEip2929AccountCheck f evm ms = gasEip2929AccountCheck f evm"
| "dynamic_gas ctx (GasCallVariantEIP2929 g) f evm ms =
     makeCallVariantGasCallEIP2929 (dynamic_gas ctx g) f evm ms"
| "dynamic_gas ctx (GasSelfdestructFn b) f evm ms = makeSelfdestructGasFn b f evm"

end
