(* ===== verification/State_Frame.thy ===== *)
theory State_Frame
  imports State_Props
begin

text \<open>
  How the state database may change while contract code runs. \<open>evolves ro s t\<close> says that \<open>t\<close> was reached
  from \<open>s\<close> by journaled operations and, when \<open>ro\<close> holds (a static call), that no account, log or
  transient slot has changed: an account that existed is the same, and one that did not is at most an
  empty one. Facts: every operation the virtual machine uses is such a step, the reads and the gas
  bookkeeping even a read-only one.
\<close>

definition frozen :: "state_view \<Rightarrow> state_view \<Rightarrow> bool" where
  "frozen v w \<longleftrightarrow>
     (\<forall>a x. vlive v a = Some x \<longrightarrow> vlive w a = Some x) \<and>
     (\<forall>a y. vlive v a = None \<longrightarrow> vlive w a = Some y \<longrightarrow> vempty y) \<and>
     vLogs w = vLogs v \<and> vTransient w = vTransient v"

definition evolves :: "bool \<Rightarrow> StateDB \<Rightarrow> StateDB \<Rightarrow> bool" where
  "evolves ro s t \<longleftrightarrow> extends s t \<and> (ro \<longrightarrow> frozen (view s) (view t))"

lemma frozen_refl [simp]: "frozen v v"
  by (simp add: frozen_def)

lemma frozen_trans: "frozen u v \<Longrightarrow> frozen v w \<Longrightarrow> frozen u w"
  unfolding frozen_def by (metis option.exhaust)

lemma frozen_fields:
  "vObjs w = vObjs v \<Longrightarrow> vLogs w = vLogs v \<Longrightarrow> vTransient w = vTransient v \<Longrightarrow> frozen v w"
  by (simp add: frozen_def vlive_def)

lemma evolves_refl [intro]: "wf_state s \<Longrightarrow> evolves ro s s"
  by (simp add: evolves_def extends_refl)

lemma evolves_trans [trans]: "evolves ro s t \<Longrightarrow> evolves ro t u \<Longrightarrow> evolves ro s u"
  unfolding evolves_def using extends_trans frozen_trans by blast

lemma evolves_wf: "evolves ro s t \<Longrightarrow> wf_state t"
  by (auto simp: evolves_def intro: extends_wf)

lemma evolves_extends: "evolves ro s t \<Longrightarrow> extends s t"
  by (simp add: evolves_def)

lemma evolves_weaken: "evolves ro s t \<Longrightarrow> (ro' \<Longrightarrow> ro) \<Longrightarrow> evolves ro' s t"
  by (auto simp: evolves_def)

lemma evolves_write: "extends s t \<Longrightarrow> evolves False s t"
  by (simp add: evolves_def)

lemma evolves_quiet: "wf_state s \<Longrightarrow> quiet s t \<Longrightarrow> evolves ro s t"
  by (auto simp: evolves_def quiet_def intro: extends_quiet [unfolded quiet_def])

lemma evolves_view: "extends s t \<Longrightarrow> view t = view s \<Longrightarrow> evolves ro s t"
  by (simp add: evolves_def)

section \<open>Reads\<close>

lemma evolves_reads:
  assumes "wf_state s"
  shows "Exist a s = (b, t) \<Longrightarrow> evolves ro s t" "Empty a s = (b, t) \<Longrightarrow> evolves ro s t"
    "GetBalance a s = (x, t) \<Longrightarrow> evolves ro s t" "GetNonce a s = (n, t) \<Longrightarrow> evolves ro s t"
    "GetCodeHash a s = (h, t) \<Longrightarrow> evolves ro s t" "HasSuicided a s = (b, t) \<Longrightarrow> evolves ro s t"
    "GetState a k s = (h, t) \<Longrightarrow> evolves ro s t" "GetCommittedState a k s = (h, t) \<Longrightarrow> evolves ro s t"
    "GetCode a s = (c, t) \<Longrightarrow> evolves ro s t" "GetCodeSize a s = (m, t) \<Longrightarrow> evolves ro s t"
    "Snapshot s = (i, t) \<Longrightarrow> evolves ro s t"
proof -
  note q = evolves_quiet [OF assms]
  show "Exist a s = (b, t) \<Longrightarrow> evolves ro s t" using q Exist_spec [OF assms] by blast
  show "Empty a s = (b, t) \<Longrightarrow> evolves ro s t" using q Empty_spec [OF assms] by blast
  show "GetBalance a s = (x, t) \<Longrightarrow> evolves ro s t" using q GetBalance_spec [OF assms] by blast
  show "GetNonce a s = (n, t) \<Longrightarrow> evolves ro s t" using q GetNonce_spec [OF assms] by blast
  show "GetCodeHash a s = (h, t) \<Longrightarrow> evolves ro s t" using q GetCodeHash_spec [OF assms] by blast
  show "HasSuicided a s = (b, t) \<Longrightarrow> evolves ro s t" using q HasSuicided_spec [OF assms] by blast
  show "GetState a k s = (h, t) \<Longrightarrow> evolves ro s t" using q GetState_spec [OF assms] by blast
  show "GetCommittedState a k s = (h, t) \<Longrightarrow> evolves ro s t" using q GetCommittedState_spec [OF assms] by blast
  show "GetCode a s = (c, t) \<Longrightarrow> evolves ro s t" using q GetCode_spec [OF assms] by blast
  show "GetCodeSize a s = (m, t) \<Longrightarrow> evolves ro s t" using q GetCodeSize_quiet [OF assms] by blast
  show "Snapshot s = (i, t) \<Longrightarrow> evolves ro s t"
    using sdb.snapshot_ext [OF assms] sdb.snapshot_obs by (intro evolves_view) auto
qed

section \<open>Gas bookkeeping\<close>

lemma evolves_AddRefund: "wf_state s \<Longrightarrow> evolves ro s (AddRefund g s)"
  unfolding evolves_def using AddRefund_spec
  by (auto intro!: frozen_fields simp: AddRefund_def journal_append_def view_def Let_def)

lemma evolves_SubRefund: "wf_state s \<Longrightarrow> SubRefund g s = Ret t \<Longrightarrow> evolves ro s t"
  unfolding evolves_def using SubRefund_spec [of s g t]
  by (auto intro!: frozen_fields simp: SubRefund_def journal_append_def view_def Let_def split: if_splits)

lemma evolves_AddPreimage: "wf_state s \<Longrightarrow> evolves ro s (AddPreimage h p s)"
  unfolding evolves_def using AddPreimage_spec
  by (auto intro!: frozen_fields simp: AddPreimage_def journal_append_def view_def Let_def)

lemma evolves_AddAddress: "wf_state s \<Longrightarrow> evolves ro s (AddAddressToAccessList a s)"
  unfolding evolves_def using AddAddressToAccessList_spec [of s a] by (auto intro!: frozen_fields)

lemma evolves_AddSlot: "wf_state s \<Longrightarrow> AddSlotToAccessList a k s = Ret t \<Longrightarrow> evolves ro s t"
  unfolding evolves_def using AddSlotToAccessList_spec [of s a k] by (auto intro!: frozen_fields)

lemmas evolves_gas = evolves_AddRefund evolves_SubRefund evolves_AddPreimage evolves_AddAddress evolves_AddSlot

section \<open>Zero-value transfers\<close>

lemma vempty_new [simp]: "vempty (new_view db D a)"
  by (simp add: vempty_def new_view_def obj_view_def newObject_def zeroAccount_def)

lemma vtouch_fields [simp]: "vLogs (vtouch a v) = vLogs v" "vTransient (vtouch a v) = vTransient v"
  by (simp_all add: vtouch_def)

lemma frozen_vtouch: "frozen v (vtouch a v)"
  by (intro frozen_fields) simp_all

lemma acreate_fields [simp]: "vLogs (acreate a v) = vLogs v" "vTransient (acreate a v) = vTransient v"
  by (simp_all add: acreate_def vtouch_def vdirty_def split: option.split)

lemma frozen_vnew: "frozen v (vnew a v)"
proof -
  have "vLogs (vnew a v) = vLogs v" "vTransient (vnew a v) = vTransient v" by (simp_all add: vnew_def)
  then show ?thesis unfolding frozen_def by (auto simp: vlive_vnew split: if_splits)
qed

lemma evolves_AddBalance_0: "wf_state s \<Longrightarrow> evolves ro s (AddBalance a 0 s)"
  unfolding evolves_def using AddBalance_spec [of s a 0] frozen_trans [OF frozen_vnew frozen_vtouch]
  by (auto simp: vAddBalance_def frozen_vnew)

lemma evolves_SubBalance_0: "wf_state s \<Longrightarrow> evolves ro s (SubBalance a 0 s)"
  unfolding evolves_def using SubBalance_spec [of s a 0] by (auto simp: vSubBalance_def frozen_vnew)

lemma evolves_CreateAccount:
  "wf_state s \<Longrightarrow> vlive (view s) a = None \<Longrightarrow> evolves ro s (CreateAccount a s)"
  unfolding evolves_def using CreateAccount_spec [of s a] frozen_vnew [of "view s" a] by (auto simp: vnew_def)

section \<open>Writes\<close>

lemma evolves_writes:
  assumes "wf_state s"
  shows "evolves False s (AddBalance a x s)" "evolves False s (SubBalance a x s)"
    "evolves False s (SetNonce a n s)" "evolves False s (SetCode kec a c s)" "evolves False s (SetState a k h s)"
    "evolves False s (CreateAccount a s)" "evolves False s (SetTransientState a k h s)"
    "evolves False s (AddLog l s)" "evolves False s (snd (Suicide a s))"
  by (auto intro!: evolves_write state_steps extends_snd assms)

text \<open>Reverting a snapshot undoes all that came after it, so it is even a read-only step.\<close>

lemma evolves_revert:
  assumes "wf_state s" "Snapshot s = (i, s1)" "extends s1 t"
  shows "\<exists>u. RevertToSnapshot i t = Ret u \<and> view u = view s \<and> evolves ro s u"
  using sdb.revert_restores [OF assms] evolves_view by blast

end
