(* ===== verification/VM_Gas_Props.thy ===== *)
theory VM_Gas_Props
  imports VM_Gas State_Frame
begin

text \<open>
  Facts about the gas functions. The memory fee is exactly the difference of the quadratic fee
  \<open>mem_fee\<close> before and after the expansion and is computed without overflow. Every gas function, run
  with enough stack items, neither hits a stack or memory panic nor touches program counter, stack and
  memory contents; it changes the state only by read-only steps; and the gas a call instruction is
  charged covers the gas it hands to the callee together with the stipend.
\<close>

section \<open>The memory fee\<close>

definition mem_fee :: "nat \<Rightarrow> nat" where
  "mem_fee w = 3 * w + w * w div 512"

definition words_of :: "nat \<Rightarrow> nat" where
  "words_of n = (n + 31) div 32"

abbreviation max_memory :: nat where "max_memory \<equiv> 0x1FFFFFFFE0"

definition mem_inv :: "Memory \<Rightarrow> bool" where
  "mem_inv m \<longleftrightarrow> 32 dvd mem_Len m \<and> mem_Len m \<le> max_memory \<and> unat (lastGasCost m) = mem_fee (words_of (mem_Len m))"

definition mem_paid :: "u64 \<Rightarrow> Memory \<Rightarrow> Memory \<Rightarrow> bool" where
  "mem_paid ms m m' \<longleftrightarrow> mstore m' = mstore m \<and> unat ms \<le> max_memory \<and>
     unat (lastGasCost m') = mem_fee (max (words_of (mem_Len m)) (words_of (unat ms)))"

lemma mem_fee_mono: "v \<le> w \<Longrightarrow> mem_fee v \<le> mem_fee w"
  unfolding mem_fee_def by (intro add_mono div_le_mono mult_mono) auto

lemma mem_fee_bound: "w \<le> 4294967295 \<Longrightarrow> mem_fee w \<le> 36028809887088637"
  using mem_fee_mono [of w 4294967295] by (simp add: mem_fee_def)

lemma unat_mult_small: "unat (x :: u64) * unat y < 2 ^ 64 \<Longrightarrow> unat (x * y) = unat x * unat y"
  by (simp add: unat_mult_u64)

lemma unat_add_small: "unat (x :: u64) + unat y < 2 ^ 64 \<Longrightarrow> unat (x + y) = unat x + unat y"
  by (simp add: unat_add_u64)

lemma fee_word:
  assumes "unat (w :: u64) \<le> 4294967295"
  shows "unat (w * MemoryGas + w * w div QuadCoeffDiv) = mem_fee (unat w)"
proof -
  have ww: "unat w * unat w \<le> 4294967295 * 4294967295" using assms by (intro mult_mono) auto
  then have sq: "unat (w * w) = unat w * unat w" by (intro unat_mult_small) simp
  have lin: "unat (w * 3) = unat w * 3" using assms by (subst unat_mult_small) simp_all
  have "unat w * unat w div 512 \<le> 4294967295 * 4294967295 div 512" by (rule div_le_mono [OF ww])
  then have "unat (w * 3 + w * w div 512) = unat w * 3 + unat w * unat w div 512"
    using assms lin sq by (subst unat_add_small) (simp_all add: unat_div)
  then show ?thesis by (simp add: mem_fee_def)
qed

lemma words_of_mult: "32 dvd n \<Longrightarrow> words_of n * 32 = n"
  unfolding words_of_def by (elim dvdE) simp

lemma words_of_le: "n \<le> max_memory \<Longrightarrow> words_of n \<le> 4294967295"
  by (simp add: words_of_def)

lemma memoryGasCost_spec:
  assumes "mem_inv m"
  shows "memoryGasCost m sz =
    (if unat sz > max_memory then (0, Some ErrGasUintOverflow, m)
     else (word_of_nat (mem_fee (max (words_of (mem_Len m)) (words_of (unat sz))) - mem_fee (words_of (mem_Len m))),
           None, m \<lparr> lastGasCost := word_of_nat (mem_fee (max (words_of (mem_Len m)) (words_of (unat sz)))) \<rparr>))"
proof (cases "unat sz > max_memory")
  case True
  then show ?thesis by (auto simp: memoryGasCost_def word_less_nat_alt)
next
  case False
  have inv: "32 dvd mem_Len m" "mem_Len m \<le> max_memory" "unat (lastGasCost m) = mem_fee (words_of (mem_Len m))"
    using assms by (auto simp: mem_inv_def)
  have last: "lastGasCost m = word_of_nat (mem_fee (words_of (mem_Len m)))"
    using inv(3) by (metis of_nat_unat ucast_id)
  let ?w = "toWordSize sz"
  have w: "unat ?w = words_of (unat sz)" by (simp add: toWordSize_exact words_of_def)
  then have w32: "unat (?w * 32) = words_of (unat sz) * 32"
    using words_of_le [of "unat sz"] False by (subst unat_mult_small) simp_all
  have len: "unat (len64 (mstore m)) = mem_Len m" using inv(2) by (intro unat_len64_mem) simp
  have grow: "?w * 32 > len64 (mstore m) \<longleftrightarrow> words_of (mem_Len m) < words_of (unat sz)"
    using words_of_mult [OF inv(1)] by (simp add: word_less_nat_alt w32 len) linarith
  have z: "sz = 0 \<Longrightarrow> words_of (unat sz) = 0" by (simp add: words_of_def)
  have fee: "?w * MemoryGas + ?w * ?w div QuadCoeffDiv = word_of_nat (mem_fee (words_of (unat sz)))"
    using fee_word [of ?w] words_of_le [of "unat sz"] False w by (metis not_less of_nat_unat ucast_id)
  show ?thesis
  proof (cases "words_of (mem_Len m) < words_of (unat sz)")
    case True
    then have "sz \<noteq> 0" using z by force
    moreover have "mem_fee (words_of (mem_Len m)) \<le> mem_fee (words_of (unat sz))" using True by (simp add: mem_fee_mono)
    ultimately show ?thesis using True False grow fee last
      by (simp add: memoryGasCost_def Let_def word_less_nat_alt max_def of_nat_diff)
  next
    case nogrow: False
    then have mx: "max (words_of (mem_Len m)) (words_of (unat sz)) = words_of (mem_Len m)" by simp
    show ?thesis using nogrow False grow last [symmetric]
      by (auto simp: memoryGasCost_def Let_def word_less_nat_alt mx)
  qed
qed

lemma unat_fee: "w \<le> 4294967295 \<Longrightarrow> unat (word_of_nat (mem_fee w) :: u64) = mem_fee w"
  using mem_fee_bound [of w] by (simp add: unat_of_nat)

lemma memoryGasCost_paid:
  assumes "mem_inv m" "memoryGasCost m sz = (g, None, m')"
  shows "mem_paid sz m m'" "unat g \<le> 36028809887088637"
    "unat g = mem_fee (max (words_of (mem_Len m)) (words_of (unat sz))) - mem_fee (words_of (mem_Len m))"
proof -
  have le: "unat sz \<le> max_memory" and m': "m' = m \<lparr> lastGasCost := word_of_nat (mem_fee (max (words_of (mem_Len m)) (words_of (unat sz)))) \<rparr>"
    and g: "g = word_of_nat (mem_fee (max (words_of (mem_Len m)) (words_of (unat sz))) - mem_fee (words_of (mem_Len m)))"
    using assms memoryGasCost_spec [OF assms(1), of sz] by (auto split: if_splits)
  have "mem_Len m \<le> max_memory" using assms(1) by (simp add: mem_inv_def)
  then have w: "max (words_of (mem_Len m)) (words_of (unat sz)) \<le> 4294967295"
    using le by (simp add: words_of_le)
  then show "mem_paid sz m m'" using le m' unat_fee by (simp add: mem_paid_def)
  show "unat g = mem_fee (max (words_of (mem_Len m)) (words_of (unat sz))) - mem_fee (words_of (mem_Len m))"
    using mem_fee_bound [OF w] g by (simp add: unat_of_nat)
  then show "unat g \<le> 36028809887088637" using mem_fee_bound [OF w] by linarith
qed

lemma memoryGasCost_error:
  "mem_inv m \<Longrightarrow> memoryGasCost m sz = (g, Some e, m') \<Longrightarrow> m' = m"
  by (auto simp: memoryGasCost_spec split: if_splits)

lemma mem_paid_refl: "mem_inv m \<Longrightarrow> mem_paid 0 m m"
  by (simp add: mem_paid_def mem_inv_def words_of_def)

lemma mem_Resize_inv:
  assumes "mem_inv m" "mem_paid ms m m'" "32 dvd unat ms"
  shows "mem_inv (if ms > 0 then mem_Resize ms m' else m')"
    "mem_Len (if ms > 0 then mem_Resize ms m' else m') = max (mem_Len m) (unat ms)"
proof -
  have len: "mem_Len m' = mem_Len m" using assms(2) by (simp add: mem_paid_def mem_Len_def)
  have m: "32 dvd mem_Len m" "mem_Len m \<le> max_memory" using assms(1) by (auto simp: mem_inv_def)
  then show l: "mem_Len (if ms > 0 then mem_Resize ms m' else m') = max (mem_Len m) (unat ms)"
    using len mem_Resize_Len [of m' ms] by (auto simp: word_gt_0)
  have "words_of (max (mem_Len m) (unat ms)) = max (words_of (mem_Len m)) (words_of (unat ms))"
    using div_le_mono [of "mem_Len m + 31" "unat ms + 31" 32] div_le_mono [of "unat ms + 31" "mem_Len m + 31" 32]
    by (auto simp: words_of_def max_def)
  moreover have "lastGasCost (if ms > 0 then mem_Resize ms m' else m') = lastGasCost m'" by (simp add: mem_Resize_def)
  ultimately show "mem_inv (if ms > 0 then mem_Resize ms m' else m')"
    using assms m l by (auto simp: mem_inv_def mem_paid_def max_def)
qed


section \<open>What a gas function may do\<close>

text \<open>The panics that would be a failure of the interpreter's own bounds checks.\<close>

definition vm_panics :: "string set" where
  "vm_panics = {''stack: index out of range'', ''memory: index out of range'', ''invalid memory: store empty'',
     ''makeslice: len out of range'', ''revision id cannot be reverted'', ''gas pool pushed above uint64''}"

definition evm_same :: "EVM \<Rightarrow> EVM \<Rightarrow> bool" where
  "evm_same evm evm' \<longleftrightarrow> depth evm' = depth evm \<and> readOnly evm' = readOnly evm \<and>
     returnData evm' = returnData evm \<and> jumpdests evm' = jumpdests evm"

definition gas_post :: "frame \<Rightarrow> EVM \<Rightarrow> u64 \<Rightarrow> (u64 \<Rightarrow> EVM \<Rightarrow> bool) \<Rightarrow> gasRes \<Rightarrow> bool" where
  "gas_post f evm ms P r \<longleftrightarrow>
    (case r of
       NoFuel \<Rightarrow> False
     | Panic msg \<Rightarrow> msg \<notin> vm_panics
     | Ret (g, err, f', evm') \<Rightarrow>
         fpc f' = fpc f \<and> fstack f' = fstack f \<and> mstore (fmem f') = mstore (fmem f) \<and>
         unat (Gas (fcontract f')) \<le> unat (Gas (fcontract f)) \<and>
         evm_same evm evm' \<and> evolves True (statedb evm) (statedb evm') \<and>
         (err = None \<longrightarrow> fcontract f' = fcontract f \<and> mem_paid ms (fmem f) (fmem f') \<and> P g evm'))"

text \<open>The frame and machine a gas function has reached: only the recorded memory fee and the state differ.\<close>

definition gas_at :: "frame \<Rightarrow> EVM \<Rightarrow> frame \<Rightarrow> EVM \<Rightarrow> bool" where
  "gas_at f evm f' evm' \<longleftrightarrow> f' = f \<lparr> fmem := fmem f' \<rparr> \<and> mstore (fmem f') = mstore (fmem f) \<and>
     evm_same evm evm' \<and> evolves True (statedb evm) (statedb evm')"

lemma gas_at_refl: "wf_state (statedb evm) \<Longrightarrow> gas_at f evm f evm"
  by (auto simp: gas_at_def evm_same_def)

lemma gas_at_sel:
  assumes "gas_at f evm f' evm'"
  shows "fstack f' = fstack f" "fcontract f' = fcontract f" "wf_state (statedb evm')" "fpc f' = fpc f"
proof -
  obtain m where "f' = f \<lparr> fmem := m \<rparr>" using assms unfolding gas_at_def by blast
  then show "fstack f' = fstack f" "fcontract f' = fcontract f" "fpc f' = fpc f" by simp_all
  show "wf_state (statedb evm')" using assms unfolding gas_at_def by (blast intro: evolves_wf)
qed

lemma gas_at_state:
  "gas_at f evm f' evm' \<Longrightarrow> evolves True (statedb evm') db \<Longrightarrow> gas_at f evm f' (evm' \<lparr> statedb := db \<rparr>)"
  by (auto simp: gas_at_def evm_same_def intro: evolves_trans)

lemma gas_at_temp: "gas_at f evm f' evm' \<Longrightarrow> gas_at f evm f' (evm' \<lparr> callGasTemp := t \<rparr>)"
  by (auto simp: gas_at_def evm_same_def)

lemma post_ret:
  "gas_at f evm f' evm' \<Longrightarrow> mem_paid ms (fmem f) (fmem f') \<Longrightarrow> P g evm' \<Longrightarrow> gas_post f evm ms P (gas_ret g f' evm')"
  using gas_at_sel [of f evm f' evm'] by (auto simp: gas_post_def gas_ret_def gas_at_def)

lemma post_err: "gas_at f evm f' evm' \<Longrightarrow> gas_post f evm ms P (gas_err e f' evm')"
  using gas_at_sel [of f evm f' evm'] by (auto simp: gas_post_def gas_err_def gas_at_def)

lemma post_add:
  assumes "gas_at f evm f' evm'" "\<And>r. unat r = unat g + unat x \<Longrightarrow> gas_post f evm ms P (k r)"
  shows "gas_post f evm ms P (add_gas g x f' evm' k)"
  using assms by (auto simp: add_gas_def post_err split: prod.splits dest: SafeAdd_exact)

lemma post_mul:
  assumes "gas_at f evm f' evm'" "\<And>r. unat r = unat g * unat x \<Longrightarrow> gas_post f evm ms P (k r)"
  shows "gas_post f evm ms P (mul_gas g x f' evm' k)"
  using assms by (auto simp: mul_gas_def post_err split: prod.splits dest: SafeMul_exact)

lemma post_read:
  assumes "gas_at f evm f' evm'" "i < length (fstack f)" "\<And>v. gas_post f evm ms P (k v)"
  shows "gas_post f evm ms P (read_u64 i f' evm' k)"
  using assms gas_at_sel(1) [OF assms(1)] by (auto simp: read_u64_def post_err split: prod.splits)

lemma post_memory:
  assumes "gas_at f evm f' evm'" "fmem f' = fmem f" "mem_inv (fmem f)"
    and "\<And>g m. unat g \<le> 36028809887088637 \<Longrightarrow> mem_paid ms (fmem f) m \<Longrightarrow>
      gas_at f evm (f' \<lparr> fmem := m \<rparr>) evm' \<Longrightarrow> gas_post f evm ms P (k g (f' \<lparr> fmem := m \<rparr>))"
  shows "gas_post f evm ms P (with_memory f' evm' ms k)"
proof -
  obtain g err m where m: "memoryGasCost (fmem f') ms = (g, err, m)" by (metis prod_cases3)
  show ?thesis
  proof (cases err)
    case None
    then have paid: "mem_paid ms (fmem f) m" "unat g \<le> 36028809887088637"
      using memoryGasCost_paid [OF assms(3)] m assms(2) by auto
    obtain m0 where "f' = f \<lparr> fmem := m0 \<rparr>" using assms(1) unfolding gas_at_def by blast
    then have "f' \<lparr> fmem := m \<rparr> = f \<lparr> fmem := m \<rparr>" by simp
    then have "gas_at f evm (f' \<lparr> fmem := m \<rparr>) evm'"
      using assms(1) paid(1) by (simp add: gas_at_def mem_paid_def)
    then show ?thesis using assms(4) paid m None by (simp add: with_memory_def)
  next
    case (Some e)
    then have "m = fmem f'" using memoryGasCost_error [OF assms(3)] m assms(2) by auto
    then have "f' \<lparr> fmem := m \<rparr> = f'" by simp
    then show ?thesis using Some m post_err [OF assms(1)] by (simp add: with_memory_def)
  qed
qed

lemma post_mono: "gas_post f evm ms P r \<Longrightarrow> (\<And>g e. P g e \<Longrightarrow> Q g e) \<Longrightarrow> gas_post f evm ms Q r"
  by (auto simp: gas_post_def split: go.splits)

lemma post_panic: "msg \<notin> vm_panics \<Longrightarrow> gas_post f evm ms P (Panic msg)"
  by (simp add: gas_post_def)

lemmas gas_rules = post_ret post_add post_mul post_read post_memory


lemma post_bind:
  assumes "case m of Ret db \<Rightarrow> evolves True s db | Panic msg \<Rightarrow> msg \<notin> vm_panics | NoFuel \<Rightarrow> False"
    and "\<And>db. m = Ret db \<Longrightarrow> evolves True s db \<Longrightarrow> gas_post f evm ms P (k db)"
  shows "gas_post f evm ms P (go_bind m k)"
  using assms by (cases m) (auto simp: gas_post_def)

lemma sstore_refund_state:
  assumes "wf_state db"
  shows "case sstore_refund c i e original current y db of
    Ret db' \<Rightarrow> evolves True db db' | Panic msg \<Rightarrow> msg \<notin> vm_panics | NoFuel \<Rightarrow> False"
proof -
  have add: "evolves True db (if b then AddRefund g db else db)" for b g
    using assms by (simp add: evolves_AddRefund evolves_refl)
  have upd: "evolves True db (if original = y then if original = 0 then AddRefund i t else AddRefund e t else t)"
    if "evolves True db t" for t
    using that evolves_wf [OF that] by (auto intro: evolves_trans evolves_AddRefund)
  show ?thesis
  proof (cases "original \<noteq> 0 \<and> current = 0")
    case True
    show ?thesis
    proof (cases "SubRefund c db")
      case (Ret t)
      then show ?thesis using True upd [OF evolves_SubRefund [OF assms Ret]] by (simp add: sstore_refund_def)
    qed (use True in \<open>auto simp: sstore_refund_def SubRefund_def vm_panics_def Let_def split: if_splits\<close>)
  next
    case False
    define t where "t = (if original \<noteq> 0 \<and> y = 0 then AddRefund c db else db)"
    have "sstore_refund c i e original current y db =
        Ret (if original = y then if original = 0 then AddRefund i t else AddRefund e t else t)"
      using False by (auto simp: sstore_refund_def t_def)
    moreover have "evolves True db t" using add by (simp add: t_def)
    ultimately show ?thesis using upd by simp
  qed
qed

section \<open>Gas for a callee\<close>

lemma sub_div_bound: "n < 2 ^ 64 \<Longrightarrow> n - n div 64 \<le> 2 ^ 64 - 2 ^ (58 :: nat)" for n :: nat
  by simp

lemma callGas_eip150:
  assumes "callGas True av base cost = (temp, err)"
  shows "err = None \<and> unat temp \<le> unat (av - base) - unat (av - base) div 64 \<and>
    temp = (if unat cost \<le> unat (av - base) - unat (av - base) div 64 then Uint64 cost
            else (av - base) - (av - base) div 64)"
proof -
  let ?g = "(av - base) - (av - base) div 64"
  have "(av - base) div 64 \<le> av - base" by (simp add: word_le_nat_alt unat_div)
  then have g: "unat ?g = unat (av - base) - unat (av - base) div 64"
    by (simp add: unat_sub_u64 unat_div)
  have less: "unat (av - base) - unat (av - base) div 64 < 2 ^ 64"
    by (rule le_less_trans [OF diff_le_self]) simp
  show ?thesis
  proof (cases "\<not> IsUint64 cost \<or> ?g < Uint64 cost")
    case True
    then have "temp = ?g" "err = None" using assms by (auto simp: callGas_def Let_def)
    moreover have "\<not> unat cost \<le> unat (av - base) - unat (av - base) div 64"
      using True less g by (auto simp: IsUint64_def word_less_nat_alt unat_Uint64)
    ultimately show ?thesis using g by simp
  next
    case False
    then have "temp = Uint64 cost" "err = None" using assms by (auto simp: callGas_def Let_def)
    moreover have "unat cost \<le> unat (av - base) - unat (av - base) div 64"
      using False g by (auto simp: word_less_nat_alt unat_Uint64)
    ultimately show ?thesis using False by (simp add: unat_Uint64)
  qed
qed

definition call_post :: "vmContext \<Rightarrow> nat \<Rightarrow> u64 \<Rightarrow> EVM \<Rightarrow> bool" where
  "call_post ctx v g evm \<longleftrightarrow> unat (callGasTemp evm) + v \<le> unat g \<and>
     (rIsEIP150 (chainRules ctx) \<longrightarrow> unat g + 2500 < 2 ^ 64)"

lemma finish_call_gas_post:
  assumes "gas_at f evm f' evm'" "mem_paid ms (fmem f) (fmem f')" "0 < length (fstack f)"
    and "unat gas \<le> 36028809887122637" "v \<le> unat gas"
  shows "gas_post f evm ms (call_post ctx v) (finish_call_gas ctx gas f' evm')"
proof -
  obtain temp err where c: "callGas (rIsEIP150 (chainRules ctx)) (Gas (fcontract f')) gas (fstack f' ! 0) = (temp, err)"
    by fastforce
  note at = gas_at_temp [OF assms(1), of temp]
  show ?thesis
  proof (cases err)
    case (Some e)
    then show ?thesis using assms(3) c post_err [OF at] gas_at_sel [OF assms(1)]
      by (simp add: finish_call_gas_def Let_def)
  next
    case None
    have "gas_post f evm ms (call_post ctx v)
        (add_gas gas temp f' (evm' \<lparr> callGasTemp := temp \<rparr>) (\<lambda>gas. gas_ret gas f' (evm' \<lparr> callGasTemp := temp \<rparr>)))"
    proof (rule post_add [OF at], rule post_ret [OF at assms(2)])
      fix r :: u64 assume r: "unat r = unat gas + unat temp"
      let ?d = "unat (Gas (fcontract f') - gas)"
      have "unat temp \<le> 2 ^ 64 - 2 ^ 58" if "rIsEIP150 (chainRules ctx)"
      proof -
        have "unat temp \<le> ?d - ?d div 64" using callGas_eip150 c that by (metis (full_types))
        also have "\<dots> \<le> 2 ^ 64 - 2 ^ 58" by (rule sub_div_bound) simp
        finally show ?thesis .
      qed
      then show "call_post ctx v r (evm' \<lparr> callGasTemp := temp \<rparr>)"
        using r assms(4,5) by (auto simp: call_post_def)
    qed
    then show ?thesis using assms(3) c None gas_at_sel [OF assms(1)]
      by (simp add: finish_call_gas_def Let_def)
  qed
qed

section \<open>The gas functions\<close>

definition gas_start :: "frame \<Rightarrow> EVM \<Rightarrow> bool" where
  "gas_start f evm \<longleftrightarrow> wf_state (statedb evm) \<and> mem_inv (fmem f)"

lemma wf: "gas_start f evm \<Longrightarrow> wf_state (statedb evm)"
  and mem: "gas_start f evm \<Longrightarrow> mem_inv (fmem f)"
  and start: "gas_start f evm \<Longrightarrow> gas_at f evm f evm"
  by (simp_all add: gas_start_def gas_at_refl)

lemma pureMemoryGascost_post:
  assumes gs: "gas_start f evm"
  shows "gas_post f evm ms (\<lambda>_ _. True) (pureMemoryGascost f evm ms)"
  unfolding pureMemoryGascost_def by (rule post_memory [OF start [OF gs] refl mem [OF gs]]) (auto intro: post_ret)

lemma memoryCopierGas_post:
  assumes gs: "gas_start f evm"
  shows "i < length (fstack f) \<Longrightarrow> gas_post f evm ms (\<lambda>_ _. True) (memoryCopierGas i f evm ms)"
  unfolding memoryCopierGas_def
  by (rule post_memory [OF start [OF gs] refl mem [OF gs]]) (auto intro!: post_ret post_add post_mul post_read)

lemma gasKeccak256_post:
  assumes gs: "gas_start f evm"
  shows "1 < length (fstack f) \<Longrightarrow> gas_post f evm ms (\<lambda>_ _. True) (gasKeccak256 f evm ms)"
  unfolding gasKeccak256_def
  by (rule post_memory [OF start [OF gs] refl mem [OF gs]]) (auto intro!: post_ret post_add post_mul post_read)

lemma gasCreate2_post:
  assumes gs: "gas_start f evm"
  shows "2 < length (fstack f) \<Longrightarrow> gas_post f evm ms (\<lambda>_ _. True) (gasCreate2 f evm ms)"
  unfolding gasCreate2_def
  by (rule post_memory [OF start [OF gs] refl mem [OF gs]]) (auto intro!: post_ret post_add post_mul post_read)

lemma create_initcode_gas_post:
  assumes gs: "gas_start f evm"
  shows "2 < length (fstack f) \<Longrightarrow> gas_post f evm ms (\<lambda>_ _. True) (create_initcode_gas w f evm ms)"
  unfolding create_initcode_gas_def
  by (rule post_memory [OF start [OF gs] refl mem [OF gs]])
    (auto intro!: post_ret post_add post_err simp: gas_at_sel split: prod.split)

lemma makeGasLog_post:
  assumes gs: "gas_start f evm"
  shows "1 < length (fstack f) \<Longrightarrow> gas_post f evm ms (\<lambda>g _. 0 < g) (makeGasLog n f evm ms)"
  unfolding makeGasLog_def
  by (rule post_read [OF start [OF gs]]) (auto intro!: post_memory [OF start [OF gs] refl mem [OF gs]] post_ret post_add post_mul
      simp: word_less_nat_alt)

lemma exp_gas_post:
  assumes gs: "gas_start f evm"
  shows "1 < length (fstack f) \<Longrightarrow> gas_post f evm 0 (\<lambda>g _. 0 < g) (exp_gas b f evm)"
  unfolding exp_gas_def Let_def
  by (auto intro!: post_ret post_add start [OF gs] mem_paid_refl mem [OF gs] simp: word_less_nat_alt)

lemma post_slot:
  assumes gs: "gas_start f evm"
  shows "evolves True (statedb evm) db \<Longrightarrow> P g (evm \<lparr> statedb := db \<rparr>) \<Longrightarrow>
     gas_post f evm 0 P (gas_ret g f (evm \<lparr> statedb := db \<rparr>))"
  by (intro post_ret gas_at_state [OF start [OF gs]] mem_paid_refl mem [OF gs])

lemma evolves_refund: "evolves True s db \<Longrightarrow> evolves True s (AddRefund g db)"
  using evolves_AddRefund evolves_trans evolves_wf by blast

lemma post_refund:
  assumes gs: "gas_start f evm" and "evolves True (statedb evm) db" "0 < (g :: u64)"
  shows "gas_post f evm 0 (\<lambda>g _. 0 < g) (go_bind (sstore_refund c i e original current y db)
     (\<lambda>db. gas_ret g f (evm \<lparr> statedb := db \<rparr>)))"
proof (rule post_bind [OF sstore_refund_state [OF evolves_wf [OF assms(2)]]])
  fix db' assume "evolves True db db'"
  then show "gas_post f evm 0 (\<lambda>g _. 0 < g) (gas_ret g f (evm \<lparr> statedb := db' \<rparr>))"
    using assms(3) by (intro post_slot [OF gs evolves_trans [OF assms(2)]])
qed

lemma slot_reads:
  assumes gs: "gas_start f evm" and "1 < length (fstack f)"
  obtains cur db org db' where
    "GetState (selfAddr (fcontract f)) (fstack f ! 0) (statedb evm) = (cur, db)" "evolves True (statedb evm) db"
    "GetCommittedState (selfAddr (fcontract f)) (fstack f ! 0) db = (org, db')" "evolves True (statedb evm) db'"
    "0 < length (fstack f)"
proof -
  obtain cur db where cur: "GetState (selfAddr (fcontract f)) (fstack f ! 0) (statedb evm) = (cur, db)" by fastforce
  obtain org db' where org: "GetCommittedState (selfAddr (fcontract f)) (fstack f ! 0) db = (org, db')" by fastforce
  have e: "evolves True (statedb evm) db" using evolves_reads(7) [OF wf [OF gs] cur] .
  have e': "evolves True (statedb evm) db'"
    using evolves_trans [OF e evolves_reads(8) [OF evolves_wf [OF e] org]] .
  have "0 < length (fstack f)" using assms(2) by linarith
  then show thesis by (rule that [OF cur e org e'])
qed

lemma gasSStore_post:
  assumes gs: "gas_start f evm" and "1 < length (fstack f)"
  shows "gas_post f evm 0 (\<lambda>g _. 0 < g) (gasSStore ctx f evm)"
  using assms(2) by (rule slot_reads [OF gs])
    (use assms(2) in \<open>simp add: gasSStore_def Let_def post_slot [OF gs] evolves_refund post_refund [OF gs]\<close>)

lemma gasSStoreEIP2200_post:
  assumes gs: "gas_start f evm" and "1 < length (fstack f)"
  shows "gas_post f evm 0 (\<lambda>g _. 0 < g) (gasSStoreEIP2200 f evm)"
  using assms(2) by (rule slot_reads [OF gs])
    (use assms(2) in \<open>simp add: gasSStoreEIP2200_def Let_def post_slot [OF gs] evolves_refund post_refund [OF gs] post_err start [OF gs]\<close>)

text \<open>The cold-slot charge: the state it leaves, or the panic of a contract that is not warm.\<close>

lemma SlotInAccessList_returns: "wf_state db \<Longrightarrow> \<exists>p q. SlotInAccessList a k db = Ret (p, q)"
  using al.has_warm unfolding SlotInAccessList_def wf_state_def by blast

lemma makeGasSStoreFunc_post:
  assumes gs: "gas_start f evm" and "1 < length (fstack f)"
  shows "gas_post f evm 0 (\<lambda>g _. 0 < g) (makeGasSStoreFunc c f evm)"
  using assms(2)
proof (rule slot_reads [OF gs])
  let ?a = "selfAddr (fcontract f)" and ?k = "fstack f ! 0"
  fix cur db org db'
  assume cur: "GetState ?a ?k (statedb evm) = (cur, db)" and e: "evolves True (statedb evm) db"
    and len: "0 < length (fstack f)"
  obtain p q where pq: "SlotInAccessList ?a ?k db = Ret (p, q)"
    using SlotInAccessList_returns [OF evolves_wf [OF e]] by blast
  obtain db1 where db1: "AddSlotToAccessList ?a ?k db = Ret db1"
    using AddSlotToAccessList_spec [OF evolves_wf [OF e]] by blast
  define db2 where "db2 = (if q then db else db1)"
  have "evolves True db db2"
    using evolves_AddSlot [OF evolves_wf [OF e] db1] evolves_wf [OF e] by (auto simp: db2_def)
  then have e2: "evolves True (statedb evm) db2" using e evolves_trans by blast
  obtain org db3 where org: "GetCommittedState ?a ?k db2 = (org, db3)" by fastforce
  have e3: "evolves True (statedb evm) db3"
    using evolves_trans [OF e2 evolves_reads(8) [OF evolves_wf [OF e2] org]] .
  show ?thesis
  proof (cases "\<not> q \<and> \<not> p")
    case True
    then show ?thesis using assms(2) len cur pq db1
      by (simp add: makeGasSStoreFunc_def Let_def post_err start [OF gs] post_panic vm_panics_def)
  next
    case False
    then show ?thesis using assms(2) len cur pq db1 org e2 e3
      by (cases q) (auto simp: makeGasSStoreFunc_def Let_def post_err start [OF gs] post_slot [OF gs] evolves_refund post_refund [OF gs] db2_def)
  qed
qed

lemma gasSLoadEIP2929_post:
  assumes gs: "gas_start f evm" and "0 < length (fstack f)"
  shows "gas_post f evm 0 (\<lambda>g _. 0 < g) (gasSLoadEIP2929 f evm)"
proof -
  let ?a = "selfAddr (fcontract f)" and ?k = "fstack f ! 0"
  obtain p q where pq: "SlotInAccessList ?a ?k (statedb evm) = Ret (p, q)"
    using SlotInAccessList_returns [OF wf [OF gs]] by blast
  obtain db1 where db1: "AddSlotToAccessList ?a ?k (statedb evm) = Ret db1" using AddSlotToAccessList_spec [OF wf [OF gs]] by blast
  have "gas_post f evm 0 (\<lambda>g _. 0 < g) (gas_ret WarmStorageReadCostEIP2929 f evm)"
    by (intro post_ret start [OF gs] mem_paid_refl mem [OF gs]) simp
  then show ?thesis using assms(2) pq db1 evolves_AddSlot [OF wf [OF gs] db1]
    by (simp add: gasSLoadEIP2929_def Let_def post_slot [OF gs])
qed

lemma gasEip2929AccountCheck_post:
  assumes gs: "gas_start f evm" and "0 < length (fstack f)"
  shows "gas_post f evm 0 (\<lambda>_ _. True) (gasEip2929AccountCheck f evm)"
  using assms(2) by (auto simp: gasEip2929AccountCheck_def Let_def
      intro!: post_slot [OF gs] post_ret start [OF gs] mem_paid_refl mem [OF gs] evolves_AddAddress wf [OF gs])

lemma post_then:
  assumes "gas_post f evm ms (\<lambda>_ _. True) m"
    and "\<And>g f' evm'. gas_at f evm f' evm' \<Longrightarrow> mem_paid ms (fmem f) (fmem f') \<Longrightarrow> gas_post f evm ms P (k (g, None, f', evm'))"
    and "\<And>g e f' evm'. k (g, Some e, f', evm') = gas_err e f' evm'"
  shows "gas_post f evm ms P (go_bind m k)"
proof (cases m)
  case (Ret r)
  obtain g err f' evm' where r: "r = (g, err, f', evm')" by (metis prod_cases4)
  show ?thesis
  proof (cases err)
    case None
    then have "gas_at f evm f' evm'" "mem_paid ms (fmem f) (fmem f')"
      using assms(1) Ret r by (auto simp: gas_post_def gas_at_def)
    then show ?thesis using assms(2) Ret r None by simp
  next
    case (Some e)
    then show ?thesis using assms(1,3) Ret r by (auto simp: gas_post_def gas_err_def)
  qed
qed (use assms(1) in \<open>auto simp: gas_post_def\<close>)

lemma gasExtCodeCopyEIP2929_post:
  assumes gs: "gas_start f evm" and "3 < length (fstack f)"
  shows "gas_post f evm ms (\<lambda>_ _. True) (gasExtCodeCopyEIP2929 f evm ms)"
proof -
  have "0 < length (fstack f)" using assms(2) by linarith
  then show ?thesis unfolding gasExtCodeCopyEIP2929_def
    by (intro post_then [OF memoryCopierGas_post [OF gs assms(2)]])
      (auto simp: gas_at_sel Let_def intro!: post_ret post_add gas_at_state evolves_AddAddress)
qed


lemma gasDelegateCall_post:
  assumes gs: "gas_start f evm"
  shows "0 < length (fstack f) \<Longrightarrow> gas_post f evm ms (call_post ctx 0) (gasDelegateCall ctx f evm ms)"
  unfolding gasDelegateCall_def
  by (rule post_memory [OF start [OF gs] refl mem [OF gs]]) (auto intro!: finish_call_gas_post)

lemma gasStaticCall_post:
  assumes gs: "gas_start f evm"
  shows "0 < length (fstack f) \<Longrightarrow> gas_post f evm ms (call_post ctx 0) (gasStaticCall ctx f evm ms)"
  unfolding gasStaticCall_def
  by (rule post_memory [OF start [OF gs] refl mem [OF gs]]) (auto intro!: finish_call_gas_post)

lemma gasCallCode_post:
  assumes gs: "gas_start f evm" and "2 < length (fstack f)"
  shows "gas_post f evm ms (call_post ctx (if fstack f ! 2 \<noteq> 0 then 9000 else 0)) (gasCallCode ctx f evm ms)"
proof -
  have "0 < length (fstack f)" using assms(2) by linarith
  then show ?thesis unfolding gasCallCode_def
    by (intro post_memory [OF start [OF gs] refl mem [OF gs]])
      (auto simp: gas_at_sel assms(2) Let_def intro!: post_add finish_call_gas_post)
qed

lemma gasCall_post:
  assumes gs: "gas_start f evm" and "2 < length (fstack f)"
  shows "gas_post f evm ms (call_post ctx (if fstack f ! 2 \<noteq> 0 then 9000 else 0)) (gasCall ctx f evm ms)"
proof -
  let ?a = "Bytes20 (fstack f ! 1)" and ?v = "fstack f ! 2 \<noteq> 0"
  have len: "0 < length (fstack f)" "1 < length (fstack f)" using assms(2) by linarith+
  obtain isNew db where new: "(if rIsEIP158 (chainRules ctx)
            then if ?v then Empty ?a (statedb evm) else (False, statedb evm)
            else case Exist ?a (statedb evm) of (b, db) \<Rightarrow> (\<not> b, db)) = (isNew, db)" by fastforce
  have "evolves True (statedb evm) db"
    using new evolves_reads(1,2) [OF wf [OF gs]] evolves_refl [OF wf [OF gs]] by (auto split: if_splits prod.splits)
  then have at: "gas_at f evm f (evm \<lparr> statedb := db \<rparr>)" by (rule gas_at_state [OF start [OF gs]])
  have "gas_post f evm ms (call_post ctx (if ?v then 9000 else 0))
     (with_memory f (evm \<lparr> statedb := db \<rparr>) ms (\<lambda>memoryGas f. add_gas
        (if ?v then (if isNew then CallNewAccountGas else 0) + CallValueTransferGas else if isNew then CallNewAccountGas else 0)
        memoryGas f (evm \<lparr> statedb := db \<rparr>) (\<lambda>gas. finish_call_gas ctx gas f (evm \<lparr> statedb := db \<rparr>))))"
    by (rule post_memory [OF at refl mem [OF gs]]) (auto intro!: post_add finish_call_gas_post len)
  then show ?thesis unfolding gasCall_def
    by (simp only: Back_Ret [OF assms(2)] Back_Ret [OF len(2)] go_bind.simps Let_def new prod.case)
qed

lemma post_suicide:
  assumes gs: "gas_start f evm" and "evolves True (statedb evm) db"
  shows "gas_post f evm 0 (\<lambda>_ _. True) (case HasSuicided a db of (h, db) \<Rightarrow>
     gas_ret g f (evm \<lparr> statedb := if h then db else AddRefund r db \<rparr>))"
proof -
  obtain h db' where h: "HasSuicided a db = (h, db')" by fastforce
  have "evolves True (statedb evm) db'"
    using evolves_trans [OF assms(2) evolves_reads(6) [OF evolves_wf [OF assms(2)] h]] .
  then show ?thesis using h by (simp add: post_slot [OF gs] evolves_refund)
qed

lemma gasSelfdestruct_post:
  assumes gs: "gas_start f evm" and "0 < length (fstack f)"
  shows "gas_post f evm 0 (\<lambda>_ _. True) (gasSelfdestruct ctx f evm)"
proof -
  let ?a = "Bytes20 (fstack f ! 0)"
  obtain e db where e: "Empty ?a (statedb evm) = (e, db)" by fastforce
  obtain x db' where x: "Exist ?a (statedb evm) = (x, db')" by fastforce
  obtain b db2 where b: "GetBalance (selfAddr (fcontract f)) db = (b, db2)" by fastforce
  have ev: "evolves True (statedb evm) db" "evolves True (statedb evm) db'"
    using evolves_reads [OF wf [OF gs]] e x by blast+
  then have "evolves True (statedb evm) db2"
    using evolves_trans [OF ev(1) evolves_reads(3) [OF evolves_wf [OF ev(1)] b]] by blast
  then show ?thesis using assms(2) ev e x b evolves_refl [OF wf [OF gs]]
    by (auto simp: gasSelfdestruct_def Let_def post_suicide [OF gs])
qed

lemma makeSelfdestructGasFn_post:
  assumes gs: "gas_start f evm" and "0 < length (fstack f)"
  shows "gas_post f evm 0 (\<lambda>_ _. True) (makeSelfdestructGasFn enabled f evm)"
proof -
  let ?a = "Bytes20 (fstack f ! 0)"
  define db1 where "db1 = (if AddressInAccessList ?a (statedb evm) then statedb evm
     else AddAddressToAccessList ?a (statedb evm))"
  have e1: "evolves True (statedb evm) db1" using wf [OF gs] by (simp add: db1_def evolves_refl evolves_AddAddress)
  obtain e db2 where e: "Empty ?a db1 = (e, db2)" by fastforce
  have e2: "evolves True (statedb evm) db2"
    using evolves_trans [OF e1 evolves_reads(2) [OF evolves_wf [OF e1] e]] .
  obtain b db3 where b: "(if e then GetBalance (selfAddr (fcontract f)) db2 else (0, db2)) = (b, db3)" by fastforce
  have e3: "evolves True (statedb evm) db3"
    using b evolves_trans [OF e2] evolves_reads(3) [OF evolves_wf [OF e2]] e2 by (auto split: if_splits)
  show ?thesis
  proof (cases enabled)
    case True
    then show ?thesis using assms(2) e b post_suicide [OF gs e3]
      by (simp add: makeSelfdestructGasFn_def Let_def db1_def split: if_splits)
  next
    case False
    then show ?thesis using assms(2) e b post_slot [OF gs e3]
      by (simp add: makeSelfdestructGasFn_def Let_def db1_def split: if_splits)
  qed
qed


definition temp_post :: "nat \<Rightarrow> u64 \<Rightarrow> EVM \<Rightarrow> bool" where
  "temp_post v g evm \<longleftrightarrow> unat (callGasTemp evm) + v \<le> unat g"

lemma call_post_temp: "gas_post f evm ms (call_post ctx v) r \<Longrightarrow> gas_post f evm ms (temp_post v) r"
  by (erule post_mono) (simp add: call_post_def temp_post_def)

text \<open>
  The EIP-2929 variants. The surcharge is added without an overflow check; after EIP-150 no call can ask
  for so much gas that the sum wraps.
\<close>

lemma makeCallVariant_post:
  assumes wf: "wf_state (statedb evm)" and mem: "mem_inv (fmem f)" and len: "1 < length (fstack f)"
    and eip: "rIsEIP150 (chainRules ctx)"
    and old: "\<And>c db. wf_state db \<Longrightarrow> gas_post (f \<lparr> fcontract := c \<rparr>) (evm \<lparr> statedb := db \<rparr>) ms (call_post ctx v)
      (old (f \<lparr> fcontract := c \<rparr>) (evm \<lparr> statedb := db \<rparr>) ms)"
  shows "gas_post f evm ms (temp_post v) (makeCallVariantGasCallEIP2929 old f evm ms)"
proof -
  let ?a = "Bytes20 (fstack f ! 1)" and ?cold = "2500 :: u64"
  let ?db = "AddAddressToAccessList ?a (statedb evm)" and ?c = "(fcontract f) \<lparr> Gas := Gas (fcontract f) - 2500 \<rparr>"
  have ev: "evolves True (statedb evm) ?db" using wf by (rule evolves_AddAddress)
  note at = gas_at_state [OF gas_at_refl [OF wf] ev, of f]
  show ?thesis
  proof (cases "AddressInAccessList ?a (statedb evm)")
    case True
    then show ?thesis using len old [OF wf, of "fcontract f"] call_post_temp
      by (simp add: makeCallVariantGasCallEIP2929_def Let_def)
  next
    case cold: False
    show ?thesis
    proof (cases "UseGas ?cold (fcontract f)")
      case None
      then show ?thesis using len cold post_err [OF at] by (simp add: makeCallVariantGasCallEIP2929_def Let_def)
    next
      case (Some c)
      then have c: "c = ?c" and le: "2500 \<le> unat (Gas (fcontract f))" and g: "unat (Gas ?c) = unat (Gas (fcontract f)) - 2500"
        using UseGas_Some [OF Some] by auto
      have restore: "?c \<lparr> Gas := Gas ?c + ?cold \<rparr> = fcontract f" by simp
      define r where "r = old (f \<lparr> fcontract := ?c \<rparr>) (evm \<lparr> statedb := ?db \<rparr>) ms"
      have post: "gas_post (f \<lparr> fcontract := ?c \<rparr>) (evm \<lparr> statedb := ?db \<rparr>) ms (call_post ctx v) r"
        unfolding r_def using evolves_wf [OF ev] by (rule old)
      have eq: "makeCallVariantGasCallEIP2929 old f evm ms = go_bind r (\<lambda>(gas, err, f, evm).
          case err of Some e \<Rightarrow> Ret (gas, err, f, evm)
          | None \<Rightarrow> gas_ret (gas + ?cold) (f \<lparr> fcontract := (fcontract f) \<lparr> Gas := Gas (fcontract f) + ?cold \<rparr> \<rparr>) evm)"
        using len cold Some c by (simp add: makeCallVariantGasCallEIP2929_def Let_def r_def)
      show ?thesis
      proof (cases r)
        case (Ret x)
        obtain gas err f' evm' where x: "x = (gas, err, f', evm')" by (metis prod_cases4)
        note p = post [unfolded gas_post_def Ret x, simplified]
        have ev': "evolves True (statedb evm) (statedb evm')" using p evolves_trans [OF ev] by simp
        have same: "evm_same evm evm'" using p by (simp add: evm_same_def)
        show ?thesis
        proof (cases err)
          case None
          have "unat (gas + ?cold) = unat gas + 2500"
            using p None eip by (intro trans [OF unat_add_small]) (auto simp: call_post_def)
          then show ?thesis using p None eq Ret x ev' same restore
            by (auto simp: gas_post_def gas_ret_def call_post_def temp_post_def)
        next
          case (Some e)
          then show ?thesis using p eq Ret x ev' same g le by (auto simp: gas_post_def)
        qed
      qed (use post eq in \<open>auto simp: gas_post_def\<close>)
    qed
  qed
qed

section \<open>Every gas function of a consistent table\<close>

definition gas_bound :: "executionFunc \<Rightarrow> frame \<Rightarrow> u64 \<Rightarrow> EVM \<Rightarrow> bool" where
  "gas_bound ex f g evm = (case ex of
      Bin b \<Rightarrow> 0 < g
    | Top t \<Rightarrow> t = OpSload \<longrightarrow> 0 < g
    | Sub s \<Rightarrow> (case s of
          OpCall \<Rightarrow> temp_post (if fstack f ! 2 \<noteq> 0 then 9000 else 0) g evm
        | OpCallCode \<Rightarrow> temp_post (if fstack f ! 2 \<noteq> 0 then 9000 else 0) g evm
        | OpDelegateCall \<Rightarrow> temp_post 0 g evm
        | OpStaticCall \<Rightarrow> temp_post 0 g evm
        | _ \<Rightarrow> True)
    | OpSstore \<Rightarrow> 0 < g
    | MakeLog n \<Rightarrow> 0 < g
    | _ \<Rightarrow> True)"

lemma call_gas_case:
  assumes gs: "gas_start f evm" and len: "1 < length (fstack f)"
    and eip: "\<And>h. g = GasCallVariantEIP2929 h \<Longrightarrow> rIsEIP150 (chainRules ctx)"
    and g: "g = old \<or> g = GasCallVariantEIP2929 old"
    and old: "\<And>f' evm'. gas_start f' evm' \<Longrightarrow> fstack f' = fstack f \<Longrightarrow>
      gas_post f' evm' ms (call_post ctx v) (dynamic_gas ctx old f' evm' ms)"
  shows "gas_post f evm ms (temp_post v) (dynamic_gas ctx g f evm ms)"
proof -
  have at: "gas_start (f \<lparr> fcontract := c \<rparr>) (evm \<lparr> statedb := db \<rparr>)" if "wf_state db" for c db
    using that gs by (simp add: gas_start_def)
  from g show ?thesis
  proof (elim disjE)
    assume "g = old"
    then show ?thesis using call_post_temp [OF old [OF gs refl]] by simp
  next
    assume "g = GasCallVariantEIP2929 old"
    then show ?thesis using eip at
      by (auto intro!: makeCallVariant_post [OF wf [OF gs] mem [OF gs] len] old)
  qed
qed

lemma sub_gas_post:
  assumes gs: "gas_start f evm" and fits: "gas_fits (Sub s) c (Some g)"
    and len: "fst (arity (Sub s)) \<le> length (fstack f)"
    and eip: "\<And>h. g = GasCallVariantEIP2929 h \<Longrightarrow> rIsEIP150 (chainRules ctx)"
  shows "gas_post f evm ms (gas_bound (Sub s) f) (dynamic_gas ctx g f evm ms)"
proof (cases s)
  case OpCreate
  then show ?thesis using fits len pureMemoryGascost_post [OF gs] create_initcode_gas_post [OF gs]
    by (auto simp: gas_bound_def [abs_def] gasCreateEip3860_def)
next
  case OpCreate2
  then show ?thesis using fits len gasCreate2_post [OF gs] create_initcode_gas_post [OF gs]
    by (auto simp: gas_bound_def [abs_def] gasCreate2Eip3860_def)
next
  case OpCall
  have "gas_post f evm ms (temp_post (if fstack f ! 2 \<noteq> 0 then 9000 else 0)) (dynamic_gas ctx g f evm ms)"
    by (rule call_gas_case [OF gs _ eip, where old = GasCall])
      (use OpCall fits len gasCall_post in \<open>force+\<close>)
  then show ?thesis using OpCall by (simp add: gas_bound_def [abs_def])
next
  case OpCallCode
  have "gas_post f evm ms (temp_post (if fstack f ! 2 \<noteq> 0 then 9000 else 0)) (dynamic_gas ctx g f evm ms)"
    by (rule call_gas_case [OF gs _ eip, where old = GasCallCode])
      (use OpCallCode fits len gasCallCode_post in \<open>force+\<close>)
  then show ?thesis using OpCallCode by (simp add: gas_bound_def [abs_def])
next
  case OpDelegateCall
  have "gas_post f evm ms (temp_post 0) (dynamic_gas ctx g f evm ms)"
    by (rule call_gas_case [OF gs _ eip, where old = GasDelegateCall])
      (use OpDelegateCall fits len gasDelegateCall_post in \<open>force+\<close>)
  then show ?thesis using OpDelegateCall by (simp add: gas_bound_def [abs_def])
next
  case OpStaticCall
  have "gas_post f evm ms (temp_post 0) (dynamic_gas ctx g f evm ms)"
    by (rule call_gas_case [OF gs _ eip, where old = GasStaticCall])
      (use OpStaticCall fits len gasStaticCall_post in \<open>force+\<close>)
  then show ?thesis using OpStaticCall by (simp add: gas_bound_def [abs_def])
qed

lemma dynamic_gas_post:
  assumes wf: "wf_state (statedb evm)" and mem: "mem_inv (fmem f)"
    and fits: "gas_fits ex c (Some g)" and len: "fst (arity ex) \<le> length (fstack f)"
    and ms: "mem_of ex = None \<Longrightarrow> ms = 0"
    and eip: "\<And>h. g = GasCallVariantEIP2929 h \<Longrightarrow> rIsEIP150 (chainRules ctx)"
  shows "gas_post f evm ms (gas_bound ex f) (dynamic_gas ctx g f evm ms)"
proof -
  have gs: "gas_start f evm" using wf mem by (simp add: gas_start_def)
  show ?thesis
  proof (cases ex)
    case (Bin b)
    then show ?thesis using fits len ms exp_gas_post [OF gs]
      by (auto simp: gas_bound_def [abs_def] gasExpFrontier_def gasExpEIP158_def split: if_splits)
  next
    case (Top t)
    then show ?thesis using fits len ms
      by (auto simp: gas_bound_def [abs_def] split: if_splits
          intro: post_mono [OF pureMemoryGascost_post [OF gs]] gasSLoadEIP2929_post [OF gs]
            post_mono [OF gasEip2929AccountCheck_post [OF gs]])
  next
    case (Copy c)
    then show ?thesis using fits len
      by (auto simp: gas_bound_def [abs_def] split: if_splits
          intro!: memoryCopierGas_post [OF gs] gasExtCodeCopyEIP2929_post [OF gs])
  next
    case (Halt h)
    then show ?thesis using fits len ms
      by (auto simp: gas_bound_def [abs_def] split: haltFunc.splits
          intro!: pureMemoryGascost_post [OF gs] gasSelfdestruct_post [OF gs] makeSelfdestructGasFn_post [OF gs])
  next
    case OpSstore
    then show ?thesis using fits len ms
      by (auto simp: gas_bound_def [abs_def]
          intro!: gasSStore_post [OF gs] gasSStoreEIP2200_post [OF gs] makeGasSStoreFunc_post [OF gs])
  next
    case (MakeLog n)
    then show ?thesis using fits len makeGasLog_post [OF gs] by (simp add: gas_bound_def [abs_def])
  next
    case OpKeccak256
    then show ?thesis using fits len gasKeccak256_post [OF gs] by (simp add: gas_bound_def [abs_def])
  next
    case OpMstore
    then show ?thesis using fits pureMemoryGascost_post [OF gs] by (simp add: gas_bound_def [abs_def])
  next
    case OpMstore8
    then show ?thesis using fits pureMemoryGascost_post [OF gs] by (simp add: gas_bound_def [abs_def])
  next
    case (Sub s)
    then show ?thesis using sub_gas_post [OF gs] fits len eip by blast
  qed (use fits in auto)
qed

end
