(* ===== verification/VM_EVM.thy ===== *)
theory VM_EVM
  imports VM_Gas
begin

text \<open>
  Message calls and contract creation: \<open>Call\<close>, \<open>CallCode\<close>, \<open>DelegateCall\<close>, \<open>StaticCall\<close>, \<open>create\<close>,
  \<open>Create\<close> and \<open>Create2\<close> of \<^verbatim>\<open>client/core/vm/evm.go\<close>. They call the interpreter, which calls them for
  the corresponding instructions; here the interpreter is the argument \<open>run\<close>, and \<open>VM_Interpreter\<close>
  closes the loop. A call returns its output, the gas left, an error or \<open>None\<close>, and the machine.
\<close>

type_synonym runner = "Contract \<Rightarrow> bytes \<Rightarrow> bool \<Rightarrow> EVM \<Rightarrow> (bytes \<times> vmErr option \<times> Contract \<times> EVM) go"
type_synonym callRes = "(bytes \<times> u64 \<times> vmErr option \<times> EVM) go"
type_synonym createRes = "(bytes \<times> address \<times> u64 \<times> vmErr option \<times> EVM) go"

definition code_bytes :: "bytes option \<Rightarrow> bytes" where
  "code_bytes c = (case c of None \<Rightarrow> [] | Some b \<Rightarrow> b)"

text \<open>The end the calls share: revert on an error, and unless it is a revert take all gas.\<close>

definition finish_call :: "int \<Rightarrow> bytes \<times> u64 \<times> vmErr option \<times> EVM \<Rightarrow> callRes" where
  "finish_call snapshot = (\<lambda>(ret, gas, err, evm).
    case err of None \<Rightarrow> Ret (ret, gas, None, evm)
    | Some e \<Rightarrow> go_bind (RevertToSnapshot snapshot (statedb evm)) (\<lambda>db.
        Ret (ret, if e \<noteq> ErrExecutionReverted then 0 else gas, Some e, evm \<lparr> statedb := db \<rparr>)))"

definition call_precompile :: "vmContext \<Rightarrow> PrecompiledContract \<Rightarrow> bytes \<Rightarrow> u64 \<Rightarrow> EVM \<Rightarrow> callRes" where
  "call_precompile ctx p input gas evm =
    go_bind (RunPrecompiledContract (lib ctx) p input gas) (\<lambda>(ret, gas, err). Ret (ret, gas, err, evm))"

text \<open>\<open>ret, err = evm.interpreter.Run(contract, input, readOnly); gas = contract.Gas\<close>\<close>

definition call_run :: "runner \<Rightarrow> Contract \<Rightarrow> bytes \<Rightarrow> bool \<Rightarrow> EVM \<Rightarrow> callRes" where
  "call_run run contract input ro evm =
    go_bind (run contract input ro evm) (\<lambda>(ret, err, contract, evm). Ret (ret, Gas contract, err, evm))"

text \<open>
  \<open>contract.SetCallCode(\&addr, evm.StateDB.GetCodeHash(addr), evm.StateDB.GetCode(addr))\<close>
\<close>

definition load_code :: "address \<Rightarrow> Contract \<Rightarrow> EVM \<Rightarrow> Contract \<times> EVM" where
  "load_code addr contract evm =
    (case GetCodeHash addr (statedb evm) of (h, db) \<Rightarrow>
     case GetCode addr db of (code, db) \<Rightarrow>
       (SetCallCode addr h (code_bytes code) contract, evm \<lparr> statedb := db \<rparr>))"

text \<open>The branch of \<open>Call\<close> that runs the code of the callee, if it has any.\<close>

definition run_code :: "runner \<Rightarrow> ContractRef \<Rightarrow> address \<Rightarrow> bytes \<Rightarrow> u64 \<Rightarrow> int \<Rightarrow> EVM \<Rightarrow> callRes" where
  "run_code run caller addr input gas value evm =
    (case GetCode addr (statedb evm) of (code, db) \<Rightarrow>
     if code_bytes code = [] then Ret ([], gas, None, evm \<lparr> statedb := db \<rparr>)
     else case NewContract caller addr value gas (evm \<lparr> statedb := db \<rparr>) of (contract, evm) \<Rightarrow>
          case GetCodeHash addr (statedb evm) of (h, db) \<Rightarrow>
          call_run run (SetCallCode addr h (code_bytes code) contract) input False (evm \<lparr> statedb := db \<rparr>))"

definition Call :: "vmContext \<Rightarrow> runner \<Rightarrow> ContractRef \<Rightarrow> address \<Rightarrow> bytes \<Rightarrow> u64 \<Rightarrow> int \<Rightarrow> EVM \<Rightarrow> callRes" where
  "Call ctx run caller addr input gas value evm =
    (if depth evm > uint CallCreateDepth then Ret ([], gas, Some ErrDepth, evm)
     else case (if value \<noteq> 0 then CanTransfer (ref_Address caller) value (statedb evm)
                else (True, statedb evm)) of (can, db) \<Rightarrow>
     if \<not> can then Ret ([], gas, Some ErrInsufficientBalance, evm \<lparr> statedb := db \<rparr>)
     else case Snapshot db of (snapshot, db) \<Rightarrow>
          let p = precompile (chainRules ctx) addr in
          case Exist addr db of (exists, db) \<Rightarrow>
          if \<not> exists \<and> p = None \<and> rIsEIP158 (chainRules ctx) \<and> value = 0
          then Ret ([], gas, None, evm \<lparr> statedb := db \<rparr>)
          else
            let db = (if exists then db else CreateAccount addr db);
                evm = evm \<lparr> statedb := Transfer (ref_Address caller) addr value db \<rparr>
            in go_bind
              (case p of
                 Some p \<Rightarrow> call_precompile ctx p input gas evm
               | None \<Rightarrow> run_code run caller addr input gas value evm)
              (finish_call snapshot))"

definition CallCode :: "vmContext \<Rightarrow> runner \<Rightarrow> ContractRef \<Rightarrow> address \<Rightarrow> bytes \<Rightarrow> u64 \<Rightarrow> int \<Rightarrow> EVM \<Rightarrow> callRes" where
  "CallCode ctx run caller addr input gas value evm =
    (if depth evm > uint CallCreateDepth then Ret ([], gas, Some ErrDepth, evm)
     else case CanTransfer (ref_Address caller) value (statedb evm) of (can, db) \<Rightarrow>
     if \<not> can then Ret ([], gas, Some ErrInsufficientBalance, evm \<lparr> statedb := db \<rparr>)
     else case Snapshot db of (snapshot, db) \<Rightarrow>
          let evm = evm \<lparr> statedb := db \<rparr> in
          go_bind
            (case precompile (chainRules ctx) addr of
               Some p \<Rightarrow> call_precompile ctx p input gas evm
             | None \<Rightarrow>
                (case NewContract caller (ref_Address caller) value gas evm of (contract, evm) \<Rightarrow>
                 case load_code addr contract evm of (contract, evm) \<Rightarrow>
                 call_run run contract input False evm))
            (finish_call snapshot))"

text \<open>The value of the new contract is nil until \<open>AsDelegate\<close> sets it.\<close>

definition DelegateCall :: "vmContext \<Rightarrow> runner \<Rightarrow> ContractRef \<Rightarrow> address \<Rightarrow> bytes \<Rightarrow> u64 \<Rightarrow> EVM \<Rightarrow> callRes" where
  "DelegateCall ctx run caller addr input gas evm =
    (if depth evm > uint CallCreateDepth then Ret ([], gas, Some ErrDepth, evm)
     else case Snapshot (statedb evm) of (snapshot, db) \<Rightarrow>
          let evm = evm \<lparr> statedb := db \<rparr> in
          go_bind
            (case precompile (chainRules ctx) addr of
               Some p \<Rightarrow> call_precompile ctx p input gas evm
             | None \<Rightarrow>
                (case NewContract caller (ref_Address caller) 0 gas evm of (contract, evm) \<Rightarrow>
                 go_bind (AsDelegate caller contract) (\<lambda>contract.
                   case load_code addr contract evm of (contract, evm) \<Rightarrow>
                   call_run run contract input False evm)))
            (finish_call snapshot))"

definition StaticCall :: "vmContext \<Rightarrow> runner \<Rightarrow> ContractRef \<Rightarrow> address \<Rightarrow> bytes \<Rightarrow> u64 \<Rightarrow> EVM \<Rightarrow> callRes" where
  "StaticCall ctx run caller addr input gas evm =
    (if depth evm > uint CallCreateDepth then Ret ([], gas, Some ErrDepth, evm)
     else case Snapshot (statedb evm) of (snapshot, db) \<Rightarrow>
          let evm = evm \<lparr> statedb := AddBalance addr 0 db \<rparr> in
          go_bind
            (case precompile (chainRules ctx) addr of
               Some p \<Rightarrow> call_precompile ctx p input gas evm
             | None \<Rightarrow>
                (case NewContract caller addr 0 gas evm of (contract, evm) \<Rightarrow>
                 case load_code addr contract evm of (contract, evm) \<Rightarrow>
                 call_run run contract input True evm))
            (finish_call snapshot))"

section \<open>Creation\<close>

text \<open>The checks on the returned code and the payment for storing it.\<close>

definition store_code :: "vmContext \<Rightarrow> address \<Rightarrow> bytes \<times> vmErr option \<times> Contract \<times> EVM \<Rightarrow>
    vmErr option \<times> Contract \<times> EVM" where
  "store_code ctx address = (\<lambda>(ret, err, contract, evm).
    let err = (if err = None \<and> rIsEIP158 (chainRules ctx) \<and> length ret > MaxCodeSize
               then Some ErrMaxCodeSizeExceeded else err);
        err = (if err = None \<and> length ret \<ge> 1 \<and> ret ! 0 = 0xEF \<and> rIsLondon (chainRules ctx)
               then Some ErrInvalidCode else err)
    in if err = None
       then case UseGas (len64 ret * CreateDataGas) contract of
              Some contract \<Rightarrow> (None, contract, evm \<lparr> statedb :=
                 SetCode (keccak256 (lib ctx)) address (if ret = [] then None else Some ret) (statedb evm) \<rparr>)
            | None \<Rightarrow> (Some ErrCodeStoreOutOfGas, contract, evm)
       else (err, contract, evm))"

definition finish_create :: "vmContext \<Rightarrow> int \<Rightarrow> address \<Rightarrow> bytes \<Rightarrow> vmErr option \<times> Contract \<times> EVM \<Rightarrow> createRes" where
  "finish_create ctx snapshot address ret = (\<lambda>(err, contract, evm).
    case err of
      Some e \<Rightarrow>
        if rIsHomestead (chainRules ctx) \<or> e \<noteq> ErrCodeStoreOutOfGas
        then go_bind (RevertToSnapshot snapshot (statedb evm)) (\<lambda>db.
          Ret (ret, address, if e \<noteq> ErrExecutionReverted then 0 else Gas contract, err, evm \<lparr> statedb := db \<rparr>))
        else Ret (ret, address, Gas contract, err, evm)
    | None \<Rightarrow> Ret (ret, address, Gas contract, err, evm))"

text \<open>The part of \<open>create\<close> after the checks: set the account up under a snapshot and run the init code.\<close>

definition deploy :: "vmContext \<Rightarrow> runner \<Rightarrow> ContractRef \<Rightarrow> bytes \<Rightarrow> hash \<Rightarrow> u64 \<Rightarrow> int \<Rightarrow> address \<Rightarrow> EVM \<Rightarrow> createRes" where
  "deploy ctx run caller code codehash gas value address evm =
    (case Snapshot (statedb evm) of (snapshot, db) \<Rightarrow>
       let db = CreateAccount address db;
           db = (if rIsEIP158 (chainRules ctx) then SetNonce address 1 db else db);
           db = Transfer (ref_Address caller) address value db
       in case NewContract caller address value gas (evm \<lparr> statedb := db \<rparr>) of (contract, evm) \<Rightarrow>
          go_bind (run (SetCodeOptionalHash address code codehash contract) [] False evm)
            (\<lambda>(ret, err, contract, evm).
               finish_create ctx snapshot address ret (store_code ctx address (ret, err, contract, evm))))"

definition create :: "vmContext \<Rightarrow> runner \<Rightarrow> ContractRef \<Rightarrow> bytes \<Rightarrow> hash \<Rightarrow> u64 \<Rightarrow> int \<Rightarrow> address \<Rightarrow> EVM \<Rightarrow> createRes" where
  "create ctx run caller code codehash gas value address evm =
    (if depth evm > uint CallCreateDepth then Ret ([], 0, gas, Some ErrDepth, evm)
     else case CanTransfer (ref_Address caller) value (statedb evm) of (can, db) \<Rightarrow>
     if \<not> can then Ret ([], 0, gas, Some ErrInsufficientBalance, evm \<lparr> statedb := db \<rparr>)
     else case GetNonce (ref_Address caller) db of (nonce, db) \<Rightarrow>
     if nonce + 1 < nonce then Ret ([], 0, gas, Some ErrNonceUintOverflow, evm \<lparr> statedb := db \<rparr>)
     else
       let db = SetNonce (ref_Address caller) (nonce + 1) db;
           db = (if rIsBerlin (chainRules ctx) then AddAddressToAccessList address db else db)
       in case GetCodeHash address db of (contractHash, db) \<Rightarrow>
          case GetNonce address db of (n, db) \<Rightarrow>
          if n \<noteq> 0 \<or> contractHash \<noteq> 0 \<and> contractHash \<noteq> EmptyCodeHash
          then Ret ([], 0, 0, Some ErrContractAddressCollision, evm \<lparr> statedb := db \<rparr>)
          else deploy ctx run caller code codehash gas value address (evm \<lparr> statedb := db \<rparr>))"

definition Create :: "vmContext \<Rightarrow> runner \<Rightarrow> ContractRef \<Rightarrow> bytes \<Rightarrow> u64 \<Rightarrow> int \<Rightarrow> EVM \<Rightarrow> createRes" where
  "Create ctx run caller code gas value evm =
    (case GetNonce (ref_Address caller) (statedb evm) of (nonce, db) \<Rightarrow>
       create ctx run caller code 0 gas value (CreateAddress (lib ctx) (ref_Address caller) nonce)
         (evm \<lparr> statedb := db \<rparr>))"

text \<open>\<open>codeAndHash.Hash()\<close> computes and keeps the hash of the code.\<close>

definition Create2 :: "vmContext \<Rightarrow> runner \<Rightarrow> ContractRef \<Rightarrow> bytes \<Rightarrow> u64 \<Rightarrow> int \<Rightarrow> u256 \<Rightarrow> EVM \<Rightarrow> createRes" where
  "Create2 ctx run caller code gas endowment salt evm =
    (let h = keccak256 (lib ctx) code in
     create ctx run caller code h gas endowment (CreateAddress2 (lib ctx) (ref_Address caller) salt h) evm)"

end
