(* ===== verification/VM_Instructions.thy ===== *)
theory VM_Instructions
  imports VM_EVM
begin

text \<open>
  The execution functions of the instructions, \<^verbatim>\<open>client/core/vm/instructions.go\<close> and the instructions
  \<^verbatim>\<open>eips.go\<close> adds. An instruction gets the frame and the machine and returns the bytes and the error the
  Go function returns, the frame and the machine it leaves. A pop or peek of a stack that is too short
  is a panic. \<open>exec\<close> applies the function a name of the instruction table stands for.
\<close>

type_synonym execRes = "(bytes \<times> vmErr option \<times> frame \<times> EVM) go"

definition cont :: "frame \<Rightarrow> EVM \<Rightarrow> execRes" where
  "cont f evm = Ret ([], None, f, evm)"

definition fail :: "vmErr \<Rightarrow> frame \<Rightarrow> EVM \<Rightarrow> execRes" where
  "fail e f evm = Ret ([], Some e, f, evm)"

section \<open>Two and three operands\<close>

definition op_bin :: "(u256 \<Rightarrow> u256 \<Rightarrow> u256) \<Rightarrow> frame \<Rightarrow> EVM \<Rightarrow> execRes" where
  "op_bin g f evm = (case fstack f of x # y # st \<Rightarrow> cont (f \<lparr> fstack := g x y # st \<rparr>) evm | _ \<Rightarrow> stackPanic)"

definition op_tern :: "(u256 \<Rightarrow> u256 \<Rightarrow> u256 \<Rightarrow> u256) \<Rightarrow> frame \<Rightarrow> EVM \<Rightarrow> execRes" where
  "op_tern g f evm =
    (case fstack f of x # y # z # st \<Rightarrow> cont (f \<lparr> fstack := g x y z # st \<rparr>) evm | _ \<Rightarrow> stackPanic)"

definition bool256 :: "bool \<Rightarrow> u256" where "bool256 b = (if b then 1 else 0)"

definition opAdd :: "frame \<Rightarrow> EVM \<Rightarrow> execRes" where "opAdd = op_bin (\<lambda>x y. x + y)"
definition opSub :: "frame \<Rightarrow> EVM \<Rightarrow> execRes" where "opSub = op_bin (\<lambda>x y. x - y)"
definition opMul :: "frame \<Rightarrow> EVM \<Rightarrow> execRes" where "opMul = op_bin (\<lambda>x y. x * y)"
definition opDiv :: "uint256Lib \<Rightarrow> frame \<Rightarrow> EVM \<Rightarrow> execRes" where "opDiv u = op_bin (uDiv u)"
definition opSdiv :: "uint256Lib \<Rightarrow> frame \<Rightarrow> EVM \<Rightarrow> execRes" where "opSdiv u = op_bin (uSDiv u)"
definition opMod :: "uint256Lib \<Rightarrow> frame \<Rightarrow> EVM \<Rightarrow> execRes" where "opMod u = op_bin (uMod u)"
definition opSmod :: "uint256Lib \<Rightarrow> frame \<Rightarrow> EVM \<Rightarrow> execRes" where "opSmod u = op_bin (uSMod u)"
definition opExp :: "uint256Lib \<Rightarrow> frame \<Rightarrow> EVM \<Rightarrow> execRes" where "opExp u = op_bin (uExp u)"

definition opSignExtend :: "uint256Lib \<Rightarrow> frame \<Rightarrow> EVM \<Rightarrow> execRes" where
  "opSignExtend u = op_bin (\<lambda>back num. uExtendSign u num back)"

definition opLt :: "frame \<Rightarrow> EVM \<Rightarrow> execRes" where "opLt = op_bin (\<lambda>x y. bool256 (x < y))"
definition opGt :: "frame \<Rightarrow> EVM \<Rightarrow> execRes" where "opGt = op_bin (\<lambda>x y. bool256 (x > y))"
definition opSlt :: "frame \<Rightarrow> EVM \<Rightarrow> execRes" where "opSlt = op_bin (\<lambda>x y. bool256 (sint x < sint y))"
definition opSgt :: "frame \<Rightarrow> EVM \<Rightarrow> execRes" where "opSgt = op_bin (\<lambda>x y. bool256 (sint x > sint y))"
definition opEq :: "frame \<Rightarrow> EVM \<Rightarrow> execRes" where "opEq = op_bin (\<lambda>x y. bool256 (x = y))"
definition opAnd :: "frame \<Rightarrow> EVM \<Rightarrow> execRes" where "opAnd = op_bin (\<lambda>x y. x AND y)"
definition opOr :: "frame \<Rightarrow> EVM \<Rightarrow> execRes" where "opOr = op_bin (\<lambda>x y. x OR y)"
definition opXor :: "frame \<Rightarrow> EVM \<Rightarrow> execRes" where "opXor = op_bin (\<lambda>x y. x XOR y)"
definition opByte :: "uint256Lib \<Rightarrow> frame \<Rightarrow> EVM \<Rightarrow> execRes" where "opByte u = op_bin (\<lambda>th val. uByte u val th)"

definition opSHL :: "frame \<Rightarrow> EVM \<Rightarrow> execRes" where
  "opSHL = op_bin (\<lambda>shift value. if shift < 256 then push_bit (unat (Uint64 shift)) value else 0)"

definition opSHR :: "frame \<Rightarrow> EVM \<Rightarrow> execRes" where
  "opSHR = op_bin (\<lambda>shift value. if shift < 256 then drop_bit (unat (Uint64 shift)) value else 0)"

definition opSAR :: "uint256Lib \<Rightarrow> frame \<Rightarrow> EVM \<Rightarrow> execRes" where
  "opSAR u = op_bin (\<lambda>shift value.
     if shift > 256 then (if sint value \<ge> 0 then 0 else - 1) else uSRsh u value (unat (Uint64 shift)))"

definition opAddmod :: "uint256Lib \<Rightarrow> frame \<Rightarrow> EVM \<Rightarrow> execRes" where
  "opAddmod u = op_tern (\<lambda>x y z. if z = 0 then 0 else uAddMod u x y z)"

definition opMulmod :: "uint256Lib \<Rightarrow> frame \<Rightarrow> EVM \<Rightarrow> execRes" where
  "opMulmod u = op_tern (uMulMod u)"

fun exec_bin :: "vmContext \<Rightarrow> binFunc \<Rightarrow> frame \<Rightarrow> EVM \<Rightarrow> execRes" where
  "exec_bin ctx OpAdd = opAdd"
| "exec_bin ctx OpMul = opMul"
| "exec_bin ctx OpSub = opSub"
| "exec_bin ctx OpDiv = opDiv (u256lib ctx)"
| "exec_bin ctx OpSdiv = opSdiv (u256lib ctx)"
| "exec_bin ctx OpMod = opMod (u256lib ctx)"
| "exec_bin ctx OpSmod = opSmod (u256lib ctx)"
| "exec_bin ctx OpExp = opExp (u256lib ctx)"
| "exec_bin ctx OpSignExtend = opSignExtend (u256lib ctx)"
| "exec_bin ctx OpLt = opLt"
| "exec_bin ctx OpGt = opGt"
| "exec_bin ctx OpSlt = opSlt"
| "exec_bin ctx OpSgt = opSgt"
| "exec_bin ctx OpEq = opEq"
| "exec_bin ctx OpAnd = opAnd"
| "exec_bin ctx OpOr = opOr"
| "exec_bin ctx OpXor = opXor"
| "exec_bin ctx OpByte = opByte (u256lib ctx)"
| "exec_bin ctx OpSHL = opSHL"
| "exec_bin ctx OpSHR = opSHR"
| "exec_bin ctx OpSAR = opSAR (u256lib ctx)"

fun exec_tern :: "vmContext \<Rightarrow> ternFunc \<Rightarrow> frame \<Rightarrow> EVM \<Rightarrow> execRes" where
  "exec_tern ctx OpAddmod = opAddmod (u256lib ctx)"
| "exec_tern ctx OpMulmod = opMulmod (u256lib ctx)"

section \<open>Values pushed\<close>

definition op_push :: "u256 \<Rightarrow> frame \<Rightarrow> EVM \<Rightarrow> execRes" where
  "op_push v f evm = cont (f \<lparr> fstack := push v (fstack f) \<rparr>) evm"

definition opAddress :: "frame \<Rightarrow> EVM \<Rightarrow> execRes" where
  "opAddress f = op_push (AddrToU256 (selfAddr (fcontract f))) f"

definition opOrigin :: "vmContext \<Rightarrow> frame \<Rightarrow> EVM \<Rightarrow> execRes" where
  "opOrigin ctx = op_push (AddrToU256 (txOrigin ctx))"

definition opCaller :: "frame \<Rightarrow> EVM \<Rightarrow> execRes" where
  "opCaller f = op_push (AddrToU256 (CallerAddress (fcontract f))) f"

definition opCallValue :: "frame \<Rightarrow> EVM \<Rightarrow> execRes" where
  "opCallValue f = op_push (FromBig (cvalue (fcontract f))) f"

definition opCallDataSize :: "frame \<Rightarrow> EVM \<Rightarrow> execRes" where
  "opCallDataSize f = op_push (SetUint64 (len64 (Input (fcontract f)))) f"

definition opReturnDataSize :: "frame \<Rightarrow> EVM \<Rightarrow> execRes" where
  "opReturnDataSize f evm = op_push (SetUint64 (len64 (returnData evm))) f evm"

definition opCodeSize :: "frame \<Rightarrow> EVM \<Rightarrow> execRes" where
  "opCodeSize f = op_push (SetUint64 (len64 (Code (fcontract f)))) f"

definition opGasprice :: "vmContext \<Rightarrow> frame \<Rightarrow> EVM \<Rightarrow> execRes" where
  "opGasprice ctx = op_push (FromBig (txGasPrice ctx))"

definition opCoinbase :: "vmContext \<Rightarrow> frame \<Rightarrow> EVM \<Rightarrow> execRes" where
  "opCoinbase ctx = op_push (AddrToU256 (bCoinbase ctx))"

definition opTimestamp :: "vmContext \<Rightarrow> frame \<Rightarrow> EVM \<Rightarrow> execRes" where
  "opTimestamp ctx = op_push (SetUint64 (bTime ctx))"

definition opNumber :: "vmContext \<Rightarrow> frame \<Rightarrow> EVM \<Rightarrow> execRes" where
  "opNumber ctx = op_push (FromBig (bBlockNumber ctx))"

definition opDifficulty :: "vmContext \<Rightarrow> frame \<Rightarrow> EVM \<Rightarrow> execRes" where
  "opDifficulty ctx = op_push (FromBig (bDifficulty ctx))"

text \<open>\<open>Context.Random\<close> is a pointer, nil before the merge.\<close>

definition opRandom :: "vmContext \<Rightarrow> frame \<Rightarrow> EVM \<Rightarrow> execRes" where
  "opRandom ctx f evm =
    (case bRandom ctx of None \<Rightarrow> Panic ''nil pointer dereference'' | Some h \<Rightarrow> op_push h f evm)"

definition opGasLimit :: "vmContext \<Rightarrow> frame \<Rightarrow> EVM \<Rightarrow> execRes" where
  "opGasLimit ctx = op_push (SetUint64 (bGasLimit ctx))"

definition opPc :: "frame \<Rightarrow> EVM \<Rightarrow> execRes" where "opPc f = op_push (SetUint64 (fpc f)) f"
definition opMsize :: "frame \<Rightarrow> EVM \<Rightarrow> execRes" where "opMsize f = op_push (SetUint64 (len64 (mstore (fmem f)))) f"
definition opGas :: "frame \<Rightarrow> EVM \<Rightarrow> execRes" where "opGas f = op_push (SetUint64 (Gas (fcontract f))) f"

definition opSelfBalance :: "frame \<Rightarrow> EVM \<Rightarrow> execRes" where
  "opSelfBalance f evm =
    (case GetBalance (selfAddr (fcontract f)) (statedb evm) of (b, db) \<Rightarrow>
       op_push (FromBig b) f (evm \<lparr> statedb := db \<rparr>))"

definition opChainID :: "vmContext \<Rightarrow> frame \<Rightarrow> EVM \<Rightarrow> execRes" where
  "opChainID ctx f evm =
    (case ChainID (chainConfig ctx) of None \<Rightarrow> Panic ''nil pointer dereference'' | Some i \<Rightarrow> op_push (FromBig i) f evm)"

definition opBaseFee :: "vmContext \<Rightarrow> frame \<Rightarrow> EVM \<Rightarrow> execRes" where
  "opBaseFee ctx = op_push (FromBig (bBaseFee ctx))"

definition opPush0 :: "frame \<Rightarrow> EVM \<Rightarrow> execRes" where "opPush0 = op_push 0"

fun exec_env :: "vmContext \<Rightarrow> envFunc \<Rightarrow> frame \<Rightarrow> EVM \<Rightarrow> execRes" where
  "exec_env ctx OpAddress = opAddress"
| "exec_env ctx OpOrigin = opOrigin ctx"
| "exec_env ctx OpCaller = opCaller"
| "exec_env ctx OpCallValue = opCallValue"
| "exec_env ctx OpCallDataSize = opCallDataSize"
| "exec_env ctx OpCodeSize = opCodeSize"
| "exec_env ctx OpGasprice = opGasprice ctx"
| "exec_env ctx OpReturnDataSize = opReturnDataSize"
| "exec_env ctx OpCoinbase = opCoinbase ctx"
| "exec_env ctx OpTimestamp = opTimestamp ctx"
| "exec_env ctx OpNumber = opNumber ctx"
| "exec_env ctx OpDifficulty = opDifficulty ctx"
| "exec_env ctx OpRandom = opRandom ctx"
| "exec_env ctx OpGasLimit = opGasLimit ctx"
| "exec_env ctx OpChainID = opChainID ctx"
| "exec_env ctx OpSelfBalance = opSelfBalance"
| "exec_env ctx OpBaseFee = opBaseFee ctx"
| "exec_env ctx OpPc = opPc"
| "exec_env ctx OpMsize = opMsize"
| "exec_env ctx OpGas = opGas"
| "exec_env ctx OpPush0 = opPush0"

section \<open>The top replaced\<close>

definition op_top :: "(u256 \<Rightarrow> u256 \<times> StateDB) \<Rightarrow> frame \<Rightarrow> EVM \<Rightarrow> execRes" where
  "op_top g f evm =
    (case fstack f of
       x # st \<Rightarrow> (case g x of (v, db) \<Rightarrow> cont (f \<lparr> fstack := v # st \<rparr>) (evm \<lparr> statedb := db \<rparr>))
     | _ \<Rightarrow> stackPanic)"

definition opIszero :: "frame \<Rightarrow> EVM \<Rightarrow> execRes" where
  "opIszero f evm = op_top (\<lambda>x. (bool256 (x = 0), statedb evm)) f evm"

definition opNot :: "frame \<Rightarrow> EVM \<Rightarrow> execRes" where
  "opNot f evm = op_top (\<lambda>x. (NOT x, statedb evm)) f evm"

definition opBalance :: "frame \<Rightarrow> EVM \<Rightarrow> execRes" where
  "opBalance f evm = op_top (\<lambda>slot. case GetBalance (Bytes20 slot) (statedb evm) of (b, db) \<Rightarrow> (FromBig b, db)) f evm"

definition opCallDataLoad :: "frame \<Rightarrow> EVM \<Rightarrow> execRes" where
  "opCallDataLoad f evm =
    (case fstack f of
       x # st \<Rightarrow> (case Uint64WithOverflow x of (offset, overflow) \<Rightarrow>
         if \<not> overflow
         then go_bind (getData (Input (fcontract f)) offset 32)
                (\<lambda>data. cont (f \<lparr> fstack := SetBytes data # st \<rparr>) evm)
         else cont (f \<lparr> fstack := 0 # st \<rparr>) evm)
     | _ \<Rightarrow> stackPanic)"

definition opExtCodeSize :: "frame \<Rightarrow> EVM \<Rightarrow> execRes" where
  "opExtCodeSize f evm = op_top (\<lambda>slot. case GetCodeSize (Bytes20 slot) (statedb evm) of (n, db) \<Rightarrow>
     (SetUint64 (word_of_nat n), db)) f evm"

definition opExtCodeHash :: "frame \<Rightarrow> EVM \<Rightarrow> execRes" where
  "opExtCodeHash f evm = op_top (\<lambda>slot. case Empty (Bytes20 slot) (statedb evm) of (e, db) \<Rightarrow>
     if e then (0, db) else GetCodeHash (Bytes20 slot) db) f evm"

definition opBlockhash :: "vmContext \<Rightarrow> frame \<Rightarrow> EVM \<Rightarrow> execRes" where
  "opBlockhash ctx f evm = op_top (\<lambda>num. case Uint64WithOverflow num of (num64, overflow) \<Rightarrow>
     if overflow then (0, statedb evm)
     else let upper = word_of_int (bBlockNumber ctx);
              lower = (if upper < 257 then 0 else upper - 256)
          in if num64 \<ge> lower \<and> num64 < upper then (GetHash ctx num64, statedb evm)
             else (0, statedb evm)) f evm"

definition opMload :: "frame \<Rightarrow> EVM \<Rightarrow> execRes" where
  "opMload f evm =
    (case fstack f of
       v # st \<Rightarrow> go_bind (GetPtr (Uint64 v) 32 (fmem f)) (\<lambda>b. cont (f \<lparr> fstack := SetBytes b # st \<rparr>) evm)
     | _ \<Rightarrow> stackPanic)"

definition opSload :: "frame \<Rightarrow> EVM \<Rightarrow> execRes" where
  "opSload f evm = op_top (\<lambda>loc. GetState (selfAddr (fcontract f)) loc (statedb evm)) f evm"

definition opTload :: "frame \<Rightarrow> EVM \<Rightarrow> execRes" where
  "opTload f evm =
    op_top (\<lambda>loc. (GetTransientState (selfAddr (fcontract f)) loc (statedb evm), statedb evm)) f evm"

fun exec_top :: "vmContext \<Rightarrow> topFunc \<Rightarrow> frame \<Rightarrow> EVM \<Rightarrow> execRes" where
  "exec_top ctx OpIszero = opIszero"
| "exec_top ctx OpNot = opNot"
| "exec_top ctx OpBalance = opBalance"
| "exec_top ctx OpCallDataLoad = opCallDataLoad"
| "exec_top ctx OpExtCodeSize = opExtCodeSize"
| "exec_top ctx OpExtCodeHash = opExtCodeHash"
| "exec_top ctx OpBlockhash = opBlockhash ctx"
| "exec_top ctx OpMload = opMload"
| "exec_top ctx OpSload = opSload"
| "exec_top ctx OpTload = opTload"

section \<open>Copies to memory\<close>

definition copy_offset :: "u256 \<Rightarrow> u64" where
  "copy_offset x = (case Uint64WithOverflow x of (v, overflow) \<Rightarrow> if overflow then 0xffffffffffffffff else v)"

definition copy_data :: "bytes \<Rightarrow> u256 \<Rightarrow> u256 \<Rightarrow> u256 \<Rightarrow> frame \<Rightarrow> EVM \<Rightarrow> execRes" where
  "copy_data data memOffset dataOffset l f evm =
    go_bind (getData data (copy_offset dataOffset) (Uint64 l)) (\<lambda>d.
      go_bind (mem_Set (Uint64 memOffset) (Uint64 l) d (fmem f)) (\<lambda>m. cont (f \<lparr> fmem := m \<rparr>) evm))"

definition opCallDataCopy :: "frame \<Rightarrow> EVM \<Rightarrow> execRes" where
  "opCallDataCopy f evm =
    (case fstack f of
       memOffset # dataOffset # l # st \<Rightarrow>
         copy_data (Input (fcontract f)) memOffset dataOffset l (f \<lparr> fstack := st \<rparr>) evm
     | _ \<Rightarrow> stackPanic)"

definition opCodeCopy :: "frame \<Rightarrow> EVM \<Rightarrow> execRes" where
  "opCodeCopy f evm =
    (case fstack f of
       memOffset # codeOffset # l # st \<Rightarrow>
         copy_data (Code (fcontract f)) memOffset codeOffset l (f \<lparr> fstack := st \<rparr>) evm
     | _ \<Rightarrow> stackPanic)"

definition opExtCodeCopy :: "frame \<Rightarrow> EVM \<Rightarrow> execRes" where
  "opExtCodeCopy f evm =
    (case fstack f of
       a # memOffset # codeOffset # l # st \<Rightarrow>
         (case GetCode (Bytes20 a) (statedb evm) of (code, db) \<Rightarrow>
            copy_data (code_bytes code) memOffset codeOffset l (f \<lparr> fstack := st \<rparr>) (evm \<lparr> statedb := db \<rparr>))
     | _ \<Rightarrow> stackPanic)"

definition opReturnDataCopy :: "frame \<Rightarrow> EVM \<Rightarrow> execRes" where
  "opReturnDataCopy f evm =
    (case fstack f of
       memOffset # dataOffset # l # st \<Rightarrow>
         let f = f \<lparr> fstack := st \<rparr> in
         (case Uint64WithOverflow dataOffset of (offset64, overflow) \<Rightarrow>
          if overflow then fail ErrReturnDataOutOfBounds f evm
          else case Uint64WithOverflow (dataOffset + l) of (end64, overflow) \<Rightarrow>
            if overflow \<or> len64 (returnData evm) < end64 then fail ErrReturnDataOutOfBounds f evm
            else go_bind (slice (returnData evm) (unat offset64) (unat end64)) (\<lambda>d.
              go_bind (mem_Set (Uint64 memOffset) (Uint64 l) d (fmem f)) (\<lambda>m. cont (f \<lparr> fmem := m \<rparr>) evm)))
     | _ \<Rightarrow> stackPanic)"

fun exec_copy :: "copyFunc \<Rightarrow> frame \<Rightarrow> EVM \<Rightarrow> execRes" where
  "exec_copy OpCallDataCopy = opCallDataCopy"
| "exec_copy OpCodeCopy = opCodeCopy"
| "exec_copy OpExtCodeCopy = opExtCodeCopy"
| "exec_copy OpReturnDataCopy = opReturnDataCopy"

section \<open>Memory, storage, jumps\<close>

definition opKeccak256 :: "vmContext \<Rightarrow> frame \<Rightarrow> EVM \<Rightarrow> execRes" where
  "opKeccak256 ctx f evm =
    (case fstack f of
       offset # sz # st \<Rightarrow>
         go_bind (GetPtr (Uint64 offset) (Uint64 sz) (fmem f)) (\<lambda>data.
           let h = keccak256 (lib ctx) data;
               evm = (if EnablePreimageRecording ctx
                      then evm \<lparr> statedb := AddPreimage h data (statedb evm) \<rparr> else evm)
           in cont (f \<lparr> fstack := h # st \<rparr>) evm)
     | _ \<Rightarrow> stackPanic)"

definition opPop :: "frame \<Rightarrow> EVM \<Rightarrow> execRes" where
  "opPop f evm = (case fstack f of x # st \<Rightarrow> cont (f \<lparr> fstack := st \<rparr>) evm | _ \<Rightarrow> stackPanic)"

definition opMstore :: "frame \<Rightarrow> EVM \<Rightarrow> execRes" where
  "opMstore f evm =
    (case fstack f of
       mStart # val # st \<Rightarrow>
         go_bind (mem_Set32 (Uint64 mStart) val (fmem f)) (\<lambda>m. cont (f \<lparr> fstack := st, fmem := m \<rparr>) evm)
     | _ \<Rightarrow> stackPanic)"

definition opMstore8 :: "frame \<Rightarrow> EVM \<Rightarrow> execRes" where
  "opMstore8 f evm =
    (case fstack f of
       off # val # st \<Rightarrow>
         let i = unat (Uint64 off); m = fmem f in
         if i < mem_Len m
         then cont (f \<lparr> fstack := st, fmem := m \<lparr> mstore := (mstore m)[i := ucast val] \<rparr> \<rparr>) evm
         else memPanic
     | _ \<Rightarrow> stackPanic)"

definition opSstore :: "frame \<Rightarrow> EVM \<Rightarrow> execRes" where
  "opSstore f evm =
    (if readOnly evm then fail ErrWriteProtection f evm
     else case fstack f of
       loc # val # st \<Rightarrow>
         cont (f \<lparr> fstack := st \<rparr>) (evm \<lparr> statedb := SetState (selfAddr (fcontract f)) loc val (statedb evm) \<rparr>)
     | _ \<Rightarrow> stackPanic)"

definition opTstore :: "frame \<Rightarrow> EVM \<Rightarrow> execRes" where
  "opTstore f evm =
    (if readOnly evm then fail ErrWriteProtection f evm
     else case fstack f of
       loc # val # st \<Rightarrow>
         cont (f \<lparr> fstack := st \<rparr>)
           (evm \<lparr> statedb := SetTransientState (selfAddr (fcontract f)) loc val (statedb evm) \<rparr>)
     | _ \<Rightarrow> stackPanic)"

text \<open>The target minus one, since the loop increments the program counter.\<close>

definition jump_to :: "u256 \<Rightarrow> frame \<Rightarrow> EVM \<Rightarrow> execRes" where
  "jump_to pos f evm =
    go_bind (validJumpdest pos (fcontract f) evm) (\<lambda>(ok, contract, evm).
      let f = f \<lparr> fcontract := contract \<rparr> in
      if \<not> ok then fail ErrInvalidJump f evm else cont (f \<lparr> fpc := Uint64 pos - 1 \<rparr>) evm)"

definition opJump :: "vmContext \<Rightarrow> frame \<Rightarrow> EVM \<Rightarrow> execRes" where
  "opJump ctx f evm =
    (if abort ctx then fail errStopToken f evm
     else case fstack f of pos # st \<Rightarrow> jump_to pos (f \<lparr> fstack := st \<rparr>) evm | _ \<Rightarrow> stackPanic)"

definition opJumpi :: "vmContext \<Rightarrow> frame \<Rightarrow> EVM \<Rightarrow> execRes" where
  "opJumpi ctx f evm =
    (if abort ctx then fail errStopToken f evm
     else case fstack f of
       pos # cond # st \<Rightarrow>
         if cond \<noteq> 0 then jump_to pos (f \<lparr> fstack := st \<rparr>) evm else cont (f \<lparr> fstack := st \<rparr>) evm
     | _ \<Rightarrow> stackPanic)"

definition opJumpdest :: "frame \<Rightarrow> EVM \<Rightarrow> execRes" where
  "opJumpdest = cont"

definition opPush1 :: "frame \<Rightarrow> EVM \<Rightarrow> execRes" where
  "opPush1 f evm =
    (let c = Code (fcontract f); pc = fpc f + 1 in
     op_push (if pc < len64 c then SetUint64 (ucast (c ! unat pc)) else 0) (f \<lparr> fpc := pc \<rparr>) evm)"

text \<open>\<open>int(*pc + 1)\<close> reads the counter as a signed number.\<close>

definition makePush :: "u64 \<Rightarrow> nat \<Rightarrow> frame \<Rightarrow> EVM \<Rightarrow> execRes" where
  "makePush sz pushByteSize f evm =
    (let c = Code (fcontract f);
         codeLen = int (length c);
         startMin = (if sint (fpc f + 1) < codeLen then sint (fpc f + 1) else codeLen);
         endMin = (if startMin + int pushByteSize < codeLen then startMin + int pushByteSize else codeLen)
     in go_bind (if 0 \<le> startMin then slice c (nat startMin) (nat endMin) else Panic ''slice bounds out of range'') (\<lambda>b.
       cont (f \<lparr> fstack := push (SetBytes (RightPadBytes b pushByteSize)) (fstack f), fpc := fpc f + sz \<rparr>) evm))"

definition makeDup :: "nat \<Rightarrow> frame \<Rightarrow> EVM \<Rightarrow> execRes" where
  "makeDup n f evm = go_bind (dup n (fstack f)) (\<lambda>st. cont (f \<lparr> fstack := st \<rparr>) evm)"

definition makeSwap :: "nat \<Rightarrow> frame \<Rightarrow> EVM \<Rightarrow> execRes" where
  "makeSwap n f evm = go_bind (swap (n + 1) (fstack f)) (\<lambda>st. cont (f \<lparr> fstack := st \<rparr>) evm)"

definition makeLog :: "vmContext \<Rightarrow> nat \<Rightarrow> frame \<Rightarrow> EVM \<Rightarrow> execRes" where
  "makeLog ctx n f evm =
    (if readOnly evm then fail ErrWriteProtection f evm
     else case fstack f of
       mStart # mSize # st \<Rightarrow>
         if n \<le> length st
         then go_bind (GetCopy (Uint64 mStart) (Uint64 mSize) (fmem f)) (\<lambda>d.
           cont (f \<lparr> fstack := drop n st \<rparr>)
             (evm \<lparr> statedb := AddLog \<lparr> lAddress = selfAddr (fcontract f), lTopics = take n st, lData = d,
                lBlockNumber = word_of_int (bBlockNumber ctx), lTxHash = 0, lTxIndex = 0, lBlockHash = 0,
                lIndex = 0, lRemoved = False \<rparr> (statedb evm) \<rparr>))
         else stackPanic
     | _ \<Rightarrow> stackPanic)"

section \<open>Calls and creations\<close>

definition create_gas :: "bool \<Rightarrow> u64 \<Rightarrow> u64" where
  "create_gas isEip150 gas = (if isEip150 then gas - gas div 64 else gas)"

definition spend :: "u64 \<Rightarrow> Contract \<Rightarrow> Contract" where
  "spend gas c = (case UseGas gas c of Some c' \<Rightarrow> c' | None \<Rightarrow> c)"

definition give_back :: "u64 \<Rightarrow> Contract \<Rightarrow> Contract" where
  "give_back gas c = c \<lparr> Gas := Gas c + gas \<rparr>"

text \<open>
  The end of the creations: push the address unless the error counts, take back the gas, and keep the
  data of a revert as return data.
\<close>

definition after_create :: "bool \<Rightarrow> vmStack \<Rightarrow> frame \<Rightarrow> bytes \<times> address \<times> u64 \<times> vmErr option \<times> EVM \<Rightarrow> execRes" where
  "after_create failed st f = (\<lambda>(res, addr, returnGas, suberr, evm).
    let f = f \<lparr> fstack := push (if failed then 0 else AddrToU256 addr) st,
                fcontract := give_back returnGas (fcontract f) \<rparr>
    in if suberr = Some ErrExecutionReverted then Ret (res, None, f, evm \<lparr> returnData := res \<rparr>)
       else cont f (evm \<lparr> returnData := [] \<rparr>))"

definition opCreate :: "vmContext \<Rightarrow> runner \<Rightarrow> frame \<Rightarrow> EVM \<Rightarrow> execRes" where
  "opCreate ctx run f evm =
    (if readOnly evm then fail ErrWriteProtection f evm
     else case fstack f of
       value # offset # sz # st \<Rightarrow>
         go_bind (GetCopy (Uint64 offset) (Uint64 sz) (fmem f)) (\<lambda>input.
           let gas = create_gas (rIsEIP150 (chainRules ctx)) (Gas (fcontract f));
               f = f \<lparr> fstack := st, fcontract := spend gas (fcontract f) \<rparr>
           in go_bind (Create ctx run (ContractOf (fcontract f)) input gas (ToBig value) evm)
                (\<lambda>(res, addr, returnGas, suberr, evm).
                  after_create (if rIsHomestead (chainRules ctx) \<and> suberr = Some ErrCodeStoreOutOfGas then True
                                else suberr \<noteq> None \<and> suberr \<noteq> Some ErrCodeStoreOutOfGas)
                    st f (res, addr, returnGas, suberr, evm)))
     | _ \<Rightarrow> stackPanic)"

definition opCreate2 :: "vmContext \<Rightarrow> runner \<Rightarrow> frame \<Rightarrow> EVM \<Rightarrow> execRes" where
  "opCreate2 ctx run f evm =
    (if readOnly evm then fail ErrWriteProtection f evm
     else case fstack f of
       endowment # offset # sz # salt # st \<Rightarrow>
         go_bind (GetCopy (Uint64 offset) (Uint64 sz) (fmem f)) (\<lambda>input.
           let gas = create_gas True (Gas (fcontract f));
               f = f \<lparr> fstack := st, fcontract := spend gas (fcontract f) \<rparr>
           in go_bind (Create2 ctx run (ContractOf (fcontract f)) input gas (ToBig endowment) salt evm)
                (\<lambda>(res, addr, returnGas, suberr, evm).
                  after_create (suberr \<noteq> None) st f (res, addr, returnGas, suberr, evm)))
     | _ \<Rightarrow> stackPanic)"

text \<open>The end of the calls: push the success flag, store the output, take back the gas.\<close>

definition after_call :: "u256 \<Rightarrow> u256 \<Rightarrow> vmStack \<Rightarrow> frame \<Rightarrow> bytes \<times> u64 \<times> vmErr option \<times> EVM \<Rightarrow> execRes" where
  "after_call retOffset retSize st f = (\<lambda>(ret, returnGas, err, evm).
    go_bind (if err = None \<or> err = Some ErrExecutionReverted
             then mem_Set (Uint64 retOffset) (Uint64 retSize) ret (fmem f) else Ret (fmem f))
      (\<lambda>m. Ret (ret, None,
         f \<lparr> fstack := push (bool256 (err = None)) st, fmem := m, fcontract := give_back returnGas (fcontract f) \<rparr>,
         evm \<lparr> returnData := ret \<rparr>)))"

definition stipend :: "u256 \<Rightarrow> u64 \<Rightarrow> u64" where
  "stipend value gas = (if value \<noteq> 0 then gas + CallStipend else gas)"

definition opCall :: "vmContext \<Rightarrow> runner \<Rightarrow> frame \<Rightarrow> EVM \<Rightarrow> execRes" where
  "opCall ctx run f evm =
    (case fstack f of
       temp # addr # value # inOffset # inSize # retOffset # retSize # st \<Rightarrow>
         go_bind (GetPtr (Uint64 inOffset) (Uint64 inSize) (fmem f)) (\<lambda>args.
           if readOnly evm \<and> value \<noteq> 0 then fail ErrWriteProtection (f \<lparr> fstack := st \<rparr>) evm
           else go_bind (Call ctx run (ContractOf (fcontract f)) (Bytes20 addr) args
                           (stipend value (callGasTemp evm)) (ToBig value) evm)
                  (after_call retOffset retSize st f))
     | _ \<Rightarrow> stackPanic)"

definition opCallCode :: "vmContext \<Rightarrow> runner \<Rightarrow> frame \<Rightarrow> EVM \<Rightarrow> execRes" where
  "opCallCode ctx run f evm =
    (case fstack f of
       temp # addr # value # inOffset # inSize # retOffset # retSize # st \<Rightarrow>
         go_bind (GetPtr (Uint64 inOffset) (Uint64 inSize) (fmem f)) (\<lambda>args.
           go_bind (CallCode ctx run (ContractOf (fcontract f)) (Bytes20 addr) args
                      (stipend value (callGasTemp evm)) (ToBig value) evm)
             (after_call retOffset retSize st f))
     | _ \<Rightarrow> stackPanic)"

definition opDelegateCall :: "vmContext \<Rightarrow> runner \<Rightarrow> frame \<Rightarrow> EVM \<Rightarrow> execRes" where
  "opDelegateCall ctx run f evm =
    (case fstack f of
       temp # addr # inOffset # inSize # retOffset # retSize # st \<Rightarrow>
         go_bind (GetPtr (Uint64 inOffset) (Uint64 inSize) (fmem f)) (\<lambda>args.
           go_bind (DelegateCall ctx run (ContractOf (fcontract f)) (Bytes20 addr) args (callGasTemp evm) evm)
             (after_call retOffset retSize st f))
     | _ \<Rightarrow> stackPanic)"

definition opStaticCall :: "vmContext \<Rightarrow> runner \<Rightarrow> frame \<Rightarrow> EVM \<Rightarrow> execRes" where
  "opStaticCall ctx run f evm =
    (case fstack f of
       temp # addr # inOffset # inSize # retOffset # retSize # st \<Rightarrow>
         go_bind (GetPtr (Uint64 inOffset) (Uint64 inSize) (fmem f)) (\<lambda>args.
           go_bind (StaticCall ctx run (ContractOf (fcontract f)) (Bytes20 addr) args (callGasTemp evm) evm)
             (after_call retOffset retSize st f))
     | _ \<Rightarrow> stackPanic)"

fun exec_sub :: "vmContext \<Rightarrow> runner \<Rightarrow> subFunc \<Rightarrow> frame \<Rightarrow> EVM \<Rightarrow> execRes" where
  "exec_sub ctx run OpCreate = opCreate ctx run"
| "exec_sub ctx run OpCreate2 = opCreate2 ctx run"
| "exec_sub ctx run OpCall = opCall ctx run"
| "exec_sub ctx run OpCallCode = opCallCode ctx run"
| "exec_sub ctx run OpDelegateCall = opDelegateCall ctx run"
| "exec_sub ctx run OpStaticCall = opStaticCall ctx run"

section \<open>The end of a frame\<close>

definition opReturn :: "frame \<Rightarrow> EVM \<Rightarrow> execRes" where
  "opReturn f evm =
    (case fstack f of
       offset # sz # st \<Rightarrow> go_bind (GetPtr (Uint64 offset) (Uint64 sz) (fmem f)) (\<lambda>ret.
         Ret (ret, Some errStopToken, f \<lparr> fstack := st \<rparr>, evm))
     | _ \<Rightarrow> stackPanic)"

definition opRevert :: "frame \<Rightarrow> EVM \<Rightarrow> execRes" where
  "opRevert f evm =
    (case fstack f of
       offset # sz # st \<Rightarrow> go_bind (GetPtr (Uint64 offset) (Uint64 sz) (fmem f)) (\<lambda>ret.
         Ret (ret, Some ErrExecutionReverted, f \<lparr> fstack := st \<rparr>, evm \<lparr> returnData := ret \<rparr>))
     | _ \<Rightarrow> stackPanic)"

definition opUndefined :: "frame \<Rightarrow> EVM \<Rightarrow> execRes" where
  "opUndefined f evm =
    (if unat (fpc f) < length (Code (fcontract f))
     then fail (ErrInvalidOpCode (Code (fcontract f) ! unat (fpc f))) f evm
     else Panic ''code: index out of range'')"

definition opStop :: "frame \<Rightarrow> EVM \<Rightarrow> execRes" where
  "opStop = fail errStopToken"

definition opSelfdestruct :: "frame \<Rightarrow> EVM \<Rightarrow> execRes" where
  "opSelfdestruct f evm =
    (if readOnly evm then fail ErrWriteProtection f evm
     else case fstack f of
       beneficiary # st \<Rightarrow>
         (case GetBalance (selfAddr (fcontract f)) (statedb evm) of (balance, db) \<Rightarrow>
            let db = AddBalance (Bytes20 beneficiary) balance db;
                db = snd (Suicide (selfAddr (fcontract f)) db)
            in fail errStopToken (f \<lparr> fstack := st \<rparr>) (evm \<lparr> statedb := db \<rparr>))
     | _ \<Rightarrow> stackPanic)"

fun exec_halt :: "haltFunc \<Rightarrow> frame \<Rightarrow> EVM \<Rightarrow> execRes" where
  "exec_halt OpStop = opStop"
| "exec_halt OpReturn = opReturn"
| "exec_halt OpRevert = opRevert"
| "exec_halt OpSelfdestruct = opSelfdestruct"
| "exec_halt OpUndefined = opUndefined"

section \<open>Dispatch\<close>

fun exec :: "vmContext \<Rightarrow> runner \<Rightarrow> executionFunc \<Rightarrow> frame \<Rightarrow> EVM \<Rightarrow> execRes" where
  "exec ctx run (Bin b) = exec_bin ctx b"
| "exec ctx run (Tern t) = exec_tern ctx t"
| "exec ctx run (Env e) = exec_env ctx e"
| "exec ctx run (Top t) = exec_top ctx t"
| "exec ctx run (Copy c) = exec_copy c"
| "exec ctx run (Sub s) = exec_sub ctx run s"
| "exec ctx run (Halt h) = exec_halt h"
| "exec ctx run OpKeccak256 = opKeccak256 ctx"
| "exec ctx run OpPop = opPop"
| "exec ctx run OpMstore = opMstore"
| "exec ctx run OpMstore8 = opMstore8"
| "exec ctx run OpSstore = opSstore"
| "exec ctx run OpTstore = opTstore"
| "exec ctx run OpJump = opJump ctx"
| "exec ctx run OpJumpi = opJumpi ctx"
| "exec ctx run OpJumpdest = opJumpdest"
| "exec ctx run OpPush1 = opPush1"
| "exec ctx run (MakePush sz n) = makePush sz n"
| "exec ctx run (MakeDup n) = makeDup n"
| "exec ctx run (MakeSwap n) = makeSwap n"
| "exec ctx run (MakeLog n) = makeLog ctx n"

end
