(* ===== verification/VM_Interpreter.thy ===== *)
theory VM_Interpreter
  imports VM_Instructions
begin

text \<open>
  The interpreter, \<open>Run\<close> of \<^verbatim>\<open>client/core/vm/interpreter.go\<close>. One iteration of its loop is \<open>step\<close>;
  \<open>loop\<close> iterates it, and the nested calls of an instruction run the same loop, so both recursions are
  bounded by one fuel argument; \<open>NoFuel\<close> stands for a loop that has not ended. \<open>Run\<close> is the method,
  for a given fuel.
\<close>

datatype stepRes = Continue frame EVM | Done bytes "vmErr option" frame EVM

text \<open>The size of the memory an instruction asks for, in bytes, or \<open>None\<close> for an overflow.\<close>

definition required_memory :: "operation \<Rightarrow> vmStack \<Rightarrow> u64 option go" where
  "required_memory operation stack =
    (case memorySize operation of
       None \<Rightarrow> Ret (Some 0)
     | Some m \<Rightarrow> go_bind (memory_size m stack) (\<lambda>(memSize, overflow).
         if overflow then Ret None
         else case SafeMul (toWordSize memSize) 32 of (memSz, overflow) \<Rightarrow>
           Ret (if overflow then None else Some memSz)))"

text \<open>
  The dynamic gas of an instruction: \<open>Inl\<close> the error the loop returns, \<open>Inr\<close> the frame and the machine
  it goes on with, the gas paid and the memory resized.
\<close>

definition charge_dynamic ::
    "vmContext \<Rightarrow> operation \<Rightarrow> frame \<Rightarrow> EVM \<Rightarrow> (vmErr \<times> frame \<times> EVM + frame \<times> EVM) go" where
  "charge_dynamic ctx operation f evm =
    (case dynamicGas operation of
       None \<Rightarrow> Ret (Inr (f, evm))
     | Some g \<Rightarrow>
        go_bind (required_memory operation (fstack f)) (\<lambda>ms.
          case ms of
            None \<Rightarrow> Ret (Inl (ErrGasUintOverflow, f, evm))
          | Some memSz \<Rightarrow>
              go_bind (dynamic_gas ctx g f evm memSz) (\<lambda>(dynamicCost, err, f, evm).
                if err \<noteq> None then Ret (Inl (ErrOutOfGas, f, evm))
                else case UseGas dynamicCost (fcontract f) of
                  None \<Rightarrow> Ret (Inl (ErrOutOfGas, f, evm))
                | Some contract \<Rightarrow>
                    Ret (Inr (f \<lparr> fcontract := contract,
                      fmem := (if memSz > 0 then mem_Resize memSz (fmem f) else fmem f) \<rparr>, evm)))))"

definition step :: "vmContext \<Rightarrow> runner \<Rightarrow> frame \<Rightarrow> EVM \<Rightarrow> stepRes go" where
  "step ctx run f evm =
    (let operation = jumpTable ctx (GetOp (fpc f) (fcontract f));
         sLen = int (length (fstack f))
     in if sLen < opMinStack operation
        then Ret (Done [] (Some (ErrStackUnderflow sLen (opMinStack operation))) f evm)
        else if sLen > opMaxStack operation
        then Ret (Done [] (Some (ErrStackOverflow sLen (opMaxStack operation))) f evm)
        else case UseGas (constantGas operation) (fcontract f) of
          None \<Rightarrow> Ret (Done [] (Some ErrOutOfGas) f evm)
        | Some contract \<Rightarrow>
            go_bind (charge_dynamic ctx operation (f \<lparr> fcontract := contract \<rparr>) evm) (\<lambda>c.
              case c of
                Inl (e, f, evm) \<Rightarrow> Ret (Done [] (Some e) f evm)
              | Inr (f, evm) \<Rightarrow>
                  go_bind (exec ctx run (execute operation) f evm) (\<lambda>(res, err, f, evm).
                    Ret (if err \<noteq> None then Done res err f evm
                         else Continue (f \<lparr> fpc := fpc f + 1 \<rparr>) evm))))"

text \<open>
  What \<open>Run\<close> does around the loop: the depth and the read-only flag are set and, by deferred functions,
  restored; the return data is reset; a contract without code returns at once.
\<close>

definition run_with :: "(frame \<Rightarrow> EVM \<Rightarrow> (bytes \<times> vmErr option \<times> frame \<times> EVM) go) \<Rightarrow> runner" where
  "run_with lp contract input ro evm =
    (let set = ro \<and> \<not> readOnly evm;
         evm1 = evm \<lparr> depth := depth evm + 1, readOnly := (if set then True else readOnly evm), returnData := [] \<rparr>
     in go_bind
       (if Code contract = [] then Ret ([], None, contract, evm1)
        else go_bind (lp \<lparr> fpc = 0, fmem = NewMemory, fstack = [], fcontract = contract \<lparr> Input := input \<rparr> \<rparr> evm1)
               (\<lambda>(ret, err, f, evm). Ret (ret, err, fcontract f, evm)))
       (\<lambda>(ret, err, contract, evm).
          Ret (ret, err, contract, evm \<lparr> depth := depth evm - 1, readOnly := (if set then False else readOnly evm) \<rparr>)))"

fun loop :: "nat \<Rightarrow> vmContext \<Rightarrow> frame \<Rightarrow> EVM \<Rightarrow> (bytes \<times> vmErr option \<times> frame \<times> EVM) go" where
  "loop 0 ctx f evm = NoFuel"
| "loop (Suc n) ctx f evm =
    go_bind (step ctx (run_with (loop n ctx)) f evm) (\<lambda>r.
      case r of
        Continue f evm \<Rightarrow> loop n ctx f evm
      | Done ret err f evm \<Rightarrow> Ret (ret, if err = Some errStopToken then None else err, f, evm))"

definition Run :: "nat \<Rightarrow> vmContext \<Rightarrow> runner" where
  "Run fuel ctx = run_with (loop fuel ctx)"

end
