(* ===== verification/VM_Call_Props.thy ===== *)
theory VM_Call_Props
  imports VM_Gas_Props VM_Interpreter
begin

text \<open>
  Facts about calls and creations, relative to what the interpreter they run promises (\<open>run_ok\<close>): gas
  never increases, the machine's depth and read-only flag are restored, the state evolves by journaled
  steps (read-only ones in a static call), and no bounds check of the virtual machine fails. The calls
  promise the same to their callers and, if they return an error, give back the observable state
  they started from.
\<close>

definition kept :: "EVM \<Rightarrow> EVM \<Rightarrow> bool" where
  "kept evm evm' \<longleftrightarrow> depth evm' = depth evm \<and> readOnly evm' = readOnly evm"

lemma kept_refl [simp]: "kept evm evm" by (simp add: kept_def)

lemma kept_trans: "kept a b \<Longrightarrow> kept b c \<Longrightarrow> kept a c" by (simp add: kept_def)

lemma kept_upd [simp]:
  "kept (evm \<lparr> statedb := db \<rparr>) evm' = kept evm evm'" "kept evm (evm' \<lparr> statedb := db \<rparr>) = kept evm evm'"
  "kept (evm \<lparr> jumpdests := j \<rparr>) evm' = kept evm evm'" "kept evm (evm' \<lparr> jumpdests := j \<rparr>) = kept evm evm'"
  "kept (evm \<lparr> returnData := b \<rparr>) evm' = kept evm evm'" "kept evm (evm' \<lparr> returnData := b \<rparr>) = kept evm evm'"
  by (simp_all add: kept_def)

definition run_ok :: "nat \<Rightarrow> runner \<Rightarrow> bool" where
  "run_ok n run \<longleftrightarrow> (\<forall>c input ro evm. wf_state (statedb evm) \<longrightarrow> unat (Gas c) < n \<longrightarrow>
     (case run c input ro evm of
        NoFuel \<Rightarrow> False
      | Panic msg \<Rightarrow> msg \<notin> vm_panics
      | Ret (ret, err, c', evm') \<Rightarrow> unat (Gas c') \<le> unat (Gas c) \<and> kept evm evm' \<and>
          evolves (ro \<or> readOnly evm) (statedb evm) (statedb evm')))"

lemma run_okD:
  "run_ok n run \<Longrightarrow> wf_state (statedb evm) \<Longrightarrow> unat (Gas c) < n \<Longrightarrow>
    (case run c input ro evm of NoFuel \<Rightarrow> False | Panic msg \<Rightarrow> msg \<notin> vm_panics
      | Ret (ret, err, c', evm') \<Rightarrow> unat (Gas c') \<le> unat (Gas c) \<and> kept evm evm' \<and>
          evolves (ro \<or> readOnly evm) (statedb evm) (statedb evm'))"
  unfolding run_ok_def by blast

text \<open>A call from state \<open>s\<close>: it leaves at most the gas it got.\<close>

definition call_ok :: "bool \<Rightarrow> StateDB \<Rightarrow> EVM \<Rightarrow> u64 \<Rightarrow> callRes \<Rightarrow> bool" where
  "call_ok ro s evm gas m \<longleftrightarrow>
     (case m of
        NoFuel \<Rightarrow> False
      | Panic msg \<Rightarrow> msg \<notin> vm_panics
      | Ret (ret, gas', err, evm') \<Rightarrow> unat gas' \<le> unat gas \<and> kept evm evm' \<and> evolves ro s (statedb evm'))"

definition undone :: "StateDB \<Rightarrow> callRes \<Rightarrow> bool" where
  "undone s m \<longleftrightarrow> (\<forall>ret gas e evm. m = Ret (ret, gas, Some e, evm) \<longrightarrow> view (statedb evm) = view s)"

lemma call_ok_state:
  "evolves ro s t \<Longrightarrow> call_ok ro t evm gas m \<Longrightarrow> call_ok ro s evm gas m"
  by (auto simp: call_ok_def intro: evolves_trans split: go.splits)

lemma call_ok_Ret:
  "call_ok ro s evm gas (Ret (ret, gas', err, evm')) \<longleftrightarrow>
     unat gas' \<le> unat gas \<and> kept evm evm' \<and> evolves ro s (statedb evm')"
  by (simp add: call_ok_def)

lemma call_ok_upd [simp]: "call_ok ro s (evm \<lparr> statedb := db \<rparr>) gas m = call_ok ro s evm gas m"
  by (auto simp: call_ok_def split: go.splits)

lemma call_ok_kept: "kept evm0 evm \<Longrightarrow> call_ok ro s evm gas m \<Longrightarrow> call_ok ro s evm0 gas m"
  by (auto simp: call_ok_def intro: kept_trans split: go.splits)

lemma getData_panic: "getData d i n = Panic msg \<Longrightarrow> msg = ''slice bounds out of range''"
  by (simp add: getData_def Let_def split: if_splits)

lemma go_bind_Panic_iff: "go_bind m f = Panic msg \<longleftrightarrow> m = Panic msg \<or> (\<exists>x. m = Ret x \<and> f x = Panic msg)"
  by (cases m) auto

lemma modexp_lengths_panic: "modexp_lengths input = Panic msg \<Longrightarrow> msg = ''slice bounds out of range''"
  by (auto simp: modexp_lengths_def go_bind_Panic_iff dest: getData_panic)

lemma precompile_panic:
  assumes "RunPrecompiledContract lb p input gas = Panic msg"
  shows "msg \<notin> vm_panics"
proof -
  have "RequiredGas p input = Panic msg \<Longrightarrow> msg = ''slice bounds out of range''"
    by (cases p) (auto simp: modexp_gas_def go_bind_Panic_iff Let_def split: if_splits prod.splits
        dest: getData_panic modexp_lengths_panic)
  moreover have "Precompile_Run lb p input = Panic msg \<Longrightarrow> msg = ''slice bounds out of range''"
    by (cases p) (auto simp: modexp_run_def runBn256Add_def runBn256ScalarMul_def go_bind_Panic_iff Let_def
        split: if_splits prod.splits sum.splits dest: getData_panic modexp_lengths_panic)
  ultimately have "msg = ''slice bounds out of range''"
    using assms by (auto simp: RunPrecompiledContract_def go_bind_Panic_iff split: if_splits prod.splits)
  then show ?thesis by (simp add: vm_panics_def)
qed

lemma call_precompile_ok:
  assumes "wf_state (statedb evm)"
  shows "call_ok ro (statedb evm) evm gas (call_precompile ctx p input gas evm)"
  using RunPrecompiledContract_gas [of "lib ctx" p input gas] RunPrecompiledContract_NoFuel [of "lib ctx" p input gas]
    precompile_panic [of "lib ctx" p input gas] assms
  by (cases "RunPrecompiledContract (lib ctx) p input gas") (auto simp: call_precompile_def call_ok_def split: prod.splits)

lemma call_run_ok:
  assumes "run_ok n run" "wf_state (statedb evm)" "unat (Gas c) < n" "ro \<Longrightarrow> st \<or> readOnly evm"
  shows "call_ok ro (statedb evm) evm (Gas c) (call_run run c input st evm)"
proof -
  show ?thesis using run_okD [OF assms(1-3), where input = input and ro = st] evolves_weaken [OF _ assms(4)]
    by (cases "run c input st evm") (auto simp: call_ok_def call_run_def split: prod.splits)
qed

lemma finish_call_ok:
  assumes "wf_state s" "Snapshot s = (i, s1)" "call_ok ro s1 evm gas m"
  shows "call_ok ro s evm gas (go_bind m (finish_call i))" "undone s (go_bind m (finish_call i))"
proof -
  have e1: "evolves ro s s1" using evolves_reads(11) [OF assms(1,2)] .
  have *: "call_ok ro s evm gas (go_bind m (finish_call i)) \<and> undone s (go_bind m (finish_call i))"
  proof (cases m)
    case (Ret r)
    obtain ret g err evm' where r: "r = (ret, g, err, evm')" by (metis prod_cases4)
    have ok: "unat g \<le> unat gas" "kept evm evm'" "evolves ro s1 (statedb evm')"
      using assms(3) Ret r by (auto simp: call_ok_def)
    show ?thesis
    proof (cases err)
      case None
      then show ?thesis using ok Ret r evolves_trans [OF e1 ok(3)] by (simp add: finish_call_def call_ok_def undone_def)
    next
      case (Some e)
      obtain u where "RevertToSnapshot i (statedb evm') = Ret u" "view u = view s" "evolves ro s u"
        using evolves_revert [OF assms(1,2) evolves_extends [OF ok(3)]] by blast
      then show ?thesis using Some ok Ret r by (simp add: finish_call_def call_ok_def undone_def)
    qed
  qed (use assms(3) in \<open>auto simp: call_ok_def undone_def\<close>)
  show "call_ok ro s evm gas (go_bind m (finish_call i))" "undone s (go_bind m (finish_call i))" using * by blast+
qed


section \<open>Pieces of a call\<close>

lemma evolves_Transfer:
  assumes "wf_state s" "ro \<Longrightarrow> x = 0"
  shows "evolves ro s (Transfer a b x s)"
proof (cases "x = 0")
  case True
  have "evolves ro s (SubBalance a 0 s)" by (rule evolves_SubBalance_0 [OF assms(1)])
  from evolves_trans [OF this evolves_AddBalance_0 [OF evolves_wf [OF this]]] True show ?thesis
    by (simp add: Transfer_def)
next
  case False
  then have ro: "\<not> ro" using assms(2) by blast
  have "evolves False s (SubBalance a x s)" using evolves_writes(2) [OF assms(1)] .
  from evolves_trans [OF this evolves_writes(1) [OF evolves_wf [OF this]]] ro show ?thesis
    by (simp add: Transfer_def)
qed

lemma CanTransfer_state: "wf_state s \<Longrightarrow> CanTransfer a x s = (b, t) \<Longrightarrow> quiet s t"
  unfolding CanTransfer_def by (auto split: prod.splits dest: GetBalance_spec)

lemma NewContract_sel:
  "NewContract caller a v g evm = (c, evm') \<Longrightarrow> Gas c = g \<and> kept evm evm' \<and> statedb evm' = statedb evm"
  by (auto simp: NewContract_def split: ContractRef.splits)

lemma load_code_sel:
  assumes "load_code a c evm = (c', evm')" "wf_state (statedb evm)"
  shows "Gas c' = Gas c \<and> kept evm evm' \<and> evolves ro (statedb evm) (statedb evm')"
proof -
  obtain h db where h: "GetCodeHash a (statedb evm) = (h, db)" by fastforce
  obtain k db' where k: "GetCode a db = (k, db')" by fastforce
  have e: "evolves ro (statedb evm) db" using evolves_reads(5) [OF assms(2) h] .
  have "evolves ro (statedb evm) db'" using evolves_trans [OF e evolves_reads(9) [OF evolves_wf [OF e] k]] .
  then show ?thesis using assms(1) h k by (auto simp: load_code_def SetCallCode_def)
qed

text \<open>Run the code of \<open>addr\<close> in a prepared contract.\<close>

lemma load_run_ok:
  assumes "run_ok n run" "wf_state (statedb evm)" "unat (Gas c) < n" "ro \<Longrightarrow> st \<or> readOnly evm"
  shows "call_ok ro (statedb evm) evm (Gas c)
    (case load_code addr c evm of (c, evm) \<Rightarrow> call_run run c input st evm)"
proof -
  obtain c' evm' where l: "load_code addr c evm = (c', evm')" by fastforce
  note sel = load_code_sel [OF l assms(2), of ro]
  then have "call_ok ro (statedb evm') evm' (Gas c') (call_run run c' input st evm')"
    using assms by (intro call_run_ok) (auto simp: kept_def intro: evolves_wf)
  then show ?thesis using l sel by (auto intro: call_ok_state call_ok_kept)
qed

lemma new_run_ok:
  assumes "run_ok n run" "wf_state (statedb evm)" "unat gas < n" "ro \<Longrightarrow> st \<or> readOnly evm"
  shows "call_ok ro (statedb evm) evm gas
    (case NewContract caller a v gas evm of (c, evm) \<Rightarrow>
     case load_code addr c evm of (c, evm) \<Rightarrow> call_run run c input st evm)"
proof -
  obtain c evm' where c: "NewContract caller a v gas evm = (c, evm')" by fastforce
  note sel = NewContract_sel [OF c]
  then have "call_ok ro (statedb evm') evm' (Gas c)
      (case load_code addr c evm' of (c, evm) \<Rightarrow> call_run run c input st evm)"
    using assms by (intro load_run_ok [OF assms(1)]) (auto simp: kept_def)
  then show ?thesis using c sel by (auto intro: call_ok_kept)
qed

lemma dispatch_ok:
  assumes "wf_state (statedb evm)" "call_ok ro (statedb evm) evm gas k"
  shows "call_ok ro (statedb evm) evm gas
    (case precompile rules addr of Some p \<Rightarrow> call_precompile ctx p input gas evm | None \<Rightarrow> k)"
  using assms call_precompile_ok [OF assms(1)] by (simp split: option.split)

lemma call_ok_error:
  "wf_state s \<Longrightarrow> quiet s t \<Longrightarrow> call_ok ro s evm gas (Ret ([], gas, err, evm \<lparr> statedb := t \<rparr>)) \<and>
     undone s (Ret ([], gas, err, evm \<lparr> statedb := t \<rparr>))"
  by (auto simp: call_ok_Ret undone_def quiet_sel intro: evolves_quiet)

lemma call_ok_now:
  "wf_state (statedb evm) \<Longrightarrow> call_ok ro (statedb evm) evm gas (Ret ([], gas, err, evm)) \<and>
     undone (statedb evm) (Ret ([], gas, err, evm))"
  by (auto simp: call_ok_Ret undone_def)

section \<open>The calls\<close>

lemma StaticCall_ok:
  assumes "run_ok n run" "wf_state (statedb evm)" "unat gas < n"
  shows "call_ok True (statedb evm) evm gas (StaticCall ctx run caller addr input gas evm) \<and>
    undone (statedb evm) (StaticCall ctx run caller addr input gas evm)"
proof (cases "depth evm > uint CallCreateDepth")
  case True
  then show ?thesis using call_ok_now [OF assms(2)] by (simp add: StaticCall_def)
next
  case False
  obtain i s1 where s1: "Snapshot (statedb evm) = (i, s1)" by fastforce
  let ?evm = "evm \<lparr> statedb := AddBalance addr 0 s1 \<rparr>"
  have e: "evolves True s1 (statedb ?evm)"
    using evolves_AddBalance_0 [OF sdb.snapshot_wf [OF assms(2) s1]] by simp
  have wf: "wf_state (statedb ?evm)" by (rule evolves_wf [OF e])
  have "call_ok True s1 evm gas (case precompile (chainRules ctx) addr of
      Some p \<Rightarrow> call_precompile ctx p input gas ?evm
    | None \<Rightarrow> (case NewContract caller addr 0 gas ?evm of (contract, evm) \<Rightarrow>
         case load_code addr contract evm of (contract, evm) \<Rightarrow> call_run run contract input True evm))"
    using call_ok_state [OF e dispatch_ok [OF wf new_run_ok [OF assms(1) wf assms(3)]]] by simp
  from finish_call_ok [OF assms(2) s1 this] False s1 show ?thesis by (simp add: StaticCall_def Let_def)
qed

lemma DelegateCall_ok:
  assumes "run_ok n run" "wf_state (statedb evm)" "unat gas < n"
  shows "call_ok (readOnly evm) (statedb evm) evm gas (DelegateCall ctx run (ContractOf parent) addr input gas evm) \<and>
    undone (statedb evm) (DelegateCall ctx run (ContractOf parent) addr input gas evm)"
proof (cases "depth evm > uint CallCreateDepth")
  case True
  then show ?thesis using call_ok_now [OF assms(2)] by (simp add: DelegateCall_def)
next
  case False
  obtain i s1 where s1: "Snapshot (statedb evm) = (i, s1)" by fastforce
  let ?evm = "evm \<lparr> statedb := s1 \<rparr>" and ?a = "selfAddr parent"
  have wf: "wf_state (statedb ?evm)" using sdb.snapshot_wf [OF assms(2) s1] by simp
  obtain c evm' where c: "NewContract (ContractOf parent) ?a 0 gas ?evm = (c, evm')" by fastforce
  note sel = NewContract_sel [OF c]
  define c' where "c' = c \<lparr> CallerAddress := CallerAddress parent, cvalue := cvalue parent \<rparr>"
  have "call_ok (readOnly evm) (statedb evm') evm' (Gas c')
      (case load_code addr c' evm' of (c, evm) \<Rightarrow> call_run run c input False evm)"
    using sel wf assms(3) by (intro load_run_ok [OF assms(1)]) (auto simp: kept_def c'_def)
  then have "call_ok (readOnly evm) (statedb ?evm) ?evm gas
      (case NewContract (ContractOf parent) (ref_Address (ContractOf parent)) 0 gas ?evm of (contract, evm) \<Rightarrow>
         go_bind (AsDelegate (ContractOf parent) contract) (\<lambda>contract.
           case load_code addr contract evm of (contract, evm) \<Rightarrow> call_run run contract input False evm))"
    using sel c by (auto simp: c'_def AsDelegate_def intro: call_ok_kept)
  from finish_call_ok [OF assms(2) s1, of "readOnly evm" evm gas] dispatch_ok [OF wf this] False s1
  show ?thesis by (simp add: DelegateCall_def Let_def)
qed

lemma CallCode_ok:
  assumes "run_ok n run" "wf_state (statedb evm)" "unat gas < n"
  shows "call_ok (readOnly evm) (statedb evm) evm gas (CallCode ctx run caller addr input gas value evm) \<and>
    undone (statedb evm) (CallCode ctx run caller addr input gas value evm)"
proof (cases "depth evm > uint CallCreateDepth")
  case True
  then show ?thesis using call_ok_now [OF assms(2)] by (simp add: CallCode_def)
next
  case False
  obtain can s0 where can: "CanTransfer (ref_Address caller) value (statedb evm) = (can, s0)" by fastforce
  have q: "quiet (statedb evm) s0" using CanTransfer_state [OF assms(2) can] .
  have e0: "evolves (readOnly evm) (statedb evm) s0" using evolves_quiet [OF assms(2) q] .
  show ?thesis
  proof (cases can)
    case True
    obtain i s1 where s1: "Snapshot s0 = (i, s1)" by fastforce
    let ?evm = "evm \<lparr> statedb := s1 \<rparr>"
    have wf: "wf_state (statedb ?evm)" using sdb.snapshot_wf [OF evolves_wf [OF e0] s1] by simp
    have "call_ok (readOnly evm) s1 evm gas (case precompile (chainRules ctx) addr of
        Some p \<Rightarrow> call_precompile ctx p input gas ?evm
      | None \<Rightarrow> (case NewContract caller (ref_Address caller) value gas ?evm of (contract, evm) \<Rightarrow>
           case load_code addr contract evm of (contract, evm) \<Rightarrow> call_run run contract input False evm))"
      using dispatch_ok [OF wf new_run_ok [OF assms(1) wf assms(3), where ro = "readOnly evm" and st = False]] by simp
    from finish_call_ok [OF evolves_wf [OF e0] s1 this] False s1 can True show ?thesis
      using call_ok_state [OF e0] quiet_sel(3) [OF q] by (simp add: CallCode_def Let_def undone_def)
  next
    case cannot: False
    then show ?thesis using False can call_ok_error [OF assms(2) q] by (simp add: CallCode_def)
  qed
qed


text \<open>A plain call needs a zero value in a static call, which the instruction checks.\<close>

lemma code_run_ok:
  assumes "run_ok n run" "wf_state (statedb evm)" "unat gas < n"
  shows "call_ok (readOnly evm) (statedb evm) evm gas (run_code run caller addr input gas value evm)"
proof -
  obtain code db where code: "GetCode addr (statedb evm) = (code, db)" by fastforce
  have e: "evolves (readOnly evm) (statedb evm) db" using evolves_reads(9) [OF assms(2) code] .
  obtain c evm1 where c: "NewContract caller addr value gas (evm \<lparr> statedb := db \<rparr>) = (c, evm1)" by fastforce
  note sel = NewContract_sel [OF c]
  obtain h db' where h: "GetCodeHash addr (statedb evm1) = (h, db')" by fastforce
  have e': "evolves (readOnly evm) (statedb evm) db'"
    using evolves_trans [OF e] evolves_reads(5) [OF _ h] sel evolves_wf [OF e] by simp
  have "call_ok (readOnly evm) db' evm1 gas (call_run run (SetCallCode addr h (code_bytes code) c) input False (evm1 \<lparr> statedb := db' \<rparr>))"
    using call_run_ok [OF assms(1), of "evm1 \<lparr> statedb := db' \<rparr>" "SetCallCode addr h (code_bytes code) c" "readOnly evm" False input]
      sel assms(3) evolves_wf [OF e'] by (simp add: SetCallCode_def kept_def)
  then have "call_ok (readOnly evm) (statedb evm) evm gas
      (call_run run (SetCallCode addr h (code_bytes code) c) input False (evm1 \<lparr> statedb := db' \<rparr>))"
    using call_ok_state [OF e'] call_ok_kept [of evm evm1] sel by auto
  then show ?thesis using code c h e by (simp add: run_code_def call_ok_Ret)
qed

lemma call_prepare:
  assumes "wf_state s" "Exist addr s = (ex, t)" "ro \<Longrightarrow> value = 0"
  shows "evolves ro s (Transfer a addr value (if ex then t else CreateAccount addr t))"
proof -
  have e: "evolves ro s t" using evolves_reads(1) [OF assms(1,2)] .
  have new: "ex \<or> vlive (view t) addr = None"
    using Exist_spec [OF assms(1,2)] quiet_sel(3) [of s t] by auto
  have e': "evolves ro s (if ex then t else CreateAccount addr t)"
    using e new evolves_trans [OF e evolves_CreateAccount [OF evolves_wf [OF e]]] by auto
  show ?thesis using evolves_trans [OF e' evolves_Transfer [OF evolves_wf [OF e']]] assms(3) by blast
qed

lemma Call_ok:
  assumes "run_ok n run" "wf_state (statedb evm)" "unat gas < n" "readOnly evm \<Longrightarrow> value = 0"
  shows "call_ok (readOnly evm) (statedb evm) evm gas (Call ctx run caller addr input gas value evm) \<and>
    undone (statedb evm) (Call ctx run caller addr input gas value evm)"
proof (cases "depth evm > uint CallCreateDepth")
  case True
  then show ?thesis using call_ok_now [OF assms(2)] by (simp add: Call_def)
next
  case False
  let ?ro = "readOnly evm"
  obtain can s0 where can: "(if value \<noteq> 0 then CanTransfer (ref_Address caller) value (statedb evm)
      else (True, statedb evm)) = (can, s0)" by fastforce
  have q: "quiet (statedb evm) s0"
    using can CanTransfer_state [OF assms(2)] assms(2) by (auto simp: wf_state_def split: if_splits)
  have e0: "evolves ?ro (statedb evm) s0" using evolves_quiet [OF assms(2) q] .
  show ?thesis
  proof (cases can)
    case True
    obtain i s1 where s1: "Snapshot s0 = (i, s1)" by fastforce
    have wf1: "wf_state s1" using sdb.snapshot_wf [OF evolves_wf [OF e0] s1] .
    obtain ex s2 where ex: "Exist addr s1 = (ex, s2)" by fastforce
    define s3 where "s3 = Transfer (ref_Address caller) addr value (if ex then s2 else CreateAccount addr s2)"
    have e3: "evolves ?ro s1 s3" unfolding s3_def using call_prepare [OF wf1 ex] assms(4) by blast
    let ?evm = "evm \<lparr> statedb := s3 \<rparr>"
    have wf3: "wf_state (statedb ?evm)" using evolves_wf [OF e3] by simp
    define m where "m = (case precompile (chainRules ctx) addr of Some p \<Rightarrow> call_precompile ctx p input gas ?evm
        | None \<Rightarrow> run_code run caller addr input gas value ?evm)"
    have "call_ok ?ro s1 evm gas m"
      using call_ok_state [OF e3] dispatch_ok [OF wf3 code_run_ok [OF assms(1) wf3 assms(3)]] by (simp add: m_def)
    note fin = finish_call_ok [OF evolves_wf [OF e0] s1 this]
    show ?thesis
    proof (cases "\<not> ex \<and> precompile (chainRules ctx) addr = None \<and> rIsEIP158 (chainRules ctx) \<and> value = 0")
      case True
      have "evolves ?ro (statedb evm) s2"
        using evolves_trans [OF e0 evolves_trans [OF evolves_reads(11) [OF evolves_wf [OF e0] s1]
            evolves_reads(1) [OF wf1 ex]]] .
      then show ?thesis using True False can s1 ex \<open>can\<close> by (auto simp: Call_def Let_def call_ok_Ret undone_def)
    next
      case go: False
      have "Call ctx run caller addr input gas value evm = go_bind m (finish_call i)"
        using go False can \<open>can\<close> s1 ex unfolding Call_def Let_def m_def s3_def by auto
      then show ?thesis using fin call_ok_state [OF e0] quiet_sel(3) [OF q] by (simp add: undone_def)
    qed
  next
    case cannot: False
    then show ?thesis using False can call_ok_error [OF assms(2) q] by (simp add: Call_def)
  qed
qed


section \<open>Creation\<close>

definition create_ok :: "StateDB \<Rightarrow> EVM \<Rightarrow> u64 \<Rightarrow> createRes \<Rightarrow> bool" where
  "create_ok s evm gas m \<longleftrightarrow>
     (case m of
        NoFuel \<Rightarrow> False
      | Panic msg \<Rightarrow> msg \<notin> vm_panics
      | Ret (ret, a, gas', err, evm') \<Rightarrow> unat gas' \<le> unat gas \<and> kept evm evm' \<and> evolves False s (statedb evm'))"

lemma create_ok_Ret:
  "create_ok s evm gas (Ret (ret, a, gas', err, evm')) \<longleftrightarrow>
     unat gas' \<le> unat gas \<and> kept evm evm' \<and> evolves False s (statedb evm')"
  by (simp add: create_ok_def)

lemma create_ok_state: "evolves False s t \<Longrightarrow> create_ok t evm gas m \<Longrightarrow> create_ok s evm gas m"
  by (auto simp: create_ok_def intro: evolves_trans split: go.splits)

lemma create_ok_upd: "create_ok s (evm \<lparr> statedb := db \<rparr>) gas m = create_ok s evm gas m"
  by (auto simp: create_ok_def split: go.splits)

text \<open>From Homestead on, a failed deployment leaves the observable state it started from.\<close>

definition create_undone :: "vmContext \<Rightarrow> StateDB \<Rightarrow> createRes \<Rightarrow> bool" where
  "create_undone ctx s m \<longleftrightarrow> rIsHomestead (chainRules ctx) \<longrightarrow>
     (\<forall>ret a g e evm. m = Ret (ret, a, g, Some e, evm) \<longrightarrow>
        view (statedb evm) = view s \<and> (e = ErrExecutionReverted \<or> g = 0))"

lemma store_code_ok:
  assumes "wf_state (statedb evm)" "store_code ctx a (ret, err, c, evm) = (err', c', evm')"
  shows "unat (Gas c') \<le> unat (Gas c) \<and> kept evm evm' \<and> evolves False (statedb evm) (statedb evm')"
  using assms evolves_writes(4) [OF assms(1)] evolves_refl [OF assms(1)]
  by (auto simp: store_code_def Let_def split: if_splits option.splits dest!: UseGas_Some)

lemma finish_create_ok:
  assumes "wf_state s" "Snapshot s = (i, s1)" "evolves False s1 (statedb evm')" "unat (Gas c) \<le> unat gas" "kept evm evm'"
  shows "create_ok s evm gas (finish_create ctx i a ret (err, c, evm')) \<and>
    create_undone ctx s (finish_create ctx i a ret (err, c, evm'))"
proof -
  have e: "evolves False s (statedb evm')"
    using evolves_trans [OF evolves_reads(11) [OF assms(1,2)] assms(3)] .
  obtain u where "RevertToSnapshot i (statedb evm') = Ret u" "evolves False s u" "view u = view s"
    using evolves_revert [OF assms(1,2) evolves_extends [OF assms(3)]] by blast
  then show ?thesis using e assms(4,5)
    by (auto simp: finish_create_def create_ok_Ret create_undone_def split: option.split)
qed

text \<open>The state right before the snapshot of a creation, and the one its code starts from.\<close>

lemma create_enter:
  assumes "wf_state db"
  shows "evolves False db (if berlin then AddAddressToAccessList b (SetNonce a n db) else SetNonce a n db)"
proof -
  have e: "evolves False db (SetNonce a n db)" using evolves_writes(3) [OF assms] .
  then show ?thesis using evolves_trans [OF e evolves_AddAddress [OF evolves_wf [OF e]]] by simp
qed

lemma create_account:
  assumes "wf_state db"
  shows "evolves False db (Transfer a b x (if eip then SetNonce b 1 (CreateAccount b db) else CreateAccount b db))"
proof -
  have e: "evolves False db (CreateAccount b db)" using evolves_writes(6) [OF assms] .
  then have e': "evolves False db (if eip then SetNonce b 1 (CreateAccount b db) else CreateAccount b db)"
    using evolves_trans [OF e evolves_writes(3) [OF evolves_wf [OF e]]] by simp
  show ?thesis using evolves_trans [OF e' evolves_Transfer [OF evolves_wf [OF e']]] by simp
qed

lemma deploy_ok:
  assumes "run_ok n run" "wf_state (statedb evm)" "unat gas < n" "\<not> readOnly evm"
  shows "create_ok (statedb evm) evm gas (deploy ctx run caller code h gas value a evm) \<and>
    create_undone ctx (statedb evm) (deploy ctx run caller code h gas value a evm)"
proof -
  let ?c = "ref_Address caller"
  obtain i s1 where s1: "Snapshot (statedb evm) = (i, s1)" by fastforce
  define s2 where "s2 = Transfer ?c a value
    (if rIsEIP158 (chainRules ctx) then SetNonce a 1 (CreateAccount a s1) else CreateAccount a s1)"
  have e2: "evolves False s1 s2" unfolding s2_def using create_account [OF sdb.snapshot_wf [OF assms(2) s1]] .
  obtain c evm1 where c: "NewContract caller a value gas (evm \<lparr> statedb := s2 \<rparr>) = (c, evm1)" by fastforce
  note sel = NewContract_sel [OF c]
  define m where "m = run (SetCodeOptionalHash a code h c) [] False evm1"
  have m: "case m of NoFuel \<Rightarrow> False | Panic msg \<Rightarrow> msg \<notin> vm_panics | Ret (ret, err, c', evm') \<Rightarrow>
      unat (Gas c') \<le> unat gas \<and> kept evm evm' \<and> evolves False s2 (statedb evm')"
    using run_okD [OF assms(1), where evm = evm1 and c = "SetCodeOptionalHash a code h c" and input = "[]" and ro = False]
      sel assms(3,4) evolves_wf [OF e2] by (cases m) (auto simp: m_def SetCodeOptionalHash_def kept_def)
  have d: "deploy ctx run caller code h gas value a evm = go_bind m (\<lambda>(ret, err, contract, evm).
      finish_create ctx i a ret (store_code ctx a (ret, err, contract, evm)))"
    using s1 c unfolding deploy_def Let_def m_def s2_def by simp
  show ?thesis
  proof (cases m)
    case (Ret r)
    obtain ret err c' evm' where r: "r = (ret, err, c', evm')" by (metis prod_cases4)
    obtain err2 c2 evm2 where st: "store_code ctx a (ret, err, c', evm') = (err2, c2, evm2)" by (metis prod_cases3)
    have ok: "unat (Gas c') \<le> unat gas" "kept evm evm'" "evolves False s2 (statedb evm')" using m Ret r by auto
    have e': "evolves False s1 (statedb evm')" using evolves_trans [OF e2 ok(3)] .
    have "create_ok (statedb evm) evm gas (finish_create ctx i a ret (err2, c2, evm2)) \<and>
        create_undone ctx (statedb evm) (finish_create ctx i a ret (err2, c2, evm2))"
      using store_code_ok [OF evolves_wf [OF e'] st] ok evolves_trans [OF e'] kept_trans [OF ok(2)]
      by (intro finish_create_ok [OF assms(2) s1]) auto
    then show ?thesis using d Ret r st by simp
  qed (use m d in \<open>auto simp: create_ok_def create_undone_def\<close>)
qed

lemma create_ok:
  assumes "run_ok n run" "wf_state (statedb evm)" "unat gas < n" "\<not> readOnly evm"
  shows "create_ok (statedb evm) evm gas (create ctx run caller code h gas value a evm)"
proof (cases "depth evm > uint CallCreateDepth")
  case True
  then show ?thesis using assms(2) by (auto simp: create_def create_ok_Ret)
next
  case False
  let ?c = "ref_Address caller"
  obtain can s0 where can: "CanTransfer ?c value (statedb evm) = (can, s0)" by fastforce
  have e0: "evolves False (statedb evm) s0" using evolves_quiet [OF assms(2) CanTransfer_state [OF assms(2) can]] .
  obtain nonce s1 where nonce: "GetNonce ?c s0 = (nonce, s1)" by fastforce
  have e1: "evolves False (statedb evm) s1" using evolves_trans [OF e0 evolves_reads(4) [OF evolves_wf [OF e0] nonce]] .
  define s2 where "s2 = (if rIsBerlin (chainRules ctx) then AddAddressToAccessList a (SetNonce ?c (nonce + 1) s1)
     else SetNonce ?c (nonce + 1) s1)"
  have e2: "evolves False (statedb evm) s2"
    unfolding s2_def using evolves_trans [OF e1 create_enter [OF evolves_wf [OF e1]]] .
  obtain ch s3 where ch: "GetCodeHash a s2 = (ch, s3)" by fastforce
  have e3: "evolves False (statedb evm) s3" using evolves_trans [OF e2 evolves_reads(5) [OF evolves_wf [OF e2] ch]] .
  obtain nn s4 where nn: "GetNonce a s3 = (nn, s4)" by fastforce
  have e4: "evolves False (statedb evm) s4" using evolves_trans [OF e3 evolves_reads(4) [OF evolves_wf [OF e3] nn]] .
  have d: "create_ok s4 evm gas (deploy ctx run caller code h gas value a (evm \<lparr> statedb := s4 \<rparr>))"
    using deploy_ok [OF assms(1), of "evm \<lparr> statedb := s4 \<rparr>" gas] evolves_wf [OF e4] assms(3,4) by (simp add: create_ok_upd)
  show ?thesis using False can nonce ch nn e0 e1 e4 create_ok_state [OF e4 d]
    by (auto simp: create_def Let_def s2_def [symmetric] create_ok_Ret)
qed

lemma Create_ok:
  assumes "run_ok n run" "wf_state (statedb evm)" "unat gas < n" "\<not> readOnly evm"
  shows "create_ok (statedb evm) evm gas (Create ctx run caller code gas value evm)"
proof -
  obtain nonce db where g: "GetNonce (ref_Address caller) (statedb evm) = (nonce, db)" by fastforce
  have e: "evolves False (statedb evm) db" using evolves_reads(4) [OF assms(2) g] .
  then show ?thesis
    using g create_ok_state [OF e] create_ok [OF assms(1), of "evm \<lparr> statedb := db \<rparr>" gas] evolves_wf [OF e] assms(3,4)
    by (simp add: Create_def create_ok_upd)
qed

lemma Create2_ok:
  assumes "run_ok n run" "wf_state (statedb evm)" "unat gas < n" "\<not> readOnly evm"
  shows "create_ok (statedb evm) evm gas (Create2 ctx run caller code gas value salt evm)"
  unfolding Create2_def Let_def using create_ok [OF assms] .

end
