(* ===== verification/VM_Exec_Props.thy ===== *)
theory VM_Exec_Props
  imports VM_Call_Props
begin

text \<open>
  Facts about the instructions. The memory an instruction accesses lies within what its memory function
  asks for, so that after the resize no access is out of bounds; with the stack items its table entry
  demands, an instruction finds its operands; it leaves the stack at the height the table entry
  says; the gas of the frame can only fall, except by what a call or creation returns of the gas it
  was given.
\<close>

section \<open>Memory demand\<close>

definition covered :: "nat \<Rightarrow> u256 \<times> u256 \<Rightarrow> bool" where
  "covered n = (\<lambda>(off, l). unat l < 2 ^ 64 \<and> (l \<noteq> 0 \<longrightarrow> unat off + unat l \<le> n))"

fun mem_regions :: "memorySizeFunc \<Rightarrow> vmStack \<Rightarrow> (u256 \<times> u256) list" where
  "mem_regions MemoryKeccak256 st = [(st ! 0, st ! 1)]"
| "mem_regions MemoryCallDataCopy st = [(st ! 0, st ! 2)]"
| "mem_regions MemoryReturnDataCopy st = [(st ! 0, st ! 2)]"
| "mem_regions MemoryCodeCopy st = [(st ! 0, st ! 2)]"
| "mem_regions MemoryExtCodeCopy st = [(st ! 1, st ! 3)]"
| "mem_regions MemoryMLoad st = [(st ! 0, 32)]"
| "mem_regions MemoryMStore8 st = [(st ! 0, 1)]"
| "mem_regions MemoryMStore st = [(st ! 0, 32)]"
| "mem_regions MemoryCreate st = [(st ! 1, st ! 2)]"
| "mem_regions MemoryCreate2 st = [(st ! 1, st ! 2)]"
| "mem_regions MemoryCall st = [(st ! 5, st ! 6), (st ! 3, st ! 4)]"
| "mem_regions MemoryDelegateCall st = [(st ! 4, st ! 5), (st ! 2, st ! 3)]"
| "mem_regions MemoryStaticCall st = [(st ! 4, st ! 5), (st ! 2, st ! 3)]"
| "mem_regions MemoryReturn st = [(st ! 0, st ! 1)]"
| "mem_regions MemoryRevert st = [(st ! 0, st ! 1)]"
| "mem_regions MemoryLog st = [(st ! 0, st ! 1)]"

lemma covered_mono: "covered n r \<Longrightarrow> n \<le> n' \<Longrightarrow> covered n' r"
  by (auto simp: covered_def)

lemma calcMemSize64_covers:
  assumes "calcMemSize64 off l = (n, False)"
  shows "covered (unat n) (off, l)"
proof -
  have l: "IsUint64 l" and n: "calcMemSize64WithUint off (Uint64 l) = (n, False)"
    using assms by (auto simp: calcMemSize64_def split: if_splits)
  have "unat (Uint64 l) = unat l" using unat_Uint64 [OF l] .
  then have "l \<noteq> 0 \<Longrightarrow> Uint64 l \<noteq> 0" by (metis unat_eq_zero)
  then show ?thesis using calcMemSize64WithUint_exact [OF n] \<open>unat (Uint64 l) = unat l\<close> l
    by (auto simp: covered_def IsUint64_def)
qed

lemma calcMemSize64WithUint_covers:
  "calcMemSize64WithUint off k = (n, False) \<Longrightarrow> unat l = unat k \<Longrightarrow> covered (unat n) (off, l)"
  using calcMemSize64WithUint_exact [of off k n] by (auto simp: covered_def unat_eq_zero)

lemma mem_need_covers:
  assumes "i < length st" "j < length st"
  shows "\<exists>n ov. mem_need i j st = Ret (n, ov) \<and> (\<not> ov \<longrightarrow> covered (unat n) (st ! i, st ! j))"
  using assms calcMemSize64_covers [of "st ! i" "st ! j"]
  by (cases "calcMemSize64 (st ! i) (st ! j)") (auto simp: mem_need_def)

lemma mem_need_fixed_covers:
  assumes "i < length st" "unat l = unat k"
  shows "\<exists>n ov. mem_need_fixed i k st = Ret (n, ov) \<and> (\<not> ov \<longrightarrow> covered (unat n) (st ! i, l))"
  using assms calcMemSize64WithUint_covers [of "st ! i" k _ l]
  by (cases "calcMemSize64WithUint (st ! i) k") (auto simp: mem_need_fixed_def)

lemma mem_need2_covers:
  assumes "i < length st" "j < length st" "k < length st" "l < length st"
  shows "\<exists>n ov. mem_need2 i j k l st = Ret (n, ov) \<and>
    (\<not> ov \<longrightarrow> covered (unat n) (st ! i, st ! j) \<and> covered (unat n) (st ! k, st ! l))"
proof -
  obtain x ov where x: "mem_need i j st = Ret (x, ov)" "\<not> ov \<longrightarrow> covered (unat x) (st ! i, st ! j)"
    using mem_need_covers [OF assms(1,2)] by blast
  obtain y ov' where y: "mem_need k l st = Ret (y, ov')" "\<not> ov' \<longrightarrow> covered (unat y) (st ! k, st ! l)"
    using mem_need_covers [OF assms(3,4)] by blast
  show ?thesis
  proof (cases "ov \<or> ov'")
    case True
    then show ?thesis using x(1) y(1) by (cases ov) (auto simp: mem_need2_def)
  next
    case False
    define n where "n = (if x > y then x else y)"
    have "unat x \<le> unat n" "unat y \<le> unat n" by (auto simp: n_def word_less_nat_alt)
    then have "covered (unat n) (st ! i, st ! j)" "covered (unat n) (st ! k, st ! l)"
      using False x(2) y(2) covered_mono by blast+
    moreover have "mem_need2 i j k l st = Ret (n, False)" using False x(1) y(1) by (simp add: mem_need2_def n_def)
    ultimately show ?thesis by blast
  qed
qed

lemmas memory_size_defs = memoryKeccak256_def memoryCallDataCopy_def memoryReturnDataCopy_def memoryCodeCopy_def
  memoryExtCodeCopy_def memoryMLoad_def memoryMStore8_def memoryMStore_def memoryCreate_def memoryCreate2_def
  memoryCall_def memoryDelegateCall_def memoryStaticCall_def memoryReturn_def memoryRevert_def memoryLog_def

lemma memory_size_covers:
  assumes "mem_of ex = Some m" "fst (arity ex) \<le> length st"
  shows "\<exists>n ov. memory_size m st = Ret (n, ov) \<and> (\<not> ov \<longrightarrow> list_all (covered (unat n)) (mem_regions m st))"
proof -
  have one: "\<exists>n ov. mem_need i j st = Ret (n, ov) \<and> (\<not> ov \<longrightarrow> list_all (covered (unat n)) [(st ! i, st ! j)])"
    if "i < length st" "j < length st" for i j using mem_need_covers [OF that] by auto
  have fixed: "\<exists>n ov. mem_need_fixed i k st = Ret (n, ov) \<and> (\<not> ov \<longrightarrow> list_all (covered (unat n)) [(st ! i, l)])"
    if "i < length st" "unat l = unat k" for i k l using mem_need_fixed_covers [OF that] by auto
  have two: "\<exists>n ov. mem_need2 i j k l st = Ret (n, ov) \<and>
      (\<not> ov \<longrightarrow> list_all (covered (unat n)) [(st ! i, st ! j), (st ! k, st ! l)])"
    if "i < length st" "j < length st" "k < length st" "l < length st" for i j k l
    using mem_need2_covers [OF that] by auto
  show ?thesis
    using assms
    by (cases ex) (auto simp: memory_size_defs split: if_splits copyFunc.splits subFunc.splits haltFunc.splits
        simp del: list.pred_inject intro!: one fixed two)
qed


definition demand :: "executionFunc \<Rightarrow> vmStack \<Rightarrow> nat \<Rightarrow> bool" where
  "demand ex st n \<longleftrightarrow> (\<forall>m. mem_of ex = Some m \<longrightarrow> list_all (covered n) (mem_regions m st))"

lemma required_memory_spec:
  assumes "memorySize p = mem_of ex" "fst (arity ex) \<le> length st"
  shows "required_memory p st = Ret None \<or>
    (\<exists>ms. required_memory p st = Ret (Some ms) \<and> 32 dvd unat ms \<and> (mem_of ex = None \<longrightarrow> ms = 0) \<and> demand ex st (unat ms))"
proof (cases "mem_of ex")
  case None
  then show ?thesis using assms(1) by (simp add: required_memory_def demand_def)
next
  case (Some m)
  obtain n ov where n: "memory_size m st = Ret (n, ov)" "\<not> ov \<longrightarrow> list_all (covered (unat n)) (mem_regions m st)"
    using memory_size_covers [OF Some assms(2)] by blast
  obtain ms ov' where ms: "SafeMul (toWordSize n) 32 = (ms, ov')" by fastforce
  show ?thesis
  proof (cases "ov \<or> ov'")
    case True
    then show ?thesis using n(1) ms assms(1) Some by (auto simp: required_memory_def)
  next
    case False
    then have "unat ms = (unat n + 31) div 32 * 32" using SafeMul_exact [of "toWordSize n" 32 ms] ms by (simp add: toWordSize_exact)
    then have "32 dvd unat ms" "unat n \<le> unat ms" by auto
    moreover have "list_all (covered (unat ms)) (mem_regions m st)"
      using n(2) False covered_mono [OF _ \<open>unat n \<le> unat ms\<close>] by (auto simp: list_all_iff)
    ultimately show ?thesis using n(1) ms False assms(1) Some by (auto simp: required_memory_def demand_def)
  qed
qed

lemma covered_covers:
  assumes "mem_inv m" "covered (mem_Len m) (off, l)"
  shows "mem_covers m (Uint64 off) (Uint64 l)"
proof -
  have len: "mem_Len m \<le> max_memory" using assms(1) by (simp add: mem_inv_def)
  have l: "unat (Uint64 l) = unat l" using assms(2) by (intro unat_Uint64) (simp add: covered_def IsUint64_def)
  show ?thesis
  proof (cases "l = 0")
    case True
    then show ?thesis using len l by (simp add: mem_covers_def unat_eq_zero)
  next
    case False
    then have "unat off + unat l \<le> mem_Len m" using assms(2) by (simp add: covered_def)
    moreover from this have "unat (Uint64 off) = unat off" using len by (intro unat_Uint64) (simp add: IsUint64_def)
    ultimately show ?thesis using len l by (simp add: mem_covers_def)
  qed
qed

section \<open>What an instruction does\<close>

definition exec_post :: "executionFunc \<Rightarrow> frame \<Rightarrow> EVM \<Rightarrow> nat \<Rightarrow> execRes \<Rightarrow> bool" where
  "exec_post ex f evm extra r \<longleftrightarrow>
    (case r of
       NoFuel \<Rightarrow> False
     | Panic msg \<Rightarrow> msg \<notin> vm_panics
     | Ret (res, err, f', evm') \<Rightarrow>
         unat (Gas (fcontract f')) \<le> unat (Gas (fcontract f)) + extra \<and> kept evm evm' \<and>
         evolves (readOnly evm) (statedb evm) (statedb evm') \<and> mem_inv (fmem f') \<and>
         (err = None \<longrightarrow> length (fstack f') + fst (arity ex) = length (fstack f) + snd (arity ex)))"

text \<open>What holds when an instruction is reached.\<close>

definition ready :: "executionFunc \<Rightarrow> frame \<Rightarrow> EVM \<Rightarrow> bool" where
  "ready ex f evm \<longleftrightarrow> wf_state (statedb evm) \<and> mem_inv (fmem f) \<and> fst (arity ex) \<le> length (fstack f) \<and>
     demand ex (fstack f) (mem_Len (fmem f)) \<and> (\<forall>n. ex = MakeDup n \<longrightarrow> 0 < n)"

lemma ready_sel:
  assumes "ready ex f evm"
  shows "wf_state (statedb evm)" "mem_inv (fmem f)" "fst (arity ex) \<le> length (fstack f)"
  using assms by (auto simp: ready_def)

lemma post_Ret:
  "exec_post ex f evm x (Ret (res, err, f', evm')) \<longleftrightarrow>
     unat (Gas (fcontract f')) \<le> unat (Gas (fcontract f)) + x \<and> kept evm evm' \<and>
     evolves (readOnly evm) (statedb evm) (statedb evm') \<and> mem_inv (fmem f') \<and>
     (err = None \<longrightarrow> length (fstack f') + fst (arity ex) = length (fstack f) + snd (arity ex))"
  by (simp add: exec_post_def)

lemmas stack_cases = eval_nat_numeral Suc_le_length_iff

lemma exec_bin_op: "\<exists>g. exec_bin ctx b = op_bin g"
  by (cases b) (auto simp: opAdd_def opSub_def opMul_def opDiv_def opSdiv_def opMod_def opSmod_def opExp_def
      opSignExtend_def opLt_def opGt_def opSlt_def opSgt_def opEq_def opAnd_def opOr_def opXor_def opByte_def
      opSHL_def opSHR_def opSAR_def)

lemma exec_tern_op: "\<exists>g. exec_tern ctx t = op_tern g"
  by (cases t) (auto simp: opAddmod_def opMulmod_def)

lemma Bin_post:
  assumes "ready (Bin b) f evm" shows "exec_post (Bin b) f evm 0 (exec_bin ctx b f evm)"
proof -
  obtain g where "exec_bin ctx b = op_bin g" using exec_bin_op by blast
  then show ?thesis using ready_sel [OF assms]
    by (auto simp: stack_cases op_bin_def cont_def post_Ret)
qed

lemma Tern_post:
  assumes "ready (Tern t) f evm" shows "exec_post (Tern t) f evm 0 (exec_tern ctx t f evm)"
proof -
  obtain g where "exec_tern ctx t = op_tern g" using exec_tern_op by blast
  then show ?thesis using ready_sel [OF assms]
    by (auto simp: stack_cases op_tern_def cont_def post_Ret)
qed

lemma op_push_post: "wf_state (statedb evm) \<Longrightarrow> mem_inv (fmem f) \<Longrightarrow> exec_post (Env e) f evm 0 (op_push v f evm)"
  by (auto simp: op_push_def push_def cont_def post_Ret)

lemma Env_post:
  assumes "ready (Env e) f evm" shows "exec_post (Env e) f evm 0 (exec_env ctx e f evm)"
proof -
  note p = op_push_post [OF ready_sel(1,2) [OF assms], of e]
  have panic: "exec_post (Env e) f evm 0 (Panic ''nil pointer dereference'')"
    by (simp add: exec_post_def vm_panics_def)
  show ?thesis
  proof (cases "e = OpSelfBalance")
    case True
    obtain b db where b: "GetBalance (selfAddr (fcontract f)) (statedb evm) = (b, db)" by fastforce
    then show ?thesis using True ready_sel [OF assms] evolves_reads(3) [OF ready_sel(1) [OF assms] b]
      by (simp add: opSelfBalance_def op_push_def push_def cont_def post_Ret)
  next
    case False
    then show ?thesis using p panic
      by (cases e) (auto simp: opAddress_def opOrigin_def opCaller_def opCallValue_def opCallDataSize_def opCodeSize_def
          opGasprice_def opReturnDataSize_def opCoinbase_def opTimestamp_def opNumber_def opDifficulty_def opRandom_def
          opGasLimit_def opChainID_def opBaseFee_def opPc_def opMsize_def opGas_def opPush0_def split: option.split)
  qed
qed


lemma op_top_post:
  assumes "ready (Top t) f evm" "\<And>x v db. g x = (v, db) \<Longrightarrow> evolves (readOnly evm) (statedb evm) db"
  shows "exec_post (Top t) f evm 0 (op_top g f evm)"
  using ready_sel [OF assms(1)] assms(2)
  by (auto simp: stack_cases op_top_def cont_def post_Ret split: prod.split)

lemma getData_cases:
  obtains d where "getData data i n = Ret d" | msg where "getData data i n = Panic msg" "msg \<notin> vm_panics"
  using getData_panic [of data i n] getData_NoFuel [of data i n]
  by (cases "getData data i n") (auto simp: vm_panics_def)

lemma post_panic_msg: "msg \<notin> vm_panics \<Longrightarrow> exec_post ex f evm x (Panic msg)"
  by (simp add: exec_post_def)

lemma region_covers:
  assumes "ready ex f evm" "mem_of ex = Some m" "(off, l) \<in> set (mem_regions m (fstack f))"
  shows "mem_covers (fmem f) (Uint64 off) (Uint64 l)"
  using assms by (intro covered_covers) (auto simp: ready_def demand_def list_all_iff)

lemma Uint64_numeral [simp]: "Uint64 32 = 32" "Uint64 1 = 1" "Uint64 0 = 0"
  by (simp_all add: Uint64_def)

lemma opMload_post:
  assumes "ready (Top OpMload) f evm" shows "exec_post (Top OpMload) f evm 0 (opMload f evm)"
proof -
  obtain v st where st: "fstack f = v # st" using ready_sel(3) [OF assms] by (auto simp: stack_cases)
  have "mem_covers (fmem f) (Uint64 v) 32" using region_covers [OF assms, of MemoryMLoad v 32] st by simp
  then show ?thesis using st ready_sel [OF assms] by (auto simp: opMload_def GetPtr_covers cont_def post_Ret)
qed

lemma opCallDataLoad_post:
  assumes "ready (Top OpCallDataLoad) f evm"
  shows "exec_post (Top OpCallDataLoad) f evm 0 (opCallDataLoad f evm)"
proof -
  obtain x st where st: "fstack f = x # st" using ready_sel(3) [OF assms] by (auto simp: stack_cases)
  obtain off ov where off: "Uint64WithOverflow x = (off, ov)" by fastforce
  show ?thesis
    by (rule getData_cases [of "Input (fcontract f)" off 32])
      (use st off ready_sel [OF assms] in \<open>auto simp: opCallDataLoad_def cont_def post_Ret intro: post_panic_msg\<close>)
qed

lemma Top_post:
  assumes "ready (Top t) f evm" shows "exec_post (Top t) f evm 0 (exec_top ctx t f evm)"
proof -
  note wf = ready_sel(1) [OF assms]
  note top = op_top_post [OF assms]
  show ?thesis
  proof (cases t)
    case OpMload
    then show ?thesis using opMload_post assms by simp
  next
    case OpCallDataLoad
    then show ?thesis using opCallDataLoad_post assms by simp
  next
    case OpExtCodeHash
    have "evolves (readOnly evm) (statedb evm) db"
      if h: "(case Empty a (statedb evm) of (e, db) \<Rightarrow> if e then (0, db) else GetCodeHash a db) = (v, db)" for a v db
    proof -
      obtain e db0 where e: "Empty a (statedb evm) = (e, db0)" by fastforce
      have e0: "evolves (readOnly evm) (statedb evm) db0" using evolves_reads(2) [OF wf e] .
      show ?thesis using h e e0 evolves_trans [OF e0 evolves_reads(5) [OF evolves_wf [OF e0]]]
        by (cases e) auto
    qed
    then have "exec_post (Top t) f evm 0 (opExtCodeHash f evm)" unfolding opExtCodeHash_def by (rule top)
    then show ?thesis using OpExtCodeHash by simp
  qed (use assms evolves_reads(3,7,10) [OF wf] evolves_refl [OF wf] in
      \<open>auto simp: opIszero_def opNot_def opBalance_def opExtCodeSize_def opBlockhash_def opSload_def opTload_def Let_def
        split: prod.splits if_splits intro!: op_top_post\<close>)
qed

section \<open>Copies\<close>

lemma copy_data_post:
  assumes "ready (Copy c) f evm" "mem_covers (fmem f) (Uint64 mo) (Uint64 l)"
    and "length st + fst (arity (Copy c)) = length (fstack f)" "evolves (readOnly evm) (statedb evm) db"
  shows "exec_post (Copy c) f evm 0 (copy_data data mo d l (f \<lparr> fstack := st \<rparr>) (evm \<lparr> statedb := db \<rparr>))"
proof (rule getData_cases [of data "copy_offset d" "Uint64 l"])
  fix b assume b: "getData data (copy_offset d) (Uint64 l) = Ret b"
  obtain m where "mem_Set (Uint64 mo) (Uint64 l) b (fmem f) = Ret m" "mem_Len m = mem_Len (fmem f)"
    "lastGasCost m = lastGasCost (fmem f)"
    using mem_Set_covers [OF assms(2)] by blast
  then show ?thesis using b assms ready_sel(2) [OF assms(1)]
    by (auto simp: copy_data_def cont_def post_Ret mem_inv_def)
qed (auto simp: copy_data_def intro: post_panic_msg)

lemma opReturnDataCopy_post:
  assumes "ready (Copy OpReturnDataCopy) f evm"
  shows "exec_post (Copy OpReturnDataCopy) f evm 0 (opReturnDataCopy f evm)"
proof -
  obtain mo d l st where st: "fstack f = mo # d # l # st" using ready_sel(3) [OF assms] by (auto simp: stack_cases)
  have "mem_covers (fmem f) (Uint64 mo) (Uint64 l)"
    using region_covers [OF assms, of MemoryReturnDataCopy mo l] st by simp
  then have m: "\<exists>m. mem_Set (Uint64 mo) (Uint64 l) b (fmem f) = Ret m \<and>
      mem_Len m = mem_Len (fmem f) \<and> lastGasCost m = lastGasCost (fmem f)" for b
    by (rule mem_Set_covers)
  obtain o64 ov where a: "Uint64WithOverflow d = (o64, ov)" by fastforce
  obtain e64 ov' where b: "Uint64WithOverflow (d + l) = (e64, ov')" by fastforce
  let ?err = "ov \<or> ov' \<or> len64 (returnData evm) < e64"
  show ?thesis
  proof (cases "slice (returnData evm) (unat o64) (unat e64)")
    case (Ret x)
    then show ?thesis using st a b ready_sel [OF assms] m [of x]
      by (auto simp: opReturnDataCopy_def Let_def fail_def cont_def post_Ret mem_inv_def)
  next
    case (Panic msg)
    then have "msg \<notin> vm_panics" by (auto simp: slice_def vm_panics_def split: if_splits)
    then show ?thesis using Panic st a b ready_sel [OF assms]
      by (auto simp: opReturnDataCopy_def Let_def fail_def post_Ret post_panic_msg)
  qed (simp add: slice_def split: if_splits)
qed

lemma Copy_post:
  assumes "ready (Copy c) f evm" shows "exec_post (Copy c) f evm 0 (exec_copy c f evm)"
proof (cases c)
  case OpReturnDataCopy
  then show ?thesis using opReturnDataCopy_post assms by simp
next
  case OpExtCodeCopy
  obtain a mo d l st where st: "fstack f = a # mo # d # l # st"
    using ready_sel(3) [OF assms] OpExtCodeCopy by (auto simp: stack_cases)
  obtain code db where code: "GetCode (Bytes20 a) (statedb evm) = (code, db)" by fastforce
  show ?thesis
    using copy_data_post [OF assms region_covers [OF assms, of MemoryExtCodeCopy mo l], of st]
      evolves_reads(9) [OF ready_sel(1) [OF assms] code] st code OpExtCodeCopy by (simp add: opExtCodeCopy_def)
next
  case OpCodeCopy
  obtain mo d l st where st: "fstack f = mo # d # l # st"
    using ready_sel(3) [OF assms] OpCodeCopy by (auto simp: stack_cases)
  show ?thesis
    using copy_data_post [OF assms region_covers [OF assms, of MemoryCodeCopy mo l], of st "statedb evm"]
      evolves_refl [OF ready_sel(1) [OF assms]] st OpCodeCopy by (simp add: opCodeCopy_def)
next
  case OpCallDataCopy
  obtain mo d l st where st: "fstack f = mo # d # l # st"
    using ready_sel(3) [OF assms] OpCallDataCopy by (auto simp: stack_cases)
  show ?thesis
    using copy_data_post [OF assms region_covers [OF assms, of MemoryCallDataCopy mo l], of st "statedb evm"]
      evolves_refl [OF ready_sel(1) [OF assms]] st OpCallDataCopy by (simp add: opCallDataCopy_def)
qed

section \<open>The end of a frame\<close>

lemma Halt_post:
  assumes "ready (Halt h) f evm" shows "exec_post (Halt h) f evm 0 (exec_halt h f evm)"
proof (cases h)
  case OpReturn
  then obtain o1 l st where st: "fstack f = o1 # l # st" using ready_sel(3) [OF assms] by (auto simp: stack_cases)
  have "mem_covers (fmem f) (Uint64 o1) (Uint64 l)"
    using region_covers [OF assms, of MemoryReturn o1 l] st OpReturn by simp
  then show ?thesis using OpReturn st ready_sel [OF assms] by (auto simp: opReturn_def GetPtr_covers post_Ret)
next
  case OpRevert
  then obtain o1 l st where st: "fstack f = o1 # l # st" using ready_sel(3) [OF assms] by (auto simp: stack_cases)
  have "mem_covers (fmem f) (Uint64 o1) (Uint64 l)"
    using region_covers [OF assms, of MemoryRevert o1 l] st OpRevert by simp
  then show ?thesis using OpRevert st ready_sel [OF assms] by (auto simp: opRevert_def GetPtr_covers post_Ret)
next
  case OpSelfdestruct
  then obtain b st where st: "fstack f = b # st" using ready_sel(3) [OF assms] by (auto simp: stack_cases)
  obtain bal db where bal: "GetBalance (selfAddr (fcontract f)) (statedb evm) = (bal, db)" by fastforce
  have e: "evolves False (statedb evm) db" using evolves_reads(3) [OF ready_sel(1) [OF assms] bal] .
  let ?db = "AddBalance (Bytes20 b) bal db"
  have e2: "evolves False (statedb evm) ?db" using evolves_trans [OF e evolves_writes(1) [OF evolves_wf [OF e]]] .
  have "evolves False (statedb evm) (snd (Suicide (selfAddr (fcontract f)) ?db))"
    using evolves_trans [OF e2 evolves_writes(9) [OF evolves_wf [OF e2]]] .
  then show ?thesis using OpSelfdestruct st bal ready_sel [OF assms]
    by (auto simp: opSelfdestruct_def fail_def post_Ret Let_def)
qed (use ready_sel [OF assms] in \<open>auto simp: opStop_def opUndefined_def fail_def post_Ret vm_panics_def intro: post_panic_msg\<close>)


section \<open>Memory, storage, jumps\<close>

lemma codeSegment_cases:
  obtains b where "codeSegment bits i = Ret b" | "codeSegment bits i = Panic ''index out of range''"
  by (cases "i div 8 < length bits") (auto simp: codeSegment_def)

lemma isCode_cases:
  assumes "unat udest < length (Code c)"
  obtains "isCode udest c evm = Panic ''index out of range''"
  | b c' evm' where "isCode udest c evm = Ret (b, c', evm')" "Gas c' = Gas c" "kept evm evm'" "statedb evm' = statedb evm"
proof -
  obtain bits where b: "codeBitmap (Code c) = Ret bits" using codeBitmap_segment [OF assms] by blast
  show thesis
  proof (cases "canalysis c")
    case (Some bs)
    then show thesis
      by (rule_tac codeSegment_cases [of bs "unat udest"]) (auto simp: isCode_def intro: that)
  next
    case None
    define r where "r = (case jumpdests evm (CodeHash c) of Some bits \<Rightarrow> (bits, evm)
       | None \<Rightarrow> (bits, evm \<lparr> jumpdests := (jumpdests evm)(CodeHash c \<mapsto> bits) \<rparr>))"
    have "kept evm (snd r)" "statedb (snd r) = statedb evm" by (auto simp: r_def split: option.split)
    then show thesis
      by (rule_tac codeSegment_cases [of "if CodeHash c \<noteq> 0 then fst r else bits" "unat udest"])
        (auto simp: isCode_def None b r_def split: option.splits if_splits intro: that)
  qed
qed

lemma validJumpdest_cases:
  obtains "validJumpdest dest c evm = Panic ''index out of range''"
  | b c' evm' where "validJumpdest dest c evm = Ret (b, c', evm')" "Gas c' = Gas c" "kept evm evm'" "statedb evm' = statedb evm"
proof -
  obtain u ov where u: "Uint64WithOverflow dest = (u, ov)" by fastforce
  show thesis
  proof (cases "ov \<or> u \<ge> len64 (Code c) \<or> Code c ! unat u \<noteq> OP_JUMPDEST")
    case True
    then show thesis using u by (intro that(2) [of False c evm]) (auto simp: validJumpdest_def)
  next
    case False
    then have v: "validJumpdest dest c evm = isCode u c evm" using u by (simp add: validJumpdest_def)
    have "unat u < unat (len64 (Code c))" using False by (simp add: word_less_nat_alt not_le)
    also have "\<dots> \<le> length (Code c)" by (simp add: len64_def unat_of_nat)
    finally show thesis using v by (rule_tac isCode_cases [of u c evm]) (auto intro: that)
  qed
qed

lemma jump_to_post:
  assumes "wf_state (statedb evm)" "mem_inv (fmem f)" "length st + fst (arity ex) = length (fstack f)" "snd (arity ex) = 0"
  shows "exec_post ex f evm 0 (jump_to pos (f \<lparr> fstack := st \<rparr>) evm)"
  using validJumpdest_cases [of pos "fcontract f" evm] assms
  by (rule_tac validJumpdest_cases [of pos "fcontract f" evm])
    (auto simp: jump_to_def Let_def fail_def cont_def post_Ret intro!: post_panic_msg simp: vm_panics_def)

lemma jump_post:
  "ready OpJump f evm \<Longrightarrow> exec_post OpJump f evm 0 (opJump ctx f evm)"
  "ready OpJumpi f evm \<Longrightarrow> exec_post OpJumpi f evm 0 (opJumpi ctx f evm)"
  using ready_sel [of OpJump f evm] ready_sel [of OpJumpi f evm]
  by (auto simp: opJump_def opJumpi_def stack_cases fail_def cont_def post_Ret intro!: jump_to_post)

lemma storage_post:
  "ready OpSstore f evm \<Longrightarrow> exec_post OpSstore f evm 0 (opSstore f evm)"
  "ready OpTstore f evm \<Longrightarrow> exec_post OpTstore f evm 0 (opTstore f evm)"
  using ready_sel [of OpSstore f evm] ready_sel [of OpTstore f evm] evolves_writes(5,7) [of "statedb evm"]
  by (auto simp: opSstore_def opTstore_def stack_cases fail_def cont_def post_Ret)

lemma opKeccak256_post:
  assumes "ready OpKeccak256 f evm" shows "exec_post OpKeccak256 f evm 0 (opKeccak256 ctx f evm)"
proof -
  obtain o1 l st where st: "fstack f = o1 # l # st" using ready_sel(3) [OF assms] by (auto simp: stack_cases)
  have "mem_covers (fmem f) (Uint64 o1) (Uint64 l)"
    using region_covers [OF assms, of MemoryKeccak256 o1 l] st by simp
  then show ?thesis using st ready_sel [OF assms] evolves_AddPreimage [OF ready_sel(1) [OF assms]]
    by (auto simp: opKeccak256_def GetPtr_covers cont_def post_Ret Let_def)
qed

lemma opMstore_post:
  assumes "ready OpMstore f evm" shows "exec_post OpMstore f evm 0 (opMstore f evm)"
proof -
  obtain o1 v st where st: "fstack f = o1 # v # st" using ready_sel(3) [OF assms] by (auto simp: stack_cases)
  have "mem_covers (fmem f) (Uint64 o1) 32"
    using region_covers [OF assms, of MemoryMStore o1 32] st by simp
  from mem_Set32_covers [OF this, of v] obtain m where "mem_Set32 (Uint64 o1) v (fmem f) = Ret m"
    "mem_Len m = mem_Len (fmem f)" "lastGasCost m = lastGasCost (fmem f)" by blast
  then show ?thesis using st ready_sel [OF assms] by (auto simp: opMstore_def cont_def post_Ret mem_inv_def)
qed

lemma opMstore8_post:
  assumes "ready OpMstore8 f evm" shows "exec_post OpMstore8 f evm 0 (opMstore8 f evm)"
proof -
  obtain o1 v st where st: "fstack f = o1 # v # st" using ready_sel(3) [OF assms] by (auto simp: stack_cases)
  have "mem_covers (fmem f) (Uint64 o1) 1"
    using region_covers [OF assms, of MemoryMStore8 o1 1] st by simp
  then have "unat (Uint64 o1) < mem_Len (fmem f)" by (simp add: mem_covers_def)
  then show ?thesis using st ready_sel [OF assms]
    by (auto simp: opMstore8_def cont_def post_Ret mem_inv_def mem_Len_def Let_def)
qed

lemma makeLog_post:
  assumes "ready (MakeLog n) f evm" shows "exec_post (MakeLog n) f evm 0 (makeLog ctx n f evm)"
proof -
  obtain o1 l st where st: "fstack f = o1 # l # st" "n \<le> length st" using ready_sel(3) [OF assms] by (auto simp: stack_cases)
  have "mem_covers (fmem f) (Uint64 o1) (Uint64 l)"
    using region_covers [OF assms, of MemoryLog o1 l] st by simp
  then show ?thesis using st ready_sel [OF assms] evolves_writes(8) [OF ready_sel(1) [OF assms]]
    by (auto simp: makeLog_def GetCopy_covers GetPtr_covers cont_def fail_def post_Ret)
qed

lemma push_post:
  "ready OpPush1 f evm \<Longrightarrow> exec_post OpPush1 f evm 0 (opPush1 f evm)"
  "ready (MakePush sz n) f evm \<Longrightarrow> exec_post (MakePush sz n) f evm 0 (makePush sz n f evm)"
  using ready_sel [of OpPush1 f evm] ready_sel [of "MakePush sz n" f evm]
  by (auto simp: opPush1_def makePush_def op_push_def push_def cont_def slice_def post_Ret Let_def vm_panics_def intro!: post_panic_msg)

lemma stack_post:
  "ready OpPop f evm \<Longrightarrow> exec_post OpPop f evm 0 (opPop f evm)"
  "ready OpJumpdest f evm \<Longrightarrow> exec_post OpJumpdest f evm 0 (opJumpdest f evm)"
  "ready (MakeDup n) f evm \<Longrightarrow> exec_post (MakeDup n) f evm 0 (makeDup n f evm)"
  "ready (MakeSwap n) f evm \<Longrightarrow> exec_post (MakeSwap n) f evm 0 (makeSwap n f evm)"
  by (auto simp: ready_def opPop_def opJumpdest_def makeDup_def makeSwap_def dup_def swap_def push_def cont_def stack_cases
      post_Ret)


section \<open>Calls and creations\<close>

lemma after_call_post:
  assumes "call_ok ro (statedb evm) evm g m" "readOnly evm \<Longrightarrow> ro"
    and "mem_inv (fmem f)" "mem_covers (fmem f) (Uint64 a) (Uint64 l)"
    and "length st + fst (arity ex) = length (fstack f)" "snd (arity ex) = 1"
    and "unat (Gas (fcontract f)) + unat g < 2 ^ 64"
  shows "exec_post ex f evm (unat g) (go_bind m (after_call a l st f))"
proof (cases m)
  case (Ret r)
  obtain ret g' err evm' where r: "r = (ret, g', err, evm')" by (metis prod_cases4)
  have ok: "unat g' \<le> unat g" "kept evm evm'" "evolves ro (statedb evm) (statedb evm')"
    using assms(1) Ret r by (auto simp: call_ok_def)
  have sum: "unat (Gas (fcontract f) + g') = unat (Gas (fcontract f)) + unat g'"
    using assms(7) ok(1) by (intro unat_add_small) simp
  obtain m' where m': "mem_Set (Uint64 a) (Uint64 l) ret (fmem f) = Ret m'" "mem_Len m' = mem_Len (fmem f)"
      "lastGasCost m' = lastGasCost (fmem f)"
    using mem_Set_covers [OF assms(4)] by blast
  have "mem_inv m'" using m' assms(3) by (simp add: mem_inv_def)
  then show ?thesis using Ret r ok sum m'(1) assms(3,5,6) evolves_weaken [OF ok(3) assms(2)]
    by (auto simp: after_call_def post_Ret give_back_def push_def)
qed (use assms(1) in \<open>auto simp: call_ok_def exec_post_def\<close>)

definition sub_gas :: "subFunc \<Rightarrow> frame \<Rightarrow> EVM \<Rightarrow> u64" where
  "sub_gas s f evm = (case s of
      OpCall \<Rightarrow> stipend (fstack f ! 2) (callGasTemp evm)
    | OpCallCode \<Rightarrow> stipend (fstack f ! 2) (callGasTemp evm)
    | OpDelegateCall \<Rightarrow> callGasTemp evm
    | OpStaticCall \<Rightarrow> callGasTemp evm
    | _ \<Rightarrow> 0)"

text \<open>A runner for the gas of the frame and of the callee, without wrap-around when gas comes back.\<close>

definition sub_ready :: "nat \<Rightarrow> runner \<Rightarrow> subFunc \<Rightarrow> frame \<Rightarrow> EVM \<Rightarrow> bool" where
  "sub_ready n run s f evm \<longleftrightarrow> run_ok n run \<and> unat (Gas (fcontract f)) < n \<and> unat (sub_gas s f evm) < n \<and>
     unat (Gas (fcontract f)) + unat (sub_gas s f evm) < 2 ^ 64"

lemma seven:
  assumes "7 \<le> length st"
  obtains a b c d e g h st' where "st = a # b # c # d # e # g # h # st'"
  using assms by (auto simp: stack_cases)

lemma six:
  assumes "6 \<le> length st"
  obtains a b c d e g st' where "st = a # b # c # d # e # g # st'"
  using assms by (auto simp: stack_cases)

lemma opCall_post:
  assumes r: "ready (Sub OpCall) f evm" and s: "sub_ready n run OpCall f evm"
  shows "exec_post (Sub OpCall) f evm (unat (sub_gas OpCall f evm)) (opCall ctx run f evm)"
proof -
  have "7 \<le> length (fstack f)" using ready_sel(3) [OF r] by simp
  then obtain temp addr v io il ro rl st where st: "fstack f = temp # addr # v # io # il # ro # rl # st"
    by (rule seven)
  have cov: "mem_covers (fmem f) (Uint64 io) (Uint64 il)" "mem_covers (fmem f) (Uint64 ro) (Uint64 rl)"
    using region_covers [OF r, of MemoryCall] st by auto
  show ?thesis
  proof (cases "readOnly evm \<and> v \<noteq> 0")
    case True
    then show ?thesis using st cov ready_sel [OF r] by (auto simp: opCall_def GetPtr_covers fail_def post_Ret)
  next
    case False
    let ?g = "stipend v (callGasTemp evm)"
    have g: "sub_gas OpCall f evm = ?g" using st by (simp add: sub_gas_def)
    have "call_ok (readOnly evm) (statedb evm) evm ?g
        (Call ctx run (ContractOf (fcontract f)) (Bytes20 addr) b ?g (ToBig v) evm)" for b
      using s g ready_sel(1) [OF r] False by (intro conjunct1 [OF Call_ok]) (auto simp: sub_ready_def ToBig_def)
    from after_call_post [OF this _ ready_sel(2) [OF r] cov(2), of st "Sub OpCall"] s
    show ?thesis using False st cov(1) g by (auto simp: opCall_def GetPtr_covers sub_ready_def)
  qed
qed

lemma opCallCode_post:
  assumes r: "ready (Sub OpCallCode) f evm" and s: "sub_ready n run OpCallCode f evm"
  shows "exec_post (Sub OpCallCode) f evm (unat (sub_gas OpCallCode f evm)) (opCallCode ctx run f evm)"
proof -
  have "7 \<le> length (fstack f)" using ready_sel(3) [OF r] by simp
  then obtain temp addr v io il ro rl st where st: "fstack f = temp # addr # v # io # il # ro # rl # st"
    by (rule seven)
  have cov: "mem_covers (fmem f) (Uint64 io) (Uint64 il)" "mem_covers (fmem f) (Uint64 ro) (Uint64 rl)"
    using region_covers [OF r, of MemoryCall] st by auto
  let ?g = "stipend v (callGasTemp evm)"
  have g: "sub_gas OpCallCode f evm = ?g" using st by (simp add: sub_gas_def)
  have "call_ok (readOnly evm) (statedb evm) evm ?g
      (CallCode ctx run (ContractOf (fcontract f)) (Bytes20 addr) b ?g (ToBig v) evm)" for b
    using s g ready_sel(1) [OF r] by (intro conjunct1 [OF CallCode_ok]) (auto simp: sub_ready_def)
  from after_call_post [OF this _ ready_sel(2) [OF r] cov(2), of st "Sub OpCallCode"] s
  show ?thesis using st cov(1) g by (simp add: opCallCode_def GetPtr_covers sub_ready_def)
qed

lemma opDelegateCall_post:
  assumes r: "ready (Sub OpDelegateCall) f evm" and s: "sub_ready n run OpDelegateCall f evm"
  shows "exec_post (Sub OpDelegateCall) f evm (unat (sub_gas OpDelegateCall f evm)) (opDelegateCall ctx run f evm)"
proof -
  have "6 \<le> length (fstack f)" using ready_sel(3) [OF r] by simp
  then obtain temp addr io il ro rl st where st: "fstack f = temp # addr # io # il # ro # rl # st" by (rule six)
  have cov: "mem_covers (fmem f) (Uint64 io) (Uint64 il)" "mem_covers (fmem f) (Uint64 ro) (Uint64 rl)"
    using region_covers [OF r, of MemoryDelegateCall] st by auto
  have g: "sub_gas OpDelegateCall f evm = callGasTemp evm" by (simp add: sub_gas_def)
  have "call_ok (readOnly evm) (statedb evm) evm (callGasTemp evm)
      (DelegateCall ctx run (ContractOf (fcontract f)) (Bytes20 addr) b (callGasTemp evm) evm)" for b
    using s g ready_sel(1) [OF r] by (intro conjunct1 [OF DelegateCall_ok]) (auto simp: sub_ready_def)
  from after_call_post [OF this _ ready_sel(2) [OF r] cov(2), of st "Sub OpDelegateCall"] s
  show ?thesis using st cov(1) g by (simp add: opDelegateCall_def GetPtr_covers sub_ready_def)
qed

lemma opStaticCall_post:
  assumes r: "ready (Sub OpStaticCall) f evm" and s: "sub_ready n run OpStaticCall f evm"
  shows "exec_post (Sub OpStaticCall) f evm (unat (sub_gas OpStaticCall f evm)) (opStaticCall ctx run f evm)"
proof -
  have "6 \<le> length (fstack f)" using ready_sel(3) [OF r] by simp
  then obtain temp addr io il ro rl st where st: "fstack f = temp # addr # io # il # ro # rl # st" by (rule six)
  have cov: "mem_covers (fmem f) (Uint64 io) (Uint64 il)" "mem_covers (fmem f) (Uint64 ro) (Uint64 rl)"
    using region_covers [OF r, of MemoryStaticCall] st by auto
  have g: "sub_gas OpStaticCall f evm = callGasTemp evm" by (simp add: sub_gas_def)
  have "call_ok True (statedb evm) evm (callGasTemp evm)
      (StaticCall ctx run (ContractOf (fcontract f)) (Bytes20 addr) b (callGasTemp evm) evm)" for b
    using s g ready_sel(1) [OF r] by (intro conjunct1 [OF StaticCall_ok]) (auto simp: sub_ready_def)
  from after_call_post [OF this _ ready_sel(2) [OF r] cov(2), of st "Sub OpStaticCall"] s
  show ?thesis using st cov(1) g by (simp add: opStaticCall_def GetPtr_covers sub_ready_def)
qed


lemma create_gas_le: "create_gas b g \<le> g"
  by (auto simp: create_gas_def word_le_nat_alt unat_sub_u64 unat_div)

lemma after_create_post:
  assumes "create_ok (statedb evm) evm g m" "\<not> readOnly evm" "g \<le> Gas (fcontract f)" "mem_inv (fmem f)"
    and "length st + fst (arity ex) = length (fstack f)" "snd (arity ex) = 1"
  shows "exec_post ex f evm 0 (go_bind m (\<lambda>(res, addr, returnGas, suberr, evm).
    after_create (b suberr) st (f \<lparr> fstack := st, fcontract := spend g (fcontract f) \<rparr>) (res, addr, returnGas, suberr, evm)))"
proof (cases m)
  case (Ret r)
  obtain ret a g' err evm' where r: "r = (ret, a, g', err, evm')" by (metis prod_cases5)
  have ok: "unat g' \<le> unat g" "kept evm evm'" "evolves False (statedb evm) (statedb evm')"
    using assms(1) Ret r by (auto simp: create_ok_def)
  have sp: "spend g (fcontract f) = (fcontract f) \<lparr> Gas := Gas (fcontract f) - g \<rparr>"
    using assms(3) by (simp add: spend_def UseGas_def)
  have le: "unat g \<le> unat (Gas (fcontract f))" using assms(3) by (simp add: word_le_nat_alt)
  then have sum: "unat (Gas (fcontract f) - g) + unat g' \<le> unat (Gas (fcontract f))"
    using ok(1) unat_sub_u64 [OF assms(3)] by linarith
  then have "unat (Gas (fcontract f) - g) + unat g' < 2 ^ 64" by (rule le_less_trans) simp
  then have "unat (Gas (fcontract f) - g + g') \<le> unat (Gas (fcontract f))"
    using sum by (simp add: unat_add_small)
  then show ?thesis using Ret r ok assms(2,4,5,6) sp
    by (auto simp: after_create_def give_back_def push_def cont_def post_Ret Let_def)
qed (use assms(1) in \<open>auto simp: create_ok_def exec_post_def\<close>)

lemma opCreate_post:
  assumes r: "ready (Sub OpCreate) f evm" and s: "sub_ready n run OpCreate f evm"
  shows "exec_post (Sub OpCreate) f evm 0 (opCreate ctx run f evm)"
proof (cases "readOnly evm")
  case True
  then show ?thesis using ready_sel [OF r] by (auto simp: opCreate_def fail_def post_Ret)
next
  case False
  obtain v o1 l st where st: "fstack f = v # o1 # l # st" using ready_sel(3) [OF r] by (auto simp: stack_cases)
  have cov: "mem_covers (fmem f) (Uint64 o1) (Uint64 l)" using region_covers [OF r, of MemoryCreate] st by auto
  let ?g = "create_gas (rIsEIP150 (chainRules ctx)) (Gas (fcontract f))"
  have "unat ?g < n"
    using s create_gas_le [of _ "Gas (fcontract f)", unfolded word_le_nat_alt] by (meson le_less_trans sub_ready_def)
  then have "create_ok (statedb evm) evm ?g (Create ctx run c b ?g (ToBig v) evm)" for c b
    using s ready_sel(1) [OF r] False by (intro Create_ok) (auto simp: sub_ready_def)
  from after_create_post [OF this False create_gas_le ready_sel(2) [OF r], of st "Sub OpCreate"]
  show ?thesis using False st cov by (simp add: opCreate_def GetCopy_covers GetPtr_covers Let_def)
qed

lemma opCreate2_post:
  assumes r: "ready (Sub OpCreate2) f evm" and s: "sub_ready n run OpCreate2 f evm"
  shows "exec_post (Sub OpCreate2) f evm 0 (opCreate2 ctx run f evm)"
proof (cases "readOnly evm")
  case True
  then show ?thesis using ready_sel [OF r] by (auto simp: opCreate2_def fail_def post_Ret)
next
  case False
  obtain v o1 l salt st where st: "fstack f = v # o1 # l # salt # st" using ready_sel(3) [OF r] by (auto simp: stack_cases)
  have cov: "mem_covers (fmem f) (Uint64 o1) (Uint64 l)" using region_covers [OF r, of MemoryCreate2] st by auto
  let ?g = "create_gas True (Gas (fcontract f))"
  have "unat ?g < n"
    using s create_gas_le [of _ "Gas (fcontract f)", unfolded word_le_nat_alt] by (meson le_less_trans sub_ready_def)
  then have "create_ok (statedb evm) evm ?g (Create2 ctx run c b ?g (ToBig v) salt evm)" for c b
    using s ready_sel(1) [OF r] False by (intro Create2_ok) (auto simp: sub_ready_def)
  from after_create_post [OF this False create_gas_le ready_sel(2) [OF r], of st "Sub OpCreate2"]
  show ?thesis using False st cov by (simp add: opCreate2_def GetCopy_covers GetPtr_covers Let_def)
qed

lemma Sub_post:
  assumes "ready (Sub s) f evm" "sub_ready n run s f evm"
  shows "exec_post (Sub s) f evm (unat (sub_gas s f evm)) (exec_sub ctx run s f evm)"
proof -
  have z: "sub_gas OpCreate f evm = 0" "sub_gas OpCreate2 f evm = 0" by (simp_all add: sub_gas_def)
  show ?thesis using assms z
    by (cases s) (simp_all add: opCall_post opCallCode_post opDelegateCall_post opStaticCall_post opCreate_post opCreate2_post)
qed

section \<open>All instructions\<close>

definition extra_gas :: "executionFunc \<Rightarrow> frame \<Rightarrow> EVM \<Rightarrow> nat" where
  "extra_gas ex f evm = (case ex of Sub s \<Rightarrow> unat (sub_gas s f evm) | _ \<Rightarrow> 0)"

lemma exec_post_all:
  assumes "ready ex f evm" "\<And>s. ex = Sub s \<Longrightarrow> sub_ready n run s f evm"
  shows "exec_post ex f evm (extra_gas ex f evm) (exec ctx run ex f evm)"
proof (cases ex)
  case (Sub s)
  then show ?thesis using Sub_post assms by (simp add: extra_gas_def)
qed (use assms in \<open>simp_all add: extra_gas_def Bin_post Tern_post Env_post Top_post Copy_post Halt_post jump_post
    storage_post opKeccak256_post opMstore_post opMstore8_post makeLog_post push_post stack_post\<close>)

end
