(* ===== verification/VM_Run_Props.thy ===== *)
theory VM_Run_Props
  imports VM_Exec_Props
begin

text \<open>
  Facts about the interpreter: one iteration of the loop, run on a consistent instruction table, hits no
  bounds panic and, if it continues, has strictly less gas; so the loop ends, and the methods that run
  contracts keep their promises (\<open>run_ok\<close>) with any fuel above the gas supplied.
\<close>

definition vm_ok :: "vmContext \<Rightarrow> bool" where
  "vm_ok ctx \<longleftrightarrow> table_ok (jumpTable ctx) \<and>
     (\<forall>b h. dynamicGas (jumpTable ctx b) = Some (GasCallVariantEIP2929 h) \<longrightarrow> rIsEIP150 (chainRules ctx))"

section \<open>Dynamic gas\<close>

definition charged :: "operation \<Rightarrow> frame \<Rightarrow> EVM \<Rightarrow> frame \<Rightarrow> EVM \<Rightarrow> bool" where
  "charged p f evm f' evm' \<longleftrightarrow> ready (execute p) f' evm' \<and> fstack f' = fstack f \<and> kept evm evm' \<and>
     evolves (readOnly evm) (statedb evm) (statedb evm') \<and>
     (case dynamicGas p of
        None \<Rightarrow> Gas (fcontract f') = Gas (fcontract f)
      | Some _ \<Rightarrow> \<exists>g. unat (Gas (fcontract f')) + unat g = unat (Gas (fcontract f)) \<and> gas_bound (execute p) f' g evm')"

lemma charge_dynamic_post:
  assumes "op_ok p" "wf_state (statedb evm)" "mem_inv (fmem f)" "fst (arity (execute p)) \<le> length (fstack f)"
    and "\<forall>h. dynamicGas p = Some (GasCallVariantEIP2929 h) \<longrightarrow> rIsEIP150 (chainRules ctx)"
  shows "case charge_dynamic ctx p f evm of
      NoFuel \<Rightarrow> False
    | Panic msg \<Rightarrow> msg \<notin> vm_panics
    | Ret (Inl (e, f', evm')) \<Rightarrow> unat (Gas (fcontract f')) \<le> unat (Gas (fcontract f)) \<and> kept evm evm' \<and>
        evolves (readOnly evm) (statedb evm) (statedb evm')
    | Ret (Inr (f', evm')) \<Rightarrow> charged p f evm f' evm'"
proof (cases "dynamicGas p")
  case None
  have "mem_of (execute p) = None"
    using assms(1) None gas_fits_memory by (fastforce simp: op_ok_def)
  then have "charged p f evm f evm"
    using assms None by (auto simp: charged_def ready_def demand_def op_ok_def)
  then show ?thesis using None by (simp add: charge_dynamic_def)
next
  case (Some g)
  have ok: "memorySize p = mem_of (execute p)" "gas_fits (execute p) (constantGas p) (Some g)"
      "\<forall>n. execute p = MakeDup n \<longrightarrow> 0 < n"
    using assms(1) Some by (auto simp: op_ok_def)
  have err: "unat (Gas (fcontract f)) \<le> unat (Gas (fcontract f)) \<and> kept evm evm \<and>
      evolves (readOnly evm) (statedb evm) (statedb evm)" using assms(2) by auto
  from required_memory_spec [OF ok(1) assms(4)] show ?thesis
  proof (elim disjE exE conjE)
    assume "required_memory p (fstack f) = Ret None"
    then show ?thesis using Some err by (simp add: charge_dynamic_def)
  next
    fix ms assume ms: "required_memory p (fstack f) = Ret (Some ms)" "32 dvd unat ms"
      "mem_of (execute p) = None \<longrightarrow> ms = 0" "demand (execute p) (fstack f) (unat ms)"
    have post: "gas_post f evm ms (gas_bound (execute p) f) (dynamic_gas ctx g f evm ms)"
      using assms(2-5) ok(2) ms(3) Some by (intro dynamic_gas_post) auto
    show ?thesis
    proof (cases "dynamic_gas ctx g f evm ms")
      case (Ret r)
      obtain cost err1 f1 evm1 where r: "r = (cost, err1, f1, evm1)" by (metis prod_cases4)
      have p: "fstack f1 = fstack f" "unat (Gas (fcontract f1)) \<le> unat (Gas (fcontract f))" "kept evm evm1"
          "evolves True (statedb evm) (statedb evm1)"
          "err1 = None \<Longrightarrow> fcontract f1 = fcontract f \<and> mem_paid ms (fmem f) (fmem f1) \<and> gas_bound (execute p) f cost evm1"
        using post Ret r by (auto simp: gas_post_def evm_same_def kept_def)
      have ev: "evolves (readOnly evm) (statedb evm) (statedb evm1)" using p(4) by (rule evolves_weaken) simp
      show ?thesis
      proof (cases "err1 = None \<and> UseGas cost (fcontract f1) \<noteq> None")
        case False
        then show ?thesis using Some ms(1) Ret r p(2,3) ev
          by (auto simp: charge_dynamic_def split: option.split)
      next
        case True
        then obtain c where c: "UseGas cost (fcontract f1) = Some c" by blast
        let ?m = "if ms > 0 then mem_Resize ms (fmem f1) else fmem f1"
        let ?f = "f1 \<lparr> fcontract := c, fmem := ?m \<rparr>"
        have q: "fcontract f1 = fcontract f" "mem_paid ms (fmem f) (fmem f1)" "gas_bound (execute p) f cost evm1"
          using p(5) True by auto
        note m = mem_Resize_inv [OF assms(3) q(2) ms(2)]
        have "demand (execute p) (fstack f) (mem_Len ?m)"
          using ms(4) m(2) covered_mono by (fastforce simp: demand_def list_all_iff)
        then have "ready (execute p) ?f evm1"
          using assms(4) p(1) ev m(1) ok(3) by (auto simp: ready_def intro: evolves_wf)
        moreover have "gas_bound (execute p) ?f cost evm1"
          using q(3) p(1) by (simp add: gas_bound_def cong: executionFunc.case_cong subFunc.case_cong)
        moreover have "unat (Gas c) + unat cost = unat (Gas (fcontract f))" using UseGas_Some [OF c] q(1) by auto
        ultimately have "charged p f evm ?f evm1" using Some p(1,3) ev by (auto simp: charged_def)
        then show ?thesis using Some ms(1) Ret r True c by (simp add: charge_dynamic_def)
      qed
    qed (use post Some ms(1) in \<open>auto simp: gas_post_def charge_dynamic_def\<close>)
  qed
qed


section \<open>One iteration\<close>

lemma exec_halt_stops: "exec_halt h f evm = Ret (res, err, f', evm') \<Longrightarrow> err \<noteq> None"
  by (cases h) (auto simp: opStop_def opReturn_def opRevert_def opSelfdestruct_def opUndefined_def fail_def Let_def
      split: if_splits list.splits prod.splits)

text \<open>The gas a callee gets is paid for by the dynamic gas of the instruction.\<close>

lemma extra_gas_paid:
  assumes "gas_bound (Sub s) f g evm"
  shows "unat (sub_gas s f evm) \<le> unat g"
proof -
  have "unat (stipend (fstack f ! 2) (callGasTemp evm)) \<le> unat g"
    if "temp_post (if fstack f ! 2 \<noteq> 0 then 9000 else 0) g evm"
  proof (cases "fstack f ! 2 = 0")
    case False
    then have le: "unat (callGasTemp evm) + 9000 \<le> unat g" using that by (simp add: temp_post_def)
    then have "unat (callGasTemp evm) + 2300 < 18446744073709551616" using unat_u64_less [of g] by linarith
    then have "unat (callGasTemp evm + 2300) = unat (callGasTemp evm) + 2300"
      by (subst unat_add_small) simp_all
    then show ?thesis using False le by (simp add: stipend_def)
  qed (use that in \<open>simp add: stipend_def temp_post_def\<close>)
  then show ?thesis using assms by (cases s) (auto simp: gas_bound_def sub_gas_def temp_post_def)
qed

text \<open>The price of an instruction that lets the loop go on is positive.\<close>

lemma price_positive:
  assumes "op_ok p" "charged p f evm f' evm'" "\<And>h. execute p \<noteq> Halt h"
  shows "unat (Gas (fcontract f')) + extra_gas (execute p) f' evm' < unat (Gas (fcontract f)) + unat (constantGas p)"
proof -
  have fits: "gas_fits (execute p) (constantGas p) (dynamicGas p)" using assms(1) by (simp add: op_ok_def)
  show ?thesis
  proof (cases "dynamicGas p")
    case None
    then have "0 < unat (constantGas p)"
      using fits assms(3) by (cases "execute p") (auto simp: word_less_nat_alt split: if_splits subFunc.splits)
    moreover have "extra_gas (execute p) f' evm' = 0"
      using fits None by (cases "execute p") (auto simp: extra_gas_def split: subFunc.splits)
    ultimately show ?thesis using assms(2) None by (simp add: charged_def)
  next
    case (Some d)
    then obtain g where g: "unat (Gas (fcontract f')) + unat g = unat (Gas (fcontract f))" "gas_bound (execute p) f' g evm'"
      using assms(2) by (auto simp: charged_def)
    show ?thesis
    proof (cases "execute p")
      case (Sub s)
      then have "0 < unat (constantGas p)" using fits Some by (auto simp: word_less_nat_alt)
      moreover have "extra_gas (execute p) f' evm' \<le> unat g"
        using extra_gas_paid [of s f' g evm'] g(2) Sub by (simp add: extra_gas_def)
      ultimately show ?thesis using g(1) by linarith
    qed (use fits Some g assms(3) in \<open>auto simp: extra_gas_def gas_bound_def word_less_nat_alt split: if_splits\<close>)
  qed
qed

definition loop_post :: "frame \<Rightarrow> EVM \<Rightarrow> (bytes \<times> vmErr option \<times> frame \<times> EVM) go \<Rightarrow> bool" where
  "loop_post f evm r \<longleftrightarrow>
    (case r of
       NoFuel \<Rightarrow> False
     | Panic msg \<Rightarrow> msg \<notin> vm_panics
     | Ret (ret, err, f', evm') \<Rightarrow> unat (Gas (fcontract f')) \<le> unat (Gas (fcontract f)) \<and> kept evm evm' \<and>
         evolves (readOnly evm) (statedb evm) (statedb evm'))"

definition step_post :: "frame \<Rightarrow> EVM \<Rightarrow> stepRes go \<Rightarrow> bool" where
  "step_post f evm r \<longleftrightarrow>
    (case r of
       NoFuel \<Rightarrow> False
     | Panic msg \<Rightarrow> msg \<notin> vm_panics
     | Ret (Done ret err f' evm') \<Rightarrow> unat (Gas (fcontract f')) \<le> unat (Gas (fcontract f)) \<and> kept evm evm' \<and>
         evolves (readOnly evm) (statedb evm) (statedb evm')
     | Ret (Continue f' evm') \<Rightarrow> unat (Gas (fcontract f')) < unat (Gas (fcontract f)) \<and> kept evm evm' \<and>
         evolves (readOnly evm) (statedb evm) (statedb evm') \<and> mem_inv (fmem f') \<and> length (fstack f') \<le> 1024)"

lemma halt_gas:
  assumes "charged p f evm f' evm'"
  shows "unat (Gas (fcontract f')) \<le> unat (Gas (fcontract f))"
  using assms by (auto simp: charged_def split: option.splits)

lemma exec_step:
  assumes "op_ok p" "charged p f evm f1 evm1" "run_ok n run"
    and "unat (Gas (fcontract f)) + unat (constantGas p) \<le> n" "unat (Gas (fcontract f)) + unat (constantGas p) < 2 ^ 64"
    and "int (length (fstack f)) \<le> opMaxStack p"
  shows "case exec ctx run (execute p) f1 evm1 of
      NoFuel \<Rightarrow> False
    | Panic msg \<Rightarrow> msg \<notin> vm_panics
    | Ret (res, err, f', evm') \<Rightarrow>
        unat (Gas (fcontract f')) \<le> unat (Gas (fcontract f)) + unat (constantGas p) \<and> kept evm evm' \<and>
        evolves (readOnly evm) (statedb evm) (statedb evm') \<and> mem_inv (fmem f') \<and>
        (err = None \<longrightarrow> length (fstack f') \<le> 1024 \<and>
          unat (Gas (fcontract f')) < unat (Gas (fcontract f)) + unat (constantGas p))"
proof -
  have ch: "ready (execute p) f1 evm1" "fstack f1 = fstack f" "kept evm evm1"
      "evolves (readOnly evm) (statedb evm) (statedb evm1)" using assms(2) by (auto simp: charged_def)
  have sub: "sub_ready n run s f1 evm1" if "execute p = Sub s" for s
    using price_positive [OF assms(1,2)] that assms(3-5) by (auto simp: sub_ready_def extra_gas_def)
  have post: "exec_post (execute p) f1 evm1 (extra_gas (execute p) f1 evm1) (exec ctx run (execute p) f1 evm1)"
    using exec_post_all [OF ch(1) sub] .
  have max: "int (length (fstack f1)) \<le> 1024 + int (fst (arity (execute p))) - int (snd (arity (execute p)))"
    using assms(1,6) ch(2) by (simp add: op_ok_def)
  show ?thesis
  proof (cases "exec ctx run (execute p) f1 evm1")
    case (Ret r)
    obtain res err f' evm' where r: "r = (res, err, f', evm')" by (metis prod_cases4)
    have x: "unat (Gas (fcontract f')) \<le> unat (Gas (fcontract f1)) + extra_gas (execute p) f1 evm1" "kept evm1 evm'"
        "evolves (readOnly evm1) (statedb evm1) (statedb evm')" "mem_inv (fmem f')"
        "err = None \<Longrightarrow> length (fstack f') + fst (arity (execute p)) = length (fstack f1) + snd (arity (execute p))"
      using post Ret r by (auto simp: exec_post_def)
    have ro: "readOnly evm1 = readOnly evm" using ch(3) by (simp add: kept_def)
    have gas: "unat (Gas (fcontract f')) \<le> unat (Gas (fcontract f)) + unat (constantGas p) \<and>
        (err = None \<longrightarrow> unat (Gas (fcontract f')) < unat (Gas (fcontract f)) + unat (constantGas p))"
    proof (cases "execute p")
      case (Halt h)
      then have "err \<noteq> None" using exec_halt_stops [of h f1 evm1] Ret r by simp
      then show ?thesis using x(1) halt_gas [OF assms(2)] Halt by (auto simp: extra_gas_def)
    qed (use price_positive [OF assms(1,2)] x(1) in \<open>auto\<close>)
    show ?thesis using Ret r gas x(2,4) max x(5) kept_trans [OF ch(3)] evolves_trans [OF ch(4)] x(3) ro by auto
  qed (use post in \<open>auto simp: exec_post_def\<close>)
qed

lemma step_ok:
  assumes "vm_ok ctx" "run_ok n run" "wf_state (statedb evm)" "mem_inv (fmem f)" "unat (Gas (fcontract f)) \<le> n"
  shows "step_post f evm (step ctx run f evm)"
proof -
  define p where "p = jumpTable ctx (GetOp (fpc f) (fcontract f))"
  have ok: "op_ok p" "\<forall>h. dynamicGas p = Some (GasCallVariantEIP2929 h) \<longrightarrow> rIsEIP150 (chainRules ctx)"
    using assms(1) by (auto simp: vm_ok_def table_ok_def p_def)
  have stop: "step_post f evm (Ret (Done [] (Some e) f evm))" for e using assms(3) by (auto simp: step_post_def)
  show ?thesis
  proof (cases "int (length (fstack f)) < opMinStack p \<or> int (length (fstack f)) > opMaxStack p \<or>
      UseGas (constantGas p) (fcontract f) = None")
    case True
    then show ?thesis using stop by (auto simp: step_def Let_def p_def [symmetric])
  next
    case False
    then obtain c where c: "UseGas (constantGas p) (fcontract f) = Some c" by blast
    let ?f = "f \<lparr> fcontract := c \<rparr>"
    have gas: "unat (Gas c) + unat (constantGas p) = unat (Gas (fcontract f))" using UseGas_Some [OF c] by auto
    have len: "fst (arity (execute p)) \<le> length (fstack ?f)" using False ok(1) by (simp add: op_ok_def)
    have "mem_inv (fmem ?f)" using assms(4) by simp
    note ch = charge_dynamic_post [OF ok(1) assms(3) this len ok(2)]
    have st: "step ctx run f evm = go_bind (charge_dynamic ctx p ?f evm) (\<lambda>c.
        case c of Inl (e, f, evm) \<Rightarrow> Ret (Done [] (Some e) f evm)
        | Inr (f, evm) \<Rightarrow> go_bind (exec ctx run (execute p) f evm) (\<lambda>(res, err, f, evm).
            Ret (if err \<noteq> None then Done res err f evm else Continue (f \<lparr> fpc := fpc f + 1 \<rparr>) evm)))"
      using False c by (simp add: step_def Let_def p_def [symmetric] del: not_None_eq)
    show ?thesis
    proof (cases "charge_dynamic ctx p ?f evm")
      case (Ret x)
      show ?thesis
      proof (cases x)
        case (Inl y)
        then show ?thesis using ch Ret st gas by (auto simp: step_post_def split: prod.splits)
      next
        case (Inr y)
        obtain f1 evm1 where y: "y = (f1, evm1)" by fastforce
        have "charged p ?f evm f1 evm1" using ch Ret Inr y by simp
        from exec_step [OF ok(1) this assms(2), of ctx] gas assms(5) False
        show ?thesis using Ret Inr y st
          by (cases "exec ctx run (execute p) f1 evm1") (auto simp: step_post_def split: prod.splits)
      qed
    qed (use ch st in \<open>auto simp: step_post_def\<close>)
  qed
qed


section \<open>The loop\<close>

lemma NewMemory_inv [simp]: "mem_inv NewMemory"
  by (simp add: mem_inv_def NewMemory_def mem_Len_def mem_fee_def words_of_def)

lemma run_with_ok:
  assumes "\<And>f evm. wf_state (statedb evm) \<Longrightarrow> mem_inv (fmem f) \<Longrightarrow> unat (Gas (fcontract f)) < n \<Longrightarrow>
      loop_post f evm (lp f evm)"
  shows "run_ok n (run_with lp)"
  unfolding run_ok_def
proof (intro allI impI)
  fix c :: Contract and input :: bytes and ro :: bool and evm :: EVM
  assume wf: "wf_state (statedb evm)" and gas: "unat (Gas c) < n"
  let ?set = "ro \<and> \<not> readOnly evm"
  let ?evm = "evm \<lparr> depth := depth evm + 1, readOnly := (if ?set then True else readOnly evm), returnData := [] \<rparr>"
  let ?f = "\<lparr> fpc = 0, fmem = NewMemory, fstack = [], fcontract = c \<lparr> Input := input \<rparr> \<rparr>"
  have ro: "readOnly ?evm = (ro \<or> readOnly evm)" by auto
  have post: "loop_post ?f ?evm (lp ?f ?evm)" using assms wf gas by simp
  show "case run_with lp c input ro evm of NoFuel \<Rightarrow> False | Panic msg \<Rightarrow> msg \<notin> vm_panics
      | Ret (ret, err, c', evm') \<Rightarrow> unat (Gas c') \<le> unat (Gas c) \<and> kept evm evm' \<and>
          evolves (ro \<or> readOnly evm) (statedb evm) (statedb evm')"
  proof (cases "Code c = []")
    case True
    then show ?thesis using wf by (auto simp: run_with_def Let_def kept_def)
  next
    case False
    show ?thesis
    proof (cases "lp ?f ?evm")
      case (Ret r)
      obtain ret err f' evm' where r: "r = (ret, err, f', evm')" by (metis prod_cases4)
      then have "unat (Gas (fcontract f')) \<le> unat (Gas c)" "kept ?evm evm'"
        "evolves (ro \<or> readOnly evm) (statedb evm) (statedb evm')"
        using post Ret ro by (auto simp: loop_post_def)
      then show ?thesis using False Ret r by (auto simp: run_with_def Let_def kept_def)
    qed (use False post in \<open>auto simp: run_with_def Let_def loop_post_def\<close>)
  qed
qed

lemma loop_ok:
  assumes "vm_ok ctx" "wf_state (statedb evm)" "mem_inv (fmem f)" "unat (Gas (fcontract f)) < n"
  shows "loop_post f evm (loop n ctx f evm)"
  using assms(2-4)
proof (induction n arbitrary: f evm)
  case 0
  then show ?case by simp
next
  case (Suc n)
  have "run_ok n (run_with (loop n ctx))" using Suc.IH by (rule run_with_ok)
  then have st: "step_post f evm (step ctx (run_with (loop n ctx)) f evm)"
    using Suc.prems by (intro step_ok [OF assms(1)]) auto
  show ?case
  proof (cases "step ctx (run_with (loop n ctx)) f evm")
    case (Ret r)
    show ?thesis
    proof (cases r)
      case (Continue f' evm')
      then have c: "unat (Gas (fcontract f')) < unat (Gas (fcontract f))" "kept evm evm'"
          "evolves (readOnly evm) (statedb evm) (statedb evm')" "mem_inv (fmem f')"
        using st Ret by (auto simp: step_post_def)
      have "loop_post f' evm' (loop n ctx f' evm')"
        using c Suc.prems(3) by (intro Suc.IH evolves_wf [OF c(3)]) auto
      then show ?thesis using Ret Continue c kept_trans [OF c(2)] evolves_trans [OF c(3)]
        by (auto simp: loop_post_def kept_def split: go.splits)
    next
      case (Done ret err f' evm')
      then show ?thesis using st Ret by (simp add: step_post_def loop_post_def)
    qed
  qed (use st in \<open>auto simp: step_post_def loop_post_def\<close>)
qed

lemma Run_ok: "vm_ok ctx \<Longrightarrow> run_ok n (Run n ctx)"
  unfolding Run_def using loop_ok by (intro run_with_ok) blast

end
