(* ===== verification/VM_Fuel.thy ===== *)
theory VM_Fuel
  imports VM_Run_Props
begin

text \<open>
  The fuel of the interpreter is only a bound: more of it never changes a result, so that with enough
  of it \<open>Run\<close> has one value. \<open>sqle\<close> orders results, with \<open>NoFuel\<close> below every other one.
\<close>

definition sqle :: "'a go \<Rightarrow> 'a go \<Rightarrow> bool" where
  "sqle a b \<longleftrightarrow> a = NoFuel \<or> a = b"

definition run_le :: "runner \<Rightarrow> runner \<Rightarrow> bool" where
  "run_le run run' \<longleftrightarrow> (\<forall>c input ro evm. sqle (run c input ro evm) (run' c input ro evm))"

lemma sqle_refl [simp, intro]: "sqle a a" by (simp add: sqle_def)

lemma sqle_bind: "sqle m m' \<Longrightarrow> (\<And>x. sqle (f x) (f' x)) \<Longrightarrow> sqle (go_bind m f) (go_bind m' f')"
  unfolding sqle_def by (cases m; cases m') auto

lemma sqle_if: "sqle a a' \<Longrightarrow> sqle b b' \<Longrightarrow> sqle (if c then a else b) (if c then a' else b')"
  by simp

lemma sqle_prod: "(\<And>x y. sqle (f x y) (f' x y)) \<Longrightarrow> sqle (case p of (x, y) \<Rightarrow> f x y) (case p of (x, y) \<Rightarrow> f' x y)"
  by (cases p) simp

lemma sqle_option:
  "sqle a a' \<Longrightarrow> (\<And>x. sqle (f x) (f' x)) \<Longrightarrow>
    sqle (case p of None \<Rightarrow> a | Some x \<Rightarrow> f x) (case p of None \<Rightarrow> a' | Some x \<Rightarrow> f' x)"
  by (cases p) simp_all

lemma sqle_sum:
  "(\<And>x. sqle (f x) (f' x)) \<Longrightarrow> (\<And>x. sqle (g x) (g' x)) \<Longrightarrow>
    sqle (case p of Inl x \<Rightarrow> f x | Inr x \<Rightarrow> g x) (case p of Inl x \<Rightarrow> f' x | Inr x \<Rightarrow> g' x)"
  by (cases p) simp_all

lemma sqle_list:
  "sqle a a' \<Longrightarrow> (\<And>x xs. sqle (f x xs) (f' x xs)) \<Longrightarrow>
    sqle (case p of [] \<Rightarrow> a | x # xs \<Rightarrow> f x xs) (case p of [] \<Rightarrow> a' | x # xs \<Rightarrow> f' x xs)"
  by (cases p) simp_all

lemma sqle_step:
  "(\<And>f evm. sqle (g f evm) (g' f evm)) \<Longrightarrow> (\<And>a b f evm. sqle (h a b f evm) (h' a b f evm)) \<Longrightarrow>
    sqle (case p of Continue f evm \<Rightarrow> g f evm | Done a b f evm \<Rightarrow> h a b f evm)
      (case p of Continue f evm \<Rightarrow> g' f evm | Done a b f evm \<Rightarrow> h' a b f evm)"
  by (cases p) simp_all

lemmas sqle_rules = sqle_bind sqle_if sqle_prod sqle_option sqle_sum sqle_list sqle_step sqle_refl

lemma call_run_mono: "run_le run run' \<Longrightarrow> sqle (call_run run c input ro evm) (call_run run' c input ro evm)"
  unfolding call_run_def run_le_def by (intro sqle_bind) auto

lemma run_code_mono:
  "run_le run run' \<Longrightarrow> sqle (run_code run a b input gas value evm) (run_code run' a b input gas value evm)"
  unfolding run_code_def by (intro sqle_rules call_run_mono)

lemma calls_mono:
  assumes "run_le run run'"
  shows "sqle (Call ctx run caller addr input gas value evm) (Call ctx run' caller addr input gas value evm)"
    "sqle (CallCode ctx run caller addr input gas value evm) (CallCode ctx run' caller addr input gas value evm)"
    "sqle (DelegateCall ctx run caller addr input gas evm) (DelegateCall ctx run' caller addr input gas evm)"
    "sqle (StaticCall ctx run caller addr input gas evm) (StaticCall ctx run' caller addr input gas evm)"
  unfolding Call_def CallCode_def DelegateCall_def StaticCall_def Let_def
  by (intro sqle_rules call_run_mono [OF assms] run_code_mono [OF assms])+

lemma deploy_mono:
  "run_le run run' \<Longrightarrow> sqle (deploy ctx run caller code h gas value a evm) (deploy ctx run' caller code h gas value a evm)"
  unfolding deploy_def Let_def run_le_def by (intro sqle_prod sqle_bind) auto

lemma create_mono:
  "run_le run run' \<Longrightarrow> sqle (create ctx run caller code h gas value a evm) (create ctx run' caller code h gas value a evm)"
  unfolding create_def Let_def by (intro sqle_if sqle_prod sqle_refl deploy_mono)

lemma creates_mono:
  assumes "run_le run run'"
  shows "sqle (Create ctx run caller code gas value evm) (Create ctx run' caller code gas value evm)"
    "sqle (Create2 ctx run caller code gas value salt evm) (Create2 ctx run' caller code gas value salt evm)"
  unfolding Create_def Create2_def Let_def by (intro sqle_prod create_mono [OF assms])+

lemma exec_sub_mono:
  assumes "run_le run run'"
  shows "sqle (exec_sub ctx run s f evm) (exec_sub ctx run' s f evm)"
  by (cases s; simp only: exec_sub.simps opCreate_def opCreate2_def opCall_def opCallCode_def opDelegateCall_def
      opStaticCall_def Let_def; intro sqle_bind sqle_if sqle_list sqle_refl calls_mono [OF assms] creates_mono [OF assms])

lemma exec_mono: "run_le run run' \<Longrightarrow> sqle (exec ctx run p f evm) (exec ctx run' p f evm)"
  by (cases p) (simp_all add: exec_sub_mono)

lemma step_mono: "run_le run run' \<Longrightarrow> sqle (step ctx run f evm) (step ctx run' f evm)"
  unfolding step_def Let_def by (intro sqle_rules exec_mono)

lemma run_with_mono:
  "(\<And>f evm. sqle (lp f evm) (lp' f evm)) \<Longrightarrow> run_le (run_with lp) (run_with lp')"
  unfolding run_le_def run_with_def Let_def by (intro allI sqle_bind sqle_if sqle_refl)

lemma loop_mono: "sqle (loop n ctx f evm) (loop (Suc n) ctx f evm)"
proof (induction n arbitrary: f evm)
  case (Suc n)
  define lp where "lp = loop (Suc n) ctx"
  have le: "sqle (loop n ctx f evm) (lp f evm)" for f evm using Suc.IH unfolding lp_def .
  have "sqle (go_bind (step ctx (run_with (loop n ctx)) f evm) (\<lambda>r. case r of Continue f evm \<Rightarrow> loop n ctx f evm
        | Done ret err f evm \<Rightarrow> Ret (ret, if err = Some errStopToken then None else err, f, evm)))
      (go_bind (step ctx (run_with lp) f evm) (\<lambda>r. case r of Continue f evm \<Rightarrow> lp f evm
        | Done ret err f evm \<Rightarrow> Ret (ret, if err = Some errStopToken then None else err, f, evm)))"
    by (intro sqle_bind sqle_step step_mono run_with_mono sqle_refl le)
  then show ?case unfolding lp_def loop.simps(2) [symmetric] .
qed (simp add: sqle_def)

lemma Run_mono:
  assumes "n \<le> m" "Run n ctx c input ro evm \<noteq> NoFuel"
  shows "Run m ctx c input ro evm = Run n ctx c input ro evm"
  using assms(1)
proof (induction m rule: dec_induct)
  case (step m)
  have "run_le (Run m ctx) (Run (Suc m) ctx)" unfolding Run_def by (intro run_with_mono loop_mono)
  then have "sqle (Run m ctx c input ro evm) (Run (Suc m) ctx c input ro evm)" by (simp add: run_le_def)
  then show ?case using step.IH assms(2) by (simp add: sqle_def)
qed simp

end
