(* ===== verification/VM_Props.thy ===== *)
theory VM_Props
  imports VM_Fuel State_Props
begin

text \<open>
  What the virtual machine promises: execution under the instruction table of any rule set ends, by the
  gas supplied; it never fails a bounds check of the stack, the memory or the journal; a call that
  fails undoes its effects and takes the gas; a static call changes nothing observable; memory and call
  gas follow the quadratic and the 63/64 rule; the jump check is exact.
\<close>

section \<open>The tables of the rule sets\<close>

definition no_2929 :: "JumpTable \<Rightarrow> bool" where
  "no_2929 jt \<longleftrightarrow> (\<forall>b h. dynamicGas (jt b) \<noteq> Some (GasCallVariantEIP2929 h))"

lemma no_2929_frontier: "newFrontierInstructionSet = Ret jt \<Longrightarrow> no_2929 jt"
proof -
  assume jt: "newFrontierInstructionSet = Ret jt"
  have all: "list_all (\<lambda>(b, p). \<forall>h. dynamicGas p \<noteq> Some (GasCallVariantEIP2929 h)) frontier_entries"
    unfolding frontier_entries_def mk_op_def by simp
  have "dynamicGas p \<noteq> Some (GasCallVariantEIP2929 h)" if "map_of frontier_entries i = Some p" for i p h
    using map_of_SomeD [OF that] all by (auto simp: list_all_iff)
  then show ?thesis using jt
    by (auto simp: newFrontierInstructionSet_def no_2929_def validate_def undefined_op_def mk_op_def
        split: option.splits if_splits)
qed

lemma no_2929_step:
  assumes "go_bind m (\<lambda>set. validate (F set)) = Ret jt" "\<And>jt. m = Ret jt \<Longrightarrow> no_2929 jt"
    "\<And>jt. no_2929 jt \<Longrightarrow> no_2929 (F jt)"
  shows "no_2929 jt"
  using assms by (cases m) (auto simp: validate_def split: if_splits)

lemma no_2929_upd:
  "no_2929 jt \<Longrightarrow> (\<And>h. dynamicGas p \<noteq> Some (GasCallVariantEIP2929 h)) \<Longrightarrow> no_2929 (jt(b := p))"
  "no_2929 jt \<Longrightarrow> no_2929 (set_const b c jt)"
  "no_2929 jt \<Longrightarrow> (\<And>h. g \<noteq> GasCallVariantEIP2929 h) \<Longrightarrow> no_2929 (set_dyn b g jt)"
  by (auto simp: no_2929_def set_const_def set_dyn_def)

lemma no_2929_sets:
  "newHomesteadInstructionSet = Ret jt \<Longrightarrow> no_2929 jt"
  "newTangerineWhistleInstructionSet = Ret jt \<Longrightarrow> no_2929 jt"
  "newSpuriousDragonInstructionSet = Ret jt \<Longrightarrow> no_2929 jt"
  "newByzantiumInstructionSet = Ret jt \<Longrightarrow> no_2929 jt"
  "newConstantinopleInstructionSet = Ret jt \<Longrightarrow> no_2929 jt"
  "newIstanbulInstructionSet = Ret jt \<Longrightarrow> no_2929 jt"
proof -
  show h: "no_2929 jt" if "newHomesteadInstructionSet = Ret jt" for jt
    using that unfolding newHomesteadInstructionSet_def
    by (rule no_2929_step [OF _ no_2929_frontier]) (auto intro!: no_2929_upd simp: mk_op_def)
  show t: "no_2929 jt" if "newTangerineWhistleInstructionSet = Ret jt" for jt
    using that unfolding newTangerineWhistleInstructionSet_def Let_def
    by (rule no_2929_step [OF _ h]) (auto intro!: no_2929_upd)
  show s: "no_2929 jt" if "newSpuriousDragonInstructionSet = Ret jt" for jt
    using that unfolding newSpuriousDragonInstructionSet_def
    by (rule no_2929_step [OF _ t]) (auto intro!: no_2929_upd)
  show b: "no_2929 jt" if "newByzantiumInstructionSet = Ret jt" for jt
    using that unfolding newByzantiumInstructionSet_def
    by (rule no_2929_step [OF _ s]) (auto intro!: no_2929_upd simp: mk_op_def)
  show c: "no_2929 jt" if "newConstantinopleInstructionSet = Ret jt" for jt
    using that unfolding newConstantinopleInstructionSet_def
    by (rule no_2929_step [OF _ b]) (auto intro!: no_2929_upd simp: mk_op_def)
  show "no_2929 jt" if "newIstanbulInstructionSet = Ret jt" for jt
    using that unfolding newIstanbulInstructionSet_def enable1884_def enable1344_def enable2200_def Let_def
    by (rule no_2929_step [OF _ c]) (auto intro!: no_2929_upd simp: mk_op_def)
qed

text \<open>
  An interpreter as \<open>NewEVMInterpreter\<close> sets it up without extra EIPs, for rules in which Berlin and the
  forks after it come with EIP-150, as they do under every ordered fork schedule.
\<close>

definition configured :: "vmContext \<Rightarrow> bool" where
  "configured ctx \<longleftrightarrow> instructionSet (chainRules ctx) = Ret (jumpTable ctx) \<and>
     (rIsBerlin (chainRules ctx) \<or> rIsLondon (chainRules ctx) \<or> rIsMerge (chainRules ctx) \<or> rIsShanghai (chainRules ctx) \<longrightarrow>
       rIsEIP150 (chainRules ctx))"

lemma configured_ok:
  assumes "configured ctx"
  shows "vm_ok ctx"
proof -
  have set: "instructionSet (chainRules ctx) = Ret (jumpTable ctx)" using assms by (simp add: configured_def)
  obtain jt where jt: "instructionSet (chainRules ctx) = Ret jt" "table_ok jt" using instructionSet_ok by blast
  have "no_2929 (jumpTable ctx)" if "\<not> rIsEIP150 (chainRules ctx)"
    using set that assms no_2929_frontier no_2929_sets
    by (auto simp: instructionSet_def configured_def split: if_splits)
  then show ?thesis using jt set by (auto simp: vm_ok_def no_2929_def)
qed

section \<open>Errors of calls\<close>

text \<open>An error other than a revert or one found before the call starts takes all gas.\<close>

definition taken :: "callRes \<Rightarrow> bool" where
  "taken m \<longleftrightarrow> (\<forall>ret g e evm. m = Ret (ret, g, Some e, evm) \<longrightarrow>
     e \<in> {ErrExecutionReverted, ErrDepth, ErrInsufficientBalance} \<or> g = 0)"

lemma taken_rules:
  "taken (go_bind m (finish_call i))"
  "taken (Ret (ret, g, None, evm))"
  "taken (Ret (ret, g, Some ErrDepth, evm))"
  "taken (Ret (ret, g, Some ErrInsufficientBalance, evm))"
  "taken x \<Longrightarrow> taken y \<Longrightarrow> taken (if b then x else y)"
  "(\<And>a b. taken (f a b)) \<Longrightarrow> taken (case p of (a, b) \<Rightarrow> f a b)"
  by (auto simp: taken_def finish_call_def split: option.splits if_splits prod.splits)

lemma calls_taken:
  "taken (Call ctx run caller addr input gas value evm)"
  "taken (CallCode ctx run caller addr input gas value evm)"
  "taken (DelegateCall ctx run caller addr input gas evm)"
  "taken (StaticCall ctx run caller addr input gas evm)"
  unfolding Call_def CallCode_def DelegateCall_def StaticCall_def Let_def by (intro taken_rules)+

text \<open>What the callers of the four calls rely on.\<close>

definition call_contract :: "bool \<Rightarrow> EVM \<Rightarrow> u64 \<Rightarrow> callRes \<Rightarrow> bool" where
  "call_contract static evm gas r \<longleftrightarrow>
    (case r of
       NoFuel \<Rightarrow> False
     | Panic msg \<Rightarrow> msg \<notin> vm_panics
     | Ret (ret, gas', err, evm') \<Rightarrow>
         unat gas' \<le> unat gas \<and> depth evm' = depth evm \<and> readOnly evm' = readOnly evm \<and> wf_state (statedb evm') \<and>
         (static \<longrightarrow> frozen (view (statedb evm)) (view (statedb evm'))) \<and>
         (case err of
            None \<Rightarrow> True
          | Some e \<Rightarrow> view (statedb evm') = view (statedb evm) \<and>
              (e \<in> {ErrExecutionReverted, ErrDepth, ErrInsufficientBalance} \<or> gas' = 0)))"

lemma call_contractI:
  assumes "call_ok static (statedb evm) evm gas m \<and> undone (statedb evm) m"
    and "taken m"
  shows "call_contract static evm gas m"
proof (cases m)
  case (Ret r)
  obtain ret g err evm' where r: "r = (ret, g, err, evm')" by (metis prod_cases4)
  show ?thesis using assms Ret r
    by (auto simp: call_contract_def call_ok_def undone_def kept_def evolves_def taken_def dest: extends_wf split: option.split)
qed (use assms in \<open>auto simp: call_contract_def call_ok_def\<close>)

section \<open>Creation\<close>

text \<open>The trace a failed creation leaves: the nonce of the creator and, from Berlin on, the warm address.\<close>

definition create_entry :: "vmContext \<Rightarrow> address \<Rightarrow> address \<Rightarrow> state_view \<Rightarrow> state_view" where
  "create_entry ctx creator a v =
    (let w = vset creator (\<lambda>o1. o1 \<lparr> vNonce := vnonce v creator + 1 \<rparr>) (vnew creator v)
     in if rIsBerlin (chainRules ctx) then w \<lparr> vAccess := fst (AddAddress (vAccess w) a) \<rparr> else w)"

definition create_contract :: "vmContext \<Rightarrow> address \<Rightarrow> address \<Rightarrow> EVM \<Rightarrow> u64 \<Rightarrow> createRes \<Rightarrow> bool" where
  "create_contract ctx creator a evm gas r \<longleftrightarrow>
    (case r of
       NoFuel \<Rightarrow> False
     | Panic msg \<Rightarrow> msg \<notin> vm_panics
     | Ret (ret, b, gas', err, evm') \<Rightarrow>
         unat gas' \<le> unat gas \<and> depth evm' = depth evm \<and> readOnly evm' = readOnly evm \<and> wf_state (statedb evm') \<and>
         (case err of
            None \<Rightarrow> True
          | Some e \<Rightarrow>
              view (statedb evm') = view (statedb evm) \<and> gas' = gas \<and>
                e \<in> {ErrDepth, ErrInsufficientBalance, ErrNonceUintOverflow} \<or>
              view (statedb evm') = create_entry ctx creator a (view (statedb evm)) \<and>
                (e = ErrExecutionReverted \<or> gas' = 0)))"

lemma create_failure:
  assumes "run_ok n run" "wf_state (statedb evm)" "unat gas < n" "\<not> readOnly evm" "rIsHomestead (chainRules ctx)"
    and r: "create ctx run caller code h gas value a evm = Ret (ret, b, g, Some e, evm')"
  shows "view (statedb evm') = view (statedb evm) \<and> g = gas \<and> e \<in> {ErrDepth, ErrInsufficientBalance, ErrNonceUintOverflow} \<or>
    view (statedb evm') = create_entry ctx (ref_Address caller) a (view (statedb evm)) \<and> (e = ErrExecutionReverted \<or> g = 0)"
proof (cases "depth evm > uint CallCreateDepth")
  case True
  then show ?thesis using r by (simp add: create_def)
next
  case False
  let ?c = "ref_Address caller"
  obtain can s0 where can: "CanTransfer ?c value (statedb evm) = (can, s0)" by fastforce
  have q0: "quiet (statedb evm) s0" using CanTransfer_state [OF assms(2) can] .
  then have wf0: "wf_state s0" using evolves_wf [OF evolves_quiet [OF assms(2)]] by blast
  obtain nonce s1 where nonce: "GetNonce ?c s0 = (nonce, s1)" by fastforce
  have q1: "quiet s0 s1" "nonce = vnonce (view s0) ?c" using GetNonce_spec [OF wf0 nonce] by auto
  then have wf1: "wf_state s1" using evolves_wf [OF evolves_quiet [OF wf0]] by blast
  define s2 where "s2 = (if rIsBerlin (chainRules ctx) then AddAddressToAccessList a (SetNonce ?c (nonce + 1) s1)
     else SetNonce ?c (nonce + 1) s1)"
  have v1: "view s1 = view (statedb evm)" using quiet_sel(3) q0 q1(1) by simp
  note n = SetNonce_spec [OF wf1, of ?c "nonce + 1"]
  note acc = AddAddressToAccessList_spec [OF extends_wf, OF n [THEN conjunct1], of a]
  have v2: "view s2 = create_entry ctx ?c a (view (statedb evm))"
    using n acc q1(2) v1 quiet_sel(3) [OF q0]
    by (simp add: s2_def create_entry_def Let_def vAccess_view [symmetric] del: vAccess_view)
  have wf2: "wf_state s2" using n acc by (auto simp: s2_def intro: extends_wf)
  obtain ch s3 where ch: "GetCodeHash a s2 = (ch, s3)" by fastforce
  have q3: "quiet s2 s3" using GetCodeHash_spec [OF wf2 ch] by auto
  then have wf3: "wf_state s3" using evolves_wf [OF evolves_quiet [OF wf2]] by blast
  obtain nn s4 where nn: "GetNonce a s3 = (nn, s4)" by fastforce
  have q4: "quiet s3 s4" using GetNonce_spec [OF wf3 nn] by auto
  then have wf4: "wf_state s4" using evolves_wf [OF evolves_quiet [OF wf3]] by blast
  have v4: "view s4 = view s2" using quiet_sel(3) q3 q4 by simp
  have "create_undone ctx s4 (deploy ctx run caller code h gas value a (evm \<lparr> statedb := s4 \<rparr>))"
    using deploy_ok [OF assms(1), of "evm \<lparr> statedb := s4 \<rparr>" gas] wf4 assms(3,4) by simp
  then show ?thesis using r False can nonce ch nn quiet_sel(3) [OF q0] v1 v2 v4 assms(5)
    by (auto simp: create_def Let_def s2_def [symmetric] create_undone_def split: if_splits)
qed

section \<open>A concrete machine\<close>

definition demo_crypto :: cryptoLib where
  "demo_crypto = \<lparr> keccak256 = (\<lambda>b. word_of_nat (length b)), Ecrecover = (\<lambda>_ _. None), sha256sum = (\<lambda>b. b),
     ripemd160sum = (\<lambda>b. b), bn256Add = (\<lambda>_ b. Inr b), bn256ScalarMult = (\<lambda>b _. Inr b),
     bn256CurvePoint = (\<lambda>_. None), bn256TwistPoint = (\<lambda>_. None), bn256PairingCheck = (\<lambda>_. True), blake2bF = (\<lambda>b. b) \<rparr>"

definition demo_ctx :: "vmContext" where
  "demo_ctx = \<lparr> GetHash = (\<lambda>_. 0), bCoinbase = 9, bGasLimit = 30000000, bBlockNumber = 5, bTime = 7, bDifficulty = 1,
     bBaseFee = 0, bRandom = None, txOrigin = 1, txGasPrice = 0, chainConfig = MainnetChainConfig,
     chainRules = RulesOf MainnetChainConfig 5 False 7, EnablePreimageRecording = False,
     jumpTable = (case instructionSet (RulesOf MainnetChainConfig 5 False 7) of Ret jt \<Rightarrow> jt | _ \<Rightarrow> (\<lambda>_. undefined_op)),
     abort = False, lib = demo_crypto, u256lib = uint256_doc \<rparr>"

definition demo_evm :: EVM where
  "demo_evm = \<lparr> statedb = demo_state, depth = 0, callGasTemp = 0, readOnly = False, returnData = [],
     jumpdests = Map.empty \<rparr>"

text \<open>\<open>JUMPDEST PUSH1 0 JUMP\<close>, an endless loop but for the gas.\<close>

definition demo_contract :: Contract where
  "demo_contract = \<lparr> CallerAddress = 1, selfAddr = 2, canalysis = None, Code = [0x5b, 0x60, 0, 0x56], CodeHash = 0,
     CodeAddr = None, Input = [], Gas = 100, cvalue = 0 \<rparr>"

lemma demo_configured: "configured demo_ctx"
proof -
  have "rIsEIP150 (RulesOf MainnetChainConfig 5 False 7)" by code_simp
  moreover obtain jt where "instructionSet (RulesOf MainnetChainConfig 5 False 7) = Ret jt"
    using instructionSet_ok by blast
  ultimately show ?thesis by (simp add: configured_def demo_ctx_def)
qed

lemma demo_sel: "wf_state (statedb demo_evm)" "unat (Gas demo_contract) = 100" "readOnly demo_evm = False"
  "depth demo_evm = 0" "statedb demo_evm = demo_state"
  by (simp_all add: demo_evm_def demo_contract_def wf_demo_state)

section \<open>Properties of execution\<close>

text \<open>
  C1: \<open>Run\<close> returns. Whatever code a contract has, the loop and all calls nested in it end: there is a
  result that \<open>Run\<close> gives with every fuel above the gas of the contract, and it is not \<open>NoFuel\<close>.
\<close>

theorem Run_returns:
  assumes "configured ctx" "wf_state (statedb evm)"
  shows "\<exists>r. r \<noteq> NoFuel \<and> (\<forall>n. unat (Gas c) < n \<longrightarrow> Run n ctx c input ro evm = r)"
proof -
  let ?m = "Suc (unat (Gas c))"
  have "Run ?m ctx c input ro evm \<noteq> NoFuel"
    using run_okD [OF Run_ok [OF configured_ok [OF assms(1)]] assms(2), where n = ?m and c = c and input = input and ro = ro] by auto
  then show ?thesis using Run_mono Suc_leI by blast
qed

theorem Run_returns_witness:
  "Run 101 demo_ctx demo_contract [] False demo_evm \<noteq> NoFuel \<and>
   Run 5000 demo_ctx demo_contract [] False demo_evm = Run 101 demo_ctx demo_contract [] False demo_evm"
  using Run_returns [OF demo_configured demo_sel(1), of demo_contract "[]" False] demo_sel(2) by auto

text \<open>
  C20: execution is safe. \<open>Run\<close> never fails a bounds check of the stack or the memory, never resizes memory
  beyond what was paid for and never reverts to an unknown revision; it leaves at most the gas it got,
  restores call depth and read-only flag, leaves a well-formed state, and in read-only mode the
  observable state of every account, the logs and the transient storage are as before.
\<close>

theorem Run_safe:
  assumes "configured ctx" "wf_state (statedb evm)" "unat (Gas c) < n"
  shows "case Run n ctx c input ro evm of
      NoFuel \<Rightarrow> False
    | Panic msg \<Rightarrow> msg \<notin> vm_panics
    | Ret (ret, err, c', evm') \<Rightarrow> unat (Gas c') \<le> unat (Gas c) \<and> depth evm' = depth evm \<and>
        readOnly evm' = readOnly evm \<and> wf_state (statedb evm') \<and>
        (ro \<or> readOnly evm \<longrightarrow> frozen (view (statedb evm)) (view (statedb evm')))"
  using run_okD [OF Run_ok [OF configured_ok [OF assms(1)]] assms(2,3), where input = input and ro = ro]
  by (cases "Run n ctx c input ro evm") (auto simp: kept_def evolves_def dest: extends_wf split: prod.splits)

theorem Run_safe_witness:
  "case Run 101 demo_ctx demo_contract [] True demo_evm of
      NoFuel \<Rightarrow> False
    | Panic msg \<Rightarrow> msg \<notin> vm_panics
    | Ret (ret, err, c', evm') \<Rightarrow> unat (Gas c') \<le> 100 \<and> frozen (view demo_state) (view (statedb evm'))"
  using Run_safe [OF demo_configured demo_sel(1), where c = demo_contract and n = 101 and input = "[]" and ro = True] demo_sel(2,5)
  by (auto split: go.splits)

text \<open>
  C2: the contract of \<open>Call\<close>: it returns, with at most the gas it was given; when it returns an error the
  observable state is exactly the one before the call, and the gas is gone unless the error is a revert
  or was found before the callee started. In read-only mode \<open>Call\<close> is used with value 0 only.
\<close>

theorem Call_keeps_contract:
  assumes "configured ctx" "wf_state (statedb evm)" "unat gas < n" "readOnly evm \<longrightarrow> value = 0"
  shows "call_contract (readOnly evm) evm gas (Call ctx (Run n ctx) caller addr input gas value evm)"
  using Call_ok [OF Run_ok [OF configured_ok [OF assms(1)]] assms(2,3)] assms(4)
  by (intro call_contractI calls_taken) auto

theorem Call_keeps_contract_witness:
  "call_contract False demo_evm 90000 (Call demo_ctx (Run 90001 demo_ctx) (AccountRef 1) 2 [] 90000 3 demo_evm)"
  using Call_keeps_contract [OF demo_configured demo_sel(1), of 90000 90001 3 "AccountRef 1" 2 "[]"] demo_sel(3) by simp

text \<open>
  the same contract for the calls that run foreign code on the caller's account: \<open>CallCode\<close>, and
  \<open>DelegateCall\<close> from a running contract.
\<close>

theorem CallCode_DelegateCall_keep_contract:
  assumes "configured ctx" "wf_state (statedb evm)" "unat gas < n"
  shows "call_contract (readOnly evm) evm gas (CallCode ctx (Run n ctx) caller addr input gas value evm) \<and>
    call_contract (readOnly evm) evm gas (DelegateCall ctx (Run n ctx) (ContractOf parent) addr input gas evm)"
  using CallCode_ok [OF Run_ok [OF configured_ok [OF assms(1)]] assms(2,3)]
    DelegateCall_ok [OF Run_ok [OF configured_ok [OF assms(1)]] assms(2,3)]
  by (intro conjI call_contractI calls_taken) auto

theorem CallCode_DelegateCall_keep_contract_witness:
  "call_contract False demo_evm 90000 (DelegateCall demo_ctx (Run 90001 demo_ctx) (ContractOf demo_contract) 2 [] 90000 demo_evm)"
  using CallCode_DelegateCall_keep_contract [OF demo_configured demo_sel(1), of 90000 90001] demo_sel(3) by simp

text \<open>
  C17: a static call is static. Whatever the callee does, and at any depth below it, \<open>StaticCall\<close> leaves every
  account that existed as it was, creates none but empty ones, and adds no log and no transient storage.
\<close>

theorem StaticCall_static:
  assumes "configured ctx" "wf_state (statedb evm)" "unat gas < n"
  shows "call_contract True evm gas (StaticCall ctx (Run n ctx) caller addr input gas evm)"
  using StaticCall_ok [OF Run_ok [OF configured_ok [OF assms(1)]] assms(2,3)]
  by (intro call_contractI calls_taken) auto

theorem StaticCall_static_witness:
  "call_contract True demo_evm 90000 (StaticCall demo_ctx (Run 90001 demo_ctx) (AccountRef 1) 2 [] 90000 demo_evm)"
  using StaticCall_static [OF demo_configured demo_sel(1), of 90000 90001 "AccountRef 1" 2 "[]"] by simp



text \<open>
  one iteration of the interpreter loop keeps the invariants of a frame: if it continues, the stack holds
  at most 1024 items, the memory is whole words, within the limit and paid for, and the gas has strictly
  decreased; if it stops, the gas has not grown. No bounds check of stack or memory fails.
\<close>

theorem step_keeps_frame:
  assumes "configured ctx" "wf_state (statedb evm)" "mem_inv (fmem f)" "unat (Gas (fcontract f)) \<le> n"
  shows "case step ctx (Run n ctx) f evm of
       NoFuel \<Rightarrow> False
     | Panic msg \<Rightarrow> msg \<notin> vm_panics
     | Ret (Done ret err f' evm') \<Rightarrow> unat (Gas (fcontract f')) \<le> unat (Gas (fcontract f)) \<and> wf_state (statedb evm')
     | Ret (Continue f' evm') \<Rightarrow> unat (Gas (fcontract f')) < unat (Gas (fcontract f)) \<and> wf_state (statedb evm') \<and>
         mem_inv (fmem f') \<and> length (fstack f') \<le> 1024"
  using step_ok [OF configured_ok [OF assms(1)] Run_ok [OF configured_ok [OF assms(1)]] assms(2-4)]
  by (auto simp: step_post_def evolves_def dest: extends_wf split: go.splits stepRes.splits)

theorem step_keeps_frame_witness:
  "case step demo_ctx (Run 100 demo_ctx) \<lparr> fpc = 0, fmem = NewMemory, fstack = [], fcontract = demo_contract \<rparr> demo_evm of
     Ret (Continue f' evm') \<Rightarrow> unat (Gas (fcontract f')) < 100 \<and> length (fstack f') \<le> 1024
   | Ret (Done ret err f' evm') \<Rightarrow> unat (Gas (fcontract f')) \<le> 100
   | Panic msg \<Rightarrow> msg \<noteq> ''stack: index out of range''
   | NoFuel \<Rightarrow> False"
  using step_keeps_frame [OF demo_configured demo_sel(1),
      of "\<lparr> fpc = 0, fmem = NewMemory, fstack = [], fcontract = demo_contract \<rparr>" 100] demo_sel(2)
  by (auto simp: vm_panics_def split: go.splits stepRes.splits)

text \<open>
  memory expansion costs exactly what the yellow paper says. For a frame memory that is paid for, the
  fee for growing to \<open>sz\<close> bytes is the difference of \<open>3w + w^2/512\<close> (\<open>w\<close> in words) before and after, computed
  without overflow in 64 bits, an error is returned exactly above the limit of 0x1FFFFFFFE0 bytes, and
  resizing to a whole number of words keeps the memory paid for.
\<close>

theorem memoryGasCost_exact:
  assumes "mem_inv m" "32 dvd unat sz"
  shows "case memoryGasCost m sz of (g, err, m') \<Rightarrow>
    if unat sz \<le> max_memory
    then err = None \<and>
      unat g = mem_fee (max (words_of (mem_Len m)) (words_of (unat sz))) - mem_fee (words_of (mem_Len m)) \<and>
      mem_inv (if sz > 0 then mem_Resize sz m' else m')
    else err = Some ErrGasUintOverflow \<and> m' = m"
proof (cases "unat sz \<le> max_memory")
  case True
  obtain g err m' where c: "memoryGasCost m sz = (g, err, m')" by (metis prod_cases3)
  have err: "err = None" using c True memoryGasCost_spec [OF assms(1), of sz] by auto
  note p = memoryGasCost_paid [OF assms(1) c [unfolded err]]
  show ?thesis using c err True p(3) mem_Resize_inv(1) [OF assms(1) p(1) assms(2)] by simp
next
  case False
  then show ?thesis using memoryGasCost_spec [OF assms(1), of sz] by simp
qed

theorem memoryGasCost_exact_witness:
  "case memoryGasCost NewMemory 1024 of (g, err, m') \<Rightarrow> err = None \<and> unat g = mem_fee 32 \<and> mem_inv (mem_Resize 1024 m')"
  using memoryGasCost_exact [OF NewMemory_inv, of 1024]
  by (simp add: mem_fee_def words_of_def NewMemory_def mem_Len_def)

text \<open>
  from EIP-150 on a call never fails for its gas argument and gets what it asks for, but at most all
  but a 64th of what remains after the base cost.
\<close>

theorem callGas_all_but_64th:
  "callGas True availableGas base callCost =
    ((if unat callCost \<le> unat (availableGas - base) - unat (availableGas - base) div 64 then Uint64 callCost
      else (availableGas - base) - (availableGas - base) div 64), None)"
  using callGas_eip150 [of availableGas base callCost] by (cases "callGas True availableGas base callCost") auto

text \<open>
  C33: with consistent caches \<open>validJumpdest\<close> accepts exactly the positions that hold a JUMPDEST byte at the
  start of an instruction of the left-to-right decoding, for every 256-bit destination, and keeps the
  caches consistent.
\<close>

theorem validJumpdest_exact:
  assumes "cache_ok c evm" "length (Code c) < 2 ^ 64"
  shows "\<exists>c' evm'. validJumpdest dest c evm =
    Ret (unat dest < length (Code c) \<and> Code c ! unat dest = OP_JUMPDEST \<and> unat dest \<in> set (instr_starts 0 (Code c)), c', evm') \<and>
    cache_ok c' evm' \<and> statedb evm' = statedb evm \<and> Code c' = Code c \<and> Gas c' = Gas c"
proof -
  obtain u ov where u: "Uint64WithOverflow dest = (u, ov)" by fastforce
  have over: "ov \<or> u \<ge> len64 (Code c) \<longleftrightarrow> \<not> unat dest < length (Code c)" "\<not> ov \<Longrightarrow> unat u = unat dest"
    using u assms(2) unat_Uint64 [of dest]
    by (auto simp: Uint64WithOverflow_def IsUint64_def Uint64_def word_le_nat_alt unat_of_nat len64_def)
  show ?thesis
  proof (cases "unat dest < length (Code c) \<and> Code c ! unat dest = OP_JUMPDEST")
    case True
    then have "unat u < length (Code c)" using over by simp
    from isCode_exact [OF assms(1) this] obtain c' evm' where
      "isCode u c evm = Ret (unat u \<in> set (instr_starts 0 (Code c)), c', evm')" "cache_ok c' evm'"
      "\<exists>a. c' = c \<lparr> canalysis := a \<rparr>" "\<exists>j. evm' = evm \<lparr> jumpdests := j \<rparr>" by blast
    then show ?thesis using True u over by (auto simp: validJumpdest_def)
  next
    case False
    then show ?thesis using u over assms(1) by (auto simp: validJumpdest_def)
  qed
qed

theorem validJumpdest_exact_witness:
  "\<exists>c' evm'. validJumpdest 0 demo_contract demo_evm = Ret (True, c', evm') \<and> cache_ok c' evm'"
proof -
  have "cache_ok demo_contract demo_evm" "length (Code demo_contract) < 2 ^ 64"
    by (simp_all add: cache_ok_def demo_contract_def demo_evm_def)
  from validJumpdest_exact [OF this, of 0] show ?thesis by (auto simp: demo_contract_def)
qed

text \<open>
  \<open>Transfer\<close> moves the amount: the sender loses it, the recipient gains it, every other balance stays, and a
  transfer to oneself changes no balance.
\<close>

theorem Transfer_moves:
  assumes "wf_state s"
  shows "vbalance (view (Transfer sender recipient amount s)) a =
    vbalance (view s) a - (if a = sender then amount else 0) + (if a = recipient then amount else 0)"
  using AddBalance_spec [OF extends_wf, of s "SubBalance sender amount s" recipient amount] SubBalance_spec [OF assms, of sender amount]
  by (simp add: Transfer_def vbalance_add vbalance_sub)

theorem Transfer_moves_witness:
  "vbalance (view (Transfer 1 2 3 demo_state)) 1 = vbalance (view demo_state) 1 - 3"
  using Transfer_moves [OF wf_demo_state, of 1 2 3 1] by simp

end
