(* ===== verification/State_Transition.thy ===== *)
theory State_Transition
  imports VM_Props
begin

text \<open>
  Applying one transaction: \<^verbatim>\<open>client/core/state_transition.go\<close> and the block's gas counter
  \<^verbatim>\<open>client/core/gaspool.go\<close>. A \<open>StateTransition\<close> holds what \<open>TransitionDb\<close> changes: the gas pool, the
  gas accounting and the machine with the state database; the message is a separate argument. A result is
  \<open>Inl\<close> an error, with which the block is invalid, or \<open>Inr\<close> an \<open>ExecutionResult\<close>, which may carry an
  error of the virtual machine. The context, the fuel of the interpreter and the flag \<open>NoBaseFee\<close> of the
  machine's configuration are arguments. Tracers are left out.
\<close>

section \<open>Gas pool\<close>

type_synonym GasPool = u64

datatype txErr =
    ErrNonceTooLow | ErrNonceTooHigh | ErrNonceMax | ErrGasLimitReached | ErrInsufficientFundsForTransfer
  | ErrTxMaxInitCodeSizeExceeded | ErrInsufficientFunds | ErrTxGasUintOverflow | ErrIntrinsicGas
  | ErrTipAboveFeeCap | ErrTipVeryHigh | ErrFeeCapVeryHigh | ErrFeeCapTooLow | ErrSenderNoEOA
  | ErrInvalidSender | ErrWithdrawals

definition AddGas :: "u64 \<Rightarrow> GasPool \<Rightarrow> GasPool go" where
  "AddGas amount gp = (if gp > MaxUint64 - amount then Panic ''gas pool pushed above uint64'' else Ret (gp + amount))"

definition SubGas :: "u64 \<Rightarrow> GasPool \<Rightarrow> txErr option \<times> GasPool" where
  "SubGas amount gp = (if gp < amount then (Some ErrGasLimitReached, gp) else (None, gp - amount))"

section \<open>Messages\<close>

record Message =
  mTo :: "address option"
  mFrom :: address
  mNonce :: u64
  mValue :: int
  mGasLimit :: u64
  mGasPrice :: int
  mGasFeeCap :: "int option"
  mGasTipCap :: "int option"
  mData :: bytes
  mAccessList :: "(address \<times> hash list) list"
  mSkipAccountChecks :: bool

record ExecutionResult =
  UsedGas :: u64
  resErr :: "vmErr option"
  ReturnData :: bytes

definition Failed :: "ExecutionResult \<Rightarrow> bool" where
  "Failed result = (resErr result \<noteq> None)"

definition Return :: "ExecutionResult \<Rightarrow> bytes" where
  "Return result = (if resErr result \<noteq> None then [] else ReturnData result)"

definition Revert :: "ExecutionResult \<Rightarrow> bytes" where
  "Revert result = (if resErr result \<noteq> Some ErrExecutionReverted then [] else ReturnData result)"

section \<open>Intrinsic gas\<close>

fun count_nonzero :: "bytes \<Rightarrow> u64 \<Rightarrow> u64" where
  "count_nonzero [] nz = nz"
| "count_nonzero (byt # data) nz = count_nonzero data (if byt \<noteq> 0 then nz + 1 else nz)"

fun StorageKeys :: "(address \<times> hash list) list \<Rightarrow> int" where
  "StorageKeys [] = 0"
| "StorageKeys ((a, keys) # al) = int (length keys) + StorageKeys al"

text \<open>\<open>gas += n * price\<close>, guarded against overflow.\<close>

definition charge_items :: "u64 \<Rightarrow> u64 \<Rightarrow> u64 \<Rightarrow> txErr + u64" where
  "charge_items gas price n =
    (if (MaxUint64 - gas) div price < n then Inl ErrTxGasUintOverflow else Inr (gas + n * price))"

definition data_gas :: "bytes \<Rightarrow> bool \<Rightarrow> bool \<Rightarrow> bool \<Rightarrow> u64 \<Rightarrow> txErr + u64" where
  "data_gas data isContractCreation isEIP2028 isEIP3860 gas =
    (let dataLen = len64 data in
     if dataLen > 0
     then
       let nz = count_nonzero data 0;
           nonZeroGas = (if isEIP2028 then TxDataNonZeroGasEIP2028 else TxDataNonZeroGasFrontier)
       in case charge_items gas nonZeroGas nz of
            Inl e \<Rightarrow> Inl e
          | Inr gas \<Rightarrow>
             (case charge_items gas TxDataZeroGas (dataLen - nz) of
                Inl e \<Rightarrow> Inl e
              | Inr gas \<Rightarrow>
                  if isContractCreation \<and> isEIP3860 then charge_items gas InitCodeWordGas (toWordSize dataLen)
                  else Inr gas)
     else Inr gas)"

text \<open>The cost of an access list is added without a check; a nil list costs nothing, like an empty one.\<close>

definition IntrinsicGas :: "bytes \<Rightarrow> (address \<times> hash list) list \<Rightarrow> bool \<Rightarrow> bool \<Rightarrow> bool \<Rightarrow> bool \<Rightarrow> txErr + u64" where
  "IntrinsicGas data accessList isContractCreation isHomestead isEIP2028 isEIP3860 =
    (case data_gas data isContractCreation isEIP2028 isEIP3860
            (if isContractCreation \<and> isHomestead then TxGasContractCreation else TxGas) of
       Inl e \<Rightarrow> Inl e
     | Inr gas \<Rightarrow> Inr (gas + len64 accessList * TxAccessListAddressGas
         + word_of_int (StorageKeys accessList) * TxAccessListStorageKeyGas))"

section \<open>State transition\<close>

record StateTransition =
  gp :: GasPool
  gasRemaining :: u64
  initialGas :: u64
  st_evm :: EVM

definition NewStateTransition :: "EVM \<Rightarrow> GasPool \<Rightarrow> StateTransition" where
  "NewStateTransition evm pool = \<lparr> gp = pool, gasRemaining = 0, initialGas = 0, st_evm = evm \<rparr>"

abbreviation st_state :: "StateTransition \<Rightarrow> StateDB" where
  "st_state st \<equiv> statedb (st_evm st)"

definition set_state :: "StateDB \<Rightarrow> StateTransition \<Rightarrow> StateTransition" where
  "set_state db st = st \<lparr> st_evm := (st_evm st) \<lparr> statedb := db \<rparr> \<rparr>"

definition msg_to :: "Message \<Rightarrow> address" where
  "msg_to msg = (case mTo msg of None \<Rightarrow> 0 | Some a \<Rightarrow> a)"

definition buyGas :: "Message \<Rightarrow> StateTransition \<Rightarrow> txErr option \<times> StateTransition" where
  "buyGas msg st =
    (let mgval = uint (mGasLimit msg) * mGasPrice msg;
         balanceCheck = (case mGasFeeCap msg of
            None \<Rightarrow> mgval
          | Some feeCap \<Rightarrow> uint (mGasLimit msg) * feeCap + mValue msg)
     in case GetBalance (mFrom msg) (st_state st) of (have, db) \<Rightarrow>
        let st = set_state db st in
        if have < balanceCheck then (Some ErrInsufficientFunds, st)
        else case SubGas (mGasLimit msg) (gp st) of
          (Some e, pool) \<Rightarrow> (Some e, st)
        | (None, pool) \<Rightarrow>
            (None, set_state (SubBalance (mFrom msg) mgval (st_state st))
               (st \<lparr> gp := pool, gasRemaining := gasRemaining st + mGasLimit msg, initialGas := mGasLimit msg \<rparr>)))"

text \<open>The sender checks of \<open>preCheck\<close>.\<close>

definition check_sender :: "Message \<Rightarrow> StateTransition \<Rightarrow> txErr option \<times> StateTransition" where
  "check_sender msg st =
    (case GetNonce (mFrom msg) (st_state st) of (stNonce, db) \<Rightarrow>
       let st = set_state db st in
       if stNonce < mNonce msg then (Some ErrNonceTooHigh, st)
       else if stNonce > mNonce msg then (Some ErrNonceTooLow, st)
       else if stNonce + 1 < stNonce then (Some ErrNonceMax, st)
       else case GetCodeHash (mFrom msg) (st_state st) of (codeHash, db) \<Rightarrow>
         (if codeHash \<noteq> 0 \<and> codeHash \<noteq> EmptyCodeHash then Some ErrSenderNoEOA else None, set_state db st))"

definition deref :: "'a option \<Rightarrow> 'a go" where
  "deref p = (case p of None \<Rightarrow> Panic ''nil pointer dereference'' | Some x \<Rightarrow> Ret x)"

text \<open>The fee checks of \<open>preCheck\<close>; the fields of the message may be nil in a simulated call.\<close>

definition check_fees :: "vmContext \<Rightarrow> bool \<Rightarrow> Message \<Rightarrow> txErr option go" where
  "check_fees ctx noBaseFee msg =
    (if IsLondon (chainConfig ctx) (bBlockNumber ctx)
     then go_bind
       (if \<not> noBaseFee then Ret True
        else go_bind (deref (mGasFeeCap msg)) (\<lambda>feeCap.
          if feeCap \<noteq> 0 then Ret True else go_bind (deref (mGasTipCap msg)) (\<lambda>tip. Ret (tip \<noteq> 0))))
       (\<lambda>check.
         if \<not> check then Ret None
         else go_bind (deref (mGasFeeCap msg)) (\<lambda>feeCap.
           if 2 ^ 256 \<le> \<bar>feeCap\<bar> then Ret (Some ErrFeeCapVeryHigh)
           else go_bind (deref (mGasTipCap msg)) (\<lambda>tip.
             Ret (if 2 ^ 256 \<le> \<bar>tip\<bar> then Some ErrTipVeryHigh
                  else if feeCap < tip then Some ErrTipAboveFeeCap
                  else if feeCap < bBaseFee ctx then Some ErrFeeCapTooLow
                  else None))))
     else Ret None)"

definition preCheck :: "vmContext \<Rightarrow> bool \<Rightarrow> Message \<Rightarrow> StateTransition \<Rightarrow> (txErr option \<times> StateTransition) go" where
  "preCheck ctx noBaseFee msg st =
    (case (if mSkipAccountChecks msg then (None, st) else check_sender msg st) of
       (Some e, st) \<Rightarrow> Ret (Some e, st)
     | (None, st) \<Rightarrow> go_bind (check_fees ctx noBaseFee msg) (\<lambda>err.
         case err of Some e \<Rightarrow> Ret (Some e, st) | None \<Rightarrow> Ret (buyGas msg st)))"

definition gasUsed :: "StateTransition \<Rightarrow> u64" where
  "gasUsed st = initialGas st - gasRemaining st"

definition refundGas :: "u64 \<Rightarrow> Message \<Rightarrow> StateTransition \<Rightarrow> StateTransition go" where
  "refundGas refundQuotient msg st =
    (let r = gasUsed st div refundQuotient;
         r = (if r > GetRefund (st_state st) then GetRefund (st_state st) else r);
         st = st \<lparr> gasRemaining := gasRemaining st + r \<rparr>;
         remaining = uint (gasRemaining st) * mGasPrice msg;
         st = set_state (AddBalance (mFrom msg) remaining (st_state st)) st
     in go_bind (AddGas (gasRemaining st) (gp st)) (\<lambda>pool. Ret (st \<lparr> gp := pool \<rparr>)))"

text \<open>The execution proper: creation, or nonce increment and call.\<close>

definition execute_msg :: "nat \<Rightarrow> vmContext \<Rightarrow> Message \<Rightarrow> StateTransition \<Rightarrow> (bytes \<times> vmErr option \<times> StateTransition) go" where
  "execute_msg fuel ctx msg st =
    (case mTo msg of
       None \<Rightarrow>
         go_bind (Create ctx (Run fuel ctx) (AccountRef (mFrom msg)) (mData msg) (gasRemaining st) (mValue msg) (st_evm st))
           (\<lambda>(ret, addr, gas, vmerr, evm). Ret (ret, vmerr, st \<lparr> gasRemaining := gas, st_evm := evm \<rparr>))
     | Some to \<Rightarrow>
         (case GetNonce (mFrom msg) (st_state st) of (nonce, db) \<Rightarrow>
            let st = set_state (SetNonce (mFrom msg) (nonce + 1) db) st in
            go_bind (Call ctx (Run fuel ctx) (AccountRef (mFrom msg)) (msg_to msg) (mData msg) (gasRemaining st) (mValue msg) (st_evm st))
              (\<lambda>(ret, gas, vmerr, evm). Ret (ret, vmerr, st \<lparr> gasRemaining := gas, st_evm := evm \<rparr>))))"

text \<open>The payment of the coinbase.\<close>

definition effectiveTip :: "vmContext \<Rightarrow> bool \<Rightarrow> Message \<Rightarrow> int go" where
  "effectiveTip ctx isLondon msg =
    (if isLondon
     then go_bind (deref (mGasTipCap msg)) (\<lambda>tip. go_bind (deref (mGasFeeCap msg)) (\<lambda>feeCap.
            Ret (min tip (feeCap - bBaseFee ctx))))
     else Ret (mGasPrice msg))"

definition payCoinbase :: "vmContext \<Rightarrow> bool \<Rightarrow> Message \<Rightarrow> int \<Rightarrow> StateTransition \<Rightarrow> StateTransition go" where
  "payCoinbase ctx noBaseFee msg tip st =
    go_bind
      (if \<not> noBaseFee then Ret False
       else go_bind (deref (mGasFeeCap msg)) (\<lambda>feeCap.
         if feeCap \<noteq> 0 then Ret False else go_bind (deref (mGasTipCap msg)) (\<lambda>tipCap. Ret (tipCap = 0))))
      (\<lambda>skip. Ret (if skip then st
         else set_state (AddBalance (bCoinbase ctx) (uint (gasUsed st) * tip) (st_state st)) st))"

text \<open>What follows the checks: prepare the access list, execute, refund, pay.\<close>

definition applyMsg :: "nat \<Rightarrow> vmContext \<Rightarrow> bool \<Rightarrow> Rules \<Rightarrow> Message \<Rightarrow> StateTransition \<Rightarrow> (ExecutionResult \<times> StateTransition) go" where
  "applyMsg fuel ctx noBaseFee rules msg st =
    go_bind (StateDB_Prepare rules (mFrom msg) (bCoinbase ctx) (mTo msg) (ActivePrecompiles rules) (mAccessList msg) (st_state st))
      (\<lambda>db. go_bind (execute_msg fuel ctx msg (set_state db st)) (\<lambda>(ret, vmerr, st).
        go_bind (refundGas (if rIsLondon rules then RefundQuotientEIP3529 else RefundQuotient) msg st) (\<lambda>st.
        go_bind (effectiveTip ctx (rIsLondon rules) msg) (\<lambda>tip.
        go_bind (payCoinbase ctx noBaseFee msg tip st) (\<lambda>st.
          Ret (\<lparr> UsedGas = gasUsed st, resErr = vmerr, ReturnData = ret \<rparr>, st))))))"

text \<open>Clause 6: the sender can pay the value.\<close>

definition canPay :: "Message \<Rightarrow> StateTransition \<Rightarrow> bool \<times> StateTransition" where
  "canPay msg st =
    (if mValue msg > 0
     then case CanTransfer (mFrom msg) (mValue msg) (st_state st) of (b, db) \<Rightarrow> (b, set_state db st)
     else (True, st))"

definition txRules :: "vmContext \<Rightarrow> Rules" where
  "txRules ctx = RulesOf (chainConfig ctx) (bBlockNumber ctx) (bRandom ctx \<noteq> None) (bTime ctx)"

definition TransitionDb ::
    "nat \<Rightarrow> vmContext \<Rightarrow> bool \<Rightarrow> Message \<Rightarrow> StateTransition \<Rightarrow> ((txErr + ExecutionResult) \<times> StateTransition) go" where
  "TransitionDb fuel ctx noBaseFee msg st =
    go_bind (preCheck ctx noBaseFee msg st) (\<lambda>(err, st).
      case err of Some e \<Rightarrow> Ret (Inl e, st)
      | None \<Rightarrow>
        let rules = txRules ctx;
            contractCreation = (mTo msg = None)
        in case IntrinsicGas (mData msg) (mAccessList msg) contractCreation (rIsHomestead rules) (rIsIstanbul rules)
                  (rIsShanghai rules) of
             Inl e \<Rightarrow> Ret (Inl e, st)
           | Inr gas \<Rightarrow>
              if gasRemaining st < gas then Ret (Inl ErrIntrinsicGas, st)
              else
                (case canPay msg (st \<lparr> gasRemaining := gasRemaining st - gas \<rparr>) of (ok, st) \<Rightarrow>
                   if \<not> ok then Ret (Inl ErrInsufficientFundsForTransfer, st)
                   else if rIsShanghai rules \<and> contractCreation \<and> length (mData msg) > MaxInitCodeSize
                   then Ret (Inl ErrTxMaxInitCodeSizeExceeded, st)
                   else go_bind (applyMsg fuel ctx noBaseFee rules msg st) (\<lambda>(result, st). Ret (Inr result, st))))"

definition ApplyMessage ::
    "nat \<Rightarrow> vmContext \<Rightarrow> bool \<Rightarrow> EVM \<Rightarrow> Message \<Rightarrow> GasPool \<Rightarrow> ((txErr + ExecutionResult) \<times> StateTransition) go" where
  "ApplyMessage fuel ctx noBaseFee evm msg pool = TransitionDb fuel ctx noBaseFee msg (NewStateTransition evm pool)"

end
