(* ===== verification/Transition_Props.thy ===== *)
theory Transition_Props
  imports State_Transition
begin

text \<open>
  Facts about applying a transaction: the intrinsic gas is the documented sum unless it overflows; the
  checks before execution accept exactly the valid messages and leave no trace otherwise; the gas pool, the
  gas used and the payments add up; a transaction whose execution fails costs its gas and its nonce.
\<close>

section \<open>Intrinsic gas\<close>

lemma count_nonzero_add:
  "unat nz + length data < 2 ^ 64 \<Longrightarrow> unat (count_nonzero data nz) = unat nz + length (filter (\<lambda>b. b \<noteq> 0) data)"
proof (induction data arbitrary: nz)
  case (Cons b data)
  have "unat (nz + 1) = unat nz + 1" using Cons.prems by (simp add: unat_add_u64)
  then show ?case using Cons by simp
qed simp

lemma unat_Max_sub: "unat (MaxUint64 - g) = 18446744073709551615 - unat g"
proof -
  have "unat g \<le> 18446744073709551615" using unat_u64_less [of g] by linarith
  then show ?thesis by (simp add: unat_sub_u64 word_le_nat_alt)
qed

text \<open>A gas amount as a 64-bit word, or the overflow error.\<close>

definition gas_of :: "nat \<Rightarrow> txErr + u64" where
  "gas_of m = (if m < 2 ^ 64 then Inr (word_of_nat m) else Inl ErrTxGasUintOverflow)"

lemma gas_of_bind:
  assumes "\<And>g. unat g = m \<Longrightarrow> f g = gas_of (m + k)"
  shows "(case gas_of m of Inl e \<Rightarrow> Inl e | Inr g \<Rightarrow> f g) = gas_of (m + k)"
  using assms [of "word_of_nat m"] by (auto simp: gas_of_def unat_of_nat)

lemma charge_items_exact:
  assumes "0 < unat price"
  shows "charge_items gas price n = gas_of (unat gas + unat n * unat price)"
proof -
  have g: "unat gas \<le> 18446744073709551615" using unat_u64_less [of gas] by linarith
  have "(MaxUint64 - gas) div price < n \<longleftrightarrow> (18446744073709551615 - unat gas) div unat price < unat n"
    by (simp add: word_less_nat_alt unat_div unat_Max_sub)
  also have "\<dots> \<longleftrightarrow> 18446744073709551615 - unat gas < unat n * unat price"
    using assms by (simp add: div_less_iff_less_mult)
  also have "\<dots> \<longleftrightarrow> \<not> unat gas + unat n * unat price < 2 ^ 64" using g by auto
  finally show ?thesis by (simp add: charge_items_def gas_of_def)
qed

definition data_cost :: "bytes \<Rightarrow> bool \<Rightarrow> bool \<Rightarrow> bool \<Rightarrow> nat" where
  "data_cost data creation eip2028 eip3860 =
    length (filter (\<lambda>b. b \<noteq> 0) data) * (if eip2028 then 16 else 68) + length (filter (\<lambda>b. b = 0) data) * 4 +
    (if creation \<and> eip3860 then (length data + 31) div 32 * 2 else 0)"

lemma data_gas_exact:
  assumes "length data < 2 ^ 64"
  shows "data_gas data creation eip2028 eip3860 gas = gas_of (unat gas + data_cost data creation eip2028 eip3860)"
proof (cases "data = []")
  case True
  then show ?thesis by (simp add: data_gas_def data_cost_def len64_def gas_of_def)
next
  case False
  let ?nz = "length (filter (\<lambda>b. b \<noteq> 0) data)" and ?z = "length (filter (\<lambda>b. b = 0) data)"
  let ?c = "if eip2028 then 16 else 68" and ?p = "if eip2028 then TxDataNonZeroGasEIP2028 else TxDataNonZeroGasFrontier"
  have len: "unat (len64 data) = length data" using assms by (rule unat_len64)
  have nz: "unat (count_nonzero data 0) = ?nz" using count_nonzero_add [of 0 data] assms by simp
  have sum: "?nz + ?z = length data"
    using sum_length_filter_compl [of "\<lambda>b. b \<noteq> 0" data] by simp
  have z: "unat (len64 data - count_nonzero data 0) = ?z"
    using len nz sum by (simp add: unat_sub_u64 word_le_nat_alt)
  have w: "unat (toWordSize (len64 data)) = (length data + 31) div 32" by (simp add: toWordSize_exact len)
  have pos: "len64 data > 0" using False len by (auto simp: word_less_nat_alt)
  have 1: "charge_items gas ?p (count_nonzero data 0) = gas_of (unat gas + ?nz * ?c)"
    by (simp add: charge_items_exact nz)
  define k where "k = (if creation \<and> eip3860 then (length data + 31) div 32 * 2 else 0)"
  have 2: "charge_items g TxDataZeroGas (len64 data - count_nonzero data 0) = gas_of (unat g + ?z * 4)" for g
    by (simp add: charge_items_exact z)
  have 3: "(if creation \<and> eip3860 then charge_items g InitCodeWordGas (toWordSize (len64 data)) else Inr g) = gas_of (unat g + k)" for g
    by (simp add: charge_items_exact w gas_of_def k_def)
  have 4: "(case gas_of (unat g + ?z * 4) of Inl e \<Rightarrow> Inl e | Inr h \<Rightarrow> gas_of (unat h + k)) = gas_of (unat g + ?z * 4 + k)" for g
    by (rule gas_of_bind) simp
  have "data_gas data creation eip2028 eip3860 gas = gas_of (unat gas + ?nz * ?c + (?z * 4 + k))"
    unfolding data_gas_def Let_def if_P [OF pos] 1 2 3 4 by (rule gas_of_bind) (simp add: add.assoc)
  then show ?thesis by (simp add: data_cost_def k_def add.assoc)
qed

lemma IntrinsicGas_spec:
  assumes "length data < 2 ^ 64"
  shows "IntrinsicGas data al creation homestead eip2028 eip3860 =
    (let cost = (if creation \<and> homestead then 53000 else 21000) + data_cost data creation eip2028 eip3860 in
     if cost < 2 ^ 64 then Inr (word_of_nat (cost + 2400 * length al + 1900 * nat (StorageKeys al)))
     else Inl ErrTxGasUintOverflow)"
proof -
  have "StorageKeys al \<ge> 0" by (induction al rule: StorageKeys.induct) auto
  then have k: "word_of_int (StorageKeys al) = (word_of_nat (nat (StorageKeys al)) :: u64)"
    by (metis int_nat_eq of_int_of_nat_eq)
  let ?b = "if creation \<and> homestead then TxGasContractCreation else TxGas"
  have b: "unat ?b = (if creation \<and> homestead then 53000 else 21000)" by simp
  show ?thesis
    unfolding IntrinsicGas_def data_gas_exact [OF assms] Let_def b gas_of_def by (simp add: k len64_def)
qed

section \<open>The checks before execution\<close>

lemma set_state_sel [simp]:
  "gp (set_state db st) = gp st" "gasRemaining (set_state db st) = gasRemaining st"
  "initialGas (set_state db st) = initialGas st" "st_state (set_state db st) = db"
  "depth (st_evm (set_state db st)) = depth (st_evm st)" "readOnly (st_evm (set_state db st)) = readOnly (st_evm st)"
  by (simp_all add: set_state_def)

lemma quiet_wf: "wf_state s \<Longrightarrow> quiet s t \<Longrightarrow> wf_state t"
  using evolves_wf evolves_quiet by blast

text \<open>What stays when nothing happens but reads.\<close>

definition untouched :: "StateTransition \<Rightarrow> StateTransition \<Rightarrow> bool" where
  "untouched st st' \<longleftrightarrow> gp st' = gp st \<and> gasRemaining st' = gasRemaining st \<and> initialGas st' = initialGas st \<and>
     depth (st_evm st') = depth (st_evm st) \<and> readOnly (st_evm st') = readOnly (st_evm st) \<and> quiet (st_state st) (st_state st')"

lemma untouched_trans: "untouched a b \<Longrightarrow> untouched b c \<Longrightarrow> untouched a c"
  by (auto simp: untouched_def intro: quiet_trans)

lemma untouched_wf: "wf_state (st_state st) \<Longrightarrow> untouched st st' \<Longrightarrow> wf_state (st_state st')"
  using quiet_wf by (auto simp: untouched_def)

lemma untouched_refl: "wf_state (st_state st) \<Longrightarrow> untouched st st"
  by (simp add: untouched_def wf_state_def)

lemma untouched_set: "quiet (st_state st) db \<Longrightarrow> untouched st (set_state db st)"
  by (simp add: untouched_def)

lemma untouched_view: "untouched st st' \<Longrightarrow> view (st_state st') = view (st_state st)"
  by (simp add: untouched_def quiet_sel)

definition sender_ok :: "Message \<Rightarrow> state_view \<Rightarrow> bool" where
  "sender_ok msg v \<longleftrightarrow> vnonce v (mFrom msg) = mNonce msg \<and> mNonce msg \<noteq> MaxUint64 \<and>
     vcodehash v (mFrom msg) \<in> {0, EmptyCodeHash}"

lemma inc_wraps: "(x :: u64) + 1 < x \<longleftrightarrow> x = MaxUint64"
proof (cases "unat x = 18446744073709551615")
  case True
  then have "x = MaxUint64" by (simp add: word_unat_eq_iff)
  then show ?thesis by simp
next
  case False
  then have "unat x + 1 < 18446744073709551616" using unat_u64_less [of x] by linarith
  then have "unat (x + 1) = unat x + 1" by (simp add: unat_add_u64)
  then show ?thesis using False by (auto simp: word_less_nat_alt)
qed

lemma check_sender_spec:
  assumes "wf_state (st_state st)" "check_sender msg st = (err, st')"
  shows "untouched st st' \<and> (err = None \<longleftrightarrow> sender_ok msg (view (st_state st)))"
proof -
  let ?v = "view (st_state st)"
  obtain n db where n: "GetNonce (mFrom msg) (st_state st) = (n, db)" by fastforce
  have q: "n = vnonce ?v (mFrom msg)" "quiet (st_state st) db" using GetNonce_spec [OF assms(1) n] by auto
  obtain h db' where h: "GetCodeHash (mFrom msg) db = (h, db')" by fastforce
  have q': "h = vcodehash ?v (mFrom msg)" "quiet db db'"
    using GetCodeHash_spec [OF quiet_wf [OF assms(1) q(2)] h] quiet_sel(3) [OF q(2)] by auto
  have u: "untouched st (set_state db st)" "untouched st (set_state db' (set_state db st))"
    using untouched_set [OF q(2)] untouched_trans [OF untouched_set [OF q(2)] untouched_set, of db'] q'(2) by simp_all
  show ?thesis using assms(2) n h q(1) q'(1) u
    by (auto simp: check_sender_def Let_def sender_ok_def inc_wraps split: if_splits)
qed

definition fees_ok :: "vmContext \<Rightarrow> bool \<Rightarrow> int \<Rightarrow> int \<Rightarrow> bool" where
  "fees_ok ctx noBaseFee feeCap tip \<longleftrightarrow>
    (IsLondon (chainConfig ctx) (bBlockNumber ctx) \<and> (\<not> noBaseFee \<or> feeCap \<noteq> 0 \<or> tip \<noteq> 0) \<longrightarrow>
       \<bar>feeCap\<bar> < 2 ^ 256 \<and> \<bar>tip\<bar> < 2 ^ 256 \<and> tip \<le> feeCap \<and> bBaseFee ctx \<le> feeCap)"

lemma check_fees_spec:
  assumes "mGasFeeCap msg = Some feeCap" "mGasTipCap msg = Some tip"
  shows "\<exists>err. check_fees ctx noBaseFee msg = Ret err \<and> (err = None \<longleftrightarrow> fees_ok ctx noBaseFee feeCap tip)"
proof -
  define big :: int where "big = 2 ^ 256"
  show ?thesis unfolding check_fees_def fees_ok_def big_def [symmetric] deref_def assms
    by (cases "IsLondon (chainConfig ctx) (bBlockNumber ctx)"; cases noBaseFee; cases "feeCap = 0"; cases "tip = 0")
      (simp_all add: not_le [symmetric])
qed

lemma buyGas_spec:
  assumes "wf_state (st_state st)" "buyGas msg st = (err, st')"
    and "want = (case mGasFeeCap msg of None \<Rightarrow> uint (mGasLimit msg) * mGasPrice msg
                 | Some feeCap \<Rightarrow> uint (mGasLimit msg) * feeCap + mValue msg)"
  shows "if want \<le> vbalance (view (st_state st)) (mFrom msg) \<and> unat (mGasLimit msg) \<le> unat (gp st)
    then err = None \<and> gp st' = gp st - mGasLimit msg \<and> gasRemaining st' = gasRemaining st + mGasLimit msg \<and>
      initialGas st' = mGasLimit msg \<and> wf_state (st_state st') \<and>
      depth (st_evm st') = depth (st_evm st) \<and> readOnly (st_evm st') = readOnly (st_evm st) \<and>
      view (st_state st') =
        vSubBalance (mFrom msg) (uint (mGasLimit msg) * mGasPrice msg) (vnew (mFrom msg) (view (st_state st)))
    else err \<in> {Some ErrInsufficientFunds, Some ErrGasLimitReached} \<and> untouched st st'"
proof -
  obtain b db where b: "GetBalance (mFrom msg) (st_state st) = (b, db)" by fastforce
  have q: "b = vbalance (view (st_state st)) (mFrom msg)" "quiet (st_state st) db" using GetBalance_spec [OF assms(1) b] by auto
  note u = untouched_set [OF q(2)]
  note sp = SubBalance_spec [OF quiet_wf [OF assms(1) q(2)], of "mFrom msg" "uint (mGasLimit msg) * mGasPrice msg"]
  show ?thesis using assms(2,3) b q(1) u sp quiet_sel(3) [OF q(2)]
    by (auto simp: buyGas_def Let_def SubGas_def word_less_nat_alt set_state_def dest: extends_wf split: if_splits)
qed

definition msg_valid :: "vmContext \<Rightarrow> bool \<Rightarrow> Message \<Rightarrow> int \<Rightarrow> int \<Rightarrow> state_view \<Rightarrow> u64 \<Rightarrow> bool" where
  "msg_valid ctx noBaseFee msg feeCap tip v pool \<longleftrightarrow>
     (mSkipAccountChecks msg \<or> sender_ok msg v) \<and> fees_ok ctx noBaseFee feeCap tip \<and>
     uint (mGasLimit msg) * feeCap + mValue msg \<le> vbalance v (mFrom msg) \<and> unat (mGasLimit msg) \<le> unat pool"

definition bought :: "Message \<Rightarrow> StateTransition \<Rightarrow> StateTransition \<Rightarrow> bool" where
  "bought msg st st' \<longleftrightarrow> gp st' = gp st - mGasLimit msg \<and> unat (mGasLimit msg) \<le> unat (gp st) \<and>
     gasRemaining st' = gasRemaining st + mGasLimit msg \<and> initialGas st' = mGasLimit msg \<and>
     wf_state (st_state st') \<and> depth (st_evm st') = depth (st_evm st) \<and> readOnly (st_evm st') = readOnly (st_evm st) \<and>
     view (st_state st') =
       vSubBalance (mFrom msg) (uint (mGasLimit msg) * mGasPrice msg) (vnew (mFrom msg) (view (st_state st)))"

lemma preCheck_start:
  assumes "wf_state (st_state st)" "(if mSkipAccountChecks msg then (None, st) else check_sender msg st) = (err, st1)"
  shows "untouched st st1 \<and> (err = None \<longleftrightarrow> mSkipAccountChecks msg \<or> sender_ok msg (view (st_state st)))"
  using assms check_sender_spec [OF assms(1)] untouched_refl [OF assms(1)] by (auto split: if_splits)

lemma buyGas_bought:
  assumes "wf_state (st_state st)" "untouched st st1" "buyGas msg st1 = (None, st')"
  shows "bought msg st st'"
proof -
  have "wf_state (st_state st1)" using untouched_wf [OF assms(1,2)] .
  from buyGas_spec [OF this assms(3) refl] show ?thesis
    using assms(2) untouched_view [OF assms(2)] by (auto simp: bought_def untouched_def split: if_splits)
qed

lemma preCheck_outcome:
  assumes "wf_state (st_state st)" "preCheck ctx noBaseFee msg st = Ret (err, st')"
  shows "case err of Some e \<Rightarrow> untouched st st' | None \<Rightarrow> bought msg st st'"
proof -
  obtain err1 st1 where 1: "(if mSkipAccountChecks msg then (None, st) else check_sender msg st) = (err1, st1)" by fastforce
  have u: "untouched st st1" using preCheck_start [OF assms(1) 1] by blast
  obtain err2 st2 where b: "buyGas msg st1 = (err2, st2)" by fastforce
  have "untouched st st2" if "err2 \<noteq> None"
    using buyGas_spec [OF untouched_wf [OF assms(1) u] b refl] that untouched_trans [OF u] by (auto split: if_splits)
  moreover have "bought msg st st2" if "err2 = None" using buyGas_bought [OF assms(1) u] b that by blast
  ultimately show ?thesis using assms(2) 1 b u
    by (auto simp: preCheck_def split: option.splits)
qed

lemma preCheck_spec:
  assumes "wf_state (st_state st)" "mGasFeeCap msg = Some feeCap" "mGasTipCap msg = Some tip"
  shows "\<exists>err st'. preCheck ctx noBaseFee msg st = Ret (err, st') \<and>
    (if msg_valid ctx noBaseFee msg feeCap tip (view (st_state st)) (gp st)
     then err = None \<and> bought msg st st'
     else err \<noteq> None \<and> untouched st st')"
proof -
  obtain err1 st1 where 1: "(if mSkipAccountChecks msg then (None, st) else check_sender msg st) = (err1, st1)" by fastforce
  note p1 = preCheck_start [OF assms(1) 1]
  obtain err2 where f: "check_fees ctx noBaseFee msg = Ret err2" "err2 = None \<longleftrightarrow> fees_ok ctx noBaseFee feeCap tip"
    using check_fees_spec [OF assms(2,3)] by blast
  obtain err3 st3 where b: "buyGas msg st1 = (err3, st3)" by fastforce
  have u: "untouched st st1" using p1 by blast
  have gp: "gp st1 = gp st" using u by (simp add: untouched_def)
  have b3: "err3 = None \<longleftrightarrow> uint (mGasLimit msg) * feeCap + mValue msg \<le> vbalance (view (st_state st)) (mFrom msg) \<and>
      unat (mGasLimit msg) \<le> unat (gp st)" "err3 \<noteq> None \<Longrightarrow> untouched st st3"
    using buyGas_spec [OF untouched_wf [OF assms(1) u] b refl] assms(2) untouched_view [OF u] gp untouched_trans [OF u]
    by (auto split: if_splits)
  have "bought msg st st3" if "err3 = None" using buyGas_bought [OF assms(1) u] b that by blast
  then show ?thesis using p1 f b b3 1
    by (cases err1; cases err2) (auto simp: preCheck_def msg_valid_def)
qed

text \<open>
  C28: the checks before a transaction are exact. For a message that names its fees, \<open>preCheck\<close> accepts exactly
  if the nonce is the sender's and can be incremented, the sender has no code, the fee cap and the tip fit in
  256 bits, are in order and cover the base fee, the balance covers value and gas at the fee cap, and
  the block has gas left; then the gas is bought: taken from the pool and paid at the gas price. Otherwise it
  reports an error and state, pool and counters are as before.
\<close>

theorem preCheck_exact:
  assumes "wf_state (st_state st)" "mGasFeeCap msg = Some feeCap" "mGasTipCap msg = Some tip"
  shows "\<exists>err st'. preCheck ctx noBaseFee msg st = Ret (err, st') \<and>
    (if msg_valid ctx noBaseFee msg feeCap tip (view (st_state st)) (gp st)
     then err = None \<and> bought msg st st'
     else err \<noteq> None \<and> untouched st st')"
  by (rule preCheck_spec [OF assms])

definition demo_msg :: Message where
  "demo_msg = \<lparr> mTo = Some 2, mFrom = 1, mNonce = 9, mValue = 3, mGasLimit = 30000, mGasPrice = 0, mGasFeeCap = Some 0,
     mGasTipCap = Some 0, mData = [], mAccessList = [], mSkipAccountChecks = False \<rparr>"

theorem preCheck_exact_witness:
  "\<exists>err st'. preCheck demo_ctx False demo_msg (NewStateTransition demo_evm 100000) = Ret (err, st') \<and>
    (msg_valid demo_ctx False demo_msg 0 0 (view demo_state) 100000 = (err = None))"
  using preCheck_exact [of "NewStateTransition demo_evm 100000" demo_msg 0 0 demo_ctx False]
  by (auto simp: NewStateTransition_def demo_evm_def wf_demo_state demo_msg_def split: if_splits)

section \<open>Execution\<close>

lemma add_keys_ok: "al_wf al \<Longrightarrow> \<exists>al'. add_keys a ks al = Ret al' \<and> al_wf al'"
proof (induction ks arbitrary: al)
  case (Cons k ks)
  then show ?case using al.add_slot_total [OF Cons.prems, of a k] by fastforce
qed simp

lemma add_tuples_ok: "al_wf al \<Longrightarrow> \<exists>al'. add_tuples ts al = Ret al' \<and> al_wf al'"
proof (induction ts al rule: add_tuples.induct)
  case (2 a ks ts al)
  obtain al' where "add_keys a ks (fst (AddAddress al a)) = Ret al'" "al_wf al'"
    using add_keys_ok [OF al.add_address_inv [OF "2.prems"]] by blast
  then show ?case using "2.IH" by fastforce
qed simp

lemma add_all_wf: "al_wf al \<Longrightarrow> al_wf (foldl (\<lambda>al a. fst (AddAddress al a)) al xs)"
  by (induction xs arbitrary: al) (auto intro: al.add_address_inv)

text \<open>\<open>Prepare\<close> returns; it changes the access list and the transient storage only.\<close>

lemma Prepare_ok:
  assumes "wf_state s"
  shows "\<exists>t. StateDB_Prepare rules a c d ps l s = Ret t \<and> wf_state t \<and> vObjs (view t) = vObjs (view s) \<and> vDb (view t) = vDb (view s)"
proof -
  define al where "al = foldl (\<lambda>al a. fst (AddAddress al a)) (case d of None \<Rightarrow> fst (AddAddress newAccessList a)
      | Some d \<Rightarrow> fst (AddAddress (fst (AddAddress newAccessList a)) d)) ps"
  have "al_wf al" unfolding al_def by (rule add_all_wf) (simp add: al.add_address_inv split: option.split)
  then obtain al' where al': "add_tuples l al = Ret al'" "al_wf al'" using add_tuples_ok by blast
  then have "al_wf (if rIsShanghai rules then fst (AddAddress al' c) else al')" by (auto intro: al.add_address_inv)
  then show ?thesis using al' assms
    by (auto simp: StateDB_Prepare_def al_def [symmetric] Let_def wf_state_def wf_objs_def wf_revs_def view_def)
qed

text \<open>A part of a transition that may spend gas and change the state, but no more.\<close>

definition spends :: "StateTransition \<Rightarrow> StateTransition \<Rightarrow> bool" where
  "spends st st' \<longleftrightarrow> gp st' = gp st \<and> initialGas st' = initialGas st \<and> unat (gasRemaining st') \<le> unat (gasRemaining st) \<and>
     wf_state (st_state st') \<and> readOnly (st_evm st') = readOnly (st_evm st)"

lemma execute_msg_ok:
  assumes "configured ctx" "wf_state (st_state st)" "unat (gasRemaining st) < n" "\<not> readOnly (st_evm st)"
  shows "case execute_msg n ctx msg st of
      NoFuel \<Rightarrow> False
    | Panic m \<Rightarrow> m \<notin> vm_panics
    | Ret (ret, vmerr, st') \<Rightarrow> spends st st'"
proof -
  note run = Run_ok [OF configured_ok [OF assms(1)], of n]
  show ?thesis
  proof (cases "mTo msg")
    case None
    have "create_ok (st_state st) (st_evm st) (gasRemaining st)
        (Create ctx (Run n ctx) (AccountRef (mFrom msg)) (mData msg) (gasRemaining st) (mValue msg) (st_evm st))"
      using Create_ok [OF run assms(2-4)] .
    then show ?thesis using None
      by (cases "Create ctx (Run n ctx) (AccountRef (mFrom msg)) (mData msg) (gasRemaining st) (mValue msg) (st_evm st)")
        (auto simp: execute_msg_def create_ok_def spends_def kept_def dest: evolves_wf)
  next
    case (Some a)
    obtain k db where k: "GetNonce (mFrom msg) (st_state st) = (k, db)" by fastforce
    have "quiet (st_state st) db" using GetNonce_spec [OF assms(2) k] by blast
    then have wf: "wf_state (SetNonce (mFrom msg) (k + 1) db)"
      using SetNonce_spec [OF quiet_wf [OF assms(2)]] extends_wf by blast
    let ?st = "set_state (SetNonce (mFrom msg) (k + 1) db) st"
    have "call_ok (readOnly (st_evm ?st)) (st_state ?st) (st_evm ?st) (gasRemaining ?st)
        (Call ctx (Run n ctx) (AccountRef (mFrom msg)) (msg_to msg) (mData msg) (gasRemaining ?st) (mValue msg) (st_evm ?st))"
      using Call_ok [OF run, of "st_evm ?st" "gasRemaining ?st" "mValue msg"] wf assms(3,4) by simp
    then show ?thesis using Some k
      by (cases "Call ctx (Run n ctx) (AccountRef (mFrom msg)) (msg_to msg) (mData msg) (gasRemaining ?st) (mValue msg) (st_evm ?st)")
        (auto simp: execute_msg_def Let_def call_ok_def spends_def kept_def dest: evolves_wf)
  qed
qed

lemma refundGas_ok:
  assumes "wf_state (st_state st)" "unat (gasRemaining st) \<le> unat (initialGas st)" "0 < unat q"
    and "unat (gp st) + unat (initialGas st) < 2 ^ 64"
  shows "\<exists>st'. refundGas q msg st = Ret st' \<and> wf_state (st_state st') \<and> initialGas st' = initialGas st \<and>
    readOnly (st_evm st') = readOnly (st_evm st) \<and>
    unat (gasRemaining st) \<le> unat (gasRemaining st') \<and>
    unat (gasRemaining st') \<le> unat (gasRemaining st) + (unat (initialGas st) - unat (gasRemaining st)) div unat q \<and>
    unat (gp st') = unat (gp st) + unat (gasRemaining st') \<and>
    view (st_state st') = vAddBalance (mFrom msg) (uint (gasRemaining st') * mGasPrice msg) (vnew (mFrom msg) (view (st_state st)))"
proof -
  define used where "used = unat (initialGas st) - unat (gasRemaining st)"
  have u: "unat (gasUsed st) = used" using assms(2) by (simp add: gasUsed_def unat_sub_u64 word_le_nat_alt used_def)
  define r where "r = (if gasUsed st div q > GetRefund (st_state st) then GetRefund (st_state st) else gasUsed st div q)"
  have r: "unat r \<le> used div unat q"
    by (auto simp: r_def u [symmetric] unat_div word_less_nat_alt not_less)
  have le: "used div unat q \<le> used" by simp
  have sum: "unat (gasRemaining st) + unat r \<le> unat (initialGas st)"
    using r le assms(2) used_def by linarith
  have "unat (gasRemaining st) + unat r < 18446744073709551616"
    using sum unat_u64_less [of "initialGas st"] by linarith
  then have g: "unat (gasRemaining st + r) = unat (gasRemaining st) + unat r" by (intro unat_add_small) simp
  define g' where "g' = gasRemaining st + r"
  have pool: "unat (gp st) + unat g' < 18446744073709551616" using sum g assms(4) by (simp add: g'_def)
  have add: "AddGas g' (gp st) = Ret (gp st + g')" "unat (gp st + g') = unat (gp st) + unat g'"
    using pool unat_Max_sub [of g'] by (simp_all add: AddGas_def word_less_nat_alt unat_add_u64)
  note sp = AddBalance_spec [OF assms(1), of "mFrom msg" "uint g' * mGasPrice msg"]
  show ?thesis using add sp g r used_def
    by (auto simp: refundGas_def Let_def r_def [symmetric] g'_def [symmetric] set_state_def dest: extends_wf)
qed

lemma payCoinbase_ok:
  assumes "wf_state (st_state st)" "mGasFeeCap msg = Some feeCap" "mGasTipCap msg = Some tip"
  shows "\<exists>st'. payCoinbase ctx noBaseFee msg t st = Ret st' \<and> wf_state (st_state st') \<and> gp st' = gp st \<and>
    gasUsed st' = gasUsed st \<and> initialGas st' = initialGas st \<and> readOnly (st_evm st') = readOnly (st_evm st) \<and>
    view (st_state st') = (if noBaseFee \<and> feeCap = 0 \<and> tip = 0 then view (st_state st)
      else vAddBalance (bCoinbase ctx) (uint (gasUsed st) * t) (vnew (bCoinbase ctx) (view (st_state st))))"
proof -
  note sp = AddBalance_spec [OF assms(1), of "bCoinbase ctx" "uint (gasUsed st) * t"]
  show ?thesis using assms sp
    by (cases noBaseFee; cases "feeCap = 0"; cases "tip = 0")
      (auto simp: payCoinbase_def deref_def set_state_def gasUsed_def dest: extends_wf)
qed

section \<open>Gas accounting\<close>

lemma div_add_le: "0 < q \<Longrightarrow> (x + d) div q \<le> x div q + d" for q :: nat
proof (induction d)
  case (Suc d)
  have "(x + Suc d) div q \<le> Suc ((x + d) div q)" by (simp add: div_Suc)
  then show ?case using Suc by simp
qed simp

lemma less_refund_mono:
  assumes "0 < q" "x \<le> y"
  shows "x - x div q \<le> y - y div (q :: nat)"
proof -
  obtain d where y: "y = x + d" using assms(2) le_Suc_ex by blast
  show ?thesis unfolding y using div_add_le [OF assms(1), of x d] by arith
qed

definition refundQuotient :: "Rules \<Rightarrow> nat" where
  "refundQuotient rules = (if rIsLondon rules then 5 else 2)"

lemma applyMsg_ok:
  assumes "configured ctx" "wf_state (st_state st)" "\<not> readOnly (st_evm st)" "unat (gasRemaining st) < n"
    and "unat (gasRemaining st) \<le> unat (initialGas st)" "unat (gp st) + unat (initialGas st) < 2 ^ 64"
    and "mGasFeeCap msg = Some feeCap" "mGasTipCap msg = Some tip"
  shows "case applyMsg n ctx noBaseFee rules msg st of
      NoFuel \<Rightarrow> False
    | Panic m \<Rightarrow> m \<notin> vm_panics
    | Ret (r, st') \<Rightarrow> wf_state (st_state st') \<and> readOnly (st_evm st') = readOnly (st_evm st) \<and>
        unat (UsedGas r) \<le> unat (initialGas st) \<and> unat (gp st') + unat (UsedGas r) = unat (gp st) + unat (initialGas st) \<and>
        (let spent = unat (initialGas st) - unat (gasRemaining st) in spent - spent div refundQuotient rules \<le> unat (UsedGas r))"
proof -
  obtain db where db: "StateDB_Prepare rules (mFrom msg) (bCoinbase ctx) (mTo msg) (ActivePrecompiles rules) (mAccessList msg)
      (st_state st) = Ret db" "wf_state db" using Prepare_ok [OF assms(2)] by blast
  let ?st = "set_state db st" and ?q = "if rIsLondon rules then RefundQuotientEIP3529 else RefundQuotient"
  have q: "unat ?q = refundQuotient rules" "0 < refundQuotient rules" by (auto simp: refundQuotient_def)
  have ex: "case execute_msg n ctx msg ?st of NoFuel \<Rightarrow> False | Panic m \<Rightarrow> m \<notin> vm_panics | Ret (ret, vmerr, st') \<Rightarrow> spends ?st st'"
    using execute_msg_ok [OF assms(1), of ?st n msg] db(2) assms(3,4) by simp
  show ?thesis
  proof (cases "execute_msg n ctx msg ?st")
    case (Ret x)
    obtain ret vmerr st1 where x: "x = (ret, vmerr, st1)" by (metis prod_cases3)
    have s1: "gp st1 = gp st" "initialGas st1 = initialGas st" "unat (gasRemaining st1) \<le> unat (gasRemaining st)" "wf_state (st_state st1)"
        "readOnly (st_evm st1) = readOnly (st_evm st)"
      using ex Ret x by (auto simp: spends_def)
    obtain st2 where s2: "refundGas ?q msg st1 = Ret st2" "wf_state (st_state st2)" "initialGas st2 = initialGas st"
        "unat (gasRemaining st2) \<le> unat (gasRemaining st1) + (unat (initialGas st) - unat (gasRemaining st1)) div refundQuotient rules"
        "unat (gp st2) = unat (gp st) + unat (gasRemaining st2)" "readOnly (st_evm st2) = readOnly (st_evm st)"
      using refundGas_ok [OF s1(4), of ?q msg] s1(1-3,5) q assms(5,6) by auto
    obtain t where t: "effectiveTip ctx (rIsLondon rules) msg = Ret t"
      using assms(7,8) by (cases "rIsLondon rules") (auto simp: effectiveTip_def deref_def)
    obtain st3 where s3: "payCoinbase ctx noBaseFee msg t st2 = Ret st3" "wf_state (st_state st3)" "gp st3 = gp st2"
        "gasUsed st3 = gasUsed st2" "readOnly (st_evm st3) = readOnly (st_evm st2)"
      using payCoinbase_ok [OF s2(2) assms(7,8)] by blast
    define i r1 r2 where "i = unat (initialGas st)" "r1 = unat (gasRemaining st1)" "r2 = unat (gasRemaining st2)"
    have le: "r1 \<le> i" using s1(3) assms(5) by (simp add: i_r1_r2_def)
    have "(i - r1) div refundQuotient rules \<le> i - r1" by (rule div_le_dividend)
    then have le2: "r2 \<le> i" using s2(4) le unfolding i_r1_r2_def by linarith
    then have "unat (gasUsed st2) = i - r2"
      by (simp add: gasUsed_def s2(3) unat_sub_u64 word_le_nat_alt i_r1_r2_def)
    then have used: "unat (gasUsed st3) = i - r2" by (simp add: s3(4))
    have "i - unat (gasRemaining st) - (i - unat (gasRemaining st)) div refundQuotient rules \<le> (i - r1) - (i - r1) div refundQuotient rules"
      using s1(3) by (intro less_refund_mono q) (simp add: i_r1_r2_def)
    also have "\<dots> \<le> i - r2" using s2(4) le by (simp add: i_r1_r2_def)
    finally show ?thesis using db Ret x s2 s3 t used le2
      by (simp add: applyMsg_def i_r1_r2_def Let_def)
  qed (use ex db in \<open>auto simp: applyMsg_def\<close>)
qed

lemma canPay_sel:
  assumes "wf_state (st_state st)" "canPay msg st = (ok, st')"
  shows "untouched st st'"
  using assms CanTransfer_state [OF assms(1)] untouched_refl [OF assms(1)] untouched_set
  by (fastforce simp: canPay_def split: if_splits prod.splits)

text \<open>A transaction is refused, or bought its gas and is executed with what the intrinsic gas leaves.\<close>

definition prepared :: "vmContext \<Rightarrow> Message \<Rightarrow> EVM \<Rightarrow> u64 \<Rightarrow> u64 \<Rightarrow> StateTransition \<Rightarrow> bool" where
  "prepared ctx msg evm pool g st \<longleftrightarrow>
     IntrinsicGas (mData msg) (mAccessList msg) (mTo msg = None) (rIsHomestead (txRules ctx)) (rIsIstanbul (txRules ctx))
       (rIsShanghai (txRules ctx)) = Inr g \<and>
     unat (gasRemaining st) + unat g = unat (mGasLimit msg) \<and> initialGas st = mGasLimit msg \<and>
     unat (gp st) + unat (mGasLimit msg) = unat pool \<and> wf_state (st_state st) \<and> readOnly (st_evm st) = readOnly evm \<and>
     view (st_state st) =
       vSubBalance (mFrom msg) (uint (mGasLimit msg) * mGasPrice msg) (vnew (mFrom msg) (view (statedb evm)))"

lemma ApplyMessage_cases:
  assumes "wf_state (statedb evm)" "mGasFeeCap msg = Some feeCap" "mGasTipCap msg = Some tip"
  obtains (refused) e st where "ApplyMessage n ctx noBaseFee evm msg pool = Ret (Inl e, st)" "wf_state (st_state st)"
      "unat (gp st) \<le> unat pool" "readOnly (st_evm st) = readOnly evm"
  | (executed) g st where "prepared ctx msg evm pool g st"
      "ApplyMessage n ctx noBaseFee evm msg pool =
        go_bind (applyMsg n ctx noBaseFee (txRules ctx) msg st) (\<lambda>(r, st). Ret (Inr r, st))"
proof -
  let ?st0 = "NewStateTransition evm pool"
  let ?G = "IntrinsicGas (mData msg) (mAccessList msg) (mTo msg = None) (rIsHomestead (txRules ctx)) (rIsIstanbul (txRules ctx))
       (rIsShanghai (txRules ctx))"
  have wf0: "wf_state (st_state ?st0)" using assms(1) by (simp add: NewStateTransition_def)
  from preCheck_spec [OF wf0 assms(2,3), of ctx noBaseFee] obtain err st1 where
    pre: "preCheck ctx noBaseFee msg ?st0 = Ret (err, st1)" by blast
  note out = preCheck_outcome [OF wf0 pre]
  show thesis
  proof (cases "err = None \<and> (\<exists>g. ?G = Inr g)")
    case False
    have "wf_state (st_state st1) \<and> unat (gp st1) \<le> unat pool \<and> readOnly (st_evm st1) = readOnly evm"
      using out untouched_wf [OF wf0] by (auto simp: bought_def untouched_def NewStateTransition_def unat_sub_u64 word_le_nat_alt split: option.splits)
    then show thesis using False pre by (cases ?G; cases err) (auto simp: ApplyMessage_def TransitionDb_def Let_def intro!: refused)
  next
    case True
    then obtain g where g: "err = None" "?G = Inr g" by blast
    have b: "gp st1 = pool - mGasLimit msg" "unat (mGasLimit msg) \<le> unat pool" "gasRemaining st1 = mGasLimit msg"
        "initialGas st1 = mGasLimit msg" "wf_state (st_state st1)" "readOnly (st_evm st1) = readOnly evm"
        "view (st_state st1) =
          vSubBalance (mFrom msg) (uint (mGasLimit msg) * mGasPrice msg) (vnew (mFrom msg) (view (statedb evm)))"
      using out g(1) by (auto simp: bought_def NewStateTransition_def)
    have p: "unat (gp st1) + unat (mGasLimit msg) = unat pool" using b(1,2) by (simp add: unat_sub_u64 word_le_nat_alt)
    obtain ok st2 where c: "canPay msg (st1 \<lparr> gasRemaining := mGasLimit msg - g \<rparr>) = (ok, st2)" by fastforce
    have s2: "gp st2 = gp st1" "initialGas st2 = mGasLimit msg" "wf_state (st_state st2)" "readOnly (st_evm st2) = readOnly evm"
        "gasRemaining st2 = mGasLimit msg - g" "view (st_state st2) = view (st_state st1)"
      using canPay_sel [OF _ c] b by (auto simp: untouched_def quiet_sel intro: quiet_wf)
    show thesis
    proof (cases "\<not> mGasLimit msg < g \<and> ok \<and> \<not> (rIsShanghai (txRules ctx) \<and> mTo msg = None \<and> length (mData msg) > MaxInitCodeSize)")
      case True
      have "unat (gasRemaining st2) + unat g = unat (mGasLimit msg)"
        using True s2(5) by (simp add: not_less word_le_nat_alt unat_sub_u64)
      then have "prepared ctx msg evm pool g st2" using g b s2 p by (simp add: prepared_def)
      then show thesis
        by (rule executed) (use pre g True b(3) c in \<open>auto simp: ApplyMessage_def TransitionDb_def Let_def\<close>)
    next
      case False
      then have "\<exists>e. ApplyMessage n ctx noBaseFee evm msg pool = Ret (Inl e, st1) \<or>
          ApplyMessage n ctx noBaseFee evm msg pool = Ret (Inl e, st2)"
        using pre g b(3) c by (auto simp: ApplyMessage_def TransitionDb_def Let_def)
      then show thesis using refused b(5,6) s2(1,3,4) p by fastforce
    qed
  qed
qed

lemma ApplyMessage_ok:
  assumes "configured ctx" "wf_state (statedb evm)" "\<not> readOnly evm" "unat (mGasLimit msg) < n"
    and "mGasFeeCap msg = Some feeCap" "mGasTipCap msg = Some tip"
  shows "case ApplyMessage n ctx noBaseFee evm msg pool of
      NoFuel \<Rightarrow> False
    | Panic m \<Rightarrow> m \<notin> vm_panics
    | Ret (Inl e, st) \<Rightarrow> wf_state (st_state st) \<and> readOnly (st_evm st) = readOnly evm \<and> unat (gp st) \<le> unat pool
    | Ret (Inr r, st) \<Rightarrow> wf_state (st_state st) \<and> readOnly (st_evm st) = readOnly evm \<and> unat (UsedGas r) \<le> unat (mGasLimit msg) \<and>
        unat (gp st) + unat (UsedGas r) = unat pool \<and>
        (\<exists>g. IntrinsicGas (mData msg) (mAccessList msg) (mTo msg = None) (rIsHomestead (txRules ctx)) (rIsIstanbul (txRules ctx))
              (rIsShanghai (txRules ctx)) = Inr g \<and>
          unat g - unat g div refundQuotient (txRules ctx) \<le> unat (UsedGas r))"
  using assms(2,5,6)
proof (cases rule: ApplyMessage_cases [of evm msg feeCap tip n ctx noBaseFee pool])
  case (refused e st)
  then show ?thesis by simp
next
  case (executed g st)
  have s: "unat (gasRemaining st) + unat g = unat (mGasLimit msg)" "initialGas st = mGasLimit msg"
      "unat (gp st) + unat (mGasLimit msg) = unat pool" "wf_state (st_state st)" "readOnly (st_evm st) = readOnly evm"
    using executed(1) by (auto simp: prepared_def)
  have "unat (gasRemaining st) < n" "unat (gasRemaining st) \<le> unat (initialGas st)"
      "unat (gp st) + unat (initialGas st) < 2 ^ 64" "\<not> readOnly (st_evm st)" using s assms(3,4) by auto
  note ok = applyMsg_ok [OF assms(1) s(4) this(4,1-3) assms(5,6), where noBaseFee = noBaseFee and rules = "txRules ctx"]
  have spent: "unat (initialGas st) - unat (gasRemaining st) = unat g" using s(1,2) by simp
  show ?thesis using executed ok [unfolded Let_def spent] s(2,3,5) by (auto simp: prepared_def split: go.splits)
qed

text \<open>
  C19: the gas of a transaction adds up. \<open>ApplyMessage\<close> returns, no bounds check fails and the
  gas pool never overflows, and for a transaction that is executed: the gas used is at most its limit, the gas pool of the
  block shrinks by exactly the gas used, and the gas used is at least the intrinsic gas less the
  largest refund, a half of it before London and a fifth since.
\<close>

theorem ApplyMessage_gas:
  assumes "configured ctx" "wf_state (statedb evm)" "\<not> readOnly evm" "unat (mGasLimit msg) < n"
    and "mGasFeeCap msg = Some feeCap" "mGasTipCap msg = Some tip"
  shows "case ApplyMessage n ctx noBaseFee evm msg pool of
      NoFuel \<Rightarrow> False
    | Panic m \<Rightarrow> m \<notin> vm_panics
    | Ret (Inl e, st) \<Rightarrow> wf_state (st_state st) \<and> unat (gp st) \<le> unat pool
    | Ret (Inr r, st) \<Rightarrow> wf_state (st_state st) \<and> unat (UsedGas r) \<le> unat (mGasLimit msg) \<and>
        unat (gp st) + unat (UsedGas r) = unat pool \<and>
        (\<exists>g. IntrinsicGas (mData msg) (mAccessList msg) (mTo msg = None) (rIsHomestead (txRules ctx)) (rIsIstanbul (txRules ctx))
              (rIsShanghai (txRules ctx)) = Inr g \<and>
          unat g - unat g div refundQuotient (txRules ctx) \<le> unat (UsedGas r))"
  using ApplyMessage_ok [OF assms, where noBaseFee = noBaseFee and pool = pool] by (auto split: go.splits sum.splits)

theorem ApplyMessage_gas_witness:
  "case ApplyMessage 30001 demo_ctx False demo_evm demo_msg 100000 of
      NoFuel \<Rightarrow> False
    | Panic m \<Rightarrow> m \<notin> vm_panics
    | Ret (Inl e, st) \<Rightarrow> unat (gp st) \<le> 100000
    | Ret (Inr r, st) \<Rightarrow> unat (UsedGas r) \<le> 30000 \<and> unat (gp st) + unat (UsedGas r) = 100000"
  using ApplyMessage_gas [OF demo_configured demo_sel(1), of demo_msg 30001 0 0, where noBaseFee = False and pool = 100000] demo_sel(3)
  by (auto simp: demo_msg_def split: go.splits sum.splits)

section \<open>Failed transactions\<close>

lemma uint_sub_le: "unat y \<le> unat x \<Longrightarrow> uint (x - y) = uint x - uint (y :: u64)"
proof -
  assume le: "unat y \<le> unat x"
  then have "int (unat (x - y)) = int (unat x) - int (unat y)" by (simp only: unat_sub_u64 word_le_nat_alt of_nat_diff)
  then show ?thesis by simp
qed

text \<open>Accounts that existed keep their code and their storage.\<close>

definition keeps_accounts :: "state_view \<Rightarrow> state_view \<Rightarrow> bool" where
  "keeps_accounts v w \<longleftrightarrow> (\<forall>a x. vlive v a = Some x \<longrightarrow>
     (\<exists>y. vlive w a = Some y \<and> vState y = vState x \<and> vCode y = vCode x \<and> vCodeHash y = vCodeHash x))"

lemma keeps_trans: "keeps_accounts u v \<Longrightarrow> keeps_accounts v w \<Longrightarrow> keeps_accounts u w"
  unfolding keeps_accounts_def by (metis (no_types, lifting))

lemma keeps_rules:
  "keeps_accounts v (vAddBalance a x (vnew a v))" "keeps_accounts v (vSubBalance a x (vnew a v))"
  "keeps_accounts v (vset a (\<lambda>o1. o1 \<lparr> vNonce := n \<rparr>) (vnew a v))" 
  by (auto simp: keeps_accounts_def vAddBalance_def vSubBalance_def vlive_vset vlive_vnew)

lemma keeps_objs: "vObjs w = vObjs v \<Longrightarrow> keeps_accounts v w"
  by (auto simp: keeps_accounts_def vlive_def)

lemma vnonce_balances:
  "vnonce (vAddBalance a x (vnew a v)) b = vnonce v b" "vnonce (vSubBalance a x (vnew a v)) b = vnonce v b"
  by (auto simp: vnonce_def vAddBalance_def vSubBalance_def vlive_vset vlive_vnew split: option.splits)

lemma vbalance_set_nonce: "vbalance (vset a (\<lambda>o1. o1 \<lparr> vNonce := n \<rparr>) (vnew a v)) b = vbalance v b"
  by (auto simp: vbalance_def vlive_vset vlive_vnew split: option.splits)

lemma vObjs_cong: "vObjs w = vObjs v \<Longrightarrow> vbalance w = vbalance v \<and> vnonce w = vnonce v"
  by (auto simp: vbalance_def vnonce_def vlive_def fun_eq_iff)

lemmas ledger = vbalance_add vbalance_sub vnonce_set vnonce_balances vbalance_set_nonce

lemma execute_call_failed:
  assumes "configured ctx" "wf_state (st_state st)" "unat (gasRemaining st) < n" "\<not> readOnly (st_evm st)" "mTo msg = Some a"
    and "execute_msg n ctx msg st = Ret (ret, Some e, st')"
  shows "view (st_state st') = vset (mFrom msg) (\<lambda>o1. o1 \<lparr> vNonce := vnonce (view (st_state st)) (mFrom msg) + 1 \<rparr>)
    (vnew (mFrom msg) (view (st_state st)))"
proof -
  obtain k db where k: "GetNonce (mFrom msg) (st_state st) = (k, db)" by fastforce
  have q: "k = vnonce (view (st_state st)) (mFrom msg)" "quiet (st_state st) db" using GetNonce_spec [OF assms(2) k] by blast+
  note sp = SetNonce_spec [OF quiet_wf [OF assms(2) q(2)], of "mFrom msg" "k + 1"]
  let ?st = "set_state (SetNonce (mFrom msg) (k + 1) db) st"
  have "undone (st_state ?st)
      (Call ctx (Run n ctx) (AccountRef (mFrom msg)) (msg_to msg) (mData msg) (gasRemaining ?st) (mValue msg) (st_evm ?st))"
    using Call_ok [OF Run_ok [OF configured_ok [OF assms(1)]], of "st_evm ?st" "gasRemaining ?st" n "mValue msg"]
      extends_wf [OF sp [THEN conjunct1]] assms(3,4) by simp
  then show ?thesis using assms(5,6) k q sp quiet_sel(3) [OF q(2)]
    by (auto simp: execute_msg_def Let_def undone_def)
qed

lemma applyMsg_failed:
  assumes "configured ctx" "wf_state (st_state st)" "unat (gasRemaining st) < n" "\<not> readOnly (st_evm st)" "mTo msg = Some to"
    and "unat (gasRemaining st) \<le> unat (initialGas st)" "unat (gp st) + unat (initialGas st) < 2 ^ 64"
    and "mGasFeeCap msg = Some feeCap" "mGasTipCap msg = Some tip" "effectiveTip ctx (rIsLondon rules) msg = Ret t"
    and run: "applyMsg n ctx False rules msg st = Ret (r, st')" "Failed r"
  shows "vbalance (view (st_state st')) a = vbalance (view (st_state st)) a
      + (if a = mFrom msg then (uint (initialGas st) - uint (UsedGas r)) * mGasPrice msg else 0)
      + (if a = bCoinbase ctx then uint (UsedGas r) * t else 0) \<and>
    vnonce (view (st_state st')) a = vnonce (view (st_state st)) a + (if a = mFrom msg then 1 else 0) \<and>
    keeps_accounts (view (st_state st)) (view (st_state st'))"
proof -
  obtain db where db: "StateDB_Prepare rules (mFrom msg) (bCoinbase ctx) (mTo msg) (ActivePrecompiles rules) (mAccessList msg)
      (st_state st) = Ret db" "wf_state db" "vObjs (view db) = vObjs (view (st_state st))" using Prepare_ok [OF assms(2)] by blast
  let ?st = "set_state db st" and ?q = "if rIsLondon rules then RefundQuotientEIP3529 else RefundQuotient"
  obtain ret e st1 st2 st3 where x: "execute_msg n ctx msg ?st = Ret (ret, Some e, st1)" "refundGas ?q msg st1 = Ret st2"
      "payCoinbase ctx False msg t st2 = Ret st3" "st' = st3" "UsedGas r = gasUsed st3"
    using run db(1) assms(10) by (auto simp: applyMsg_def Failed_def)
  have sp: "spends ?st st1" using execute_msg_ok [OF assms(1), of ?st n msg] db(2) assms(3,4) x(1) by simp
  have v1: "view (st_state st1) = vset (mFrom msg) (\<lambda>o1. o1 \<lparr> vNonce := vnonce (view db) (mFrom msg) + 1 \<rparr>) (vnew (mFrom msg) (view db))"
    using execute_call_failed [OF assms(1) _ _ _ assms(5) x(1)] db(2) assms(3,4) by simp
  have le: "unat (gasRemaining st1) \<le> unat (initialGas st)" using sp assms(6) by (auto simp: spends_def)
  have q: "0 < unat ?q" by simp
  have s2: "wf_state (st_state st2)" "initialGas st2 = initialGas st"
      "unat (gasRemaining st2) \<le> unat (gasRemaining st1) + (unat (initialGas st) - unat (gasRemaining st1)) div unat ?q"
      "view (st_state st2) = vAddBalance (mFrom msg) (uint (gasRemaining st2) * mGasPrice msg) (vnew (mFrom msg) (view (st_state st1)))"
    using refundGas_ok [of st1 ?q msg] q sp le assms(7) x(2) by (auto simp: spends_def)
  have s3: "gasUsed st3 = gasUsed st2"
      "view (st_state st3) = vAddBalance (bCoinbase ctx) (uint (gasUsed st2) * t) (vnew (bCoinbase ctx) (view (st_state st2)))"
    using payCoinbase_ok [OF s2(1) assms(8,9), of ctx False t] x(3) by auto
  have "(unat (initialGas st) - unat (gasRemaining st1)) div unat ?q \<le> unat (initialGas st) - unat (gasRemaining st1)" by (rule div_le_dividend)
  then have "unat (gasRemaining st2) \<le> unat (initialGas st)" using s2(3) le by linarith
  then have "uint (gasUsed st2) = uint (initialGas st) - uint (gasRemaining st2)"
    unfolding gasUsed_def s2(2) by (simp add: uint_sub_le)
  then have left_over: "uint (gasRemaining st2) = uint (initialGas st) - uint (UsedGas r)" using x(5) s3(1) by simp
  have "keeps_accounts (view (st_state st)) (view (st_state st'))"
    unfolding x(4) s3(2) s2(4) v1
    by (rule keeps_trans [OF keeps_trans [OF keeps_trans [OF keeps_objs [OF db(3)] keeps_rules(3)] keeps_rules(1)] keeps_rules(1)])
  then show ?thesis using vObjs_cong [OF db(3)] x(4,5) s3 by (simp add: s2(4) v1 ledger left_over)
qed



text \<open>
  the intrinsic gas is the documented sum: 21000, or 53000 for a creation from Homestead on, plus 4 per zero
  byte and 68 (16 from Istanbul on) per other byte of the data, plus 2 per word of init code from Shanghai
  on, plus 2400 per address and 1900 per storage key of the access list. The data part is checked for
  overflow exactly; the access list is added in 64 bits.
\<close>

theorem IntrinsicGas_exact:
  assumes "length data < 2 ^ 64"
  shows "IntrinsicGas data al creation homestead eip2028 eip3860 =
    (let cost = (if creation \<and> homestead then 53000 else 21000) +
           length (filter (\<lambda>b. b \<noteq> 0) data) * (if eip2028 then 16 else 68) + length (filter (\<lambda>b. b = 0) data) * 4 +
           (if creation \<and> eip3860 then (length data + 31) div 32 * 2 else 0) in
     if cost < 2 ^ 64 then Inr (word_of_nat (cost + 2400 * length al + 1900 * nat (StorageKeys al)))
     else Inl ErrTxGasUintOverflow)"
  unfolding IntrinsicGas_spec [OF assms] data_cost_def add.assoc ..

theorem IntrinsicGas_exact_witness:
  "IntrinsicGas [0, 7, 0] [(1, [2, 3])] False True True False = Inr 27224"
  using IntrinsicGas_exact [of "[0, 7, 0]" "[(1, [2, 3])]" False True True False] by simp

end
