(* ===== verification/Block_Processor.thy ===== *)
theory Block_Processor
  imports Bloom Transition_Props Ethash
begin

text \<open>
  Processing a block: \<^verbatim>\<open>client/core/state_processor.go\<close> (\<open>Process\<close>, \<open>applyTransaction\<close>), the construction of
  the machine's context (\<^verbatim>\<open>client/core/evm.go\<close>, \<open>NewEVM\<close>), the conversion of a transaction into a message, the
  DAO fork (\<^verbatim>\<open>client/consensus/misc/dao.go\<close>) and the end of a block in the consensus engine, \<open>Finalize\<close> with
  \<open>accumulateRewards\<close> (\<^verbatim>\<open>client/consensus/ethash/consensus.go\<close>).

  Hashing a transaction or a block and recovering the sender from a signature are fields of \<open>procLib\<close>, as is
  the root of the state trie, which receipts carried before Byzantium only. The hashes of ancestor
  blocks are the argument \<open>getHash\<close>.
\<close>

section \<open>Transactions and receipts\<close>

record Transaction =
  tType :: u8
  tNonce :: u64
  tGas :: u64
  tGasPrice :: int
  tGasFeeCap :: int
  tGasTipCap :: int
  tTo :: "address option"
  tValue :: int
  tData :: bytes
  tAccessList :: "(address \<times> hash list) list"

record Receipt =
  rType :: u8
  PostState :: "hash option"
  Status :: u64
  CumulativeGasUsed :: u64
  rBloom :: Bloom
  rLogs :: "Log list"
  rTxHash :: hash
  ContractAddress :: address
  rGasUsed :: u64
  rBlockHash :: hash
  rBlockNumber :: int
  TransactionIndex :: u64

record procLib =
  Sender :: "ChainConfig \<Rightarrow> int \<Rightarrow> Transaction \<Rightarrow> address option"
  txHash :: "Transaction \<Rightarrow> hash"
  blockHash :: "Header \<Rightarrow> hash"
  intermediateRoot :: "bool \<Rightarrow> StateDB \<Rightarrow> hash \<times> StateDB"

definition TransactionToMessage :: "procLib \<Rightarrow> ChainConfig \<Rightarrow> int \<Rightarrow> int option \<Rightarrow> Transaction \<Rightarrow> txErr + Message" where
  "TransactionToMessage pl config number baseFee tx =
    (case Sender pl config number tx of
       None \<Rightarrow> Inl ErrInvalidSender
     | Some from \<Rightarrow> Inr
        \<lparr> mTo = tTo tx, mFrom = from, mNonce = tNonce tx, mValue = tValue tx, mGasLimit = tGas tx,
          mGasPrice = (case baseFee of None \<Rightarrow> tGasPrice tx | Some fee \<Rightarrow> min (tGasTipCap tx + fee) (tGasFeeCap tx)),
          mGasFeeCap = Some (tGasFeeCap tx), mGasTipCap = Some (tGasTipCap tx), mData = tData tx,
          mAccessList = tAccessList tx, mSkipAccountChecks = False \<rparr>)"

section \<open>The machine of a block\<close>

definition NewEVM ::
    "ChainConfig \<Rightarrow> cryptoLib \<Rightarrow> uint256Lib \<Rightarrow> (u64 \<Rightarrow> hash) \<Rightarrow> address \<Rightarrow> nat list \<Rightarrow> bool \<Rightarrow> Header \<Rightarrow> vmContext go" where
  "NewEVM config crypto u256 getHash beneficiary extraEips recordPreimages header =
    (let random = (if Difficulty header = 0 then Some (MixDigest header) else None);
         rules = RulesOf config (Number header) (random \<noteq> None) (Time header)
     in go_bind (NewEVMInterpreter rules extraEips) (\<lambda>(table, _).
       Ret \<lparr> GetHash = getHash, bCoinbase = beneficiary, bGasLimit = GasLimit header, bBlockNumber = Number header,
         bTime = Time header, bDifficulty = Difficulty header,
         bBaseFee = (case BaseFee header of None \<Rightarrow> 0 | Some fee \<Rightarrow> fee), bRandom = random,
         txOrigin = 0, txGasPrice = 0, chainConfig = config, chainRules = rules,
         EnablePreimageRecording = recordPreimages, jumpTable = table, abort = False, lib = crypto, u256lib = u256 \<rparr>))"

text \<open>\<open>Reset\<close> with the context of the message.\<close>

definition NewEVMTxContext :: "Message \<Rightarrow> vmContext \<Rightarrow> vmContext" where
  "NewEVMTxContext msg ctx = ctx \<lparr> txOrigin := mFrom msg, txGasPrice := mGasPrice msg \<rparr>"

section \<open>Transactions of a block\<close>

definition GetLogs :: "hash \<Rightarrow> u64 \<Rightarrow> hash \<Rightarrow> StateDB \<Rightarrow> Log list \<times> StateDB" where
  "GetLogs h number bhash s =
    (case logs s h of
       None \<Rightarrow> ([], s)
     | Some ls \<Rightarrow>
        let ls = map (\<lambda>l. l \<lparr> lBlockNumber := number, lBlockHash := bhash \<rparr>) ls
        in (ls, s \<lparr> logs := (logs s)(h \<mapsto> ls) \<rparr>))"

text \<open>The state after a transaction, and the root that goes into its receipt.\<close>

definition finish_tx :: "procLib \<Rightarrow> ChainConfig \<Rightarrow> int \<Rightarrow> StateDB \<Rightarrow> hash option \<times> StateDB" where
  "finish_tx pl config number db =
    (if IsByzantium config number then (None, Finalise True db)
     else case intermediateRoot pl (IsEIP158 config number) db of (root, db) \<Rightarrow> (Some root, db))"

definition applyTransaction :: "nat \<Rightarrow> procLib \<Rightarrow> vmContext \<Rightarrow> bool \<Rightarrow> Message \<Rightarrow> GasPool \<Rightarrow> int \<Rightarrow> hash \<Rightarrow> Transaction \<Rightarrow>
    u64 \<Rightarrow> EVM \<Rightarrow> ((txErr + Receipt) \<times> GasPool \<times> u64 \<times> EVM) go" where
  "applyTransaction fuel pl ctx noBaseFee msg pool number bhash tx usedGas evm =
    (let ctx = NewEVMTxContext msg ctx in
     go_bind (ApplyMessage fuel ctx noBaseFee evm msg pool) (\<lambda>(res, st).
       case res of
         Inl e \<Rightarrow> Ret (Inl e, gp st, usedGas, st_evm st)
       | Inr result \<Rightarrow>
          (case finish_tx pl (chainConfig ctx) number (st_state st) of (root, db) \<Rightarrow>
           case GetLogs (txHash pl tx) (word_of_int number) bhash db of (ls, db) \<Rightarrow>
           let usedGas = usedGas + UsedGas result
           in Ret (Inr \<lparr> rType = tType tx, PostState = root, Status = (if Failed result then 0 else 1),
                     CumulativeGasUsed = usedGas, rBloom = CreateBloom (keccak256 (lib ctx)) [ls], rLogs = ls,
                     rTxHash = txHash pl tx,
                     ContractAddress = (if mTo msg = None then CreateAddress (lib ctx) (txOrigin ctx) (tNonce tx) else 0),
                     rGasUsed = UsedGas result, rBlockHash = bhash, rBlockNumber = number,
                     TransactionIndex = txIndex db \<rparr>,
                   gp st, usedGas, (st_evm st) \<lparr> statedb := db \<rparr>))))"

record processed =
  pReceipts :: "Receipt list"
  pLogs :: "Log list"
  pPool :: GasPool
  pUsed :: u64
  pEVM :: EVM

text \<open>The loop over the transactions; an error ends it with the index of the transaction.\<close>

fun process_txs :: "nat \<Rightarrow> procLib \<Rightarrow> vmContext \<Rightarrow> bool \<Rightarrow> Header \<Rightarrow> nat \<Rightarrow> Transaction list \<Rightarrow> processed \<Rightarrow>
    (nat \<times> txErr + processed) go" where
  "process_txs fuel pl ctx noBaseFee header i [] p = Ret (Inr p)"
| "process_txs fuel pl ctx noBaseFee header i (tx # txs) p =
    (case TransactionToMessage pl (chainConfig ctx) (Number header) (BaseFee header) tx of
       Inl e \<Rightarrow> Ret (Inl (i, e))
     | Inr msg \<Rightarrow>
        let evm = (pEVM p) \<lparr> statedb := SetTxContext (txHash pl tx) (word_of_nat i) (statedb (pEVM p)) \<rparr>
        in go_bind (applyTransaction fuel pl ctx noBaseFee msg (pPool p) (Number header) (blockHash pl header) tx (pUsed p) evm)
             (\<lambda>(res, pool, used, evm).
               case res of
                 Inl e \<Rightarrow> Ret (Inl (i, e))
               | Inr receipt \<Rightarrow>
                   process_txs fuel pl ctx noBaseFee header (Suc i) txs
                     \<lparr> pReceipts = pReceipts p @ [receipt], pLogs = pLogs p @ rLogs receipt, pPool = pool,
                       pUsed = used, pEVM = evm \<rparr>))"

section \<open>The DAO fork and block rewards\<close>

definition DAORefundContract :: address where
  "DAORefundContract = 0xbf4ed7b27f1d666546e30d74d50d173d20bca754"

definition DAODrainList :: "address list" where
  "DAODrainList = [
     0xd4fe7bc31cedb7bfb8a345f31e668033056b2728, 0xb3fb0e5aba0e20e5c49d252dfd30e102b171a425, 0x2c19c7f9ae8b751e37aeb2d93a699722395ae18f,
     0xecd135fa4f61a655311e86238c92adcd779555d2, 0x1975bd06d486162d5dc297798dfc41edd5d160a7, 0xa3acf3a1e16b1d7c315e23510fdd7847b48234f6,
     0x319f70bab6845585f412ec7724b744fec6095c85, 0x06706dd3f2c9abf0a21ddcc6941d9b86f0596936, 0x5c8536898fbb74fc7445814902fd08422eac56d0,
     0x6966ab0d485353095148a2155858910e0965b6f9, 0x779543a0491a837ca36ce8c635d6154e3c4911a6, 0x2a5ed960395e2a49b1c758cef4aa15213cfd874c,
     0x5c6e67ccd5849c0d29219c4f95f1a7a93b3f5dc5, 0x9c50426be05db97f5d64fc54bf89eff947f0a321, 0x200450f06520bdd6c527622a273333384d870efb,
     0xbe8539bfe837b67d1282b2b1d61c3f723966f049, 0x6b0c4d41ba9ab8d8cfb5d379c69a612f2ced8ecb, 0xf1385fb24aad0cd7432824085e42aff90886fef5,
     0xd1ac8b1ef1b69ff51d1d401a476e7e612414f091, 0x8163e7fb499e90f8544ea62bbf80d21cd26d9efd, 0x51e0ddd9998364a2eb38588679f0d2c42653e4a6,
     0x627a0a960c079c21c34f7612d5d230e01b4ad4c7, 0xf0b1aa0eb660754448a7937c022e30aa692fe0c5, 0x24c4d950dfd4dd1902bbed3508144a54542bba94,
     0x9f27daea7aca0aa0446220b98d028715e3bc803d, 0xa5dc5acd6a7968a4554d89d65e59b7fd3bff0f90, 0xd9aef3a1e38a39c16b31d1ace71bca8ef58d315b,
     0x63ed5a272de2f6d968408b4acb9024f4cc208ebf, 0x6f6704e5a10332af6672e50b3d9754dc460dfa4d, 0x77ca7b50b6cd7e2f3fa008e24ab793fd56cb15f6,
     0x492ea3bb0f3315521c31f273e565b868fc090f17, 0x0ff30d6de14a8224aa97b78aea5388d1c51c1f00, 0x9ea779f907f0b315b364b0cfc39a0fde5b02a416,
     0xceaeb481747ca6c540a000c1f3641f8cef161fa7, 0xcc34673c6c40e791051898567a1222daf90be287, 0x579a80d909f346fbfb1189493f521d7f48d52238,
     0xe308bd1ac5fda103967359b2712dd89deffb7973, 0x4cb31628079fb14e4bc3cd5e30c2f7489b00960c, 0xac1ecab32727358dba8962a0f3b261731aad9723,
     0x4fd6ace747f06ece9c49699c7cabc62d02211f75, 0x440c59b325d2997a134c2c7c60a8c61611212bad, 0x4486a3d68fac6967006d7a517b889fd3f98c102b,
     0x9c15b54878ba618f494b38f0ae7443db6af648ba, 0x27b137a85656544b1ccb5a0f2e561a5703c6a68f, 0x21c7fdb9ed8d291d79ffd82eb2c4356ec0d81241,
     0x23b75c2f6791eef49c69684db4c6c1f93bf49a50, 0x1ca6abd14d30affe533b24d7a21bff4c2d5e1f3b, 0xb9637156d330c0d605a791f1c31ba5890582fe1c,
     0x6131c42fa982e56929107413a9d526fd99405560, 0x1591fc0f688c81fbeb17f5426a162a7024d430c2, 0x542a9515200d14b68e934e9830d91645a980dd7a,
     0xc4bbd073882dd2add2424cf47d35213405b01324, 0x782495b7b3355efb2833d56ecb34dc22ad7dfcc4, 0x58b95c9a9d5d26825e70a82b6adb139d3fd829eb,
     0x3ba4d81db016dc2890c81f3acec2454bff5aada5, 0xb52042c8ca3f8aa246fa79c3feaa3d959347c0ab, 0xe4ae1efdfc53b73893af49113d8694a057b9c0d1,
     0x3c02a7bc0391e86d91b7d144e61c2c01a25a79c5, 0x0737a6b837f97f46ebade41b9bc3e1c509c85c53, 0x97f43a37f595ab5dd318fb46e7a155eae057317a,
     0x52c5317c848ba20c7504cb2c8052abd1fde29d03, 0x4863226780fe7c0356454236d3b1c8792785748d, 0x5d2b2e6fcbe3b11d26b525e085ff818dae332479,
     0x5f9f3392e9f62f63b8eac0beb55541fc8627f42c, 0x057b56736d32b86616a10f619859c6cd6f59092a, 0x9aa008f65de0b923a2a4f02012ad034a5e2e2192,
     0x304a554a310c7e546dfe434669c62820b7d83490, 0x914d1b8b43e92723e64fd0a06f5bdb8dd9b10c79, 0x4deb0033bb26bc534b197e61d19e0733e5679784,
     0x07f5c1e1bc2c93e0402f23341973a0e043f7bf8a, 0x35a051a0010aba705c9008d7a7eff6fb88f6ea7b, 0x4fa802324e929786dbda3b8820dc7834e9134a2a,
     0x9da397b9e80755301a3b32173283a91c0ef6c87e, 0x8d9edb3054ce5c5774a420ac37ebae0ac02343c6, 0x0101f3be8ebb4bbd39a2e3b9a3639d4259832fd9,
     0x5dc28b15dffed94048d73806ce4b7a4612a1d48f, 0xbcf899e6c7d9d5a215ab1e3444c86806fa854c76, 0x12e626b0eebfe86a56d633b9864e389b45dcb260,
     0xa2f1ccba9395d7fcb155bba8bc92db9bafaeade7, 0xec8e57756626fdc07c63ad2eafbd28d08e7b0ca5, 0xd164b088bd9108b60d0ca3751da4bceb207b0782,
     0x6231b6d0d5e77fe001c2a460bd9584fee60d409b, 0x1cba23d343a983e9b5cfd19496b9a9701ada385f, 0xa82f360a8d3455c5c41366975bde739c37bfeb8a,
     0x9fcd2deaff372a39cc679d5c5e4de7bafb0b1339, 0x005f5cee7a43331d5a3d3eec71305925a62f34b6, 0x0e0da70933f4c7849fc0d203f5d1d43b9ae4532d,
     0xd131637d5275fd1a68a3200f4ad25c71a2a9522e, 0xbc07118b9ac290e4622f5e77a0853539789effbe, 0x47e7aa56d6bdf3f36be34619660de61275420af8,
     0xacd87e28b0c9d1254e868b81cba4cc20d9a32225, 0xadf80daec7ba8dcf15392f1ac611fff65d94f880, 0x5524c55fb03cf21f549444ccbecb664d0acad706,
     0x40b803a9abce16f50f36a77ba41180eb90023925, 0xfe24cdd8648121a43a7c86d289be4dd2951ed49f, 0x17802f43a0137c506ba92291391a8a8f207f487d,
     0x253488078a4edf4d6f42f113d1e62836a942cf1a, 0x86af3e9626fce1957c82e88cbf04ddf3a2ed7915, 0xb136707642a4ea12fb4bae820f03d2562ebff487,
     0xdbe9b615a3ae8709af8b93336ce9b477e4ac0940, 0xf14c14075d6c4ed84b86798af0956deef67365b5, 0xca544e5c4687d109611d0f8f928b53a25af72448,
     0xaeeb8ff27288bdabc0fa5ebb731b6f409507516c, 0xcbb9d3703e651b0d496cdefb8b92c25aeb2171f7, 0x6d87578288b6cb5549d5076a207456a1f6a63dc0,
     0xb2c6f0dfbb716ac562e2d85d6cb2f8d5ee87603e, 0xaccc230e8a6e5be9160b8cdf2864dd2a001c28b6, 0x2b3455ec7fedf16e646268bf88846bd7a2319bb2,
     0x4613f3bca5c44ea06337a9e439fbc6d42e501d0a, 0xd343b217de44030afaa275f54d31a9317c7f441e, 0x84ef4b2357079cd7a7c69fd7a37cd0609a679106,
     0xda2fef9e4a3230988ff17df2165440f37e8b1708, 0xf4c64518ea10f995918a454158c6b61407ea345c, 0x7602b46df5390e432ef1c307d4f2c9ff6d65cc97,
     0xbb9bc244d798123fde783fcc1c72d3bb8c189413, 0x807640a13483f8ac783c557fcdf27be11ea4ac7a]"

definition drain :: "StateDB \<Rightarrow> address \<Rightarrow> StateDB" where
  "drain s addr =
    (case GetBalance addr s of (b, s) \<Rightarrow> SetBalance addr 0 (AddBalance DAORefundContract b s))"

definition ApplyDAOHardFork :: "StateDB \<Rightarrow> StateDB" where
  "ApplyDAOHardFork s =
    (case Exist DAORefundContract s of (ex, s) \<Rightarrow>
       foldl drain (if ex then s else CreateAccount DAORefundContract s) DAODrainList)"

text \<open>Uncles earn nothing.\<close>

definition accumulateRewards :: "Header \<Rightarrow> StateDB \<Rightarrow> StateDB" where
  "accumulateRewards header s =
    (let number = word_of_int (Number header);
         totalSupply = CalculateCirculatingSupply number
     in AddBalance (Coinbase header) (calculateBlockReward number totalSupply) s)"

definition Finalize :: "Header \<Rightarrow> StateDB \<Rightarrow> StateDB" where
  "Finalize header s = accumulateRewards header s"

section \<open>Blocks\<close>

definition start_state :: "ChainConfig \<Rightarrow> Header \<Rightarrow> StateDB \<Rightarrow> StateDB" where
  "start_state config header s =
    (if DAOForkSupport config \<and> DAOForkBlock config = Some (Number header) then ApplyDAOHardFork s else s)"

text \<open>The machine starts at depth 0, writable.\<close>

definition freshEVM :: "StateDB \<Rightarrow> EVM" where
  "freshEVM s = \<lparr> statedb = s, depth = 0, callGasTemp = 0, readOnly = False, returnData = [], jumpdests = Map.empty \<rparr>"

definition Process :: "nat \<Rightarrow> procLib \<Rightarrow> vmContext \<Rightarrow> bool \<Rightarrow> Header \<Rightarrow> Transaction list \<Rightarrow> nat \<Rightarrow> StateDB \<Rightarrow>
    (nat \<times> txErr + Receipt list \<times> Log list \<times> u64 \<times> StateDB) go" where
  "Process fuel pl ctx noBaseFee header txs withdrawals s =
    go_bind (AddGas (GasLimit header) 0) (\<lambda>pool.
    go_bind (process_txs fuel pl ctx noBaseFee header 0 txs
        \<lparr> pReceipts = [], pLogs = [], pPool = pool, pUsed = 0, pEVM = freshEVM (start_state (chainConfig ctx) header s) \<rparr>) (\<lambda>res.
      case res of
        Inl e \<Rightarrow> Ret (Inl e)
      | Inr p \<Rightarrow>
          if withdrawals > 0 \<and> \<not> IsShanghai (chainConfig ctx) (Time header) then Ret (Inl (length txs, ErrWithdrawals))
          else Ret (Inr (pReceipts p, pLogs p, pUsed p, Finalize header (statedb (pEVM p))))))"

end
