(* ===== verification/Config_Props.thy ===== *)
theory Config_Props
  imports Params
begin

text \<open>
  Properties of the chain configuration (\<^verbatim>\<open>client/params/config.go\<close>): a configuration that passes
  \<open>CheckConfigForkOrder\<close> activates its forks in order, so the flags of \<open>Rules\<close> are monotone; the
  search of \<open>CheckCompatible\<close> for the lowest conflicting fork stops when no conflicting timestamp is
  0, and runs forever on a configuration where one is.
\<close>

section \<open>Fork order\<close>

text \<open>A later schedule may be unset, else it is not before a set earlier one.\<close>

fun sched_le :: "('a :: linorder) option \<Rightarrow> 'a option \<Rightarrow> bool" where
  "sched_le l None = True"
| "sched_le None (Some k) = False"
| "sched_le (Some l) (Some k) = (l \<le> k)"

lemma sched_le_trans: "sched_le x y \<Longrightarrow> sched_le y z \<Longrightarrow> sched_le x z"
  by (cases x; cases y; cases z) auto

definition enabled :: "fork \<Rightarrow> bool" where
  "enabled f \<longleftrightarrow> fblock f \<noteq> None \<or> ftimestamp f \<noteq> None"

lemma fork_step_sched:
  assumes "fork_step l f = None"
  shows "enabled f \<longrightarrow> enabled l"
    "ftimestamp l = None \<and> ftimestamp f = None \<longrightarrow> sched_le (fblock l) (fblock f)"
    "fblock l = None \<and> fblock f = None \<longrightarrow> sched_le (ftimestamp l) (ftimestamp f)"
  using assms
  by (cases "fblock l"; cases "fblock f"; cases "ftimestamp l"; cases "ftimestamp f";
      auto simp: fork_step_def enabled_def split: if_splits)+

lemma fork_loop_Cons:
  "fork_loop (Some l) (f # fs) = None \<longleftrightarrow> fork_step l f = None \<and>
     fork_loop (Some (if \<not> foptional f \<or> enabled f then f else l)) fs = None"
  by (auto simp: enabled_def split: option.splits)

text \<open>
  A relation between the last recorded fork and the current one that every passed check gives, that
  is transitive, and that a disabled optional fork satisfies, holds with every later fork.
\<close>

lemma fork_loop_rel:
  assumes step: "\<And>l f. fork_step l f = None \<Longrightarrow> K l \<Longrightarrow> K f \<Longrightarrow> R l f"
    and trans: "\<And>l f g. R l f \<Longrightarrow> R f g \<Longrightarrow> R l g"
  shows "fork_loop (Some l) fs = None \<Longrightarrow> K l \<Longrightarrow> list_all K fs \<Longrightarrow> list_all (R l) fs"
proof (induction fs arbitrary: l)
  case (Cons f fs)
  from Cons.prems have R: "R l f" using step by (simp add: fork_loop_Cons del: fork_loop.simps)
  show ?case
  proof (cases "\<not> foptional f \<or> enabled f")
    case True
    with Cons.prems have "list_all (R f) fs" by (intro Cons.IH) (simp_all add: fork_loop_Cons del: fork_loop.simps)
    then show ?thesis using R by (auto simp: list_all_iff intro: trans [OF R])
  next
    case False
    with Cons.prems have "list_all (R l) fs" by (intro Cons.IH) (simp_all add: fork_loop_Cons del: fork_loop.simps)
    then show ?thesis using R by simp
  qed
qed simp

lemma fork_loop_block:
  "fork_loop (Some l) fs = None \<Longrightarrow> ftimestamp l = None \<Longrightarrow> list_all (\<lambda>f. ftimestamp f = None) fs \<Longrightarrow>
   list_all (\<lambda>f. sched_le (fblock l) (fblock f)) fs"
  by (rule fork_loop_rel [where K = "\<lambda>f. ftimestamp f = None"])
    (auto simp: fork_step_sched(2) intro: sched_le_trans)

lemma fork_loop_time:
  "fork_loop (Some l) fs = None \<Longrightarrow> fblock l = None \<Longrightarrow> list_all (\<lambda>f. fblock f = None) fs \<Longrightarrow>
   list_all (\<lambda>f. sched_le (ftimestamp l) (ftimestamp f)) fs"
  by (rule fork_loop_rel [where K = "\<lambda>f. fblock f = None"])
    (auto simp: fork_step_sched(3) intro: sched_le_trans)

lemma fork_loop_append: "fork_loop l (fs @ gs) = None \<Longrightarrow> fork_loop l fs = None"
  by (induction fs arbitrary: l) (auto split: option.splits)

lemma fork_loop_required:
  "fork_loop l (fs @ f # gs) = None \<Longrightarrow> \<not> foptional f \<or> enabled f \<Longrightarrow> fork_loop (Some f) gs = None"
  by (induction fs arbitrary: l) (auto simp: enabled_def split: option.splits)

lemma isBlockForked_mono: "sched_le l k \<Longrightarrow> isBlockForked k n \<Longrightarrow> isBlockForked l n"
  by (cases l; cases k; cases n) auto

lemma isTimestampForked_mono: "sched_le l k \<Longrightarrow> isTimestampForked k n \<Longrightarrow> isTimestampForked l n"
  by (cases l; cases k) auto

definition block_forks :: "ChainConfig \<Rightarrow> fork list" where
  "block_forks c = take 15 (fork_list c)"

definition time_forks :: "ChainConfig \<Rightarrow> fork list" where
  "time_forks c = drop 15 (fork_list c)"

lemma block_fork_sel [simp]: "fblock (block_fork n b p) = b" "ftimestamp (block_fork n b p) = None"
  "foptional (block_fork n b p) = p" "fblock (time_fork n t p) = None"
  "ftimestamp (time_fork n t p) = t" "foptional (time_fork n t p) = p"
  by (simp_all add: block_fork_def time_fork_def)

lemma required_block:
  assumes "CheckConfigForkOrder c = None" "block_forks c = fs @ f # gs" "\<not> foptional f"
  shows "list_all (\<lambda>g. sched_le (fblock f) (fblock g)) gs"
proof (rule fork_loop_block)
  have "fork_loop None (block_forks c @ time_forks c) = None"
    using assms(1) by (simp add: CheckConfigForkOrder_def block_forks_def time_forks_def)
  then show "fork_loop (Some f) gs = None"
    using assms by (intro fork_loop_required [OF fork_loop_append]) auto
  have "list_all (\<lambda>f. ftimestamp f = None) (block_forks c)" by (simp add: block_forks_def fork_list_def)
  with assms(2) show "ftimestamp f = None" "list_all (\<lambda>f. ftimestamp f = None) gs" by simp_all
qed

lemma required_time:
  assumes "CheckConfigForkOrder c = None"
  shows "sched_le (ShanghaiTime c) (CancunTime c)" "sched_le (ShanghaiTime c) (PragueTime c)"
proof -
  have "fork_loop None (block_forks c @ time_forks c) = None"
    using assms(1) by (simp add: CheckConfigForkOrder_def block_forks_def time_forks_def)
  then have "fork_loop (Some (hd (time_forks c))) (tl (time_forks c)) = None"
    by (intro fork_loop_required [of None "block_forks c"]) (simp_all add: time_forks_def fork_list_def)
  from fork_loop_time [OF this]
  show "sched_le (ShanghaiTime c) (CancunTime c)" "sched_le (ShanghaiTime c) (PragueTime c)"
    by (simp_all add: time_forks_def fork_list_def)
qed

lemma block_order:
  assumes "CheckConfigForkOrder c = None"
  shows "sched_le (HomesteadBlock c) (EIP150Block c)" "sched_le (EIP150Block c) (EIP155Block c)"
    "sched_le (EIP155Block c) (EIP158Block c)" "sched_le (EIP158Block c) (ByzantiumBlock c)"
    "sched_le (ByzantiumBlock c) (ConstantinopleBlock c)"
    "sched_le (ConstantinopleBlock c) (PetersburgBlock c)"
    "sched_le (PetersburgBlock c) (IstanbulBlock c)" "sched_le (IstanbulBlock c) (BerlinBlock c)"
    "sched_le (BerlinBlock c) (LondonBlock c)" "sched_le (HomesteadBlock c) (DAOForkBlock c)"
    "sched_le (IstanbulBlock c) (MuirGlacierBlock c)" "sched_le (LondonBlock c) (ArrowGlacierBlock c)"
    "sched_le (LondonBlock c) (GrayGlacierBlock c)" "sched_le (LondonBlock c) (MergeNetsplitBlock c)"
  using required_block [OF assms, of "take 0 (block_forks c)" "block_forks c ! 0" "drop 1 (block_forks c)"]
    required_block [OF assms, of "take 2 (block_forks c)" "block_forks c ! 2" "drop 3 (block_forks c)"]
    required_block [OF assms, of "take 3 (block_forks c)" "block_forks c ! 3" "drop 4 (block_forks c)"]
    required_block [OF assms, of "take 4 (block_forks c)" "block_forks c ! 4" "drop 5 (block_forks c)"]
    required_block [OF assms, of "take 5 (block_forks c)" "block_forks c ! 5" "drop 6 (block_forks c)"]
    required_block [OF assms, of "take 6 (block_forks c)" "block_forks c ! 6" "drop 7 (block_forks c)"]
    required_block [OF assms, of "take 7 (block_forks c)" "block_forks c ! 7" "drop 8 (block_forks c)"]
    required_block [OF assms, of "take 8 (block_forks c)" "block_forks c ! 8" "drop 9 (block_forks c)"]
    required_block [OF assms, of "take 10 (block_forks c)" "block_forks c ! 10" "drop 11 (block_forks c)"]
    required_block [OF assms, of "take 11 (block_forks c)" "block_forks c ! 11" "drop 12 (block_forks c)"]
  by (simp_all add: block_forks_def fork_list_def)

text \<open>
  a configuration accepted by \<open>CheckConfigForkOrder\<close> switches the forks on in order: whenever a
  fork's flag is set in the rules of a block, the flags of all mandatory forks before it are set too,
  so the interpreter's choice of the newest active instruction set never skips one.
\<close>

theorem fork_order_activation:
  assumes "CheckConfigForkOrder c = None" "r = RulesOf c num merge time"
  shows "(rIsEIP150 r \<longrightarrow> rIsHomestead r) \<and> (rIsEIP155 r \<longrightarrow> rIsEIP150 r) \<and>
    (rIsEIP158 r \<longrightarrow> rIsEIP155 r) \<and> (rIsByzantium r \<longrightarrow> rIsEIP158 r) \<and>
    (rIsConstantinople r \<longrightarrow> rIsByzantium r) \<and> (rIsPetersburg r \<longrightarrow> rIsConstantinople r) \<and>
    (rIsIstanbul r \<longrightarrow> rIsPetersburg r) \<and> (rIsBerlin r \<longrightarrow> rIsIstanbul r) \<and>
    (rIsLondon r \<longrightarrow> rIsBerlin r) \<and> (rIsCancun r \<longrightarrow> rIsShanghai r) \<and> (rIsPrague r \<longrightarrow> rIsShanghai r)"
  using assms(2) block_order [OF assms(1), THEN isBlockForked_mono]
    required_time [OF assms(1), THEN isTimestampForked_mono]
  by (auto simp: RulesOf_def fork_defs)

theorem fork_order_activation_witness:
  "CheckConfigForkOrder MainnetChainConfig = None \<and> rIsBerlin (RulesOf MainnetChainConfig 5 False 7) \<and>
   rIsIstanbul (RulesOf MainnetChainConfig 5 False 7)"
proof -
  have "CheckConfigForkOrder MainnetChainConfig = None" by code_simp
  moreover have "rIsBerlin (RulesOf MainnetChainConfig 5 False 7)" by code_simp
  ultimately show ?thesis using fork_order_activation by blast
qed

section \<open>Compatibility of configurations\<close>

text \<open>
  A conflict of block schedules rewinds below the head, or to 0; one of timestamps below the head's
  time unless the earlier timestamp is 0.
\<close>

definition time_conflict_at_0 :: "ChainConfig \<Rightarrow> ChainConfig \<Rightarrow> bool" where
  "time_conflict_at_0 c n \<longleftrightarrow>
    (\<exists>sel \<in> {ShanghaiTime, CancunTime, PragueTime}. sel c \<noteq> sel n \<and> (sel c = Some 0 \<or> sel n = Some 0))"

lemma block_conflict_rewind:
  assumes "isForkBlockIncompatible x y h \<or> isBlockForked x (Some h) \<and> configBlockEqual x y" "0 \<le> h" "h < 2 ^ 64"
  shows "uint (RewindToBlock (newBlockCompatError w x y)) < h \<or> RewindToBlock (newBlockCompatError w x y) = 0"
proof -
  have "uint (word_of_int r - 1 :: u64) < h" if "0 < r" "r \<le> h" for r
  proof -
    have "uint (word_of_int r - 1 :: u64) = r - 1"
      using that assms(3) by (subst uint_word_ariths) (simp add: uint_word_of_int)
    then show ?thesis using that by simp
  qed
  then show ?thesis
    using assms by (cases x; cases y)
      (auto simp: isForkBlockIncompatible_def newBlockCompatError_def rewind_block_def)
qed

lemma newBlockCompatError_time [simp]: "RewindToTime (newBlockCompatError w x y) = 0"
  by (simp add: newBlockCompatError_def)

lemma time_conflict_rewind:
  assumes "isForkTimestampIncompatible x y t" "x \<noteq> Some 0" "y \<noteq> Some 0"
  shows "RewindToTime (newTimestampCompatError w x y) < t" "RewindToBlock (newTimestampCompatError w x y) = 0"
proof -
  have "r - 1 < t" if "r \<noteq> 0" "r \<le> t" for r :: u64
    using that by (metis measure_unat word_less_nat_alt word_le_nat_alt order_less_le_trans)
  then show "RewindToTime (newTimestampCompatError w x y) < t"
    using assms by (cases x; cases y)
      (auto simp: isForkTimestampIncompatible_def newTimestampCompatError_def rewind_time_def split: if_splits)
qed (simp add: newTimestampCompatError_def)

lemma configTimestampEqual_iff [simp]: "configTimestampEqual x y \<longleftrightarrow> x = y"
  by (cases x; cases y) auto

lemma checkCompatible_rewind:
  assumes "checkCompatible c n h t = Some e" "0 \<le> h" "h < 2 ^ 64" "\<not> time_conflict_at_0 c n"
  shows "RewindToTime e < t \<and> RewindToBlock e = 0 \<or>
    RewindToTime e = 0 \<and> (uint (RewindToBlock e) < h \<or> RewindToBlock e = 0)"
proof -
  have T: "RewindToTime (newTimestampCompatError w (sel c) (sel n)) < t \<and>
      RewindToBlock (newTimestampCompatError w (sel c) (sel n)) = 0"
    if "isForkTimestampIncompatible (sel c) (sel n) t" "sel \<in> {ShanghaiTime, CancunTime, PragueTime}" for w sel
  proof -
    have "sel c \<noteq> sel n" using that(1) by (auto simp: isForkTimestampIncompatible_def)
    then have "sel c \<noteq> Some 0" "sel n \<noteq> Some 0" using assms(4) that(2) unfolding time_conflict_at_0_def by blast+
    then show ?thesis using time_conflict_rewind [OF that(1)] by blast
  qed
  define Q where "Q e \<longleftrightarrow> RewindToTime e < t \<and> RewindToBlock e = 0 \<or>
    RewindToTime e = 0 \<and> (uint (RewindToBlock e) < h \<or> RewindToBlock e = 0)" for e :: ConfigCompatError
  have B: "Q (newBlockCompatError w x y)" if "isForkBlockIncompatible x y h" for w x y
    using block_conflict_rewind [OF _ assms(2,3)] that unfolding Q_def by auto
  have D: "Q (newBlockCompatError w x y)" if "\<not> isForkBlockIncompatible x y h" "isBlockForked x (Some h)" for w x y
    using block_conflict_rewind [OF _ assms(2,3), of x y w] that
    unfolding Q_def isForkBlockIncompatible_def by auto
  have T': "Q (newTimestampCompatError w (sel c) (sel n))"
    if "isForkTimestampIncompatible (sel c) (sel n) t" "sel \<in> {ShanghaiTime, CancunTime, PragueTime}" for w sel
    using T [OF that] unfolding Q_def by blast
  have "Q e"
    using assms(1) unfolding checkCompatible_def IsDAOFork_def IsEIP158_def
    by (simp only: split: if_splits) (auto intro: B D T' [where sel = ShanghaiTime] T' [where sel = CancunTime] T' [where sel = PragueTime])
  then show ?thesis unfolding Q_def .
qed

definition zero_rewind :: "ConfigCompatError option \<Rightarrow> bool" where
  "zero_rewind l \<longleftrightarrow> (\<exists>e. l = Some e \<and> RewindToBlock e = 0 \<and> RewindToTime e = 0)"

definition search_left :: "int \<Rightarrow> u64 \<Rightarrow> ConfigCompatError option \<Rightarrow> nat" where
  "search_left h t l = 2 * (nat h + unat t) + (if zero_rewind l then 0 else 1)"

lemma CheckCompatible_loop_stops:
  assumes "\<not> time_conflict_at_0 c n"
  shows "0 \<le> h \<Longrightarrow> h < 2 ^ 64 \<Longrightarrow> search_left h t l < fuel \<Longrightarrow>
    \<exists>r. CheckCompatible_loop fuel c n h t l = Some r \<and>
        (r = None \<longleftrightarrow> l = None \<and> checkCompatible c n h t = None)"
proof (induction fuel arbitrary: h t l)
  case 0
  then show ?case by simp
next
  case (Suc fuel)
  show ?case
  proof (cases "checkCompatible c n h t")
    case None
    then show ?thesis by auto
  next
    case (Some e)
    have e: "RewindToTime e < t \<and> RewindToBlock e = 0 \<or>
        RewindToTime e = 0 \<and> (uint (RewindToBlock e) < h \<or> RewindToBlock e = 0)"
      using checkCompatible_rewind [OF Some Suc.prems(1,2) assms] .
    let ?same = "\<exists>x. l = Some x \<and> RewindToBlock e = RewindToBlock x \<and> RewindToTime e = RewindToTime x"
    let ?h = "if RewindToTime e > 0 then h else uint (RewindToBlock e)"
    let ?t = "if RewindToTime e > 0 then RewindToTime e else t"
    show ?thesis
    proof (cases ?same)
      case True
      then show ?thesis using Some by auto
    next
      case False
      have zero: "zero_rewind (Some e) \<and> \<not> zero_rewind l" if "RewindToBlock e = 0" "RewindToTime e = 0"
        using False that by (auto simp: zero_rewind_def)
      have h: "0 \<le> ?h" "?h < 2 ^ 64" using Suc.prems unsigned_less [of "RewindToBlock e", where ?'a = int] by auto
      have "search_left ?h ?t (Some e) < search_left h t l"
      proof (cases "RewindToTime e > 0")
        case True
        then have "unat (RewindToTime e) < unat t" using e by (auto simp: word_less_nat_alt)
        then show ?thesis using True by (simp add: search_left_def)
      next
        case f: False
        then have t0: "RewindToTime e = 0" by (simp add: word_gt_0)
        show ?thesis
        proof (cases "uint (RewindToBlock e) < h")
          case True
          then have "nat (uint (RewindToBlock e)) < nat h" by (subst nat_less_eq_zless) simp_all
          then show ?thesis using f by (simp add: search_left_def)
        next
          case False
          then have "RewindToBlock e = 0" using e t0 by auto
          then show ?thesis using zero t0 Suc.prems by (simp add: search_left_def)
        qed
      qed
      then have "\<exists>r. CheckCompatible_loop fuel c n ?h ?t (Some e) = Some r \<and>
          (r = None \<longleftrightarrow> Some e = None \<and> checkCompatible c n ?h ?t = None)"
        using Suc.prems by (intro Suc.IH h) simp
      moreover have "CheckCompatible_loop (Suc fuel) c n h t l = CheckCompatible_loop fuel c n ?h ?t (Some e)"
        using Some False by (auto split: option.splits)
      ultimately show ?thesis using Some by auto
    qed
  qed
qed


definition moved_london :: "int \<Rightarrow> ChainConfig" where
  "moved_london b = AllEthashProtocolChanges \<lparr> LondonBlock := Some b, ArrowGlacierBlock := None, GrayGlacierBlock := None \<rparr>"


text \<open>The two configurations below both pass the fork-order check.\<close>

definition stored_config :: ChainConfig where
  "stored_config = AllEthashProtocolChanges \<lparr> ShanghaiTime := Some 0, PragueTime := Some 0 \<rparr>"

definition new_config :: ChainConfig where
  "new_config = AllEthashProtocolChanges \<lparr> ShanghaiTime := Some 0, CancunTime := Some 50, PragueTime := Some 60 \<rparr>"

lemma diverging_checks:
  "checkCompatible stored_config new_config h 10 =
     Some (newTimestampCompatError ''Prague fork timestamp'' (Some 0) (Some 60))"
  "checkCompatible stored_config new_config h 49 =
     Some (newTimestampCompatError ''Prague fork timestamp'' (Some 0) (Some 60))"
  "checkCompatible stored_config new_config h MaxUint64 =
     Some (newTimestampCompatError ''Cancun fork timestamp'' None (Some 50))"
  by (simp_all add: checkCompatible_def stored_config_def new_config_def AllEthashProtocolChanges_def
    isForkBlockIncompatible_def isForkTimestampIncompatible_def IsDAOFork_def IsEIP158_def)

lemma diverging_loop:
  "l = None \<or> l = Some (newTimestampCompatError ''Prague fork timestamp'' (Some 0) (Some 60)) \<or>
   l = Some (newTimestampCompatError ''Cancun fork timestamp'' None (Some 50)) \<Longrightarrow>
   (t = 10 \<and> l = None) \<or> (t = 49 \<and> l = Some (newTimestampCompatError ''Cancun fork timestamp'' None (Some 50))) \<or>
   (t = MaxUint64 \<and> l = Some (newTimestampCompatError ''Prague fork timestamp'' (Some 0) (Some 60))) \<Longrightarrow>
   CheckCompatible_loop fuel stored_config new_config h t l = None"
proof (induction fuel arbitrary: t l)
  case (Suc fuel)
  have r: "RewindToTime (newTimestampCompatError w (Some 0) (Some 60)) = MaxUint64"
    "RewindToTime (newTimestampCompatError w' None (Some 50)) = 49" for w w'
    by (simp_all add: newTimestampCompatError_def rewind_time_def)
  show ?case using Suc.prems(2) Suc.IH
    by (elim disjE) (simp_all add: diverging_checks r)
qed simp

text \<open>
  C29: \<open>newTimestampCompatError\<close> rewinds a conflict at timestamp 0 to \<open>0 - 1 = 2^64 - 1\<close>, and because of
  it \<open>CheckCompatible\<close> never returns on two configurations that both pass \<open>CheckConfigForkOrder\<close>:
  it alternates between the head times 49 and \<open>2^64 - 1\<close> forever, whatever the fuel.
\<close>

theorem CheckCompatible_diverges:
  "CheckConfigForkOrder stored_config = None \<and> CheckConfigForkOrder new_config = None \<and>
   (\<forall>fuel height. CheckCompatible fuel stored_config new_config height 10 = None)"
proof (intro conjI allI)
  show "CheckConfigForkOrder stored_config = None" by code_simp
  show "CheckConfigForkOrder new_config = None" by code_simp
  show "CheckCompatible fuel stored_config new_config height 10 = None" for fuel height
    unfolding CheckCompatible_def by (rule diverging_loop) simp_all
qed

end
