(* ===== verification/Block_Props.thy ===== *)
theory Block_Props
  imports Block_Processor Config_Props
begin

text \<open>
  Facts about processing a block: the receipts match the transactions, the cumulative gas is the running sum
  of the gas used and stays within the block's gas limit, processing ends and fails no bounds check, and
  the consensus engine mints exactly the scheduled reward.
\<close>

section \<open>The machine of a block\<close>

lemma NewEVM_configured:
  assumes "NewEVM config crypto u256 getHash a [] rec header = Ret ctx" "IsEIP150 config (Number header)"
  shows "configured ctx \<and> chainConfig ctx = config \<and> bCoinbase ctx = a \<and> bBlockNumber ctx = Number header"
  using assms by (auto simp: NewEVM_def NewEVMInterpreter_def Let_def configured_def RulesOf_def)

lemma byzantium_eip150:
  assumes "CheckConfigForkOrder c = None" "IsByzantium c num"
  shows "IsEIP150 c num"
  using block_order [OF assms(1), THEN isBlockForked_mono] assms(2) by (auto simp: fork_defs)

section \<open>Well-formed states\<close>

lemma wf_Finalise:
  assumes "wf_state s"
  shows "wf_state (Finalise d s)"
proof -
  have "oaddress ob = a" if "stateObjects (Finalise d s) a = Some ob" for a ob
    using that wf_state_address [OF assms, of a] by (auto simp: Finalise_object obj_finalise_def split: option.splits if_splits)
  moreover have "stateObjectsDirty (Finalise d s) \<subseteq> dom (stateObjects (Finalise d s))"
    using assms by (auto simp: Finalise_object Finalise_def Let_def wf_state_def wf_objs_def clearJournalAndRefund_def
        split: option.splits if_splits)
  moreover have "sAccessList (Finalise d s) = sAccessList s" "validRevisions (Finalise d s) = []"
    by (simp_all add: Finalise_def Let_def clearJournalAndRefund_def)
  ultimately show ?thesis using assms by (auto simp: wf_state_def wf_objs_def wf_revs_def)
qed

lemma wf_bookkeeping:
  assumes "wf_state s"
  shows "wf_state (SetTxContext h i s)" "wf_state (snd (GetLogs h n b s))"
  using assms by (auto simp: SetTxContext_def GetLogs_def Let_def wf_state_def wf_objs_def wf_revs_def split: option.split)

lemma wf_drain: "wf_state s \<Longrightarrow> wf_state (drain s a)"
proof -
  assume wf: "wf_state s"
  obtain b t where b: "GetBalance a s = (b, t)" by fastforce
  have "wf_state t" using GetBalance_spec [OF wf b] quiet_wf [OF wf] by blast
  then have "wf_state (AddBalance DAORefundContract b t)" using AddBalance_spec extends_wf by blast
  then have "wf_state (SetBalance a 0 (AddBalance DAORefundContract b t))" using SetBalance_spec extends_wf by blast
  then show ?thesis using b by (simp add: drain_def)
qed

lemma wf_start_state: "wf_state s \<Longrightarrow> wf_state (start_state config header s)"
proof -
  assume wf: "wf_state s"
  obtain ex t where ex: "Exist DAORefundContract s = (ex, t)" by fastforce
  have "wf_state t" using evolves_wf [OF evolves_reads(1) [OF wf ex]] .
  then have t: "wf_state (if ex then t else CreateAccount DAORefundContract t)"
    using CreateAccount_spec extends_wf by auto
  have "wf_state (foldl drain u xs)" if "wf_state u" for u xs
    using that by (induction xs arbitrary: u) (auto intro: wf_drain)
  then show ?thesis using t wf ex by (simp add: start_state_def ApplyDAOHardFork_def)
qed

section \<open>Transactions\<close>

lemma configured_tx [simp]: "configured (NewEVMTxContext msg ctx) = configured ctx"
  by (simp add: configured_def NewEVMTxContext_def)

lemma applyTransaction_ok:
  assumes "configured ctx" "wf_state (statedb evm)" "\<not> readOnly evm" "2 ^ 64 \<le> fuel"
    and "IsByzantium (chainConfig ctx) number" "mGasFeeCap msg = Some feeCap" "mGasTipCap msg = Some tip"
  shows "case applyTransaction fuel pl ctx noBaseFee msg pool number bhash tx used evm of
      NoFuel \<Rightarrow> False
    | Panic m \<Rightarrow> m \<notin> vm_panics
    | Ret (Inl e, pool', used', evm') \<Rightarrow> True
    | Ret (Inr r, pool', used', evm') \<Rightarrow> wf_state (statedb evm') \<and> \<not> readOnly evm' \<and>
        unat pool' + unat (rGasUsed r) = unat pool \<and> unat (rGasUsed r) \<le> unat (mGasLimit msg) \<and>
        used' = used + rGasUsed r \<and> CumulativeGasUsed r = used' \<and> rTxHash r = txHash pl tx"
proof -
  let ?ctx = "NewEVMTxContext msg ctx"
  have n: "unat (mGasLimit msg) < fuel" using less_le_trans [OF unat_u64_less [of "mGasLimit msg"]] assms(4) by simp
  have ok: "case ApplyMessage fuel ?ctx noBaseFee evm msg pool of NoFuel \<Rightarrow> False | Panic m \<Rightarrow> m \<notin> vm_panics
      | Ret (Inl e, st) \<Rightarrow> True
      | Ret (Inr r, st) \<Rightarrow> wf_state (st_state st) \<and> \<not> readOnly (st_evm st) \<and> unat (UsedGas r) \<le> unat (mGasLimit msg) \<and>
          unat (gp st) + unat (UsedGas r) = unat pool"
    using ApplyMessage_ok [of ?ctx evm msg fuel feeCap tip, where noBaseFee = noBaseFee and pool = pool] assms n
    by (auto split: go.splits sum.splits)
  show ?thesis
  proof (cases "ApplyMessage fuel ?ctx noBaseFee evm msg pool")
    case (Ret x)
    obtain res st where x: "x = (res, st)" by fastforce
    show ?thesis
    proof (cases res)
      case (Inr r)
      obtain root db where f: "finish_tx pl (chainConfig ?ctx) number (st_state st) = (root, db)" by fastforce
      obtain ls db' where g: "GetLogs (txHash pl tx) (word_of_int number) bhash db = (ls, db')" by fastforce
      have "wf_state db" using f ok Ret x Inr assms(5) by (auto simp: finish_tx_def NewEVMTxContext_def intro: wf_Finalise)
      then have "wf_state db'" using wf_bookkeeping(2) [of db "txHash pl tx" "word_of_int number" bhash] g by simp
      then show ?thesis using ok Ret x Inr f g by (simp add: applyTransaction_def Let_def)
    qed (use Ret x in \<open>simp add: applyTransaction_def\<close>)
  qed (use ok in \<open>auto simp: applyTransaction_def\<close>)
qed

text \<open>The running totals of the loop.\<close>

fun cumulative :: "nat \<Rightarrow> Receipt list \<Rightarrow> bool" where
  "cumulative acc [] = True"
| "cumulative acc (r # rs) =
    (unat (CumulativeGasUsed r) = acc + unat (rGasUsed r) \<and> cumulative (acc + unat (rGasUsed r)) rs)"

definition gas_sum :: "Receipt list \<Rightarrow> nat" where
  "gas_sum rs = sum_list (map (\<lambda>r. unat (rGasUsed r)) rs)"

lemma cumulative_append: "cumulative acc (rs @ qs) \<longleftrightarrow> cumulative acc rs \<and> cumulative (acc + gas_sum rs) qs"
  by (induction rs arbitrary: acc) (auto simp: gas_sum_def add.assoc)

definition block_inv :: "nat \<Rightarrow> processed \<Rightarrow> bool" where
  "block_inv limit p \<longleftrightarrow> wf_state (statedb (pEVM p)) \<and> \<not> readOnly (pEVM p) \<and> limit < 2 ^ 64 \<and>
     unat (pPool p) + unat (pUsed p) = limit \<and> unat (pUsed p) = gas_sum (pReceipts p) \<and> cumulative 0 (pReceipts p)"

definition receipt_of :: "procLib \<Rightarrow> Receipt \<Rightarrow> Transaction \<Rightarrow> bool" where
  "receipt_of pl r tx \<longleftrightarrow> rTxHash r = txHash pl tx \<and> unat (rGasUsed r) \<le> unat (tGas tx)"

lemma process_txs_ok:
  assumes "configured ctx" "2 ^ 64 \<le> fuel" "IsByzantium (chainConfig ctx) (Number header)" "block_inv limit p"
  shows "case process_txs fuel pl ctx noBaseFee header i txs p of
      NoFuel \<Rightarrow> False
    | Panic m \<Rightarrow> m \<notin> vm_panics
    | Ret (Inl e) \<Rightarrow> True
    | Ret (Inr q) \<Rightarrow> block_inv limit q \<and> (\<exists>rs. pReceipts q = pReceipts p @ rs \<and> list_all2 (receipt_of pl) rs txs)"
  using assms(4)
proof (induction txs arbitrary: i p)
  case (Cons tx txs)
  show ?case
  proof (cases "TransactionToMessage pl (chainConfig ctx) (Number header) (BaseFee header) tx")
    case (Inr msg)
    let ?evm = "(pEVM p) \<lparr> statedb := SetTxContext (txHash pl tx) (word_of_nat i) (statedb (pEVM p)) \<rparr>"
    let ?a = "applyTransaction fuel pl ctx noBaseFee msg (pPool p) (Number header) (blockHash pl header) tx (pUsed p) ?evm"
    have m: "mGasFeeCap msg = Some (tGasFeeCap tx)" "mGasTipCap msg = Some (tGasTipCap tx)" "mGasLimit msg = tGas tx"
      using Inr by (auto simp: TransactionToMessage_def split: option.splits)
    have "wf_state (statedb ?evm)" "\<not> readOnly ?evm"
      using Cons.prems wf_bookkeeping(1) by (auto simp: block_inv_def)
    note ok = applyTransaction_ok [OF assms(1) this assms(2,3) m(1,2), where pl = pl and noBaseFee = noBaseFee and
        pool = "pPool p" and bhash = "blockHash pl header" and tx = tx and used = "pUsed p"]
    show ?thesis
    proof (cases ?a)
      case (Ret x)
      obtain res pool used evm where x: "x = (res, pool, used, evm)" by (metis prod_cases4)
      show ?thesis
      proof (cases res)
        case r: (Inr r)
        let ?p = "\<lparr> pReceipts = pReceipts p @ [r], pLogs = pLogs p @ rLogs r, pPool = pool, pUsed = used, pEVM = evm \<rparr>"
        have o1: "wf_state (statedb evm)" "\<not> readOnly evm" "unat pool + unat (rGasUsed r) = unat (pPool p)"
            "unat (rGasUsed r) \<le> unat (tGas tx)" "used = pUsed p + rGasUsed r" "CumulativeGasUsed r = used" "rTxHash r = txHash pl tx"
          using ok Ret x r m(3) by auto
        have "unat (pUsed p) + unat (rGasUsed r) < 18446744073709551616"
          using Cons.prems o1(3) by (simp add: block_inv_def)
        then have u: "unat used = unat (pUsed p) + unat (rGasUsed r)" unfolding o1(5) by (intro unat_add_small) simp
        have "block_inv limit ?p" using Cons.prems o1 u by (auto simp: block_inv_def cumulative_append gas_sum_def)
        moreover have "receipt_of pl r tx" using o1(4,7) by (simp add: receipt_of_def)
        ultimately show ?thesis using Cons.IH [of ?p "Suc i"] Inr Ret x r by (auto split: go.splits sum.splits)
      qed (use Inr Ret x in simp)
    qed (use ok Inr in auto)
  qed simp
qed simp

section \<open>Blocks\<close>

lemma vAdd_wf: "wf_state s \<Longrightarrow> wf_state (AddBalance a x s)"
  using AddBalance_spec extends_wf by blast


definition demo_lib :: procLib where
  "demo_lib = \<lparr> Sender = (\<lambda>_ _ tx. Some 1), txHash = (\<lambda>tx. ucast (tNonce tx)), blockHash = (\<lambda>_. 0),
     intermediateRoot = (\<lambda>_ s. (0, s)) \<rparr>"

definition demo_tx :: Transaction where
  "demo_tx = \<lparr> tType = 0, tNonce = 9, tGas = 30000, tGasPrice = 0, tGasFeeCap = 0, tGasTipCap = 0, tTo = Some 2, tValue = 3,
     tData = [], tAccessList = [] \<rparr>"


text \<open>
  C38: the end of a block mints exactly the reward of the schedule: \<open>Finalize\<close> credits \<open>calculateBlockReward\<close> for
  the block's number and the circulating supply to the coinbase and changes no other balance; uncles
  earn nothing, and neither nonces nor the code and storage of an account change.
\<close>

theorem Finalize_mints:
  assumes "wf_state s"
  shows "vbalance (view (Finalize header s)) a = vbalance (view s) a +
      (if a = Coinbase header then blockReward (word_of_int (Number header)) else 0) \<and>
    vnonce (view (Finalize header s)) a = vnonce (view s) a \<and> keeps_accounts (view s) (view (Finalize header s))"
proof -
  have "view (Finalize header s) = vAddBalance (Coinbase header) (blockReward (word_of_int (Number header))) (vnew (Coinbase header) (view s))"
    using AddBalance_spec [OF assms] by (simp add: Finalize_def accumulateRewards_def Let_def blockReward_def)
  then show ?thesis using keeps_rules(1) by (simp add: ledger)
qed

theorem Finalize_mints_witness:
  "vbalance (view (Finalize (zeroHeader \<lparr> Number := 5, Coinbase := 7 \<rparr>) demo_state)) 7 = vbalance (view demo_state) 7 + blockReward 5"
  using Finalize_mints [OF wf_demo_state, of "zeroHeader \<lparr> Number := 5, Coinbase := 7 \<rparr>" 7] by simp

end
