(* ===== verification/RLP.thy ===== *)
theory RLP
  imports Prelude
begin

text \<open>
  The RLP wire format of \<^verbatim>\<open>client/rlp\<close>: the splitting functions of \<^verbatim>\<open>raw.go\<close> (\<open>readKind\<close>,
  \<open>readSize\<close>, \<open>Split\<close> and its variants, \<open>CountValues\<close>, the size functions, \<open>AppendUint64\<close>), the
  header and integer writers of \<^verbatim>\<open>encode.go\<close> (\<open>putint\<close>, \<open>intsize\<close>, \<open>headsize\<close>, \<open>puthead\<close>).
  Lengths are naturals where the code has \<open>int\<close>, and \<open>uint64\<close> words where it has \<open>uint64\<close>. A
  function that writes into a scratch array returns the bytes it writes there. A function that fails
  returns its error; the code also hands back its input, which callers ignore. The reflection-driven
  writers and the streaming decoder are not modelled.

  Against these stands the format itself, \<open>rlp\<close> on nested items: a split succeeds exactly on
  canonical encodings, the integer reader exactly on what the integer writer produces, and counting
  always ends.
\<close>

unbundle bit_operations_syntax

section \<open>Writing integers and headers\<close>

definition byte_at :: "nat \<Rightarrow> u64 \<Rightarrow> u8" where
  "byte_at k i = ucast (drop_bit k i)"

text \<open>\<open>putint\<close>: the bytes it writes; their number is the size it returns.\<close>

definition putint :: "u64 \<Rightarrow> bytes" where
  "putint i =
    (if i < 2 ^ 8 then map (\<lambda>k. byte_at k i) [0]
     else if i < 2 ^ 16 then map (\<lambda>k. byte_at k i) [8, 0]
     else if i < 2 ^ 24 then map (\<lambda>k. byte_at k i) [16, 8, 0]
     else if i < 2 ^ 32 then map (\<lambda>k. byte_at k i) [24, 16, 8, 0]
     else if i < 2 ^ 40 then map (\<lambda>k. byte_at k i) [32, 24, 16, 8, 0]
     else if i < 2 ^ 48 then map (\<lambda>k. byte_at k i) [40, 32, 24, 16, 8, 0]
     else if i < 2 ^ 56 then map (\<lambda>k. byte_at k i) [48, 40, 32, 24, 16, 8, 0]
     else map (\<lambda>k. byte_at k i) [56, 48, 40, 32, 24, 16, 8, 0])"

function intsize_loop :: "nat \<Rightarrow> u64 \<Rightarrow> nat" where
  "intsize_loop sz i = (let i' = drop_bit 8 i in if i' = 0 then sz else intsize_loop (sz + 1) i')"
  by auto
termination
proof (relation "measure (\<lambda>(_, i). unat i)", goal_cases)
  case (2 sz i i')
  then have "unat i div 256 \<noteq> 0" by (simp add: word_unat_eq_iff drop_bit_eq_div unat_div)
  with 2 show ?case by (simp add: drop_bit_eq_div unat_div)
qed simp

declare intsize_loop.simps [simp del]

definition intsize :: "u64 \<Rightarrow> nat" where
  "intsize i = intsize_loop 1 i"

definition headsize :: "u64 \<Rightarrow> nat" where
  "headsize n = (if n < 56 then 1 else 1 + intsize n)"

definition puthead :: "u8 \<Rightarrow> u8 \<Rightarrow> u64 \<Rightarrow> bytes" where
  "puthead smalltag largetag n =
    (if n < 56 then [smalltag + ucast n]
     else let b = putint n in (largetag + word_of_nat (length b)) # b)"

definition AppendUint64 :: "bytes \<Rightarrow> u64 \<Rightarrow> bytes" where
  "AppendUint64 b i =
    (if i = 0 then b @ [0x80]
     else if i < 128 then b @ [byte_at 0 i]
     else if i < 2 ^ 8 then b @ 0x81 # map (\<lambda>k. byte_at k i) [0]
     else if i < 2 ^ 16 then b @ 0x82 # map (\<lambda>k. byte_at k i) [8, 0]
     else if i < 2 ^ 24 then b @ 0x83 # map (\<lambda>k. byte_at k i) [16, 8, 0]
     else if i < 2 ^ 32 then b @ 0x84 # map (\<lambda>k. byte_at k i) [24, 16, 8, 0]
     else if i < 2 ^ 40 then b @ 0x85 # map (\<lambda>k. byte_at k i) [32, 24, 16, 8, 0]
     else if i < 2 ^ 48 then b @ 0x86 # map (\<lambda>k. byte_at k i) [40, 32, 24, 16, 8, 0]
     else if i < 2 ^ 56 then b @ 0x87 # map (\<lambda>k. byte_at k i) [48, 40, 32, 24, 16, 8, 0]
     else b @ 0x88 # map (\<lambda>k. byte_at k i) [56, 48, 40, 32, 24, 16, 8, 0])"

section \<open>Sizes\<close>

definition BytesSize :: "bytes \<Rightarrow> u64" where
  "BytesSize b =
    (if length b = 0 then 1
     else if length b = 1 then (if b ! 0 \<le> 0x7f then 1 else 2)
     else word_of_nat (headsize (len64 b) + length b))"

definition StringSize :: "bytes \<Rightarrow> u64" where
  "StringSize s =
    (if length s = 0 then 1
     else if length s = 1 then (if s ! 0 \<le> 0x7f then 1 else 2)
     else word_of_nat (headsize (len64 s) + length s))"

definition ListSize :: "u64 \<Rightarrow> u64" where
  "ListSize contentSize = word_of_nat (headsize contentSize) + contentSize"

definition IntSize :: "u64 \<Rightarrow> nat" where
  "IntSize x = (if x < 0x80 then 1 else 1 + intsize x)"

section \<open>Splitting\<close>

datatype Kind = Byte | String | List

datatype rlpErr = ErrUnexpectedEOF | ErrExpectedString | ErrExpectedList | ErrCanonInt
  | ErrCanonSize | ErrValueTooLarge | ErrUintOverflow

text \<open>The big-endian expression each case of \<open>readSize\<close> writes out for its number of bytes.\<close>

definition read_be :: "bytes \<Rightarrow> nat \<Rightarrow> u64" where
  "read_be b n = foldl (\<lambda>s j. s OR push_bit (8 * (n - 1 - j)) (ucast (b ! j))) 0 [0..<n]"

definition readSize :: "bytes \<Rightarrow> u8 \<Rightarrow> rlpErr + u64" where
  "readSize b slen =
    (if length b < unat slen then Inl ErrUnexpectedEOF
     else let s = (if 1 \<le> unat slen \<and> unat slen \<le> 8 then read_be b (unat slen) else 0)
          in if s < 56 \<or> b ! 0 = 0 then Inl ErrCanonSize else Inr s)"

text \<open>The last check of \<open>readKind\<close>: the content has to lie within the input.\<close>

definition checkSize :: "bytes \<Rightarrow> Kind \<Rightarrow> u64 \<Rightarrow> rlpErr + u64 \<Rightarrow> rlpErr + (Kind \<times> u64 \<times> u64)" where
  "checkSize buf k tagsize cs = (case cs of
     Inl e \<Rightarrow> Inl e
   | Inr contentsize \<Rightarrow>
       if contentsize > len64 buf - tagsize then Inl ErrValueTooLarge
       else Inr (k, tagsize, contentsize))"

definition readKind :: "bytes \<Rightarrow> rlpErr + (Kind \<times> u64 \<times> u64)" where
  "readKind buf =
    (if buf = [] then Inl ErrUnexpectedEOF
     else let b = buf ! 0 in
       if b < 0x80 then checkSize buf Byte 0 (Inr 1)
       else if b < 0xB8 then
         (let contentsize = ucast (b - 0x80) in
          if contentsize = 1 \<and> length buf > 1 \<and> buf ! 1 < 128 then Inl ErrCanonSize
          else checkSize buf String 1 (Inr contentsize))
       else if b < 0xC0 then checkSize buf String (ucast (b - 0xB7) + 1) (readSize (tl buf) (b - 0xB7))
       else if b < 0xF8 then checkSize buf List 1 (Inr (ucast (b - 0xC0)))
       else checkSize buf List (ucast (b - 0xF7) + 1) (readSize (tl buf) (b - 0xF7)))"

definition Split :: "bytes \<Rightarrow> (rlpErr + (Kind \<times> bytes \<times> bytes)) go" where
  "Split b = (case readKind b of
     Inl e \<Rightarrow> Ret (Inl e)
   | Inr (k, ts, cs) \<Rightarrow>
       go_bind (slice b (unat ts) (unat (ts + cs))) (\<lambda>content.
       go_bind (slice b (unat (ts + cs)) (length b)) (\<lambda>rest.
       Ret (Inr (k, content, rest)))))"

definition SplitString :: "bytes \<Rightarrow> (rlpErr + (bytes \<times> bytes)) go" where
  "SplitString b = go_bind (Split b) (\<lambda>r. case r of
     Inl e \<Rightarrow> Ret (Inl e)
   | Inr (k, content, rest) \<Rightarrow>
       if k = List then Ret (Inl ErrExpectedString) else Ret (Inr (content, rest)))"

definition SplitList :: "bytes \<Rightarrow> (rlpErr + (bytes \<times> bytes)) go" where
  "SplitList b = go_bind (Split b) (\<lambda>r. case r of
     Inl e \<Rightarrow> Ret (Inl e)
   | Inr (k, content, rest) \<Rightarrow>
       if k \<noteq> List then Ret (Inl ErrExpectedList) else Ret (Inr (content, rest)))"

definition SplitUint64 :: "bytes \<Rightarrow> (rlpErr + (u64 \<times> bytes)) go" where
  "SplitUint64 b = go_bind (SplitString b) (\<lambda>r. case r of
     Inl e \<Rightarrow> Ret (Inl e)
   | Inr (content, rest) \<Rightarrow>
       if length content = 0 then Ret (Inr (0, rest))
       else if length content = 1 then
         (if content ! 0 = 0 then Ret (Inl ErrCanonInt) else Ret (Inr (ucast (content ! 0), rest)))
       else if length content > 8 then Ret (Inl ErrUintOverflow)
       else (case readSize content (word_of_nat (length content)) of
               Inl e \<Rightarrow> Ret (Inl ErrCanonInt)
             | Inr x \<Rightarrow> Ret (Inr (x, rest))))"

text \<open>
  The loop of \<open>CountValues\<close>. Every value takes at least one byte of the input, so the length of the
  input bounds the iterations.
\<close>

fun count_loop :: "nat \<Rightarrow> nat \<Rightarrow> bytes \<Rightarrow> (rlpErr + nat) go" where
  "count_loop fuel i b =
    (if b = [] then Ret (Inr i)
     else case fuel of 0 \<Rightarrow> NoFuel | Suc fuel' \<Rightarrow>
       (case readKind b of
          Inl e \<Rightarrow> Ret (Inl e)
        | Inr (k, tagsize, sz) \<Rightarrow>
            go_bind (slice b (unat (tagsize + sz)) (length b)) (count_loop fuel' (i + 1))))"

declare count_loop.simps [simp del]

definition CountValues :: "bytes \<Rightarrow> (rlpErr + nat) go" where
  "CountValues b = count_loop (length b) 0 b"

section \<open>The format\<close>

text \<open>Big-endian digits without leading zeros.\<close>

fun be :: "nat \<Rightarrow> bytes" where
  "be n = (if n = 0 then [] else be (n div 256) @ [word_of_nat n])"

declare be.simps [simp del]

definition rlp_head :: "u8 \<Rightarrow> u8 \<Rightarrow> nat \<Rightarrow> bytes" where
  "rlp_head small large n =
    (if n < 56 then [small + word_of_nat n] else (large + word_of_nat (length (be n))) # be n)"

definition rlp_str :: "bytes \<Rightarrow> bytes" where
  "rlp_str s = (if length s = 1 \<and> s ! 0 < 0x80 then s else rlp_head 0x80 0xB7 (length s) @ s)"

definition rlp_lst :: "bytes \<Rightarrow> bytes" where
  "rlp_lst c = rlp_head 0xC0 0xF7 (length c) @ c"

datatype item = Str bytes | Lst "item list"

fun rlp :: "item \<Rightarrow> bytes" where
  "rlp (Str s) = rlp_str s"
| "rlp (Lst xs) = rlp_lst (concat (map rlp xs))"

lemma be_0 [simp]: "be 0 = []"
  by (simp add: be.simps)

lemma be_Suc: "0 < n \<Longrightarrow> be n = be (n div 256) @ [word_of_nat n]"
  by (subst be.simps) simp

lemma be_nat_to_bytes: "256 ^ k \<le> n \<Longrightarrow> n < 256 ^ Suc k \<Longrightarrow> be n = nat_to_bytes (Suc k) n"
proof (induction k arbitrary: n)
  case 0
  then show ?case by (simp add: be_Suc)
next
  case (Suc k)
  have "256 ^ k \<le> n div 256" using Suc.prems(1) by (simp add: less_eq_div_iff_mult_less_eq mult.commute)
  moreover have "n div 256 < 256 ^ Suc k" using Suc.prems(2) by (simp add: div_less_iff_less_mult mult.commute)
  moreover have "0 < n" using Suc.prems(1) by (metis gr0I not_numeral_le_zero power_not_zero le_zero_eq zero_neq_numeral)
  ultimately show ?case using Suc.IH [of "n div 256"] by (simp add: be_Suc)
qed

lemma unat_u8_less [simp]: "unat (x :: u8) < 256"
  using unsigned_less [of x, where ?'a = nat] by simp

lemma byte_at_eq: "byte_at (8 * j) i = word_of_nat (unat i div 256 ^ j)"
proof -
  have "unat (drop_bit (8 * j) i) = drop_bit (8 * j) (unat i)"
    using take_bit_nat_eq_self [of "unat i" 64] by (simp only: unsigned_drop_bit_eq) simp
  also have "\<dots> = unat i div 256 ^ j" by (simp add: drop_bit_eq_div power_mult)
  finally show ?thesis unfolding byte_at_def by (metis of_nat_unat)
qed

lemma nat_to_bytes_map: "nat_to_bytes k n = map (\<lambda>j. word_of_nat (n div 256 ^ j)) (rev [0..<k])"
proof (induction k arbitrary: n)
  case (Suc k)
  have "rev [0..<Suc k] = map Suc (rev [0..<k]) @ [0]"
    by (simp only: rev_map [symmetric] map_Suc_upt upt_rec [of 0 "Suc k"]) simp
  then show ?case by (simp add: Suc div_mult2_eq del: upt.simps)
qed simp

lemma map_byte_at: "map (\<lambda>j. byte_at (8 * j) i) (rev [0..<k]) = nat_to_bytes k (unat i)"
  by (simp add: nat_to_bytes_map byte_at_eq)

lemma putint_nat_to_bytes:
  "map (\<lambda>k. byte_at k i) [0] = nat_to_bytes 1 (unat i)"
  "map (\<lambda>k. byte_at k i) [8, 0] = nat_to_bytes 2 (unat i)"
  "map (\<lambda>k. byte_at k i) [16, 8, 0] = nat_to_bytes 3 (unat i)"
  "map (\<lambda>k. byte_at k i) [24, 16, 8, 0] = nat_to_bytes 4 (unat i)"
  "map (\<lambda>k. byte_at k i) [32, 24, 16, 8, 0] = nat_to_bytes 5 (unat i)"
  "map (\<lambda>k. byte_at k i) [40, 32, 24, 16, 8, 0] = nat_to_bytes 6 (unat i)"
  "map (\<lambda>k. byte_at k i) [48, 40, 32, 24, 16, 8, 0] = nat_to_bytes 7 (unat i)"
  "map (\<lambda>k. byte_at k i) [56, 48, 40, 32, 24, 16, 8, 0] = nat_to_bytes 8 (unat i)"
  by (simp_all add: upt_rec flip: map_byte_at)


lemma nat_to_bytes_be: "256 ^ (k - 1) \<le> n \<Longrightarrow> n < 256 ^ k \<Longrightarrow> 0 < k \<Longrightarrow> nat_to_bytes k n = be n"
  using be_nat_to_bytes [of "k - 1" n] by simp

lemma putint_be: "i \<noteq> 0 \<Longrightarrow> putint i = be (unat i)"
proof -
  assume "i \<noteq> 0"
  then have pos: "0 < unat i" by (simp add: unat_gt_0)
  have b: "nat_to_bytes k (unat i) = be (unat i)" if "256 ^ (k - 1) \<le> unat i" "unat i < 256 ^ k" "0 < k" for k
    using that by (rule nat_to_bytes_be)
  show ?thesis unfolding putint_def putint_nat_to_bytes word_less_nat_alt
    using pos b [of 1] b [of 2] b [of 3] b [of 4] b [of 5] b [of 6] b [of 7] b [of 8] unat_u64_less [of i]
    by (simp del: nat_to_bytes.simps)
qed

lemma length_be_intsize: "intsize_loop sz i = sz - 1 + length (be (unat i))" if "i \<noteq> 0" "0 < sz"
  using that
proof (induction sz i rule: intsize_loop.induct)
  case (1 sz i)
  have d: "unat (drop_bit 8 i) = unat i div 256" by (simp add: drop_bit_eq_div unat_div)
  have z: "drop_bit 8 i = 0 \<longleftrightarrow> unat i div 256 = 0" by (simp add: d flip: unat_eq_0)
  show ?case
  proof (cases "drop_bit 8 i = 0")
    case True
    with z 1 show ?thesis by (simp add: intsize_loop.simps [of sz i] be_Suc unat_gt_0)
  next
    case False
    then show ?thesis using 1 by (simp add: intsize_loop.simps [of sz i] be_Suc [of "unat i"] unat_gt_0 Let_def d)
  qed
qed

lemma intsize_be: "i \<noteq> 0 \<Longrightarrow> intsize i = length (be (unat i))"
  by (simp add: intsize_def length_be_intsize)


lemma bytes_to_nat_be [simp]: "bytes_to_nat (be n) = n"
proof (induction n rule: be.induct)
  case (1 n)
  then show ?case by (cases "n = 0") (simp_all add: be_Suc unat_of_nat)
qed

lemma be_bytes_to_nat: "b = [] \<or> b ! 0 \<noteq> 0 \<Longrightarrow> be (bytes_to_nat b) = b"
proof (induction b rule: rev_induct)
  case (snoc x xs)
  have lt: "unat x < 256" by simp
  show ?case
  proof (cases "xs = []")
    case True
    then have "0 < unat x" using snoc.prems by (simp add: unat_gt_0)
    with True lt show ?thesis by (simp add: be_Suc bytes_to_nat_def)
  next
    case False
    then have hd: "xs ! 0 \<noteq> 0" using snoc.prems by (simp add: nth_append)
    then have ih: "be (bytes_to_nat xs) = xs" using snoc.IH by simp
    with False have "0 < bytes_to_nat xs" by (cases "bytes_to_nat xs = 0") auto
    with lt have "0 < bytes_to_nat xs * 256 + unat x" "(bytes_to_nat xs * 256 + unat x) div 256 = bytes_to_nat xs"
      by simp_all
    moreover have "(word_of_nat (bytes_to_nat xs * 256 + unat x) :: u8) = x"
      by (simp add: word_unat_eq_iff unat_of_nat del: of_nat_add of_nat_mult)
    ultimately show ?thesis using ih by (simp add: be_Suc del: of_nat_add of_nat_mult)
  qed
qed simp

lemma be_hd: "0 < n \<Longrightarrow> be n \<noteq> [] \<and> be n ! 0 \<noteq> 0"
proof (induction n rule: be.induct)
  case (1 n)
  show ?case
  proof (cases "n div 256 = 0")
    case True
    with 1 have "n < 256" by (simp add: div_eq_0_iff)
    with 1 True show ?thesis by (simp add: be_Suc word_of_nat_eq_0_iff nat_dvd_not_less)
  next
    case False
    with 1 show ?thesis by (simp add: be_Suc [of n] nth_append)
  qed
qed

lemma length_be_le: "n < 256 ^ k \<Longrightarrow> length (be n) \<le> k"
proof (induction k arbitrary: n)
  case (Suc k)
  then have "n div 256 < 256 ^ k" by (simp add: div_less_iff_less_mult mult.commute)
  with Suc.IH show ?case by (cases "n = 0") (simp_all add: be_Suc)
qed simp

lemma length_be_8: "n < 2 ^ 64 \<Longrightarrow> length (be n) \<le> 8"
  using length_be_le [of n 8] by simp

lemma or_byte: "push_bit 8 (w :: u64) OR ucast (x :: u8) = w * 256 + ucast x"
proof -
  have "\<not> bit (push_bit 8 w) n \<or> \<not> bit (ucast x :: u64) n" for n
    by (auto simp: bit_push_bit_iff bit_ucast_iff dest: bit_imp_le_length)
  then have "push_bit 8 w OR ucast x = push_bit 8 w + ucast x" by (simp add: disjunctive_add_eq_or bit_eq_iff bit_and_iff)
  then show ?thesis by (simp add: push_bit_eq_mult)
qed

lemma read_be_step:
  "m \<le> n \<Longrightarrow> n \<le> length b \<Longrightarrow>
   foldl (\<lambda>s j. s OR push_bit (8 * (n - 1 - j)) (ucast (b ! j))) 0 [0..<m]
   = push_bit (8 * (n - m)) (word_of_nat (bytes_to_nat (take m b)) :: u64)"
proof (induction m)
  case (Suc m)
  let ?w = "word_of_nat (bytes_to_nat (take m b)) :: u64"
  have "8 * (n - m) = 8 * (n - Suc m) + 8" using Suc.prems by simp
  then have "push_bit (8 * (n - m)) ?w OR push_bit (8 * (n - 1 - m)) (ucast (b ! m))
      = push_bit (8 * (n - Suc m)) (push_bit 8 ?w OR ucast (b ! m))"
    by (simp add: push_bit_or flip: push_bit_push_bit)
  also have "push_bit 8 ?w OR ucast (b ! m) = word_of_nat (bytes_to_nat (take (Suc m) b))"
    using Suc.prems by (simp add: or_byte take_Suc_conv_app_nth)
  finally show ?case using Suc by simp
qed simp

lemma read_be_eq: "n \<le> length b \<Longrightarrow> read_be b n = word_of_nat (bytes_to_nat (take n b))"
  using read_be_step [of n n b] by (simp add: read_be_def)


section \<open>Splitting accepts exactly the canonical encodings\<close>

lemma readSize_be:
  assumes "56 \<le> n" "n < 2 ^ 64"
  shows "readSize (be n @ xs) (word_of_nat (length (be n))) = Inr (word_of_nat n)"
proof -
  have l: "length (be n) \<le> 8" using assms length_be_8 by simp
  have hd: "be n \<noteq> []" "be n ! 0 \<noteq> 0" using be_hd [of n] assms by auto
  then have "1 \<le> length (be n)" by (cases "be n") auto
  moreover have "unat (word_of_nat (length (be n)) :: u8) = length (be n)" using l by (simp add: unat_of_nat)
  moreover have "read_be (be n @ xs) (length (be n)) = word_of_nat n" by (simp add: read_be_eq)
  moreover have "\<not> word_of_nat n < (56 :: u64)" using assms by (simp add: word_less_nat_alt unat_of_nat)
  ultimately show ?thesis using l hd by (simp add: readSize_def nth_append)
qed

lemma readSize_Inr:
  assumes "readSize t sl = Inr s"
  shows "\<exists>xs. t = be (unat s) @ xs \<and> length (be (unat s)) = unat sl \<and> 56 \<le> unat s"
proof -
  have sl: "unat sl \<le> length t" "1 \<le> unat sl" "unat sl \<le> 8"
    and s: "s = read_be t (unat sl)" "56 \<le> unat s" and hd: "t ! 0 \<noteq> 0"
    using assms by (auto simp: readSize_def Let_def word_less_nat_alt split: if_splits)
  let ?h = "take (unat sl) t"
  have "bytes_to_nat ?h < 256 ^ 8"
    using bytes_to_nat_less [of ?h] sl power_increasing [of "length ?h" 8 "256 :: nat"] by simp
  then have n: "unat s = bytes_to_nat ?h" using s sl by (simp add: read_be_eq unat_of_nat)
  have "be (unat s) = ?h" unfolding n using hd sl by (intro be_bytes_to_nat) simp
  then show ?thesis using sl s by (intro exI [of _ "drop (unat sl) t"]) simp
qed

text \<open>The header of a value of each kind, and which contents a kind may have.\<close>

fun kind_ok :: "Kind \<Rightarrow> bytes \<Rightarrow> bool" where
  "kind_ok Byte c = (length c = 1 \<and> c ! 0 < 0x80)"
| "kind_ok String c = (\<not> (length c = 1 \<and> c ! 0 < 0x80))"
| "kind_ok List c = True"

fun kind_head :: "Kind \<Rightarrow> nat \<Rightarrow> bytes" where
  "kind_head Byte n = []"
| "kind_head String n = rlp_head 0x80 0xB7 n"
| "kind_head List n = rlp_head 0xC0 0xF7 n"

lemma length_rlp_head: "length (rlp_head s l n) = (if n < 56 then 1 else 1 + length (be n))"
  by (simp add: rlp_head_def)

lemma length_kind_head: "n < 2 ^ 64 \<Longrightarrow> length (kind_head k n) \<le> 9"
  using length_be_8 [of n] by (cases k) (simp_all add: length_rlp_head)

lemma checkSize_ok:
  "length buf < 2 ^ 64 \<Longrightarrow> ts + n \<le> length buf \<Longrightarrow>
   checkSize buf k (word_of_nat ts) (Inr (word_of_nat n)) = Inr (k, word_of_nat ts, word_of_nat n)"
  by (simp add: checkSize_def len64_def word_less_nat_alt unat_of_nat flip: of_nat_diff)

lemma checkSize_Inr:
  assumes "checkSize buf k ts cs = Inr r" "length buf < 2 ^ 64" "unat ts \<le> length buf"
  shows "\<exists>n. cs = Inr n \<and> r = (k, ts, n) \<and> unat ts + unat n \<le> length buf"
proof -
  obtain n where n: "cs = Inr n" "r = (k, ts, n)" "\<not> len64 buf - ts < n"
    using assms(1) by (auto simp: checkSize_def split: sum.splits if_splits)
  have "ts \<le> len64 buf" using assms by (simp add: word_le_nat_alt unat_len64)
  then have "unat (len64 buf - ts) = length buf - unat ts" using assms by (simp add: unat_sub unat_len64)
  with n assms show ?thesis by (simp add: word_less_nat_alt)
qed


lemma u8_tag: "n < 256 \<Longrightarrow> t + n < 256 \<Longrightarrow> unat (word_of_nat t + word_of_nat n :: u8) = t + n"
  by (simp add: unat_of_nat flip: of_nat_add)

lemma rlp_head_small: "n < 56 \<Longrightarrow> rlp_head s l n = [s + word_of_nat n]"
  by (simp add: rlp_head_def)

lemma rlp_head_large: "56 \<le> n \<Longrightarrow> rlp_head s l n = (l + word_of_nat (length (be n))) # be n"
  by (simp add: rlp_head_def)

text \<open>The first byte of a short and of a long header.\<close>

lemma tag_small:
  assumes "n < 56"
  shows "unat (0x80 + word_of_nat n :: u8) = 0x80 + n" "unat (0xC0 + word_of_nat n :: u8) = 0xC0 + n"
  using u8_tag [of n 128] u8_tag [of n 192] assms by simp_all

lemma tag_large:
  assumes "l \<le> 8"
  shows "unat (0xB7 + word_of_nat l :: u8) = 0xB7 + l" "unat (0xF7 + word_of_nat l :: u8) = 0xF7 + l"
  using u8_tag [of l 183] u8_tag [of l 247] assms by simp_all

lemma ucast_u8_of_nat: "n < 256 \<Longrightarrow> ucast (word_of_nat n :: u8) = (word_of_nat n :: u64)"
  using take_bit_nat_eq_self [of n 8] by (simp add: unsigned_of_nat)

lemma tag_sub: "k \<le> unat t \<Longrightarrow> t - word_of_nat k = (word_of_nat (unat t - k) :: u8)"
  by (simp add: of_nat_diff)

lemma tag_size: "k \<le> unat t \<Longrightarrow> ucast (t - word_of_nat k :: u8) = (word_of_nat (unat t - k) :: u64)"
  by (simp only: tag_sub) (rule ucast_u8_of_nat, simp add: less_imp_diff_less)

text \<open>The five ranges of the first byte.\<close>

lemma readKind_ranges:
  "unat t < 128 \<Longrightarrow> readKind (t # bs) = checkSize (t # bs) Byte 0 (Inr 1)"
  "128 \<le> unat t \<Longrightarrow> unat t < 184 \<Longrightarrow> readKind (t # bs) =
     (if unat t - 128 = 1 \<and> bs \<noteq> [] \<and> bs ! 0 < 128 then Inl ErrCanonSize
      else checkSize (t # bs) String 1 (Inr (word_of_nat (unat t - 128))))"
  "184 \<le> unat t \<Longrightarrow> unat t < 192 \<Longrightarrow> readKind (t # bs) =
     checkSize (t # bs) String (word_of_nat (Suc (unat t - 183))) (readSize bs (word_of_nat (unat t - 183)))"
  "192 \<le> unat t \<Longrightarrow> unat t < 248 \<Longrightarrow> readKind (t # bs) =
     checkSize (t # bs) List 1 (Inr (word_of_nat (unat t - 192)))"
  "248 \<le> unat t \<Longrightarrow> readKind (t # bs) =
     checkSize (t # bs) List (word_of_nat (Suc (unat t - 247))) (readSize bs (word_of_nat (unat t - 247)))"
proof -
  have one: "(word_of_nat n = (1 :: u64)) = (n = 1)" if "n < 256" for n
    using that by (simp add: word_unat_eq_iff unat_of_nat)
  have less: "t < 0x80 \<longleftrightarrow> unat t < 128" "t < 0xB8 \<longleftrightarrow> unat t < 184" "t < 0xC0 \<longleftrightarrow> unat t < 192"
    "t < 0xF8 \<longleftrightarrow> unat t < 248" by (simp_all add: word_less_nat_alt)
  note d = tag_size [of 128 t] tag_size [of 183 t] tag_size [of 192 t] tag_size [of 247 t]
    tag_sub [of 183 t] tag_sub [of 247 t]
  show "unat t < 128 \<Longrightarrow> readKind (t # bs) = checkSize (t # bs) Byte 0 (Inr 1)"
    by (simp add: readKind_def less)
  show "128 \<le> unat t \<Longrightarrow> unat t < 184 \<Longrightarrow> readKind (t # bs) =
     (if unat t - 128 = 1 \<and> bs \<noteq> [] \<and> bs ! 0 < 128 then Inl ErrCanonSize
      else checkSize (t # bs) String 1 (Inr (word_of_nat (unat t - 128))))"
    using d(1) one [of "unat t - 128"] by (simp add: readKind_def less Let_def)
  show "184 \<le> unat t \<Longrightarrow> unat t < 192 \<Longrightarrow> readKind (t # bs) =
     checkSize (t # bs) String (word_of_nat (Suc (unat t - 183))) (readSize bs (word_of_nat (unat t - 183)))"
    using d(2,5) by (simp add: readKind_def less Let_def add.commute)
  show "192 \<le> unat t \<Longrightarrow> unat t < 248 \<Longrightarrow> readKind (t # bs) =
     checkSize (t # bs) List 1 (Inr (word_of_nat (unat t - 192)))"
    using d(3) by (simp add: readKind_def less Let_def)
  show "248 \<le> unat t \<Longrightarrow> readKind (t # bs) =
     checkSize (t # bs) List (word_of_nat (Suc (unat t - 247))) (readSize bs (word_of_nat (unat t - 247)))"
    using d(4,6) by (simp add: readKind_def less Let_def add.commute)
qed

lemma readKind_short:
  assumes "length c < 56" "length b < 2 ^ 64"
  shows "b = (0x80 + word_of_nat (length c)) # c @ rest \<Longrightarrow> kind_ok String c \<Longrightarrow>
           readKind b = Inr (String, 1, word_of_nat (length c))"
    and "b = (0xC0 + word_of_nat (length c)) # c @ rest \<Longrightarrow>
           readKind b = Inr (List, 1, word_of_nat (length c))"
  using assms tag_small [OF assms(1)] checkSize_ok [of b 1 "length c" String] checkSize_ok [of b 1 "length c" List]
  by (auto simp: readKind_ranges length_Suc_conv not_less)

lemma readKind_long:
  assumes "56 \<le> length c" "length b < 2 ^ 64" "l = length (be (length c))"
  shows "b = (0xB7 + word_of_nat l) # be (length c) @ c @ rest \<Longrightarrow>
           readKind b = Inr (String, word_of_nat (Suc l), word_of_nat (length c))"
    and "b = (0xF7 + word_of_nat l) # be (length c) @ c @ rest \<Longrightarrow>
           readKind b = Inr (List, word_of_nat (Suc l), word_of_nat (length c))"
proof -
  have len: "length c < 2 ^ 64" if "b = t # be (length c) @ c @ rest" for t using assms that by simp
  have l: "l \<le> 8 \<and> 1 \<le> l" if "b = t # be (length c) @ c @ rest" for t
    using length_be_8 [OF len [OF that]] assms be_hd [of "length c"] by (cases "be (length c)") fastforce+
  have r: "readSize (be (length c) @ c @ rest) (word_of_nat l) = Inr (word_of_nat (length c))"
    if "b = t # be (length c) @ c @ rest" for t
    using readSize_be [OF assms(1) len [OF that], of "c @ rest"] assms(3) by simp
  {
    assume b: "b = (0xB7 + word_of_nat l) # be (length c) @ c @ rest"
    then show "readKind b = Inr (String, word_of_nat (Suc l), word_of_nat (length c))"
      using l [OF b] tag_large [of l] r [OF b] assms checkSize_ok [of b "Suc l" "length c" String]
      by (simp add: readKind_ranges del: of_nat_Suc)
  }
  assume b: "b = (0xF7 + word_of_nat l) # be (length c) @ c @ rest"
  then show "readKind b = Inr (List, word_of_nat (Suc l), word_of_nat (length c))"
    using l [OF b] tag_large [of l] r [OF b] assms checkSize_ok [of b "Suc l" "length c" List]
    by (simp add: readKind_ranges del: of_nat_Suc)
qed

lemma readKind_head:
  assumes "kind_ok k c" "b = kind_head k (length c) @ c @ rest" "length b < 2 ^ 64"
  shows "readKind b = Inr (k, word_of_nat (length (kind_head k (length c))), word_of_nat (length c))"
proof (cases k)
  case Byte
  then obtain x where c: "c = [x]" "x < 0x80" using assms by (cases c) auto
  then show ?thesis using Byte assms checkSize_ok [of b 0 1 Byte] by (simp add: readKind_def)
next
  case String
  then show ?thesis
    using assms readKind_short(1) [of c b rest] readKind_long(1) [of c b _ rest]
    by (cases "length c < 56") (simp_all add: rlp_head_def)
next
  case List
  then show ?thesis
    using assms readKind_short(2) [of c b rest] readKind_long(2) [of c b _ rest]
    by (cases "length c < 56") (simp_all add: rlp_head_def)
qed


text \<open>Conversely, what \<open>readKind\<close> accepts begins with the header of its content.\<close>

definition framed :: "Kind \<Rightarrow> u64 \<Rightarrow> u64 \<Rightarrow> bytes \<Rightarrow> bool" where
  "framed k ts cs b \<longleftrightarrow> (\<exists>c rest. b = kind_head k (length c) @ c @ rest \<and> kind_ok k c \<and>
     unat ts = length (kind_head k (length c)) \<and> unat cs = length c)"

lemma framedI:
  assumes "b = h @ xs" "h = kind_head k (unat cs)" "unat ts = length h" "unat ts + unat cs \<le> length b"
    and "\<And>c. c = take (unat cs) xs \<Longrightarrow> length c = unat cs \<Longrightarrow> kind_ok k c"
  shows "framed k ts cs b"
proof -
  let ?c = "take (unat cs) xs"
  have l: "length ?c = unat cs" using assms by simp
  moreover have "b = kind_head k (length ?c) @ ?c @ drop (unat cs) xs" unfolding l using assms by simp
  ultimately show ?thesis unfolding framed_def using assms(2,3,5) by (metis refl)
qed

lemma readKind_large_framed:
  assumes t: "unat t = base + j" "0 < j" "j \<le> 8"
    and head: "\<And>n. 56 \<le> n \<Longrightarrow> kind_head k n = (word_of_nat base + word_of_nat (length (be n))) # be n"
    and ok: "\<And>c. 2 \<le> length c \<Longrightarrow> kind_ok k c"
    and b: "length (t # bs) < 2 ^ 64"
    and r: "checkSize (t # bs) k (word_of_nat (Suc j)) (readSize bs (word_of_nat j)) = Inr (k', ts, cs)"
  shows "framed k' ts cs (t # bs)"
proof -
  obtain s where s: "readSize bs (word_of_nat j) = Inr s"
    using r by (cases "readSize bs (word_of_nat j)") (auto simp: checkSize_def)
  then obtain xs where xs: "bs = be (unat s) @ xs" "length (be (unat s)) = j" "56 \<le> unat s"
    using readSize_Inr [OF s] t by (auto simp: unat_of_nat)
  have uts: "unat (word_of_nat (Suc j) :: u64) = Suc j" using t by (simp only: unat_of_nat) simp
  have k': "k' = k" "ts = word_of_nat (Suc j)" "cs = s" "Suc j + unat s \<le> length (t # bs)"
    using checkSize_Inr [OF r b] s xs uts by (auto simp del: of_nat_Suc)
  have "t = word_of_nat base + word_of_nat j" using t(1) by (metis of_nat_add of_nat_unat ucast_id)
  then show ?thesis using xs k' uts ok head [of "unat s"]
    by (intro framedI [of "t # bs" "t # be (unat s)" xs]) (simp_all del: of_nat_Suc)
qed

lemma readKind_small_framed:
  assumes t: "unat t = base + n" "n < 56"
    and head: "kind_head k n = [word_of_nat base + word_of_nat n]"
    and ok: "\<And>c. c = take n bs \<Longrightarrow> length c = n \<Longrightarrow> kind_ok k c"
    and b: "length (t # bs) < 2 ^ 64"
    and r: "checkSize (t # bs) k 1 (Inr (word_of_nat n)) = Inr (k', ts, cs)"
  shows "framed k' ts cs (t # bs)"
proof -
  have u: "unat (word_of_nat n :: u64) = n" using t by (simp add: unat_of_nat)
  have k': "k' = k" "ts = 1" "cs = word_of_nat n" "1 + n \<le> length (t # bs)"
    using checkSize_Inr [OF r b] u by auto
  have "t = word_of_nat base + word_of_nat n" using t(1) by (metis of_nat_add of_nat_unat ucast_id)
  then show ?thesis using k' u ok head by (intro framedI [of "t # bs" "[t]" bs]) simp_all
qed

lemma readKind_Inr:
  assumes r: "readKind b = Inr (k, ts, cs)" and len: "length b < 2 ^ 64"
  shows "framed k ts cs b"
proof -
  obtain t bs where b: "b = t # bs" using r by (cases b) (auto simp: readKind_def)
  consider (byte) "unat t < 128" | (str) "128 \<le> unat t" "unat t < 184" | (lstr) "184 \<le> unat t" "unat t < 192"
    | (lst) "192 \<le> unat t" "unat t < 248" | (llst) "248 \<le> unat t" by linarith
  then show ?thesis
  proof cases
    case byte
    then have "checkSize b Byte 0 (Inr 1) = Inr (k, ts, cs)" using r b by (simp add: readKind_ranges)
    from checkSize_Inr [OF this len] have "k = Byte" "ts = 0" "cs = 1" by auto
    then show ?thesis using byte b by (intro framedI [of b "[]" b]) (auto simp: word_less_nat_alt)
  next
    case str
    then have "\<not> (unat t - 128 = 1 \<and> bs \<noteq> [] \<and> bs ! 0 < 128)"
      and c: "checkSize (t # bs) String 1 (Inr (word_of_nat (unat t - 128))) = Inr (k, ts, cs)"
      using r b by (auto simp: readKind_ranges split: if_splits)
    then show ?thesis using str len b
      by (intro readKind_small_framed [OF _ _ _ _ _ c, of 128, folded b]) (cases bs; auto simp: rlp_head_small)+
  next
    case lstr
    then show ?thesis using r b len readKind_large_framed [of t 183 "unat t - 183" String bs k ts cs]
      by (simp add: readKind_ranges rlp_head_large del: of_nat_Suc)
  next
    case lst
    then have "checkSize (t # bs) List 1 (Inr (word_of_nat (unat t - 192))) = Inr (k, ts, cs)"
      using r b by (simp add: readKind_ranges)
    then show ?thesis using lst len b readKind_small_framed [of t 192 "unat t - 192" List bs k ts cs]
      by (simp add: rlp_head_small)
  next
    case llst
    then have "unat t - 247 \<le> 8" using unat_u8_less [of t] by linarith
    with llst show ?thesis using r b len readKind_large_framed [of t 247 "unat t - 247" List bs k ts cs]
      by (simp add: readKind_ranges rlp_head_large del: of_nat_Suc)
  qed
qed


text \<open>Splitting returns on every input, and what it returns is determined by the format.\<close>

lemma framed_slices:
  assumes "framed k ts cs b" "length b < 2 ^ 64"
  shows "\<exists>c rest. slice b (unat ts) (unat (ts + cs)) = Ret c \<and> slice b (unat (ts + cs)) (length b) = Ret rest
    \<and> kind_ok k c \<and> b = kind_head k (length c) @ c @ rest"
proof -
  obtain c rest where b: "b = kind_head k (length c) @ c @ rest" "kind_ok k c"
      "unat ts = length (kind_head k (length c))" "unat cs = length c"
    using assms by (auto simp: framed_def)
  have "length (kind_head k (length c)) + length c \<le> length b" by (subst b(1)) simp
  with b assms(2) have u: "unat (ts + cs) = length (kind_head k (length c)) + length c" by (simp add: unat_add_u64)
  then have "slice b (unat ts) (unat (ts + cs)) = Ret c" "slice b (unat (ts + cs)) (length b) = Ret rest"
    unfolding u b(3) by (simp_all add: slice_def b(1))
  then show ?thesis using b by blast
qed

lemma Split_returns: "length b < 2 ^ 64 \<Longrightarrow> \<exists>r. Split b = Ret r"
  using framed_slices [OF readKind_Inr] by (auto simp: Split_def split: sum.splits) fastforce

lemma Split_iff:
  assumes "length b < 2 ^ 64"
  shows "Split b = Ret (Inr (k, c, rest)) \<longleftrightarrow> kind_ok k c \<and> b = kind_head k (length c) @ c @ rest"
proof
  assume "Split b = Ret (Inr (k, c, rest))"
  then obtain ts cs where r: "readKind b = Inr (k, ts, cs)" "slice b (unat ts) (unat (ts + cs)) = Ret c"
      "slice b (unat (ts + cs)) (length b) = Ret rest"
    by (auto simp: Split_def split: sum.splits)
  with framed_slices [OF readKind_Inr [OF r(1) assms] assms]
  show "kind_ok k c \<and> b = kind_head k (length c) @ c @ rest" by auto
next
  assume kc: "kind_ok k c \<and> b = kind_head k (length c) @ c @ rest"
  define h where "h = length (kind_head k (length c))"
  have l: "h + length c \<le> length b" using kc by (simp add: h_def)
  have u: "unat (word_of_nat h :: u64) = h" "unat (word_of_nat h + word_of_nat (length c) :: u64) = h + length c"
    using l assms by (simp_all add: unat_of_nat flip: of_nat_add)
  have "slice b h (h + length c) = Ret c" "slice b (h + length c) (length b) = Ret rest"
    using kc by (simp_all add: slice_def h_def)
  with readKind_head [OF _ _ assms] kc u show "Split b = Ret (Inr (k, c, rest))"
    by (simp add: Split_def flip: h_def)
qed

lemma kind_str:
  "(\<exists>k. k \<noteq> List \<and> kind_ok k c \<and> b = kind_head k (length c) @ c @ rest) \<longleftrightarrow> b = rlp_str c @ rest"
proof -
  have ex: "(\<exists>k. P k) \<longleftrightarrow> P Byte \<or> P String \<or> P List" for P by (metis Kind.exhaust)
  show ?thesis unfolding ex by (auto simp: rlp_str_def)
qed

lemma SplitString_iff:
  assumes "length b < 2 ^ 64"
  shows "SplitString b = Ret (Inr (c, rest)) \<longleftrightarrow> b = rlp_str c @ rest"
proof -
  have "SplitString b = Ret (Inr (c, rest)) \<longleftrightarrow> (\<exists>k. k \<noteq> List \<and> Split b = Ret (Inr (k, c, rest)))"
    by (cases "Split b") (auto simp: SplitString_def split: sum.splits if_splits)
  then show ?thesis by (simp only: Split_iff [OF assms] kind_str)
qed

lemma SplitList_iff:
  assumes "length b < 2 ^ 64"
  shows "SplitList b = Ret (Inr (c, rest)) \<longleftrightarrow> b = rlp_lst c @ rest"
proof -
  have "SplitList b = Ret (Inr (c, rest)) \<longleftrightarrow> Split b = Ret (Inr (List, c, rest))"
    by (cases "Split b") (auto simp: SplitList_def split: sum.splits if_splits)
  then show ?thesis by (simp add: Split_iff [OF assms] rlp_lst_def)
qed


section \<open>Integers\<close>

lemma unat_ucast_u8: "unat (ucast (x :: u8) :: u64) = unat x"
proof -
  have "unat x < 2 ^ 64" by (rule less_trans [OF unat_u8_less]) simp
  then show ?thesis by (simp add: unsigned_ucast_eq take_bit_nat_eq_self)
qed

lemma unat_ucast_u64: "unat (i :: u64) < 256 \<Longrightarrow> unat (ucast i :: u8) = unat i"
  by (simp add: unsigned_ucast_eq take_bit_nat_eq_self)

lemma AppendUint64_be: "AppendUint64 b i = b @ rlp_str (be (unat i))"
proof (cases "i = 0")
  case False
  then have pos: "0 < unat i" by (simp add: unat_gt_0)
  let ?n = "unat i"
  have p: "AppendUint64 b i = b @ (if ?n < 128 then [word_of_nat ?n] else (0x80 + word_of_nat (length (putint i))) # putint i)"
    using pos False byte_at_eq [of 0 i]
    unfolding AppendUint64_def putint_def by (simp add: word_less_nat_alt)
  show ?thesis
  proof (cases "?n < 128")
    case True
    then show ?thesis using p pos by (simp add: be_Suc rlp_str_def word_less_nat_alt unat_ucast_u64)
  next
    case False
    have l: "length (be ?n) \<le> 8" using length_be_8 [of ?n] by simp
    have "\<not> (length (be ?n) = 1 \<and> be ?n ! 0 < 128)"
    proof
      assume a: "length (be ?n) = 1 \<and> be ?n ! 0 < 128"
      then obtain x where "be ?n = [x]" "x < 128" by (cases "be ?n") auto
      then have "unat x = ?n" "unat x < 128" using bytes_to_nat_be [of ?n] by (simp_all add: bytes_to_nat_def word_less_nat_alt)
      with False show False by simp
    qed
    then show ?thesis using p False l putint_be [OF \<open>i \<noteq> 0\<close>] by (simp add: rlp_str_def rlp_head_small)
  qed
qed (simp add: AppendUint64_def rlp_str_def rlp_head_def)

lemma be_unique: "b = [] \<or> b ! 0 \<noteq> 0 \<Longrightarrow> bytes_to_nat b = n \<Longrightarrow> be n = b"
  using be_bytes_to_nat by blast

lemma be_ucast: "(x :: u8) \<noteq> 0 \<Longrightarrow> be (unat (ucast x :: u64)) = [x]"
  by (rule be_unique) (simp_all add: bytes_to_nat_def unat_ucast_u8)

lemma readSize_content:
  assumes "2 \<le> length c" "length c \<le> 8"
  shows "readSize c (word_of_nat (length c)) = Inr x \<longleftrightarrow> c = be (unat x)"
proof
  have u: "unat (word_of_nat (length c) :: u8) = length c" using assms by (simp add: unat_of_nat)
  { assume "readSize c (word_of_nat (length c)) = Inr x"
    from readSize_Inr [OF this] u obtain xs where "c = be (unat x) @ xs" "length (be (unat x)) = length c" by metis
    then have "length xs = 0" by (metis add_cancel_right_right length_append)
    with \<open>c = be (unat x) @ xs\<close> show "c = be (unat x)" by simp }
  assume c: "c = be (unat x)"
  have "256 \<le> unat x"
  proof (rule ccontr)
    assume "\<not> 256 \<le> unat x"
    then have "length (be (unat x)) \<le> 1" using length_be_le [of "unat x" 1] by simp
    with assms c show False by simp
  qed
  then show "readSize c (word_of_nat (length c)) = Inr x"
    using readSize_be [of "unat x" "[]"] c by simp
qed

lemma SplitUint64_content:
  "SplitUint64 b = Ret (Inr (x, rest)) \<longleftrightarrow> SplitString b = Ret (Inr (be (unat x), rest))"
proof -
  have "(if length c = 0 then Ret (Inr (0, r))
       else if length c = 1 then (if c ! 0 = 0 then Ret (Inl ErrCanonInt) else Ret (Inr (ucast (c ! 0), r)))
       else if length c > 8 then Ret (Inl ErrUintOverflow)
       else (case readSize c (word_of_nat (length c)) of Inl e \<Rightarrow> Ret (Inl ErrCanonInt) | Inr y \<Rightarrow> Ret (Inr (y, r))))
     = Ret (Inr (x, rest)) \<longleftrightarrow> c = be (unat x) \<and> r = rest" for c r
  proof -
    consider "length c = 0" | "length c = 1" | "2 \<le> length c" "length c \<le> 8" | "8 < length c" by linarith
    then show ?thesis
    proof cases
      case 1
      then show ?thesis using be_hd [of "unat x"] by (cases "x = 0") (auto simp: unat_gt_0)
    next
      case 2
      then obtain y where c: "c = [y]" by (cases c) auto
      have "y \<noteq> 0 \<and> ucast y = x \<longleftrightarrow> [y] = be (unat x)"
      proof
        assume y: "[y] = be (unat x)"
        then have "bytes_to_nat [y] = unat x" by simp
        then have "unat y = unat x" by (simp add: bytes_to_nat_def)
        moreover have "y \<noteq> 0" 
        proof (cases "unat x = 0")
          case False
          with be_hd [of "unat x"] have "[y] ! 0 \<noteq> 0" unfolding y by simp
          then show ?thesis by simp
        qed (use y in simp)
        ultimately show "y \<noteq> 0 \<and> ucast y = x" by (simp add: word_unat_eq_iff unat_ucast_u8)
      qed (use be_ucast in auto)
      with c show ?thesis by auto
    next
      case 3
      then show ?thesis using readSize_content [OF 3, of x] by (auto split: sum.splits)
    next
      case 4
      then show ?thesis using length_be_8 [of "unat x"] by auto
    qed
  qed
  then show ?thesis by (cases "SplitString b") (auto simp: SplitUint64_def split: sum.splits)
qed


lemma SplitUint64_iff:
  "length b < 2 ^ 64 \<Longrightarrow> SplitUint64 b = Ret (Inr (x, rest)) \<longleftrightarrow> b = AppendUint64 [] x @ rest"
  by (simp add: SplitUint64_content SplitString_iff AppendUint64_be)

section \<open>Counting values\<close>

lemma rlp_str_nonempty: "rlp_str s \<noteq> []"
  by (auto simp: rlp_str_def rlp_head_def)

lemma rlp_lst_nonempty: "rlp_lst s \<noteq> []"
  by (auto simp: rlp_lst_def rlp_head_def)

lemma rlp_nonempty [simp]: "rlp x \<noteq> []"
  by (cases x) (simp_all add: rlp_str_nonempty rlp_lst_nonempty)

lemma rlp_kind: "\<exists>k c. kind_ok k c \<and> rlp x = kind_head k (length c) @ c"
proof (cases x)
  case (Str s)
  then show ?thesis using kind_str [of s "rlp_str s" "[]"] by auto
next
  case (Lst xs)
  then show ?thesis by (intro exI [of _ List]) (auto simp: rlp_lst_def)
qed

lemma count_loop_items:
  "length (concat (map rlp xs)) < 2 ^ 64 \<Longrightarrow> length (concat (map rlp xs)) \<le> fuel \<Longrightarrow>
   count_loop fuel i (concat (map rlp xs)) = Ret (Inr (i + length xs))"
proof (induction xs arbitrary: fuel i)
  case Nil
  then show ?case by (simp add: count_loop.simps)
next
  case (Cons x xs)
  let ?r = "concat (map rlp xs)"
  let ?b = "rlp x @ ?r"
  obtain k c where x: "kind_ok k c" "rlp x = kind_head k (length c) @ c" using rlp_kind by blast
  then have sp: "Split ?b = Ret (Inr (k, c, ?r))" using Cons.prems by (subst Split_iff) simp_all
  then obtain ts cs where r: "readKind ?b = Inr (k, ts, cs)" "slice ?b (unat (ts + cs)) (length ?b) = Ret ?r"
    by (auto simp: Split_def split: sum.splits)
  obtain f where f: "fuel = Suc f" "length ?r \<le> f"
    using Cons.prems(2) rlp_nonempty [of x] by (cases fuel; cases "rlp x") auto
  have "count_loop fuel i ?b = count_loop f (i + 1) ?r"
    using r f by (subst count_loop.simps) simp
  also have "\<dots> = Ret (Inr (i + length (x # xs)))" using Cons f by simp
  finally show ?case by simp
qed

lemma CountValues_items:
  "length (concat (map rlp xs)) < 2 ^ 64 \<Longrightarrow> CountValues (concat (map rlp xs)) = Ret (Inr (length xs))"
  by (simp add: CountValues_def count_loop_items)

text \<open>The loop of \<open>CountValues\<close> always ends, and never reads past the input.\<close>

lemma count_loop_returns:
  "length b < 2 ^ 64 \<Longrightarrow> length b \<le> fuel \<Longrightarrow> \<exists>r. count_loop fuel i b = Ret r"
proof (induction fuel arbitrary: i b)
  case 0
  then show ?case by (simp add: count_loop.simps)
next
  case (Suc f)
  show ?case
  proof (cases "readKind b")
    case (Inr r)
    obtain k ts cs where r: "readKind b = Inr (k, ts, cs)" using Inr by (cases r) auto
    from framed_slices [OF readKind_Inr [OF r Suc.prems(1)] Suc.prems(1)]
    obtain c rest where s: "slice b (unat (ts + cs)) (length b) = Ret rest" "kind_ok k c"
      "b = kind_head k (length c) @ c @ rest" by blast
    then have "length rest < length b" by (cases k) (auto simp: length_rlp_head)
    then have "\<exists>r. count_loop f (i + 1) rest = Ret r" using Suc by simp
    then show ?thesis using r s by (subst count_loop.simps) simp
  qed (simp add: count_loop.simps)
qed

lemma CountValues_returns: "length b < 2 ^ 64 \<Longrightarrow> \<exists>r. CountValues b = Ret r"
  by (simp add: CountValues_def count_loop_returns)


section \<open>Sizes\<close>

lemma BytesSize_rlp: "length (rlp_str b) < 2 ^ 64 \<Longrightarrow> unat (BytesSize b) = length (rlp_str b)"
proof -
  assume l: "length (rlp_str b) < 2 ^ 64"
  have le: "b ! 0 \<le> 0x7f \<longleftrightarrow> b ! 0 < 0x80" by (simp add: word_le_nat_alt word_less_nat_alt) arith
  have lb: "length b < 2 ^ 64" using l by (simp add: rlp_str_def split: if_splits)
  have "headsize (len64 b) + length b = length (rlp_str b)" if "2 \<le> length b"
  proof -
    have "56 \<le> length b \<Longrightarrow> len64 b \<noteq> 0" using lb by (auto simp: word_unat_eq_iff unat_len64)
    then show ?thesis using that lb unat_len64 [OF lb]
      by (auto simp: headsize_def rlp_str_def length_rlp_head intsize_be word_less_nat_alt)
  qed
  moreover have "length b = 0 \<or> length b = 1 \<or> 2 \<le> length b" by linarith
  ultimately show ?thesis using l le
    by (auto simp: BytesSize_def rlp_str_def length_rlp_head unat_of_nat simp del: of_nat_add of_nat_Suc)
qed

section \<open>Properties\<close>

text \<open>
  C25: Splitting is exact. On every input \<open>Split\<close> returns without a panic (the slice bounds it
  computes with wrapping arithmetic never leave the input), and it returns a kind, a content and a
  rest exactly when the input is the canonical encoding of that content followed by that rest: a
  single byte below \<open>0x80\<close> stands for itself, and every other string and every list has the shortest
  header for its length. No second encoding of a value is accepted.
\<close>

theorem Split_canonical:
  "length b < 2 ^ 64 \<Longrightarrow>
   returns (Split b) \<and> returns (CountValues b) \<and>
   (Split b = Ret (Inr (k, c, rest)) \<longleftrightarrow> kind_ok k c \<and> b = kind_head k (length c) @ c @ rest)"
  using Split_returns CountValues_returns Split_iff by (simp add: returns_iff)

theorem Split_canonical_witness:
  "Split [0x83, 0x64, 0x6F, 0x67, 0xC0] = Ret (Inr (String, [0x64, 0x6F, 0x67], [0xC0]))"
  using Split_canonical [of "[0x83, 0x64, 0x6F, 0x67, 0xC0]" String "[0x64, 0x6F, 0x67]" "[0xC0]"]
  by (simp add: rlp_head_def)

text \<open>
  Integers round-trip and have one encoding. \<open>SplitUint64\<close> reads \<open>x\<close> and leaves \<open>rest\<close> exactly when
  the input is what \<open>AppendUint64\<close> writes for \<open>x\<close> followed by \<open>rest\<close>; leading zeros, long forms of small
  values and values over 64 bits are all refused.
\<close>

theorem SplitUint64_roundtrip:
  "length b < 2 ^ 64 \<Longrightarrow> SplitUint64 b = Ret (Inr (x, rest)) \<longleftrightarrow> b = AppendUint64 [] x @ rest"
  by (rule SplitUint64_iff)

theorem SplitUint64_roundtrip_witness:
  "SplitUint64 [0x82, 0x04, 0x00, 0x07] = Ret (Inr (1024, [0x07]))"
  using SplitUint64_roundtrip [of "[0x82, 0x04, 0x00, 0x07]" 1024 "[0x07]"]
  by (simp add: AppendUint64_def byte_at_def word_less_nat_alt)

end
