(* ===== verification/RLP_Buffer.thy ===== *)
theory RLP_Buffer
  imports RLP
begin

text \<open>
  The encoder buffer of \<^verbatim>\<open>client/rlp/encbuffer.go\<close>. The buffer keeps the string data and the list
  headers apart: \<open>list\<close> notes where a list begins, \<open>listEnd\<close> computes its size, and only \<open>copyTo\<close>
  interleaves headers and data. \<open>emits w w' e\<close> says that a piece of code that takes the buffer from \<open>w\<close>
  to \<open>w'\<close> adds exactly the bytes \<open>e\<close> to the final output; writes compose, and closing a list wraps what
  was written since in the header of the format. The buffer pool and the readers over a buffer are
  not modelled.
\<close>

section \<open>The encoder buffer\<close>

record listhead =
  lhOffset :: nat
  lhSize :: nat

record encBuffer =
  ebStr :: bytes
  ebHeads :: "listhead list"
  ebLhsize :: nat

definition eb_reset :: encBuffer where
  "eb_reset = \<lparr>ebStr = [], ebHeads = [], ebLhsize = 0\<rparr>"

definition eb_size :: "encBuffer \<Rightarrow> nat" where
  "eb_size w = length (ebStr w) + ebLhsize w"

definition eb_Write :: "bytes \<Rightarrow> encBuffer \<Rightarrow> encBuffer" where
  "eb_Write b w = w\<lparr>ebStr := ebStr w @ b\<rparr>"

definition eb_writeBool :: "bool \<Rightarrow> encBuffer \<Rightarrow> encBuffer" where
  "eb_writeBool b w = eb_Write (if b then [0x01] else [0x80]) w"

definition eb_writeUint64 :: "u64 \<Rightarrow> encBuffer \<Rightarrow> encBuffer" where
  "eb_writeUint64 i w =
    (if i = 0 then eb_Write [0x80] w
     else if i < 128 then eb_Write [byte_at 0 i] w
     else let s = putint i in eb_Write ((0x80 + word_of_nat (length s)) # s) w)"

definition encodeStringHeader :: "nat \<Rightarrow> encBuffer \<Rightarrow> encBuffer" where
  "encodeStringHeader n w =
    (if n < 56 then eb_Write [0x80 + word_of_nat n] w
     else let s = putint (word_of_nat n) in eb_Write ((0xB7 + word_of_nat (length s)) # s) w)"

definition eb_writeBytes :: "bytes \<Rightarrow> encBuffer \<Rightarrow> encBuffer" where
  "eb_writeBytes b w =
    (if length b = 1 \<and> b ! 0 \<le> 0x7F then eb_Write [b ! 0] w
     else eb_Write b (encodeStringHeader (length b) w))"

definition eb_list :: "encBuffer \<Rightarrow> nat \<times> encBuffer" where
  "eb_list w = (let hs = ebHeads w @ [\<lparr>lhOffset = length (ebStr w), lhSize = ebLhsize w\<rparr>]
                in (length hs - 1, w\<lparr>ebHeads := hs\<rparr>))"

text \<open>\<open>listEnd\<close>: an index that \<open>list\<close> did not return would panic; the sizes never underflow.\<close>

definition eb_listEnd :: "nat \<Rightarrow> encBuffer \<Rightarrow> encBuffer go" where
  "eb_listEnd index w =
    (if length (ebHeads w) \<le> index then Panic ''index out of range''
     else let lh = ebHeads w ! index;
              n = eb_size w - lhOffset lh - lhSize lh
          in Ret (w\<lparr>ebHeads := (ebHeads w)[index := lh\<lparr>lhSize := n\<rparr>],
                    ebLhsize := ebLhsize w + (if n < 56 then 1 else 1 + intsize (word_of_nat n))\<rparr>))"

definition listhead_encode :: "listhead \<Rightarrow> bytes" where
  "listhead_encode h = puthead 0xC0 0xF7 (word_of_nat (lhSize h))"

text \<open>
  \<open>copyTo\<close> writes into a destination of \<open>room\<close> bytes: the string data up to each header, the header,
  and the rest of the string data. \<open>copy\<close> stops at the end of the destination, writing a header past it
  panics, and what is not written stays zero.
\<close>

fun copyTo :: "nat \<Rightarrow> bytes \<Rightarrow> nat \<Rightarrow> listhead list \<Rightarrow> bytes go" where
  "copyTo room str strpos [] =
     (let piece = take room (drop strpos str) in Ret (piece @ replicate (room - length piece) 0))"
| "copyTo room str strpos (h # hs) =
     go_bind (slice str strpos (lhOffset h)) (\<lambda>s.
       let piece = take room s; n = length piece; enc = listhead_encode h
       in if room - n < length enc then Panic ''index out of range''
          else go_bind (copyTo (room - n - length enc) str (strpos + n) hs) (\<lambda>rest.
                 Ret (piece @ enc @ rest)))"

definition makeBytes :: "encBuffer \<Rightarrow> bytes go" where
  "makeBytes w = copyTo (eb_size w) (ebStr w) 0 (ebHeads w)"


text \<open>
  The writers of byte slices and of slices of values (\<open>writeBytes\<close> and \<open>makeSliceWriter\<close> of
  \<^verbatim>\<open>encode.go\<close>) on nested items, and \<open>EncodeToBytes\<close> on them.
\<close>

fun write_item :: "item \<Rightarrow> encBuffer \<Rightarrow> encBuffer go"
and write_items :: "item list \<Rightarrow> encBuffer \<Rightarrow> encBuffer go" where
  "write_item (Str s) w = Ret (eb_writeBytes s w)"
| "write_item (Lst xs) w =
     (case xs of
        [] \<Rightarrow> Ret (eb_Write [0xC0] w)
      | _ \<Rightarrow> let (listOffset, w1) = eb_list w in go_bind (write_items xs w1) (eb_listEnd listOffset))"
| "write_items [] w = Ret w"
| "write_items (x # xs) w = go_bind (write_item x w) (write_items xs)"

definition EncodeToBytes :: "item \<Rightarrow> bytes go" where
  "EncodeToBytes x = go_bind (write_item x eb_reset) makeBytes"

section \<open>What the output is\<close>

fun flat :: "bytes \<Rightarrow> nat \<Rightarrow> listhead list \<Rightarrow> bytes" where
  "flat str pos [] = drop pos str"
| "flat str pos (h # hs) = take (lhOffset h - pos) (drop pos str) @ listhead_encode h @ flat str (lhOffset h) hs"

text \<open>\<open>str\<close> continues the data \<open>pre @ s\<close>; the headers that follow lie behind it.\<close>

definition emits :: "encBuffer \<Rightarrow> encBuffer \<Rightarrow> bytes \<Rightarrow> bool" where
  "emits w w' e \<longleftrightarrow> (\<exists>s hs k.
     ebStr w' = ebStr w @ s \<and> ebHeads w' = ebHeads w @ hs \<and> ebLhsize w' = ebLhsize w + k \<and>
     length e = length s + k \<and> sorted (map lhOffset hs) \<and>
     (\<forall>h \<in> set hs. length (ebStr w) \<le> lhOffset h \<and> lhOffset h \<le> length (ebStr w')) \<and>
     (\<forall>post pos rest. pos \<le> length (ebStr w) \<longrightarrow> (\<forall>h \<in> set rest. length (ebStr w') \<le> lhOffset h) \<longrightarrow>
        flat (ebStr w' @ post) pos (hs @ rest)
        = drop pos (ebStr w) @ e @ flat (ebStr w' @ post) (length (ebStr w')) rest))"

lemma flat_split:
  assumes "pos \<le> n" "n \<le> length str" "\<forall>h \<in> set hs. n \<le> lhOffset h"
  shows "flat str pos hs = take (n - pos) (drop pos str) @ flat str n hs"
proof (cases hs)
  case Nil
  then show ?thesis using assms by (simp, subst append_take_drop_id [of "n - pos" "drop pos str", symmetric]) simp
next
  case (Cons h hs')
  then have "n \<le> lhOffset h" using assms by simp
  then have "take (lhOffset h - pos) (drop pos str) = take (n - pos) (drop pos str) @ take (lhOffset h - n) (drop n str)"
    using assms take_add [of "n - pos" "lhOffset h - n" "drop pos str"] by simp
  then show ?thesis using Cons by simp
qed

lemma emits_trans:
  assumes "emits w w1 e1" "emits w1 w2 e2"
  shows "emits w w2 (e1 @ e2)"
proof -
  obtain s1 h1 k1 where 1: "ebStr w1 = ebStr w @ s1" "ebHeads w1 = ebHeads w @ h1" "ebLhsize w1 = ebLhsize w + k1"
      "length e1 = length s1 + k1" "sorted (map lhOffset h1)"
      "\<forall>h \<in> set h1. length (ebStr w) \<le> lhOffset h \<and> lhOffset h \<le> length (ebStr w1)"
    and f1: "\<And>post pos rest. pos \<le> length (ebStr w) \<Longrightarrow> \<forall>h \<in> set rest. length (ebStr w1) \<le> lhOffset h \<Longrightarrow>
        flat (ebStr w1 @ post) pos (h1 @ rest) = drop pos (ebStr w) @ e1 @ flat (ebStr w1 @ post) (length (ebStr w1)) rest"
    using assms(1) unfolding emits_def by blast
  obtain s2 h2 k2 where 2: "ebStr w2 = ebStr w1 @ s2" "ebHeads w2 = ebHeads w1 @ h2" "ebLhsize w2 = ebLhsize w1 + k2"
      "length e2 = length s2 + k2" "sorted (map lhOffset h2)"
      "\<forall>h \<in> set h2. length (ebStr w1) \<le> lhOffset h \<and> lhOffset h \<le> length (ebStr w2)"
    and f2: "\<And>post pos rest. pos \<le> length (ebStr w1) \<Longrightarrow> \<forall>h \<in> set rest. length (ebStr w2) \<le> lhOffset h \<Longrightarrow>
        flat (ebStr w2 @ post) pos (h2 @ rest) = drop pos (ebStr w1) @ e2 @ flat (ebStr w2 @ post) (length (ebStr w2)) rest"
    using assms(2) unfolding emits_def by blast
  have "flat (ebStr w2 @ post) pos ((h1 @ h2) @ rest)
      = drop pos (ebStr w) @ (e1 @ e2) @ flat (ebStr w2 @ post) (length (ebStr w2)) rest"
    if "pos \<le> length (ebStr w)" "\<forall>h \<in> set rest. length (ebStr w2) \<le> lhOffset h" for post pos rest
    using f1 [of pos "h2 @ rest" "s2 @ post"] f2 [of "length (ebStr w1)" rest post] that 1 2 by fastforce
  moreover have "sorted (map lhOffset (h1 @ h2))"
    using 1 2 by (auto simp: sorted_append intro: order_trans)
  ultimately show ?thesis unfolding emits_def using 1 2
    by (intro exI [of _ "s1 @ s2"] exI [of _ "h1 @ h2"] exI [of _ "k1 + k2"]) fastforce
qed

lemma emits_Write [intro]: "emits w (eb_Write b w) b"
proof -
  have "flat ((ebStr w @ b) @ post) pos ([] @ rest)
      = drop pos (ebStr w) @ b @ flat ((ebStr w @ b) @ post) (length (ebStr w @ b)) rest"
    if "pos \<le> length (ebStr w)" "\<forall>h \<in> set rest. length (ebStr w @ b) \<le> lhOffset h" for post pos rest
    using flat_split [of pos "length (ebStr w @ b)" "(ebStr w @ b) @ post" rest] that by simp
  then show ?thesis unfolding emits_def eb_Write_def
    by (intro exI [of _ b] exI [of _ "[]"] exI [of _ 0]) simp
qed


lemma puthead_rlp: "n < 2 ^ 64 \<Longrightarrow> puthead st lt (word_of_nat n) = rlp_head st lt n"
proof -
  assume n: "n < 2 ^ 64"
  then have u: "unat (word_of_nat n :: u64) = n" by (simp add: unat_of_nat)
  show ?thesis
  proof (cases "n < 56")
    case True
    then have "word_of_nat n < (56 :: u64)" using u by (simp add: word_less_nat_alt)
    moreover have "ucast (word_of_nat n :: u64) = (word_of_nat n :: u8)" using u by (metis of_nat_unat)
    ultimately show ?thesis using True by (simp add: puthead_def rlp_head_def)
  next
    case False
    then have "\<not> word_of_nat n < (56 :: u64)" "word_of_nat n \<noteq> (0 :: u64)" using u by (auto simp: word_less_nat_alt word_unat_eq_iff)
    then show ?thesis using False u by (simp add: puthead_def rlp_head_def putint_be Let_def)
  qed
qed

lemma encodeStringHeader_rlp: "n < 2 ^ 64 \<Longrightarrow> encodeStringHeader n w = eb_Write (rlp_head 0x80 0xB7 n) w"
proof -
  assume n: "n < 2 ^ 64"
  have "56 \<le> n \<Longrightarrow> putint (word_of_nat n) = be n"
    using n by (subst putint_be) (auto simp: word_unat_eq_iff unat_of_nat)
  then show ?thesis by (simp add: encodeStringHeader_def rlp_head_def Let_def)
qed

lemma emits_writeBytes [intro]: "length b < 2 ^ 64 \<Longrightarrow> emits w (eb_writeBytes b w) (rlp_str b)"
proof -
  assume b: "length b < 2 ^ 64"
  have le: "b ! 0 \<le> 0x7F \<longleftrightarrow> b ! 0 < 0x80" by (simp add: word_le_nat_alt word_less_nat_alt) arith
  show ?thesis
  proof (cases "length b = 1 \<and> b ! 0 < 0x80")
    case True
    then have "b = [b ! 0]" by (cases b) auto
    then show ?thesis using True le emits_Write [of w b] by (simp add: eb_writeBytes_def rlp_str_def)
  next
    case False
    have "emits w (eb_Write b (encodeStringHeader (length b) w)) (rlp_head 0x80 0xB7 (length b) @ b)"
      unfolding encodeStringHeader_rlp [OF b] by (rule emits_trans) (rule emits_Write)+
    then show ?thesis using False le by (auto simp: eb_writeBytes_def rlp_str_def)
  qed
qed

lemma eb_writeUint64_rlp: "eb_writeUint64 i w = eb_Write (rlp_str (be (unat i))) w"
proof -
  have "eb_writeUint64 i w = eb_Write (AppendUint64 [] i) w"
    by (simp add: eb_writeUint64_def AppendUint64_def putint_def Let_def)
  then show ?thesis by (simp add: AppendUint64_be)
qed

lemma emits_writeUint64: "emits w (eb_writeUint64 i w) (rlp_str (be (unat i)))"
  unfolding eb_writeUint64_rlp by (rule emits_Write)

lemma emits_list:
  assumes e: "emits (snd (eb_list w)) w' e" and len: "length e < 2 ^ 64"
  shows "\<exists>w''. eb_listEnd (fst (eb_list w)) w' = Ret w'' \<and> emits w w'' (rlp_lst e)"
proof -
  let ?lh = "\<lparr>lhOffset = length (ebStr w), lhSize = ebLhsize w\<rparr>"
  obtain s hs k where 1: "ebStr w' = ebStr w @ s" "ebHeads w' = ebHeads w @ ?lh # hs" "ebLhsize w' = ebLhsize w + k"
      "length e = length s + k" "sorted (map lhOffset hs)"
      "\<forall>h \<in> set hs. length (ebStr w) \<le> lhOffset h \<and> lhOffset h \<le> length (ebStr w')"
    and f: "\<And>post pos rest. pos \<le> length (ebStr w) \<Longrightarrow> \<forall>h \<in> set rest. length (ebStr w') \<le> lhOffset h \<Longrightarrow>
        flat (ebStr w' @ post) pos (hs @ rest) = drop pos (ebStr w) @ e @ flat (ebStr w' @ post) (length (ebStr w')) rest"
    using e unfolding emits_def eb_list_def by (auto simp: Let_def)
  let ?n = "length e" and ?h = "\<lparr>lhOffset = length (ebStr w), lhSize = length e\<rparr>"
  let ?hd = "rlp_head 0xC0 0xF7 ?n"
  have u: "?n \<ge> 56 \<Longrightarrow> intsize (word_of_nat ?n) = length (be ?n)"
    using len by (subst intsize_be) (auto simp: word_unat_eq_iff unat_of_nat)
  have end': "eb_listEnd (fst (eb_list w)) w'
      = Ret (w'\<lparr>ebHeads := ebHeads w @ ?h # hs, ebLhsize := ebLhsize w' + length ?hd\<rparr>)"
    using 1 u by (simp add: eb_listEnd_def eb_list_def eb_size_def Let_def nth_append list_update_append length_rlp_head)
  have enc: "listhead_encode ?h = ?hd" using len by (simp add: listhead_encode_def puthead_rlp)
  have "flat (ebStr w' @ post) pos ((?h # hs) @ rest)
      = drop pos (ebStr w) @ rlp_lst e @ flat (ebStr w' @ post) (length (ebStr w')) rest"
    if "pos \<le> length (ebStr w)" "\<forall>h \<in> set rest. length (ebStr w') \<le> lhOffset h" for post pos rest
    using f [of "length (ebStr w)" rest post] that 1 enc by (simp add: rlp_lst_def)
  then have "emits w (w'\<lparr>ebHeads := ebHeads w @ ?h # hs, ebLhsize := ebLhsize w' + length ?hd\<rparr>) (rlp_lst e)"
    unfolding emits_def using 1
    by (intro exI [of _ s] exI [of _ "?h # hs"] exI [of _ "k + length ?hd"]) (simp add: rlp_lst_def)
  with end' show ?thesis by blast
qed

lemma copyTo_flat:
  "sorted (map lhOffset hs) \<Longrightarrow> \<forall>h \<in> set hs. pos \<le> lhOffset h \<and> lhOffset h \<le> length str \<Longrightarrow>
   copyTo (length (flat str pos hs)) str pos hs = Ret (flat str pos hs)"
proof (induction hs arbitrary: pos)
  case (Cons h hs)
  let ?p = "take (lhOffset h - pos) (drop pos str)"
  have "copyTo (length (flat str (lhOffset h) hs)) str (lhOffset h) hs = Ret (flat str (lhOffset h) hs)"
    using Cons by auto
  moreover have "slice str pos (lhOffset h) = Ret ?p" "length ?p = lhOffset h - pos" "pos \<le> lhOffset h"
    using Cons.prems by (auto simp: slice_def)
  ultimately show ?case by simp
qed simp

text \<open>The bytes copied out of a buffer that was written from empty.\<close>

lemma makeBytes_emits:
  assumes "emits eb_reset w e"
  shows "makeBytes w = Ret e \<and> eb_size w = length e"
proof -
  obtain s hs k where 1: "ebStr w = s" "ebHeads w = hs" "ebLhsize w = k" "length e = length s + k"
      "sorted (map lhOffset hs)" "\<forall>h \<in> set hs. lhOffset h \<le> length s"
    and f: "\<And>post pos rest. pos \<le> (0 :: nat) \<Longrightarrow> \<forall>h \<in> set rest. length s \<le> lhOffset h \<Longrightarrow>
        flat (s @ post) pos (hs @ rest) = e @ flat (s @ post) (length s) rest"
    using assms unfolding emits_def eb_reset_def by auto
  have "flat s 0 hs = e" using f [of 0 "[]" "[]"] by simp
  then show ?thesis using copyTo_flat [of hs 0 s] 1 by (simp add: makeBytes_def eb_size_def)
qed


lemma emits_refl [intro]: "emits w w []"
  using emits_Write [of w "[]"] by (simp add: eb_Write_def)

lemma length_rlp_lst: "length c \<le> length (rlp_lst c)"
  by (simp add: rlp_lst_def)

lemma write_items_emits:
  "length (rlp x) < 2 ^ 64 \<Longrightarrow> \<exists>w'. write_item x w = Ret w' \<and> emits w w' (rlp x)"
  "length (concat (map rlp xs)) < 2 ^ 64 \<Longrightarrow>
     \<exists>w'. write_items xs w = Ret w' \<and> emits w w' (concat (map rlp xs))"
proof (induction x w and xs w rule: write_item_write_items.induct)
  case (1 s w)
  have "length s \<le> length (rlp_str s)" by (simp add: rlp_str_def)
  then have "length s < 2 ^ 64" using 1 by simp
  then show ?case by auto
next
  case (2 xs w)
  let ?e = "concat (map rlp xs)"
  have len: "length ?e < 2 ^ 64" using 2 length_rlp_lst [of ?e] by simp
  show ?case
  proof (cases xs)
    case Nil
    then show ?thesis by (auto simp: rlp_lst_def rlp_head_def)
  next
    case (Cons y ys)
    obtain i w1 where i: "eb_list w = (i, w1)" by (cases "eb_list w")
    obtain w' where w': "write_items xs w1 = Ret w'" "emits w1 w' ?e"
      using "2.IH" [OF Cons i [symmetric]] len by auto
    obtain w'' where "eb_listEnd i w' = Ret w''" "emits w w'' (rlp_lst ?e)"
      using emits_list [of w w' ?e] w' i len by auto
    then show ?thesis using w' i Cons by (intro exI [of _ w'']) (simp del: write_items.simps)
  qed
next
  case (4 x xs w)
  obtain w1 where w1: "write_item x w = Ret w1" "emits w w1 (rlp x)" using 4 by auto
  then obtain w2 where "write_items xs w1 = Ret w2" "emits w1 w2 (concat (map rlp xs))" using 4 by auto
  with w1 show ?case by (auto intro: emits_trans)
qed auto

lemma EncodeToBytes_rlp: "length (rlp x) < 2 ^ 64 \<Longrightarrow> EncodeToBytes x = Ret (rlp x)"
  using write_items_emits(1) [of x eb_reset] makeBytes_emits by (fastforce simp: EncodeToBytes_def)


text \<open>
  The encoder buffer implements the format. Writing a nested value through the buffer, with list
  headers noted at \<open>list\<close> and completed at \<open>listEnd\<close>, and copying the buffer out into a slice of the
  size it announces, never panics and gives exactly the encoding the format prescribes.
\<close>

theorem EncodeToBytes_exact: "length (rlp x) < 2 ^ 64 \<Longrightarrow> EncodeToBytes x = Ret (rlp x)"
  by (rule EncodeToBytes_rlp)

theorem EncodeToBytes_exact_witness:
  "EncodeToBytes (Lst [Str [0x64, 0x6F, 0x67], Lst [], Str [0x05]])
   = Ret [0xC6, 0x83, 0x64, 0x6F, 0x67, 0xC0, 0x05]"
proof -
  have r: "rlp (Lst [Str [0x64, 0x6F, 0x67], Lst [], Str [0x05]]) = [0xC6, 0x83, 0x64, 0x6F, 0x67, 0xC0, 0x05]"
    by (simp add: rlp_str_def rlp_lst_def rlp_head_def)
  show ?thesis using EncodeToBytes_exact [of "Lst [Str [0x64, 0x6F, 0x67], Lst [], Str [0x05]]"]
    unfolding r by simp
qed

end
