(* ===== verification/Trie_Encoding.thy ===== *)
theory Trie_Encoding
  imports Prelude
begin

text \<open>
  The key encodings of the Merkle Patricia trie (\<^verbatim>\<open>client/trie/encoding.go\<close>): the hexadecimal form,
  one nibble per byte with an optional terminator \<open>16\<close>, in which the trie works, and the compact form
  (hex prefix), in which keys are stored. Index and slice expressions that panic in the code panic
  here. The two forms are inverse to each other on well-formed keys, and the in-place variant of the
  conversion writes the same bytes as the copying one.
\<close>

unbundle bit_operations_syntax

section \<open>The conversions\<close>

definition hasTerm :: "bytes \<Rightarrow> bool" where
  "hasTerm s \<longleftrightarrow> length s > 0 \<and> s ! (length s - 1) = 16"

text \<open>
  \<open>decodeNibbles\<close> fills a buffer of \<open>room\<close> bytes from the front; reading a missing second nibble or
  writing past the buffer panics.
\<close>

fun decodeNibbles :: "bytes \<Rightarrow> nat \<Rightarrow> bytes go" where
  "decodeNibbles [] room = Ret (replicate room 0)"
| "decodeNibbles [x] room = Panic ''index out of range''"
| "decodeNibbles (x # y # ns) room =
     (case room of
        0 \<Rightarrow> Panic ''index out of range''
      | Suc r \<Rightarrow> go_bind (decodeNibbles ns r) (\<lambda>bs. Ret ((push_bit 4 x OR y) # bs)))"

definition hexToCompact :: "bytes \<Rightarrow> bytes go" where
  "hexToCompact hex0 =
    (let terminator = (if hasTerm hex0 then 1 else 0 :: u8);
         hex = (if hasTerm hex0 then take (length hex0 - 1) hex0 else hex0);
         n = length hex div 2 + 1;
         odd_len = (length hex mod 2 = 1);
         flag = push_bit 5 terminator;
         b0 = (if odd_len then flag OR push_bit 4 1 OR hex ! 0 else flag);
         rest = (if odd_len then drop 1 hex else hex)
     in go_bind (decodeNibbles rest (n - 1)) (\<lambda>bs. Ret (b0 # bs)))"

text \<open>
  \<open>hexToCompactInPlace\<close> writes into the buffer it reads from: the loop over \<open>bi\<close> and \<open>ni\<close>, then the
  first byte.
\<close>

function compact_loop :: "nat \<Rightarrow> nat \<Rightarrow> nat \<Rightarrow> bytes \<Rightarrow> bytes go" where
  "compact_loop hexLen bi ni hex =
    (if ni < hexLen then
       (if length hex \<le> ni + 1 \<or> length hex \<le> bi then Panic ''index out of range''
        else compact_loop hexLen (bi + 1) (ni + 2) (hex[bi := push_bit 4 (hex ! ni) OR hex ! (ni + 1)]))
     else Ret hex)"
  by auto
termination by (relation "measure (\<lambda>(hexLen, bi, ni, hex). hexLen - ni)") auto

declare compact_loop.simps [simp del]

definition hexToCompactInPlace :: "bytes \<Rightarrow> (nat \<times> bytes) go" where
  "hexToCompactInPlace hex =
    (let term = (length hex > 0 \<and> hex ! (length hex - 1) = 16);
         hexLen = (if term then length hex - 1 else length hex);
         flag = (if term then push_bit 5 1 else 0);
         odd_len = (hexLen mod 2 = 1);
         firstByte = (if odd_len then flag OR push_bit 4 1 OR hex ! 0 else flag)
     in go_bind (compact_loop hexLen 1 (if odd_len then 1 else 0) hex) (\<lambda>out.
        if out = [] then Panic ''index out of range'' else Ret (hexLen div 2 + 1, out[0 := firstByte])))"

definition keybytesToHex :: "bytes \<Rightarrow> bytes" where
  "keybytesToHex str = concat (map (\<lambda>b. [b div 16, b mod 16]) str) @ [16]"

definition compactToHex :: "bytes \<Rightarrow> bytes" where
  "compactToHex compact =
    (if length compact = 0 then compact
     else let base = keybytesToHex compact;
              base' = (if base ! 0 < 2 then take (length base - 1) base else base);
              chop = unat (2 - (base' ! 0 AND 1))
          in drop chop base')"

definition hexToKeybytes :: "bytes \<Rightarrow> bytes go" where
  "hexToKeybytes hex0 =
    (let hex = (if hasTerm hex0 then take (length hex0 - 1) hex0 else hex0)
     in if length hex mod 2 \<noteq> 0 then Panic ''can't convert hex key of odd length''
        else decodeNibbles hex (length hex div 2))"

fun prefixLen :: "bytes \<Rightarrow> bytes \<Rightarrow> nat" where
  "prefixLen (x # xs) (y # ys) = (if x = y then Suc (prefixLen xs ys) else 0)"
| "prefixLen _ _ = 0"

section \<open>Well-formed keys\<close>

definition nibbles :: "bytes \<Rightarrow> bool" where
  "nibbles ns \<longleftrightarrow> (\<forall>x \<in> set ns. x < 16)"

text \<open>The nibbles of a byte string.\<close>

definition nibs :: "bytes \<Rightarrow> bytes" where
  "nibs str = concat (map (\<lambda>b. [b div 16, b mod 16]) str)"

lemma nibs_simps [simp]: "nibs [] = []" "nibs (b # bs) = b div 16 # b mod 16 # nibs bs"
  by (simp_all add: nibs_def)

lemma nibbles_simps [simp]: "nibbles []" "nibbles (x # ns) \<longleftrightarrow> x < 16 \<and> nibbles ns"
  "nibbles (xs @ ys) \<longleftrightarrow> nibbles xs \<and> nibbles ys"
  by (auto simp: nibbles_def)

lemma length_nibs [simp]: "length (nibs bs) = 2 * length bs"
  by (induction bs) simp_all

lemma unat_u8_bound [simp]: "unat (x :: u8) < 256"
  using unsigned_less [of x, where ?'a = nat] by simp

lemma nib_div: "(b :: u8) div 16 < 16" "b mod 16 < 16"
proof -
  have "unat b div 16 < 16" using unat_u8_bound [of b] by linarith
  then show "b div 16 < 16" by (simp add: word_less_nat_alt unat_div)
  show "b mod 16 < 16" by (simp add: word_less_nat_alt unat_mod)
qed

lemma nibbles_nibs [simp]: "nibbles (nibs bs)"
  by (induction bs) (simp_all add: nib_div)

lemma join_or: "y < 16 \<Longrightarrow> push_bit 4 (x :: u8) OR y = x * 16 + y"
proof -
  assume y: "y < 16"
  have "\<not> bit y n" if "4 \<le> n" for n
  proof -
    have "take_bit 4 y = y" using y by (simp add: take_bit_eq_mod word_unat_eq_iff unat_mod word_less_nat_alt)
    then show ?thesis using that by (metis bit_take_bit_iff leD)
  qed
  then have "push_bit 4 x OR y = push_bit 4 x + y"
    by (intro disjunctive_add_eq_or [symmetric]) (auto simp: bit_eq_iff bit_and_iff bit_push_bit_iff)
  then show ?thesis by (simp add: push_bit_eq_mult)
qed

lemma join_nibs [simp]: "push_bit 4 ((b :: u8) div 16) OR b mod 16 = b"
  by (simp add: join_or nib_div div_mult_mod_eq)

lemma split_join: "x < 16 \<Longrightarrow> y < 16 \<Longrightarrow> (push_bit 4 (x :: u8) OR y) div 16 = x \<and> (push_bit 4 x OR y) mod 16 = y"
proof -
  assume x: "x < 16" and y: "y < 16"
  have n: "unat x < 16" "unat y < 16" using x y by (simp_all add: word_less_nat_alt)
  have "unat (x * 16 + y) = unat x * 16 + unat y" using n by (simp add: unat_word_ariths)
  then show ?thesis using n y by (simp add: join_or word_unat_eq_iff unat_div unat_mod)
qed

lemma decodeNibbles_nibs: "decodeNibbles (nibs bs) (length bs) = Ret bs"
  by (induction bs) simp_all

lemma decodeNibbles_ok:
  "nibbles ns \<Longrightarrow> even (length ns) \<Longrightarrow> \<exists>bs. decodeNibbles ns (length ns div 2) = Ret bs \<and> nibs bs = ns"
proof (induction ns "length ns div 2" rule: decodeNibbles.induct)
  case (3 x y ns)
  then obtain bs where "decodeNibbles ns (length ns div 2) = Ret bs" "nibs bs = ns" by auto
  then show ?case using 3 split_join [of x y] by (intro exI [of _ "(push_bit 4 x OR y) # bs"]) simp
qed simp_all

lemma keybytesToHex_nibs: "keybytesToHex str = nibs str @ [16]"
  by (simp add: keybytesToHex_def nibs_def)


text \<open>A key in hexadecimal form: nibbles, with or without the terminator.\<close>

definition hexkey :: "bool \<Rightarrow> bytes \<Rightarrow> bytes" where
  "hexkey t ns = ns @ (if t then [16] else [])"

definition flagbyte :: "bool \<Rightarrow> bytes \<Rightarrow> u8" where
  "flagbyte t ns = (if t then 0x20 else 0) + (if odd (length ns) then 0x10 + ns ! 0 else 0)"

lemma hasTerm_hexkey [simp]: "nibbles ns \<Longrightarrow> hasTerm (hexkey t ns) = t"
proof -
  assume n: "nibbles ns"
  have "ns ! (length ns - 1) \<noteq> 16" if "ns \<noteq> []"
  proof -
    have "ns ! (length ns - 1) \<in> set ns" using that by (intro nth_mem) simp
    then show ?thesis using n by (auto simp: nibbles_def)
  qed
  then show ?thesis by (auto simp: hasTerm_def hexkey_def nth_append)
qed

lemma flagbyte_or:
  assumes "nibbles ns"
  shows "(let flag = push_bit 5 (if t then 1 else 0 :: u8)
          in if length ns mod 2 = 1 then flag OR push_bit 4 1 OR ns ! 0 else flag) = flagbyte t ns"
proof (cases "odd (length ns)")
  case True
  then have "ns ! 0 < 16" using assms by (cases ns) auto
  then have "(48 :: u8) OR ns ! 0 = 48 + ns ! 0" "(16 :: u8) OR ns ! 0 = 16 + ns ! 0"
    using join_or [of "ns ! 0" 3] join_or [of "ns ! 0" 1] by simp_all
  moreover have "(32 :: u8) OR (16 OR ns ! 0) = 48 OR ns ! 0" by (simp flip: or.assoc)
  ultimately show ?thesis using True by (simp add: odd_iff_mod_2_eq_one flagbyte_def Let_def)
next
  case False
  then show ?thesis by (simp add: flagbyte_def Let_def flip: even_iff_mod_2_eq_zero)
qed

lemma hexToCompact_hexkey:
  assumes "nibbles ns"
  shows "\<exists>bs. hexToCompact (hexkey t ns) = Ret (flagbyte t ns # bs) \<and> length bs = length ns div 2 \<and>
    nibs bs = (if odd (length ns) then drop 1 ns else ns) \<and>
    decodeNibbles (if odd (length ns) then drop 1 ns else ns) (length ns div 2) = Ret bs"
proof -
  let ?r = "if odd (length ns) then drop 1 ns else ns"
  have l: "even (length ?r)" "length ?r div 2 = length ns div 2" by (auto elim: oddE)
  have "nibbles ?r" using assms by (cases ns) auto
  then obtain bs where bs: "decodeNibbles ?r (length ns div 2) = Ret bs" "nibs bs = ?r"
    using decodeNibbles_ok [of ?r] l by auto
  have "2 * length bs = length ?r" using bs(2) length_nibs [of bs] by simp
  then have "length bs = length ns div 2" using l by simp
  have h: "(if hasTerm (hexkey t ns) then take (length (hexkey t ns) - 1) (hexkey t ns) else hexkey t ns) = ns"
    using hasTerm_hexkey [OF assms, of t] by (cases t) (simp_all add: hexkey_def)
  have "hexToCompact (hexkey t ns) = Ret (flagbyte t ns # bs)"
    using bs flagbyte_or [OF assms, of t] assms unfolding hexToCompact_def h
    by (auto simp: Let_def odd_iff_mod_2_eq_one)
  with bs \<open>length bs = _\<close> show ?thesis by blast
qed

lemma flagbyte_nibbles:
  assumes "nibbles ns"
  shows "flagbyte t ns div 16 = (if t then 2 else 0) + (if odd (length ns) then 1 else 0)"
    "odd (length ns) \<Longrightarrow> flagbyte t ns mod 16 = ns ! 0"
proof -
  have lt: "unat (ns ! 0) < 16" if "odd (length ns)" using assms that by (cases ns) (auto simp: word_less_nat_alt)
  then have u: "unat (flagbyte t ns) = (if t then 32 else 0) + (if odd (length ns) then 16 + unat (ns ! 0) else 0)"
    by (cases "odd (length ns)") (simp_all add: flagbyte_def unat_word_ariths)
  have d: "(48 + u) div 16 = 3" "(16 + u) div 16 = Suc 0" "(48 + u) mod 16 = u" if "u < 16" for u :: nat
    using that mod_mult_self1 [of u 3 16] by (simp_all add: div_nat_eqI add.commute)
  show "flagbyte t ns div 16 = (if t then 2 else 0) + (if odd (length ns) then 1 else 0)"
    using lt d [of "unat (ns ! 0)"] by (cases "odd (length ns)") (simp_all add: word_unat_eq_iff unat_div u)
  show "odd (length ns) \<Longrightarrow> flagbyte t ns mod 16 = ns ! 0"
    using lt d [of "unat (ns ! 0)"] by (simp add: word_unat_eq_iff unat_mod u)
qed

lemma compactToHex_hexkey:
  assumes "nibbles ns" "nibs bs = (if odd (length ns) then drop 1 ns else ns)"
  shows "compactToHex (flagbyte t ns # bs) = hexkey t ns"
proof -
  let ?f = "flagbyte t ns"
  let ?base = "?f div 16 # ?f mod 16 # nibs bs @ [16]"
  have base: "keybytesToHex (?f # bs) = ?base" by (simp add: keybytesToHex_nibs)
  have t: "?f div 16 < 2 \<longleftrightarrow> \<not> t" using assms(1) by (simp add: flagbyte_nibbles)
  have a: "2 - (?f div 16 AND 1) = (if odd (length ns) then 1 else 2)"
    using assms(1) by (auto simp: flagbyte_nibbles)
  have "ns = [] \<or> (\<exists>x xs. ns = x # xs)" by (cases ns) auto
  then show ?thesis unfolding compactToHex_def base Let_def
    using t a assms flagbyte_nibbles(2) [OF assms(1), of t]
    by (cases "odd (length ns)"; cases t) (auto simp: hexkey_def)
qed

lemma compact_loop_decode:
  "bi \<le> ni + 1 \<Longrightarrow> ni \<le> hexLen \<Longrightarrow> hexLen \<le> length hex \<Longrightarrow> even (hexLen - ni) \<Longrightarrow>
   decodeNibbles (take (hexLen - ni) (drop ni hex)) ((hexLen - ni) div 2) = Ret bs \<Longrightarrow>
   \<exists>out. compact_loop hexLen bi ni hex = Ret out \<and> length out = length hex \<and>
     take bi out = take bi hex \<and> take (length bs) (drop bi out) = bs"
proof (induction hexLen bi ni hex arbitrary: bs rule: compact_loop.induct)
  case (1 hexLen bi ni hex)
  show ?case
  proof (cases "ni < hexLen")
    case False
    then show ?thesis using 1 by (simp add: compact_loop.simps)
  next
    case True
    then have lt: "ni + 1 < hexLen" using 1 by (metis Suc_eq_plus1 Suc_lessI add_diff_cancel_left' even_Suc odd_one plus_1_eq_Suc)
    let ?x = "push_bit 4 (hex ! ni) OR hex ! (ni + 1)"
    let ?hex = "hex[bi := ?x]"
    have ex: "take (hexLen - ni) (drop ni hex) = hex ! ni # hex ! (ni + 1) # take (hexLen - (ni + 2)) (drop (ni + 2) hex)"
      using lt 1 by (simp add: take_Cons' Cons_nth_drop_Suc [symmetric] numeral_2_eq_2)
    have n2: "(hexLen - ni) div 2 = Suc ((hexLen - (ni + 2)) div 2)" using lt by simp
    obtain bs' where bs: "bs = ?x # bs'"
        "decodeNibbles (take (hexLen - (ni + 2)) (drop (ni + 2) hex)) ((hexLen - (ni + 2)) div 2) = Ret bs'"
      using 1(6) unfolding ex n2 by auto
    have "drop (ni + 2) ?hex = drop (ni + 2) hex" using 1 by simp
    then obtain out where out: "compact_loop hexLen (bi + 1) (ni + 2) ?hex = Ret out" "length out = length hex"
        "take (bi + 1) out = take (bi + 1) ?hex" "take (length bs') (drop (bi + 1) out) = bs'"
      using 1 True lt bs(2) by auto
    have bl: "bi < length hex" using lt 1 by simp
    then have "take bi out = take bi hex" "out ! bi = ?x"
      using out(2,3) by (auto simp: take_Suc_conv_app_nth)
    moreover have "take (length bs) (drop bi out) = bs"
      using bl out(2,4) bs(1) \<open>out ! bi = ?x\<close> by (simp add: Cons_nth_drop_Suc [symmetric])
    ultimately show ?thesis using out True lt bl 1 by (subst compact_loop.simps) auto
  qed
qed


lemma hexToCompactInPlace_hexkey:
  assumes "nibbles ns" "hexkey t ns \<noteq> []" "hexToCompact (hexkey t ns) = Ret c"
  shows "\<exists>out. hexToCompactInPlace (hexkey t ns) = Ret (length c, out) \<and> take (length c) out = c"
proof -
  let ?hex = "hexkey t ns" and ?o = "if odd (length ns) then 1 else 0 :: nat"
  obtain bs where bs: "c = flagbyte t ns # bs" "length bs = length ns div 2"
      "decodeNibbles (drop ?o ns) (length ns div 2) = Ret bs"
    using hexToCompact_hexkey [OF assms(1), of t] assms(3) by (auto split: if_splits)
  have len: "ns \<noteq> [] \<Longrightarrow> ?hex ! 0 = ns ! 0" by (simp add: hexkey_def nth_append)
  have n: "(if 0 < length ?hex \<and> ?hex ! (length ?hex - 1) = 16 then length ?hex - 1 else length ?hex) = length ns"
    using hasTerm_hexkey [OF assms(1), of t] unfolding hasTerm_def by (cases t) (auto simp: hexkey_def)
  have fl: "(if 0 < length ?hex \<and> ?hex ! (length ?hex - 1) = 16 then push_bit 5 1 else 0) = push_bit 5 (if t then 1 else 0 :: u8)"
    using hasTerm_hexkey [OF assms(1), of t] unfolding hasTerm_def by (cases t) auto
  have ev: "even (length ns - ?o)" "(length ns - ?o) div 2 = length ns div 2" "?o \<le> length ns"
    by (auto elim: oddE)
  have "take (length ns - ?o) (drop ?o ?hex) = drop ?o ns" by (simp add: hexkey_def)
  then obtain out where out: "compact_loop (length ns) 1 ?o ?hex = Ret out" "length out = length ?hex"
      "take (length bs) (drop 1 out) = bs"
    using compact_loop_decode [of 1 ?o "length ns" ?hex bs] bs(3) ev by (auto simp: hexkey_def)
  have fb: "(if length ns mod 2 = 1 then push_bit 5 (if t then 1 else 0) OR push_bit 4 1 OR ?hex ! 0
      else push_bit 5 (if t then 1 else 0)) = flagbyte t ns"
    using flagbyte_or [OF assms(1), of t] len by (cases ns) (auto simp: Let_def)
  have "hexToCompactInPlace ?hex = Ret (length ns div 2 + 1, out[0 := flagbyte t ns])"
    using out assms(2) unfolding hexToCompactInPlace_def Let_def n fl fb
    by (auto simp: odd_iff_mod_2_eq_one split: if_splits)
  moreover have "take (length c) (out[0 := flagbyte t ns]) = c"
    using out assms(2) bs by (cases out) auto
  ultimately show ?thesis using bs by auto
qed

lemma hexToKeybytes_keybytesToHex: "hexToKeybytes (keybytesToHex k) = Ret k"
proof -
  have "hasTerm (nibs k @ [16])" using hasTerm_hexkey [of "nibs k" True] by (simp add: hexkey_def)
  then show ?thesis by (simp add: hexToKeybytes_def keybytesToHex_nibs decodeNibbles_nibs)
qed

lemma prefixLen_take: "take (prefixLen a b) a = take (prefixLen a b) b"
  by (induction a b rule: prefixLen.induct) auto

lemma prefixLen_le: "prefixLen a b \<le> length a" "prefixLen a b \<le> length b"
  by (induction a b rule: prefixLen.induct) auto

lemma prefixLen_max:
  "prefixLen a b < length a \<Longrightarrow> prefixLen a b < length b \<Longrightarrow> a ! prefixLen a b \<noteq> b ! prefixLen a b"
  by (induction a b rule: prefixLen.induct) (auto split: if_splits)

section \<open>Properties\<close>



end
