(* ===== verification/Trie_Node.thy ===== *)
theory Trie_Node
  imports RLP_Buffer Trie_Encoding
begin

text \<open>
  Trie nodes, their encoding and decoding (\<^verbatim>\<open>client/trie/node.go\<close>, \<^verbatim>\<open>client/trie/node_enc.go\<close>). A node
  is \<open>nil\<close>, a branch of 17 children, a short node (a leaf or an extension, by whether its key is
  terminated), the hash of a stored node, or a value. The cache flag of a node keeps its hash, if known,
  and whether the node has to be written. Nodes with raw children, which only the node database uses,
  are not modelled.

  A decoding error carries the path of contexts \<open>wrapError\<close> adds on the way up. Embedded nodes make
  decoding recursive; \<open>decodeNode\<close> runs with the length of its input as fuel, which is always enough.
\<close>

section \<open>Nodes\<close>

record nodeFlag =
  flHash :: "bytes option"
  flDirty :: bool

datatype node = NilNode | FullNode "node list" nodeFlag | ShortNode bytes node nodeFlag
  | HashNode bytes | ValueNode bytes

definition newFlag :: nodeFlag where
  "newFlag = \<lparr>flHash = None, flDirty = True\<rparr>"

fun node_cache :: "node \<Rightarrow> bytes option \<times> bool" where
  "node_cache (FullNode cs fl) = (flHash fl, flDirty fl)"
| "node_cache (ShortNode k v fl) = (flHash fl, flDirty fl)"
| "node_cache (HashNode h) = (None, True)"
| "node_cache (ValueNode v) = (None, True)"
| "node_cache NilNode = (None, True)"

section \<open>Encoding\<close>

fun node_encode :: "node \<Rightarrow> encBuffer \<Rightarrow> encBuffer go"
and encode_child :: "node \<Rightarrow> encBuffer \<Rightarrow> encBuffer go"
and encode_children :: "node list \<Rightarrow> encBuffer \<Rightarrow> encBuffer go" where
  "node_encode (FullNode cs fl) w =
     (let (offset, w1) = eb_list w in go_bind (encode_children cs w1) (eb_listEnd offset))"
| "node_encode (ShortNode k v fl) w =
     (let (offset, w1) = eb_list w
      in go_bind (encode_child v (eb_writeBytes k w1)) (eb_listEnd offset))"
| "node_encode (HashNode h) w = Ret (eb_writeBytes h w)"
| "node_encode (ValueNode v) w = Ret (eb_writeBytes v w)"
| "node_encode NilNode w = Panic ''invalid memory address or nil pointer dereference''"
| "encode_child n w = (if n = NilNode then Ret (eb_Write [0x80] w) else node_encode n w)"
| "encode_children [] w = Ret w"
| "encode_children (c # cs) w = go_bind (encode_child c w) (encode_children cs)"

definition nodeToBytes :: "node \<Rightarrow> bytes go" where
  "nodeToBytes n = go_bind (node_encode n eb_reset) makeBytes"

section \<open>Decoding\<close>

datatype decCtx = CtxShort | CtxFull | CtxVal | CtxChild nat

datatype decWhat = DecEOF | DecList rlpErr | DecElems nat | DecRlp rlpErr | DecValue rlpErr
  | DecOversized nat | DecRefSize nat

record decodeError =
  deWhat :: decWhat
  deStack :: "decCtx list"

definition decErr :: "decWhat \<Rightarrow> decodeError" where
  "decErr e = \<lparr>deWhat = e, deStack = []\<rparr>"

definition wrapError :: "decCtx \<Rightarrow> decodeError \<Rightarrow> decodeError" where
  "wrapError ctx e = e\<lparr>deStack := deStack e @ [ctx]\<rparr>"

abbreviation hashLen :: nat where "hashLen \<equiv> 32"

text \<open>
  \<open>decodeRef\<close>, \<open>decodeShort\<close> and \<open>decodeFull\<close> take the decoder of an embedded node as an argument.
\<close>

definition decodeRef :: "(bytes \<Rightarrow> (decodeError + node) go) \<Rightarrow> bytes \<Rightarrow> (decodeError + node \<times> bytes) go" where
  "decodeRef dec buf = go_bind (Split buf) (\<lambda>r. case r of
     Inl e \<Rightarrow> Ret (Inl (decErr (DecRlp e)))
   | Inr (kind, val, rest) \<Rightarrow>
       if kind = List then
         (let sz = length buf - length rest in
          if sz > hashLen then Ret (Inl (decErr (DecOversized sz)))
          else go_bind (dec buf) (\<lambda>d. case d of
                 Inl e \<Rightarrow> Ret (Inl e)
               | Inr n \<Rightarrow> Ret (Inr (n, rest))))
       else if kind = String \<and> length val = 0 then Ret (Inr (NilNode, rest))
       else if kind = String \<and> length val = 32 then Ret (Inr (HashNode val, rest))
       else Ret (Inl (decErr (DecRefSize (length val)))))"

definition decodeShort :: "(bytes \<Rightarrow> (decodeError + node) go) \<Rightarrow> bytes option \<Rightarrow> bytes \<Rightarrow> (decodeError + node) go" where
  "decodeShort dec hash elems = go_bind (SplitString elems) (\<lambda>r. case r of
     Inl e \<Rightarrow> Ret (Inl (decErr (DecRlp e)))
   | Inr (kbuf, rest) \<Rightarrow>
       let flag = \<lparr>flHash = hash, flDirty = False\<rparr>; key = compactToHex kbuf
       in if hasTerm key then
            go_bind (SplitString rest) (\<lambda>r. case r of
              Inl e \<Rightarrow> Ret (Inl (decErr (DecValue e)))
            | Inr (val, _) \<Rightarrow> Ret (Inr (ShortNode key (ValueNode val) flag)))
          else
            go_bind (decodeRef dec rest) (\<lambda>r. case r of
              Inl e \<Rightarrow> Ret (Inl (wrapError CtxVal e))
            | Inr (n, _) \<Rightarrow> Ret (Inr (ShortNode key n flag))))"

text \<open>The loop over the children \<open>i, i + 1, \<dots>, 15\<close>, with the children read so far.\<close>

fun decode_children :: "(bytes \<Rightarrow> (decodeError + node) go) \<Rightarrow> nat \<Rightarrow> nat \<Rightarrow> node list \<Rightarrow> bytes \<Rightarrow>
    (decodeError + node list \<times> bytes) go" where
  "decode_children dec i 0 acc elems = Ret (Inr (acc, elems))"
| "decode_children dec i (Suc k) acc elems = go_bind (decodeRef dec elems) (\<lambda>r. case r of
     Inl e \<Rightarrow> Ret (Inl (wrapError (CtxChild i) e))
   | Inr (cld, rest) \<Rightarrow> decode_children dec (i + 1) k (acc @ [cld]) rest)"

definition decodeFull :: "(bytes \<Rightarrow> (decodeError + node) go) \<Rightarrow> bytes option \<Rightarrow> bytes \<Rightarrow> (decodeError + node) go" where
  "decodeFull dec hash elems = go_bind (decode_children dec 0 16 [] elems) (\<lambda>r. case r of
     Inl e \<Rightarrow> Ret (Inl e)
   | Inr (cs, elems) \<Rightarrow>
       go_bind (SplitString elems) (\<lambda>r. case r of
         Inl e \<Rightarrow> Ret (Inl (decErr (DecRlp e)))
       | Inr (val, _) \<Rightarrow>
           Ret (Inr (FullNode (cs @ [if length val > 0 then ValueNode val else NilNode])
                       \<lparr>flHash = hash, flDirty = False\<rparr>))))"

definition wrapResult :: "decCtx \<Rightarrow> decodeError + node \<Rightarrow> decodeError + node" where
  "wrapResult ctx r = (case r of Inl e \<Rightarrow> Inl (wrapError ctx e) | Inr n \<Rightarrow> Inr n)"

fun decode_node :: "nat \<Rightarrow> bytes option \<Rightarrow> bytes \<Rightarrow> (decodeError + node) go" where
  "decode_node 0 hash buf = (if length buf = 0 then Ret (Inl (decErr DecEOF)) else NoFuel)"
| "decode_node (Suc fuel) hash buf =
    (if length buf = 0 then Ret (Inl (decErr DecEOF))
     else go_bind (SplitList buf) (\<lambda>r. case r of
       Inl e \<Rightarrow> Ret (Inl (decErr (DecList e)))
     | Inr (elems, _) \<Rightarrow>
         go_bind (CountValues elems) (\<lambda>r. let c = (case r of Inl e \<Rightarrow> 0 | Inr c \<Rightarrow> c) in
           if c = 2 then go_bind (decodeShort (decode_node fuel None) hash elems) (\<lambda>r. Ret (wrapResult CtxShort r))
           else if c = 17 then go_bind (decodeFull (decode_node fuel None) hash elems) (\<lambda>r. Ret (wrapResult CtxFull r))
           else Ret (Inl (decErr (DecElems c))))))"

definition decodeNode :: "bytes option \<Rightarrow> bytes \<Rightarrow> (decodeError + node) go" where
  "decodeNode hash buf = decode_node (length buf) hash buf"

definition mustDecodeNode :: "bytes option \<Rightarrow> bytes \<Rightarrow> node go" where
  "mustDecodeNode hash buf = go_bind (decodeNode hash buf) (\<lambda>r. case r of
     Inl e \<Rightarrow> Panic ''node: decode error''
   | Inr n \<Rightarrow> Ret n)"

end
