(* ===== verification/Trie_Ops.thy ===== *)
theory Trie_Ops
  imports Trie_Node
begin

text \<open>
  The operations of the Merkle Patricia trie (\<^verbatim>\<open>client/trie/trie.go\<close>), its tracer
  (\<^verbatim>\<open>client/trie/tracer.go\<close>) and its reader (\<^verbatim>\<open>client/trie/trie_reader.go\<close>). The recursive functions
  \<open>get\<close>, \<open>getNode\<close>, \<open>insert\<close> and \<open>delete\<close> return the new node, whether it changed, and an error if a stored
  node is missing; the tracer is passed along. A stored node is read through the reader, whose backing
  store is a function of owner, path and hash. Corrupt stores could send the recursion around in
  circles, so it runs on fuel; \<open>Trie_Props\<close> shows how much is enough. \<open>append\<close> on the path prefix only
  ever writes behind the prefix of the caller, so paths are lists.
\<close>

section \<open>Reader and tracer\<close>

record MissingNodeError =
  mnOwner :: hash
  mnNodeHash :: hash
  mnPath :: bytes

text \<open>A store answers with a blob or an error (\<open>None\<close>); a blob of length zero means that it has no such node.\<close>

record trieReader =
  trOwner :: hash
  trReader :: "(hash \<Rightarrow> bytes \<Rightarrow> hash \<Rightarrow> bytes option) option"
  trBanned :: "bytes set"

definition newTrieReader :: "(hash \<Rightarrow> (hash \<Rightarrow> bytes \<Rightarrow> hash \<Rightarrow> bytes option) option) \<Rightarrow> hash \<Rightarrow> hash \<Rightarrow> trieReader option" where
  "newTrieReader db stateRoot owner = (case db stateRoot of
     None \<Rightarrow> None
   | Some reader \<Rightarrow> Some \<lparr>trOwner = owner, trReader = Some reader, trBanned = {}\<rparr>)"

definition newEmptyReader :: trieReader where
  "newEmptyReader = \<lparr>trOwner = 0, trReader = None, trBanned = {}\<rparr>"

definition nodeBlob :: "trieReader \<Rightarrow> bytes \<Rightarrow> hash \<Rightarrow> MissingNodeError + bytes" where
  "nodeBlob r path h =
    (let missing = Inl \<lparr>mnOwner = trOwner r, mnNodeHash = h, mnPath = path\<rparr>
     in if path \<in> trBanned r then missing
        else case trReader r of
          None \<Rightarrow> missing
        | Some rd \<Rightarrow> (case rd (trOwner r) path h of
            None \<Rightarrow> missing
          | Some blob \<Rightarrow> if length blob = 0 then missing else Inr blob))"

record tracer =
  tcInserts :: "bytes set"
  tcDeletes :: "bytes set"
  tcAccess :: "bytes \<rightharpoonup> bytes"

definition newTracer :: tracer where
  "newTracer = \<lparr>tcInserts = {}, tcDeletes = {}, tcAccess = Map.empty\<rparr>"

definition onRead :: "bytes \<Rightarrow> bytes \<Rightarrow> tracer \<Rightarrow> tracer" where
  "onRead path val t = t\<lparr>tcAccess := (tcAccess t)(path \<mapsto> val)\<rparr>"

definition onInsert :: "bytes \<Rightarrow> tracer \<Rightarrow> tracer" where
  "onInsert path t =
    (if path \<in> tcDeletes t then t\<lparr>tcDeletes := tcDeletes t - {path}\<rparr>
     else t\<lparr>tcInserts := insert path (tcInserts t)\<rparr>)"

definition onDelete :: "bytes \<Rightarrow> tracer \<Rightarrow> tracer" where
  "onDelete path t =
    (if path \<in> tcInserts t then t\<lparr>tcInserts := tcInserts t - {path}\<rparr>
     else t\<lparr>tcDeletes := insert path (tcDeletes t)\<rparr>)"

definition tracer_reset :: "tracer \<Rightarrow> tracer" where
  "tracer_reset t = \<lparr>tcInserts = {}, tcDeletes = {}, tcAccess = Map.empty\<rparr>"

definition tracer_copy :: "tracer \<Rightarrow> tracer" where
  "tracer_copy t = \<lparr>tcInserts = tcInserts t, tcDeletes = tcDeletes t, tcAccess = tcAccess t\<rparr>"

section \<open>Resolving stored nodes\<close>

definition resolveAndTrack :: "trieReader \<Rightarrow> tracer \<Rightarrow> bytes \<Rightarrow> bytes \<Rightarrow> ((MissingNodeError + node) \<times> tracer) go" where
  "resolveAndTrack rd tr n prefix = (case nodeBlob rd prefix (SetBytes n) of
     Inl err \<Rightarrow> Ret (Inl err, tr)
   | Inr blob \<Rightarrow> go_bind (mustDecodeNode (Some n) blob) (\<lambda>nd. Ret (Inr nd, onRead prefix blob tr)))"

definition resolve :: "trieReader \<Rightarrow> tracer \<Rightarrow> node \<Rightarrow> bytes \<Rightarrow> ((MissingNodeError + node) \<times> tracer) go" where
  "resolve rd tr n prefix = (case n of
     HashNode h \<Rightarrow> resolveAndTrack rd tr h prefix
   | _ \<Rightarrow> Ret (Inr n, tr))"

text \<open>Indexing the array of children.\<close>

definition child :: "node list \<Rightarrow> u8 \<Rightarrow> node go" where
  "child cs i = (if unat i < length cs then Ret (cs ! unat i) else Panic ''index out of range'')"

section \<open>Get\<close>

type_synonym getRes = "((bytes \<times> node \<times> bool \<times> MissingNodeError option) \<times> tracer) go"

fun trie_get :: "nat \<Rightarrow> trieReader \<Rightarrow> tracer \<Rightarrow> node \<Rightarrow> bytes \<Rightarrow> nat \<Rightarrow> getRes" where
  "trie_get 0 rd tr origNode key pos = NoFuel"
| "trie_get (Suc fuel) rd tr origNode key pos = (case origNode of
     NilNode \<Rightarrow> Ret (([], NilNode, False, None), tr)
   | ValueNode v \<Rightarrow> Ret ((v, ValueNode v, False, None), tr)
   | ShortNode nkey nval fl \<Rightarrow>
       if length key - pos < length nkey \<or> nkey \<noteq> take (length nkey) (drop pos key) then
         Ret (([], ShortNode nkey nval fl, False, None), tr)
       else go_bind (trie_get fuel rd tr nval key (pos + length nkey)) (\<lambda>((v, newnode, didResolve, err), tr).
         Ret ((v, ShortNode nkey (if err = None \<and> didResolve then newnode else nval) fl, didResolve, err), tr))
   | FullNode cs fl \<Rightarrow>
       if length key \<le> pos then Panic ''index out of range''
       else go_bind (child cs (key ! pos)) (\<lambda>c.
         go_bind (trie_get fuel rd tr c key (pos + 1)) (\<lambda>((v, newnode, didResolve, err), tr).
         Ret ((v, FullNode (if err = None \<and> didResolve then cs[unat (key ! pos) := newnode] else cs) fl, didResolve, err), tr)))
   | HashNode h \<Rightarrow>
       go_bind (resolveAndTrack rd tr h (take pos key)) (\<lambda>(r, tr). case r of
         Inl err \<Rightarrow> Ret (([], HashNode h, True, Some err), tr)
       | Inr c \<Rightarrow> go_bind (trie_get fuel rd tr c key pos) (\<lambda>((v, newnode, _, err), tr).
           Ret ((v, newnode, True, err), tr))))"

section \<open>Insert\<close>

type_synonym editRes = "((bool \<times> node \<times> MissingNodeError option) \<times> tracer) go"
type_synonym inserter = "tracer \<Rightarrow> node \<Rightarrow> bytes \<Rightarrow> bytes \<Rightarrow> node \<Rightarrow> editRes"
type_synonym deleter = "tracer \<Rightarrow> node \<Rightarrow> bytes \<Rightarrow> bytes \<Rightarrow> editRes"

text \<open>The end of the key: the value replaces the node. \<open>value.(valueNode)\<close> panics on another kind of node.\<close>

definition insert_here :: "tracer \<Rightarrow> node \<Rightarrow> node \<Rightarrow> editRes" where
  "insert_here tr n newval = (case n of
     ValueNode v \<Rightarrow> (case newval of
         ValueNode v' \<Rightarrow> Ret ((v \<noteq> v', newval, None), tr)
       | _ \<Rightarrow> Panic ''interface conversion'')
   | _ \<Rightarrow> Ret ((True, newval, None), tr))"

text \<open>A short node whose key the new key leaves at \<open>matchlen\<close> branches out there.\<close>

definition insert_branch :: "inserter \<Rightarrow> tracer \<Rightarrow> nat \<Rightarrow> bytes \<Rightarrow> node \<Rightarrow> bytes \<Rightarrow> bytes \<Rightarrow> node \<Rightarrow> editRes" where
  "insert_branch rec tr matchlen nkey nval prefix key newval =
    (if length key \<le> matchlen \<or> 17 \<le> unat (nkey ! matchlen) \<or> 17 \<le> unat (key ! matchlen) then
       Panic ''index out of range''
     else go_bind (rec tr NilNode (prefix @ take (matchlen + 1) nkey) (drop (matchlen + 1) nkey) nval)
       (\<lambda>((_, c1, err), tr).
         if err \<noteq> None then Ret ((False, NilNode, err), tr)
         else go_bind (rec tr NilNode (prefix @ take (matchlen + 1) key) (drop (matchlen + 1) key) newval)
           (\<lambda>((_, c2, err), tr).
             if err \<noteq> None then Ret ((False, NilNode, err), tr)
             else let branch = FullNode ((replicate 17 NilNode)[unat (nkey ! matchlen) := c1, unat (key ! matchlen) := c2]) newFlag
                  in if matchlen = 0 then Ret ((True, branch, None), tr)
                     else Ret ((True, ShortNode (take matchlen key) branch newFlag, None),
                               onInsert (prefix @ take matchlen key) tr))))"

definition insert_short :: "inserter \<Rightarrow> tracer \<Rightarrow> bytes \<Rightarrow> node \<Rightarrow> nodeFlag \<Rightarrow> bytes \<Rightarrow> bytes \<Rightarrow> node \<Rightarrow> editRes" where
  "insert_short rec tr nkey nval fl prefix key newval =
    (let matchlen = prefixLen key nkey
     in if matchlen = length nkey then
          go_bind (rec tr nval (prefix @ take matchlen key) (drop matchlen key) newval) (\<lambda>((dirty, nn, err), tr).
            if \<not> dirty \<or> err \<noteq> None then Ret ((False, ShortNode nkey nval fl, err), tr)
            else Ret ((True, ShortNode nkey nn newFlag, None), tr))
        else insert_branch rec tr matchlen nkey nval prefix key newval)"

definition insert_full :: "inserter \<Rightarrow> tracer \<Rightarrow> node list \<Rightarrow> nodeFlag \<Rightarrow> bytes \<Rightarrow> bytes \<Rightarrow> node \<Rightarrow> editRes" where
  "insert_full rec tr cs fl prefix key newval =
    go_bind (child cs (key ! 0)) (\<lambda>c.
    go_bind (rec tr c (prefix @ [key ! 0]) (drop 1 key) newval) (\<lambda>((dirty, nn, err), tr).
      if \<not> dirty \<or> err \<noteq> None then Ret ((False, FullNode cs fl, err), tr)
      else Ret ((True, FullNode (cs[unat (key ! 0) := nn]) newFlag, None), tr)))"

definition insert_hash :: "inserter \<Rightarrow> trieReader \<Rightarrow> tracer \<Rightarrow> bytes \<Rightarrow> bytes \<Rightarrow> bytes \<Rightarrow> node \<Rightarrow> editRes" where
  "insert_hash rec rd tr h prefix key newval =
    go_bind (resolveAndTrack rd tr h prefix) (\<lambda>(r, tr). case r of
      Inl err \<Rightarrow> Ret ((False, NilNode, Some err), tr)
    | Inr rn \<Rightarrow> go_bind (rec tr rn prefix key newval) (\<lambda>((dirty, nn, err), tr).
        if \<not> dirty \<or> err \<noteq> None then Ret ((False, rn, err), tr) else Ret ((True, nn, None), tr)))"

fun trie_insert :: "nat \<Rightarrow> trieReader \<Rightarrow> inserter" where
  "trie_insert 0 rd tr n prefix key newval = NoFuel"
| "trie_insert (Suc fuel) rd tr n prefix key newval =
    (if length key = 0 then insert_here tr n newval
     else case n of
       ShortNode nkey nval fl \<Rightarrow> insert_short (trie_insert fuel rd) tr nkey nval fl prefix key newval
     | FullNode cs fl \<Rightarrow> insert_full (trie_insert fuel rd) tr cs fl prefix key newval
     | NilNode \<Rightarrow> Ret ((True, ShortNode key newval newFlag, None), onInsert prefix tr)
     | HashNode h \<Rightarrow> insert_hash (trie_insert fuel rd) rd tr h prefix key newval
     | ValueNode v \<Rightarrow> Panic ''invalid node'')"

section \<open>Delete\<close>

definition delete_short :: "deleter \<Rightarrow> tracer \<Rightarrow> bytes \<Rightarrow> node \<Rightarrow> nodeFlag \<Rightarrow> bytes \<Rightarrow> bytes \<Rightarrow> editRes" where
  "delete_short rec tr nkey nval fl prefix key =
    (let matchlen = prefixLen key nkey
     in if matchlen < length nkey then Ret ((False, ShortNode nkey nval fl, None), tr)
        else if matchlen = length key then Ret ((True, NilNode, None), onDelete prefix tr)
        else go_bind (rec tr nval (prefix @ take (length nkey) key) (drop (length nkey) key)) (\<lambda>((dirty, c, err), tr).
          if \<not> dirty \<or> err \<noteq> None then Ret ((False, ShortNode nkey nval fl, err), tr)
          else (case c of
              ShortNode ckey cval _ \<Rightarrow> Ret ((True, ShortNode (nkey @ ckey) cval newFlag, None), onDelete (prefix @ nkey) tr)
            | _ \<Rightarrow> Ret ((True, ShortNode nkey c newFlag, None), tr))))"

text \<open>
  The scan of a branch for a single remaining child: its index, \<open>-1\<close> if there is none, \<open>-2\<close> if there
  are several.
\<close>

fun scan_children :: "nat \<Rightarrow> int \<Rightarrow> node list \<Rightarrow> int" where
  "scan_children i pos [] = pos"
| "scan_children i pos (c # cs) =
    (if c \<noteq> NilNode then (if pos = -1 then scan_children (i + 1) (int i) cs else -2)
     else scan_children (i + 1) pos cs)"

definition delete_reduce :: "trieReader \<Rightarrow> tracer \<Rightarrow> node list \<Rightarrow> bytes \<Rightarrow> editRes" where
  "delete_reduce rd tr cs prefix =
    (let pos = scan_children 0 (-1) cs; p = nat pos; pb = word_of_nat p
     in if pos \<ge> 0 then
          (if pos \<noteq> 16 then
             go_bind (resolve rd tr (cs ! p) (prefix @ [pb])) (\<lambda>(r, tr). case r of
               Inl err \<Rightarrow> Ret ((False, NilNode, Some err), tr)
             | Inr cnode \<Rightarrow> (case cnode of
                 ShortNode ckey cval _ \<Rightarrow>
                   Ret ((True, ShortNode (pb # ckey) cval newFlag, None), onDelete (prefix @ [pb]) tr)
               | _ \<Rightarrow> Ret ((True, ShortNode [pb] (cs ! p) newFlag, None), tr)))
           else Ret ((True, ShortNode [pb] (cs ! p) newFlag, None), tr))
        else Ret ((True, FullNode cs newFlag, None), tr))"

definition delete_full :: "deleter \<Rightarrow> trieReader \<Rightarrow> tracer \<Rightarrow> node list \<Rightarrow> nodeFlag \<Rightarrow> bytes \<Rightarrow> bytes \<Rightarrow> editRes" where
  "delete_full rec rd tr cs fl prefix key =
    (if length key = 0 then Panic ''index out of range''
     else go_bind (child cs (key ! 0)) (\<lambda>c.
       go_bind (rec tr c (prefix @ [key ! 0]) (drop 1 key)) (\<lambda>((dirty, nn, err), tr).
         if \<not> dirty \<or> err \<noteq> None then Ret ((False, FullNode cs fl, err), tr)
         else let cs' = cs[unat (key ! 0) := nn]
              in if nn \<noteq> NilNode then Ret ((True, FullNode cs' newFlag, None), tr)
                 else delete_reduce rd tr cs' prefix)))"

definition delete_hash :: "deleter \<Rightarrow> trieReader \<Rightarrow> tracer \<Rightarrow> bytes \<Rightarrow> bytes \<Rightarrow> bytes \<Rightarrow> editRes" where
  "delete_hash rec rd tr h prefix key =
    go_bind (resolveAndTrack rd tr h prefix) (\<lambda>(r, tr). case r of
      Inl err \<Rightarrow> Ret ((False, NilNode, Some err), tr)
    | Inr rn \<Rightarrow> go_bind (rec tr rn prefix key) (\<lambda>((dirty, nn, err), tr).
        if \<not> dirty \<or> err \<noteq> None then Ret ((False, rn, err), tr) else Ret ((True, nn, None), tr)))"

fun trie_delete :: "nat \<Rightarrow> trieReader \<Rightarrow> deleter" where
  "trie_delete 0 rd tr n prefix key = NoFuel"
| "trie_delete (Suc fuel) rd tr n prefix key = (case n of
     ShortNode nkey nval fl \<Rightarrow> delete_short (trie_delete fuel rd) tr nkey nval fl prefix key
   | FullNode cs fl \<Rightarrow> delete_full (trie_delete fuel rd) rd tr cs fl prefix key
   | ValueNode v \<Rightarrow> Ret ((True, NilNode, None), tr)
   | NilNode \<Rightarrow> Ret ((False, NilNode, None), tr)
   | HashNode h \<Rightarrow> delete_hash (trie_delete fuel rd) rd tr h prefix key)"

section \<open>Tries\<close>

record Trie =
  tRoot :: node
  tOwner :: hash
  tUnhashed :: nat
  tReader :: trieReader
  tTracer :: tracer

definition Trie_Copy :: "Trie \<Rightarrow> Trie" where
  "Trie_Copy t = t\<lparr>tTracer := tracer_copy (tTracer t)\<rparr>"

definition Trie_Get :: "nat \<Rightarrow> Trie \<Rightarrow> bytes \<Rightarrow> ((MissingNodeError option \<times> bytes) \<times> Trie) go" where
  "Trie_Get fuel t key =
    go_bind (trie_get fuel (tReader t) (tTracer t) (tRoot t) (keybytesToHex key) 0) (\<lambda>((v, newroot, didResolve, err), tr).
      Ret ((err, v), t\<lparr>tRoot := if err = None \<and> didResolve then newroot else tRoot t, tTracer := tr\<rparr>))"

definition Trie_Delete :: "nat \<Rightarrow> Trie \<Rightarrow> bytes \<Rightarrow> (MissingNodeError option \<times> Trie) go" where
  "Trie_Delete fuel t0 key =
    (let t = t0\<lparr>tUnhashed := tUnhashed t0 + 1\<rparr>
     in go_bind (trie_delete fuel (tReader t) (tTracer t) (tRoot t) [] (keybytesToHex key)) (\<lambda>((_, n, err), tr).
          if err \<noteq> None then Ret (err, t\<lparr>tTracer := tr\<rparr>)
          else Ret (None, t\<lparr>tRoot := n, tTracer := tr\<rparr>)))"

definition Trie_Update :: "nat \<Rightarrow> Trie \<Rightarrow> bytes \<Rightarrow> bytes \<Rightarrow> (MissingNodeError option \<times> Trie) go" where
  "Trie_Update fuel t0 key newval =
    (let t = t0\<lparr>tUnhashed := tUnhashed t0 + 1\<rparr>; k = keybytesToHex key;
         edit = (if length newval \<noteq> 0
                 then trie_insert fuel (tReader t) (tTracer t) (tRoot t) [] k (ValueNode newval)
                 else trie_delete fuel (tReader t) (tTracer t) (tRoot t) [] k)
     in go_bind edit (\<lambda>((_, n, err), tr).
          if err \<noteq> None then Ret (err, t\<lparr>tTracer := tr\<rparr>)
          else Ret (None, t\<lparr>tRoot := n, tTracer := tr\<rparr>)))"

definition Trie_Reset :: "Trie \<Rightarrow> Trie" where
  "Trie_Reset t = t\<lparr>tRoot := NilNode, tOwner := 0, tUnhashed := 0, tTracer := tracer_reset (tTracer t)\<rparr>"

end
