(* ===== verification/Trie_Props.thy ===== *)
theory Trie_Props
  imports Trie_Ops
begin

text \<open>
  Correctness of the trie operations. \<open>denotes F rd p n m\<close> says that the node \<open>n\<close>, found at path \<open>p\<close> and with
  the nodes it refers to by hash read through \<open>rd\<close>, is a well-formed subtrie that holds the finite map
  \<open>m\<close> from the remaining hexadecimal keys to values: keys of short nodes are not empty, an extension leads to
  a branch, a branch has at least two children, values sit behind the terminator and are not empty.
  Lookups read the map, insertions and deletions update it at one key, and all of them return a
  well-formed node, with no error and no panic, whatever part of the trie is loaded.
\<close>

section \<open>Maps of subtries\<close>

definition tkey :: "bytes \<Rightarrow> bool" where
  "tkey k \<longleftrightarrow> (\<exists>ns. nibbles ns \<and> k = ns @ [16])"

definition shift :: "bytes \<Rightarrow> (bytes \<rightharpoonup> bytes) \<Rightarrow> (bytes \<rightharpoonup> bytes)" where
  "shift k m = (\<lambda>x. if take (length k) x = k then m (drop (length k) x) else None)"

definition branch :: "(nat \<Rightarrow> bytes \<rightharpoonup> bytes) \<Rightarrow> (bytes \<rightharpoonup> bytes)" where
  "branch ms = (\<lambda>x. case x of [] \<Rightarrow> None | i # xs \<Rightarrow> if unat i < 17 then ms (unat i) xs else None)"

definition leafval :: "node \<Rightarrow> (bytes \<rightharpoonup> bytes) \<Rightarrow> bool" where
  "leafval n m \<longleftrightarrow> (n = NilNode \<and> m = Map.empty) \<or> (\<exists>v. v \<noteq> [] \<and> n = ValueNode v \<and> m = [[] \<mapsto> v])"

definition stored :: "trieReader \<Rightarrow> bytes \<Rightarrow> bytes \<Rightarrow> node \<Rightarrow> bool" where
  "stored rd p h n \<longleftrightarrow> (\<exists>blob. nodeBlob rd p (SetBytes h) = Inr blob \<and> decodeNode (Some h) blob = Ret (Inr n))"

definition isfull :: "trieReader \<Rightarrow> bytes \<Rightarrow> node \<Rightarrow> bool" where
  "isfull rd p n \<longleftrightarrow> (\<exists>cs fl. n = FullNode cs fl) \<or> (\<exists>h cs fl. n = HashNode h \<and> stored rd p h (FullNode cs fl))"

definition two_children :: "node list \<Rightarrow> bool" where
  "two_children cs \<longleftrightarrow> (\<exists>i j. i < j \<and> j < length cs \<and> cs ! i \<noteq> NilNode \<and> cs ! j \<noteq> NilNode)"

text \<open>
  What is known of the cache flag of a node may depend on its path and on the map it holds; the
  operations only ever keep a flag or set a new one.
\<close>

type_synonym flagPred = "bytes \<Rightarrow> nodeFlag \<Rightarrow> (bytes \<rightharpoonup> bytes) \<Rightarrow> bool"

definition new_ok :: "flagPred \<Rightarrow> bool" where
  "new_ok F \<longleftrightarrow> (\<forall>p m. F p newFlag m)"

inductive denotes :: "flagPred \<Rightarrow> trieReader \<Rightarrow> bytes \<Rightarrow> node \<Rightarrow> (bytes \<rightharpoonup> bytes) \<Rightarrow> bool" for F rd where
  d_nil: "denotes F rd p NilNode Map.empty"
| d_leaf: "tkey k \<Longrightarrow> v \<noteq> [] \<Longrightarrow> F p fl [k \<mapsto> v] \<Longrightarrow> denotes F rd p (ShortNode k (ValueNode v) fl) [k \<mapsto> v]"
| d_ext: "nibbles k \<Longrightarrow> k \<noteq> [] \<Longrightarrow> isfull rd (p @ k) n \<Longrightarrow> denotes F rd (p @ k) n m \<Longrightarrow>
    F p fl (shift k m) \<Longrightarrow> denotes F rd p (ShortNode k n fl) (shift k m)"
| d_full: "length cs = 17 \<Longrightarrow> two_children cs \<Longrightarrow> leafval (cs ! 16) (ms 16) \<Longrightarrow>
    (\<And>i. i < 16 \<Longrightarrow> denotes F rd (p @ [word_of_nat i]) (cs ! i) (ms i)) \<Longrightarrow>
    F p fl (branch ms) \<Longrightarrow> denotes F rd p (FullNode cs fl) (branch ms)"
| d_hash: "stored rd p h n \<Longrightarrow> (\<exists>k v fl. n = ShortNode k v fl) \<or> (\<exists>cs fl. n = FullNode cs fl) \<Longrightarrow>
    denotes F rd p n m \<Longrightarrow> denotes F rd p (HashNode h) m"

inductive_cases denotes_NilE: "denotes F rd p NilNode m"
inductive_cases denotes_ShortE: "denotes F rd p (ShortNode k n fl) m"
inductive_cases denotes_FullE: "denotes F rd p (FullNode cs fl) m"
inductive_cases denotes_HashE: "denotes F rd p (HashNode h) m"
inductive_cases denotes_ValueE: "denotes F rd p (ValueNode v) m"

section \<open>Keys\<close>

lemma tkey_Cons: "tkey (i # ks) \<longleftrightarrow> (i = 16 \<and> ks = []) \<or> (i < 16 \<and> tkey ks)"
proof
  assume "tkey (i # ks)"
  then obtain ns where ns: "nibbles ns" "i # ks = ns @ [16]" by (auto simp: tkey_def)
  then show "(i = 16 \<and> ks = []) \<or> (i < 16 \<and> tkey ks)" by (cases ns) (auto simp: tkey_def)
next
  assume "(i = 16 \<and> ks = []) \<or> (i < 16 \<and> tkey ks)"
  then show "tkey (i # ks)"
  proof
    assume "i < 16 \<and> tkey ks"
    then obtain ns where "nibbles (i # ns)" "i # ks = (i # ns) @ [16]" by (auto simp: tkey_def)
    then show ?thesis unfolding tkey_def by blast
  qed (auto simp: tkey_def)
qed

lemma tkey_nonempty [simp]: "\<not> tkey []"
  by (simp add: tkey_def)

lemma tkey_append: "nibbles ns \<Longrightarrow> tkey (ns @ ks) \<longleftrightarrow> tkey ks"
  by (induction ns) (auto simp: tkey_Cons)

lemma tkey_keybytesToHex: "tkey (keybytesToHex k)"
  by (auto simp: tkey_def keybytesToHex_nibs)

lemma tkey_index: "tkey (i # ks) \<Longrightarrow> unat i < 17"
  by (auto simp: tkey_Cons word_less_nat_alt)

lemma tkey_prefix_unique: "tkey a \<Longrightarrow> tkey (a @ b) \<Longrightarrow> b = []"
  by (induction a) (auto simp: tkey_Cons)

lemma tkey_front: "tkey (ks @ a # rest) \<Longrightarrow> nibbles ks"
  by (induction ks) (auto simp: tkey_Cons)

lemma tkey_not_nibbles: "tkey (a @ b) \<Longrightarrow> tkey a \<Longrightarrow> \<not> nibbles a"
  by (auto simp: tkey_def)

text \<open>A terminated key that leaves a node's key does so before its own end.\<close>

lemma prefixLen_less:
  "tkey key \<Longrightarrow> nibbles nkey \<or> tkey nkey \<Longrightarrow> prefixLen key nkey < length nkey \<Longrightarrow> prefixLen key nkey < length key"
proof (induction key nkey rule: prefixLen.induct)
  case (1 x xs y ys)
  show ?case
  proof (cases "x = y")
    case True
    have "tkey xs"
    proof (rule ccontr)
      assume "\<not> tkey xs"
      then have x: "x = 16" "xs = []" using 1 by (auto simp: tkey_Cons)
      then have "ys = []" using 1 True by (auto simp: tkey_Cons)
      then show False using 1 x True by simp
    qed
    moreover have "nibbles ys \<or> tkey ys" using 1 True \<open>tkey xs\<close> by (auto simp: tkey_Cons)
    ultimately show ?thesis using 1 True by simp
  qed simp
qed simp_all

section \<open>Maps\<close>

lemma shift_app [simp]: "shift k m (k @ x) = m x"
  by (simp add: shift_def)

lemma shift_upd: "(shift k m)(k @ x := r) = shift k (m(x := r))"
  by (rule ext) (auto simp: shift_def, metis append_take_drop_id)

lemma shift_shift: "shift a (shift b m) = shift (a @ b) m"
proof -
  have "take (length (a @ b)) x = a @ b \<longleftrightarrow> take (length a) x = a \<and> take (length b) (drop (length a) x) = b" for x
  proof
    assume "take (length (a @ b)) x = a @ b"
    then have "take (length a) (take (length (a @ b)) x) = a" "drop (length a) (take (length (a @ b)) x) = b" by simp_all
    then show "take (length a) x = a \<and> take (length b) (drop (length a) x) = b" by (simp add: take_drop add.commute)
  qed (simp add: take_add)
  then show ?thesis by (intro ext) (auto simp: shift_def add.commute)
qed

lemma shift_empty [simp]: "shift k Map.empty = Map.empty"
  by (rule ext) (simp add: shift_def)

lemma shift_single [simp]: "shift k [x \<mapsto> v] = [k @ x \<mapsto> v]"
  using shift_upd [of k Map.empty x "Some v"] by simp

lemma shift_eq_empty [simp]: "shift k m = Map.empty \<longleftrightarrow> m = Map.empty"
proof
  assume "shift k m = Map.empty"
  then have "m x = None" for x using shift_app [of k m x] by simp
  then show "m = Map.empty" by auto
qed simp

lemma dom_shift: "dom (shift k m) = (\<lambda>x. k @ x) ` dom m"
proof
  show "dom (shift k m) \<subseteq> (\<lambda>x. k @ x) ` dom m"
  proof
    fix x assume "x \<in> dom (shift k m)"
    then have x: "take (length k) x = k" "drop (length k) x \<in> dom m" by (auto simp: shift_def dom_def split: if_splits)
    then have "x = k @ drop (length k) x" by (metis append_take_drop_id)
    with x show "x \<in> (\<lambda>x. k @ x) ` dom m" by blast
  qed
  show "(\<lambda>x. k @ x) ` dom m \<subseteq> dom (shift k m)" by auto
qed

lemma branch_Cons [simp]: "branch ms (i # xs) = (if unat i < 17 then ms (unat i) xs else None)"
  by (simp add: branch_def)

lemma branch_Nil [simp]: "branch ms [] = None"
  by (simp add: branch_def)

lemma branch_upd: "unat i < 17 \<Longrightarrow> (branch ms)(i # xs := r) = branch (ms(unat i := (ms (unat i))(xs := r)))"
  by (rule ext) (auto simp: branch_def word_unat_eq_iff split: list.splits)

lemma denotes_dom: "denotes F rd p n m \<Longrightarrow> dom m \<subseteq> Collect tkey"
proof (induction rule: denotes.induct)
  case (d_ext k p n m fl)
  then show ?case by (auto simp: dom_shift tkey_append)
next
  case (d_full cs ms p fl)
  show ?case
  proof
    fix x assume "x \<in> dom (branch ms)"
    then obtain i xs where x: "x = i # xs" "unat i < 17" "xs \<in> dom (ms (unat i))"
      by (cases x) (auto simp: domI split: if_splits)
    show "x \<in> Collect tkey"
    proof (cases "unat i < 16")
      case True
      then show ?thesis using d_full.IH [of "unat i"] x by (auto simp: tkey_Cons word_less_nat_alt)
    next
      case False
      then have "unat i = 16" using x by simp
      then have "i = 16" "xs = []" using d_full(3) x by (auto simp: leafval_def word_unat_eq_iff split: if_splits)
      then show ?thesis using x by (simp add: tkey_Cons)
    qed
  qed
qed (auto split: if_splits)

lemma leafval_empty: "leafval n m \<Longrightarrow> m = Map.empty \<longleftrightarrow> n = NilNode"
  by (auto simp: leafval_def)

lemma denotes_empty: "denotes F rd p n m \<Longrightarrow> m = Map.empty \<longleftrightarrow> n = NilNode"
proof (induction rule: denotes.induct)
  case (d_ext k p n m fl)
  then show ?case by (auto simp: isfull_def)
next
  case (d_full cs ms p fl)
  obtain i where i: "i < 17" "cs ! i \<noteq> NilNode" using d_full(1,2) by (auto simp: two_children_def)
  have "ms i \<noteq> Map.empty"
  proof (cases "i < 16")
    case False
    then have "i = 16" using i by simp
    then show ?thesis using d_full(3) i leafval_empty by blast
  qed (use d_full.IH i in blast)
  then obtain x v where "ms i x = Some v" by (metis option.exhaust)
  then have "branch ms (word_of_nat i # x) = Some v" using i by (simp add: unat_of_nat)
  then have "branch ms \<noteq> Map.empty" by (metis option.distinct(1))
  then show ?case by simp
next
  case (d_leaf k v p fl)
  then show ?case using map_upd_nonempty [of Map.empty k v] by blast
qed auto


section \<open>Lookup\<close>

text \<open>A step into a branch: the slot of a child, by the first nibble of the key.\<close>

definition slot :: "flagPred \<Rightarrow> trieReader \<Rightarrow> bytes \<Rightarrow> nat \<Rightarrow> node \<Rightarrow> (bytes \<rightharpoonup> bytes) \<Rightarrow> bool" where
  "slot F rd p i n m \<longleftrightarrow> (if i < 16 then denotes F rd (p @ [word_of_nat i]) n m else leafval n m)"

lemma all_slots:
  assumes "leafval (cs ! 16) (ms 16)" "\<And>i. i < 16 \<Longrightarrow> denotes F rd (p @ [word_of_nat i]) (cs ! i) (ms i)"
  shows "\<forall>i < 17. slot F rd p i (cs ! i) (ms i)"
proof (intro allI impI)
  fix i :: nat assume "i < 17"
  then show "slot F rd p i (cs ! i) (ms i)" using assms by (cases "i = 16") (simp_all add: slot_def)
qed

lemma full_slots:
  "denotes F rd p (FullNode cs fl) m \<longleftrightarrow>
   F p fl m \<and> (\<exists>ms. m = branch ms \<and> length cs = 17 \<and> two_children cs \<and> (\<forall>i < 17. slot F rd p i (cs ! i) (ms i)))"
proof
  assume "denotes F rd p (FullNode cs fl) m"
  then show "F p fl m \<and> (\<exists>ms. m = branch ms \<and> length cs = 17 \<and> two_children cs \<and> (\<forall>i < 17. slot F rd p i (cs ! i) (ms i)))"
  proof (rule denotes_FullE, goal_cases)
    case (1 ms)
    then show ?case using all_slots [of cs ms F rd p] by blast
  qed
next
  assume "F p fl m \<and> (\<exists>ms. m = branch ms \<and> length cs = 17 \<and> two_children cs \<and> (\<forall>i < 17. slot F rd p i (cs ! i) (ms i)))"
  then obtain ms where ms: "m = branch ms" "length cs = 17" "two_children cs" "\<forall>i < 17. slot F rd p i (cs ! i) (ms i)"
    and fl: "F p fl (branch ms)" by blast
  have "leafval (cs ! 16) (ms 16)" using ms(4) [rule_format, of 16] by (simp add: slot_def)
  moreover have "denotes F rd (p @ [word_of_nat i]) (cs ! i) (ms i)" if "i < 16" for i
    using ms(4) [rule_format, of i] that by (simp add: slot_def)
  ultimately show "denotes F rd p (FullNode cs fl) m" unfolding ms(1) using ms(2,3) fl by (intro d_full)
qed

lemma slot_empty: "slot F rd p i n m \<Longrightarrow> m = Map.empty \<longleftrightarrow> n = NilNode"
  by (auto simp: slot_def leafval_empty denotes_empty split: if_splits)

lemma two_children_update:
  "two_children cs \<Longrightarrow> (cs ! i \<noteq> NilNode \<Longrightarrow> n \<noteq> NilNode) \<Longrightarrow> i < length cs \<Longrightarrow> two_children (cs[i := n])"
  unfolding two_children_def by (metis length_list_update nth_list_update_eq nth_list_update_neq)

lemma two_children_left: "two_children cs \<Longrightarrow> \<exists>j < length cs. cs[i := n] ! j \<noteq> NilNode"
proof -
  assume "two_children cs"
  then obtain a b where "a < b" "b < length cs" "cs ! a \<noteq> NilNode" "cs ! b \<noteq> NilNode" by (auto simp: two_children_def)
  then show ?thesis by (intro exI [of _ "if a = i then b else a"]) auto
qed

text \<open>Replacing a child of a branch by one that still holds something, or adding one.\<close>

lemma full_update:
  assumes "length cs = 17" "two_children cs" "\<forall>j < 17. slot F rd p j (cs ! j) (ms j)"
    and "i < 17" "slot F rd p i n m" "cs ! i \<noteq> NilNode \<Longrightarrow> n \<noteq> NilNode" "F p fl (branch (ms(i := m)))"
  shows "denotes F rd p (FullNode (cs[i := n]) fl) (branch (ms(i := m)))"
  unfolding full_slots using assms two_children_update [of cs i n]
  by (intro conjI exI [of _ "ms(i := m)"]) (auto simp: nth_list_update)

lemma stored_resolve:
  "stored rd p h n \<Longrightarrow> \<exists>tr'. resolveAndTrack rd tr h p = Ret (Inr n, tr')"
  by (auto simp: stored_def resolveAndTrack_def mustDecodeNode_def)

text \<open>Reading a stored node takes one extra step that does not consume the key.\<close>

definition need :: "node \<Rightarrow> bytes \<Rightarrow> nat" where
  "need n key = 2 * length key + (if \<exists>h. n = HashNode h then 2 else 1)"

lemma need_pos: "tkey key \<Longrightarrow> need n key \<le> fuel \<Longrightarrow> \<exists>f. fuel = Suc (Suc f)"
  by (cases key; cases fuel; cases "fuel - 1") (auto simp: need_def split: if_splits)

lemma need_le: "need n key \<le> 2 * length key + 2"
  by (simp add: need_def)

definition found :: "bytes option \<Rightarrow> bytes" where
  "found r = (case r of None \<Rightarrow> [] | Some v \<Rightarrow> v)"

definition get_post :: "flagPred \<Rightarrow> trieReader \<Rightarrow> bytes \<Rightarrow> node \<Rightarrow> (bytes \<rightharpoonup> bytes) \<Rightarrow> bytes \<Rightarrow> getRes \<Rightarrow> bool" where
  "get_post F rd p n m key r \<longleftrightarrow> (\<exists>n' d tr'. r = Ret ((found (m key), n', d, None), tr') \<and>
     denotes F rd p n' m \<and> (isfull rd p n \<longrightarrow> isfull rd p n') \<and> (\<not> d \<longrightarrow> n' = n))"

lemma get_postI:
  "r = Ret ((w, n', d, None), tr') \<Longrightarrow> w = found (m key) \<Longrightarrow> denotes F rd p n' m \<Longrightarrow> (isfull rd p n \<Longrightarrow> isfull rd p n') \<Longrightarrow>
   (\<not> d \<Longrightarrow> n' = n) \<Longrightarrow> get_post F rd p n m key r"
  by (auto simp: get_post_def)

lemma stored_isfull: "stored rd p h n \<Longrightarrow> isfull rd p (HashNode h) \<Longrightarrow> isfull rd p n"
  by (auto simp: stored_def isfull_def)

lemma get_ok:
  "denotes F rd p n m \<Longrightarrow> p = take pos key \<Longrightarrow> pos \<le> length key \<Longrightarrow> tkey (drop pos key) \<Longrightarrow>
   need n (drop pos key) \<le> fuel \<Longrightarrow> get_post F rd p n m (drop pos key) (trie_get fuel rd tr n key pos)"
proof (induction arbitrary: pos fuel tr rule: denotes.induct)
  case (d_nil p)
  then obtain f where "fuel = Suc f" by (cases fuel) (auto simp: need_def)
  then show ?case by (auto simp: get_post_def found_def intro: denotes.d_nil)
next
  case (d_leaf k v p fl)
  obtain f where f: "fuel = Suc f" "0 < f" using need_pos [OF d_leaf.prems(3,4)] by auto
  have d: "denotes F rd p (ShortNode k (ValueNode v) fl) [k \<mapsto> v]" using d_leaf by (intro denotes.d_leaf)
  show ?case
  proof (cases "length key - pos < length k \<or> k \<noteq> take (length k) (drop pos key)")
    case True
    then have "drop pos key \<noteq> k" by auto
    then show ?thesis using True f by (intro get_postI [OF _ _ d]) (auto simp: found_def)
  next
    case False
    then have "drop pos key = k @ drop (length k) (drop pos key)" by (metis append_take_drop_id)
    then have "drop (length k) (drop pos key) = []" using d_leaf.hyps d_leaf.prems(3) tkey_prefix_unique by metis
    then have "drop pos key = k" using False by simp
    moreover obtain g where "f = Suc g" using f by (cases f) auto
    ultimately show ?thesis using False f by (intro get_postI [OF _ _ d]) (auto simp: found_def)
  qed
next
  case (d_ext k p n m fl)
  obtain f where f: "fuel = Suc f" using d_ext.prems by (cases fuel) (auto simp: need_def)
  have d: "denotes F rd p (ShortNode k n fl) (shift k m)" using d_ext by (intro denotes.d_ext)
  show ?case
  proof (cases "length key - pos < length k \<or> k \<noteq> take (length k) (drop pos key)")
    case True
    then have "shift k m (drop pos key) = None" by (auto simp: shift_def)
    then show ?thesis using True f d by (auto simp: get_post_def found_def)
  next
    case False
    let ?pos = "pos + length k"
    have key: "drop pos key = k @ drop ?pos key" using False by (metis add.commute append_take_drop_id drop_drop)
    have len: "?pos \<le> length key" using False d_ext.prems by linarith
    have "p @ k = take ?pos key" using False d_ext.prems by (simp add: take_add)
    moreover have t: "tkey (drop ?pos key)" using d_ext.prems(3) d_ext.hyps(1) unfolding key by (simp add: tkey_append)
    moreover have "need n (drop ?pos key) \<le> f"
      using d_ext.prems d_ext.hyps(2) f len unfolding key by (cases k) (auto simp: need_def)
    ultimately have "get_post F rd (p @ k) n m (drop ?pos key) (trie_get f rd tr n key ?pos)"
      using d_ext.IH len by blast
    then obtain n' d' tr' where r: "trie_get f rd tr n key ?pos = Ret ((found (m (drop ?pos key)), n', d', None), tr')"
        "denotes F rd (p @ k) n' m" "isfull rd (p @ k) n'" "\<not> d' \<longrightarrow> n' = n"
      using d_ext.hyps(3) by (auto simp: get_post_def)
    have "denotes F rd p (ShortNode k n' fl) (shift k m)" using r d_ext.hyps by (intro denotes.d_ext)
    moreover have "shift k m (drop pos key) = m (drop ?pos key)" unfolding key by simp
    ultimately show ?thesis using r f False d by (auto simp: get_post_def isfull_def)
  qed
next
  case (d_full cs ms p fl)
  obtain f where f: "fuel = Suc f" "0 < f" using need_pos [OF d_full.prems(3,4)] by auto
  have lt: "pos < length key" using d_full.prems by (cases "pos < length key") auto
  let ?i = "key ! pos" and ?ks = "drop (pos + 1) key"
  have key: "drop pos key = ?i # ?ks" using lt by (simp add: Cons_nth_drop_Suc)
  have i: "unat ?i < 17" using tkey_index d_full.prems(3) unfolding key by blast
  have slots: "\<forall>j < 17. slot F rd p j (cs ! j) (ms j)"
    using d_full.hyps by (intro all_slots)
  have child: "child cs ?i = Ret (cs ! unat ?i)" using i d_full.hyps by (simp add: child_def)
  have "\<exists>n' d' tr'. trie_get f rd tr (cs ! unat ?i) key (pos + 1) = Ret ((found (ms (unat ?i) ?ks), n', d', None), tr')
      \<and> slot F rd p (unat ?i) n' (ms (unat ?i)) \<and> (\<not> d' \<longrightarrow> n' = cs ! unat ?i)"
  proof (cases "unat ?i < 16")
    case True
    have t: "tkey ?ks" using d_full.prems(3) True unfolding key by (auto simp: tkey_Cons word_less_nat_alt)
    have "need (cs ! unat ?i) ?ks \<le> f" using d_full.prems(4) f(1) unfolding key by (auto simp: need_def)
    moreover have "p @ [word_of_nat (unat ?i)] = take (pos + 1) key" using lt d_full.prems by (simp add: take_Suc_conv_app_nth)
    ultimately have "get_post F rd (p @ [word_of_nat (unat ?i)]) (cs ! unat ?i) (ms (unat ?i)) ?ks (trie_get f rd tr (cs ! unat ?i) key (pos + 1))"
      using d_full.IH [OF True, of "pos + 1" f tr] lt t by simp
    then show ?thesis using True by (auto simp: get_post_def slot_def)
  next
    case False
    then have "unat ?i = 16" "?ks = []" using i d_full.prems(3) unfolding key by (auto simp: tkey_Cons word_less_nat_alt word_unat_eq_iff)
    moreover obtain g where "f = Suc g" using f by (cases f) auto
    ultimately show ?thesis using d_full.hyps(3) by (auto simp: leafval_def slot_def found_def)
  qed
  then obtain n' d' tr' where r: "trie_get f rd tr (cs ! unat ?i) key (pos + 1) = Ret ((found (ms (unat ?i) ?ks), n', d', None), tr')"
      "slot F rd p (unat ?i) n' (ms (unat ?i))" "\<not> d' \<longrightarrow> n' = cs ! unat ?i" by blast
  have "cs ! unat ?i \<noteq> NilNode \<Longrightarrow> n' \<noteq> NilNode" using r(2) slots i slot_empty by metis
  then have "denotes F rd p (FullNode (cs[unat ?i := n']) fl) (branch ms)"
    using full_update [OF d_full.hyps(1,2) slots i r(2), of fl] d_full.hyps(5) by simp
  moreover have "denotes F rd p (FullNode cs fl) (branch ms)" unfolding full_slots using d_full.hyps slots by blast
  moreover have "branch ms (drop pos key) = ms (unat ?i) ?ks" unfolding key using i by simp
  ultimately show ?case using r f child lt by (auto simp: get_post_def isfull_def)
next
  case (d_hash p h n m)
  obtain f where f: "fuel = Suc f" using d_hash.prems by (cases fuel) (auto simp: need_def)
  obtain tr1 where tr1: "resolveAndTrack rd tr h (take pos key) = Ret (Inr n, tr1)"
    using stored_resolve d_hash.hyps(1) d_hash.prems(1) by blast
  have "need n (drop pos key) \<le> f" using d_hash.prems(4) d_hash.hyps(2) f by (auto simp: need_def)
  then have "get_post F rd p n m (drop pos key) (trie_get f rd tr1 n key pos)" using d_hash by blast
  then show ?case using tr1 f stored_isfull [OF d_hash.hyps(1)] by (auto simp: get_post_def)
qed


section \<open>Insertion\<close>

definition edit_post :: "flagPred \<Rightarrow> trieReader \<Rightarrow> bytes \<Rightarrow> node \<Rightarrow> (bytes \<rightharpoonup> bytes) \<Rightarrow> (bytes \<rightharpoonup> bytes) \<Rightarrow> editRes \<Rightarrow> bool" where
  "edit_post F rd p n m m' r \<longleftrightarrow> (\<exists>n' tr'. r = Ret ((m \<noteq> m', n', None), tr') \<and> denotes F rd p n' m' \<and>
     (isfull rd p n \<longrightarrow> isfull rd p n'))"

lemma edit_postI:
  "r = Ret ((d, n', None), tr') \<Longrightarrow> d \<longleftrightarrow> m \<noteq> m' \<Longrightarrow> denotes F rd p n' m' \<Longrightarrow> (isfull rd p n \<Longrightarrow> isfull rd p n') \<Longrightarrow>
   edit_post F rd p n m m' r"
  by (auto simp: edit_post_def)

lemma branch_single: "unat i < 17 \<Longrightarrow> branch ((\<lambda>_. Map.empty)(unat i := m)) = shift [i] m"
  by (rule ext) (auto simp: branch_def shift_def word_unat_eq_iff take_Cons' split: list.splits)

lemma upd_differs: "m(k \<mapsto> v) = m \<longleftrightarrow> m k = Some v"
  by (metis fun_upd_same fun_upd_triv)

lemma insert_nil:
  "0 < fuel \<Longrightarrow> \<exists>tr'. trie_insert fuel rd tr NilNode prefix rest nv
     = Ret ((True, if rest = [] then nv else ShortNode rest nv newFlag, None), tr')"
  by (cases fuel) (auto simp: insert_here_def)

text \<open>What is left of a node when its first nibble moves into a branch.\<close>

lemma leaf_slot:
  assumes "tkey (i # rest)" "v \<noteq> []" "new_ok F"
  shows "slot F rd p (unat i) (if rest = [] then ValueNode v else ShortNode rest (ValueNode v) newFlag) [rest \<mapsto> v]"
proof (cases "rest = []")
  case True
  then have "i = 16" using assms by (simp add: tkey_Cons)
  then show ?thesis using True assms by (simp add: slot_def leafval_def)
next
  case False
  then have "i < 16" "tkey rest" using assms by (auto simp: tkey_Cons)
  then have "denotes F rd (p @ [i]) (ShortNode rest (ValueNode v) newFlag) [rest \<mapsto> v]"
    using assms by (intro d_leaf) (auto simp: new_ok_def)
  then show ?thesis using False \<open>i < 16\<close> by (simp add: slot_def word_less_nat_alt)
qed

lemma ext_slot:
  assumes "nibbles (i # rest)" "isfull rd (p @ i # rest) n" "denotes F rd (p @ i # rest) n m" "new_ok F"
  shows "slot F rd p (unat i) (if rest = [] then n else ShortNode rest n newFlag) (shift rest m)"
proof (cases "rest = []")
  case True
  have "shift [] m = m" by (rule ext) (simp add: shift_def)
  then show ?thesis using True assms by (simp add: slot_def word_less_nat_alt)
next
  case False
  then have "denotes F rd (p @ [i]) (ShortNode rest n newFlag) (shift rest m)"
    using assms by (intro d_ext) (simp_all add: new_ok_def)
  then show ?thesis using False assms by (simp add: slot_def word_less_nat_alt)
qed

lemma shift_Nil [simp]: "shift [] m = m"
  by (rule ext) (simp add: shift_def)

text \<open>Branching out of a short node with key \<open>ks @ a # rest\<close>, at the key \<open>ks @ b # rest2\<close>.\<close>

lemma branch_denotes:
  assumes "a \<noteq> b" "tkey (b # rest2)" "v \<noteq> []" "unat a < 17" "slot F rd (p @ ks) (unat a) c1 (shift rest m)" "c1 \<noteq> NilNode"
    and c2: "c2 = (if rest2 = [] then ValueNode v else ShortNode rest2 (ValueNode v) newFlag)" and "nibbles ks" "new_ok F"
  defines "br \<equiv> FullNode ((replicate 17 NilNode)[unat a := c1, unat b := c2]) newFlag"
  shows "denotes F rd p (if ks = [] then br else ShortNode ks br newFlag) ((shift (ks @ a # rest) m)(ks @ b # rest2 \<mapsto> v))"
proof -
  let ?cs = "(replicate 17 NilNode)[unat a := c1, unat b := c2]"
  have b: "unat b < 17" using assms(2) by (rule tkey_index)
  have ne: "unat a \<noteq> unat b" using assms(1) by (simp add: word_unat_eq_iff)
  define ms where "ms = (\<lambda>_. Map.empty)(unat a := shift rest m, unat b := [rest2 \<mapsto> v])"
  have nil: "slot F rd (p @ ks) j NilNode Map.empty" for j by (auto simp: slot_def leafval_def intro: d_nil)
  have s2: "slot F rd (p @ ks) (unat b) c2 [rest2 \<mapsto> v]" unfolding c2 using assms by (intro leaf_slot)
  have c2n: "c2 \<noteq> NilNode" by (simp add: c2)
  have "two_children ?cs" unfolding two_children_def using ne b assms(4,6) c2n
    by (intro exI [of _ "min (unat a) (unat b)"] exI [of _ "max (unat a) (unat b)"])
       (auto simp: min_def max_def nth_list_update)
  moreover have "\<forall>i < 17. slot F rd (p @ ks) i (?cs ! i) (ms i)"
    using s2 assms(5) nil by (auto simp: ms_def nth_list_update)
  ultimately have br: "denotes F rd (p @ ks) br (branch ms)" unfolding br_def full_slots using \<open>new_ok F\<close> by (auto simp: new_ok_def)
  have "ms = ((\<lambda>_. Map.empty)(unat a := shift rest m))(unat b := (((\<lambda>_. Map.empty)(unat a := shift rest m)) (unat b))(rest2 \<mapsto> v))"
    unfolding ms_def using ne by auto
  then have "branch ms = (shift [a] (shift rest m))(b # rest2 \<mapsto> v)"
    using branch_upd [OF b] branch_single [OF assms(4)] by metis
  then have map: "shift ks (branch ms) = (shift (ks @ a # rest) m)(ks @ b # rest2 \<mapsto> v)"
    by (simp add: shift_shift flip: shift_upd)
  show ?thesis
  proof (cases "ks = []")
    case True
    then show ?thesis using br map by simp
  next
    case False
    have "isfull rd (p @ ks) br" by (simp add: isfull_def br_def)
    then have "denotes F rd p (ShortNode ks br newFlag) (shift ks (branch ms))"
      using br False assms by (intro d_ext) (auto simp: new_ok_def)
    then show ?thesis using map False by simp
  qed
qed

lemma insert_branch_ok:
  assumes nkey: "nkey = ks @ a # rest" and key: "key = ks @ b # rest2" and "a \<noteq> b" "tkey key" "v \<noteq> []" "0 < fuel"
    and "unat a < 17" "c1 = (if rest = [] then nv else ShortNode rest nv newFlag)" "c1 \<noteq> NilNode"
    and "slot F rd (p @ ks) (unat a) c1 (shift rest m)" "nibbles ks" "new_ok F"
    and "\<not> isfull rd p n"
  shows "edit_post F rd p n (shift nkey m) ((shift nkey m)(key \<mapsto> v))
    (insert_branch (trie_insert fuel rd) tr (length ks) nkey nv p key (ValueNode v))"
proof -
  have tb: "tkey (b # rest2)" using assms by (simp add: tkey_append)
  then have b: "unat b < 17" by (rule tkey_index)
  let ?c2 = "if rest2 = [] then ValueNode v else ShortNode rest2 (ValueNode v) newFlag"
  obtain tr1 where r1: "trie_insert fuel rd tr NilNode (p @ ks @ [a]) rest nv = Ret ((True, c1, None), tr1)"
    using insert_nil [OF assms(6), of rd tr "p @ ks @ [a]" rest nv] unfolding assms(8) by blast
  obtain tr2 where r2: "trie_insert fuel rd tr1 NilNode (p @ ks @ [b]) rest2 (ValueNode v) = Ret ((True, ?c2, None), tr2)"
    using insert_nil [OF assms(6), of rd tr1 "p @ ks @ [b]" rest2 "ValueNode v"] by blast
  have "shift nkey m key = None" unfolding nkey key using \<open>a \<noteq> b\<close> by (simp add: shift_def)
  then have "shift nkey m \<noteq> (shift nkey m)(key \<mapsto> v)" by (metis fun_upd_same option.distinct(1))
  then show ?thesis
    using r1 r2 b assms branch_denotes [OF assms(3) tb assms(5,7,10,9) refl assms(11,12)]
    by (intro edit_postI [where tr' = "if ks = [] then tr2 else onInsert (p @ ks) tr2"])
       (simp_all add: insert_branch_def nkey key nth_append Let_def)
qed


lemma prefix_split:
  assumes "prefixLen key nkey < length nkey" "prefixLen key nkey < length key"
  obtains ks a rest b rest2 where "nkey = ks @ a # rest" "key = ks @ b # rest2" "a \<noteq> b" "length ks = prefixLen key nkey"
proof -
  let ?l = "prefixLen key nkey"
  have "nkey = take ?l nkey @ nkey ! ?l # drop (Suc ?l) nkey" using assms by (simp add: id_take_nth_drop)
  moreover have "key = take ?l nkey @ key ! ?l # drop (Suc ?l) key"
    using assms prefixLen_take [of key nkey] id_take_nth_drop by metis
  ultimately show thesis using prefixLen_max [OF assms(2,1)] that assms by (metis length_take min.absorb4)
qed

lemma prefix_all:
  assumes "prefixLen key nkey = length nkey"
  shows "key = nkey @ drop (length nkey) key"
  using prefixLen_take [of key nkey] assms by (metis append_take_drop_id take_all order_refl)

lemma insert_value: "0 < fuel \<Longrightarrow> trie_insert fuel rd tr (ValueNode v) p [] (ValueNode v') = Ret ((v \<noteq> v', ValueNode v', None), tr)"
  by (cases fuel) (simp_all add: insert_here_def)

lemma not_full_short [simp]: "\<not> isfull rd p (ShortNode k v fl)" "\<not> isfull rd p NilNode"
  by (simp_all add: isfull_def)

lemma insert_ok:
  "denotes F rd p n m \<Longrightarrow> tkey key \<Longrightarrow> v \<noteq> [] \<Longrightarrow> need n key \<le> fuel \<Longrightarrow> new_ok F \<Longrightarrow>
   edit_post F rd p n m (m(key \<mapsto> v)) (trie_insert fuel rd tr n p key (ValueNode v))"
proof (induction arbitrary: key fuel tr rule: denotes.induct)
  case (d_nil p)
  obtain f where f: "fuel = Suc f" using need_pos [OF d_nil(1,3)] by auto
  have "denotes F rd p (ShortNode key (ValueNode v) newFlag) [key \<mapsto> v]" using d_nil by (intro d_leaf) (auto simp: new_ok_def)
  moreover have "length key \<noteq> 0" using d_nil by auto
  moreover have "Map.empty \<noteq> [key \<mapsto> v]" using map_upd_nonempty by metis
  ultimately show ?case using f by (intro edit_postI [where d = True]) (simp_all del: fun_upd_apply)
next
  case (d_leaf k v0 p fl)
  obtain f where f: "fuel = Suc f" "0 < f" using need_pos [OF d_leaf.prems(1,3)] by auto
  have ne: "length key \<noteq> 0" using d_leaf by auto
  show ?case
  proof (cases "prefixLen key k = length k")
    case True
    have "key = k @ drop (length k) key" using True by (rule prefix_all)
    then have k: "key = k" using d_leaf tkey_prefix_unique by (metis append_Nil2)
    have d: "denotes F rd p (ShortNode k (ValueNode w) g) [k \<mapsto> w]" if "w = v \<and> g = newFlag \<or> w = v0 \<and> g = fl" for w g
      using d_leaf that by (intro denotes.d_leaf) (auto simp: new_ok_def)
    have r: "trie_insert fuel rd tr (ShortNode k (ValueNode v0) fl) p key (ValueNode v)
      = Ret ((v0 \<noteq> v, if v0 \<noteq> v then ShortNode k (ValueNode v) newFlag else ShortNode k (ValueNode v0) fl, None), tr)"
      using f ne True k insert_value [OF f(2), of rd tr v0 "p @ k" v] by (simp add: insert_short_def)
    have eq: "[k \<mapsto> v0](k \<mapsto> v) = [k \<mapsto> v]" "[k \<mapsto> v0] = [k \<mapsto> v] \<longleftrightarrow> v0 = v" by (simp, metis map_upd_eqD1)
    show ?thesis by (rule edit_postI [OF r])
      (use eq k d [of v newFlag] d [of v0 fl] in \<open>auto simp del: fun_upd_apply fun_upd_upd\<close>)
  next
    case False
    then have lt: "prefixLen key k < length k" using prefixLen_le(2) [of key k] by linarith
    then have "prefixLen key k < length key" using d_leaf by (intro prefixLen_less) auto
    with lt obtain ks a rest b rest2 where s: "k = ks @ a # rest" "key = ks @ b # rest2" "a \<noteq> b" "length ks = prefixLen key k"
      by (rule prefix_split)
    have nks: "nibbles ks" using s d_leaf.hyps tkey_front by blast
    have "tkey (a # rest)" using d_leaf.hyps nks s by (simp add: tkey_append)
    then have "unat a < 17" "slot F rd (p @ ks) (unat a) (if rest = [] then ValueNode v0 else ShortNode rest (ValueNode v0) newFlag) (shift rest [[] \<mapsto> v0])"
      using leaf_slot [OF _ d_leaf.hyps(2) d_leaf.prems(4), of a rest rd "p @ ks"] tkey_index by simp_all
    then have "edit_post F rd p (ShortNode k (ValueNode v0) fl) (shift k [[] \<mapsto> v0]) ((shift k [[] \<mapsto> v0])(key \<mapsto> v))
        (insert_branch (trie_insert f rd) tr (length ks) k (ValueNode v0) p key (ValueNode v))"
      using s d_leaf.prems f nks by (intro insert_branch_ok [OF s(1,2,3)]) auto
    then show ?thesis using f ne False s by (simp add: insert_short_def del: fun_upd_apply)
  qed
next
  case (d_ext k p n m fl)
  obtain f where f: "fuel = Suc f" "0 < f" using need_pos [OF d_ext.prems(1,3)] by auto
  have ne: "length key \<noteq> 0" using d_ext by auto
  show ?case
  proof (cases "prefixLen key k = length k")
    case True
    then obtain rest where k: "key = k @ rest" using prefix_all by blast
    have "tkey rest" using d_ext k by (simp add: tkey_append)
    moreover have "need n rest \<le> f" using d_ext.prems(3) d_ext.hyps(2) f k by (cases k) (auto simp: need_def)
    ultimately have "edit_post F rd (p @ k) n m (m(rest \<mapsto> v)) (trie_insert f rd tr n (p @ k) rest (ValueNode v))"
      using d_ext by blast
    then obtain n' tr' where r: "trie_insert f rd tr n (p @ k) rest (ValueNode v) = Ret ((m \<noteq> m(rest \<mapsto> v), n', None), tr')"
        "denotes F rd (p @ k) n' (m(rest \<mapsto> v))" "isfull rd (p @ k) n'"
      using d_ext.hyps by (auto simp: edit_post_def)
    have d1: "denotes F rd p (ShortNode k n' newFlag) (shift k (m(rest \<mapsto> v)))"
      using r d_ext.hyps d_ext.prems(4) by (intro denotes.d_ext) (auto simp: new_ok_def)
    have d2: "denotes F rd p (ShortNode k n fl) (shift k m)" using d_ext.hyps by (intro denotes.d_ext)
    have eq: "shift k m = shift k (m(rest \<mapsto> v)) \<longleftrightarrow> m = m(rest \<mapsto> v)"
      by (metis shift_app ext)
    have m: "(shift k m)(key \<mapsto> v) = shift k (m(rest \<mapsto> v))" unfolding k by (rule shift_upd)
    have i: "trie_insert fuel rd tr (ShortNode k n fl) p key (ValueNode v)
        = Ret ((m \<noteq> m(rest \<mapsto> v), if m \<noteq> m(rest \<mapsto> v) then ShortNode k n' newFlag else ShortNode k n fl, None), tr')"
      using f ne True k r d_ext.hyps(2) by (simp add: insert_short_def del: fun_upd_apply)
    show ?thesis unfolding m by (rule edit_postI [OF i]) (use d1 d2 eq in \<open>auto simp del: fun_upd_apply\<close>)
  next
    case False
    then have lt: "prefixLen key k < length k" using prefixLen_le(2) [of key k] by linarith
    then have "prefixLen key k < length key" using d_ext by (intro prefixLen_less) auto
    with lt obtain ks a rest b rest2 where s: "k = ks @ a # rest" "key = ks @ b # rest2" "a \<noteq> b" "length ks = prefixLen key k"
      by (rule prefix_split)
    have nks: "nibbles ks" "nibbles (a # rest)" using s d_ext.hyps by auto
    have "slot F rd (p @ ks) (unat a) (if rest = [] then n else ShortNode rest n newFlag) (shift rest m)"
      using d_ext.hyps d_ext.prems(4) s nks by (intro ext_slot) simp_all
    moreover have "n \<noteq> NilNode" using d_ext.hyps by auto
    moreover have "unat a < 17" using nks by (simp add: word_less_nat_alt)
    ultimately have "edit_post F rd p (ShortNode k n fl) (shift k m) ((shift k m)(key \<mapsto> v))
        (insert_branch (trie_insert f rd) tr (length ks) k n p key (ValueNode v))"
      using s d_ext.prems f nks by (intro insert_branch_ok [OF s(1,2,3)]) auto
    then show ?thesis using f ne False s by (simp add: insert_short_def del: fun_upd_apply)
  qed
next
  case (d_full cs ms p fl)
  obtain f where f: "fuel = Suc f" "0 < f" using need_pos [OF d_full.prems(1,3)] by auto
  obtain i ks where key: "key = i # ks" using d_full.prems by (cases key) auto
  have i: "unat i < 17" using d_full.prems(1) tkey_index unfolding key by blast
  have slots: "\<forall>j < 17. slot F rd p j (cs ! j) (ms j)" using d_full.hyps by (intro all_slots)
  have child: "child cs i = Ret (cs ! unat i)" using i d_full.hyps by (simp add: child_def)
  let ?m = "ms (unat i)" and ?m' = "(ms (unat i))(ks \<mapsto> v)"
  have "\<exists>n' tr'. trie_insert f rd tr (cs ! unat i) (p @ [i]) ks (ValueNode v) = Ret ((?m \<noteq> ?m', n', None), tr')
      \<and> slot F rd p (unat i) n' ?m'"
  proof (cases "unat i < 16")
    case True
    have t: "tkey ks" using d_full.prems(1) True unfolding key by (auto simp: tkey_Cons word_less_nat_alt)
    have "need (cs ! unat i) ks \<le> f" using d_full.prems(3) f(1) unfolding key by (auto simp: need_def)
    then have "edit_post F rd (p @ [i]) (cs ! unat i) ?m ?m' (trie_insert f rd tr (cs ! unat i) (p @ [i]) ks (ValueNode v))"
      using d_full.IH [OF True t d_full.prems(2), of f tr] d_full.prems(4) by (simp del: fun_upd_apply)
    then show ?thesis using True by (auto simp: edit_post_def slot_def simp del: fun_upd_apply)
  next
    case False
    then have 16: "unat i = 16" "ks = []" using i d_full.prems(1) unfolding key by (auto simp: tkey_Cons word_less_nat_alt word_unat_eq_iff)
    show ?thesis
    proof (cases "cs ! 16 = NilNode")
      case True
      then have m: "?m = Map.empty" using d_full.hyps(3) 16 by (simp add: leafval_def)
      have "Map.empty \<noteq> [ks \<mapsto> v]" using map_upd_nonempty by metis
      moreover obtain g where "f = Suc g" using f by (cases f) auto
      ultimately show ?thesis unfolding m using 16 True d_full.prems(2)
        by (auto simp: slot_def leafval_def insert_here_def simp del: fun_upd_apply)
    next
      case False
      then obtain w where w: "cs ! 16 = ValueNode w" "?m = [[] \<mapsto> w]" using d_full.hyps(3) 16 by (auto simp: leafval_def)
      have "([[] \<mapsto> w] :: bytes \<rightharpoonup> bytes) \<noteq> [[] \<mapsto> v] \<longleftrightarrow> w \<noteq> v" by (metis map_upd_eqD1)
      then show ?thesis unfolding w(2) using 16 w(1) d_full.prems(2) insert_value [OF f(2), of rd tr w "p @ [i]" v]
        by (simp add: slot_def leafval_def fun_upd_upd del: fun_upd_apply)
    qed
  qed
  then obtain n' tr' where r: "trie_insert f rd tr (cs ! unat i) (p @ [i]) ks (ValueNode v) = Ret ((?m \<noteq> ?m', n', None), tr')"
      "slot F rd p (unat i) n' ?m'" by blast
  have nn: "n' \<noteq> NilNode" using slot_empty [OF r(2)] map_upd_nonempty by metis
  have d1: "denotes F rd p (FullNode (cs[unat i := n']) newFlag) ((branch ms)(key \<mapsto> v))"
    unfolding key branch_upd [OF i] using nn d_full.prems(4)
    by (intro full_update [OF d_full.hyps(1,2) slots i r(2)]) (auto simp: new_ok_def)
  have d2: "denotes F rd p (FullNode cs fl) (branch ms)" unfolding full_slots using d_full.hyps slots by blast
  have "branch ms key = ?m ks" unfolding key using i by simp
  then have eq: "branch ms = (branch ms)(key \<mapsto> v) \<longleftrightarrow> ?m = ?m'" using upd_differs by metis
  have i: "trie_insert fuel rd tr (FullNode cs fl) p key (ValueNode v)
      = Ret ((?m \<noteq> ?m', if ?m \<noteq> ?m' then FullNode (cs[unat i := n']) newFlag else FullNode cs fl, None), tr')"
    using f r child by (simp add: key insert_full_def del: fun_upd_apply)
  show ?case by (rule edit_postI [OF i]) (use d1 d2 eq in \<open>auto simp: isfull_def simp del: fun_upd_apply\<close>)
next
  case (d_hash p h n m)
  obtain f where f: "fuel = Suc f" using need_pos [OF d_hash.prems(1,3)] by auto
  have ne: "length key \<noteq> 0" using d_hash.prems by auto
  obtain tr1 where tr1: "resolveAndTrack rd tr h p = Ret (Inr n, tr1)" using stored_resolve d_hash.hyps(1) by blast
  have "need n key \<le> f" using d_hash.prems(3) d_hash.hyps(2) f by (auto simp: need_def)
  then have "edit_post F rd p n m (m(key \<mapsto> v)) (trie_insert f rd tr1 n p key (ValueNode v))" using d_hash by blast
  then obtain n' tr' where r: "trie_insert f rd tr1 n p key (ValueNode v) = Ret ((m \<noteq> m(key \<mapsto> v), n', None), tr')"
      "denotes F rd p n' (m(key \<mapsto> v))" "isfull rd p n \<longrightarrow> isfull rd p n'"
    by (auto simp: edit_post_def)
  have i: "trie_insert fuel rd tr (HashNode h) p key (ValueNode v)
      = Ret ((m \<noteq> m(key \<mapsto> v), if m \<noteq> m(key \<mapsto> v) then n' else n, None), tr')"
    using f ne tr1 r by (simp add: insert_hash_def del: fun_upd_apply)
  show ?case by (rule edit_postI [OF i])
    (use r d_hash.hyps stored_isfull [OF d_hash.hyps(1)] in \<open>auto simp del: fun_upd_apply\<close>)
qed


section \<open>Deletion\<close>

definition del_post :: "flagPred \<Rightarrow> trieReader \<Rightarrow> bytes \<Rightarrow> node \<Rightarrow> (bytes \<rightharpoonup> bytes) \<Rightarrow> (bytes \<rightharpoonup> bytes) \<Rightarrow> editRes \<Rightarrow> bool" where
  "del_post F rd p n m m' r \<longleftrightarrow> (\<exists>n' tr'. r = Ret ((m \<noteq> m', n', None), tr') \<and> denotes F rd p n' m' \<and>
     (m \<noteq> m' \<longrightarrow> (\<nexists>h. n' = HashNode h)) \<and> (isfull rd p n \<longrightarrow> n' \<noteq> NilNode))"

lemma del_postI:
  "r = Ret ((d, n', None), tr') \<Longrightarrow> d \<longleftrightarrow> m \<noteq> m' \<Longrightarrow> denotes F rd p n' m' \<Longrightarrow> (d \<Longrightarrow> \<nexists>h. n' = HashNode h) \<Longrightarrow>
   (isfull rd p n \<Longrightarrow> n' \<noteq> NilNode) \<Longrightarrow> del_post F rd p n m m' r"
  by (auto simp: del_post_def)

text \<open>Prepending nibbles to a subtrie: short nodes merge, branches become extensions.\<close>

lemma prepend_denotes:
  assumes "denotes F rd (p @ ks) n m" "nibbles ks" "ks \<noteq> []" "n \<noteq> NilNode" "\<nexists>h. n = HashNode h" "new_ok F"
  shows "denotes F rd p (case n of ShortNode ck cv _ \<Rightarrow> ShortNode (ks @ ck) cv newFlag | _ \<Rightarrow> ShortNode ks n newFlag) (shift ks m)"
  using assms(1)
proof (cases rule: denotes.cases)
  case (d_leaf k v fl)
  then have "denotes F rd p (ShortNode (ks @ k) (ValueNode v) newFlag) [ks @ k \<mapsto> v]"
    using assms by (intro denotes.d_leaf) (simp_all add: tkey_append new_ok_def)
  then show ?thesis using d_leaf by (simp del: fun_upd_apply)
next
  case (d_ext k n' m' fl)
  then have "denotes F rd p (ShortNode (ks @ k) n' newFlag) (shift (ks @ k) m')"
    using assms by (intro denotes.d_ext) (simp_all add: new_ok_def)
  then show ?thesis using d_ext by (simp add: shift_shift)
next
  case (d_full cs ms fl)
  then have "denotes F rd p (ShortNode ks n newFlag) (shift ks m)"
    using assms by (intro denotes.d_ext) (simp_all add: isfull_def new_ok_def)
  then show ?thesis using d_full by simp
qed (use assms in auto)

text \<open>What the scan for a single remaining child finds.\<close>

lemma scan_after: "0 \<le> q \<Longrightarrow> scan_children i q cs = (if list_all (\<lambda>c. c = NilNode) cs then q else -2)"
  by (induction cs arbitrary: i) auto

lemma scan_first:
  "(scan_children i (-1) cs = -1 \<and> list_all (\<lambda>c. c = NilNode) cs)
   \<or> (\<exists>j < length cs. scan_children i (-1) cs = int (i + j) \<and> cs ! j \<noteq> NilNode \<and> (\<forall>l < length cs. l \<noteq> j \<longrightarrow> cs ! l = NilNode))
   \<or> (scan_children i (-1) cs = -2 \<and> two_children cs)"
proof (induction cs arbitrary: i)
  case (Cons c cs)
  show ?case
  proof (cases "c = NilNode")
    case True
    have two: "two_children cs \<Longrightarrow> two_children (c # cs)"
      unfolding two_children_def by (metis Suc_less_eq length_Cons nth_Cons_Suc)
    from Cons [of "i + 1"] show ?thesis
    proof (elim disjE)
      assume "\<exists>j < length cs. scan_children (i + 1) (-1) cs = int (i + 1 + j) \<and> cs ! j \<noteq> NilNode \<and>
          (\<forall>l < length cs. l \<noteq> j \<longrightarrow> cs ! l = NilNode)"
      then obtain j where j: "j < length cs" "scan_children (i + 1) (-1) cs = int (i + 1 + j)" "cs ! j \<noteq> NilNode"
        "\<forall>l < length cs. l \<noteq> j \<longrightarrow> cs ! l = NilNode" by blast
      have "(c # cs) ! l = NilNode" if "l < length (c # cs)" "l \<noteq> Suc j" for l
        using j(4) True that by (cases l) auto
      then show ?thesis using j True by (intro disjI2 disjI1 exI [of _ "Suc j"]) simp
    qed (use True two in auto)
  next
    case False
    show ?thesis
    proof (cases "list_all (\<lambda>c. c = NilNode) cs")
      case True
      then have "\<forall>l < length (c # cs). l \<noteq> 0 \<longrightarrow> (c # cs) ! l = NilNode" by (auto simp: list_all_length nth_Cons')
      then show ?thesis using False True by (intro disjI2 disjI1 exI [of _ 0]) (simp add: scan_after)
    next
      case nall: False
      then obtain l where "l < length cs" "cs ! l \<noteq> NilNode" by (auto simp: list_all_length)
      then have "two_children (c # cs)" using False unfolding two_children_def
        by (intro exI [of _ 0] exI [of _ "Suc l"]) simp
      then show ?thesis using False nall by (simp add: scan_after)
    qed
  qed
qed simp

text \<open>The reduction of a branch that has lost a child.\<close>

lemma delete_reduce_ok:
  assumes "length cs = 17" "\<exists>j < 17. cs ! j \<noteq> NilNode" "\<forall>j < 17. slot F rd p j (cs ! j) (ms j)" "new_ok F"
  shows "\<exists>n' tr'. delete_reduce rd tr cs p = Ret ((True, n', None), tr') \<and> denotes F rd p n' (branch ms) \<and>
    n' \<noteq> NilNode \<and> (\<nexists>h. n' = HashNode h)"
proof -
  have nall: "\<not> list_all (\<lambda>c. c = NilNode) cs" using assms by (auto simp: list_all_length)
  have new: "F q newFlag m" for q m using assms(4) by (simp add: new_ok_def)
  show ?thesis
  proof (cases "scan_children 0 (-1) cs = -2")
    case True
    then have "two_children cs" using scan_first [of 0 cs] nall by auto
    then have "denotes F rd p (FullNode cs newFlag) (branch ms)" unfolding full_slots using assms new by blast
    then show ?thesis using True by (simp add: delete_reduce_def)
  next
    case False
    then obtain j where j: "j < 17" "scan_children 0 (-1) cs = int j" "cs ! j \<noteq> NilNode" "\<forall>l < 17. l \<noteq> j \<longrightarrow> cs ! l = NilNode"
      using scan_first [of 0 cs] nall assms(1) by auto
    let ?b = "word_of_nat j :: u8"
    have ub: "unat ?b = j" using j by (simp add: unat_of_nat)
    have "branch ms = branch ((\<lambda>_. Map.empty)(j := ms j))"
    proof (rule ext)
      fix x
      have "ms l = Map.empty" if "l < 17" "l \<noteq> j" for l using slot_empty assms(3) j(4) that by blast
      then show "branch ms x = branch ((\<lambda>_. Map.empty)(j := ms j)) x" by (cases x) auto
    qed
    then have m: "branch ms = shift [?b] (ms j)" using branch_single [of ?b "ms j"] j ub by simp
    have sl: "slot F rd p j (cs ! j) (ms j)" using assms j by blast
    show ?thesis
    proof (cases "j = 16")
      case True
      then obtain v where v: "cs ! j = ValueNode v" "ms j = [[] \<mapsto> v]" "v \<noteq> []"
        using sl j(3) by (auto simp: slot_def leafval_def)
      have "denotes F rd p (ShortNode [16] (ValueNode v) newFlag) [[16] \<mapsto> v]"
        using v new by (intro d_leaf) (simp_all add: tkey_Cons)
      moreover have "branch ms = [[16] \<mapsto> v]" unfolding m v(2) shift_single using True by simp
      ultimately show ?thesis using j True v by (simp add: delete_reduce_def Let_def del: fun_upd_apply)
    next
      case False
      then have j16: "j < 16" and d: "denotes F rd (p @ [?b]) (cs ! j) (ms j)" using sl j by (auto simp: slot_def)
      have nb: "nibbles [?b]" using j16 ub by (simp add: word_less_nat_alt)
      show ?thesis
      proof (cases "\<exists>h. cs ! j = HashNode h")
        case True
        then obtain h where h: "cs ! j = HashNode h" by blast
        obtain n1 where n1: "stored rd (p @ [?b]) h n1" "(\<exists>k v fl. n1 = ShortNode k v fl) \<or> (\<exists>cs fl. n1 = FullNode cs fl)"
            "denotes F rd (p @ [?b]) n1 (ms j)"
          using d unfolding h by (rule denotes_HashE)
        obtain tr1 where tr1: "resolveAndTrack rd tr h (p @ [?b]) = Ret (Inr n1, tr1)" using stored_resolve [OF n1(1)] by blast
        show ?thesis
        proof (cases "\<exists>k v fl. n1 = ShortNode k v fl")
          case True
          then show ?thesis using prepend_denotes [OF n1(3) nb _ _ _ assms(4)] j h tr1 False m
            by (auto simp: delete_reduce_def Let_def resolve_def)
        next
          case nshort: False
          then obtain cs1 fl1 where f1: "n1 = FullNode cs1 fl1" using n1(2) by blast
          then have "isfull rd (p @ [?b]) (HashNode h)" using n1(1) by (auto simp: isfull_def)
          then have "denotes F rd p (ShortNode [?b] (HashNode h) newFlag) (branch ms)"
            unfolding m using d nb new unfolding h by (intro d_ext) simp_all
          then show ?thesis using j h tr1 f1 False by (simp add: delete_reduce_def Let_def resolve_def)
        qed
      next
        case nhash: False
        have "resolve rd tr (cs ! j) (p @ [?b]) = Ret (Inr (cs ! j), tr)"
          using nhash by (cases "cs ! j") (auto simp: resolve_def)
        then show ?thesis using prepend_denotes [OF d nb _ j(3) nhash assms(4)] j False m
          by (cases "cs ! j") (auto simp: delete_reduce_def Let_def)
      qed
    qed
  qed
qed


lemma delete_nil: "0 < fuel \<Longrightarrow> trie_delete fuel rd tr NilNode p ks = Ret ((False, NilNode, None), tr)"
  by (cases fuel) simp_all

lemma delete_value: "0 < fuel \<Longrightarrow> trie_delete fuel rd tr (ValueNode v) p ks = Ret ((True, NilNode, None), tr)"
  by (cases fuel) simp_all

lemma del_differs: "m(k := None) = m \<longleftrightarrow> m k = None"
  by (metis fun_upd_same fun_upd_triv)

lemma shift_None: "\<not> (\<exists>x. key = k @ x) \<Longrightarrow> shift k m key = None"
  by (auto simp: shift_def) (metis append_take_drop_id)

lemma prefix_not: "prefixLen key k < length k \<Longrightarrow> \<not> (\<exists>x. key = k @ x)"
proof
  assume lt: "prefixLen key k < length k" and "\<exists>x. key = k @ x"
  then obtain x where x: "key = k @ x" by blast
  then have "prefixLen key k < length key" using lt by simp
  with lt show False using prefixLen_max [of key k] x by (simp add: nth_append)
qed

lemma delete_ok:
  "denotes F rd p n m \<Longrightarrow> tkey key \<Longrightarrow> need n key \<le> fuel \<Longrightarrow> new_ok F \<Longrightarrow>
   del_post F rd p n m (m(key := None)) (trie_delete fuel rd tr n p key)"
proof (induction arbitrary: key fuel tr rule: denotes.induct)
  case (d_nil p)
  obtain f where f: "fuel = Suc f" using need_pos [OF d_nil(1,2)] by auto
  show ?case by (rule del_postI [OF delete_nil]) (use f in \<open>auto intro: denotes.d_nil\<close>)
next
  case (d_leaf k v p fl)
  obtain f where f: "fuel = Suc f" using need_pos [OF d_leaf.prems(1,2)] by auto
  have d: "denotes F rd p (ShortNode k (ValueNode v) fl) [k \<mapsto> v]" using d_leaf.hyps by (rule denotes.d_leaf)
  show ?case
  proof (cases "prefixLen key k < length k")
    case True
    then have "key \<noteq> k" using prefix_not [OF True] by auto
    then have m: "[k \<mapsto> v](key := None) = [k \<mapsto> v]" by auto
    have r: "trie_delete fuel rd tr (ShortNode k (ValueNode v) fl) p key = Ret ((False, ShortNode k (ValueNode v) fl, None), tr)"
      using f True by (simp add: delete_short_def)
    show ?thesis unfolding m by (rule del_postI [OF r]) (use d in \<open>auto simp del: fun_upd_apply\<close>)
  next
    case False
    then have "prefixLen key k = length k" using prefixLen_le(2) [of key k] by linarith
    then have "key = k @ drop (length k) key" by (rule prefix_all)
    then have k: "key = k" using d_leaf tkey_prefix_unique by (metis append_Nil2)
    have m: "[k \<mapsto> v](key := None) = Map.empty" using k by simp
    have r: "trie_delete fuel rd tr (ShortNode k (ValueNode v) fl) p key = Ret ((True, NilNode, None), onDelete p tr)"
      using f False k \<open>prefixLen key k = length k\<close> by (simp add: delete_short_def)
    have "[k \<mapsto> v] \<noteq> Map.empty" using map_upd_nonempty by metis
    then show ?thesis unfolding m by (intro del_postI [OF r]) (auto intro: denotes.d_nil simp del: fun_upd_apply)
  qed
next
  case (d_ext k p n m fl)
  obtain f where f: "fuel = Suc f" using need_pos [OF d_ext.prems(1,2)] by auto
  have d: "denotes F rd p (ShortNode k n fl) (shift k m)" using d_ext.hyps by (intro denotes.d_ext)
  show ?case
  proof (cases "prefixLen key k < length k")
    case True
    then have "shift k m key = None" using prefix_not shift_None by blast
    then have m: "(shift k m)(key := None) = shift k m" by (simp only: del_differs)
    have r: "trie_delete fuel rd tr (ShortNode k n fl) p key = Ret ((False, ShortNode k n fl, None), tr)"
      using f True by (simp add: delete_short_def)
    show ?thesis unfolding m by (rule del_postI [OF r]) (use d in auto)
  next
    case False
    then have len: "prefixLen key k = length k" using prefixLen_le(2) [of key k] by linarith
    then obtain rest where k: "key = k @ rest" using prefix_all by blast
    have rest: "tkey rest" using d_ext k by (simp add: tkey_append)
    have "need n rest \<le> f" using d_ext.prems(2) d_ext.hyps(2) f k by (cases k) (auto simp: need_def)
    then obtain n' tr' where r: "trie_delete f rd tr n (p @ k) rest = Ret ((m \<noteq> m(rest := None), n', None), tr')"
        "denotes F rd (p @ k) n' (m(rest := None))" "m \<noteq> m(rest := None) \<longrightarrow> (\<nexists>h. n' = HashNode h)" "n' \<noteq> NilNode"
      using d_ext.IH [OF rest, of f tr] d_ext.hyps d_ext.prems(3) by (auto simp: del_post_def simp del: fun_upd_apply)
    have eq: "shift k m = shift k (m(rest := None)) \<longleftrightarrow> m = m(rest := None)" by (metis shift_app ext)
    have m: "(shift k m)(key := None) = shift k (m(rest := None))" unfolding k by (rule shift_upd)
    have nl: "length k \<noteq> length key" using rest k by auto
    show ?thesis
    proof (cases "m = m(rest := None)")
      case True
      then have i: "trie_delete fuel rd tr (ShortNode k n fl) p key = Ret ((False, ShortNode k n fl, None), tr')"
        using f len k r nl by (simp add: delete_short_def del: fun_upd_apply)
      show ?thesis unfolding m by (rule del_postI [OF i]) (use d eq True in \<open>auto simp del: fun_upd_apply\<close>)
    next
      case dirty: False
      let ?n = "case n' of ShortNode ck cv _ \<Rightarrow> ShortNode (k @ ck) cv newFlag | _ \<Rightarrow> ShortNode k n' newFlag"
      have i: "\<exists>tr''. trie_delete fuel rd tr (ShortNode k n fl) p key = Ret ((True, ?n, None), tr'')"
        using f len k r dirty nl by (cases n') (auto simp: delete_short_def simp del: fun_upd_apply)
      have d': "denotes F rd p ?n (shift k (m(rest := None)))"
        using prepend_denotes [OF r(2)] d_ext.hyps d_ext.prems(3) r(3,4) dirty by blast
      have "?n \<noteq> NilNode \<and> (\<nexists>h. ?n = HashNode h)" by (cases n') auto
      with i d' show ?thesis unfolding m using eq dirty
        by (auto simp: del_post_def simp del: fun_upd_apply)
    qed
  qed
next
  case (d_full cs ms p fl)
  obtain f where f: "fuel = Suc f" "0 < f" using need_pos [OF d_full.prems(1,2)] by auto
  obtain i ks where key: "key = i # ks" using d_full.prems by (cases key) auto
  have i: "unat i < 17" using d_full.prems(1) tkey_index unfolding key by blast
  have slots: "\<forall>j < 17. slot F rd p j (cs ! j) (ms j)" using d_full.hyps by (intro all_slots)
  have child: "child cs i = Ret (cs ! unat i)" using i d_full.hyps by (simp add: child_def)
  let ?m = "ms (unat i)" and ?m' = "(ms (unat i))(ks := None)"
  have "\<exists>n' tr'. trie_delete f rd tr (cs ! unat i) (p @ [i]) ks = Ret ((?m \<noteq> ?m', n', None), tr') \<and> slot F rd p (unat i) n' ?m'"
  proof (cases "unat i < 16")
    case True
    have t: "tkey ks" using d_full.prems(1) True unfolding key by (auto simp: tkey_Cons word_less_nat_alt)
    have "need (cs ! unat i) ks \<le> f" using d_full.prems(2) f(1) unfolding key by (auto simp: need_def)
    then have "del_post F rd (p @ [i]) (cs ! unat i) ?m ?m' (trie_delete f rd tr (cs ! unat i) (p @ [i]) ks)"
      using d_full.IH [OF True t, of f tr] d_full.prems(3) by (simp del: fun_upd_apply)
    then show ?thesis using True by (auto simp: del_post_def slot_def simp del: fun_upd_apply)
  next
    case False
    then have 16: "unat i = 16" "ks = []" using i d_full.prems(1) unfolding key by (auto simp: tkey_Cons word_less_nat_alt word_unat_eq_iff)
    show ?thesis
    proof (cases "cs ! 16 = NilNode")
      case True
      then have m: "?m = Map.empty" using d_full.hyps(3) 16 by (simp add: leafval_def)
      then show ?thesis unfolding m using 16 True delete_nil [OF f(2)] by (auto simp: slot_def leafval_def)
    next
      case False
      then obtain w where w: "cs ! 16 = ValueNode w" "?m = [[] \<mapsto> w]" using d_full.hyps(3) 16 by (auto simp: leafval_def)
      have "([[] \<mapsto> w] :: bytes \<rightharpoonup> bytes) \<noteq> Map.empty" using map_upd_nonempty by metis
      then show ?thesis unfolding w(2) using 16 w(1) delete_value [OF f(2)]
        by (simp add: slot_def leafval_def del: fun_upd_apply)
    qed
  qed
  then obtain n' tr' where r: "trie_delete f rd tr (cs ! unat i) (p @ [i]) ks = Ret ((?m \<noteq> ?m', n', None), tr')"
      "slot F rd p (unat i) n' ?m'" by blast
  have d2: "denotes F rd p (FullNode cs fl) (branch ms)" unfolding full_slots using d_full.hyps slots by blast
  have "branch ms key = ?m ks" unfolding key using i by simp
  then have eq: "branch ms = (branch ms)(key := None) \<longleftrightarrow> ?m = ?m'" using del_differs by metis
  have mm: "(branch ms)(key := None) = branch (ms(unat i := ?m'))" unfolding key by (rule branch_upd [OF i])
  show ?case
  proof (cases "?m = ?m'")
    case True
    then have r': "trie_delete fuel rd tr (FullNode cs fl) p key = Ret ((False, FullNode cs fl, None), tr')"
      using f r child by (simp add: key delete_full_def del: fun_upd_apply)
    show ?thesis by (rule del_postI [OF r']) (use d2 eq True in \<open>auto simp del: fun_upd_apply\<close>)
  next
    case dirty: False
    show ?thesis
    proof (cases "n' = NilNode")
      case False
      then have d1: "denotes F rd p (FullNode (cs[unat i := n']) newFlag) (branch (ms(unat i := ?m')))"
        using d_full.prems(3) by (intro full_update [OF d_full.hyps(1,2) slots i r(2)]) (auto simp: new_ok_def)
      have r': "trie_delete fuel rd tr (FullNode cs fl) p key = Ret ((True, FullNode (cs[unat i := n']) newFlag, None), tr')"
        using f r child dirty False by (simp add: key delete_full_def del: fun_upd_apply)
      show ?thesis by (rule del_postI [OF r']) (use d1 mm eq dirty in \<open>auto simp del: fun_upd_apply\<close>)
    next
      case True
      let ?cs = "cs[unat i := NilNode]" and ?ms = "ms(unat i := ?m')"
      have sl: "\<forall>j < 17. slot F rd p j (?cs ! j) (?ms j)" using slots r(2) True d_full.hyps(1) by (auto simp: nth_list_update)
      have "\<exists>j < 17. ?cs ! j \<noteq> NilNode" using two_children_left [OF d_full.hyps(2)] d_full.hyps(1) by simp
      then obtain n2 tr2 where n2: "delete_reduce rd tr' ?cs p = Ret ((True, n2, None), tr2)" "denotes F rd p n2 (branch ?ms)"
          "n2 \<noteq> NilNode" "\<nexists>h. n2 = HashNode h"
        using delete_reduce_ok [of ?cs F rd p ?ms tr'] d_full.prems(3) sl d_full.hyps(1) by auto
      have r': "trie_delete fuel rd tr (FullNode cs fl) p key = Ret ((True, n2, None), tr2)"
        using f r child dirty True n2(1) by (simp add: key delete_full_def del: fun_upd_apply)
      show ?thesis by (rule del_postI [OF r']) (use n2 mm eq dirty in \<open>auto simp del: fun_upd_apply\<close>)
    qed
  qed
next
  case (d_hash p h n m)
  obtain f where f: "fuel = Suc f" using need_pos [OF d_hash.prems(1,2)] by auto
  obtain tr1 where tr1: "resolveAndTrack rd tr h p = Ret (Inr n, tr1)" using stored_resolve d_hash.hyps(1) by blast
  have "need n key \<le> f" using d_hash.prems(2) d_hash.hyps(2) f by (auto simp: need_def)
  then have "del_post F rd p n m (m(key := None)) (trie_delete f rd tr1 n p key)" using d_hash by blast
  then obtain n' tr' where r: "trie_delete f rd tr1 n p key = Ret ((m \<noteq> m(key := None), n', None), tr')"
      "denotes F rd p n' (m(key := None))" "m \<noteq> m(key := None) \<longrightarrow> (\<nexists>h. n' = HashNode h)" "isfull rd p n \<longrightarrow> n' \<noteq> NilNode"
    by (auto simp: del_post_def simp del: fun_upd_apply)
  have i: "trie_delete fuel rd tr (HashNode h) p key
      = Ret ((m \<noteq> m(key := None), if m \<noteq> m(key := None) then n' else n, None), tr')"
    using f tr1 r by (simp add: delete_hash_def del: fun_upd_apply)
  show ?case by (rule del_postI [OF i])
    (use r d_hash.hyps stored_isfull [OF d_hash.hyps(1)] in \<open>auto simp del: fun_upd_apply\<close>)
qed

end
