(* ===== verification/Simulation.thy ===== *)
theory Simulation
  imports Prelude
begin

text \<open>
  The contract between a component and the abstract object it implements: one step of the component
  returns what a step of the abstract object returns and keeps the abstraction. It gives the same for
  every sequence of steps. The components that promise such a contract interpret it.
\<close>

fun go_run :: "('op \<Rightarrow> 's \<Rightarrow> ('r \<times> 's) go) \<Rightarrow> 'op list \<Rightarrow> 's \<Rightarrow> ('r list \<times> 's) go" where
  "go_run step [] s = Ret ([], s)"
| "go_run step (x # xs) s = go_bind (step x s) (\<lambda>(r, s). go_bind (go_run step xs s) (\<lambda>(rs, s). Ret (r # rs, s)))"

fun abs_run :: "('op \<Rightarrow> 'a \<Rightarrow> 'r \<times> 'a) \<Rightarrow> 'op list \<Rightarrow> 'a \<Rightarrow> 'r list \<times> 'a" where
  "abs_run astep [] a = ([], a)"
| "abs_run astep (x # xs) a = (let (r, a) = astep x a; (rs, a) = abs_run astep xs a in (r # rs, a))"

locale simulation =
  fixes models :: "'s \<Rightarrow> 'a \<Rightarrow> bool"
    and step :: "'op \<Rightarrow> 's \<Rightarrow> ('r \<times> 's) go"
    and astep :: "'op \<Rightarrow> 'a \<Rightarrow> 'r \<times> 'a"
    and admissible :: "'op \<Rightarrow> bool"
  assumes sim: "models s a \<Longrightarrow> admissible x \<Longrightarrow>
    \<exists>s'. step x s = Ret (fst (astep x a), s') \<and> models s' (snd (astep x a))"
begin

lemma run_sim:
  "models s a \<Longrightarrow> list_all admissible xs \<Longrightarrow>
   \<exists>s'. go_run step xs s = Ret (fst (abs_run astep xs a), s') \<and> models s' (snd (abs_run astep xs a))"
proof (induction xs arbitrary: s a)
  case (Cons x xs)
  then obtain s1 where s1: "step x s = Ret (fst (astep x a), s1)" "models s1 (snd (astep x a))" using sim by fastforce
  with Cons obtain s2 where "go_run step xs s1 = Ret (fst (abs_run astep xs (snd (astep x a))), s2)"
      "models s2 (snd (abs_run astep xs (snd (astep x a))))" by fastforce
  with s1 show ?case by (auto simp: case_prod_beta Let_def)
qed simp

end

end
