(* ===== verification/Trie_Map.thy ===== *)
theory Trie_Map
  imports Trie_Props Simulation
begin

text \<open>
  The trie as a map from keys to values. \<open>trie_models F t M\<close> relates a trie, whatever part of it is
  loaded, to the map it holds; every operation of the trie refines the operation on the map
  (\<open>Trie_refines_map\<close>). A second group of lemmas shows that the tree itself is determined by the map: two
  tries with the same contents, whatever operations led to them, load the same tree
  (\<open>Trie_history_independent\<close>).
\<close>

section \<open>Refinement\<close>

definition trie_models :: "flagPred \<Rightarrow> Trie \<Rightarrow> (bytes \<rightharpoonup> bytes) \<Rightarrow> bool" where
  "trie_models F t M \<longleftrightarrow> (\<exists>m. denotes F (tReader t) [] (tRoot t) m \<and> dom m \<subseteq> range keybytesToHex \<and> M = m \<circ> keybytesToHex)"

datatype trieOp = OpGet bytes | OpUpdate bytes bytes | OpDelete bytes

type_synonym trieResult = "MissingNodeError option \<times> bytes"

fun trie_op :: "nat \<Rightarrow> trieOp \<Rightarrow> Trie \<Rightarrow> (trieResult \<times> Trie) go" where
  "trie_op fuel (OpGet k) t = Trie_Get fuel t k"
| "trie_op fuel (OpUpdate k v) t = go_bind (Trie_Update fuel t k v) (\<lambda>(err, t). Ret ((err, []), t))"
| "trie_op fuel (OpDelete k) t = go_bind (Trie_Delete fuel t k) (\<lambda>(err, t). Ret ((err, []), t))"

text \<open>The map: storing an empty value removes the key, and an absent key reads as an empty value.\<close>

fun map_op :: "trieOp \<Rightarrow> (bytes \<rightharpoonup> bytes) \<Rightarrow> trieResult \<times> (bytes \<rightharpoonup> bytes)" where
  "map_op (OpGet k) M = ((None, found (M k)), M)"
| "map_op (OpUpdate k v) M = ((None, []), M(k := if v = [] then None else Some v))"
| "map_op (OpDelete k) M = ((None, []), M(k := None))"

text \<open>Fuel: a key of \<open>l\<close> bytes has \<open>2 l + 1\<close> nibbles, and each takes at most two steps.\<close>

fun op_fits :: "nat \<Rightarrow> trieOp \<Rightarrow> bool" where
  "op_fits fuel (OpGet k) = (4 * length k + 4 \<le> fuel)"
| "op_fits fuel (OpUpdate k v) = (4 * length k + 4 \<le> fuel)"
| "op_fits fuel (OpDelete k) = (4 * length k + 4 \<le> fuel)"

lemma nibs_inj: "nibs a = nibs b \<Longrightarrow> a = b"
  by (metis decodeNibbles_nibs go.inject(1) length_nibs mult_cancel1 zero_neq_numeral)

lemma keybytesToHex_inj: "keybytesToHex a = keybytesToHex b \<longleftrightarrow> a = b"
  by (auto simp: keybytesToHex_nibs dest: nibs_inj)

lemma length_keybytesToHex: "length (keybytesToHex k) = 2 * length k + 1"
  by (simp add: keybytesToHex_nibs)

lemma fits_need: "4 * length k + 4 \<le> fuel \<Longrightarrow> need n (keybytesToHex k) \<le> fuel"
  using need_le [of n "keybytesToHex k"] by (simp add: length_keybytesToHex)

lemma models_upd:
  assumes "denotes F rd [] n (m(keybytesToHex k := r))" "dom m \<subseteq> range keybytesToHex" "M = m \<circ> keybytesToHex"
    and "tReader t = rd" "tRoot t = n"
  shows "trie_models F t (M(k := r))"
proof -
  have "dom (m(keybytesToHex k := r)) \<subseteq> range keybytesToHex" using assms(2) by auto
  moreover have "M(k := r) = (m(keybytesToHex k := r)) \<circ> keybytesToHex"
    unfolding assms(3) by (rule ext) (simp add: keybytesToHex_inj)
  ultimately show ?thesis unfolding trie_models_def using assms(1,4,5) by blast
qed

lemma Get_models:
  assumes "trie_models F t M" "4 * length k + 4 \<le> fuel"
  shows "\<exists>t'. Trie_Get fuel t k = Ret ((None, found (M k)), t') \<and> trie_models F t' M"
proof -
  obtain m where m: "denotes F (tReader t) [] (tRoot t) m" "dom m \<subseteq> range keybytesToHex" "M = m \<circ> keybytesToHex"
    using assms(1) by (auto simp: trie_models_def)
  have "get_post F (tReader t) [] (tRoot t) m (drop 0 (keybytesToHex k)) (trie_get fuel (tReader t) (tTracer t) (tRoot t) (keybytesToHex k) 0)"
    using m fits_need [OF assms(2)] tkey_keybytesToHex by (intro get_ok) simp_all
  then obtain n' d tr' where r: "trie_get fuel (tReader t) (tTracer t) (tRoot t) (keybytesToHex k) 0
        = Ret ((found (m (keybytesToHex k)), n', d, None), tr')" "denotes F (tReader t) [] n' m"
    by (auto simp: get_post_def)
  then show ?thesis using m by (auto simp: Trie_Get_def trie_models_def)
qed

lemma Update_models:
  assumes "trie_models F t M" "4 * length k + 4 \<le> fuel" "new_ok F"
  shows "\<exists>t'. Trie_Update fuel t k v = Ret (None, t') \<and> trie_models F t' (M(k := if v = [] then None else Some v))"
proof -
  obtain m where m: "denotes F (tReader t) [] (tRoot t) m" "dom m \<subseteq> range keybytesToHex" "M = m \<circ> keybytesToHex"
    using assms(1) by (auto simp: trie_models_def)
  let ?k = "keybytesToHex k"
  let ?e = "if length v \<noteq> 0 then trie_insert fuel (tReader t) (tTracer t) (tRoot t) [] ?k (ValueNode v)
            else trie_delete fuel (tReader t) (tTracer t) (tRoot t) [] ?k"
  let ?r = "if v = [] then None else Some v"
  have "\<exists>d n' tr'. ?e = Ret ((d, n', None), tr') \<and> denotes F (tReader t) [] n' (m(?k := ?r))"
    using insert_ok [OF m(1) tkey_keybytesToHex _ fits_need [OF assms(2)] assms(3), of v "tTracer t"]
      delete_ok [OF m(1) tkey_keybytesToHex fits_need [OF assms(2)] assms(3), of "tTracer t"]
    by (cases "v = []") (auto simp: edit_post_def del_post_def simp del: fun_upd_apply)
  then obtain d n' tr' where r: "?e = Ret ((d, n', None), tr')" "denotes F (tReader t) [] n' (m(?k := ?r))" by blast
  let ?t = "t\<lparr>tUnhashed := tUnhashed t + 1, tRoot := n', tTracer := tr'\<rparr>"
  have "Trie_Update fuel t k v = Ret (None, ?t)" using r(1) by (cases "v = []") (simp_all add: Trie_Update_def Let_def)
  moreover have "trie_models F ?t (M(k := ?r))" by (rule models_upd [OF r(2) m(2,3)]) simp_all
  ultimately show ?thesis by blast
qed

lemma Delete_models:
  assumes "trie_models F t M" "4 * length k + 4 \<le> fuel" "new_ok F"
  shows "\<exists>t'. Trie_Delete fuel t k = Ret (None, t') \<and> trie_models F t' (M(k := None))"
proof -
  have "Trie_Delete fuel t k = Trie_Update fuel t k []" by (simp add: Trie_Delete_def Trie_Update_def)
  then show ?thesis using Update_models [OF assms, of "[]"] by simp
qed

text \<open>The refinement holds whatever is known of the flags.\<close>

abbreviation any_flag :: flagPred where "any_flag \<equiv> (\<lambda>p fl m. True)"

lemma trie_op_models:
  assumes "new_ok F" "trie_models F t M" "op_fits fuel x"
  shows "\<exists>t'. trie_op fuel x t = Ret (fst (map_op x M), t') \<and> trie_models F t' (snd (map_op x M))"
  using assms Get_models [of F t M _ fuel] Update_models [of F t M _ fuel] Delete_models [of F t M _ fuel]
  by (cases x) fastforce+

interpretation trie_map: simulation "trie_models any_flag" "trie_op fuel" map_op "op_fits fuel" for fuel
  by unfold_locales (rule trie_op_models, auto simp: new_ok_def)

text \<open>A trie created empty, over any reader.\<close>

definition emptyTrie :: "trieReader \<Rightarrow> Trie" where
  "emptyTrie rd = \<lparr>tRoot = NilNode, tOwner = trOwner rd, tUnhashed = 0, tReader = rd, tTracer = newTracer\<rparr>"

lemma empty_models: "trie_models F (emptyTrie rd) Map.empty"
  by (auto simp: trie_models_def emptyTrie_def intro!: exI [of _ Map.empty] d_nil)


section \<open>The tree is determined by the map\<close>

definition noFlag :: nodeFlag where
  "noFlag = \<lparr>flHash = None, flDirty = False\<rparr>"

text \<open>\<open>loads rd p n s\<close>: reading all stored nodes and forgetting the cache flags turns \<open>n\<close> into the tree \<open>s\<close>.\<close>

inductive loads :: "trieReader \<Rightarrow> bytes \<Rightarrow> node \<Rightarrow> node \<Rightarrow> bool" for rd where
  l_nil: "loads rd p NilNode NilNode"
| l_value: "loads rd p (ValueNode v) (ValueNode v)"
| l_short: "loads rd (p @ k) n s \<Longrightarrow> loads rd p (ShortNode k n fl) (ShortNode k s noFlag)"
| l_full: "length cs = 17 \<Longrightarrow> length ss = 17 \<Longrightarrow> (\<And>i. i < 17 \<Longrightarrow> loads rd (p @ [word_of_nat i]) (cs ! i) (ss ! i)) \<Longrightarrow>
    loads rd p (FullNode cs fl) (FullNode ss noFlag)"
| l_hash: "stored rd p h n \<Longrightarrow> loads rd p n s \<Longrightarrow> loads rd p (HashNode h) s"

text \<open>The loaded trees that hold a map, and that there is one for every trie.\<close>

inductive tree_of :: "node \<Rightarrow> (bytes \<rightharpoonup> bytes) \<Rightarrow> bool" where
  t_nil: "tree_of NilNode Map.empty"
| t_leaf: "tkey k \<Longrightarrow> v \<noteq> [] \<Longrightarrow> tree_of (ShortNode k (ValueNode v) noFlag) [k \<mapsto> v]"
| t_ext: "k \<noteq> [] \<Longrightarrow> tree_of (FullNode cs fl) m \<Longrightarrow> nibbles k \<Longrightarrow> tree_of (ShortNode k (FullNode cs fl) noFlag) (shift k m)"
| t_full: "length cs = 17 \<Longrightarrow> two_children cs \<Longrightarrow> leafval (cs ! 16) (ms 16) \<Longrightarrow>
    (\<And>i. i < 16 \<Longrightarrow> tree_of (cs ! i) (ms i)) \<Longrightarrow> tree_of (FullNode cs noFlag) (branch ms)"

lemma tree_empty: "tree_of n m \<Longrightarrow> m = Map.empty \<longleftrightarrow> n = NilNode"
proof (induction rule: tree_of.induct)
  case (t_leaf k v)
  then show ?case using map_upd_nonempty [of Map.empty k v] by blast
next
  case (t_full cs ms)
  obtain i where i: "i < 17" "cs ! i \<noteq> NilNode" using t_full(1,2) by (auto simp: two_children_def)
  have "ms i \<noteq> Map.empty"
  proof (cases "i < 16")
    case False
    then have "i = 16" using i by simp
    then show ?thesis using t_full(3) i leafval_empty by blast
  qed (use t_full(5) i in blast)
  then obtain x v where "ms i x = Some v" by (metis option.exhaust)
  then have "branch ms (word_of_nat i # x) = Some v" using i by (simp add: unat_of_nat)
  then have "branch ms \<noteq> Map.empty" by (metis option.distinct(1))
  then show ?case by simp
qed auto

lemma denotes_loads:
  "denotes F rd p n m \<Longrightarrow> \<exists>s. loads rd p n s \<and> tree_of s m \<and> (isfull rd p n \<longrightarrow> (\<exists>cs fl. s = FullNode cs fl))"
proof (induction rule: denotes.induct)
  case (d_nil p)
  then show ?case by (auto intro: l_nil t_nil)
next
  case (d_leaf k v p fl)
  then have "tree_of (ShortNode k (ValueNode v) noFlag) [k \<mapsto> v]" by (intro t_leaf)
  moreover have "loads rd p (ShortNode k (ValueNode v) fl) (ShortNode k (ValueNode v) noFlag)" by (intro l_short l_value)
  ultimately show ?case by (auto simp del: fun_upd_apply)
next
  case (d_ext k p n m fl)
  then obtain cs g where s: "loads rd (p @ k) n (FullNode cs g)" "tree_of (FullNode cs g) m" by blast
  have "loads rd p (ShortNode k n fl) (ShortNode k (FullNode cs g) noFlag)" using s by (intro l_short)
  moreover have "tree_of (ShortNode k (FullNode cs g) noFlag) (shift k m)" using s d_ext.hyps by (intro t_ext)
  ultimately show ?case by auto
next
  case (d_full cs ms p fl)
  then obtain f where f: "\<And>i. i < 16 \<Longrightarrow> loads rd (p @ [word_of_nat i]) (cs ! i) (f i) \<and> tree_of (f i) (ms i)" by metis
  let ?ss = "map f [0..<16] @ [cs ! 16]"
  have sn: "?ss ! i = f i" if "i < 16" for i using that by (simp add: nth_append)
  have s16: "?ss ! 16 = cs ! 16" by (simp add: nth_append)
  have l16: "loads rd (p @ [word_of_nat 16]) (cs ! 16) (cs ! 16)"
    using d_full.hyps(3) by (auto simp: leafval_def intro: l_nil l_value)
  have loads: "loads rd (p @ [word_of_nat i]) (cs ! i) (?ss ! i)" if "i < 17" for i
    using f [of i] sn [of i] s16 l16 that by (cases "i = 16") auto
  have nil: "?ss ! i = NilNode \<longleftrightarrow> cs ! i = NilNode" if "i < 17" for i
  proof (cases "i = 16")
    case False
    then have "i < 16" using that by simp
    then show ?thesis
      using f [of i] sn [of i] denotes_empty [OF d_full.hyps(4) [of i]] tree_empty [of "f i" "ms i"] by simp
  qed (use s16 in simp)
  moreover obtain a b where "a < b" "b < 17" "cs ! a \<noteq> NilNode" "cs ! b \<noteq> NilNode"
    using d_full.hyps(1,2) by (auto simp: two_children_def)
  ultimately have "two_children ?ss" unfolding two_children_def
    by (intro exI [of _ a] exI [of _ b]) simp
  then have "tree_of (FullNode ?ss noFlag) (branch ms)"
    using f sn s16 d_full.hyps(3) by (intro t_full) simp_all
  moreover have "loads rd p (FullNode cs fl) (FullNode ?ss noFlag)"
    using loads d_full.hyps(1) by (intro l_full) simp_all
  ultimately show ?case by blast
next
  case (d_hash p h n m)
  then show ?case using stored_isfull [OF d_hash.hyps(1)] by (blast intro: l_hash)
qed


inductive_cases tree_NilE: "tree_of NilNode m"
inductive_cases tree_FullE: "tree_of (FullNode cs fl) m"

lemma full_two_keys:
  assumes "tree_of (FullNode cs fl) m"
  obtains i x j y where "i \<noteq> j" "m (i # x) \<noteq> None" "m (j # y) \<noteq> None"
proof -
  obtain ms where ms: "m = branch ms" "length cs = 17" "two_children cs" "leafval (cs ! 16) (ms 16)"
      "\<And>i. i < 16 \<Longrightarrow> tree_of (cs ! i) (ms i)"
    using assms by (rule tree_FullE) blast
  have ne: "\<exists>x. m (word_of_nat i # x) \<noteq> None" if "i < 17" "cs ! i \<noteq> NilNode" for i
  proof -
    have "ms i \<noteq> Map.empty"
    proof (cases "i = 16")
      case False
      then show ?thesis using that tree_empty [OF ms(5) [of i]] by simp
    qed (use that leafval_empty [OF ms(4)] in simp)
    then obtain x where "ms i x \<noteq> None" by blast
    then show ?thesis using that by (intro exI [of _ x]) (simp add: ms(1) unat_of_nat)
  qed
  obtain a b where ab: "a < b" "b < 17" "cs ! a \<noteq> NilNode" "cs ! b \<noteq> NilNode" using ms(2,3) by (auto simp: two_children_def)
  have "(word_of_nat a :: u8) \<noteq> word_of_nat b" using ab by (simp add: word_unat_eq_iff unat_of_nat)
  then show thesis using ne [of a] ne [of b] ab that by (metis less_trans)
qed

lemma common_prefix: "k @ i # x = k' @ u \<Longrightarrow> k @ j # y = k' @ w \<Longrightarrow> i \<noteq> j \<Longrightarrow> \<exists>t. k = k' @ t"
proof (induction k' arbitrary: k)
  case (Cons c k')
  show ?case
  proof (cases k)
    case Nil
    then show ?thesis using Cons.prems by auto
  next
    case (Cons c' ks)
    then show ?thesis using Cons.IH [of ks] Cons.prems by auto
  qed
qed simp

lemma shift_dom: "shift k m z \<noteq> None \<Longrightarrow> \<exists>x. z = k @ x"
  by (rule ccontr) (simp add: shift_None)

lemma ext_unique:
  assumes "tree_of (FullNode cs fl) m" "tree_of (FullNode cs' fl') m'" "shift k m = shift k' m'"
  shows "k = k' \<and> m = m'"
proof -
  have pre: "\<exists>t. a = b @ t" if h: "tree_of (FullNode ds g) ma" "shift a ma = shift b mb" for a b ds g ma mb
  proof -
    obtain i x j y where ij: "i \<noteq> j" "ma (i # x) \<noteq> None" "ma (j # y) \<noteq> None" using full_two_keys [OF h(1)] by metis
    have "\<exists>u. a @ i # x = b @ u" "\<exists>w. a @ j # y = b @ w"
      using ij h(2) shift_dom shift_app by metis+
    then show ?thesis using common_prefix ij(1) by metis
  qed
  obtain t where t: "k = k' @ t" using pre [OF assms(1,3)] by blast
  obtain t' where t': "k' = k @ t'" using pre [OF assms(2) assms(3) [symmetric]] by blast
  have k: "k = k'" using t t' by auto
  then show ?thesis using assms(3) shift_app by (metis ext)
qed

lemma single_not_two:
  assumes "tree_of (FullNode cs fl) m" "[z \<mapsto> v] = shift k m"
  shows False
proof -
  obtain i x j y where ij: "i \<noteq> j" "m (i # x) \<noteq> None" "m (j # y) \<noteq> None" using full_two_keys [OF assms(1)] by metis
  have "[z \<mapsto> v] (k @ i # x) \<noteq> None" "[z \<mapsto> v] (k @ j # y) \<noteq> None" unfolding assms(2) using ij by simp_all
  then have "k @ i # x = z" "k @ j # y = z" by (auto split: if_splits)
  then show False using ij by auto
qed

lemma ext_not_full:
  assumes "tree_of (FullNode cs fl) m" "shift k m' = m" "k \<noteq> []"
  shows False
proof -
  obtain i x j y where ij: "i \<noteq> j" "m (i # x) \<noteq> None" "m (j # y) \<noteq> None" using full_two_keys [OF assms(1)] by metis
  have "\<exists>u. i # x = k @ u" "\<exists>w. j # y = k @ w" using ij assms(2) shift_dom by metis+
  then show False using ij(1) assms(3) by (cases k) auto
qed

lemma branch_inj: "branch ms = branch ms' \<Longrightarrow> i < 17 \<Longrightarrow> ms i = ms' i"
proof (rule ext)
  fix x
  assume b: "branch ms = branch ms'" and i: "i < 17"
  have "branch ms (word_of_nat i # x) = branch ms' (word_of_nat i # x)" by (simp only: b)
  then show "ms i x = ms' i x" using i by (simp add: unat_of_nat)
qed

lemma leafval_unique: "leafval n m \<Longrightarrow> leafval n' m \<Longrightarrow> n = n'"
  unfolding leafval_def by (metis map_upd_eqD1 map_upd_nonempty)

lemma tree_unique: "tree_of s m \<Longrightarrow> tree_of s' m \<Longrightarrow> s = s'"
proof (induction arbitrary: s' rule: tree_of.induct)
  case t_nil
  then show ?case using tree_empty by blast
next
  case (t_leaf k v)
  from t_leaf(3) show ?case
  proof (cases rule: tree_of.cases)
    case t_nil
    then show ?thesis using map_upd_nonempty by metis
  next
    case (t_leaf k' v')
    then show ?thesis by (metis map_upd_eqD1 fun_upd_eqD option.inject fun_upd_apply option.distinct(1))
  next
    case (t_ext k' cs fl m')
    then show ?thesis using single_not_two by blast
  next
    case (t_full cs ms)
    have "tree_of (FullNode cs noFlag) (branch ms)" using t_full by (intro tree_of.t_full)
    then show ?thesis using single_not_two [of cs noFlag "branch ms" k v "[]"] t_full(2) by simp
  qed
next
  case (t_ext k cs fl m)
  from t_ext.prems show ?case
  proof (cases rule: tree_of.cases)
    case t_nil
    then show ?thesis using t_ext tree_empty by (metis node.distinct(1) shift_eq_empty)
  next
    case (t_leaf k' v')
    then show ?thesis using single_not_two [OF t_ext(2)] by metis
  next
    case (t_ext k' cs' fl' m')
    have "k = k' \<and> m = m'" using ext_unique [OF \<open>tree_of (FullNode cs fl) m\<close> t_ext(4)] t_ext(2) by simp
    then show ?thesis using t_ext \<open>\<And>s'. tree_of s' m \<Longrightarrow> FullNode cs fl = s'\<close> by simp
  next
    case (t_full cs' ms')
    have "tree_of (FullNode cs' noFlag) (branch ms')" using t_full by (intro tree_of.t_full)
    then show ?thesis using ext_not_full t_ext(1) t_full(2) by metis
  qed
next
  case (t_full cs ms)
  have full: "tree_of (FullNode cs noFlag) (branch ms)" using t_full by (intro tree_of.t_full)
  from t_full(6) show ?case
  proof (cases rule: tree_of.cases)
    case t_nil
    then show ?thesis using tree_empty [OF full] by simp
  next
    case (t_leaf k' v')
    then show ?thesis using single_not_two [OF full, of k' v' "[]"] by simp
  next
    case (t_ext k' cs' fl' m')
    then show ?thesis using ext_not_full [OF full] by metis
  next
    case f: (t_full cs' ms')
    have ms: "ms i = ms' i" if "i < 17" for i using branch_inj f(2) that by blast
    have "cs ! i = cs' ! i" if "i < 17" for i
    proof (cases "i = 16")
      case True
      then show ?thesis using leafval_unique [OF t_full.hyps(3)] f(5) ms [of 16] by simp
    next
      case False
      then have "i < 16" using that by simp
      then show ?thesis using t_full.IH [of i] f(6) [of i] ms [of i] by simp
    qed
    then have "cs = cs'" using t_full.hyps(1) f(3) by (simp add: list_eq_iff_nth_eq)
    then show ?thesis using f by simp
  qed
qed


section \<open>Properties\<close>

text \<open>
  C6: The trie refines a map. On a trie that holds the map \<open>M\<close>, with any part of it still in the store, every
  sequence of \<open>Get\<close>, \<open>Update\<close> and \<open>Delete\<close> returns what the same sequence returns on \<open>M\<close> (an absent key reads as
  an empty value, storing an empty value removes the key), without errors or panics, and leaves a trie
  that holds the resulting map; \<open>4 l + 4\<close> recursive calls are enough for a key of \<open>l\<close> bytes.
\<close>

theorem Trie_refines_map:
  "trie_models any_flag t M \<Longrightarrow> list_all (op_fits fuel) ops \<Longrightarrow>
   \<exists>t'. go_run (trie_op fuel) ops t = Ret (fst (abs_run map_op ops M), t') \<and>
     trie_models any_flag t' (snd (abs_run map_op ops M))"
  by (rule trie_map.run_sim)

theorem Trie_refines_map_witness:
  "\<exists>t'. go_run (trie_op 8) [OpUpdate [1] [7], OpUpdate [2] [9], OpGet [1], OpDelete [1], OpGet [1]] (emptyTrie newEmptyReader)
     = Ret ([(None, []), (None, []), (None, [7]), (None, []), (None, [])], t')"
  using Trie_refines_map [OF empty_models [of any_flag newEmptyReader],
    of 8 "[OpUpdate [1] [7], OpUpdate [2] [9], OpGet [1], OpDelete [1], OpGet [1]]"]
  by (auto simp: found_def)

lemma models_map_unique:
  assumes "denotes F rd [] n m" "dom m \<subseteq> range keybytesToHex" "denotes F' rd' [] n' m'" "dom m' \<subseteq> range keybytesToHex"
    and "m \<circ> keybytesToHex = m' \<circ> keybytesToHex"
  shows "m = m'"
proof (rule ext)
  fix x
  show "m x = m' x"
  proof (cases "x \<in> range keybytesToHex")
    case True
    then show ?thesis using assms(5) by (metis comp_apply imageE)
  next
    case False
    then show ?thesis using assms(2,4) by (metis domIff subsetD)
  qed
qed

text \<open>
  The tree is independent of its history. Two tries that hold the same map, whatever updates and
  deletions produced them and whatever parts of them are loaded, are the same tree once everything is
  read from their stores: the same short nodes, branches and values in the same places.
\<close>

theorem Trie_history_independent:
  assumes "trie_models any_flag t M" "trie_models any_flag t' M"
  shows "\<exists>s. loads (tReader t) [] (tRoot t) s \<and> loads (tReader t') [] (tRoot t') s"
proof -
  obtain m where m: "denotes any_flag (tReader t) [] (tRoot t) m" "dom m \<subseteq> range keybytesToHex" "M = m \<circ> keybytesToHex"
    using assms(1) by (auto simp: trie_models_def)
  obtain m' where m': "denotes any_flag (tReader t') [] (tRoot t') m'" "dom m' \<subseteq> range keybytesToHex" "M = m' \<circ> keybytesToHex"
    using assms(2) by (auto simp: trie_models_def)
  have "m = m'" using models_map_unique [OF m(1,2) m'(1,2)] m(3) m'(3) by simp
  then show ?thesis using denotes_loads [OF m(1)] denotes_loads [OF m'(1)] tree_unique by metis
qed

theorem Trie_history_independent_witness:
  "\<exists>t t' s. go_run (trie_op 8) [OpUpdate [1] [7], OpUpdate [2] [9], OpDelete [1]] (emptyTrie newEmptyReader)
       = Ret ([(None, []), (None, []), (None, [])], t) \<and>
     go_run (trie_op 8) [OpUpdate [2] [9]] (emptyTrie newEmptyReader) = Ret ([(None, [])], t') \<and>
     loads (tReader t) [] (tRoot t) s \<and> loads (tReader t') [] (tRoot t') s"
proof -
  let ?e = "emptyTrie newEmptyReader"
  obtain t where t: "go_run (trie_op 8) [OpUpdate [1] [7], OpUpdate [2] [9], OpDelete [1]] ?e = Ret ([(None, []), (None, []), (None, [])], t)"
      "trie_models any_flag t [[2] \<mapsto> [9]]"
    using trie_map.run_sim [OF empty_models [of any_flag newEmptyReader], of 8 "[OpUpdate [1] [7], OpUpdate [2] [9], OpDelete [1]]"]
    by (auto simp: fun_upd_twist simp del: fun_upd_apply)
  obtain t' where t': "go_run (trie_op 8) [OpUpdate [2] [9]] ?e = Ret ([(None, [])], t')" "trie_models any_flag t' [[2] \<mapsto> [9]]"
    using trie_map.run_sim [OF empty_models [of any_flag newEmptyReader], of 8 "[OpUpdate [2] [9]]"]
    by (auto simp del: fun_upd_apply)
  from t t' Trie_history_independent [OF t(2) t'(2)] show ?thesis by blast
qed

end
