(* ===== verification/Trie_Hasher.thy ===== *)
theory Trie_Hasher
  imports Trie_Map State_Object
begin

text \<open>
  Hashing a trie (\<^verbatim>\<open>client/trie/hasher.go\<close> and \<open>hashRoot\<close>, \<open>Hash\<close> of \<^verbatim>\<open>client/trie/trie.go\<close>). Keccak-256
  is the parameter \<open>H\<close> (it lives in a third-party package); what the theorems need of it is that its
  output has 32 bytes. A node is collapsed bottom-up: each child is replaced by the hash of its encoding,
  unless the encoding is shorter than 32 bytes, and the hashes are cached in the nodes. The
  parallel mode hashes the 16 children of the root in goroutines that write disjoint array slots; it
  computes the same results and is modelled by the sequential loop.

  \<open>tree_item\<close> is the encoding of a fully loaded tree with the flags forgotten. The hasher computes its hash
  (\<open>hash_ok\<close> states what the cached hashes have to satisfy, and all operations keep it), so
  the root hash is a function of the map, and two maps with the same root hash exhibit a
  collision of \<open>H\<close>.
\<close>

section \<open>The hasher\<close>

text \<open>\<open>shortnodeToHash\<close> and \<open>fullnodeToHash\<close>.\<close>

definition nodeToHash :: "(bytes \<Rightarrow> bytes) \<Rightarrow> node \<Rightarrow> bool \<Rightarrow> node go" where
  "nodeToHash H n force = go_bind (nodeToBytes n) (\<lambda>enc.
     if length enc < 32 \<and> \<not> force then Ret n else Ret (HashNode (H enc)))"

definition cacheFlag :: "node \<Rightarrow> nodeFlag \<Rightarrow> nodeFlag" where
  "cacheFlag hashed fl = fl\<lparr>flHash := (case hashed of HashNode hn \<Rightarrow> Some hn | _ \<Rightarrow> None)\<rparr>"

text \<open>
  \<open>hash\<close> with \<open>hashShortNodeChildren\<close> and \<open>hashFullNodeChildren\<close>; the results are the collapsed node or
  its hash, and the node with the hashes cached.
\<close>

fun hasher_hash :: "(bytes \<Rightarrow> bytes) \<Rightarrow> node \<Rightarrow> bool \<Rightarrow> (node \<times> node) go"
and hash_children :: "(bytes \<Rightarrow> bytes) \<Rightarrow> nat \<Rightarrow> node list \<Rightarrow> (node list \<times> node list) go" where
  "hasher_hash H (ShortNode k v fl) force = (case flHash fl of
     Some h \<Rightarrow> Ret (HashNode h, ShortNode k v fl)
   | None \<Rightarrow>
       go_bind (hexToCompact k) (\<lambda>ck.
       go_bind (case v of
            FullNode _ _ \<Rightarrow> hasher_hash H v False
          | ShortNode _ _ _ \<Rightarrow> hasher_hash H v False
          | _ \<Rightarrow> Ret (v, v)) (\<lambda>(colv, cachedv).
       go_bind (nodeToHash H (ShortNode ck colv fl) force) (\<lambda>hashed.
       Ret (hashed, ShortNode k cachedv (cacheFlag hashed fl))))))"
| "hasher_hash H (FullNode cs fl) force = (case flHash fl of
     Some h \<Rightarrow> Ret (HashNode h, FullNode cs fl)
   | None \<Rightarrow>
       go_bind (hash_children H 16 cs) (\<lambda>(cols, cacheds).
       go_bind (nodeToHash H (FullNode cols fl) force) (\<lambda>hashed.
       Ret (hashed, FullNode cacheds (cacheFlag hashed fl)))))"
| "hasher_hash H (HashNode h) force = Ret (HashNode h, HashNode h)"
| "hasher_hash H (ValueNode v) force = Ret (ValueNode v, ValueNode v)"
| "hasher_hash H NilNode force = Panic ''invalid memory address or nil pointer dereference''"
| "hash_children H 0 cs = Ret (cs, cs)"
| "hash_children H (Suc i) [] = Panic ''index out of range''"
| "hash_children H (Suc i) (c # cs) =
     go_bind (if c \<noteq> NilNode then hasher_hash H c False else Ret (ValueNode [], NilNode)) (\<lambda>(col, cached).
     go_bind (hash_children H i cs) (\<lambda>(cols, cacheds). Ret (col # cols, cached # cacheds)))"

definition hashRoot :: "(bytes \<Rightarrow> bytes) \<Rightarrow> Trie \<Rightarrow> ((node \<times> node) \<times> Trie) go" where
  "hashRoot H t =
    (if tRoot t = NilNode then Ret ((HashNode (Bytes32 EmptyRootHash), NilNode), t)
     else go_bind (hasher_hash H (tRoot t) True) (\<lambda>r. Ret (r, t\<lparr>tUnhashed := 0\<rparr>)))"

definition Trie_Hash :: "(bytes \<Rightarrow> bytes) \<Rightarrow> Trie \<Rightarrow> (hash \<times> Trie) go" where
  "Trie_Hash H t = go_bind (hashRoot H t) (\<lambda>((h, cached), t). case h of
     HashNode hn \<Rightarrow> Ret (SetBytes hn, t\<lparr>tRoot := cached\<rparr>)
   | _ \<Rightarrow> Panic ''interface conversion'')"

section \<open>Encodings of collapsed nodes\<close>

text \<open>The format of a collapsed node, and that \<open>nodeToBytes\<close> writes it.\<close>

fun emb :: "node \<Rightarrow> item" where
  "emb (ShortNode k v fl) = Lst [Str k, emb v]"
| "emb (FullNode cs fl) = Lst (map emb cs)"
| "emb (HashNode h) = Str h"
| "emb (ValueNode v) = Str v"
| "emb NilNode = Str []"

lemma write_nil: "eb_Write [0x80] w = eb_writeBytes [] w"
  by (simp add: eb_writeBytes_def encodeStringHeader_def eb_Write_def)

lemma node_encode_emits:
  "n \<noteq> NilNode \<Longrightarrow> length (rlp (emb n)) < 2 ^ 64 \<Longrightarrow> \<exists>w'. node_encode n w = Ret w' \<and> emits w w' (rlp (emb n))"
  "length (rlp (emb n)) < 2 ^ 64 \<Longrightarrow> \<exists>w'. encode_child n w = Ret w' \<and> emits w w' (rlp (emb n))"
  "length (concat (map (\<lambda>c. rlp (emb c)) cs)) < 2 ^ 64 \<Longrightarrow>
     \<exists>w'. encode_children cs w = Ret w' \<and> emits w w' (concat (map (\<lambda>c. rlp (emb c)) cs))"
proof (induction n w and n w and cs w rule: node_encode_encode_child_encode_children.induct)
  case (1 cs fl w)
  let ?e = "concat (map (\<lambda>c. rlp (emb c)) cs)"
  have len: "length ?e < 2 ^ 64" using 1 length_rlp_lst [of ?e] by (simp add: comp_def)
  obtain i w1 where i: "eb_list w = (i, w1)" by (cases "eb_list w")
  obtain w' where w': "encode_children cs w1 = Ret w'" "emits w1 w' ?e" using "1.IH" [OF i [symmetric]] len by auto
  obtain w'' where "eb_listEnd i w' = Ret w''" "emits w w'' (rlp_lst ?e)"
    using emits_list [of w w' ?e] w' i len by auto
  then show ?case using w' i by (auto simp: comp_def)
next
  case (2 k v fl w)
  let ?e = "rlp_str k @ rlp (emb v)"
  have len: "length ?e < 2 ^ 64" using 2 length_rlp_lst [of ?e] by simp
  have "length k \<le> length (rlp_str k)" by (simp add: rlp_str_def)
  then have k: "length k < 2 ^ 64" using len by simp
  obtain i w1 where i: "eb_list w = (i, w1)" by (cases "eb_list w")
  obtain w' where w': "encode_child v (eb_writeBytes k w1) = Ret w'" "emits (eb_writeBytes k w1) w' (rlp (emb v))"
    using "2.IH" [OF i [symmetric]] len by auto
  have "emits w1 w' ?e" using emits_writeBytes [OF k] w'(2) by (rule emits_trans)
  then obtain w'' where "eb_listEnd i w' = Ret w''" "emits w w'' (rlp_lst ?e)"
    using emits_list [of w w' ?e] i len by auto
  then show ?case using w' i by auto
next
  case (3 h w)
  have "length h \<le> length (rlp_str h)" by (simp add: rlp_str_def)
  then have "length h < 2 ^ 64" using 3 by simp
  then show ?case by auto
next
  case (4 v w)
  have "length v \<le> length (rlp_str v)" by (simp add: rlp_str_def)
  then have "length v < 2 ^ 64" using 4 by simp
  then show ?case by auto
next
  case (6 n w)
  then show ?case by (cases "n = NilNode") (auto simp: write_nil)
next
  case (8 c cs w)
  obtain w1 where w1: "encode_child c w = Ret w1" "emits w w1 (rlp (emb c))" using 8 by auto
  then obtain w2 where "encode_children cs w1 = Ret w2" "emits w1 w2 (concat (map (\<lambda>c. rlp (emb c)) cs))" using 8 by auto
  with w1 show ?case by (auto intro: emits_trans)
qed auto

lemma nodeToBytes_emb: "n \<noteq> NilNode \<Longrightarrow> length (rlp (emb n)) < 2 ^ 64 \<Longrightarrow> nodeToBytes n = Ret (rlp (emb n))"
  using node_encode_emits(1) [of n eb_reset] makeBytes_emits by (fastforce simp: nodeToBytes_def)


section \<open>The encoding of a tree\<close>

definition compact :: "bytes \<Rightarrow> bytes" where
  "compact k = (case hexToCompact k of Ret c \<Rightarrow> c | _ \<Rightarrow> [])"

fun tree_item :: "(bytes \<Rightarrow> bytes) \<Rightarrow> node \<Rightarrow> item"
and tree_ref :: "(bytes \<Rightarrow> bytes) \<Rightarrow> node \<Rightarrow> item" where
  "tree_item H (ShortNode k v fl) = Lst [Str (compact k), tree_ref H v]"
| "tree_item H (FullNode cs fl) = Lst (map (tree_ref H) cs)"
| "tree_item H (HashNode h) = Str h"
| "tree_item H (ValueNode v) = Str v"
| "tree_item H NilNode = Str []"
| "tree_ref H n = (case n of
     ShortNode k v fl \<Rightarrow> (if length (rlp (tree_item H n)) < 32 then tree_item H n else Str (H (rlp (tree_item H n))))
   | FullNode cs fl \<Rightarrow> (if length (rlp (tree_item H n)) < 32 then tree_item H n else Str (H (rlp (tree_item H n))))
   | _ \<Rightarrow> tree_item H n)"

declare tree_ref.simps [simp del]

lemma tree_ref_simps [simp]: "tree_ref H (ValueNode v) = Str v" "tree_ref H NilNode = Str []"
  by (simp_all add: tree_ref.simps)


text \<open>Keys and values of at most \<open>2^40\<close> bytes keep every encoding far below the range of \<open>uint64\<close>.\<close>

definition small :: "(bytes \<rightharpoonup> bytes) \<Rightarrow> bool" where
  "small m \<longleftrightarrow> (\<forall>k v. m k = Some v \<longrightarrow> length k \<le> 2 ^ 40 \<and> length v \<le> 2 ^ 40)"

definition hash32 :: "(bytes \<Rightarrow> bytes) \<Rightarrow> bool" where
  "hash32 H \<longleftrightarrow> (\<forall>x. length (H x) = 32)"

lemma length_rlp_str_le: "length s < 2 ^ 64 \<Longrightarrow> length (rlp_str s) \<le> length s + 9"
  using length_be_8 [of "length s"] by (simp add: rlp_str_def length_rlp_head)

lemma length_rlp_lst_le: "length s < 2 ^ 64 \<Longrightarrow> length (rlp_lst s) \<le> length s + 9"
  using length_be_8 [of "length s"] by (simp add: rlp_lst_def length_rlp_head)

lemma hexToCompact_key:
  assumes "tkey k \<or> nibbles k"
  shows "hexToCompact k = Ret (compact k) \<and> length (compact k) \<le> length k + 1 \<and> compactToHex (compact k) = k"
proof -
  obtain t ns where k: "k = hexkey t ns" "nibbles ns"
  proof (cases "nibbles k")
    case True
    then show ?thesis using that [of False k] by (simp add: hexkey_def)
  next
    case False
    then have "tkey k" using assms by simp
    then show ?thesis using that [of True] by (auto simp: tkey_def hexkey_def)
  qed
  obtain bs where bs: "hexToCompact k = Ret (flagbyte t ns # bs)" "length bs = length ns div 2"
      "nibs bs = (if odd (length ns) then drop 1 ns else ns)"
    using hexToCompact_hexkey [OF k(2), of t] k(1) by blast
  have "length (compact k) \<le> length k + 1" using bs k by (simp add: compact_def hexkey_def)
  moreover have "compactToHex (compact k) = k" using compactToHex_hexkey [OF k(2) bs(3), of t] bs(1) k(1) by (simp add: compact_def)
  ultimately show ?thesis using bs(1) by (simp add: compact_def)
qed

lemma small_shift: "small (shift k m) \<Longrightarrow> small m"
  unfolding small_def using shift_app [of k m] by (metis add_leE length_append)

lemma small_branch: "small (branch ms) \<Longrightarrow> i < 17 \<Longrightarrow> small (ms i)"
proof -
  assume s: "small (branch ms)" and i: "i < 17"
  have "length x \<le> 2 ^ 40 \<and> length v \<le> 2 ^ 40" if "ms i x = Some v" for x v
  proof -
    have "branch ms (word_of_nat i # x) = Some v" using that i by (simp add: unat_of_nat)
    then have "length (word_of_nat i # x :: bytes) \<le> 2 ^ 40 \<and> length v \<le> 2 ^ 40" using s unfolding small_def by blast
    then show ?thesis by simp
  qed
  then show ?thesis by (simp add: small_def)
qed

definition is_inner :: "node \<Rightarrow> bool" where
  "is_inner n \<longleftrightarrow> (\<exists>k v fl. n = ShortNode k v fl) \<or> (\<exists>cs fl. n = FullNode cs fl)"

lemma tree_ref_inner:
  "is_inner n \<Longrightarrow> tree_ref H n = (if length (rlp (tree_item H n)) < 32 then tree_item H n else Str (H (rlp (tree_item H n))))"
  by (auto simp: is_inner_def tree_ref.simps)

lemma length_tree_ref:
  assumes "hash32 H" "tree_of s m"
  shows "length (rlp (tree_ref H s)) \<le> 41"
proof (cases "is_inner s")
  case True
  have "length (rlp_str (H x)) \<le> 41" for x
    using assms(1) length_rlp_str_le [of "H x"] by (simp add: hash32_def)
  then show ?thesis using True by (auto simp: tree_ref_inner)
next
  case False
  have "s = NilNode" using assms(2) False by (cases rule: tree_of.cases) (auto simp: is_inner_def)
  then show ?thesis by (simp add: rlp_str_def rlp_head_def)
qed

lemma length_leaf_ref: "leafval n m \<Longrightarrow> small m \<Longrightarrow> length (rlp (tree_ref H n)) \<le> 2 ^ 40 + 41"
proof -
  assume "leafval n m" "small m"
  then consider "n = NilNode" | v where "n = ValueNode v" "length v \<le> 2 ^ 40"
    by (auto simp: leafval_def small_def split: if_splits)
  then show ?thesis
  proof cases
    case 2
    then show ?thesis using length_rlp_str_le [of v] by simp
  qed (simp add: rlp_str_def rlp_head_def)
qed

lemma length_tree_item:
  assumes "hash32 H" "tree_of s m" "small m"
  shows "length (rlp (tree_item H s)) < 2 ^ 50"
  using assms(2)
proof (cases rule: tree_of.cases)
  case t_nil
  then show ?thesis by (simp add: rlp_str_def rlp_head_def)
next
  case (t_leaf k v)
  have l: "length k \<le> 2 ^ 40" "length v \<le> 2 ^ 40" using assms(3) t_leaf by (auto simp: small_def)
  have "length (rlp_str (compact k)) \<le> 2 ^ 40 + 10"
    using hexToCompact_key [of k] t_leaf l length_rlp_str_le [of "compact k"] by simp
  moreover have "length (rlp_str v) \<le> 2 ^ 40 + 9" using l length_rlp_str_le [of v] by simp
  ultimately show ?thesis
    using t_leaf length_rlp_lst_le [of "rlp_str (compact k) @ rlp_str v"] by simp
next
  case (t_ext k cs fl m')
  obtain x v where "m' x = Some v" using tree_empty [OF t_ext(4)] by (metis node.distinct(1) not_None_eq)
  then have "length k \<le> 2 ^ 40" using assms(3) t_ext(2) unfolding small_def by (metis add_leE length_append shift_app)
  then have "length (rlp_str (compact k)) \<le> 2 ^ 40 + 10"
    using hexToCompact_key [of k] t_ext length_rlp_str_le [of "compact k"] by simp
  moreover have "length (rlp (tree_ref H (FullNode cs fl))) \<le> 41" using length_tree_ref [OF assms(1) t_ext(4)] .
  ultimately show ?thesis
    using t_ext length_rlp_lst_le [of "rlp_str (compact k) @ rlp (tree_ref H (FullNode cs fl))"] by simp
next
  case (t_full cs ms)
  have "length (rlp (tree_ref H (cs ! i))) \<le> 2 ^ 40 + 41" if "i < 17" for i
  proof (cases "i = 16")
    case True
    have "small (ms 16)" using small_branch assms(3) t_full(2) by simp
    then show ?thesis using True length_leaf_ref [OF t_full(5)] by simp
  next
    case False
    then show ?thesis using that length_tree_ref [OF assms(1) t_full(6) [of i]] by simp
  qed
  then have "\<forall>c \<in> set cs. length (rlp (tree_ref H c)) \<le> 2 ^ 40 + 41" using t_full(3) by (auto simp: in_set_conv_nth)
  then have "sum_list (map (\<lambda>c. length (rlp (tree_ref H c))) cs) \<le> length cs * (2 ^ 40 + 41)"
    by (induction cs) auto
  then have "length (concat (map (\<lambda>c. rlp (tree_ref H c)) cs)) \<le> 17 * (2 ^ 40 + 41)"
    using t_full(3) by (simp add: length_concat comp_def)
  then show ?thesis using t_full length_rlp_lst_le [of "concat (map (\<lambda>c. rlp (tree_ref H c)) cs)"] by (simp add: comp_def)
qed


section \<open>Cached hashes\<close>

text \<open>
  A cached hash is the hash of the node's encoding, and only the root may be hashed although it is
  shorter than a hash.
\<close>

definition hash_ok :: "(bytes \<Rightarrow> bytes) \<Rightarrow> flagPred" where
  "hash_ok H p fl m \<longleftrightarrow> (\<forall>h s. flHash fl = Some h \<longrightarrow> tree_of s m \<longrightarrow>
     h = H (rlp (tree_item H s)) \<and> (p = [] \<or> 32 \<le> length (rlp (tree_item H s))))"

lemma new_ok_hash: "new_ok (hash_ok H)"
  by (simp add: new_ok_def hash_ok_def newFlag_def)

lemma go_bindE: "go_bind m f = Ret y \<Longrightarrow> (\<And>x. m = Ret x \<Longrightarrow> f x = Ret y \<Longrightarrow> P) \<Longrightarrow> P"
  by auto

lemma wrapResult_Inr: "wrapResult c r = Inr n \<longleftrightarrow> r = Inr n"
  by (auto simp: wrapResult_def split: sum.splits)

lemma decoded_flag:
  assumes "decodeNode h blob = Ret (Inr n)"
  shows "(\<exists>k v fl. n = ShortNode k v fl \<and> flHash fl = h) \<or> (\<exists>cs fl. n = FullNode cs fl \<and> flHash fl = h)"
proof -
  have short: "\<exists>k v fl. n = ShortNode k v fl \<and> flHash fl = h" if "decodeShort dec h e = Ret (Inr n)" for dec e
    using that unfolding decodeShort_def Let_def
    by (auto elim!: go_bindE simp del: go_bind_Ret_iff split: sum.split_asm prod.split_asm if_split_asm)
  have full: "\<exists>cs fl. n = FullNode cs fl \<and> flHash fl = h" if "decodeFull dec h e = Ret (Inr n)" for dec e
    using that unfolding decodeFull_def
    by (auto elim!: go_bindE simp del: go_bind_Ret_iff split: sum.split_asm prod.split_asm)
  obtain f where "decode_node (Suc f) h blob = Ret (Inr n)"
    using assms by (cases "length blob") (auto simp: decodeNode_def)
  then show ?thesis unfolding decode_node.simps Let_def
    by (auto elim!: go_bindE simp: wrapResult_Inr simp del: go_bind_Ret_iff
        split: sum.split_asm prod.split_asm if_split_asm) (use short full in blast)+
qed

lemma hash_of_stored:
  assumes "denotes (hash_ok H) rd p (HashNode h) m" "tree_of s m"
  shows "h = H (rlp (tree_item H s)) \<and> (p = [] \<or> 32 \<le> length (rlp (tree_item H s)))"
proof -
  obtain n where n: "stored rd p h n" "denotes (hash_ok H) rd p n m" using assms(1) by (rule denotes_HashE)
  then obtain blob where "decodeNode (Some h) blob = Ret (Inr n)" by (auto simp: stored_def)
  from decoded_flag [OF this] obtain fl where fl: "flHash fl = Some h"
      "(\<exists>k v. n = ShortNode k v fl) \<or> (\<exists>cs. n = FullNode cs fl)" by blast
  have "hash_ok H p fl m" using n(2) fl(2) by (cases rule: denotes.cases) auto
  then show ?thesis using fl(1) assms(2) by (simp add: hash_ok_def)
qed

section \<open>The hasher computes the hash of the tree\<close>

definition ref_of :: "(bytes \<Rightarrow> bytes) \<Rightarrow> bytes \<Rightarrow> node \<Rightarrow> item" where
  "ref_of H p s = (if p = [] then Str (H (rlp (tree_item H s))) else tree_ref H s)"

definition hash_post :: "(bytes \<Rightarrow> bytes) \<Rightarrow> trieReader \<Rightarrow> bytes \<Rightarrow> node \<Rightarrow> (bytes \<rightharpoonup> bytes) \<Rightarrow> node \<Rightarrow> (node \<times> node) go \<Rightarrow> bool" where
  "hash_post H rd p n m s r \<longleftrightarrow> (\<exists>hd0 cached. r = Ret (hd0, cached) \<and> emb hd0 = ref_of H p s \<and>
     (p = [] \<longrightarrow> hd0 = HashNode (H (rlp (tree_item H s)))) \<and> denotes (hash_ok H) rd p cached m \<and>
     (isfull rd p n \<longrightarrow> isfull rd p cached) \<and> cached \<noteq> NilNode)"

lemma hash_postI:
  "r = Ret (hd0, cached) \<Longrightarrow> emb hd0 = ref_of H p s \<Longrightarrow> (p = [] \<Longrightarrow> hd0 = HashNode (H (rlp (tree_item H s)))) \<Longrightarrow>
   denotes (hash_ok H) rd p cached m \<Longrightarrow> (isfull rd p n \<Longrightarrow> isfull rd p cached) \<Longrightarrow> cached \<noteq> NilNode \<Longrightarrow>
   hash_post H rd p n m s r"
  by (auto simp: hash_post_def)

text \<open>A node whose hash is cached.\<close>

lemma cached_post:
  assumes "flHash fl = Some h" "hash_ok H p fl m" "tree_of s m" "is_inner s" "denotes (hash_ok H) rd p n m" "n \<noteq> NilNode"
  shows "hash_post H rd p n m s (Ret (HashNode h, n))"
proof (rule hash_postI [OF refl])
  have h: "h = H (rlp (tree_item H s))" "p = [] \<or> 32 \<le> length (rlp (tree_item H s))" using assms by (auto simp: hash_ok_def)
  then show "emb (HashNode h) = ref_of H p s" using assms(4) by (auto simp: ref_of_def tree_ref_inner)
  show "p = [] \<Longrightarrow> HashNode h = HashNode (H (rlp (tree_item H s)))" using h by simp
qed (use assms in auto)

text \<open>The last step on an inner node: \<open>c\<close> is the collapsed node, \<open>n'\<close> builds the node to cache.\<close>

lemma collapse_post:
  assumes "emb c = tree_item H s" "is_inner c" "is_inner s" "tree_of s m" "hash32 H" "small m"
    and "\<And>fl'. hash_ok H p fl' m \<Longrightarrow> denotes (hash_ok H) rd p (n' fl') m"
    and "\<And>fl'. isfull rd p n \<Longrightarrow> isfull rd p (n' fl')" "\<And>fl'. n' fl' \<noteq> NilNode"
  shows "hash_post H rd p n m s (go_bind (nodeToHash H c (p = [])) (\<lambda>hashed. Ret (hashed, n' (cacheFlag hashed fl))))"
proof -
  let ?e = "rlp (tree_item H s)"
  have "length ?e < 2 ^ 64" using length_tree_item [OF assms(5,4,6)] by simp
  then have b: "nodeToBytes c = Ret ?e" using nodeToBytes_emb [of c] assms(1,2) by (auto simp: is_inner_def)
  let ?hd = "if length ?e < 32 \<and> p \<noteq> [] then c else HashNode (H ?e)"
  have r: "go_bind (nodeToHash H c (p = [])) (\<lambda>hashed. Ret (hashed, n' (cacheFlag hashed fl))) = Ret (?hd, n' (cacheFlag ?hd fl))"
    using b by (simp add: nodeToHash_def)
  have "s' = s" if "tree_of s' m" for s' using tree_unique assms(4) that by blast
  then have fl: "hash_ok H p (cacheFlag ?hd fl) m" using assms(2)
    by (auto simp: hash_ok_def cacheFlag_def is_inner_def split: if_splits)
  show ?thesis
    by (rule hash_postI [OF r]) (use assms fl in \<open>auto simp: ref_of_def tree_ref_inner\<close>)
qed


lemma hash_children_ok:
  "(\<And>i. i < k \<Longrightarrow> (if cs ! i \<noteq> NilNode then hasher_hash H (cs ! i) False else Ret (ValueNode [], NilNode)) = Ret (f i, g i)) \<Longrightarrow>
   k \<le> length cs \<Longrightarrow> hash_children H k cs = Ret (map f [0..<k] @ drop k cs, map g [0..<k] @ drop k cs)"
proof (induction k arbitrary: cs f g)
  case (Suc k)
  obtain c cs' where cs: "cs = c # cs'" using Suc.prems by (cases cs) auto
  have "hash_children H k cs' = Ret (map (f \<circ> Suc) [0..<k] @ drop k cs', map (g \<circ> Suc) [0..<k] @ drop k cs')"
  proof (rule Suc.IH)
    fix i assume "i < k"
    then show "(if cs' ! i \<noteq> NilNode then hasher_hash H (cs' ! i) False else Ret (ValueNode [], NilNode)) = Ret ((f \<circ> Suc) i, (g \<circ> Suc) i)"
      using Suc.prems(1) [of "Suc i"] unfolding cs nth_Cons_Suc by simp
  qed (use Suc.prems cs in simp)
  moreover have "(if c \<noteq> NilNode then hasher_hash H c False else Ret (ValueNode [], NilNode)) = Ret (f 0, g 0)"
    using Suc.prems(1) [of 0] unfolding cs nth_Cons_0 by simp
  moreover have "map h [0..<Suc k] = h 0 # map (h \<circ> Suc) [0..<k]" for h :: "nat \<Rightarrow> node"
    by (simp only: map_map [symmetric] map_Suc_upt upt_rec [of 0 "Suc k"]) simp
  ultimately show ?case using cs by simp
qed simp

text \<open>The tree of a branch and of an extension.\<close>

lemma tree_of_full:
  assumes "denotes F rd p (FullNode cs fl) (branch ms)" "leafval (cs ! 16) (ms 16)" "tree_of s (branch ms)"
  shows "\<exists>ss. s = FullNode ss noFlag \<and> length ss = 17 \<and> ss ! 16 = cs ! 16 \<and> (\<forall>i < 16. tree_of (ss ! i) (ms i))"
proof -
  obtain ss g where "tree_of (FullNode ss g) (branch ms)"
    using denotes_loads [OF assms(1)] by (auto simp: isfull_def)
  then have s: "s = FullNode ss g" using tree_unique assms(3) by blast
  obtain ms' where ms': "g = noFlag" "branch ms = branch ms'" "length ss = 17" "leafval (ss ! 16) (ms' 16)"
      "\<And>i. i < 16 \<Longrightarrow> tree_of (ss ! i) (ms' i)"
    using assms(3) unfolding s by (rule tree_FullE) blast
  have eq: "ms i = ms' i" if "i < 17" for i using branch_inj [OF ms'(2) that] .
  have "ss ! 16 = cs ! 16" using leafval_unique [OF ms'(4)] assms(2) eq [of 16] by simp
  then show ?thesis using s ms' eq by simp
qed

lemma hash_denotes:
  "denotes (hash_ok H) rd p n m \<Longrightarrow> hash32 H \<Longrightarrow> small m \<Longrightarrow> n \<noteq> NilNode \<Longrightarrow> tree_of s m \<Longrightarrow>
   hash_post H rd p n m s (hasher_hash H n (p = []))"
proof (induction arbitrary: s rule: denotes.induct)
  case (d_nil p)
  then show ?case by simp
next
  case (d_leaf k v p fl)
  have d: "denotes (hash_ok H) rd p (ShortNode k (ValueNode v) g) [k \<mapsto> v]" if "hash_ok H p g [k \<mapsto> v]" for g
    using d_leaf.hyps(1,2) that by (rule denotes.d_leaf)
  have s: "s = ShortNode k (ValueNode v) noFlag"
    using tree_unique [OF d_leaf.prems(4)] t_leaf [OF d_leaf.hyps(1,2)] by blast
  then have inner: "is_inner s" by (simp add: is_inner_def)
  show ?case
  proof (cases "flHash fl")
    case (Some h)
    then show ?thesis using cached_post [OF Some d_leaf.hyps(3) d_leaf.prems(4) inner d [OF d_leaf.hyps(3)]] by (simp del: fun_upd_apply)
  next
    case None
    have k: "hexToCompact k = Ret (compact k)" using hexToCompact_key d_leaf.hyps by blast
    have "hash_post H rd p (ShortNode k (ValueNode v) fl) [k \<mapsto> v] s
        (go_bind (nodeToHash H (ShortNode (compact k) (ValueNode v) fl) (p = []))
          (\<lambda>hashed. Ret (hashed, ShortNode k (ValueNode v) (cacheFlag hashed fl))))"
      by (rule collapse_post) (use s inner d d_leaf.prems in \<open>auto simp: is_inner_def simp del: fun_upd_apply\<close>)
    then show ?thesis using None k by (simp del: fun_upd_apply)
  qed
next
  case (d_ext k p n m fl)
  have d: "denotes (hash_ok H) rd p (ShortNode k c g) (shift k m)"
    if "denotes (hash_ok H) rd (p @ k) c m" "isfull rd (p @ k) c" "hash_ok H p g (shift k m)" for c g
    using d_ext.hyps that by (intro denotes.d_ext)
  obtain ss g where ss: "tree_of (FullNode ss g) m" using denotes_loads [OF d_ext.hyps(4)] d_ext.hyps(3) by blast
  then have s: "s = ShortNode k (FullNode ss g) noFlag"
    using tree_unique [OF d_ext.prems(4)] t_ext d_ext.hyps by blast
  then have inner: "is_inner s" by (simp add: is_inner_def)
  show ?case
  proof (cases "flHash fl")
    case (Some h)
    then show ?thesis using cached_post [OF Some d_ext.hyps(5) d_ext.prems(4) inner d] d_ext.hyps by simp
  next
    case None
    have k: "hexToCompact k = Ret (compact k)" using hexToCompact_key d_ext.hyps by blast
    have pk: "(p @ k = []) = False" using d_ext.hyps by simp
    have "small m" using d_ext.prems(2) by (rule small_shift)
    moreover have "n \<noteq> NilNode" using d_ext.hyps(3) by (auto simp: isfull_def)
    ultimately have "hash_post H rd (p @ k) n m (FullNode ss g) (hasher_hash H n False)"
      using d_ext.IH [OF d_ext.prems(1) _ _ ss] unfolding pk by blast
    then obtain hn cached where r: "hasher_hash H n False = Ret (hn, cached)" "emb hn = tree_ref H (FullNode ss g)"
        "denotes (hash_ok H) rd (p @ k) cached m" "isfull rd (p @ k) cached"
      using d_ext.hyps(2,3) by (auto simp: hash_post_def ref_of_def)
    have c: "(case n of FullNode _ _ \<Rightarrow> hasher_hash H n False | ShortNode _ _ _ \<Rightarrow> hasher_hash H n False | _ \<Rightarrow> Ret (n, n)) = Ret (hn, cached)"
      using r(1) d_ext.hyps(3) by (cases n) (auto simp: isfull_def)
    have "hash_post H rd p (ShortNode k n fl) (shift k m) s
        (go_bind (nodeToHash H (ShortNode (compact k) hn fl) (p = []))
          (\<lambda>hashed. Ret (hashed, ShortNode k cached (cacheFlag hashed fl))))"
      by (rule collapse_post) (use s inner d r d_ext.prems in \<open>auto simp: is_inner_def\<close>)
    then show ?thesis using None k c by simp
  qed
next
  case (d_full cs ms p fl)
  have slots: "\<forall>j < 17. slot (hash_ok H) rd p j (cs ! j) (ms j)" using d_full.hyps by (intro all_slots)
  have d0: "denotes (hash_ok H) rd p (FullNode cs fl) (branch ms)" using d_full.hyps by (intro denotes.d_full)
  obtain ss where ss: "s = FullNode ss noFlag" "length ss = 17" "ss ! 16 = cs ! 16" "\<forall>i < 16. tree_of (ss ! i) (ms i)"
    using tree_of_full [OF d0 d_full.hyps(3) d_full.prems(4)] by blast
  then have inner: "is_inner s" by (simp add: is_inner_def)
  show ?case
  proof (cases "flHash fl")
    case (Some h)
    then show ?thesis using cached_post [OF Some d_full.hyps(5) d_full.prems(4) inner d0] by simp
  next
    case None
    have "\<exists>f g. (if cs ! i \<noteq> NilNode then hasher_hash H (cs ! i) False else Ret (ValueNode [], NilNode)) = Ret (f, g) \<and>
        emb f = tree_ref H (ss ! i) \<and> denotes (hash_ok H) rd (p @ [word_of_nat i]) g (ms i)" if "i < 16" for i
    proof (cases "cs ! i = NilNode")
      case True
      then have "ms i = Map.empty" using denotes_empty [OF d_full.hyps(4) [OF that]] by simp
      then have "ss ! i = NilNode" using tree_empty ss(4) that by metis
      then show ?thesis using True \<open>ms i = _\<close> by (auto intro: denotes.d_nil)
    next
      case False
      have "small (ms i)" using small_branch d_full.prems(2) that by simp
      then have "hash_post H rd (p @ [word_of_nat i]) (cs ! i) (ms i) (ss ! i) (hasher_hash H (cs ! i) (p @ [word_of_nat i] = []))"
        using d_full.IH [OF that d_full.prems(1) _ False] ss(4) that by blast
      then show ?thesis using False by (auto simp: hash_post_def ref_of_def)
    qed
    then obtain f g where fg: "\<And>i. i < 16 \<Longrightarrow> (if cs ! i \<noteq> NilNode then hasher_hash H (cs ! i) False else Ret (ValueNode [], NilNode)) = Ret (f i, g i)"
        "\<And>i. i < 16 \<Longrightarrow> emb (f i) = tree_ref H (ss ! i)" "\<And>i. i < 16 \<Longrightarrow> denotes (hash_ok H) rd (p @ [word_of_nat i]) (g i) (ms i)"
      by metis
    let ?cols = "map f [0..<16] @ drop 16 cs" and ?cached = "map g [0..<16] @ drop 16 cs"
    have ch: "hash_children H 16 cs = Ret (?cols, ?cached)"
      using hash_children_ok [of 16 cs H f g] fg(1) d_full.hyps(1) by simp
    have d16: "drop 16 cs = [cs ! 16]" using d_full.hyps(1) by (simp add: list_eq_iff_nth_eq)
    have e16: "emb (cs ! 16) = tree_ref H (ss ! 16)" using d_full.hyps(3) ss(3) by (auto simp: leafval_def)
    have emb: "emb (FullNode ?cols fl) = tree_item H s"
    proof -
      have "map emb ?cols = map (tree_ref H) ss"
      proof (rule nth_equalityI)
        fix i assume "i < length (map emb ?cols)"
        then have "i < 17" using d16 by simp
        then show "map emb ?cols ! i = map (tree_ref H) ss ! i"
          using fg(2) [of i] e16 ss(2) d16 by (cases "i = 16") (auto simp: nth_append)
      qed (use ss(2) d16 in simp)
      then show ?thesis using ss(1) by simp
    qed
    have nil: "?cached ! i = NilNode \<longleftrightarrow> cs ! i = NilNode" if "i < 17" for i
      using that d16 denotes_empty [OF fg(3) [of i]] denotes_empty [OF d_full.hyps(4) [of i]]
      by (cases "i = 16") (auto simp: nth_append)
    obtain a b where "a < b" "b < 17" "cs ! a \<noteq> NilNode" "cs ! b \<noteq> NilNode"
      using d_full.hyps(1,2) by (auto simp: two_children_def)
    then have two: "two_children ?cached" unfolding two_children_def using nil d16
      by (intro exI [of _ a] exI [of _ b]) simp
    have d: "denotes (hash_ok H) rd p (FullNode ?cached g') (branch ms)" if "hash_ok H p g' (branch ms)" for g'
      using two fg(3) d_full.hyps(3) d16 that by (intro denotes.d_full) (auto simp: nth_append)
    have "hash_post H rd p (FullNode cs fl) (branch ms) s
        (go_bind (nodeToHash H (FullNode ?cols fl) (p = [])) (\<lambda>hashed. Ret (hashed, FullNode ?cached (cacheFlag hashed fl))))"
      by (rule collapse_post [OF emb]) (use inner d d_full.prems in \<open>auto simp: is_inner_def isfull_def\<close>)
    then show ?thesis using None ch by simp
  qed
next
  case (d_hash p h n m)
  have d: "denotes (hash_ok H) rd p (HashNode h) m" using d_hash.hyps by (intro denotes.d_hash)
  have inner: "is_inner s" using d_hash.prems(4)
  proof (cases rule: tree_of.cases)
    case t_nil
    then show ?thesis using denotes_empty [OF d_hash.hyps(3)] d_hash.hyps(2) by auto
  qed (auto simp: is_inner_def)
  have h: "h = H (rlp (tree_item H s)) \<and> (p = [] \<or> 32 \<le> length (rlp (tree_item H s)))"
    using hash_of_stored [OF d d_hash.prems(4)] .
  have "hash_post H rd p (HashNode h) m s (Ret (HashNode h, HashNode h))"
    by (rule hash_postI [OF refl]) (use h d inner in \<open>auto simp: ref_of_def tree_ref_inner\<close>)
  then show ?case by simp
qed

end
