(* ===== verification/Trie_Root.thy ===== *)
theory Trie_Root
  imports Trie_Hasher
begin

text \<open>
  What the root hash of a trie means (\<open>Trie_Hash\<close> of \<^verbatim>\<open>client/trie/trie.go\<close>): it is a function of the stored map,
  whatever operations and intermediate hashings led to it, and it commits to the map, as far as \<open>H\<close> has no
  collision among the encodings of the nodes of the two tries compared.
\<close>

section \<open>RLP is uniquely readable\<close>

lemma Split_Str:
  assumes "length (rlp_str s @ r) < 2 ^ 64"
  shows "\<exists>k. k \<noteq> List \<and> Split (rlp_str s @ r) = Ret (Inr (k, s, r))"
  using kind_str [of s "rlp_str s @ r" r] Split_iff [OF assms] by auto

lemma Split_Lst:
  assumes "length (rlp_lst c @ r) < 2 ^ 64"
  shows "Split (rlp_lst c @ r) = Ret (Inr (List, c, r))"
  using Split_iff [OF assms] by (simp add: rlp_lst_def)

lemma concat_rlp_inj:
  "(\<And>x y r r'. x \<in> set xs \<Longrightarrow> rlp x @ r = rlp y @ r' \<Longrightarrow> length (rlp x @ r) < 2 ^ 64 \<Longrightarrow> x = y \<and> r = r') \<Longrightarrow>
   concat (map rlp xs) = concat (map rlp ys) \<Longrightarrow> length (concat (map rlp xs)) < 2 ^ 64 \<Longrightarrow> xs = ys"
proof (induction xs arbitrary: ys)
  case Nil
  then show ?case by (cases ys) auto
next
  case (Cons x xs)
  then obtain y ys' where ys: "ys = y # ys'" by (cases ys) auto
  have "x = y \<and> concat (map rlp xs) = concat (map rlp ys')"
    using Cons.prems(2,3) ys by (intro Cons.prems(1)) auto
  moreover have "length (concat (map rlp xs)) < 2 ^ 64" using Cons.prems(3) by simp
  ultimately have "x = y \<and> xs = ys'" using Cons.prems(1) by (intro conjI Cons.IH) auto
  then show ?case using ys by simp
qed

lemma length_rlp_lst_ge: "length c \<le> length (rlp_lst c)"
  by (simp add: rlp_lst_def)

lemma rlp_prefix_inj:
  "rlp x @ r = rlp y @ r' \<Longrightarrow> length (rlp x @ r) < 2 ^ 64 \<Longrightarrow> x = y \<and> r = r'"
proof (induction x arbitrary: y r r')
  case (Str s)
  then obtain k where k: "k \<noteq> List" "Split (rlp y @ r') = Ret (Inr (k, s, r))" using Split_Str [of s r] by auto
  have len: "length (rlp y @ r') < 2 ^ 64" using Str by simp
  show ?case
  proof (cases y)
    case (Str s')
    then show ?thesis using k Split_Str [of s' r'] len by auto
  next
    case (Lst ys)
    then show ?thesis using k Split_Lst [of "concat (map rlp ys)" r'] len by auto
  qed
next
  case (Lst xs)
  let ?c = "concat (map rlp xs)"
  have "length (rlp_lst ?c @ r) < 2 ^ 64" using Lst.prems(2) by simp
  from Split_Lst [OF this] have k: "Split (rlp y @ r') = Ret (Inr (List, ?c, r))" using Lst.prems(1) by simp
  have len: "length (rlp y @ r') < 2 ^ 64" using Lst.prems by metis
  show ?case
  proof (cases y)
    case (Str s')
    then show ?thesis using k Split_Str [of s' r'] len by auto
  next
    case y: (Lst ys)
    then have "?c = concat (map rlp ys) \<and> r = r'" using k Split_Lst [of "concat (map rlp ys)" r'] len by auto
    moreover have "length ?c < 2 ^ 64" using Lst.prems(2) length_rlp_lst_ge [of ?c] by simp
    ultimately show ?thesis using concat_rlp_inj [of xs ys] Lst.IH y by blast
  qed
qed

lemma rlp_inj: "rlp x = rlp y \<Longrightarrow> length (rlp x) < 2 ^ 64 \<Longrightarrow> x = y"
  using rlp_prefix_inj [of x "[]" y "[]"] by simp

lemma digit_unique: "(b :: nat) < 256 \<Longrightarrow> c < 256 \<Longrightarrow> x * 256 + b = y * 256 + c \<Longrightarrow> b = c \<and> x = y"
proof -
  assume b: "b < 256" "c < 256" and eq: "x * 256 + b = y * 256 + c"
  have "b = c" using arg_cong [OF eq, of "\<lambda>n. n mod 256"] b by simp
  then show ?thesis using eq by simp
qed

lemma SetBytes_inj: "SetBytes a = SetBytes b \<Longrightarrow> length a = 32 \<Longrightarrow> length b = 32 \<Longrightarrow> a = b"
proof -
  assume "SetBytes a = SetBytes b" and len: "length a = 32" "length b = 32"
  moreover have "bytes_to_nat a < 2 ^ 256" "bytes_to_nat b < 2 ^ 256"
    using bytes_to_nat_less [of a] bytes_to_nat_less [of b] len by simp_all
  ultimately have eq: "bytes_to_nat a = bytes_to_nat b"
    by (simp add: SetBytes_def of_nat_eq_iff word_of_nat_eq_iff take_bit_eq_mod)
  have "bytes_to_nat x = bytes_to_nat y \<Longrightarrow> length x = length y \<Longrightarrow> x = y" for x y
  proof (induction x arbitrary: y rule: rev_induct)
    case (snoc b x)
    then obtain c y' where y: "y = y' @ [c]" by (cases y rule: rev_cases) auto
    have "unat b < 256" "unat c < 256" using unsigned_less [of b, where ?'a = nat] unsigned_less [of c, where ?'a = nat] by simp_all
    moreover have "bytes_to_nat x * 256 + unat b = bytes_to_nat y' * 256 + unat c" using snoc.prems(1) y by simp
    ultimately have "unat b = unat c \<and> bytes_to_nat x = bytes_to_nat y'"
      using digit_unique [of "unat b" "unat c"] by blast
    then show ?case using snoc y by (simp add: word_unat_eq_iff)
  qed simp
  then show "a = b" using eq len by simp
qed

section \<open>The encoding of a tree determines the map\<close>

lemma tree_determines: "tree_of s m \<Longrightarrow> tree_of s m' \<Longrightarrow> m = m'"
proof (induction arbitrary: m' rule: tree_of.induct)
  case t_nil
  then show ?case using tree_empty by blast
next
  case (t_leaf k v)
  from t_leaf.prems show ?case by (cases rule: tree_of.cases) auto
next
  case (t_ext k cs fl m)
  from t_ext.prems show ?case by (cases rule: tree_of.cases) (use t_ext.IH in auto)
next
  case (t_full cs ms)
  from t_full.prems obtain ms' where ms': "m' = branch ms'" "leafval (cs ! 16) (ms' 16)"
      "\<And>i. i < 16 \<Longrightarrow> tree_of (cs ! i) (ms' i)" by (rule tree_FullE) blast
  have "ms i = ms' i" if "i < 17" for i
  proof (cases "i = 16")
    case True
    then show ?thesis using ms'(2) t_full.hyps unfolding leafval_def by auto
  next
    case False
    then show ?thesis using t_full.IH [of i] ms'(3) [of i] that by simp
  qed
  then show ?case using ms'(1) by (auto simp: branch_def fun_eq_iff split: list.splits)
qed

text \<open>The encodings of all inner nodes of a tree.\<close>

fun tree_encs :: "(bytes \<Rightarrow> bytes) \<Rightarrow> node \<Rightarrow> bytes set" where
  "tree_encs H (ShortNode k v fl) = insert (rlp (tree_item H (ShortNode k v fl))) (tree_encs H v)"
| "tree_encs H (FullNode cs fl) = insert (rlp (tree_item H (FullNode cs fl))) (\<Union>c \<in> set cs. tree_encs H c)"
| "tree_encs H (HashNode h) = {}"
| "tree_encs H (ValueNode v) = {}"
| "tree_encs H NilNode = {}"

lemma inner_enc: "is_inner s \<Longrightarrow> rlp (tree_item H s) \<in> tree_encs H s \<and> (\<exists>xs. tree_item H s = Lst xs)"
  by (auto simp: is_inner_def)

lemma tree_inner: "tree_of s m \<Longrightarrow> s = NilNode \<or> is_inner s"
  by (cases rule: tree_of.cases) (auto simp: is_inner_def)

lemma nil_not_inner [simp]: "\<not> is_inner NilNode"
  by (simp add: is_inner_def)

lemma ref_item:
  assumes "tree_of s m" "tree_of s' m'" "small m" "small m'" "hash32 H"
    and "inj_on H A" "tree_encs H s \<subseteq> A" "tree_encs H s' \<subseteq> A" "tree_ref H s = tree_ref H s'"
  shows "tree_item H s = tree_item H s'"
proof -
  have h: "H x \<noteq> []" for x using assms(5) unfolding hash32_def by (metis list.size(3) zero_neq_numeral)
  have enc: "rlp (tree_item H s) = rlp (tree_item H s') \<Longrightarrow> tree_item H s = tree_item H s'"
    using rlp_inj length_tree_item [OF assms(5,1,3)] by simp
  consider "s = NilNode" "s' = NilNode" | "is_inner s" "is_inner s'" | "s = NilNode" "is_inner s'" | "is_inner s" "s' = NilNode"
    using tree_inner [OF assms(1)] tree_inner [OF assms(2)] by blast
  then show ?thesis
  proof cases
    case 2
    then have e: "rlp (tree_item H s) \<in> A" "rlp (tree_item H s') \<in> A" using inner_enc assms(7,8) by blast+
    obtain xs xs' where "tree_item H s = Lst xs" "tree_item H s' = Lst xs'" using 2 inner_enc by blast
    then show ?thesis using assms(9) 2 enc inj_onD [OF assms(6) _ e] by (auto simp: tree_ref_inner split: if_splits)
  next
    case 3
    then show ?thesis using assms(9) inner_enc [of s' H] h [of "rlp (tree_item H s')"] by (auto simp: tree_ref_inner split: if_splits)
  next
    case 4
    then show ?thesis using assms(9) inner_enc [of s H] h [of "rlp (tree_item H s)"] by (auto simp: tree_ref_inner split: if_splits)
  qed simp
qed

lemma compact_inj: "tkey k \<or> nibbles k \<Longrightarrow> tkey k' \<or> nibbles k' \<Longrightarrow> compact k = compact k' \<Longrightarrow> k = k'"
  using hexToCompact_key [of k] hexToCompact_key [of k'] by metis

lemma encs_child: "i < length cs \<Longrightarrow> tree_encs H (cs ! i) \<subseteq> tree_encs H (FullNode cs fl)"
  using nth_mem [of i cs] by (auto simp del: nth_mem)

lemma pair_not_17: "length cs = 17 \<Longrightarrow> map f cs \<noteq> [a, b]" "length cs = 17 \<Longrightarrow> [a, b] \<noteq> map f cs"
  by auto

lemma tree_item_inj:
  "tree_of s m \<Longrightarrow> tree_of s' m' \<Longrightarrow> small m \<Longrightarrow> small m' \<Longrightarrow> hash32 H \<Longrightarrow> inj_on H A \<Longrightarrow>
   tree_encs H s \<subseteq> A \<Longrightarrow> tree_encs H s' \<subseteq> A \<Longrightarrow> tree_item H s = tree_item H s' \<Longrightarrow> s = s'"
proof (induction arbitrary: s' m' rule: tree_of.induct)
  case t_nil
  from t_nil.prems(1) show ?case by (cases rule: tree_of.cases) (use t_nil.prems(8) in auto)
next
  case (t_leaf k v)
  from t_leaf.prems(1) show ?case
  proof (cases rule: tree_of.cases)
    case (t_leaf k' v')
    then show ?thesis using t_leaf.prems(8) t_leaf.hyps compact_inj [of k k'] by auto
  next
    case (t_ext k' cs fl m'')
    then have "k = k'" using t_leaf.prems(8) t_leaf.hyps compact_inj [of k k'] by auto
    then show ?thesis using t_ext t_leaf.hyps tkey_not_nibbles [of k "[]"] by auto
  next
    case (t_full cs ms)
    then show ?thesis using t_leaf.prems(8) by (simp add: pair_not_17)
  qed (use t_leaf.prems(8) in auto)
next
  case (t_ext k cs fl m)
  from t_ext.prems(1) show ?case
  proof (cases rule: tree_of.cases)
    case (t_leaf k' v')
    then have "k = k'" using t_ext.prems(8) t_ext.hyps compact_inj [of k k'] by auto
    then show ?thesis using t_leaf t_ext.hyps tkey_not_nibbles [of k "[]"] by auto
  next
    case (t_ext k' cs' fl' m'')
    have k: "k = k'" using t_ext.prems(8) t_ext.hyps t_ext compact_inj [of k k'] by auto
    have sm: "small m" "small m''" using t_ext.prems(2,3) t_ext small_shift by auto
    have ref: "tree_ref H (FullNode cs fl) = tree_ref H (FullNode cs' fl')" using t_ext.prems(8) t_ext(1) by simp
    have sub: "tree_encs H (FullNode cs fl) \<subseteq> A" "tree_encs H (FullNode cs' fl') \<subseteq> A" using t_ext.prems(6,7) t_ext(1) by auto
    have "tree_item H (FullNode cs fl) = tree_item H (FullNode cs' fl')"
      using ref_item [OF t_ext.hyps(2) t_ext(4) sm t_ext.prems(4,5) sub ref] .
    then have "FullNode cs fl = FullNode cs' fl'" using t_ext.IH [OF t_ext(4) sm t_ext.prems(4,5) sub] by simp
    then show ?thesis using k t_ext(1) by simp
  next
    case (t_full cs' ms)
    then show ?thesis using t_ext.prems(8) by (simp add: pair_not_17)
  qed (use t_ext.prems(8) in auto)
next
  case (t_full cs ms)
  from t_full.prems(1) show ?case
  proof (cases rule: tree_of.cases)
    case (t_full cs' ms')
    have refs: "map (tree_ref H) cs = map (tree_ref H) cs'" using t_full.prems(8) t_full(1) by simp
    have "cs ! i = cs' ! i" if i: "i < 17" for i
    proof -
      have ref: "tree_ref H (cs ! i) = tree_ref H (cs' ! i)"
        using arg_cong [OF refs, of "\<lambda>xs. xs ! i"] i t_full.hyps(1) t_full(3) by simp
      show ?thesis
      proof (cases "i = 16")
        case True
        then show ?thesis using ref t_full.hyps(3) t_full(5) by (auto simp: leafval_def split: if_splits)
      next
        case False
        then have i16: "i < 16" using i by simp
        have sm: "small (ms i)" "small (ms' i)" using t_full.prems(2,3) t_full(2) small_branch i by auto
        have sub: "tree_encs H (cs ! i) \<subseteq> A" "tree_encs H (cs' ! i) \<subseteq> A"
          using encs_child [of i cs H noFlag] encs_child [of i cs' H noFlag] t_full.prems(6,7) i
          unfolding t_full(1,3) t_full.hyps(1) by (blast, blast)
        have tr: "tree_of (cs ! i) (ms i)" "tree_of (cs' ! i) (ms' i)" using t_full.hyps t_full i16 by auto
        show ?thesis
          using t_full.IH [OF i16 tr(2) sm t_full.prems(4,5) sub]
            ref_item [OF tr sm t_full.prems(4,5) sub ref] by simp
      qed
    qed
    then have "cs = cs'" using t_full.hyps(1) t_full(3) by (intro nth_equalityI) auto
    then show ?thesis using t_full(1) by simp
  qed (use t_full.prems(8) t_full.hyps(1) in \<open>simp_all add: pair_not_17\<close>)
qed

section \<open>Hashing as an operation\<close>

definition hexmap :: "(bytes \<rightharpoonup> bytes) \<Rightarrow> (bytes \<rightharpoonup> bytes) \<Rightarrow> bool" where
  "hexmap m M \<longleftrightarrow> dom m \<subseteq> range keybytesToHex \<and> M = m \<circ> keybytesToHex"

definition sized :: "(bytes \<rightharpoonup> bytes) \<Rightarrow> bool" where
  "sized M \<longleftrightarrow> (\<forall>k v. M k = Some v \<longrightarrow> length k \<le> 2 ^ 38 \<and> length v \<le> 2 ^ 40)"

definition root_of :: "(bytes \<Rightarrow> bytes) \<Rightarrow> node \<Rightarrow> hash" where
  "root_of H s = (if s = NilNode then EmptyRootHash else SetBytes (H (rlp (tree_item H s))))"

lemma hexmap_unique: "hexmap m M \<Longrightarrow> hexmap m' M \<Longrightarrow> m = m'"
  unfolding hexmap_def
proof (rule ext)
  fix x
  assume m: "dom m \<subseteq> range keybytesToHex \<and> M = m \<circ> keybytesToHex" "dom m' \<subseteq> range keybytesToHex \<and> M = m' \<circ> keybytesToHex"
  show "m x = m' x"
  proof (cases "x \<in> range keybytesToHex")
    case True
    then show ?thesis using m by (metis comp_apply imageE)
  next
    case False
    then show ?thesis using m by (metis domIff subsetD)
  qed
qed

lemma hexmap_small: "hexmap m M \<Longrightarrow> sized M \<Longrightarrow> small m"
  unfolding small_def
proof (intro allI impI)
  fix x v
  assume a: "hexmap m M" "sized M" "m x = Some v"
  then obtain k where k: "x = keybytesToHex k" by (auto simp: hexmap_def)
  then have "M k = Some v" using a by (simp add: hexmap_def)
  then have "length k \<le> 2 ^ 38 \<and> length v \<le> 2 ^ 40" using a(2) by (simp add: sized_def)
  then show "length x \<le> 2 ^ 40 \<and> length v \<le> 2 ^ 40" using k by (simp add: length_keybytesToHex)
qed

lemma Hash_root:
  assumes "trie_models (hash_ok H) t M" "hash32 H" "sized M"
  shows "\<exists>m s t'. hexmap m M \<and> tree_of s m \<and> loads (tReader t) [] (tRoot t) s \<and>
    Trie_Hash H t = Ret (root_of H s, t') \<and> trie_models (hash_ok H) t' M"
proof -
  obtain m where m: "denotes (hash_ok H) (tReader t) [] (tRoot t) m" "hexmap m M"
    using assms(1) by (auto simp: trie_models_def hexmap_def)
  obtain s where s: "loads (tReader t) [] (tRoot t) s" "tree_of s m" using denotes_loads [OF m(1)] by blast
  show ?thesis
  proof (cases "tRoot t = NilNode")
    case True
    then have "s = NilNode" using denotes_empty [OF m(1)] tree_empty [OF s(2)] by simp
    then show ?thesis using True m s assms(1)
      by (intro exI [of _ m] exI [of _ s] exI [of _ t]) (simp add: Trie_Hash_def hashRoot_def root_of_def)
  next
    case False
    then have n: "s \<noteq> NilNode" using denotes_empty [OF m(1)] tree_empty [OF s(2)] by simp
    have "hash_post H (tReader t) [] (tRoot t) m s (hasher_hash H (tRoot t) ([] = ([] :: bytes)))"
      using hash_denotes [OF m(1) assms(2) hexmap_small [OF m(2) assms(3)] False s(2)] .
    then obtain cached where c: "hasher_hash H (tRoot t) True = Ret (HashNode (H (rlp (tree_item H s))), cached)"
        "denotes (hash_ok H) (tReader t) [] cached m"
      by (auto simp: hash_post_def)
    let ?t = "t\<lparr>tRoot := cached, tUnhashed := 0\<rparr>"
    have "trie_models (hash_ok H) ?t M" using c(2) m(2) unfolding trie_models_def hexmap_def by auto
    moreover have "Trie_Hash H t = Ret (root_of H s, ?t)" using False n c(1)
      by (simp add: Trie_Hash_def hashRoot_def root_of_def)
    ultimately show ?thesis using m s by blast
  qed
qed

lemma root_SetBytes:
  assumes "hash32 H" "H [0x80] = Bytes32 EmptyRootHash"
  shows "root_of H s = SetBytes (H (rlp (tree_item H s)))"
  using assms by (simp add: root_of_def rlp_str_def rlp_head_def)

lemma root_item:
  assumes "tree_of s m" "tree_of s' m'" "small m" "small m'" "hash32 H" "H [0x80] = Bytes32 EmptyRootHash"
    and "inj_on H A" "[0x80] \<in> A" "tree_encs H s \<subseteq> A" "tree_encs H s' \<subseteq> A" "root_of H s = root_of H s'"
  shows "tree_item H s = tree_item H s'"
proof -
  have e: "rlp (tree_item H x) \<in> A" if "tree_of x y" "tree_encs H x \<subseteq> A" for x y
    using tree_inner [OF that(1)] inner_enc [of x H] that(2) assms(8) by (auto simp: rlp_str_def rlp_head_def)
  have "SetBytes (H (rlp (tree_item H s))) = SetBytes (H (rlp (tree_item H s')))"
    using assms(11) unfolding root_SetBytes [OF assms(5,6)] .
  then have "H (rlp (tree_item H s)) = H (rlp (tree_item H s'))"
    using assms(5) by (intro SetBytes_inj) (auto simp: hash32_def)
  then have "rlp (tree_item H s) = rlp (tree_item H s')" using inj_onD [OF assms(7)] e assms(1,2,9,10) by blast
  then show ?thesis using rlp_inj length_tree_item [OF assms(5,1,3)] by simp
qed

text \<open>Histories of operations with hashings in between.\<close>

datatype trieCmd = CmdOp trieOp | CmdHash

fun trie_cmd :: "(bytes \<Rightarrow> bytes) \<Rightarrow> nat \<Rightarrow> trieCmd \<Rightarrow> Trie \<Rightarrow> (trieResult \<times> Trie) go" where
  "trie_cmd H fuel (CmdOp x) t = trie_op fuel x t"
| "trie_cmd H fuel CmdHash t = go_bind (Trie_Hash H t) (\<lambda>(h, t). Ret ((None, []), t))"

fun map_cmd :: "trieCmd \<Rightarrow> (bytes \<rightharpoonup> bytes) \<Rightarrow> trieResult \<times> (bytes \<rightharpoonup> bytes)" where
  "map_cmd (CmdOp x) M = map_op x M"
| "map_cmd CmdHash M = ((None, []), M)"

fun op_sized :: "trieOp \<Rightarrow> bool" where
  "op_sized (OpUpdate k v) = (length k \<le> 2 ^ 38 \<and> length v \<le> 2 ^ 40)"
| "op_sized x = True"

fun cmd_fits :: "nat \<Rightarrow> trieCmd \<Rightarrow> bool" where
  "cmd_fits fuel (CmdOp x) = (op_fits fuel x \<and> op_sized x)"
| "cmd_fits fuel CmdHash = True"

lemma sized_op: "sized M \<Longrightarrow> op_sized x \<Longrightarrow> sized (snd (map_op x M))"
  by (cases x) (auto simp: sized_def)

definition hash_models :: "(bytes \<Rightarrow> bytes) \<Rightarrow> Trie \<Rightarrow> (bytes \<rightharpoonup> bytes) \<Rightarrow> bool" where
  "hash_models H t M \<longleftrightarrow> hash32 H \<and> trie_models (hash_ok H) t M \<and> sized M"

lemma hash_models_root:
  assumes "hash_models H t M"
  obtains m s u where "hexmap m M" "tree_of s m" "loads (tReader t) [] (tRoot t) s" "Trie_Hash H t = Ret (root_of H s, u)"
    "hash_models H u M"
  using Hash_root [of H t M] assms unfolding hash_models_def by blast

lemma trie_cmd_models:
  assumes "hash_models H t M" "cmd_fits fuel c"
  shows "\<exists>t'. trie_cmd H fuel c t = Ret (fst (map_cmd c M), t') \<and> hash_models H t' (snd (map_cmd c M))"
proof (cases c)
  case (CmdOp x)
  have "\<exists>t'. trie_op fuel x t = Ret (fst (map_op x M), t') \<and> trie_models (hash_ok H) t' (snd (map_op x M))"
    using assms CmdOp by (intro trie_op_models) (auto simp: hash_models_def new_ok_hash)
  then show ?thesis using assms CmdOp sized_op by (auto simp: hash_models_def)
next
  case CmdHash
  obtain m s u where "Trie_Hash H t = Ret (root_of H s, u)" "hash_models H u M" using assms(1) by (rule hash_models_root)
  then show ?thesis using CmdHash by simp
qed

interpretation trie_hash: simulation "hash_models H" "trie_cmd H fuel" map_cmd "cmd_fits fuel" for H fuel
  by unfold_locales (rule trie_cmd_models)

lemma empty_hash_models: "hash32 H \<Longrightarrow> hash_models H (emptyTrie rd) Map.empty"
  by (simp add: hash_models_def empty_models sized_def)

abbreviation trie_run :: "(bytes \<Rightarrow> bytes) \<Rightarrow> nat \<Rightarrow> trieReader \<Rightarrow> trieCmd list \<Rightarrow> (trieResult list \<times> Trie) go" where
  "trie_run H fuel rd cs \<equiv> go_run (trie_cmd H fuel) cs (emptyTrie rd)"

abbreviation contents :: "trieCmd list \<Rightarrow> (bytes \<rightharpoonup> bytes)" where
  "contents cs \<equiv> snd (abs_run map_cmd cs Map.empty)"

lemma run_models:
  "hash32 H \<Longrightarrow> list_all (cmd_fits fuel) cs \<Longrightarrow>
   \<exists>t. trie_run H fuel rd cs = Ret (fst (abs_run map_cmd cs Map.empty), t) \<and> hash_models H t (contents cs)"
  using trie_hash.run_sim [OF empty_hash_models] by blast

text \<open>
  C21: The root hash is a function of the contents. Take any two histories of gets, updates, deletions and
  hashings of an empty trie that leave the same map: both run through without error, and \<open>Hash\<close>
  returns the same root for the two tries, although they cached different hashes on the way.
\<close>

theorem Trie_root_of_contents:
  assumes "hash32 H" "list_all (cmd_fits fuel) cs" "list_all (cmd_fits fuel) cs'" "contents cs = contents cs'"
  shows "\<exists>rs t u rs' t' u' r. trie_run H fuel rd cs = Ret (rs, t) \<and> Trie_Hash H t = Ret (r, u) \<and>
    trie_run H fuel rd' cs' = Ret (rs', t') \<and> Trie_Hash H t' = Ret (r, u')"
proof -
  obtain t where t: "trie_run H fuel rd cs = Ret (fst (abs_run map_cmd cs Map.empty), t)" "hash_models H t (contents cs)"
    using run_models [OF assms(1,2)] by blast
  obtain t' where t': "trie_run H fuel rd' cs' = Ret (fst (abs_run map_cmd cs' Map.empty), t')" "hash_models H t' (contents cs')"
    using run_models [OF assms(1,3)] by blast
  obtain m s u where s: "hexmap m (contents cs)" "tree_of s m" "Trie_Hash H t = Ret (root_of H s, u)"
    using t(2) by (rule hash_models_root)
  obtain m' s' u' where s': "hexmap m' (contents cs')" "tree_of s' m'" "Trie_Hash H t' = Ret (root_of H s', u')"
    using t'(2) by (rule hash_models_root)
  have "s = s'" using hexmap_unique s s' assms(4) tree_unique by metis
  then show ?thesis using t t' s s' by blast
qed

theorem Trie_root_of_contents_witness:
  "\<exists>H rs t u rs' t' u' r. trie_run H 8 newEmptyReader
       [CmdOp (OpUpdate [1] [7]), CmdHash, CmdOp (OpUpdate [2] [9]), CmdOp (OpDelete [1])] = Ret (rs, t) \<and>
     Trie_Hash H t = Ret (r, u) \<and>
     trie_run H 8 newEmptyReader [CmdOp (OpUpdate [2] [9])] = Ret (rs', t') \<and> Trie_Hash H t' = Ret (r, u')"
  using Trie_root_of_contents [of "\<lambda>x. nat_to_bytes 32 (length x)" 8
      "[CmdOp (OpUpdate [1] [7]), CmdHash, CmdOp (OpUpdate [2] [9]), CmdOp (OpDelete [1])]" "[CmdOp (OpUpdate [2] [9])]"
      newEmptyReader newEmptyReader]
  by (fastforce simp: hash32_def fun_upd_twist simp del: fun_upd_apply)

lemma loads_unique: "loads rd p n s \<Longrightarrow> loads rd p n s' \<Longrightarrow> s = s'"
proof (induction arbitrary: s' rule: loads.induct)
  case (l_short p k n s fl)
  from l_short.prems show ?case by (cases rule: loads.cases) (use l_short.IH in auto)
next
  case (l_full cs ss p fl)
  from l_full.prems obtain ss' where ss': "s' = FullNode ss' noFlag" "length ss' = 17"
      "\<And>i. i < 17 \<Longrightarrow> loads rd (p @ [word_of_nat i]) (cs ! i) (ss' ! i)"
    by (cases rule: loads.cases) auto
  then show ?case using l_full.IH l_full.hyps(2) by (auto intro!: nth_equalityI)
next
  case (l_hash p h n s)
  from l_hash.prems obtain n' where "stored rd p h n'" "loads rd p n' s'" by (cases rule: loads.cases) auto
  moreover have "n' = n" using calculation(1) l_hash.hyps(1) by (auto simp: stored_def)
  ultimately show ?case using l_hash.IH by simp
qed (auto elim: loads.cases)

text \<open>
  C8: The root hash commits to the contents. If \<open>Hash\<close> returns the same root for the tries of two histories,
  then the two histories leave the same map, provided \<open>H\<close> does not collide on the encodings of the
  nodes of these two tries and of the empty string, whose hash is \<open>EmptyRootHash\<close>.
\<close>

theorem Trie_root_binds:
  assumes "hash32 H" "H [0x80] = Bytes32 EmptyRootHash" "list_all (cmd_fits fuel) cs" "list_all (cmd_fits fuel) cs'"
    and "trie_run H fuel rd cs = Ret (rs, t)" "trie_run H fuel rd' cs' = Ret (rs', t')"
    and "loads (tReader t) [] (tRoot t) s" "loads (tReader t') [] (tRoot t') s'"
    and "inj_on H ({[0x80]} \<union> tree_encs H s \<union> tree_encs H s')"
    and "Trie_Hash H t = Ret (r, u)" "Trie_Hash H t' = Ret (r, u')"
  shows "contents cs = contents cs'"
proof -
  let ?A = "{[0x80]} \<union> tree_encs H s \<union> tree_encs H s'"
  have t: "hash_models H t (contents cs)" "hash_models H t' (contents cs')"
    using run_models [OF assms(1,3), of rd] run_models [OF assms(1,4), of rd'] assms(5,6) by auto
  obtain m where m: "hexmap m (contents cs)" "tree_of s m" "r = root_of H s"
    using hash_models_root [OF t(1)] assms(7,10) loads_unique [OF assms(7)] by (metis Pair_inject go.inject(1))
  obtain m' where m': "hexmap m' (contents cs')" "tree_of s' m'" "r = root_of H s'"
    using hash_models_root [OF t(2)] assms(8,11) loads_unique [OF assms(8)] by (metis Pair_inject go.inject(1))
  have sm: "small m" "small m'" using t m m' hexmap_small by (auto simp: hash_models_def)
  have "s = s'"
  proof (rule tree_item_inj [OF m(2) m'(2) sm assms(1,9)])
    show "tree_item H s = tree_item H s'"
      using root_item [OF m(2) m'(2) sm assms(1,2,9)] m(3) m'(3) by auto
  qed auto
  then show ?thesis using tree_determines [OF m(2)] m m' by (auto simp: hexmap_def)
qed

theorem Trie_root_binds_witness:
  "contents [CmdOp (OpUpdate [1] [7])] = contents [CmdOp (OpUpdate [1] [7]), CmdHash]"
proof -
  define H :: "bytes \<Rightarrow> bytes" where "H = (\<lambda>x. if x = [0x80] then Bytes32 EmptyRootHash else Bytes32 0)"
  have h: "hash32 H" "H [0x80] = Bytes32 EmptyRootHash" by (auto simp: hash32_def H_def Bytes32_def)
  let ?k = "keybytesToHex [1]" 
  let ?s = "ShortNode ?k (ValueNode [7]) noFlag"
  obtain t where t: "trie_run H 8 newEmptyReader [CmdOp (OpUpdate [1] [7])] = Ret ([(None, [])], t)"
      "hash_models H t (contents [CmdOp (OpUpdate [1] [7])])"
    using run_models [OF h(1), of 8 "[CmdOp (OpUpdate [1] [7])]" newEmptyReader] by auto
  obtain m s u where s: "hexmap m (contents [CmdOp (OpUpdate [1] [7])])" "tree_of s m" "loads (tReader t) [] (tRoot t) s"
      "Trie_Hash H t = Ret (root_of H s, u)" "hash_models H u (contents [CmdOp (OpUpdate [1] [7])])"
    using t(2) by (rule hash_models_root)
  obtain m' s' u' where s': "hexmap m' (contents [CmdOp (OpUpdate [1] [7])])" "tree_of s' m'" "loads (tReader u) [] (tRoot u) s'"
      "Trie_Hash H u = Ret (root_of H s', u')"
    using s(5) by (rule hash_models_root)
  have run': "trie_run H 8 newEmptyReader [CmdOp (OpUpdate [1] [7]), CmdHash] = Ret ([(None, []), (None, [])], u)"
    using t(1) s(4) by auto
  have "hexmap [?k \<mapsto> [7]] (contents [CmdOp (OpUpdate [1] [7])])" by (auto simp: hexmap_def fun_eq_iff keybytesToHex_inj)
  then have "m = [?k \<mapsto> [7]]" by (rule hexmap_unique [OF s(1)])
  moreover have "tkey ?k" by (simp add: keybytesToHex_nibs tkey_def nibbles_nibs)
  ultimately have eq: "s = ?s" using tree_unique [OF s(2)] t_leaf by blast
  have eq': "s' = s" using tree_unique hexmap_unique s s' by metis
  show ?thesis
  proof (rule Trie_root_binds [OF h _ _ t(1) run' s(3) s'(3)])
    have "rlp (tree_item H ?s) \<noteq> [0x80]" by (simp add: rlp_lst_def rlp_head_def rlp_str_nonempty)
    moreover have "Bytes32 EmptyRootHash \<noteq> Bytes32 0"
    proof
      assume "Bytes32 EmptyRootHash = Bytes32 0"
      from arg_cong [OF this, of SetBytes] show False by (simp only: SetBytes_Bytes32) (simp add: EmptyRootHash_def)
    qed
    ultimately show "inj_on H ({[0x80]} \<union> tree_encs H s \<union> tree_encs H s')" unfolding eq eq' by (auto simp: inj_on_def H_def)
    show "Trie_Hash H t = Ret (root_of H s, u)" "Trie_Hash H u = Ret (root_of H s, u')" using s s' eq' by simp_all
  qed simp_all
qed

end
