(* ===== verification/Stack_Trie.thy ===== *)
theory Stack_Trie
  imports Trie_Root
begin

text \<open>
  The stack trie (\<^verbatim>\<open>client/trie/stacktrie.go\<close>, the raw nodes of \<^verbatim>\<open>client/trie/node_enc.go\<close>): a trie for keys inserted in order, which hashes
  a subtree as soon as no later key can reach it. All nodes of a stack trie share the owner and the write
  function of its root, so they are not repeated in the nodes; the calls of the write function are returned as the list of their
  arguments (path, hash, blob), and a trie without one ignores them. The pool of nodes is not modelled: a node taken
  from it is in the state \<open>Reset\<close> leaves it in.

  The facts: fed with keys in order, none a prefix of another, a stack trie never panics and represents the map of
  what was inserted (\<open>st_models\<close>), and its hash is the root of that map.
\<close>

section \<open>Raw nodes\<close>

datatype rawVal = RawNode bytes | RawHash bytes | RawValue bytes

fun raw_encode :: "rawVal \<Rightarrow> encBuffer \<Rightarrow> encBuffer" where
  "raw_encode (RawNode b) w = eb_Write b w"
| "raw_encode (RawHash h) w = eb_writeBytes h w"
| "raw_encode (RawValue v) w = eb_writeBytes v w"

definition rawShort_encode :: "bytes \<Rightarrow> rawVal \<Rightarrow> encBuffer \<Rightarrow> encBuffer go" where
  "rawShort_encode key val w = (let (offset, w) = eb_list w in eb_listEnd offset (raw_encode val (eb_writeBytes key w)))"

fun raw_children :: "rawVal option list \<Rightarrow> encBuffer \<Rightarrow> encBuffer" where
  "raw_children [] w = w"
| "raw_children (c # cs) w = raw_children cs (case c of Some c \<Rightarrow> raw_encode c w | None \<Rightarrow> eb_Write [0x80] w)"

definition rawFull_encode :: "rawVal option list \<Rightarrow> encBuffer \<Rightarrow> encBuffer go" where
  "rawFull_encode nodes w = (let (offset, w) = eb_list w in eb_listEnd offset (raw_children nodes w))"

section \<open>The stack trie\<close>

datatype stType = emptyNode | branchNode | extNode | leafNode | hashedNode

datatype StackTrie = StackTrie (nodeType: stType) (stKey: bytes) (stVal: bytes) (stChildren: "StackTrie option list")

type_synonym stWrite = "bytes \<times> bytes \<times> bytes"

definition NewStackTrie :: StackTrie where
  "NewStackTrie = StackTrie emptyNode [] [] (replicate 16 None)"

definition StackTrie_Reset :: "StackTrie \<Rightarrow> StackTrie" where
  "StackTrie_Reset st = StackTrie emptyNode [] [] (replicate 16 None)"

definition newLeaf :: "bytes \<Rightarrow> bytes \<Rightarrow> StackTrie" where
  "newLeaf key val = StackTrie leafNode key val (replicate 16 None)"

definition newExt :: "bytes \<Rightarrow> StackTrie \<Rightarrow> StackTrie" where
  "newExt key c = StackTrie extNode key [] (Some c # replicate 15 None)"

text \<open>Writing a slot of the array of children.\<close>

definition put_child :: "StackTrie option list \<Rightarrow> u8 \<Rightarrow> StackTrie \<Rightarrow> StackTrie option list go" where
  "put_child cs i c = (if unat i < length cs then Ret (cs[unat i := Some c]) else Panic ''index out of range'')"

fun getDiffIndex :: "bytes \<Rightarrow> bytes \<Rightarrow> nat go" where
  "getDiffIndex [] key = Ret 0"
| "getDiffIndex (nibble # rest) [] = Panic ''index out of range''"
| "getDiffIndex (nibble # rest) (x # key) =
     (if nibble \<noteq> x then Ret 0 else go_bind (getDiffIndex rest key) (\<lambda>n. Ret (n + 1)))"

definition childVal :: "StackTrie \<Rightarrow> rawVal" where
  "childVal c = (if length (stVal c) < 32 then RawNode (stVal c) else RawHash (stVal c))"

text \<open>The end of \<open>hashRec\<close>: a short encoding is kept, a long one is hashed and written.\<close>

definition st_seal :: "(bytes \<Rightarrow> bytes) \<Rightarrow> bytes \<Rightarrow> StackTrie option list \<Rightarrow> stWrite list \<Rightarrow> encBuffer go \<Rightarrow> (StackTrie \<times> stWrite list) go" where
  "st_seal H path cs ws w = go_bind w (\<lambda>w. go_bind (makeBytes w) (\<lambda>encodedNode.
     if length encodedNode < 32 then Ret (StackTrie hashedNode [] encodedNode cs, ws)
     else Ret (StackTrie hashedNode [] (H encodedNode) cs, ws @ [(path, H encodedNode, encodedNode)])))"

fun hashRec :: "(bytes \<Rightarrow> bytes) \<Rightarrow> StackTrie \<Rightarrow> bytes \<Rightarrow> (StackTrie \<times> stWrite list) go"
and hashRec_children :: "(bytes \<Rightarrow> bytes) \<Rightarrow> nat \<Rightarrow> StackTrie option list \<Rightarrow> bytes \<Rightarrow> (rawVal list \<times> stWrite list) go" where
  "hashRec H (StackTrie ty key val cs) path = (case ty of
     hashedNode \<Rightarrow> Ret (StackTrie ty key val cs, [])
   | emptyNode \<Rightarrow> Ret (StackTrie hashedNode [] (Bytes32 EmptyRootHash) cs, [])
   | branchNode \<Rightarrow> go_bind (hashRec_children H 0 cs path) (\<lambda>(nodes, ws).
       st_seal H path (map (\<lambda>_. None) cs) ws (rawFull_encode (map Some nodes @ [None]) eb_reset))
   | extNode \<Rightarrow> (case cs of
       Some c # rest \<Rightarrow> go_bind (hashRec H c (path @ key)) (\<lambda>(c, ws).
         go_bind (hexToCompact key) (\<lambda>ck. st_seal H path (None # rest) ws (rawShort_encode ck (childVal c) eb_reset)))
     | _ \<Rightarrow> Panic ''invalid memory address or nil pointer dereference'')
   | leafNode \<Rightarrow> go_bind (hexToCompact (key @ [16])) (\<lambda>ck. st_seal H path cs [] (rawShort_encode ck (RawValue val) eb_reset)))"
| "hashRec_children H i [] path = Ret ([], [])"
| "hashRec_children H i (None # cs) path =
     go_bind (hashRec_children H (i + 1) cs path) (\<lambda>(nodes, ws). Ret (RawValue [] # nodes, ws))"
| "hashRec_children H i (Some c # cs) path =
     go_bind (hashRec H c (path @ [word_of_nat i])) (\<lambda>(c, ws).
     go_bind (hashRec_children H (i + 1) cs path) (\<lambda>(nodes, ws'). Ret (childVal c # nodes, ws @ ws')))"

text \<open>The loop of a branch over the elder siblings of slot \<open>i\<close>.\<close>

fun unresolve :: "(bytes \<Rightarrow> bytes) \<Rightarrow> StackTrie option list \<Rightarrow> nat \<Rightarrow> bytes \<Rightarrow> (StackTrie option list \<times> stWrite list) go" where
  "unresolve H cs 0 prefix = Ret (cs, [])"
| "unresolve H cs (Suc i) prefix =
    (if length cs \<le> i then Panic ''index out of range''
     else case cs ! i of
       None \<Rightarrow> unresolve H cs i prefix
     | Some c \<Rightarrow>
         if nodeType c \<noteq> hashedNode
         then go_bind (hashRec H c (prefix @ [word_of_nat i])) (\<lambda>(c, ws). Ret (cs[i := Some c], ws))
         else Ret (cs, []))"

text \<open>The split of an extension, and of a leaf, at index \<open>d\<close> of its key.\<close>

definition split_ext :: "(bytes \<Rightarrow> bytes) \<Rightarrow> bytes \<Rightarrow> bytes \<Rightarrow> StackTrie option list \<Rightarrow> nat \<Rightarrow> bytes \<Rightarrow> bytes \<Rightarrow> bytes \<Rightarrow> (StackTrie \<times> stWrite list) go" where
  "split_ext H skey sval cs d key val prefix = (case cs of
     Some c # rest \<Rightarrow>
       go_bind (if d < length skey - 1 then hashRec H (newExt (drop (d + 1) skey) c) (prefix @ take (d + 1) skey)
                else hashRec H c (prefix @ skey)) (\<lambda>(n, ws).
       let orig = skey ! d; new = newLeaf (drop (d + 1) key) val; pcs = (if d = 0 then None # rest else replicate 16 None)
       in go_bind (put_child pcs orig n) (\<lambda>pcs. go_bind (put_child pcs (key ! d) new) (\<lambda>pcs.
            if d = 0 then Ret (StackTrie branchNode (take d skey) sval pcs, ws)
            else Ret (StackTrie extNode (take d skey) sval (Some (StackTrie branchNode [] [] pcs) # rest), ws))))
   | _ \<Rightarrow> Panic ''invalid memory address or nil pointer dereference'')"

definition split_leaf :: "(bytes \<Rightarrow> bytes) \<Rightarrow> bytes \<Rightarrow> bytes \<Rightarrow> StackTrie option list \<Rightarrow> nat \<Rightarrow> bytes \<Rightarrow> bytes \<Rightarrow> bytes \<Rightarrow> (StackTrie \<times> stWrite list) go" where
  "split_leaf H skey sval cs d key val prefix =
    (if length skey \<le> d then Panic ''Trying to insert into existing key''
     else let pcs = (if d = 0 then cs[0 := None] else replicate 16 None)
       in go_bind (hashRec H (newLeaf (drop (d + 1) skey) sval) (prefix @ take (d + 1) skey)) (\<lambda>(n, ws).
          go_bind (put_child pcs (skey ! d) n) (\<lambda>pcs.
          go_bind (put_child pcs (key ! d) (newLeaf (drop (d + 1) key) val)) (\<lambda>pcs.
            if d = 0 then Ret (StackTrie branchNode (take d skey) [] pcs, ws)
            else Ret (StackTrie extNode (take d skey) [] (cs[0 := Some (StackTrie branchNode [] [] pcs)]), ws)))))"

lemma child_size: "i < length cs \<Longrightarrow> cs ! i = Some c \<Longrightarrow> size c < size_list (size_option size) cs"
  by (metis less_add_same_cancel1 nth_mem option.size_gen(2) size_list_estimation zero_less_one lessI)

function st_insert :: "(bytes \<Rightarrow> bytes) \<Rightarrow> StackTrie \<Rightarrow> bytes \<Rightarrow> bytes \<Rightarrow> bytes \<Rightarrow> (StackTrie \<times> stWrite list) go" where
  "st_insert H (StackTrie ty skey sval cs) key val prefix = (case ty of
     branchNode \<Rightarrow>
       (if key = [] then Panic ''index out of range''
        else go_bind (unresolve H cs (unat (key ! 0)) prefix) (\<lambda>(cs', ws).
          let idx = unat (key ! 0)
          in if length cs \<le> idx then Panic ''index out of range''
             else case cs ! idx of
               None \<Rightarrow> Ret (StackTrie ty skey sval (cs'[idx := Some (newLeaf (drop 1 key) val)]), ws)
             | Some c \<Rightarrow> go_bind (st_insert H c (drop 1 key) val (prefix @ [key ! 0])) (\<lambda>(c, ws').
                 Ret (StackTrie ty skey sval (cs'[idx := Some c]), ws @ ws'))))
   | extNode \<Rightarrow> go_bind (getDiffIndex skey key) (\<lambda>diffidx.
       if diffidx = length skey
       then (case cs of
          Some c # rest \<Rightarrow> go_bind (st_insert H c (drop diffidx key) val (prefix @ take diffidx key)) (\<lambda>(c, ws).
            Ret (StackTrie ty skey sval (Some c # rest), ws))
        | _ \<Rightarrow> Panic ''invalid memory address or nil pointer dereference'')
       else split_ext H skey sval cs diffidx key val prefix)
   | leafNode \<Rightarrow> go_bind (getDiffIndex skey key) (\<lambda>diffidx. split_leaf H skey sval cs diffidx key val prefix)
   | emptyNode \<Rightarrow> Ret (StackTrie leafNode key val cs, [])
   | hashedNode \<Rightarrow> Panic ''trying to insert into hash'')"
  by pat_completeness auto
termination
  by (relation "measure (\<lambda>(H, st, _). size st)") (auto simp: not_le less_SucI dest: child_size)

definition StackTrie_Update :: "(bytes \<Rightarrow> bytes) \<Rightarrow> bytes \<Rightarrow> bytes \<Rightarrow> StackTrie \<Rightarrow> (StackTrie \<times> stWrite list) go" where
  "StackTrie_Update H key val st = (let k = keybytesToHex key in
     if length val = 0 then Panic ''deletion not supported''
     else st_insert H st (take (length k - 1) k) val [])"

definition StackTrie_Hash :: "(bytes \<Rightarrow> bytes) \<Rightarrow> StackTrie \<Rightarrow> (hash \<times> StackTrie \<times> stWrite list) go" where
  "StackTrie_Hash H st = go_bind (hashRec H st []) (\<lambda>(st, ws).
     if length (stVal st) = 32 then Ret (SetBytes (stVal st), st, ws)
     else Ret (SetBytes (H (stVal st)), st, ws))"

text \<open>\<open>Commit\<close>; the flag says whether there is a write function, and \<open>None\<close> is \<open>ErrCommitDisabled\<close>.\<close>

definition StackTrie_Commit :: "(bytes \<Rightarrow> bytes) \<Rightarrow> bool \<Rightarrow> StackTrie \<Rightarrow> (hash option \<times> StackTrie \<times> stWrite list) go" where
  "StackTrie_Commit H writer st =
    (if \<not> writer then Ret (None, st, [])
     else go_bind (hashRec H st []) (\<lambda>(st, ws).
       if length (stVal st) = 32 then Ret (Some (SetBytes (stVal st)), st, ws)
       else let h = H (stVal st) in Ret (Some (SetBytes h), st, ws @ [([], h, stVal st)])))"

section \<open>Encodings\<close>

text \<open>What a hashed node keeps of the tree it stood for.\<close>

definition enc_val :: "(bytes \<Rightarrow> bytes) \<Rightarrow> node \<Rightarrow> bytes" where
  "enc_val H s = (let e = rlp (tree_item H s) in if length e < 32 then e else H e)"

lemma raw_encode_val:
  assumes "stVal c = enc_val H s" "is_inner s" "hash32 H"
  shows "emits w (raw_encode (childVal c) w) (rlp (tree_ref H s))"
proof -
  have "length (H x) = 32" for x using assms(3) by (simp add: hash32_def)
  then show ?thesis using assms(1,2) emits_writeBytes [of "H (rlp (tree_item H s))" w]
    by (auto simp: childVal_def enc_val_def tree_ref_inner Let_def)
qed

definition hash_result :: "(bytes \<Rightarrow> bytes) \<Rightarrow> node \<Rightarrow> (StackTrie \<times> stWrite list) go \<Rightarrow> bool" where
  "hash_result H s r \<longleftrightarrow> (\<exists>cs ws. r = Ret (StackTrie hashedNode [] (enc_val H s) cs, ws))"

lemma st_seal_ok:
  assumes "emits eb_reset w (rlp (tree_item H s))" "length (rlp (tree_item H s)) < 2 ^ 64"
  shows "hash_result H s (st_seal H path cs ws (Ret w))"
  using makeBytes_emits [OF assms(1)] assms(2) by (auto simp: st_seal_def enc_val_def Let_def hash_result_def)

lemma rawShort_ok:
  assumes "emits (eb_writeBytes k (snd (eb_list w))) (raw_encode v (eb_writeBytes k (snd (eb_list w)))) e"
    and "length k < 2 ^ 64" "length (rlp_str k @ e) < 2 ^ 64"
  shows "\<exists>w'. rawShort_encode k v w = Ret w' \<and> emits w w' (rlp_lst (rlp_str k @ e))"
proof -
  obtain i w1 where i: "eb_list w = (i, w1)" by (cases "eb_list w")
  have "emits w1 (raw_encode v (eb_writeBytes k w1)) (rlp_str k @ e)"
    using emits_trans [OF emits_writeBytes [OF assms(2)]] assms(1) i by simp
  then show ?thesis using emits_list [of w "raw_encode v (eb_writeBytes k w1)" "rlp_str k @ e"] i assms(3)
    by (auto simp: rawShort_encode_def)
qed

lemma rawFull_ok:
  assumes "emits (snd (eb_list w)) (raw_children cs (snd (eb_list w))) e" "length e < 2 ^ 64"
  shows "\<exists>w'. rawFull_encode cs w = Ret w' \<and> emits w w' (rlp_lst e)"
  using emits_list [of w "raw_children cs (snd (eb_list w))" e] assms
  by (cases "eb_list w") (auto simp: rawFull_encode_def)

section \<open>The map of a stack trie\<close>

inductive st_models :: "(bytes \<Rightarrow> bytes) \<Rightarrow> StackTrie \<Rightarrow> (bytes \<rightharpoonup> bytes) \<Rightarrow> bool" for H where
  sm_leaf: "nibbles k \<Longrightarrow> v \<noteq> [] \<Longrightarrow> st_models H (StackTrie leafNode k v (replicate 16 None)) [k @ [16] \<mapsto> v]"
| sm_ext: "k \<noteq> [] \<Longrightarrow> nibbles k \<Longrightarrow> nodeType c = branchNode \<Longrightarrow> st_models H c m \<Longrightarrow>
    st_models H (StackTrie extNode k v (Some c # replicate 15 None)) (shift k m)"
| sm_branch: "length cs = 16 \<Longrightarrow> (\<And>i. i < 16 \<Longrightarrow> cs ! i = None \<Longrightarrow> ms i = Map.empty) \<Longrightarrow>
    (\<And>i c. i < 16 \<Longrightarrow> cs ! i = Some c \<Longrightarrow> st_models H c (ms i)) \<Longrightarrow>
    a < b \<Longrightarrow> b < 16 \<Longrightarrow> cs ! a \<noteq> None \<Longrightarrow> cs ! b \<noteq> None \<Longrightarrow> ms 16 = Map.empty \<Longrightarrow>
    st_models H (StackTrie branchNode [] v cs) (branch ms)"
| sm_hashed: "tree_of s m \<Longrightarrow> is_inner s \<Longrightarrow> st_models H (StackTrie hashedNode [] (enc_val H s) cs) m"

lemma st_models_tree:
  "st_models H st m \<Longrightarrow> \<exists>s. tree_of s m \<and> is_inner s \<and> (nodeType st = branchNode \<longrightarrow> (\<exists>cs. s = FullNode cs noFlag))"
proof (induction rule: st_models.induct)
  case (sm_leaf k v)
  then show ?case
    by (intro exI [of _ "ShortNode (k @ [16]) (ValueNode v) noFlag"]) (auto simp: is_inner_def tkey_def simp del: fun_upd_apply intro: t_leaf)
next
  case (sm_ext k c m v)
  then obtain cs where "tree_of (FullNode cs noFlag) m" by auto
  then have "tree_of (ShortNode k (FullNode cs noFlag) noFlag) (shift k m)" using sm_ext.hyps by (intro t_ext)
  then show ?case by (auto simp: is_inner_def)
next
  case (sm_branch cs ms a b v)
  have "\<exists>s. tree_of s (ms i) \<and> (s = NilNode \<longleftrightarrow> cs ! i = None)" if "i < 16" for i
  proof (cases "cs ! i")
    case None
    then show ?thesis using sm_branch.hyps(2) [OF that None] t_nil by auto
  next
    case (Some c)
    then show ?thesis using sm_branch.IH [OF that Some] by (auto simp: is_inner_def)
  qed
  then obtain f where f: "\<And>i. i < 16 \<Longrightarrow> tree_of (f i) (ms i)" "\<And>i. i < 16 \<Longrightarrow> f i = NilNode \<longleftrightarrow> cs ! i = None" by metis
  let ?ss = "map f [0..<16] @ [NilNode]"
  have "two_children ?ss" unfolding two_children_def
    using sm_branch.hyps f(2) by (intro exI [of _ a] exI [of _ b]) (auto simp: nth_append)
  then have "tree_of (FullNode ?ss noFlag) (branch ms)"
    using f(1) sm_branch.hyps by (intro t_full) (auto simp: nth_append leafval_def)
  then show ?case by (auto simp: is_inner_def)
next
  case (sm_hashed s m cs)
  then show ?case by auto
qed

lemma st_models_nonempty: "st_models H st m \<Longrightarrow> \<exists>x v. m x = Some v"
  using st_models_tree [of H st m] tree_empty [of _ m] by (fastforce simp: is_inner_def)

section \<open>Hashing\<close>

lemma hashRec_children_ok:
  assumes "\<And>i c path. i < length cs \<Longrightarrow> cs ! i = Some c \<Longrightarrow> is_inner (ss i) \<and> hash_result H (ss i) (hashRec H c path)"
    and "\<And>i. i < length cs \<Longrightarrow> cs ! i = None \<Longrightarrow> ss i = NilNode" "hash32 H"
  shows "\<exists>nodes ws. hashRec_children H j cs path = Ret (nodes, ws) \<and>
    (\<forall>w. emits w (raw_children (map Some nodes @ [None]) w) (concat (map (\<lambda>i. rlp (tree_ref H (ss i))) [0..<length cs]) @ [0x80]))"
  using assms
proof (induction cs arbitrary: j ss)
  case Nil
  then show ?case using emits_Write [of _ "[0x80]"] by simp
next
  case (Cons c cs)
  have up: "[0..<length (c # cs)] = 0 # map Suc [0..<length cs]" by (simp add: map_Suc_upt upt_conv_Cons del: upt_Suc)
  have "\<exists>nodes ws. hashRec_children H (j + 1) cs path = Ret (nodes, ws) \<and>
      (\<forall>w. emits w (raw_children (map Some nodes @ [None]) w) (concat (map (\<lambda>i. rlp (tree_ref H (ss (Suc i)))) [0..<length cs]) @ [0x80]))"
    using Cons.prems(1) [of "Suc _"] Cons.prems(2) [of "Suc _"] by (intro Cons.IH) (auto simp: assms(3))
  then obtain nodes ws where n: "hashRec_children H (j + 1) cs path = Ret (nodes, ws)"
      "\<And>w. emits w (raw_children (map Some nodes @ [None]) w) (concat (map (\<lambda>i. rlp (tree_ref H (ss (Suc i)))) [0..<length cs]) @ [0x80])"
    by blast
  show ?case
  proof (cases c)
    case None
    then have "ss 0 = NilNode" using Cons.prems(2) [of 0] by simp
    then have "emits w (raw_encode (RawValue []) w) (rlp (tree_ref H (ss 0)))" for w
      using emits_writeBytes [of "[]" w] by simp
    then show ?thesis using n None emits_trans [OF _ n(2)] unfolding up by (fastforce simp: comp_def)
  next
    case (Some x)
    then obtain cs' ws' where h: "is_inner (ss 0)" "hashRec H x (path @ [word_of_nat j]) = Ret (StackTrie hashedNode [] (enc_val H (ss 0)) cs', ws')"
      using Cons.prems(1) [of 0 x "path @ [word_of_nat j]"] by (auto simp: hash_result_def)
    have "emits w (raw_encode (childVal (StackTrie hashedNode [] (enc_val H (ss 0)) cs')) w) (rlp (tree_ref H (ss 0)))" for w
      using h(1) assms(3) by (intro raw_encode_val) auto
    then show ?thesis using n h Some emits_trans [OF _ n(2)] unfolding up by (fastforce simp: comp_def)
  qed
qed

lemma hashRec_ok:
  "st_models H st m \<Longrightarrow> hash32 H \<Longrightarrow> small m \<Longrightarrow> tree_of s m \<Longrightarrow> hash_result H s (hashRec H st path)"
proof (induction arbitrary: s path rule: st_models.induct)
  case (sm_leaf k v)
  have tk: "tkey (k @ [16])" using sm_leaf.hyps by (auto simp: tkey_def)
  have s: "s = ShortNode (k @ [16]) (ValueNode v) noFlag"
    using tree_unique [OF sm_leaf.prems(3)] t_leaf [OF tk sm_leaf.hyps(2)] by blast
  have len: "length (rlp (tree_item H s)) < 2 ^ 64" using length_tree_item [OF sm_leaf.prems(1,3,2)] by simp
  then have l: "length (rlp_str (compact (k @ [16])) @ rlp_str v) < 2 ^ 64"
    using s length_rlp_lst [of "rlp_str (compact (k @ [16])) @ rlp_str v"] by simp
  have c: "hexToCompact (k @ [16]) = Ret (compact (k @ [16]))" using hexToCompact_key tk by blast
  have lens: "length (compact (k @ [16])) < 2 ^ 64" "length v < 2 ^ 64"
    using l by (auto simp: rlp_str_def split: if_splits)
  obtain w' where "rawShort_encode (compact (k @ [16])) (RawValue v) eb_reset = Ret w'"
      "emits eb_reset w' (rlp_lst (rlp_str (compact (k @ [16])) @ rlp_str v))"
    using rawShort_ok [OF _ lens(1) l, of eb_reset "RawValue v"] emits_writeBytes [OF lens(2)] by auto
  then show ?case using st_seal_ok [OF _ len, of w'] c s by (simp del: upt_Suc)
next
  case (sm_ext k c m v)
  obtain cs where cs: "tree_of (FullNode cs noFlag) m" using st_models_tree [OF sm_ext.hyps(4)] sm_ext.hyps(3) by auto
  let ?t = "FullNode cs noFlag" and ?k = "compact k"
  have s: "s = ShortNode k ?t noFlag" using tree_unique [OF sm_ext.prems(3)] t_ext [OF sm_ext.hyps(1) cs sm_ext.hyps(2)] by blast
  have len: "length (rlp (tree_item H s)) < 2 ^ 64" using length_tree_item [OF sm_ext.prems(1,3,2)] by simp
  then have l: "length (rlp_str ?k @ rlp (tree_ref H ?t)) < 2 ^ 64"
    using s length_rlp_lst [of "rlp_str ?k @ rlp (tree_ref H ?t)"] by simp
  have lens: "length ?k < 2 ^ 64" using l by (auto simp: rlp_str_def split: if_splits)
  have k: "hexToCompact k = Ret ?k" using hexToCompact_key sm_ext.hyps by blast
  have "small m" using sm_ext.prems(2) by (rule small_shift)
  then obtain cs' ws where r: "hashRec H c (path @ k) = Ret (StackTrie hashedNode [] (enc_val H ?t) cs', ws)"
    using sm_ext.IH [OF sm_ext.prems(1) _ cs] unfolding hash_result_def by blast
  have "emits w (raw_encode (childVal (StackTrie hashedNode [] (enc_val H ?t) cs')) w) (rlp (tree_ref H ?t))" for w
    using sm_ext.prems(1) by (intro raw_encode_val) (auto simp: is_inner_def)
  then obtain w' where "rawShort_encode ?k (childVal (StackTrie hashedNode [] (enc_val H ?t) cs')) eb_reset = Ret w'"
      "emits eb_reset w' (rlp_lst (rlp_str ?k @ rlp (tree_ref H ?t)))"
    using rawShort_ok [OF _ lens l] by blast
  then show ?case using st_seal_ok [OF _ len, of w'] r k s by simp
next
  case (sm_branch cs ms a b v)
  have st: "st_models H (StackTrie branchNode [] v cs) (branch ms)" using sm_branch.hyps by (intro st_models.sm_branch)
  obtain ss where s: "s = FullNode ss noFlag" using st_models_tree [OF st] tree_unique [OF sm_branch.prems(3)] by auto
  obtain ms' where ms': "branch ms = branch ms'" "length ss = 17" "leafval (ss ! 16) (ms' 16)"
      "\<And>i. i < 16 \<Longrightarrow> tree_of (ss ! i) (ms' i)"
    using sm_branch.prems(3) unfolding s by (rule tree_FullE) blast
  have t: "tree_of (ss ! i) (ms i)" if "i < 16" for i using ms'(4) [OF that] branch_inj [OF ms'(1), of i] that by simp
  have s16: "ss ! 16 = NilNode" using leafval_empty [OF ms'(3)] branch_inj [OF ms'(1), of 16] sm_branch.hyps(8) by simp
  have len: "length (rlp (tree_item H s)) < 2 ^ 64" using length_tree_item [OF sm_branch.prems(1,3,2)] by simp
  have kid: "is_inner (ss ! i) \<and> hash_result H (ss ! i) (hashRec H c p)" if "i < length cs" "cs ! i = Some c" for i c p
  proof -
    have i: "i < 16" using that sm_branch.hyps(1) by simp
    have "is_inner (ss ! i)" using st_models_tree [OF sm_branch.hyps(3) [OF i that(2)]] tree_unique [OF t [OF i]] by auto
    moreover have "small (ms i)" using small_branch sm_branch.prems(2) i by simp
    ultimately show ?thesis using sm_branch.IH [OF i that(2) sm_branch.prems(1) _ t [OF i]] by blast
  qed
  have nil: "ss ! i = NilNode" if "i < length cs" "cs ! i = None" for i
    using that sm_branch.hyps(1,2) tree_empty [OF t, of i] by simp
  obtain nodes ws where n: "hashRec_children H 0 cs path = Ret (nodes, ws)"
      "\<And>w. emits w (raw_children (map Some nodes @ [None]) w) (concat (map (\<lambda>i. rlp (tree_ref H (ss ! i))) [0..<length cs]) @ [0x80])"
    using hashRec_children_ok [of cs "\<lambda>i. ss ! i" H 0 path] kid nil sm_branch.prems(1) by blast
  have up: "[0..<17] = [0..<16] @ [16::nat]" using upt_Suc_append [of 0 16] by (simp del: upt_Suc)
  have ss: "ss = map (\<lambda>i. ss ! i) [0..<16] @ [NilNode]"
    using map_nth [of ss] s16 unfolding ms'(2) up by simp
  let ?e = "concat (map (\<lambda>i. rlp (tree_ref H (ss ! i))) [0..<16]) @ [0x80]"
  have "concat (map (\<lambda>c. rlp (tree_ref H c)) ss) = ?e"
    by (subst ss) (simp add: comp_def rlp_str_def rlp_head_def del: upt.simps)
  then have e: "rlp (tree_item H s) = rlp_lst ?e" using s by (simp add: comp_def del: upt.simps)
  then have "length ?e < 2 ^ 64" using len length_rlp_lst [of ?e] by simp
  then obtain w' where "rawFull_encode (map Some nodes @ [None]) eb_reset = Ret w'" "emits eb_reset w' (rlp_lst ?e)"
    using rawFull_ok [OF n(2) [unfolded sm_branch.hyps(1)]] by blast
  then show ?case using st_seal_ok [OF _ len, of w'] n(1) e by (simp del: upt.simps)
next
  case (sm_hashed t m cs)
  then show ?case using tree_unique by (auto simp: hash_result_def)
qed

section \<open>Inserting in order\<close>

text \<open>The nodes on the path to the last key are not hashed.\<close>

inductive st_ready :: "StackTrie \<Rightarrow> bool" where
  r_leaf: "st_ready (StackTrie leafNode k v cs)"
| r_ext: "st_ready c \<Longrightarrow> st_ready (StackTrie extNode k v (Some c # cs))"
| r_branch: "i < 16 \<Longrightarrow> cs ! i = Some c \<Longrightarrow> (\<And>j. i < j \<Longrightarrow> j < 16 \<Longrightarrow> cs ! j = None) \<Longrightarrow> st_ready c \<Longrightarrow>
    st_ready (StackTrie branchNode k v cs)"

inductive_cases ready_extE: "st_ready (StackTrie extNode k v (Some c # cs))"
inductive_cases ready_branchE: "st_ready (StackTrie branchNode k v cs)"
inductive_cases ready_hashedE: "st_ready (StackTrie hashedNode k v cs)"

text \<open>A key that comes after all keys of a map and extends none of them.\<close>

definition branches :: "bytes \<Rightarrow> bytes \<Rightarrow> bytes \<Rightarrow> u8 \<Rightarrow> u8 \<Rightarrow> bytes \<Rightarrow> bytes \<Rightarrow> bool" where
  "branches x K p a b u w \<longleftrightarrow> x = p @ a # u \<and> K = p @ b # w \<and> a < b \<and> b < 16"

definition later :: "bytes \<Rightarrow> (bytes \<rightharpoonup> bytes) \<Rightarrow> bool" where
  "later K m \<longleftrightarrow> (\<forall>x. m x \<noteq> None \<longrightarrow> (\<exists>p a b u w. branches x K p a b u w))"

lemma branches_cancel: "branches (k @ x) (k @ y) p a b u w \<Longrightarrow> \<exists>p'. branches x y p' a b u w"
proof (induction k arbitrary: p)
  case Nil
  then show ?case by auto
next
  case (Cons z k)
  then obtain p'' where "p = z # p''" by (cases p) (auto simp: branches_def)
  then show ?case using Cons by (auto simp: branches_def)
qed

lemma later_shift: "later (k @ y) (shift k m) \<Longrightarrow> later y m"
  unfolding later_def using branches_cancel [of k] shift_app [of k m] by metis

lemma later_branch: "later (i # y) (branch ms) \<Longrightarrow> unat i < 17 \<Longrightarrow> later y (ms (unat i))"
  unfolding later_def using branches_cancel [of "[i]"] branch_Cons [of ms i] by (metis append_Cons append_Nil)

lemma later_above:
  assumes "later (i # y) (branch ms)" "unat i < j" "j < 17"
  shows "ms j = Map.empty"
proof (rule ext)
  fix x
  have j: "unat (word_of_nat j :: u8) = j" using assms(3) by (simp add: unat_of_nat)
  have "branch ms (word_of_nat j # x) = ms j x" using assms(3) j by simp
  moreover have "\<not> branches (word_of_nat j # x) (i # y) p a b u w" for p a b u w
    using assms(2) j by (cases p) (auto simp: branches_def word_less_nat_alt)
  ultimately show "ms j x = None" using assms(1) unfolding later_def by metis
qed

lemma getDiffIndex_split: "a \<noteq> b \<Longrightarrow> getDiffIndex (p @ a # u) (p @ b # w) = Ret (length p)"
  by (induction p) auto

lemma getDiffIndex_prefix: "getDiffIndex p (p @ w) = Ret (length p)"
  by (induction p) auto

lemma no_term: "p @ a # u = k @ [16] \<Longrightarrow> a \<noteq> 16 \<Longrightarrow> \<exists>u'. u = u' @ [16] \<and> k = p @ a # u'"
  by (cases u rule: rev_cases) (auto simp: append_eq_append_conv2 Cons_eq_append_conv)

text \<open>A branch made of a finished subtrie and a new leaf, below the common part of the keys.\<close>

lemma fork_models:
  fixes a b :: u8
  assumes "st_models H n m" "a < b" "b < 16" "nibbles w" "v \<noteq> []" "pcs = replicate 16 None"
  defines "cs \<equiv> pcs[unat a := Some n, unat b := Some (newLeaf w v)]"
  shows "st_models H (StackTrie branchNode [] x cs) ((shift [a] m)(b # w @ [16] \<mapsto> v))" "st_ready (StackTrie branchNode [] x cs)"
proof -
  have ab: "unat a < unat b" "unat b < 16" using assms(2,3) by (auto simp: word_less_nat_alt)
  let ?ms = "((\<lambda>_. Map.empty)(unat a := m))(unat b := [w @ [16] \<mapsto> v])"
  have "(shift [a] m)(b # w @ [16] \<mapsto> v) = branch ?ms"
    using branch_upd [of b "(\<lambda>_. Map.empty)(unat a := m)" "w @ [16]" "Some v"] branch_single [of a m] ab by simp
  moreover have "st_models H (StackTrie branchNode [] x cs) (branch ?ms)"
  proof (rule sm_branch [of _ _ _ "unat a" "unat b"])
    show "length cs = 16" by (simp add: cs_def assms(6))
    show "?ms i = Map.empty" if "i < 16" "cs ! i = None" for i
      using that ab by (auto simp: cs_def assms(6) nth_list_update split: if_splits)
    show "st_models H c (?ms i)" if "i < 16" "cs ! i = Some c" for i c
      using that ab assms(1,4,5) sm_leaf [of w v H]
      by (auto simp: cs_def assms(6) nth_list_update newLeaf_def simp del: fun_upd_apply split: if_splits) (simp_all add: fun_upd_def)
  qed (use ab in \<open>auto simp: cs_def assms(6) nth_list_update\<close>)
  ultimately show "st_models H (StackTrie branchNode [] x cs) ((shift [a] m)(b # w @ [16] \<mapsto> v))" by simp
  show "st_ready (StackTrie branchNode [] x cs)"
    by (rule r_branch [of "unat b" _ "newLeaf w v"]) (use ab in \<open>auto simp: cs_def assms(6) nth_list_update newLeaf_def intro: r_leaf\<close>)
qed

text \<open>Hashing a node keeps what it represents.\<close>

lemma hashRec_models:
  assumes "st_models H st m" "hash32 H" "small m"
  obtains n ws where "hashRec H st path = Ret (n, ws)" "st_models H n m" "nodeType n = hashedNode"
proof -
  obtain s where "tree_of s m" "is_inner s" using st_models_tree [OF assms(1)] by blast
  then show ?thesis using that hashRec_ok [OF assms, of s path] sm_hashed unfolding hash_result_def by fastforce
qed

lemma unresolve_ok:
  assumes "\<And>i c. i < n \<Longrightarrow> cs ! i = Some c \<Longrightarrow> st_models H c (ms i) \<and> small (ms i)" "hash32 H" "n \<le> length cs"
  shows "\<exists>cs' ws. unresolve H cs n prefix = Ret (cs', ws) \<and> length cs' = length cs \<and>
    (\<forall>j. n \<le> j \<longrightarrow> cs' ! j = cs ! j) \<and> (\<forall>j. cs' ! j = None \<longleftrightarrow> cs ! j = None) \<and>
    (\<forall>j c. j < n \<longrightarrow> cs' ! j = Some c \<longrightarrow> st_models H c (ms j))"
  using assms
proof (induction n)
  case (Suc i)
  show ?case
  proof (cases "cs ! i")
    case None
    have "\<exists>cs' ws. unresolve H cs i prefix = Ret (cs', ws) \<and> length cs' = length cs \<and>
        (\<forall>j. i \<le> j \<longrightarrow> cs' ! j = cs ! j) \<and> (\<forall>j. cs' ! j = None \<longleftrightarrow> cs ! j = None) \<and>
        (\<forall>j c. j < i \<longrightarrow> cs' ! j = Some c \<longrightarrow> st_models H c (ms j))"
      using Suc.prems by (intro Suc.IH) auto
    then show ?thesis using None Suc.prems(3) by (fastforce simp: less_Suc_eq)
  next
    case (Some c)
    show ?thesis
    proof (cases "nodeType c = hashedNode")
      case True
      then show ?thesis using Some Suc.prems by auto
    next
      case False
      obtain d ws where d: "hashRec H c (prefix @ [word_of_nat i]) = Ret (d, ws)" "st_models H d (ms i)"
        using Suc.prems(1) [OF _ Some] hashRec_models [of H c "ms i"] Suc.prems(2) by blast
      then show ?thesis using Some False Suc.prems
        by (intro exI [of _ "cs[i := Some d]"] exI [of _ ws]) (auto simp: nth_list_update less_Suc_eq)
    qed
  qed
qed simp

definition ins_post :: "(bytes \<Rightarrow> bytes) \<Rightarrow> StackTrie \<Rightarrow> (bytes \<rightharpoonup> bytes) \<Rightarrow> (StackTrie \<times> stWrite list) go \<Rightarrow> bool" where
  "ins_post H st m r \<longleftrightarrow> (\<exists>st' ws. r = Ret (st', ws) \<and> st_models H st' m \<and> st_ready st' \<and>
     (nodeType st = branchNode \<longrightarrow> nodeType st' = branchNode))"

lemma ins_postI:
  "r = Ret (st', ws) \<Longrightarrow> st_models H st' m \<Longrightarrow> st_ready st' \<Longrightarrow> (nodeType st = branchNode \<Longrightarrow> nodeType st' = branchNode) \<Longrightarrow>
   ins_post H st m r"
  by (auto simp: ins_post_def)

lemma fork_below:
  fixes a b :: u8
  assumes "st_models H n m" "a < b" "b < 16" "nibbles w" "v \<noteq> []" "p \<noteq> []" "nibbles p"
  shows "st_models H (StackTrie extNode p x (Some (StackTrie branchNode [] [] ((replicate 16 None)[unat a := Some n, unat b := Some (newLeaf w v)])) # replicate 15 None))
    ((shift (p @ [a]) m)(p @ b # w @ [16] \<mapsto> v))"
  using sm_ext [OF assms(6,7) _ fork_models(1) [OF assms(1-5) refl, of "[]"], of x]
  by (simp add: shift_shift flip: shift_upd)

lemma split_leaf_ok:
  assumes "nibbles (p @ a # u)" "v0 \<noteq> []" "a < b" "b < 16" "nibbles w" "v \<noteq> []" "hash32 H" "small [p @ a # u @ [16] \<mapsto> v0]"
  shows "ins_post H (StackTrie leafNode (p @ a # u) v0 cs) ([p @ a # u @ [16] \<mapsto> v0](p @ b # w @ [16] \<mapsto> v))
    (split_leaf H (p @ a # u) v0 (replicate 16 None) (length p) (p @ b # w) v prefix)"
proof -
  have nib: "nibbles u" "nibbles p" using assms(1) by (auto simp: nibbles_def)
  have lf: "st_models H (newLeaf u v0) [u @ [16] \<mapsto> v0]" using sm_leaf [OF nib(1) assms(2)] by (simp add: newLeaf_def)
  have sm: "small [u @ [16] \<mapsto> v0]" using small_shift [of "p @ [a]" "[u @ [16] \<mapsto> v0]"] assms(8) by simp
  obtain n ws where n: "hashRec H (newLeaf u v0) (prefix @ take (length p + 1) (p @ a # u)) = Ret (n, ws)" "st_models H n [u @ [16] \<mapsto> v0]"
    using hashRec_models [OF lf assms(7) sm] by blast
  have ab: "unat a < 16" "unat b < 16" using assms(3,4) by (auto simp: word_less_nat_alt)
  have eq: "shift (p @ [a]) [u @ [16] \<mapsto> v0] = [p @ a # u @ [16] \<mapsto> v0]" by simp
  show ?thesis
  proof (cases "p = []")
    case True
    have cs: "(replicate 16 None)[0 := None] = replicate 16 (None :: StackTrie option)" by (simp add: list_update_same_conv)
    show ?thesis using fork_models [OF n(2) assms(3-6) refl] n(1) ab True
      by (intro ins_postI [of _ _ ws]) (auto simp: split_leaf_def put_child_def cs simp del: fun_upd_apply)
  next
    case False
    have cs: "(replicate 16 None)[0 := x] = x # replicate 15 (None :: StackTrie option)" for x by (simp add: numeral_eq_Suc)
    show ?thesis using fork_below [OF n(2) assms(3-6) False nib(2), of "[]"] r_ext [OF fork_models(2) [OF n(2) assms(3-6) refl]] n(1) ab False eq
      by (intro ins_postI [of _ _ ws]) (auto simp: split_leaf_def put_child_def cs simp del: fun_upd_apply)
  qed
qed

lemma split_ext_ok:
  assumes "nibbles (p @ a # r)" "nodeType c = branchNode" "st_models H c m" "a < b" "b < 16" "nibbles w" "v \<noteq> []"
    and "hash32 H" "small (shift (p @ a # r) m)"
  shows "ins_post H (StackTrie extNode (p @ a # r) x cs) ((shift (p @ a # r) m)(p @ b # w @ [16] \<mapsto> v))
    (split_ext H (p @ a # r) x (Some c # replicate 15 None) (length p) (p @ b # w) v prefix)"
proof -
  have nib: "nibbles r" "nibbles p" using assms(1) by (auto simp: nibbles_def)
  have sm: "small (shift r m)" "small m" using assms(9) small_shift [of "p @ [a]" "shift r m"] small_shift by (auto simp: shift_shift)
  have ab: "unat a < 16" "unat b < 16" using assms(4,5) by (auto simp: word_less_nat_alt)
  have eq: "shift (p @ [a]) (shift r m) = shift (p @ a # r) m" by (simp add: shift_shift)
  have "\<exists>n ws. (if length p < length (p @ a # r) - 1
        then hashRec H (newExt (drop (length p + 1) (p @ a # r)) c) (prefix @ take (length p + 1) (p @ a # r))
        else hashRec H c (prefix @ p @ a # r)) = Ret (n, ws) \<and> st_models H n (shift r m)"
  proof (cases "r = []")
    case True
    obtain n ws where "hashRec H c (prefix @ p @ a # r) = Ret (n, ws)" "st_models H n m" using hashRec_models [OF assms(3,8) sm(2)] .
    then show ?thesis using True by auto
  next
    case False
    have "st_models H (newExt r c) (shift r m)" using sm_ext [OF False nib(1) assms(2,3)] by (simp add: newExt_def)
    then obtain n ws where "hashRec H (newExt r c) (prefix @ take (length p + 1) (p @ a # r)) = Ret (n, ws)" "st_models H n (shift r m)"
      using hashRec_models [OF _ assms(8) sm(1)] by blast
    then show ?thesis using False by auto
  qed
  then obtain n ws where n: "(if length p < length (p @ a # r) - 1
        then hashRec H (newExt (drop (length p + 1) (p @ a # r)) c) (prefix @ take (length p + 1) (p @ a # r))
        else hashRec H c (prefix @ p @ a # r)) = Ret (n, ws)" "st_models H n (shift r m)" by blast
  have cs: "None # replicate 15 None = replicate 16 (None :: StackTrie option)" by (simp add: numeral_eq_Suc)
  show ?thesis
  proof (cases "p = []")
    case True
    then show ?thesis using fork_models [OF n(2) assms(4-7) refl] n(1) ab eq unfolding split_ext_def
      by (intro ins_postI [of _ _ ws]) (simp_all add: put_child_def cs del: fun_upd_apply if_split)
  next
    case False
    then show ?thesis using fork_below [OF n(2) assms(4-7) False nib(2)] r_ext [OF fork_models(2) [OF n(2) assms(4-7) refl]] n(1) ab eq unfolding split_ext_def
      by (intro ins_postI [of _ _ ws]) (simp_all add: put_child_def cs del: fun_upd_apply if_split)
  qed
qed

lemma branch_ins_ok:
  assumes "length cs = 16" "\<And>i. i < 16 \<Longrightarrow> cs ! i = None \<Longrightarrow> ms i = Map.empty"
    and "\<And>i c. i < 16 \<Longrightarrow> i \<noteq> unat k \<Longrightarrow> cs ! i = Some c \<Longrightarrow> st_models H c (ms i)"
    and "a < b" "b < 16" "cs ! a \<noteq> None" "cs ! b \<noteq> None" "ms 16 = Map.empty" "unat k < 16"
    and "st_models H c ((ms (unat k))(y \<mapsto> v))" "st_ready c" "\<And>j. unat k < j \<Longrightarrow> j < 16 \<Longrightarrow> cs ! j = None"
  shows "st_models H (StackTrie branchNode [] x (cs[unat k := Some c])) ((branch ms)(k # y \<mapsto> v))"
    "st_ready (StackTrie branchNode [] x (cs[unat k := Some c]))"
proof -
  let ?ms = "ms(unat k := (ms (unat k))(y \<mapsto> v))"
  have "st_models H (StackTrie branchNode [] x (cs[unat k := Some c])) (branch ?ms)"
    by (rule sm_branch [of _ _ _ a b]) (use assms in \<open>auto simp: nth_list_update split: if_splits\<close>)
  then show "st_models H (StackTrie branchNode [] x (cs[unat k := Some c])) ((branch ms)(k # y \<mapsto> v))"
    using branch_upd [of k ms y "Some v"] assms(9) by simp
  show "st_ready (StackTrie branchNode [] x (cs[unat k := Some c]))"
    by (rule r_branch [of "unat k" _ c]) (use assms in \<open>auto simp: nth_list_update\<close>)
qed

lemma st_insert_ok:
  "st_models H st m \<Longrightarrow> st_ready st \<Longrightarrow> hash32 H \<Longrightarrow> small m \<Longrightarrow> later (k @ [16]) m \<Longrightarrow> nibbles k \<Longrightarrow> v \<noteq> [] \<Longrightarrow>
   ins_post H st (m(k @ [16] \<mapsto> v)) (st_insert H st k v prefix)"
proof (induction arbitrary: k prefix rule: st_models.induct)
  case (sm_leaf k0 v0)
  have "[k0 @ [16] \<mapsto> v0] (k0 @ [16]) \<noteq> None" by simp
  then obtain p a b u w where br: "branches (k0 @ [16]) (k @ [16]) p a b u w" using sm_leaf.prems(4) unfolding later_def by blast
  then have ab: "a < b" "b < 16" "a \<noteq> 16" "b \<noteq> 16" by (auto simp: branches_def)
  obtain u' where u: "u = u' @ [16]" "k0 = p @ a # u'" using no_term [of p a u k0] br ab by (auto simp: branches_def)
  obtain w' where w: "w = w' @ [16]" "k = p @ b # w'" using no_term [of p b w k] br ab by (auto simp: branches_def)
  have nib: "nibbles w'" using sm_leaf.prems(5) w by (simp add: nibbles_def)
  have "getDiffIndex k0 k = Ret (length p)" using u w ab by (auto intro: getDiffIndex_split)
  moreover have "ins_post H (StackTrie leafNode k0 v0 (replicate 16 None)) ([k0 @ [16] \<mapsto> v0](k @ [16] \<mapsto> v))
      (split_leaf H k0 v0 (replicate 16 None) (length p) k v prefix)"
    using split_leaf_ok [of p a u' v0 b w' v H "replicate 16 None" prefix] sm_leaf ab nib u w by (simp del: fun_upd_apply)
  ultimately show ?case by (simp del: fun_upd_apply)
next
  case (sm_ext k0 c m x)
  have sm: "small m" using sm_ext.prems(3) by (rule small_shift)
  show ?case
  proof (cases "\<exists>k'. k = k0 @ k'")
    case True
    then obtain k' where k': "k = k0 @ k'" by blast
    have "st_ready c" using sm_ext.prems(1) by (rule ready_extE)
    moreover have "later (k' @ [16]) m" using later_shift [of k0 "k' @ [16]" m] sm_ext.prems(4) k' by simp
    moreover have "nibbles k'" using sm_ext.prems(5) k' by (simp add: nibbles_def)
    ultimately have "ins_post H c (m(k' @ [16] \<mapsto> v)) (st_insert H c k' v (prefix @ k0))"
      using sm_ext.IH sm_ext.prems(2,6) sm by blast
    then obtain c' ws where c': "st_insert H c k' v (prefix @ k0) = Ret (c', ws)" "st_models H c' (m(k' @ [16] \<mapsto> v))" "st_ready c'"
        "nodeType c' = branchNode" using sm_ext.hyps(3) by (auto simp: ins_post_def)
    have r: "st_insert H (StackTrie extNode k0 x (Some c # replicate 15 None)) k v prefix = Ret (StackTrie extNode k0 x (Some c' # replicate 15 None), ws)"
      using c'(1) k' getDiffIndex_prefix [of k0 k'] by simp
    have "st_models H (StackTrie extNode k0 x (Some c' # replicate 15 None)) ((shift k0 m)(k @ [16] \<mapsto> v))"
      using st_models.sm_ext [OF sm_ext.hyps(1,2) c'(4,2)] k' shift_upd [of k0 m "k' @ [16]" "Some v"] by simp
    then show ?thesis by (rule ins_postI [OF r]) (use c'(3) in \<open>auto intro: r_ext\<close>)
  next
    case False
    obtain y z where y: "m y = Some z" using st_models_nonempty [OF sm_ext.hyps(4)] by blast
    then obtain p a b u w where br: "branches (k0 @ y) (k @ [16]) p a b u w"
      using sm_ext.prems(4) shift_app [of k0 m y] unfolding later_def by (metis option.distinct(1))
    then have ab: "a < b" "b < 16" "a \<noteq> b" "b \<noteq> 16" by (auto simp: branches_def)
    obtain w' where w: "w = w' @ [16]" "k = p @ b # w'" using no_term [of p b w k] br ab by (auto simp: branches_def)
    have "\<not> (\<exists>t. p = k0 @ t)" using False w by auto
    then obtain r where r: "k0 = p @ a # r" using br by (auto simp: branches_def append_eq_append_conv2 append_eq_Cons_conv)
    have nib: "nibbles w'" using sm_ext.prems(5) w by (simp add: nibbles_def)
    have "getDiffIndex k0 k = Ret (length p)" using r w ab by (auto intro: getDiffIndex_split)
    moreover have "ins_post H (StackTrie extNode k0 x (Some c # replicate 15 None)) ((shift k0 m)(k @ [16] \<mapsto> v))
        (split_ext H k0 x (Some c # replicate 15 None) (length p) k v prefix)"
      using split_ext_ok [of p a r c H m b w' v x "Some c # replicate 15 None" prefix] sm_ext.hyps sm_ext.prems ab nib r w by (simp del: fun_upd_apply)
    ultimately show ?thesis using r by (simp del: fun_upd_apply)
  qed
next
  case (sm_branch cs ms a b x)
  have st: "st_models H (StackTrie branchNode [] x cs) (branch ms)" using sm_branch.hyps by (intro st_models.sm_branch)
  obtain y z where "branch ms y = Some z" using st_models_nonempty [OF st] by blast
  then obtain p a' b' u w where br: "branches y (k @ [16]) p a' b' u w" using sm_branch.prems(4) unfolding later_def by (metis option.distinct(1))
  then have "k \<noteq> []" by (cases p) (auto simp: branches_def)
  then obtain i k' where k: "k = i # k'" by (cases k) auto
  have i: "unat i < 16" using sm_branch.prems(5) k by (simp add: nibbles_def word_less_nat_alt)
  have lt: "later (i # k' @ [16]) (branch ms)" using sm_branch.prems(4) k by simp
  have sms: "small (ms j)" if "j < 16" for j using small_branch sm_branch.prems(3) that by simp
  have above: "cs ! j = None" if "unat i < j" "j < 16" for j
    using later_above [OF lt that(1)] st_models_nonempty [OF sm_branch.hyps(3) [OF that(2)]] that by (cases "cs ! j") auto
  obtain cs' ws where cs': "unresolve H cs (unat i) prefix = Ret (cs', ws)" "length cs' = length cs"
      "\<And>j. unat i \<le> j \<Longrightarrow> cs' ! j = cs ! j" "\<And>j. cs' ! j = None \<longleftrightarrow> cs ! j = None"
      "\<And>j c. j < unat i \<Longrightarrow> cs' ! j = Some c \<Longrightarrow> st_models H c (ms j)"
    using unresolve_ok [of "unat i" cs H ms prefix] sm_branch.hyps(1,3) sm_branch.prems(2) sms i by fastforce
  have kids: "st_models H c (ms j)" if "j < 16" "j \<noteq> unat i" "cs' ! j = Some c" for j c
    using that cs'(3,5) above by (cases "j < unat i") (auto simp: not_less)
  have post: "st_models H (StackTrie branchNode [] x (cs'[unat i := Some c])) ((branch ms)(k @ [16] \<mapsto> v)) \<and>
      st_ready (StackTrie branchNode [] x (cs'[unat i := Some c]))"
    if "st_models H c ((ms (unat i))(k' @ [16] \<mapsto> v))" "st_ready c" for c
    using branch_ins_ok [of cs' ms i H a b c "k' @ [16]" v x] that cs'(2,4) sm_branch.hyps kids above i k by (simp del: fun_upd_apply)
  show ?case
  proof (cases "cs ! unat i")
    case None
    have nib: "nibbles k'" using sm_branch.prems(5) k by (simp add: nibbles_def)
    have "ms (unat i) = Map.empty" using sm_branch.hyps(2) i None by blast
    then have "st_models H (newLeaf k' v) ((ms (unat i))(k' @ [16] \<mapsto> v))"
      using sm_leaf [OF nib sm_branch.prems(6), of H] by (simp add: newLeaf_def del: fun_upd_apply)
    then have p: "st_models H (StackTrie branchNode [] x (cs'[unat i := Some (newLeaf k' v)])) ((branch ms)(k @ [16] \<mapsto> v)) \<and>
      st_ready (StackTrie branchNode [] x (cs'[unat i := Some (newLeaf k' v)]))"
      by (rule post) (simp add: newLeaf_def r_leaf)
    have r: "st_insert H (StackTrie branchNode [] x cs) k v prefix = Ret (StackTrie branchNode [] x (cs'[unat i := Some (newLeaf k' v)]), ws)"
      using None cs'(1) k i sm_branch.hyps(1) by (simp add: Let_def)
    show ?thesis by (rule ins_postI [OF r]) (use p in \<open>auto simp del: fun_upd_apply\<close>)
  next
    case (Some c)
    obtain l c' where l: "l < 16" "cs ! l = Some c'" "\<And>j. l < j \<Longrightarrow> j < 16 \<Longrightarrow> cs ! j = None" "st_ready c'"
      using sm_branch.prems(1) by (rule ready_branchE) blast
    have "l = unat i" using l above [of l] Some i by (metis linorder_neqE_nat option.distinct(1))
    then have rd: "st_ready c" using l Some by simp
    have "later (k' @ [16]) (ms (unat i))" using later_branch [OF lt] i by simp
    moreover have "nibbles k'" using sm_branch.prems(5) k by (simp add: nibbles_def)
    ultimately have "ins_post H c ((ms (unat i))(k' @ [16] \<mapsto> v)) (st_insert H c k' v (prefix @ [i]))"
      using sm_branch.IH [OF i Some rd sm_branch.prems(2) sms [OF i]] sm_branch.prems(6) by blast
    then obtain c2 ws' where c2: "st_insert H c k' v (prefix @ [i]) = Ret (c2, ws')" "st_models H c2 ((ms (unat i))(k' @ [16] \<mapsto> v))" "st_ready c2"
      by (auto simp: ins_post_def)
    have r: "st_insert H (StackTrie branchNode [] x cs) k v prefix = Ret (StackTrie branchNode [] x (cs'[unat i := Some c2]), ws @ ws')"
      using Some cs'(1) k i sm_branch.hyps(1) c2(1) by (simp add: Let_def)
    show ?thesis by (rule ins_postI [OF r]) (use post [OF c2(2,3)] in \<open>auto simp del: fun_upd_apply\<close>)
  qed
next
  case (sm_hashed s m cs)
  then show ?case by (auto elim: ready_hashedE)
qed

section \<open>Keys and roots\<close>

text \<open>\<open>before x y\<close>: \<open>x\<close> comes before \<open>y\<close> in the order of byte strings and is no prefix of it.\<close>

definition before :: "bytes \<Rightarrow> bytes \<Rightarrow> bool" where
  "before x y \<longleftrightarrow> (\<exists>p a b u w. x = p @ a # u \<and> y = p @ b # w \<and> a < b)"

lemma before_branches:
  assumes "before x y"
  shows "\<exists>p a b u w. branches (keybytesToHex x) (keybytesToHex y) p a b u w"
proof -
  obtain p a b u w where b: "x = p @ a # u" "y = p @ b # w" "a < b" using assms by (auto simp: before_def)
  have n: "nibs (p @ c # r) @ [16] = nibs p @ c div 16 # c mod 16 # nibs r @ [16]" for c r by (simp add: nibs_def)
  have "unat b < 256" using unsigned_less [of b, where ?'a = nat] by simp
  then have lt: "unat b div 16 < 16" "unat b mod 16 < 16" by (simp_all add: less_mult_imp_div_less)
  have "a div 16 < b div 16 \<or> a div 16 = b div 16 \<and> a mod 16 < b mod 16"
  proof -
    have "unat a < unat b" using b(3) by (simp add: word_less_nat_alt)
    then have "unat a div 16 < unat b div 16 \<or> unat a div 16 = unat b div 16 \<and> unat a mod 16 < unat b mod 16"
      by (metis div_le_mono div_mult_mod_eq le_neq_implies_less less_imp_le nat_add_left_cancel_less)
    then show ?thesis by (simp add: word_less_nat_alt word_unat_eq_iff unat_div unat_mod)
  qed
  then show ?thesis
  proof
    assume "a div 16 < b div 16"
    moreover have "b div 16 < 16" using lt by (simp add: word_less_nat_alt unat_div)
    ultimately show ?thesis unfolding keybytesToHex_nibs b(1,2) n branches_def
      by (intro exI [of _ "nibs p"] exI [of _ "a div 16"] exI [of _ "b div 16"]
          exI [of _ "a mod 16 # nibs u @ [16]"] exI [of _ "b mod 16 # nibs w @ [16]"]) simp
  next
    assume "a div 16 = b div 16 \<and> a mod 16 < b mod 16"
    moreover have "b mod 16 < 16" using lt by (simp add: word_less_nat_alt unat_mod)
    ultimately show ?thesis unfolding keybytesToHex_nibs b(1,2) n branches_def
      by (intro exI [of _ "nibs p @ [b div 16]"] exI [of _ "a mod 16"] exI [of _ "b mod 16"]
          exI [of _ "nibs u @ [16]"] exI [of _ "nibs w @ [16]"]) simp
  qed
qed

text \<open>The root of a map.\<close>

definition is_root :: "(bytes \<Rightarrow> bytes) \<Rightarrow> (bytes \<rightharpoonup> bytes) \<Rightarrow> hash \<Rightarrow> bool" where
  "is_root H M r \<longleftrightarrow> (\<exists>m s. hexmap m M \<and> tree_of s m \<and> r = root_of H s)"

lemma is_root_unique: "is_root H M r \<Longrightarrow> is_root H M r' \<Longrightarrow> r = r'"
  unfolding is_root_def using hexmap_unique tree_unique by metis

definition stack_models :: "(bytes \<Rightarrow> bytes) \<Rightarrow> StackTrie \<Rightarrow> (bytes \<rightharpoonup> bytes) \<Rightarrow> bool" where
  "stack_models H st M \<longleftrightarrow> hash32 H \<and> sized M \<and>
     (st = NewStackTrie \<and> M = Map.empty \<or> (\<exists>m. hexmap m M \<and> st_models H st m \<and> st_ready st))"

lemma hexmap_upd: "hexmap m M \<Longrightarrow> hexmap (m(keybytesToHex k \<mapsto> v)) (M(k \<mapsto> v))"
  by (auto simp: hexmap_def fun_eq_iff keybytesToHex_inj)

lemma hexmap_empty: "hexmap Map.empty Map.empty"
  by (auto simp: hexmap_def)

lemma sized_upd: "sized M \<Longrightarrow> op_sized (OpUpdate k v) \<Longrightarrow> sized (M(k \<mapsto> v))"
  by (simp add: sized_def)

lemma StackTrie_Update_ok:
  assumes "stack_models H st M" "\<forall>x. M x \<noteq> None \<longrightarrow> before x k" "v \<noteq> []" "op_sized (OpUpdate k v)"
  shows "\<exists>st' ws. StackTrie_Update H k v st = Ret (st', ws) \<and> stack_models H st' (M(k \<mapsto> v))"
proof -
  have h: "hash32 H" "sized M" using assms(1) by (auto simp: stack_models_def)
  have upd: "StackTrie_Update H k v st = st_insert H st (nibs k) v []"
    using assms(3) by (simp add: StackTrie_Update_def keybytesToHex_nibs)
  consider "st = NewStackTrie" "M = Map.empty" | m where "hexmap m M" "st_models H st m" "st_ready st"
    using assms(1) by (auto simp: stack_models_def)
  then show ?thesis
  proof cases
    case 1
    have "hexmap [nibs k @ [16] \<mapsto> v] [k \<mapsto> v]" using hexmap_upd [OF hexmap_empty, of k v] by (simp add: keybytesToHex_nibs)
    moreover have "st_models H (StackTrie leafNode (nibs k) v (replicate 16 None)) [nibs k @ [16] \<mapsto> v]"
      using assms(3) by (intro sm_leaf) (auto simp: nibbles_nibs)
    ultimately show ?thesis using 1 h sized_upd [OF h(2) assms(4)] unfolding upd stack_models_def
      by (auto simp: NewStackTrie_def simp del: fun_upd_apply intro: r_leaf)
  next
    case 2
    have "\<exists>p a b u w. branches x (nibs k @ [16]) p a b u w" if nx: "m x \<noteq> None" for x
    proof -
      obtain y where y: "x = keybytesToHex y" using 2(1) nx unfolding hexmap_def by blast
      then have "M y \<noteq> None" using 2(1) nx by (simp add: hexmap_def)
      then show ?thesis using before_branches [of y k] assms(2) y by (simp add: keybytesToHex_nibs)
    qed
    then have "later (nibs k @ [16]) m" by (simp add: later_def)
    then have "ins_post H st (m(nibs k @ [16] \<mapsto> v)) (st_insert H st (nibs k) v [])"
      using 2 h assms(3) hexmap_small [OF 2(1)] by (intro st_insert_ok) (auto simp: nibbles_nibs)
    then show ?thesis using hexmap_upd [OF 2(1), of k v] h sized_upd [OF h(2) assms(4)]
      unfolding upd stack_models_def ins_post_def keybytesToHex_nibs by blast
  qed
qed

lemma StackTrie_Hash_ok:
  assumes "stack_models H st M"
  shows "\<exists>r st' ws. StackTrie_Hash H st = Ret (r, st', ws) \<and> is_root H M r"
proof -
  have h: "hash32 H" "sized M" using assms(1) by (auto simp: stack_models_def)
  consider "st = NewStackTrie" "M = Map.empty" | m where "hexmap m M" "st_models H st m"
    using assms(1) by (auto simp: stack_models_def)
  then show ?thesis
  proof cases
    case 1
    have "is_root H Map.empty EmptyRootHash" unfolding is_root_def
      using hexmap_empty t_nil by (intro exI [of _ Map.empty] exI [of _ NilNode]) (simp add: root_of_def)
    then show ?thesis using 1 by (simp add: StackTrie_Hash_def NewStackTrie_def Bytes32_def SetBytes_Bytes32 [unfolded Bytes32_def] del: nat_to_bytes.simps)
  next
    case 2
    obtain s where s: "tree_of s m" "is_inner s" using st_models_tree [OF 2(2)] by blast
    then obtain cs ws where r: "hashRec H st [] = Ret (StackTrie hashedNode [] (enc_val H s) cs, ws)"
      using hashRec_ok [OF 2(2) h(1) hexmap_small [OF 2(1) h(2)] s(1), of "[]"] by (auto simp: hash_result_def)
    have "s \<noteq> NilNode" using s(2) by auto
    then have "(if length (enc_val H s) = 32 then SetBytes (enc_val H s) else SetBytes (H (enc_val H s))) = root_of H s"
      using h(1) by (auto simp: enc_val_def root_of_def hash32_def Let_def)
    moreover have "is_root H M (root_of H s)" using s 2(1) by (auto simp: is_root_def)
    ultimately show ?thesis using r by (auto simp: StackTrie_Hash_def split: if_splits)
  qed
qed

end
