(* ===== verification/Derive_Sha.thy ===== *)
theory Derive_Sha
  imports Stack_Trie
begin

text \<open>
  The root hash of a list (\<open>DeriveSha\<close> of \<^verbatim>\<open>client/core/types/hashing.go\<close>), the commitment of a block header to its transactions,
  receipts and withdrawals. \<open>DeriveSha\<close> works on an interface, \<open>TrieHasher\<close>, with the operations \<open>Reset\<close>, \<open>Update\<close> and
  \<open>Hash\<close>; its contract is the locale \<open>trie_hasher\<close>: after updates in the order of the keys, \<open>Hash\<close> returns the root of the map of
  the updates. Stack tries and ordinary tries fulfil it. The items of a list enter by their encodings, which are
  never empty.
\<close>

section \<open>DeriveSha\<close>

text \<open>One of its three loops, over the indices given; the error of \<open>Update\<close> is ignored.\<close>

fun derive_loop :: "(bytes \<Rightarrow> bytes \<Rightarrow> 's \<Rightarrow> 's go) \<Rightarrow> bytes list \<Rightarrow> nat list \<Rightarrow> 's \<Rightarrow> 's go" where
  "derive_loop update items [] s = Ret s"
| "derive_loop update items (i # is) s =
     go_bind (update (AppendUint64 [] (word_of_nat i)) (items ! i) s) (derive_loop update items is)"

definition DeriveSha :: "('s \<Rightarrow> 's) \<Rightarrow> (bytes \<Rightarrow> bytes \<Rightarrow> 's \<Rightarrow> 's go) \<Rightarrow> ('s \<Rightarrow> hash go) \<Rightarrow> 's \<Rightarrow> bytes list \<Rightarrow> hash go" where
  "DeriveSha reset update hash s items =
    go_bind (derive_loop update items [1..<min (length items) 0x80] (reset s)) (\<lambda>s.
    go_bind (derive_loop update items (if 0 < length items then [0] else []) s) (\<lambda>s.
    go_bind (derive_loop update items [0x80..<length items] s) hash))"

section \<open>The order of the keys\<close>

abbreviation index_key :: "nat \<Rightarrow> bytes" where
  "index_key i \<equiv> AppendUint64 [] (word_of_nat i)"

definition derive_order :: "nat \<Rightarrow> nat list" where
  "derive_order n = [1..<min n 0x80] @ (if 0 < n then [0] else []) @ [0x80..<n]"

lemma before_append: "before x y \<Longrightarrow> before (z @ x) (z @ y)"
  unfolding before_def by (metis append.assoc)

lemma before_more: "before x y \<Longrightarrow> before (x @ a) (y @ b)"
  unfolding before_def by force

lemma before_Cons: "a < b \<Longrightarrow> before (a # x) (b # y)"
  unfolding before_def by (metis append_Nil)

lemma be_mono: "m \<le> n \<Longrightarrow> length (be m) \<le> length (be n)"
proof (induction n arbitrary: m rule: be.induct)
  case (1 n)
  show ?case
  proof (cases "m = 0")
    case False
    then have "0 < m" "0 < n" using 1 by auto
    then show ?thesis using 1 be_Suc [of m] be_Suc [of n] div_le_mono [of m n 256] by simp
  qed simp
qed

lemma be_before: "m < n \<Longrightarrow> length (be m) = length (be n) \<Longrightarrow> before (be m) (be n)"
proof (induction n arbitrary: m rule: be.induct)
  case (1 n)
  have n: "0 < n" using 1 by simp
  have m: "0 < m" using 1 be_Suc [OF n] by (cases m) auto
  have b: "be m = be (m div 256) @ [word_of_nat m]" "be n = be (n div 256) @ [word_of_nat n]" using be_Suc m n by auto
  have "m div 256 \<le> n div 256" using 1 by (simp add: div_le_mono)
  show ?case
  proof (cases "m div 256 = n div 256")
    case True
    then have "m mod 256 < n mod 256" using "1.prems"(1) by (metis div_mult_mod_eq nat_add_left_cancel_less)
    then have "(word_of_nat m :: u8) < word_of_nat n" by (simp add: word_less_nat_alt unat_of_nat)
    then show ?thesis using b True before_append before_Cons by metis
  next
    case False
    then have "before (be (m div 256)) (be (n div 256))" using 1 b n \<open>m div 256 \<le> n div 256\<close> by simp
    then show ?thesis using b before_more by simp
  qed
qed

lemma index_key_be: "i < 2 ^ 64 \<Longrightarrow> index_key i = rlp_str (be i)"
  by (simp add: AppendUint64_be unat_of_nat)

lemma index_key_small: "i < 0x80 \<Longrightarrow> i \<noteq> 0 \<Longrightarrow> index_key i = [word_of_nat i]"
  using be_Suc [of i] by (simp add: index_key_be rlp_str_def word_less_nat_alt unat_of_nat)

lemma index_key_0: "AppendUint64 [] 0 = [0x80]"
  by (simp add: AppendUint64_def)

lemma index_key_large:
  assumes "0x80 \<le> i" "i < 2 ^ 64"
  shows "index_key i = word_of_nat (0x80 + length (be i)) # be i \<and> 0 < length (be i) \<and> length (be i) \<le> 8"
proof -
  have "be i \<noteq> []" using be_hd [of i] assms(1) by simp
  moreover have "\<not> (length (be i) = 1 \<and> be i ! 0 < 0x80)"
  proof
    assume a: "length (be i) = 1 \<and> be i ! 0 < 0x80"
    have "be i = be (i div 256) @ [word_of_nat i]" using be_Suc [of i] assms(1) by simp
    then have b: "be (i div 256) = []" "be i = [word_of_nat i]" using a by auto
    then have "i div 256 = 0" using be_hd [of "i div 256"] by auto
    then have "i < 256" by simp
    then show False using a b(2) assms(1) by (simp add: word_less_nat_alt unat_of_nat)
  qed
  ultimately show ?thesis using length_be_8 [OF assms(2)] by (simp add: index_key_be [OF assms(2)] rlp_str_def rlp_head_def)
qed

lemma index_key_before:
  assumes "0x80 \<le> i" "i < j" "j < 2 ^ 64"
  shows "before (index_key i) (index_key j)"
proof -
  have i: "index_key i = word_of_nat (0x80 + length (be i)) # be i" "length (be i) \<le> 8"
    and j: "index_key j = word_of_nat (0x80 + length (be j)) # be j" "length (be j) \<le> 8"
    using index_key_large [of i] index_key_large [of j] assms by auto
  show ?thesis
  proof (cases "length (be i) = length (be j)")
    case True
    then show ?thesis using before_append [OF be_before [OF assms(2) True], of "[word_of_nat (0x80 + length (be j))]"] i j by simp
  next
    case False
    then have "length (be i) < length (be j)" using be_mono [of i j] assms(2) by simp
    then have "(word_of_nat (0x80 + length (be i)) :: u8) < word_of_nat (0x80 + length (be j))"
      using i(2) j(2) by (simp only: word_less_nat_alt unat_of_nat) simp
    then show ?thesis unfolding i(1) j(1) by (rule before_Cons)
  qed
qed

lemma index_key_low:
  assumes "i < 0x80" "0x80 \<le> j" "j < 2 ^ 64"
  shows "before (index_key i) (index_key j)"
proof -
  have j: "index_key j = word_of_nat (0x80 + length (be j)) # be j" "0 < length (be j)" "length (be j) \<le> 8"
    using index_key_large [of j] assms by auto
  have "unat (word_of_nat (0x80 + length (be j)) :: u8) = 0x80 + length (be j)" using j(3) by (simp only: unat_of_nat) simp
  moreover obtain x where x: "index_key i = [x]" "unat x \<le> 0x80"
    using assms(1) index_key_0 index_key_small [of i] by (cases "i = 0") (auto simp: unat_of_nat)
  ultimately have "x < word_of_nat (0x80 + length (be j))" unfolding word_less_nat_alt using j(2) by linarith
  then show ?thesis unfolding x(1) j(1) by (rule before_Cons)
qed

lemma derive_sorted:
  assumes "n \<le> 2 ^ 64"
  shows "sorted_wrt (\<lambda>i j. before (index_key i) (index_key j)) (derive_order n)"
proof -
  let ?R = "\<lambda>i j. before (index_key i) (index_key j)"
  have low: "before (index_key i) (index_key j)" if "0 < i" "i < j" "j < 0x80" for i j
    using that by (auto simp: index_key_small word_less_nat_alt unat_of_nat intro!: before_Cons)
  have zero: "before (index_key i) (index_key 0)" if "0 < i" "i < 0x80" for i
    using that by (auto simp: index_key_small index_key_0 word_less_nat_alt unat_of_nat intro!: before_Cons)
  have "sorted_wrt ?R [1..<min n 0x80]"
    by (rule sorted_wrt_mono_rel [OF _ sorted_wrt_upt]) (auto intro: low)
  moreover have "sorted_wrt ?R [0x80..<n]"
    by (rule sorted_wrt_mono_rel [OF _ sorted_wrt_upt]) (use assms in \<open>auto intro: index_key_before\<close>)
  moreover have "?R i j" if "i < 0x80" "j \<in> set [0x80..<n]" for i j
    using that assms by (intro index_key_low) auto
  moreover have "?R i 0" if "i \<in> set [1..<min n 0x80]" for i using that by (intro zero) auto
  ultimately show ?thesis unfolding derive_order_def sorted_wrt_append by (auto simp del: of_nat_0 semiring_1_class.of_nat_0)
qed

lemma set_derive_order: "set (derive_order n) = {..<n}" "distinct (derive_order n)"
  by (auto simp: derive_order_def)

section \<open>The contract of a hasher\<close>

text \<open>The map a list stands for: the encoding of each item under the key of its index.\<close>

definition list_map :: "bytes list \<Rightarrow> nat list \<Rightarrow> (bytes \<rightharpoonup> bytes)" where
  "list_map items is = fold (\<lambda>i M. M(index_key i \<mapsto> items ! i)) is Map.empty"

locale trie_hasher =
  fixes models :: "'s \<Rightarrow> (bytes \<rightharpoonup> bytes) \<Rightarrow> bool"
    and reset :: "'s \<Rightarrow> 's"
    and update :: "bytes \<Rightarrow> bytes \<Rightarrow> 's \<Rightarrow> 's go"
    and hash :: "'s \<Rightarrow> hash go"
    and root :: "(bytes \<rightharpoonup> bytes) \<Rightarrow> hash \<Rightarrow> bool"
    and fits :: "bytes \<Rightarrow> bytes \<Rightarrow> bool"
  assumes reset: "models s M \<Longrightarrow> models (reset s) Map.empty"
    and update: "models s M \<Longrightarrow> \<forall>x. M x \<noteq> None \<longrightarrow> before x k \<Longrightarrow> v \<noteq> [] \<Longrightarrow> fits k v \<Longrightarrow>
      \<exists>s'. update k v s = Ret s' \<and> models s' (M(k \<mapsto> v))"
    and hash: "models s M \<Longrightarrow> \<exists>r. hash s = Ret r \<and> root M r"
begin

lemma derive_loop_models:
  assumes "sorted_wrt (\<lambda>i j. before (index_key i) (index_key j)) is" "models s M"
    and "\<forall>i \<in> set is. \<forall>x. M x \<noteq> None \<longrightarrow> before x (index_key i)"
    and "\<forall>i \<in> set is. items ! i \<noteq> [] \<and> fits (index_key i) (items ! i)"
  shows "\<exists>s'. derive_loop update items is s = Ret s' \<and> models s' (fold (\<lambda>i M. M(index_key i \<mapsto> items ! i)) is M)"
  using assms
proof (induction "is" arbitrary: s M)
  case (Cons i js)
  then obtain s1 where "update (index_key i) (items ! i) s = Ret s1" "models s1 (M(index_key i \<mapsto> items ! i))"
    using update [of s M "index_key i" "items ! i"] by auto
  then show ?case using Cons.IH [of s1 "M(index_key i \<mapsto> items ! i)"] Cons.prems by (auto simp del: fun_upd_apply) (auto split: if_splits)
qed simp

lemma derive_loop_append:
  "derive_loop update items (xs @ ys) = (\<lambda>s. go_bind (derive_loop update items xs s) (derive_loop update items ys))"
  by (induction xs) (auto simp: go_bind_assoc)

lemma DeriveSha_root:
  assumes "models s M" "length items \<le> 2 ^ 64" "\<forall>i < length items. items ! i \<noteq> [] \<and> fits (index_key i) (items ! i)"
  shows "\<exists>r. DeriveSha reset update hash s items = Ret r \<and> root (list_map items (derive_order (length items))) r"
proof -
  obtain s' where "derive_loop update items (derive_order (length items)) (reset s) = Ret s'"
      "models s' (list_map items (derive_order (length items)))"
    using derive_loop_models [OF derive_sorted [OF assms(2)] reset [OF assms(1)], of items] assms(3)
    unfolding list_map_def by (auto simp: set_derive_order)
  then show ?thesis using hash [of s'] by (auto simp: DeriveSha_def derive_order_def derive_loop_append)
qed

end

section \<open>The two hashers\<close>

definition st_update :: "(bytes \<Rightarrow> bytes) \<Rightarrow> bytes \<Rightarrow> bytes \<Rightarrow> StackTrie \<Rightarrow> StackTrie go" where
  "st_update H k v st = go_bind (StackTrie_Update H k v st) (\<lambda>(st, ws). Ret st)"

definition st_hash :: "(bytes \<Rightarrow> bytes) \<Rightarrow> StackTrie \<Rightarrow> hash go" where
  "st_hash H st = go_bind (StackTrie_Hash H st) (\<lambda>(h, st, ws). Ret h)"

definition tr_update :: "nat \<Rightarrow> bytes \<Rightarrow> bytes \<Rightarrow> Trie \<Rightarrow> Trie go" where
  "tr_update fuel k v t = go_bind (Trie_Update fuel t k v) (\<lambda>(err, t). Ret t)"

definition tr_hash :: "(bytes \<Rightarrow> bytes) \<Rightarrow> Trie \<Rightarrow> hash go" where
  "tr_hash H t = go_bind (Trie_Hash H t) (\<lambda>(h, t). Ret h)"

lemma reset_models: "hash32 H \<Longrightarrow> hash_models H (Trie_Reset t) Map.empty"
  by (auto simp: hash_models_def trie_models_def Trie_Reset_def sized_def intro!: exI [of _ Map.empty] d_nil)

lemma tr_update_ok:
  assumes "hash_models H t M" "v \<noteq> []" "4 * length k + 4 \<le> fuel" "op_sized (OpUpdate k v)"
  shows "\<exists>t'. tr_update fuel k v t = Ret t' \<and> hash_models H t' (M(k \<mapsto> v))"
proof -
  obtain t' where "Trie_Update fuel t k v = Ret (None, t')" "trie_models (hash_ok H) t' (M(k \<mapsto> v))"
    using Update_models [of "hash_ok H" t M k fuel v] assms new_ok_hash by (auto simp: hash_models_def)
  then show ?thesis using assms sized_upd [of M k v] by (simp add: tr_update_def hash_models_def)
qed

lemma tr_hash_ok: "hash_models H t M \<Longrightarrow> \<exists>r. tr_hash H t = Ret r \<and> is_root H M r"
proof -
  assume "hash_models H t M"
  then obtain m s u where "hexmap m M" "tree_of s m" "Trie_Hash H t = Ret (root_of H s, u)" by (rule hash_models_root)
  then show ?thesis unfolding tr_hash_def is_root_def by auto
qed

interpretation stack_hasher: trie_hasher "stack_models H" StackTrie_Reset "st_update H" "st_hash H" "is_root H"
    "\<lambda>k v. op_sized (OpUpdate k v)" for H
proof
  show "stack_models H (StackTrie_Reset s) Map.empty" if "stack_models H s M" for s M
    using that by (simp add: stack_models_def StackTrie_Reset_def NewStackTrie_def sized_def)
  show "\<exists>s'. st_update H k v s = Ret s' \<and> stack_models H s' (M(k \<mapsto> v))"
    if "stack_models H s M" "\<forall>x. M x \<noteq> None \<longrightarrow> before x k" "v \<noteq> []" "op_sized (OpUpdate k v)" for s M k v
    using StackTrie_Update_ok [OF that] by (auto simp: st_update_def)
  show "\<exists>r. st_hash H s = Ret r \<and> is_root H M r" if "stack_models H s M" for s M
    using StackTrie_Hash_ok [OF that] by (auto simp: st_hash_def)
qed

interpretation plain_hasher: trie_hasher "hash_models H" Trie_Reset "tr_update fuel" "tr_hash H" "is_root H"
    "\<lambda>k v. 4 * length k + 4 \<le> fuel \<and> op_sized (OpUpdate k v)" for H fuel
proof
  show "hash_models H (Trie_Reset s) Map.empty" if "hash_models H s M" for s M
    using that by (intro reset_models) (simp add: hash_models_def)
  show "\<exists>s'. tr_update fuel k v s = Ret s' \<and> hash_models H s' (M(k \<mapsto> v))"
    if "hash_models H s M" "v \<noteq> []" "4 * length k + 4 \<le> fuel \<and> op_sized (OpUpdate k v)" for s M k v
    using tr_update_ok [of H s M v k fuel] that by simp
qed (rule tr_hash_ok)

lemma length_index_key: "length (index_key i) \<le> 9"
  using length_be_8 [of "i mod 2 ^ 64"] by (auto simp: AppendUint64_be unat_of_nat rlp_str_def rlp_head_def)

lemma empty_stack_models: "hash32 H \<Longrightarrow> stack_models H NewStackTrie Map.empty"
  by (simp add: stack_models_def sized_def)

text \<open>
  C22: The stack trie is a correct optimisation. For every list of at most \<open>2^64\<close> non-empty encodings, \<open>DeriveSha\<close> with a
  stack trie, which hashes and forgets finished subtrees while it is being filled, neither panics nor differs from
  \<open>DeriveSha\<close> with an ordinary trie: both return, and they return the same root.
\<close>

theorem DeriveSha_hashers_agree:
  assumes "hash32 H" "length items \<le> 2 ^ 64" "list_all (\<lambda>v. 0 < length v \<and> length v \<le> 2 ^ 40) items" "40 \<le> fuel"
  shows "\<exists>r. DeriveSha StackTrie_Reset (st_update H) (st_hash H) NewStackTrie items = Ret r \<and>
    DeriveSha Trie_Reset (tr_update fuel) (tr_hash H) (emptyTrie rd) items = Ret r"
proof -
  have ok: "items ! i \<noteq> [] \<and> op_sized (OpUpdate (index_key i) (items ! i))" if "i < length items" for i
  proof -
    have "0 < length (items ! i) \<and> length (items ! i) \<le> 2 ^ 40" using assms(3) that by (simp add: list_all_length)
    then show ?thesis using length_index_key [of i] by simp
  qed
  have fuel: "4 * length (index_key i) + 4 \<le> fuel" for i using length_index_key [of i] assms(4) by linarith
  obtain r where r: "DeriveSha StackTrie_Reset (st_update H) (st_hash H) NewStackTrie items = Ret r"
      "is_root H (list_map items (derive_order (length items))) r"
    using stack_hasher.DeriveSha_root [OF empty_stack_models [OF assms(1)] assms(2)] ok by blast
  obtain r' where r': "DeriveSha Trie_Reset (tr_update fuel) (tr_hash H) (emptyTrie rd) items = Ret r'"
      "is_root H (list_map items (derive_order (length items))) r'"
    using plain_hasher.DeriveSha_root [OF empty_hash_models [OF assms(1)] assms(2), where fuel = fuel] ok fuel by blast
  show ?thesis using r r' is_root_unique by blast
qed

theorem DeriveSha_hashers_agree_witness:
  "\<exists>r. DeriveSha StackTrie_Reset (st_update (\<lambda>x. Bytes32 0)) (st_hash (\<lambda>x. Bytes32 0)) NewStackTrie [[1], [2, 3], [4]] = Ret r \<and>
    DeriveSha Trie_Reset (tr_update 40) (tr_hash (\<lambda>x. Bytes32 0)) (emptyTrie newEmptyReader) [[1], [2, 3], [4]] = Ret r"
  using DeriveSha_hashers_agree [of "\<lambda>x. Bytes32 0" "[[1], [2, 3], [4]]" 40 newEmptyReader]
  by (simp add: hash32_def Bytes32_def)

section \<open>The root commits to the list\<close>

lemma index_key_inj: "i < 2 ^ 64 \<Longrightarrow> j < 2 ^ 64 \<Longrightarrow> index_key i = index_key j \<Longrightarrow> i = j"
proof -
  assume ij: "i < 2 ^ 64" "j < 2 ^ 64" and "index_key i = index_key j"
  then have "rlp (Str (be i)) = rlp (Str (be j))" using index_key_be ij by simp
  moreover have "length (rlp (Str (be i))) < 2 ^ 64" using length_rlp_str_le [of "be i"] length_be_8 [OF ij(1)] by simp
  ultimately have b: "be i = be j" using rlp_inj by blast
  have "i < j \<or> j < i \<Longrightarrow> before (be i) (be i)" using be_before [of i j] be_before [of j i] b by auto
  moreover have "\<not> before x x" for x unfolding before_def by auto
  ultimately show "i = j" by (meson linorder_neqE_nat)
qed

lemma fold_upd_other: "(\<And>i. i \<in> set is \<Longrightarrow> f i \<noteq> x) \<Longrightarrow> fold (\<lambda>i M. M(f i \<mapsto> g i)) is M x = M x"
  by (induction "is" arbitrary: M) auto

lemma fold_upd_get: "inj_on f (set is) \<Longrightarrow> i \<in> set is \<Longrightarrow> fold (\<lambda>i M. M(f i \<mapsto> g i)) is M (f i) = Some (g i)"
proof (induction "is" arbitrary: M)
  case (Cons j js)
  show ?case
  proof (cases "i \<in> set js")
    case True
    then show ?thesis using Cons by simp
  next
    case False
    then have "fold (\<lambda>i M. M(f i \<mapsto> g i)) js (M(f i \<mapsto> g i)) (f i) = (M(f i \<mapsto> g i)) (f i)"
      using Cons.prems by (intro fold_upd_other) (auto simp: inj_on_def)
    then show ?thesis using Cons.prems(2) False by (auto simp: fun_upd_same simp del: fun_upd_apply)
  qed
qed simp

lemma list_map_get:
  assumes "length items \<le> 2 ^ 64" "i < 2 ^ 64"
  shows "list_map items (derive_order (length items)) (index_key i) = (if i < length items then Some (items ! i) else None)"
proof -
  have inj: "index_key j \<noteq> index_key i" if "j < length items" "j \<noteq> i" for j using index_key_inj [of j i] assms that by auto
  have "inj_on index_key (set (derive_order (length items)))"
    using index_key_inj assms(1) by (auto simp: set_derive_order intro!: inj_onI)
  then show ?thesis unfolding list_map_def
    using fold_upd_get [of index_key "derive_order (length items)" i "\<lambda>i. items ! i" Map.empty]
      fold_upd_other [of "derive_order (length items)" index_key "index_key i" "\<lambda>i. items ! i" Map.empty] inj
    by (auto simp: set_derive_order)
qed

lemma list_map_inj:
  assumes "length items < 2 ^ 64" "length items' < 2 ^ 64"
    and "list_map items (derive_order (length items)) = list_map items' (derive_order (length items'))"
  shows "items = items'"
proof -
  have eq: "(if i < length items then Some (items ! i) else None) = (if i < length items' then Some (items' ! i) else None)"
    if "i < 2 ^ 64" for i using list_map_get [of items i] list_map_get [of items' i] assms that by simp
  have "length items = length items'" using eq [of "length items"] eq [of "length items'"] assms(1,2) by (auto split: if_splits)
  moreover have "items ! i = items' ! i" if "i < length items" for i
    using eq [of i] that assms(1) \<open>length items = length items'\<close> by simp
  ultimately show ?thesis by (rule nth_equalityI)
qed

text \<open>The tree of the map of a list; every list has one.\<close>

definition list_tree :: "bytes list \<Rightarrow> node \<Rightarrow> bool" where
  "list_tree items s \<longleftrightarrow> (\<exists>m. hexmap m (list_map items (derive_order (length items))) \<and> tree_of s m)"

lemma fold_sized:
  "sized M \<Longrightarrow> \<forall>i \<in> set is. op_sized (OpUpdate (f i) (g i)) \<Longrightarrow> sized (fold (\<lambda>i M. M(f i \<mapsto> g i)) is M)"
  by (induction "is" arbitrary: M) (auto simp del: op_sized.simps intro: sized_upd)

abbreviation enc_ok :: "bytes list \<Rightarrow> bool" where
  "enc_ok items \<equiv> length items < 2 ^ 64 \<and> list_all (\<lambda>v. 0 < length v \<and> length v \<le> 2 ^ 40) items"

lemma enc_ok_item: "enc_ok items \<Longrightarrow> i < length items \<Longrightarrow> items ! i \<noteq> [] \<and> op_sized (OpUpdate (index_key i) (items ! i))"
  using length_index_key [of i] by (auto simp: list_all_length)

lemma list_map_sized: "enc_ok items \<Longrightarrow> sized (list_map items (derive_order (length items)))"
  unfolding list_map_def using enc_ok_item by (intro fold_sized) (auto simp: sized_def set_derive_order)

lemma stack_root:
  assumes "hash32 H" "enc_ok items" "list_tree items s" "DeriveSha StackTrie_Reset (st_update H) (st_hash H) NewStackTrie items = Ret r"
  shows "r = root_of H s"
proof -
  have "is_root H (list_map items (derive_order (length items))) r"
    using stack_hasher.DeriveSha_root [OF empty_stack_models [OF assms(1)], of items] enc_ok_item [OF assms(2)] assms(2,4) by auto
  moreover have "is_root H (list_map items (derive_order (length items))) (root_of H s)"
    using assms(3) by (auto simp: list_tree_def is_root_def)
  ultimately show ?thesis by (rule is_root_unique)
qed

text \<open>
  The root commits to the list. If \<open>DeriveSha\<close> returns the same root for two lists of encodings, the lists are equal, in
  their lengths and item by item, provided \<open>H\<close> does not collide on the encodings of the nodes of their two trees and of the
  empty string, whose hash is \<open>EmptyRootHash\<close>.
\<close>

theorem DeriveSha_binds:
  assumes "hash32 H" "H [0x80] = Bytes32 EmptyRootHash" "enc_ok items" "enc_ok items'"
    and "list_tree items s" "list_tree items' s'" "inj_on H ({[0x80]} \<union> tree_encs H s \<union> tree_encs H s')"
    and "DeriveSha StackTrie_Reset (st_update H) (st_hash H) NewStackTrie items = Ret r"
    and "DeriveSha StackTrie_Reset (st_update H) (st_hash H) NewStackTrie items' = Ret r"
  shows "items = items'"
proof -
  obtain m m' where m: "hexmap m (list_map items (derive_order (length items)))" "tree_of s m"
      "hexmap m' (list_map items' (derive_order (length items')))" "tree_of s' m'"
    using assms(5,6) by (auto simp: list_tree_def)
  have sm: "small m" "small m'" using hexmap_small m list_map_sized assms(3,4) by blast+
  have root: "root_of H s = root_of H s'" using stack_root [OF assms(1,3,5,8)] stack_root [OF assms(1,4,6,9)] by simp
  have "tree_item H s = tree_item H s'" by (rule root_item [OF m(2,4) sm assms(1,2,7)]) (use root in auto)
  then have "s = s'" by (intro tree_item_inj [OF m(2,4) sm assms(1,7)]) auto
  then have "m = m'" using tree_determines m(2,4) by blast
  then show ?thesis using list_map_inj [of items items'] m(1,3) assms(3,4) by (auto simp: hexmap_def)
qed

theorem DeriveSha_binds_witness:
  "\<exists>H r. hash32 H \<and> DeriveSha StackTrie_Reset (st_update H) (st_hash H) NewStackTrie [] = Ret r \<and> (r = EmptyRootHash) \<and>
    ([] :: bytes list) = []"
proof -
  define H :: "bytes \<Rightarrow> bytes" where "H = (\<lambda>x. Bytes32 EmptyRootHash)"
  have h: "hash32 H" "H [0x80] = Bytes32 EmptyRootHash" by (auto simp: hash32_def H_def Bytes32_def)
  have t: "list_tree [] NilNode" unfolding list_tree_def
    using hexmap_empty t_nil by (auto simp: list_map_def derive_order_def)
  obtain r where r: "DeriveSha StackTrie_Reset (st_update H) (st_hash H) NewStackTrie [] = Ret r"
    using stack_hasher.DeriveSha_root [OF empty_stack_models [OF h(1)], of "[]"] by auto
  have "r = EmptyRootHash" using stack_root [OF h(1) _ t r] by (simp add: root_of_def)
  moreover have "([] :: bytes list) = []" using DeriveSha_binds [OF h _ _ t t _ r r] by simp
  ultimately show ?thesis using h r by blast
qed

end
