(* ===== verification/Block_Validator.thy ===== *)
theory Block_Validator
  imports Derive_Sha Block_Processor RLP_Buffer
begin

text \<open>
  The block validator (\<^verbatim>\<open>client/core/block_validator.go\<close>): \<open>ValidateBody\<close>, which checks a block's uncles and that its header commits to its
  body, and \<open>ValidateState\<close>, which checks the results of processing it; with the encodings that the roots are taken of, those
  of receipts, logs and withdrawals (\<^verbatim>\<open>client/core/types/receipt.go\<close>, \<^verbatim>\<open>gen_log_rlp.go\<close>, \<^verbatim>\<open>gen_withdrawal_rlp.go\<close>).

  The encoding of a transaction, Keccak, the hash of a list of uncles and what the chain has stored are fields of
  \<open>validatorLib\<close>.

  The facts: the encodings are injective, and a header commits to the transactions, the withdrawals and the consensus fields of
  the receipts of every block that is accepted with it.
\<close>

section \<open>Encodings\<close>

record Withdrawal =
  wIndex :: u64
  wValidator :: u64
  wAddress :: address
  wAmount :: u64

definition Withdrawal_EncodeRLP :: "Withdrawal \<Rightarrow> bytes go" where
  "Withdrawal_EncodeRLP obj =
    (let (tmp0, w) = eb_list eb_reset;
         w = eb_writeUint64 (wIndex obj) w;
         w = eb_writeUint64 (wValidator obj) w;
         w = eb_writeBytes (addr_Bytes (wAddress obj)) w;
         w = eb_writeUint64 (wAmount obj) w
     in go_bind (eb_listEnd tmp0 w) makeBytes)"

definition ReceiptStatusFailed :: u64 where
  "ReceiptStatusFailed = 0"

definition statusEncoding :: "Receipt \<Rightarrow> bytes" where
  "statusEncoding r = (case PostState r of
     None \<Rightarrow> if Status r = ReceiptStatusFailed then [] else [1]
   | Some root \<Rightarrow> Bytes32 root)"

text \<open>The structure \<open>receiptRLP\<close> and the logs in it, as the encoder traverses them.\<close>

definition log_item :: "Log \<Rightarrow> item" where
  "log_item l = Lst [Str (addr_Bytes (lAddress l)), Lst (map (\<lambda>t. Str (Bytes32 t)) (lTopics l)), Str (lData l)]"

definition receiptRLP :: "Receipt \<Rightarrow> item" where
  "receiptRLP r = Lst [Str (statusEncoding r), Str (be (unat (CumulativeGasUsed r))), Str (rBloom r), Lst (map log_item (rLogs r))]"

definition Receipts_EncodeIndex :: "Receipt \<Rightarrow> bytes go" where
  "Receipts_EncodeIndex r =
    (if rType r = 0 then EncodeToBytes (receiptRLP r)
     else if rType r = 1 then go_bind (EncodeToBytes (receiptRLP r)) (\<lambda>b. Ret (1 # b))
     else if rType r = 2 then go_bind (EncodeToBytes (receiptRLP r)) (\<lambda>b. Ret (2 # b))
     else Ret [])"

fun encode_all :: "('a \<Rightarrow> bytes go) \<Rightarrow> 'a list \<Rightarrow> bytes list go" where
  "encode_all enc [] = Ret []"
| "encode_all enc (x # xs) = go_bind (enc x) (\<lambda>b. go_bind (encode_all enc xs) (\<lambda>bs. Ret (b # bs)))"

section \<open>The validator\<close>

record FullBlock = Block +
  bTransactions :: "Transaction list"
  bWithdrawals :: "Withdrawal list option"

record validatorLib =
  vlKeccak :: "bytes \<Rightarrow> bytes"
  vlEncodeTx :: "Transaction \<Rightarrow> bytes"
  vlRlpHash :: "Header list \<Rightarrow> hash"
  vlHasBlockAndState :: "hash \<Rightarrow> u64 \<Rightarrow> bool"
  vlHasBlock :: "hash \<Rightarrow> u64 \<Rightarrow> bool"

datatype bodyErr =
    ErrKnownBlock
  | UncleErr HeaderError
  | UncleRootMismatch
  | TxRootMismatch
  | MissingWithdrawals
  | WithdrawalsRootMismatch
  | UnexpectedWithdrawals
  | UnknownParent
  | PrunedParent

definition CalcUncleHash :: "validatorLib \<Rightarrow> Header list \<Rightarrow> hash" where
  "CalcUncleHash vl uncles = (if uncles = [] then EmptyUncleHash else vlRlpHash vl uncles)"

definition list_root :: "validatorLib \<Rightarrow> bytes list \<Rightarrow> hash go" where
  "list_root vl encs = DeriveSha StackTrie_Reset (st_update (vlKeccak vl)) (st_hash (vlKeccak vl)) NewStackTrie encs"

definition check_parent :: "validatorLib \<Rightarrow> FullBlock \<Rightarrow> bodyErr option" where
  "check_parent vl b =
    (let parent = ParentHash (bHeader b); n = NumberU64 (Block.truncate b) - 1
     in if \<not> vlHasBlockAndState vl parent n then
          (if \<not> vlHasBlock vl parent n then Some UnknownParent else Some PrunedParent)
        else None)"

definition ValidateBody :: "PowParams \<Rightarrow> Ethash \<Rightarrow> ChainReader \<Rightarrow> validatorLib \<Rightarrow> u64 \<Rightarrow> FullBlock \<Rightarrow> bodyErr option go" where
  "ValidateBody P eth chain vl unixNow b =
    (let header = bHeader b
     in if vlHasBlockAndState vl (headerHash P header) (NumberU64 (Block.truncate b)) then Ret (Some ErrKnownBlock)
        else go_bind (VerifyUncles P eth chain (Block.truncate b) unixNow) (\<lambda>err. case err of
          Some e \<Rightarrow> Ret (Some (UncleErr e))
        | None \<Rightarrow>
            if CalcUncleHash vl (bUncles b) \<noteq> UncleHash header then Ret (Some UncleRootMismatch)
            else go_bind (list_root vl (map (vlEncodeTx vl) (bTransactions b))) (\<lambda>hash.
              if hash \<noteq> TxHash header then Ret (Some TxRootMismatch)
              else case WithdrawalsHash header of
                Some wh \<Rightarrow> (case bWithdrawals b of
                    None \<Rightarrow> Ret (Some MissingWithdrawals)
                  | Some ws \<Rightarrow> go_bind (encode_all Withdrawal_EncodeRLP ws) (\<lambda>encs. go_bind (list_root vl encs) (\<lambda>hash.
                      if hash \<noteq> wh then Ret (Some WithdrawalsRootMismatch) else Ret (check_parent vl b))))
              | None \<Rightarrow> if bWithdrawals b \<noteq> None then Ret (Some UnexpectedWithdrawals) else Ret (check_parent vl b))))"

datatype stateErr = InvalidGasUsed | InvalidBloom | InvalidReceiptRoot | InvalidMerkleRoot

definition bloom_word :: "Bloom \<Rightarrow> 2048 word" where
  "bloom_word b = word_of_nat (bytes_to_nat b)"

definition ValidateState :: "ChainConfig \<Rightarrow> procLib \<Rightarrow> (bytes \<Rightarrow> hash) \<Rightarrow> validatorLib \<Rightarrow> Header \<Rightarrow> StateDB \<Rightarrow> Receipt list \<Rightarrow> u64 \<Rightarrow>
    (stateErr option \<times> StateDB) go" where
  "ValidateState config pl kec vl header st receipts usedGas =
    (if GasUsed header \<noteq> usedGas then Ret (Some InvalidGasUsed, st)
     else if bloom_word (CreateBloom kec (map rLogs receipts)) \<noteq> Bloom header then Ret (Some InvalidBloom, st)
     else go_bind (encode_all Receipts_EncodeIndex receipts) (\<lambda>encs. go_bind (list_root vl encs) (\<lambda>hash.
       if hash \<noteq> ReceiptHash header then Ret (Some InvalidReceiptRoot, st)
       else case intermediateRoot pl (IsEIP158 config (Number header)) st of (root, st) \<Rightarrow>
         if Root header \<noteq> root then Ret (Some InvalidMerkleRoot, st) else Ret (None, st))))"

section \<open>The encodings are injective\<close>

definition withdrawal_item :: "Withdrawal \<Rightarrow> item" where
  "withdrawal_item w = Lst [Str (be (unat (wIndex w))), Str (be (unat (wValidator w))), Str (addr_Bytes (wAddress w)), Str (be (unat (wAmount w)))]"

lemma be_u64_inj: "be (unat (x :: u64)) = be (unat y) \<Longrightarrow> x = y"
  by (metis bytes_to_nat_be word_unat_eq_iff)

lemma addr_Bytes_inj: "addr_Bytes a = addr_Bytes b \<Longrightarrow> a = b"
proof -
  assume "addr_Bytes a = addr_Bytes b"
  then have "unat a mod 256 ^ 20 = unat b mod 256 ^ 20" unfolding addr_Bytes_def by (metis bytes_to_nat_to_bytes)
  moreover have "unat x < 256 ^ 20" for x :: address using unsigned_less [of x, where 'a = nat] by simp
  ultimately show ?thesis by (simp add: word_unat_eq_iff)
qed

lemma Bytes32_inj: "Bytes32 a = Bytes32 b \<Longrightarrow> a = b"
  by (metis SetBytes_Bytes32)

lemma length_be_u64: "length (be (unat (x :: u64))) \<le> 8"
  using length_be_8 unat_u64_less [of x] by simp

lemma Withdrawal_rlp: "Withdrawal_EncodeRLP w = Ret (rlp (withdrawal_item w)) \<and> length (rlp (withdrawal_item w)) \<le> 100"
proof -
  let ?i = "rlp_str (be (unat (wIndex w)))" and ?v = "rlp_str (be (unat (wValidator w)))" and ?a = "rlp_str (addr_Bytes (wAddress w))"
    and ?m = "rlp_str (be (unat (wAmount w)))"
  have al: "length (addr_Bytes (wAddress w)) = 20" by (simp add: addr_Bytes_def)
  have l: "length (rlp_str (be (unat (x :: u64)))) \<le> 17" for x using length_rlp_str_le [of "be (unat x)"] length_be_u64 [of x] by simp
  have la: "length ?a \<le> 29" using length_rlp_str_le [of "addr_Bytes (wAddress w)"] al by simp
  have len: "length (?i @ ?v @ ?a @ ?m) \<le> 80" using l [of "wIndex w"] l [of "wValidator w"] l [of "wAmount w"] la by simp
  let ?w0 = "snd (eb_list eb_reset)"
  have e: "emits ?w0 (eb_writeUint64 (wAmount w) (eb_writeBytes (addr_Bytes (wAddress w)) (eb_writeUint64 (wValidator w) (eb_writeUint64 (wIndex w) ?w0))))
      (?i @ ?v @ ?a @ ?m)"
    using al by (intro emits_trans [OF emits_writeUint64] emits_trans [OF emits_writeBytes] emits_writeUint64) simp
  obtain w' where "eb_listEnd (fst (eb_list eb_reset)) (eb_writeUint64 (wAmount w) (eb_writeBytes (addr_Bytes (wAddress w)) (eb_writeUint64 (wValidator w)
      (eb_writeUint64 (wIndex w) ?w0)))) = Ret w'" "emits eb_reset w' (rlp_lst (?i @ ?v @ ?a @ ?m))"
    using emits_list [OF e] len by auto
  then have "Withdrawal_EncodeRLP w = Ret (rlp (withdrawal_item w))"
    using makeBytes_emits by (simp add: Withdrawal_EncodeRLP_def withdrawal_item_def case_prod_beta Let_def)
  moreover have "length (rlp (withdrawal_item w)) \<le> 100"
    using length_rlp_lst_le [of "?i @ ?v @ ?a @ ?m"] len by (simp add: withdrawal_item_def)
  ultimately show ?thesis by simp
qed

lemma withdrawal_item_inj: "withdrawal_item v = withdrawal_item w \<Longrightarrow> v = w"
  unfolding withdrawal_item_def by (cases v; cases w) (auto dest: be_u64_inj addr_Bytes_inj)


text \<open>What a receipt says to the consensus rules; the rest is derived when it is read.\<close>

definition log_key :: "Log \<Rightarrow> address \<times> hash list \<times> bytes" where
  "log_key l = (lAddress l, lTopics l, lData l)"

definition receipt_key :: "Receipt \<Rightarrow> u8 \<times> bytes \<times> u64 \<times> Bloom \<times> (address \<times> hash list \<times> bytes) list" where
  "receipt_key r = (rType r, statusEncoding r, CumulativeGasUsed r, rBloom r, map log_key (rLogs r))"

lemma Str_Bytes32_inj: "map (\<lambda>t. Str (Bytes32 t)) xs = map (\<lambda>t. Str (Bytes32 t)) ys \<Longrightarrow> xs = ys"
proof -
  have "inj (\<lambda>t. Str (Bytes32 t))" using Bytes32_inj by (auto intro: injI)
  then show "map (\<lambda>t. Str (Bytes32 t)) xs = map (\<lambda>t. Str (Bytes32 t)) ys \<Longrightarrow> xs = ys" by (simp add: inj_map_eq_map)
qed

lemma log_item_inj: "log_item l = log_item k \<Longrightarrow> log_key l = log_key k"
  unfolding log_item_def log_key_def by (auto dest: addr_Bytes_inj Str_Bytes32_inj)

lemma log_items_inj: "map log_item ls = map log_item ks \<Longrightarrow> map log_key ls = map log_key ks"
proof (induction ls arbitrary: ks)
  case (Cons l ls)
  then obtain k ks' where ks: "ks = k # ks'" "log_item l = log_item k" "map log_item ls = map log_item ks'" by (cases ks) auto
  show ?case using Cons.IH [OF ks(3)] log_item_inj [OF ks(2)] ks(1) by simp
qed simp

lemma receiptRLP_inj: "receiptRLP r = receiptRLP q \<Longrightarrow> rType r = rType q \<Longrightarrow> receipt_key r = receipt_key q"
proof -
  assume eq: "receiptRLP r = receiptRLP q" and t: "rType r = rType q"
  have e: "statusEncoding r = statusEncoding q" "be (unat (CumulativeGasUsed r)) = be (unat (CumulativeGasUsed q))" "rBloom r = rBloom q"
      "map log_item (rLogs r) = map log_item (rLogs q)"
    using eq by (simp_all add: receiptRLP_def)
  show ?thesis unfolding receipt_key_def t e(1,3) be_u64_inj [OF e(2)] log_items_inj [OF e(4)] ..
qed

definition receipt_fits :: "Receipt \<Rightarrow> bool" where
  "receipt_fits r \<longleftrightarrow> rType r \<le> 2 \<and> length (rlp (receiptRLP r)) < 2 ^ 40"

definition typed :: "Receipt \<Rightarrow> bytes" where
  "typed r = (if rType r = 0 then rlp (receiptRLP r) else rType r # rlp (receiptRLP r))"

lemma u8_cases: "(t :: u8) \<le> 2 \<Longrightarrow> t = 0 \<or> t = 1 \<or> t = 2"
proof -
  assume "t \<le> 2"
  then have "unat t \<le> 2" by (simp add: word_le_nat_alt)
  then have "unat t = unat (0 :: u8) \<or> unat t = unat (1 :: u8) \<or> unat t = unat (2 :: u8)" by auto
  then show ?thesis by (simp only: word_unat_eq_iff)
qed

lemma unat_u8_add: "unat x + n < 256 \<Longrightarrow> unat (x + word_of_nat n :: u8) = unat x + n"
  by (simp add: unat_word_ariths unat_of_nat)

lemma rlp_lst_first: "length c < 2 ^ 64 \<Longrightarrow> \<exists>b bs. rlp_lst c = b # bs \<and> 2 < b"
proof (cases "length c < 56")
  case True
  then have "unat (0xC0 + word_of_nat (length c) :: u8) = 192 + length c" using unat_u8_add [of "0xC0" "length c"] by simp
  then show ?thesis using True by (simp add: rlp_lst_def rlp_head_def word_less_nat_alt)
next
  case False
  assume "length c < 2 ^ 64"
  then have "length (be (length c)) \<le> 8" by (rule length_be_8)
  then have "unat (0xF7 + word_of_nat (length (be (length c))) :: u8) = 247 + length (be (length c))"
    using unat_u8_add [of "0xF7" "length (be (length c))"] by simp
  then show ?thesis using False by (simp add: rlp_lst_def rlp_head_def word_less_nat_alt)
qed

lemma receipt_first:
  assumes "receipt_fits r"
  shows "\<exists>b bs. rlp (receiptRLP r) = b # bs \<and> 2 < b"
proof -
  obtain c where c: "rlp (receiptRLP r) = rlp_lst c" by (simp add: receiptRLP_def)
  moreover have "length c < 2 ^ 64" using length_rlp_lst [of c] assms c by (simp add: receipt_fits_def)
  ultimately show ?thesis using rlp_lst_first by simp
qed

lemma typed_inj:
  assumes "receipt_fits r" "receipt_fits q" "typed r = typed q"
  shows "receipt_key r = receipt_key q"
proof -
  obtain b bs where r: "rlp (receiptRLP r) = b # bs" "2 < b" using receipt_first [OF assms(1)] by blast
  obtain c cs where q: "rlp (receiptRLP q) = c # cs" "2 < c" using receipt_first [OF assms(2)] by blast
  have le: "rType r \<le> 2" "rType q \<le> 2" using assms(1,2) by (auto simp: receipt_fits_def)
  have ne: "b \<noteq> rType q" "c \<noteq> rType r" using le r(2) q(2) by auto
  have t: "rType r = rType q"
    using assms(3) ne unfolding typed_def r(1) q(1) by (cases "rType r = 0"; cases "rType q = 0") auto
  then have "rlp (receiptRLP r) = rlp (receiptRLP q)" using assms(3) unfolding typed_def by (cases "rType q = 0") simp_all
  moreover have "length (rlp (receiptRLP r)) < 2 ^ 64" using assms(1) by (simp add: receipt_fits_def)
  ultimately have "receiptRLP r = receiptRLP q" by (rule rlp_inj)
  then show ?thesis using t by (rule receiptRLP_inj)
qed

lemma EncodeIndex_typed: "receipt_fits r \<Longrightarrow> Receipts_EncodeIndex r = Ret (typed r) \<and> typed r \<noteq> [] \<and> length (typed r) \<le> 2 ^ 40"
  using u8_cases [of "rType r"] EncodeToBytes_rlp [of "receiptRLP r"] receipt_first [of r]
  by (auto simp: receipt_fits_def Receipts_EncodeIndex_def typed_def)

lemma encode_all_map: "(\<And>x. x \<in> set xs \<Longrightarrow> enc x = Ret (f x)) \<Longrightarrow> encode_all enc xs = Ret (map f xs)"
  by (induction xs) auto

section \<open>The header commits to the block\<close>

text \<open>\<open>trees_apart\<close>: the hash function does not collide on the nodes of the trees of two lists, nor with the empty tree.\<close>

definition trees_apart :: "(bytes \<Rightarrow> bytes) \<Rightarrow> bytes list \<Rightarrow> bytes list \<Rightarrow> bool" where
  "trees_apart H xs ys \<longleftrightarrow> (\<exists>s s'. list_tree xs s \<and> list_tree ys s' \<and> inj_on H ({[0x80]} \<union> tree_encs H s \<union> tree_encs H s'))"

definition keccak_ok :: "(bytes \<Rightarrow> bytes) \<Rightarrow> bool" where
  "keccak_ok H \<longleftrightarrow> hash32 H \<and> H [0x80] = Bytes32 EmptyRootHash"

lemma list_root_inj:
  assumes "keccak_ok (vlKeccak vl)" "enc_ok xs" "enc_ok ys" "trees_apart (vlKeccak vl) xs ys" "list_root vl xs = Ret r" "list_root vl ys = Ret r"
  shows "xs = ys"
  using assms DeriveSha_binds [of "vlKeccak vl" xs ys _ _ r] unfolding keccak_ok_def trees_apart_def list_root_def by blast

lemma ValidateBody_None:
  assumes "ValidateBody P eth chain vl now b = Ret None"
  shows "list_root vl (map (vlEncodeTx vl) (bTransactions b)) = Ret (TxHash (bHeader b))"
    and "WithdrawalsHash (bHeader b) = None \<longleftrightarrow> bWithdrawals b = None"
    and "WithdrawalsHash (bHeader b) = Some wh \<Longrightarrow> bWithdrawals b = Some ws \<Longrightarrow> list_root vl (map (\<lambda>w. rlp (withdrawal_item w)) ws) = Ret wh"
proof -
  have enc: "encode_all Withdrawal_EncodeRLP ws = Ret (map (\<lambda>w. rlp (withdrawal_item w)) ws)" for ws
    using Withdrawal_rlp by (intro encode_all_map) simp
  show "list_root vl (map (vlEncodeTx vl) (bTransactions b)) = Ret (TxHash (bHeader b))"
    using assms by (auto simp: ValidateBody_def Let_def split: if_splits option.splits)
  show "WithdrawalsHash (bHeader b) = None \<longleftrightarrow> bWithdrawals b = None"
    using assms by (auto simp: ValidateBody_def Let_def split: if_splits option.splits)
  show "list_root vl (map (\<lambda>w. rlp (withdrawal_item w)) ws) = Ret wh" if "WithdrawalsHash (bHeader b) = Some wh" "bWithdrawals b = Some ws"
    using assms that by (auto simp: ValidateBody_def Let_def enc split: if_splits option.splits)
qed


abbreviation tx_encs :: "validatorLib \<Rightarrow> FullBlock \<Rightarrow> bytes list" where
  "tx_encs vl b \<equiv> map (vlEncodeTx vl) (bTransactions b)"

abbreviation w_encs :: "Withdrawal list \<Rightarrow> bytes list" where
  "w_encs ws \<equiv> map (\<lambda>w. rlp (withdrawal_item w)) ws"

lemma w_encs_ok: "length ws < 2 ^ 64 \<Longrightarrow> enc_ok (w_encs ws)"
proof -
  have "0 < length (rlp (withdrawal_item w)) \<and> length (rlp (withdrawal_item w)) \<le> 2 ^ 40" for w
    using Withdrawal_rlp [of w] by (auto simp: withdrawal_item_def rlp_lst_def length_rlp_head)
  then show "length ws < 2 ^ 64 \<Longrightarrow> enc_ok (w_encs ws)" by (auto simp: list_all_iff)
qed

lemma w_encs_inj: "w_encs ws = w_encs vs \<Longrightarrow> ws = vs"
proof -
  have "inj (\<lambda>w. rlp (withdrawal_item w))"
  proof (rule injI)
    fix v w assume eq: "rlp (withdrawal_item v) = rlp (withdrawal_item w)"
    have "length (rlp (withdrawal_item v)) < 2 ^ 64" using Withdrawal_rlp [of v] by simp
    then show "v = w" using rlp_inj [OF eq] withdrawal_item_inj by blast
  qed
  then show "w_encs ws = w_encs vs \<Longrightarrow> ws = vs" by (simp add: inj_map_eq_map)
qed


lemma ValidateState_None:
  assumes "ValidateState config pl kec vl h st rs used = Ret (None, st')" "list_all receipt_fits rs"
  shows "list_root vl (map typed rs) = Ret (ReceiptHash h)"
proof -
  have "encode_all Receipts_EncodeIndex rs = Ret (map typed rs)"
    using assms(2) EncodeIndex_typed by (intro encode_all_map) (auto simp: list_all_iff)
  then show ?thesis using assms(1) by (auto simp: ValidateState_def split: if_splits prod.splits)
qed

lemma typed_list_inj: "list_all receipt_fits rs \<Longrightarrow> list_all receipt_fits qs \<Longrightarrow> map typed rs = map typed qs \<Longrightarrow> map receipt_key rs = map receipt_key qs"
proof (induction rs arbitrary: qs)
  case (Cons r rs)
  then obtain q qs' where q: "qs = q # qs'" "typed r = typed q" "map typed rs = map typed qs'" by (cases qs) auto
  have "receipt_key r = receipt_key q" using typed_inj [OF _ _ q(2)] Cons.prems q(1) by simp
  moreover have "map receipt_key rs = map receipt_key qs'" using Cons.IH [OF _ _ q(3)] Cons.prems q(1) by simp
  ultimately show ?case using q(1) by simp
qed simp


section \<open>Witnesses\<close>

definition wit_vl :: validatorLib where
  "wit_vl = \<lparr>vlKeccak = (\<lambda>x. Bytes32 EmptyRootHash), vlEncodeTx = (\<lambda>tx. [1]), vlRlpHash = (\<lambda>us. 0),
     vlHasBlockAndState = (\<lambda>h n. h = 0), vlHasBlock = (\<lambda>h n. h = 0)\<rparr>"

definition wit_block :: FullBlock where
  "wit_block = \<lparr>bHeader = zeroHeader\<lparr>TxHash := EmptyRootHash, ReceiptHash := EmptyRootHash, Root := 1, Number := 1\<rparr>, bUncles = [],
     bTransactions = [], bWithdrawals = None\<rparr>"

lemma wit_keccak: "keccak_ok (vlKeccak wit_vl)"
  by (auto simp: keccak_ok_def hash32_def wit_vl_def Bytes32_def)

lemma wit_empty_tree: "list_tree [] NilNode"
  unfolding list_tree_def using hexmap_empty t_nil by (auto simp: list_map_def derive_order_def)

lemma wit_apart: "trees_apart (vlKeccak wit_vl) [] []"
  unfolding trees_apart_def using wit_empty_tree by (intro exI conjI) auto

lemma wit_root: "list_root wit_vl [] = Ret EmptyRootHash"
proof -
  have h: "hash32 (vlKeccak wit_vl)" using wit_keccak by (simp add: keccak_ok_def)
  obtain r where "list_root wit_vl [] = Ret r" unfolding list_root_def
    using stack_hasher.DeriveSha_root [OF empty_stack_models [OF h], of "[]"] by auto
  moreover from this have "r = EmptyRootHash" using stack_root [OF h _ wit_empty_tree] by (simp add: root_of_def list_root_def)
  ultimately show ?thesis by simp
qed

lemma wit_body: "ValidateBody demo_pow demo_engine demo_chain wit_vl 0 wit_block = Ret None"
proof -
  have "VerifyUncles demo_pow demo_engine demo_chain (Block.truncate wit_block) 0 = Ret None"
    by (simp add: VerifyUncles_def wit_block_def Block.defs demo_engine_def)
  then show ?thesis using wit_root
    by (simp add: ValidateBody_def Let_def wit_block_def CalcUncleHash_def check_parent_def zeroHeader_def demo_pow_def)
      (simp add: wit_vl_def)
qed


definition wit_proc :: procLib where
  "wit_proc = \<lparr>Sender = (\<lambda>c n tx. None), txHash = (\<lambda>tx. 0), blockHash = (\<lambda>h. 0), intermediateRoot = (\<lambda>b s. (1, s))\<rparr>"

lemma zero_bytes: "bytes_to_nat (replicate n 0) = 0"
  by (induction n) (simp_all add: bytes_to_nat_def)

lemma wit_state: "ValidateState MainnetChainConfig wit_proc (\<lambda>b. 0) wit_vl (bHeader wit_block) demo_state [] 0 = Ret (None, demo_state)"
  using wit_root by (simp add: ValidateState_def wit_block_def zeroHeader_def wit_proc_def bloom_word_def CreateBloom_def zeroBloom_def zero_bytes)


end
