(* ===== verification/Header_Chain.thy ===== *)
theory Header_Chain
  imports Ethash
begin

text \<open>
  Fork choice, the header chain and the gas limit of a new block (\<^verbatim>\<open>client/core/forkchoice.go\<close>,
  \<^verbatim>\<open>client/core/headerchain.go\<close>, \<open>CalcGasLimit\<close> of \<^verbatim>\<open>client/core/block_validator.go\<close>).

  The database keeps, per number and hash, headers and total difficulties, the canonical hash of each number (zero when there is
  none) and the hash of the head. A batch is the list of its writes; they become visible when the batch is written, as in the
  code, where the reads of a reorganisation see the database from before. Header hashing is the parameter \<open>hh\<close>. The caches
  hold copies of what the database has; the one effect they have within a call, that a header written by
  \<open>WriteHeaders\<close> is known to the rest of the loop, is the argument \<open>seen\<close>. The freezer is part of the database.

  The facts: which head the fork choice prefers; that an import keeps the canonical index equal to the ancestry of the head, with
  total difficulties that add up; and that the difficulty of the head never falls.
\<close>

section \<open>Fork choice\<close>

record ForkChoice =
  fcGetTd :: "hash \<Rightarrow> u64 \<Rightarrow> int option"
  fcTerminal :: "int option"
  fcPreserve :: "(Header \<Rightarrow> bool) option"

definition Uint64Of :: "int \<Rightarrow> u64" where
  "Uint64Of x = word_of_int x"

text \<open>\<open>None\<close> is the error of a missing total difficulty; \<open>coin\<close> is the outcome of \<open>f.rand.Float64() < 0.5\<close>.\<close>

definition ReorgNeeded :: "(Header \<Rightarrow> hash) \<Rightarrow> ForkChoice \<Rightarrow> bool \<Rightarrow> Header \<Rightarrow> Header \<Rightarrow> bool option" where
  "ReorgNeeded hh f coin current extern =
    (case (fcGetTd f (hh current) (Uint64Of (Number current)), fcGetTd f (hh extern) (Uint64Of (Number extern))) of
       (Some localTD, Some externTd) \<Rightarrow>
         if (case fcTerminal f of Some ttd \<Rightarrow> ttd \<le> externTd | None \<Rightarrow> False) then Some True
         else if Number current = Number extern then Some False
         else if externTd > localTD then Some True
         else if externTd < localTD then Some False
         else let externNum = Uint64Of (Number extern); localNum = Uint64Of (Number current)
              in if externNum < localNum then Some True
                 else if externNum = localNum then
                   (let currentPreserve = (case fcPreserve f of Some p \<Rightarrow> p current | None \<Rightarrow> False);
                        externPreserve = (case fcPreserve f of Some p \<Rightarrow> p extern | None \<Rightarrow> False)
                    in Some (\<not> currentPreserve \<and> (externPreserve \<or> coin)))
                 else Some False
     | _ \<Rightarrow> None)"

section \<open>The header chain\<close>

record chainDb =
  dbHeader :: "hash \<Rightarrow> u64 \<Rightarrow> Header option"
  dbTd :: "hash \<Rightarrow> u64 \<Rightarrow> int option"
  dbNumber :: "hash \<Rightarrow> u64 option"
  dbCanon :: "u64 \<Rightarrow> hash"
  dbHeadHeader :: hash

datatype dbOp =
    WriteTd hash u64 int
  | WriteHeader hash Header
  | WriteCanonicalHash hash u64
  | DeleteCanonicalHash u64
  | WriteHeadHeaderHash hash

fun db_put :: "dbOp \<Rightarrow> chainDb \<Rightarrow> chainDb" where
  "db_put (WriteTd h n td) db = db\<lparr>dbTd := (dbTd db)(h := (dbTd db h)(n \<mapsto> td))\<rparr>"
| "db_put (WriteHeader h hdr) db =
     (let n = Uint64Of (Number hdr)
      in db\<lparr>dbNumber := (dbNumber db)(h \<mapsto> n), dbHeader := (dbHeader db)(h := (dbHeader db h)(n \<mapsto> hdr))\<rparr>)"
| "db_put (WriteCanonicalHash h n) db = db\<lparr>dbCanon := (dbCanon db)(n := h)\<rparr>"
| "db_put (DeleteCanonicalHash n) db = db\<lparr>dbCanon := (dbCanon db)(n := 0)\<rparr>"
| "db_put (WriteHeadHeaderHash h) db = db\<lparr>dbHeadHeader := h\<rparr>"

definition batch_Write :: "dbOp list \<Rightarrow> chainDb \<Rightarrow> chainDb" where
  "batch_Write ops db = fold db_put ops db"

record HeaderChain =
  hcDb :: chainDb
  hcCurrent :: Header
  hcCurrentHash :: hash

datatype chainErr = UnknownAncestor | ImportAborted | MissingTd | MissingParent

datatype WriteStatus = NonStatTy | CanonStatTy | SideStatTy

text \<open>\<open>WriteHeaders\<close>: its loop returns the writes and the number of headers inserted.\<close>

fun write_headers :: "(Header \<Rightarrow> hash) \<Rightarrow> chainDb \<Rightarrow> int \<Rightarrow> bool \<Rightarrow> hash set \<Rightarrow> Header list \<Rightarrow> dbOp list \<times> nat" where
  "write_headers hh db newTD parentKnown seen [] = ([], 0)"
| "write_headers hh db newTD parentKnown seen (header # rest) =
    (let hash = (case rest of nxt # _ \<Rightarrow> ParentHash nxt | [] \<Rightarrow> hh header);
         number = Uint64Of (Number header);
         newTD = newTD + Difficulty header;
         alreadyKnown = (parentKnown \<and> (hash \<in> seen \<or> dbHeader db hash number \<noteq> None))
     in if alreadyKnown then write_headers hh db newTD True seen rest
        else let (ops, n) = write_headers hh db newTD False (insert hash seen) rest
             in (WriteTd hash number newTD # WriteHeader (hh header) header # ops, n + 1))"

definition WriteHeaders :: "(Header \<Rightarrow> hash) \<Rightarrow> bool \<Rightarrow> Header list \<Rightarrow> HeaderChain \<Rightarrow> (chainErr + nat) \<times> HeaderChain" where
  "WriteHeaders hh interrupted headers hc = (case headers of
     [] \<Rightarrow> (Inr 0, hc)
   | first # _ \<Rightarrow> (case dbTd (hcDb hc) (ParentHash first) (Uint64Of (Number first) - 1) of
       None \<Rightarrow> (Inl UnknownAncestor, hc)
     | Some ptd \<Rightarrow>
         let (ops, n) = write_headers hh (hcDb hc) ptd True {} headers
         in if interrupted then (Inl ImportAborted, hc)
            else (Inr n, hc\<lparr>hcDb := batch_Write ops (hcDb hc)\<rparr>)))"

text \<open>The two loops of \<open>Reorg\<close> when the headers do not extend the head.\<close>

fun delete_above :: "nat \<Rightarrow> chainDb \<Rightarrow> u64 \<Rightarrow> dbOp list go" where
  "delete_above 0 db i = NoFuel"
| "delete_above (Suc fuel) db i =
    (if dbCanon db i = 0 then Ret []
     else go_bind (delete_above fuel db (i + 1)) (\<lambda>ops. Ret (DeleteCanonicalHash i # ops)))"

fun cross_link :: "nat \<Rightarrow> chainDb \<Rightarrow> Header \<Rightarrow> hash \<Rightarrow> u64 \<Rightarrow> (chainErr + dbOp list) go" where
  "cross_link 0 db header headHash headNumber = NoFuel"
| "cross_link (Suc fuel) db header headHash headNumber =
    (if dbCanon db headNumber = headHash then Ret (Inr [])
     else if headNumber = 0 then Ret (Inr [WriteCanonicalHash headHash headNumber])
     else let h = ParentHash header; n = Uint64Of (Number header) - 1
       in case dbHeader db h n of
            None \<Rightarrow> Ret (Inl MissingParent)
          | Some parent \<Rightarrow> go_bind (cross_link fuel db parent h n) (\<lambda>r. case r of
              Inl e \<Rightarrow> Ret (Inl e)
            | Inr ops \<Rightarrow> Ret (Inr (WriteCanonicalHash headHash headNumber # ops))))"

fun extend_ops :: "(Header \<Rightarrow> hash) \<Rightarrow> Header list \<Rightarrow> dbOp list" where
  "extend_ops hh [] = []"
| "extend_ops hh [h] = [WriteCanonicalHash (hh h) (Uint64Of (Number h)), WriteHeadHeaderHash (hh h)]"
| "extend_ops hh (h # nxt # rest) =
     WriteCanonicalHash (ParentHash nxt) (Uint64Of (Number h)) # WriteHeadHeaderHash (ParentHash nxt) # extend_ops hh (nxt # rest)"

definition Reorg :: "nat \<Rightarrow> (Header \<Rightarrow> hash) \<Rightarrow> Header list \<Rightarrow> HeaderChain \<Rightarrow> (chainErr option \<times> HeaderChain) go" where
  "Reorg fuel hh headers hc = (case headers of
     [] \<Rightarrow> Ret (None, hc)
   | first # _ \<Rightarrow>
       let db = hcDb hc; lst = List.last headers
       in go_bind (if ParentHash first \<noteq> hcCurrentHash hc
                   then go_bind (delete_above fuel db (Uint64Of (Number lst) + 1)) (\<lambda>dels.
                        go_bind (cross_link fuel db first (hh first) (Uint64Of (Number first))) (\<lambda>r. case r of
                          Inl e \<Rightarrow> Ret (Inl e)
                        | Inr ops \<Rightarrow> Ret (Inr (dels @ ops))))
                   else Ret (Inr [])) (\<lambda>r. case r of
            Inl e \<Rightarrow> Ret (Some e, hc)
          | Inr ops \<Rightarrow> Ret (None, hc\<lparr>hcDb := batch_Write (ops @ extend_ops hh headers) db,
                                       hcCurrentHash := hh lst, hcCurrent := lst\<rparr>)))"

definition writeHeadersAndSetHead :: "nat \<Rightarrow> (Header \<Rightarrow> hash) \<Rightarrow> ForkChoice \<Rightarrow> bool \<Rightarrow> bool \<Rightarrow> Header list \<Rightarrow> HeaderChain \<Rightarrow>
    ((chainErr + WriteStatus) \<times> HeaderChain) go" where
  "writeHeadersAndSetHead fuel hh f coin interrupted headers hc =
    (case WriteHeaders hh interrupted headers hc of
       (Inl e, hc) \<Rightarrow> Ret (Inl e, hc)
     | (Inr inserted, hc) \<Rightarrow>
         if headers = [] then Panic ''index out of range''
         else let lst = List.last headers; forker = f\<lparr>fcGetTd := dbTd (hcDb hc)\<rparr>
           in case ReorgNeeded hh forker coin (hcCurrent hc) lst of
                None \<Rightarrow> Ret (Inl MissingTd, hc)
              | Some False \<Rightarrow> Ret (Inr (if inserted \<noteq> 0 then SideStatTy else NonStatTy), hc)
              | Some True \<Rightarrow>
                  if dbCanon (hcDb hc) (Uint64Of (Number lst)) = hh lst \<and> Uint64Of (Number lst) \<le> Uint64Of (Number (hcCurrent hc))
                  then Ret (Inr NonStatTy, hc)
                  else go_bind (Reorg fuel hh headers hc) (\<lambda>(err, hc). case err of
                    Some e \<Rightarrow> Ret (Inl e, hc)
                  | None \<Rightarrow> Ret (Inr CanonStatTy, hc)))"

text \<open>\<open>InsertHeaderChain\<close> looks at the interrupt once more before it starts.\<close>

definition InsertHeaderChain :: "nat \<Rightarrow> (Header \<Rightarrow> hash) \<Rightarrow> ForkChoice \<Rightarrow> bool \<Rightarrow> bool \<Rightarrow> bool \<Rightarrow> Header list \<Rightarrow> HeaderChain \<Rightarrow>
    ((chainErr + WriteStatus) \<times> HeaderChain) go" where
  "InsertHeaderChain fuel hh f coin interrupted0 interrupted chain hc =
    (if interrupted0 then Ret (Inl ImportAborted, hc) else writeHeadersAndSetHead fuel hh f coin interrupted chain hc)"

text \<open>The lookups. \<open>HasHeader\<close> and the two getters by key are the fields \<open>dbHeader\<close> and \<open>dbTd\<close>.\<close>

definition GetHeaderByHash :: "HeaderChain \<Rightarrow> hash \<Rightarrow> Header option" where
  "GetHeaderByHash hc h = (case dbNumber (hcDb hc) h of None \<Rightarrow> None | Some number \<Rightarrow> dbHeader (hcDb hc) h number)"

definition GetHeaderByNumber :: "HeaderChain \<Rightarrow> u64 \<Rightarrow> Header option" where
  "GetHeaderByNumber hc number =
    (let h = dbCanon (hcDb hc) number in if h = 0 then None else dbHeader (hcDb hc) h number)"

text \<open>The loop of \<open>GetAncestor\<close>; the last component of the result is the counter \<open>maxNonCanonical\<close>.\<close>

lemma unat_pred_less: "(n :: u64) \<noteq> 0 \<Longrightarrow> unat (n - 1) < unat n"
  by (simp add: unat_minus_one unat_gt_0)

function ancestor_walk :: "chainDb \<Rightarrow> hash \<Rightarrow> u64 \<Rightarrow> u64 \<Rightarrow> u64 \<Rightarrow> hash \<times> u64 \<times> u64" where
  "ancestor_walk db h number ancestor maxNonCanonical =
    (if ancestor = 0 then (h, number, maxNonCanonical)
     else if dbCanon db number = h then (dbCanon db (number - ancestor), number - ancestor, maxNonCanonical)
     else if maxNonCanonical = 0 then (0, 0, maxNonCanonical)
     else case dbHeader db h number of
            None \<Rightarrow> (0, 0, maxNonCanonical - 1)
          | Some header \<Rightarrow> ancestor_walk db (ParentHash header) (number - 1) (ancestor - 1) (maxNonCanonical - 1))"
  by auto

termination
  by (relation "measure (\<lambda>(db, h, number, ancestor, mx). unat ancestor)") (simp_all add: unat_pred_less)

declare ancestor_walk.simps [simp del]

definition GetAncestor :: "HeaderChain \<Rightarrow> hash \<Rightarrow> u64 \<Rightarrow> u64 \<Rightarrow> u64 \<Rightarrow> hash \<times> u64 \<times> u64" where
  "GetAncestor hc h number ancestor maxNonCanonical =
    (if ancestor > number then (0, 0, maxNonCanonical)
     else if ancestor = 1 then
       (case dbHeader (hcDb hc) h number of Some header \<Rightarrow> (ParentHash header, number - 1, maxNonCanonical) | None \<Rightarrow> (0, 0, maxNonCanonical))
     else ancestor_walk (hcDb hc) h number ancestor maxNonCanonical)"

section \<open>The gas limit of a new block\<close>

definition CalcGasLimit :: "u64 \<Rightarrow> u64 \<Rightarrow> u64" where
  "CalcGasLimit parentGasLimit desiredLimit =
    (let delta = parentGasLimit div GasLimitBoundDivisor - 1;
         desiredLimit = (if desiredLimit < MinGasLimit then MinGasLimit else desiredLimit)
     in if parentGasLimit < desiredLimit then
          (let limit = parentGasLimit + delta in if limit > desiredLimit then desiredLimit else limit)
        else if parentGasLimit > desiredLimit then
          (let limit = parentGasLimit - delta in if limit < desiredLimit then desiredLimit else limit)
        else parentGasLimit)"

section \<open>A consistent database\<close>

abbreviation num :: "Header \<Rightarrow> u64" where
  "num h \<equiv> Uint64Of (Number h)"

text \<open>\<open>entry_ok\<close>: a stored header has its hash and number as key, its total difficulty is stored, and below it lies its parent.\<close>

definition entry_ok :: "(Header \<Rightarrow> hash) \<Rightarrow> chainDb \<Rightarrow> hash \<Rightarrow> u64 \<Rightarrow> Header \<Rightarrow> bool" where
  "entry_ok hh db h n hdr \<longleftrightarrow> hh hdr = h \<and> h \<noteq> 0 \<and> Number hdr = uint n \<and> n < - 1 \<and> dbNumber db h = Some n \<and>
     (\<exists>td. dbTd db h n = Some td \<and> (n \<noteq> 0 \<longrightarrow> dbHeader db (ParentHash hdr) (n - 1) \<noteq> None \<and>
        dbTd db (ParentHash hdr) (n - 1) = Some (td - Difficulty hdr)))"

definition db_ok :: "(Header \<Rightarrow> hash) \<Rightarrow> chainDb \<Rightarrow> bool" where
  "db_ok hh db \<longleftrightarrow> (\<forall>h n hdr. dbHeader db h n = Some hdr \<longrightarrow> entry_ok hh db h n hdr) \<and>
     (\<forall>h n. dbTd db h n \<noteq> None \<longrightarrow> dbHeader db h n \<noteq> None)"

definition db_sub :: "chainDb \<Rightarrow> chainDb \<Rightarrow> bool" where
  "db_sub d e \<longleftrightarrow> (\<forall>h n hdr. dbHeader d h n = Some hdr \<longrightarrow> dbHeader e h n = Some hdr) \<and>
     (\<forall>h n td. dbTd d h n = Some td \<longrightarrow> dbTd e h n = Some td) \<and> dbCanon e = dbCanon d \<and> dbHeadHeader e = dbHeadHeader d"

lemma db_sub_refl [simp]: "db_sub d d"
  by (simp add: db_sub_def)

lemma db_sub_trans: "db_sub a b \<Longrightarrow> db_sub b c \<Longrightarrow> db_sub a c"
  by (auto simp: db_sub_def)

lemma num_uint: "Number h = uint n \<Longrightarrow> num h = n"
  by (simp add: Uint64Of_def)

definition add_header :: "(Header \<Rightarrow> hash) \<Rightarrow> int \<Rightarrow> Header \<Rightarrow> chainDb \<Rightarrow> chainDb" where
  "add_header hh td h d = db_put (WriteHeader (hh h) h) (db_put (WriteTd (hh h) (num h) td) d)"

lemma add_header_ok:
  assumes "db_ok hh d" "dbHeader d (ParentHash h) (num h - 1) \<noteq> None" "dbTd d (ParentHash h) (num h - 1) = Some ptd"
    and "Number h = uint (num h)" "num h \<noteq> 0" "num h < - 1" "hh h \<noteq> 0" "\<And>m g. dbHeader d (hh h) m = Some g \<Longrightarrow> g = h"
  defines "e \<equiv> add_header hh (ptd + Difficulty h) h d"
  shows "db_ok hh e" "db_sub d e" "dbHeader e (hh h) (num h) = Some h" "dbTd e (hh h) (num h) = Some (ptd + Difficulty h)"
proof -
  have hdr: "dbHeader e x m = (if x = hh h \<and> m = num h then Some h else dbHeader d x m)"
    and td: "dbTd e x m = (if x = hh h \<and> m = num h then Some (ptd + Difficulty h) else dbTd d x m)"
    and nm: "dbNumber e x = (if x = hh h then Some (num h) else dbNumber d x)" for x m
    by (auto simp: e_def add_header_def Let_def)
  have ok: "entry_ok hh d x m g" if "dbHeader d x m = Some g" for x m g using assms(1) that by (simp add: db_ok_def)
  have own: "m = num h \<and> g = h" if "dbHeader d (hh h) m = Some g" for m g
    using assms(8) [OF that] ok [OF that] num_uint [of h m] by (auto simp: entry_ok_def)
  have old: "dbTd d (hh h) (num h) = Some (ptd + Difficulty h)" if "dbTd d (hh h) (num h) \<noteq> None"
  proof -
    have "dbHeader d (hh h) (num h) \<noteq> None" using assms(1) that unfolding db_ok_def by blast
    then have "dbHeader d (hh h) (num h) = Some h" using own by auto
    then have "entry_ok hh d (hh h) (num h) h" by (rule ok)
    then show ?thesis using assms(3,5) by (auto simp: entry_ok_def)
  qed
  show sub: "db_sub d e" unfolding db_sub_def
    using own old by (auto simp: hdr td) (simp_all add: e_def add_header_def Let_def)
  show "dbHeader e (hh h) (num h) = Some h" "dbTd e (hh h) (num h) = Some (ptd + Difficulty h)" by (simp_all add: hdr td)
  show "db_ok hh e" unfolding db_ok_def
  proof (intro conjI allI impI)
    fix x m g assume g: "dbHeader e x m = Some g"
    have mono: "dbHeader d y k \<noteq> None \<Longrightarrow> dbHeader e y k \<noteq> None" "dbTd d y k = Some t \<Longrightarrow> dbTd e y k = Some t" for y k t
      using sub by (auto simp: db_sub_def)
    show "entry_ok hh e x m g"
    proof (cases "x = hh h \<and> m = num h")
      case True
      then have "g = h" using g by (simp add: hdr)
      then show ?thesis using True assms(4-7) mono(1) [OF assms(2)] mono(2) [OF assms(3)] by (simp add: entry_ok_def td nm)
    next
      case False
      then have d: "dbHeader d x m = Some g" using g by (auto simp: hdr split: if_splits)
      then have "x \<noteq> hh h" using own False by blast
      then show ?thesis using ok [OF d] mono by (auto simp: entry_ok_def nm)
    qed
  next
    fix x m assume "dbTd e x m \<noteq> None"
    then show "dbHeader e x m \<noteq> None" using assms(1) unfolding db_ok_def by (auto simp: hdr td split: if_splits)
  qed
qed

section \<open>Writing headers\<close>

text \<open>Headers as \<open>ValidateHeaderChain\<close> accepts them: each the child of the one before.\<close>

fun linked :: "(Header \<Rightarrow> hash) \<Rightarrow> Header list \<Rightarrow> bool" where
  "linked hh [] = True"
| "linked hh [h] = (1 \<le> Number h \<and> Number h < 2 ^ 64 - 1 \<and> hh h \<noteq> 0)"
| "linked hh (h # g # r) = (1 \<le> Number h \<and> hh h \<noteq> 0 \<and> ParentHash g = hh h \<and> Number g = Number h + 1 \<and> linked hh (g # r))"

lemma linked_all: "linked hh hs \<Longrightarrow> \<forall>h \<in> set hs. 1 \<le> Number h \<and> Number h < 2 ^ 64 - 1 \<and> hh h \<noteq> 0"
  by (induction hh hs rule: linked.induct) auto

lemma linked_num: "linked hh hs \<Longrightarrow> h \<in> set hs \<Longrightarrow> 1 \<le> Number h \<and> Number h < 2 ^ 64 - 1 \<and> hh h \<noteq> 0"
  using linked_all by blast

lemma num_facts:
  assumes "1 \<le> Number h" "Number h < 2 ^ 64 - 1"
  shows "Number h = uint (num h)" "num h \<noteq> 0" "num h < - 1"
proof -
  show u: "Number h = uint (num h)" using assms by (simp add: Uint64Of_def uint_word_of_int)
  then show "num h \<noteq> 0" using assms(1) by auto
  have "uint (- 1 :: u64) = 2 ^ 64 - 1" by (simp add: unsigned_minus_1_eq_mask mask_eq_exp_minus_1)
  then show "num h < - 1" using assms(2) u by (simp add: word_less_def)
qed

lemma num_next: "Number g = Number h + 1 \<Longrightarrow> num g - 1 = num h"
  by (simp add: Uint64Of_def)

lemma head_hash: "linked hh (h # rest) \<Longrightarrow> (case rest of nxt # _ \<Rightarrow> ParentHash nxt | [] \<Rightarrow> hh h) = hh h"
  by (cases rest) auto

definition no_clash :: "(Header \<Rightarrow> hash) \<Rightarrow> chainDb \<Rightarrow> Header list \<Rightarrow> bool" where
  "no_clash hh db hs \<longleftrightarrow> inj_on hh (set hs) \<and> (\<forall>h \<in> set hs. \<forall>m g. dbHeader db (hh h) m = Some g \<longrightarrow> g = h)"

lemma no_clash_add:
  "no_clash hh d (h # hs) \<Longrightarrow> no_clash hh (add_header hh td h d) hs"
  by (auto simp: no_clash_def add_header_def Let_def inj_on_def split: if_splits)

definition stored_chain :: "(Header \<Rightarrow> hash) \<Rightarrow> chainDb \<Rightarrow> Header list \<Rightarrow> bool" where
  "stored_chain hh d hs \<longleftrightarrow> (\<forall>h \<in> set hs. dbHeader d (hh h) (num h) = Some h)"

lemma stored_chain_sub: "stored_chain hh d hs \<Longrightarrow> db_sub d e \<Longrightarrow> stored_chain hh e hs"
  by (auto simp: stored_chain_def db_sub_def)

lemma write_new:
  assumes "linked hh hs" "no_clash hh d hs" "db_ok hh d"
    and "\<And>h r. hs = h # r \<Longrightarrow> dbTd d (ParentHash h) (num h - 1) = Some td"
  shows "\<exists>e. batch_Write (fst (write_headers hh db td False seen hs)) d = e \<and> db_ok hh e \<and> db_sub d e \<and> stored_chain hh e hs"
  using assms
proof (induction hs arbitrary: d td seen)
  case Nil
  then show ?case by (simp add: batch_Write_def stored_chain_def)
next
  case (Cons h hs)
  have n: "1 \<le> Number h" "Number h < 2 ^ 64 - 1" "hh h \<noteq> 0" using linked_num [OF Cons.prems(1)] by auto
  have ptd: "dbTd d (ParentHash h) (num h - 1) = Some td" using Cons.prems(4) by simp
  then have p: "dbHeader d (ParentHash h) (num h - 1) \<noteq> None" using Cons.prems(3) by (auto simp: db_ok_def)
  let ?e = "add_header hh (td + Difficulty h) h d"
  have e: "db_ok hh ?e" "db_sub d ?e" "dbHeader ?e (hh h) (num h) = Some h" "dbTd ?e (hh h) (num h) = Some (td + Difficulty h)"
    using add_header_ok [OF Cons.prems(3) p ptd num_facts [OF n(1,2)] n(3)] Cons.prems(2) by (auto simp: no_clash_def)
  have l: "linked hh hs" using Cons.prems(1) by (cases hs) auto
  have "dbTd ?e (ParentHash g) (num g - 1) = Some (td + Difficulty h)" if "hs = g # r" for g r
    using Cons.prems(1) e(4) num_next [of g h] that by simp
  then obtain e' where e': "batch_Write (fst (write_headers hh db (td + Difficulty h) False (insert (hh h) seen) hs)) ?e = e'"
      "db_ok hh e'" "db_sub ?e e'" "stored_chain hh e' hs"
    using Cons.IH [OF l no_clash_add [OF Cons.prems(2)] e(1)] by metis
  have "batch_Write (fst (write_headers hh db td False seen (h # hs))) d = e'"
    using e'(1) head_hash [OF Cons.prems(1)] by (simp add: Let_def case_prod_beta batch_Write_def add_header_def)
  moreover have "dbHeader e' (hh h) (num h) = Some h" using e(3) e'(3) by (simp add: db_sub_def)
  ultimately show ?case using e' db_sub_trans [OF e(2) e'(3)] by (auto simp: stored_chain_def)
qed

lemma write_known:
  assumes "linked hh hs" "no_clash hh d hs" "db_ok hh d"
    and "\<And>h r. hs = h # r \<Longrightarrow> dbTd d (ParentHash h) (num h - 1) = Some td"
  shows "\<exists>e. batch_Write (fst (write_headers hh d td True {} hs)) d = e \<and> db_ok hh e \<and> db_sub d e \<and> stored_chain hh e hs"
  using assms
proof (induction hs arbitrary: td)
  case Nil
  then show ?case by (simp add: batch_Write_def stored_chain_def)
next
  case (Cons h hs)
  show ?case
  proof (cases "dbHeader d (hh h) (num h)")
    case None
    then have "fst (write_headers hh d td True {} (h # hs)) = fst (write_headers hh d td False {} (h # hs))"
      using head_hash [OF Cons.prems(1)] by (simp add: Let_def)
    then show ?thesis using write_new [OF Cons.prems(1-3), of td d "{}"] Cons.prems(4) by auto
  next
    case (Some g)
    then have g: "dbHeader d (hh h) (num h) = Some h" using Cons.prems(2) by (auto simp: no_clash_def)
    then have "entry_ok hh d (hh h) (num h) h" using Cons.prems(3) by (simp add: db_ok_def)
    then have td: "dbTd d (hh h) (num h) = Some (td + Difficulty h)"
      using Cons.prems(4) [OF refl] num_facts(2) [of h] linked_num [OF Cons.prems(1), of h] by (auto simp: entry_ok_def)
    have l: "linked hh hs" "no_clash hh d hs" using Cons.prems(1,2) by (cases hs; auto simp: no_clash_def)+
    have "dbTd d (ParentHash g) (num g - 1) = Some (td + Difficulty h)" if "hs = g # r" for g r
      using Cons.prems(1) td num_next [of g h] that by simp
    then obtain e where "batch_Write (fst (write_headers hh d (td + Difficulty h) True {} hs)) d = e" "db_ok hh e" "db_sub d e" "stored_chain hh e hs"
      using Cons.IH [OF l Cons.prems(3)] by metis
    then show ?thesis using g head_hash [OF Cons.prems(1)] by (auto simp: Let_def stored_chain_def db_sub_def)
  qed
qed

section \<open>Reorganising the index\<close>

text \<open>\<open>canon_chain d c m\<close>: up to \<open>m\<close>, the index \<open>c\<close> names stored headers, each the parent of the next.\<close>

definition canon_chain :: "chainDb \<Rightarrow> (u64 \<Rightarrow> hash) \<Rightarrow> u64 \<Rightarrow> bool" where
  "canon_chain d c m \<longleftrightarrow> (\<forall>n \<le> m. \<exists>hdr. dbHeader d (c n) n = Some hdr \<and> (n \<noteq> 0 \<longrightarrow> c (n - 1) = ParentHash hdr))"

fun canon_put :: "dbOp \<Rightarrow> (u64 \<Rightarrow> hash) \<Rightarrow> (u64 \<Rightarrow> hash)" where
  "canon_put (WriteCanonicalHash h n) c = c(n := h)"
| "canon_put (DeleteCanonicalHash n) c = c(n := 0)"
| "canon_put x c = c"

fun index_op :: "dbOp \<Rightarrow> bool" where
  "index_op (WriteTd h n td) = False"
| "index_op (WriteHeader h hdr) = False"
| "index_op x = True"

lemma batch_index:
  "list_all index_op ops \<Longrightarrow> dbHeader (batch_Write ops d) = dbHeader d \<and> dbTd (batch_Write ops d) = dbTd d \<and>
     dbNumber (batch_Write ops d) = dbNumber d \<and> dbCanon (batch_Write ops d) = fold canon_put ops (dbCanon d)"
  unfolding batch_Write_def
proof (induction ops arbitrary: d)
  case (Cons x ops)
  then show ?case by (cases x) auto
qed simp

lemma pred_less: "(n :: u64) \<noteq> 0 \<Longrightarrow> n - 1 < n"
  by (simp add: word_less_nat_alt unat_minus_one unat_gt_0)

lemma le_pred: "(k :: u64) \<le> n \<Longrightarrow> k \<noteq> n \<Longrightarrow> k \<le> n - 1"
proof -
  assume k: "k \<le> n" "k \<noteq> n"
  then have "unat k < unat n" by (simp add: word_le_nat_alt word_unat_eq_iff)
  moreover from this have "n \<noteq> 0" by auto
  ultimately show ?thesis by (simp add: word_le_nat_alt unat_minus_one)
qed

lemma unat_next: "(i :: u64) < - 1 \<Longrightarrow> unat (i + 1) = unat i + 1"
proof -
  assume "i < - 1"
  moreover have "unat (- 1 :: u64) = 2 ^ 64 - 1" by (simp add: unsigned_minus_1_eq_mask mask_eq_exp_minus_1)
  ultimately have "unat i + 1 < 2 ^ 64" by (simp add: word_less_nat_alt)
  then show ?thesis by (simp add: unat_word_ariths)
qed

lemma chain_cong:
  assumes "canon_chain d c m" "\<And>n. n \<le> m \<Longrightarrow> c' n = c n"
  shows "canon_chain d c' m"
  unfolding canon_chain_def
proof (intro allI impI)
  fix n assume n: "n \<le> m"
  then have "n \<noteq> 0 \<Longrightarrow> n - 1 \<le> m" using pred_less [of n] by simp
  then show "\<exists>hdr. dbHeader d (c' n) n = Some hdr \<and> (n \<noteq> 0 \<longrightarrow> c' (n - 1) = ParentHash hdr)"
    using assms n by (auto simp: canon_chain_def)
qed

lemma chain_step:
  assumes "canon_chain d c (n - 1)" "c (n - 1) = ParentHash h" "dbHeader d (c n) n = Some h" "n \<noteq> 0"
  shows "canon_chain d c n"
  unfolding canon_chain_def
proof (intro allI impI)
  fix k assume "k \<le> n"
  show "\<exists>hdr. dbHeader d (c k) k = Some hdr \<and> (k \<noteq> 0 \<longrightarrow> c (k - 1) = ParentHash hdr)"
  proof (cases "k = n")
    case True
    then show ?thesis using assms by simp
  next
    case False
    then have "k \<le> n - 1" using \<open>k \<le> n\<close> le_pred by blast
    then show ?thesis using assms(1) by (simp add: canon_chain_def)
  qed
qed

lemma chain_down: "canon_chain d c n \<Longrightarrow> k \<le> n \<Longrightarrow> canon_chain d c k"
  by (auto simp: canon_chain_def)

lemma cross_link_ok:
  assumes "db_ok hh d" "dbHeader d headHash headNumber = Some header" "unat headNumber < fuel"
    and "\<And>n. n \<le> headNumber \<Longrightarrow> c n = dbCanon d n"
    and "\<And>n. n \<le> headNumber \<Longrightarrow> dbCanon d n \<noteq> 0 \<Longrightarrow> canon_chain d (dbCanon d) n"
  shows "\<exists>ops. cross_link fuel d header headHash headNumber = Ret (Inr ops) \<and> list_all index_op ops \<and>
    canon_chain d (fold canon_put ops c) headNumber \<and> fold canon_put ops c headNumber = headHash \<and>
    (\<forall>n > headNumber. fold canon_put ops c n = c n)"
  using assms
proof (induction fuel arbitrary: header headHash headNumber c)
  case (Suc fuel)
  have e: "entry_ok hh d headHash headNumber header" using Suc.prems(1,2) by (simp add: db_ok_def)
  show ?case
  proof (cases "dbCanon d headNumber = headHash")
    case True
    then have "canon_chain d (dbCanon d) headNumber" using Suc.prems(5) e by (auto simp: entry_ok_def)
    then have "canon_chain d c headNumber" using Suc.prems(4) by (rule chain_cong)
    then show ?thesis using True Suc.prems(4) by simp
  next
    case False
    show ?thesis
    proof (cases "headNumber = 0")
      case True
      then show ?thesis using False Suc.prems(2) by (auto simp: canon_chain_def)
    next
      case nz: False
      let ?h = "ParentHash header" and ?n = "headNumber - 1"
      have num: "num header = headNumber" using e num_uint by (auto simp: entry_ok_def)
      obtain parent where p: "dbHeader d ?h ?n = Some parent" using e nz by (auto simp: entry_ok_def)
      have lt: "?n < headNumber" using nz by (rule pred_less)
      then have f: "unat ?n < fuel" using Suc.prems(3) by (simp add: word_less_nat_alt)
      let ?c = "c(headNumber := headHash)"
      have "\<exists>ops. cross_link fuel d parent ?h ?n = Ret (Inr ops) \<and> list_all index_op ops \<and>
          canon_chain d (fold canon_put ops ?c) ?n \<and> fold canon_put ops ?c ?n = ?h \<and> (\<forall>n > ?n. fold canon_put ops ?c n = ?c n)"
        using Suc.prems(4,5) lt by (intro Suc.IH [OF Suc.prems(1) p f]) (auto dest: order_le_less_trans)
      then obtain ops where ops: "cross_link fuel d parent ?h ?n = Ret (Inr ops)" "list_all index_op ops"
          "canon_chain d (fold canon_put ops ?c) ?n" "fold canon_put ops ?c ?n = ?h" "\<forall>n > ?n. fold canon_put ops ?c n = ?c n" by blast
      have top: "fold canon_put ops ?c headNumber = headHash" using ops(5) lt by simp
      have "canon_chain d (fold canon_put ops ?c) headNumber"
        using chain_step [OF ops(3,4) _ nz] top Suc.prems(2) by (simp del: fun_upd_apply)
      moreover have "fold canon_put ops ?c n = c n" if "headNumber < n" for n
        using ops(5) lt that by (auto dest: order_less_trans)
      ultimately show ?thesis using ops(1,2) nz False p num top
        by (intro exI [of _ "WriteCanonicalHash headHash headNumber # ops"]) (simp add: Let_def del: fun_upd_apply)
    qed
  qed
qed simp

lemma delete_above_ok:
  assumes "\<And>n. dbCanon d n = 0 \<longleftrightarrow> m < n" "m < - 1" "unat m + 1 - unat i < fuel"
  shows "\<exists>ops. delete_above fuel d i = Ret ops \<and> list_all index_op ops \<and>
    (\<forall>c n. fold canon_put ops c n = (if i \<le> n \<and> n \<le> m then 0 else c n))"
  using assms(3)
proof (induction fuel arbitrary: i)
  case (Suc fuel)
  show ?case
  proof (cases "m < i")
    case True
    then have "dbCanon d i = 0" using assms(1) by blast
    then show ?thesis using True by (intro exI [of _ "[]"]) auto
  next
    case False
    then have i: "i \<le> m" "i < - 1" using assms(2) by auto
    have n: "unat (i + 1) = unat i + 1" using i(2) by (rule unat_next)
    then have "unat m + 1 - unat (i + 1) < fuel" using Suc.prems i(1) by (simp add: word_le_nat_alt)
    then obtain ops where ops: "delete_above fuel d (i + 1) = Ret ops" "list_all index_op ops"
        "\<And>c n. fold canon_put ops c n = (if i + 1 \<le> n \<and> n \<le> m then 0 else c n)" using Suc.IH by blast
    have "i \<le> k \<longleftrightarrow> k = i \<or> i + 1 \<le> k" for k using n by (auto simp: word_le_nat_alt word_unat_eq_iff)
    moreover have "dbCanon d i \<noteq> 0" using assms(1) [of i] i(1) by auto
    ultimately show ?thesis using ops i(1) by (intro exI [of _ "DeleteCanonicalHash i # ops"]) auto
  qed
qed simp

lemma linked_less: "linked hh (h # g # hs) \<Longrightarrow> Number h < Number (List.last (g # hs))"
proof (induction hs arbitrary: h g)
  case (Cons k ks)
  have "Number g < Number (List.last (k # ks))" using Cons.IH [of g k] Cons.prems by simp
  moreover have "Number h < Number g" using Cons.prems by simp
  ultimately show ?case by simp
qed simp

lemma extend_ok:
  assumes "linked hh (h # hs)" "stored_chain hh d (h # hs)" "canon_chain d c (num h - 1)" "c (num h - 1) = ParentHash h"
  shows "list_all index_op (extend_ops hh (h # hs)) \<and>
    canon_chain d (fold canon_put (extend_ops hh (h # hs)) c) (num (List.last (h # hs))) \<and>
    fold canon_put (extend_ops hh (h # hs)) c (num (List.last (h # hs))) = hh (List.last (h # hs)) \<and>
    (\<forall>n > num (List.last (h # hs)). fold canon_put (extend_ops hh (h # hs)) c n = c n)"
  using assms
proof (induction hs arbitrary: h c)
  case Nil
  have nz: "num h \<noteq> 0" using Nil.prems(1) num_facts [of h] by simp
  have "canon_chain d (c(num h := hh h)) (num h - 1)"
    by (rule chain_cong [OF Nil.prems(3)]) (use pred_less [OF nz] in auto)
  then have "canon_chain d (c(num h := hh h)) (num h)"
    by (rule chain_step [of _ _ _ h]) (use nz Nil.prems(2,4) pred_less [OF nz] in \<open>auto simp: stored_chain_def\<close>)
  then show ?case by (simp add: fun_upd_def)
next
  case (Cons g hs)
  have l: "ParentHash g = hh h" "Number g = Number h + 1" "linked hh (g # hs)" using Cons.prems(1) by auto
  have nz: "num h \<noteq> 0" using num_facts [of h] linked_num [OF Cons.prems(1), of h] by simp
  have g: "num g - 1 = num h" using num_next [OF l(2)] .
  have st: "stored_chain hh d (g # hs)" using Cons.prems(2) by (simp add: stored_chain_def)
  let ?c = "c(num h := hh h)"
  have "canon_chain d ?c (num h - 1)" by (rule chain_cong [OF Cons.prems(3)]) (use pred_less [OF nz] in auto)
  then have ch: "canon_chain d ?c (num h)"
    by (rule chain_step [of _ _ _ h]) (use nz Cons.prems(2,4) pred_less [OF nz] in \<open>auto simp: stored_chain_def\<close>)
  have lt: "num h < num (List.last (g # hs))"
  proof -
    have "Number h < Number (List.last (g # hs))" using linked_less [OF Cons.prems(1)] by simp
    moreover have "List.last (g # hs) \<in> set (h # g # hs)" using last_in_set [of "g # hs"] by auto
    ultimately show ?thesis using num_facts(1) [of h] num_facts(1) [of "List.last (g # hs)"] linked_num [OF Cons.prems(1)]
      by (simp add: word_less_def)
  qed
  have "?c n = c n" if "num (List.last (g # hs)) < n" for n using order_less_trans [OF lt that] by auto
  moreover have "canon_chain d ?c (num g - 1)" "?c (num g - 1) = ParentHash g" using ch g l(1) by simp_all
  moreover have "extend_ops hh (h # g # hs) = WriteCanonicalHash (hh h) (num h) # WriteHeadHeaderHash (hh h) # extend_ops hh (g # hs)"
    using l(1) by simp
  ultimately show ?case using Cons.IH [OF l(3) st, of ?c] by (simp del: fun_upd_apply extend_ops.simps)
qed

section \<open>The index follows the head\<close>

definition hc_ok :: "(Header \<Rightarrow> hash) \<Rightarrow> HeaderChain \<Rightarrow> bool" where
  "hc_ok hh hc \<longleftrightarrow> (let d = hcDb hc; cur = hcCurrent hc in
     db_ok hh d \<and> dbHeader d (hh cur) (num cur) = Some cur \<and> dbCanon d (num cur) = hh cur \<and> (\<forall>n > num cur. dbCanon d n = 0) \<and>
     canon_chain d (dbCanon d) (num cur) \<and> hcCurrentHash hc = hh cur \<and> dbHeadHeader d = hh cur)"

lemma chain_sub: "canon_chain d c m \<Longrightarrow> db_sub d e \<Longrightarrow> canon_chain e c m"
  unfolding canon_chain_def db_sub_def by blast

lemma hc_ok_sub: "hc_ok hh hc \<Longrightarrow> db_ok hh e \<Longrightarrow> db_sub (hcDb hc) e \<Longrightarrow> hc_ok hh (hc\<lparr>hcDb := e\<rparr>)"
  using chain_sub [of "hcDb hc" "dbCanon (hcDb hc)" "num (hcCurrent hc)" e] by (auto simp: hc_ok_def Let_def db_sub_def)

lemma canon_zero:
  assumes "hc_ok hh hc"
  shows "dbCanon (hcDb hc) n = 0 \<longleftrightarrow> num (hcCurrent hc) < n"
proof (cases "num (hcCurrent hc) < n")
  case True
  then show ?thesis using assms by (simp add: hc_ok_def Let_def)
next
  case False
  then have "n \<le> num (hcCurrent hc)" by simp
  then obtain g where "dbHeader (hcDb hc) (dbCanon (hcDb hc) n) n = Some g"
    using assms unfolding hc_ok_def Let_def canon_chain_def by blast
  then have "entry_ok hh (hcDb hc) (dbCanon (hcDb hc) n) n g" using assms by (auto simp: hc_ok_def Let_def db_ok_def)
  then show ?thesis using False by (simp add: entry_ok_def)
qed

lemma stored_entry: "db_ok hh d \<Longrightarrow> stored_chain hh d hs \<Longrightarrow> h \<in> set hs \<Longrightarrow> entry_ok hh d (hh h) (num h) h"
  by (simp add: db_ok_def stored_chain_def)

lemma head_hash_written: "dbHeadHeader (batch_Write (ops @ extend_ops hh (h # hs)) d) = hh (List.last (h # hs))"
proof -
  have "dbHeadHeader (fold db_put (extend_ops hh (h # hs)) d) = hh (List.last (h # hs))" for d
    by (induction hs arbitrary: h d) simp_all
  then show ?thesis by (simp add: batch_Write_def)
qed

text \<open>What remains of \<open>Reorg\<close> once the index leads to the parent of the first header.\<close>

lemma finish_ok:
  assumes "db_ok hh d" "linked hh (h # hs)" "stored_chain hh d (h # hs)" "list_all index_op ops"
    and "canon_chain d (fold canon_put ops (dbCanon d)) (num h - 1)" "fold canon_put ops (dbCanon d) (num h - 1) = ParentHash h"
    and "\<And>n. num (List.last (h # hs)) < n \<Longrightarrow> fold canon_put ops (dbCanon d) n = 0"
  shows "hc_ok hh \<lparr>hcDb = batch_Write (ops @ extend_ops hh (h # hs)) d, hcCurrent = List.last (h # hs), hcCurrentHash = hh (List.last (h # hs))\<rparr>"
    and "dbTd (batch_Write (ops @ extend_ops hh (h # hs)) d) = dbTd d" "dbHeader (batch_Write (ops @ extend_ops hh (h # hs)) d) = dbHeader d"
proof -
  let ?e = "batch_Write (ops @ extend_ops hh (h # hs)) d" and ?l = "List.last (h # hs)"
  have x: "list_all index_op (extend_ops hh (h # hs))" "canon_chain d (fold canon_put (extend_ops hh (h # hs)) (fold canon_put ops (dbCanon d))) (num ?l)"
      "fold canon_put (extend_ops hh (h # hs)) (fold canon_put ops (dbCanon d)) (num ?l) = hh ?l"
      "\<forall>n > num ?l. fold canon_put (extend_ops hh (h # hs)) (fold canon_put ops (dbCanon d)) n = fold canon_put ops (dbCanon d) n"
    using extend_ok [OF assms(2,3,5,6)] by blast+
  have e: "dbHeader ?e = dbHeader d" "dbTd ?e = dbTd d" "dbNumber ?e = dbNumber d"
      "dbCanon ?e = fold canon_put (extend_ops hh (h # hs)) (fold canon_put ops (dbCanon d))"
    using batch_index [of "ops @ extend_ops hh (h # hs)" d] assms(4) x(1) by simp_all
  have "db_ok hh ?e" using assms(1) by (simp add: db_ok_def entry_ok_def e)
  moreover have "dbHeader ?e (hh ?l) (num ?l) = Some ?l" using assms(3) last_in_set [of "h # hs"] by (simp add: e stored_chain_def)
  moreover have "canon_chain ?e (dbCanon ?e) (num ?l)" using x(2) by (simp add: canon_chain_def e)
  ultimately show "hc_ok hh \<lparr>hcDb = ?e, hcCurrent = ?l, hcCurrentHash = hh ?l\<rparr>"
    using x(3,4) assms(7) head_hash_written [of ops hh h hs d] by (simp add: hc_ok_def Let_def e(4) del: extend_ops.simps)
  show "dbTd ?e = dbTd d" "dbHeader ?e = dbHeader d" by (rule e)+
qed

lemma linked_last: "linked hh (h # hs) \<Longrightarrow> num h \<le> num (List.last (h # hs))"
proof (cases hs)
  case (Cons g r)
  assume l: "linked hh (h # hs)"
  then have "Number h < Number (List.last (g # r))" using linked_less [of hh h g r] Cons by simp
  moreover have "List.last (g # r) \<in> set (h # hs)" using last_in_set [of "g # r"] Cons by auto
  ultimately show ?thesis
    using num_facts(1) [of h] num_facts(1) [of "List.last (g # r)"] linked_num [OF l] Cons by (simp add: word_le_def)
qed simp

declare List.last.simps [simp del] extend_ops.simps [simp del]

lemma Reorg_ok:
  assumes ok: "hc_ok hh hc" and l: "linked hh (h # hs)" and st: "stored_chain hh (hcDb hc) (h # hs)"
    and fuel: "unat (num (hcCurrent hc)) + unat (num h) + 1 < fuel"
  shows "\<exists>hc'. Reorg fuel hh (h # hs) hc = Ret (None, hc') \<and> hc_ok hh hc' \<and> hcCurrent hc' = List.last (h # hs) \<and>
    dbTd (hcDb hc') = dbTd (hcDb hc) \<and> dbHeader (hcDb hc') = dbHeader (hcDb hc)"
proof -
  let ?d = "hcDb hc" and ?cur = "hcCurrent hc" and ?l = "List.last (h # hs)"
  have d: "db_ok hh ?d" "dbHeader ?d (hh ?cur) (num ?cur) = Some ?cur" "dbCanon ?d (num ?cur) = hh ?cur"
      "canon_chain ?d (dbCanon ?d) (num ?cur)" "hcCurrentHash hc = hh ?cur"
    using ok by (simp_all add: hc_ok_def Let_def)
  have cur: "entry_ok hh ?d (hh ?cur) (num ?cur) ?cur" using d(1,2) by (simp add: db_ok_def)
  have h: "entry_ok hh ?d (hh h) (num h) h" using stored_entry [OF d(1) st] by simp
  have nz: "num h \<noteq> 0" "num ?l < - 1" using linked_num [OF l] num_facts(2) [of h] num_facts(3) [of ?l] last_in_set [of "h # hs"] by auto
  have final: ?thesis if ops: "list_all index_op ops" "canon_chain ?d (fold canon_put ops (dbCanon ?d)) (num h - 1)"
      "fold canon_put ops (dbCanon ?d) (num h - 1) = ParentHash h" "\<And>n. num ?l < n \<Longrightarrow> fold canon_put ops (dbCanon ?d) n = 0"
      "Reorg fuel hh (h # hs) hc = Ret (None, hc\<lparr>hcDb := batch_Write (ops @ extend_ops hh (h # hs)) ?d, hcCurrentHash := hh ?l, hcCurrent := ?l\<rparr>)" for ops
  proof -
    have eq: "hc\<lparr>hcDb := e, hcCurrentHash := x, hcCurrent := y\<rparr> = \<lparr>hcDb = e, hcCurrent = y, hcCurrentHash = x\<rparr>" for e x y
      by (cases hc) simp
    show ?thesis using finish_ok [OF d(1) l st ops(1-4)] ops(5) unfolding eq by auto
  qed
  show ?thesis
  proof (cases "ParentHash h = hcCurrentHash hc")
    case True
    have "dbHeader ?d (hh ?cur) (num h - 1) \<noteq> None" using h nz True d(5) by (auto simp: entry_ok_def)
    then have n: "num h - 1 = num ?cur" using d(1) cur by (auto simp: db_ok_def entry_ok_def)
    then have "num ?cur < num ?l" using pred_less [OF nz(1)] linked_last [OF l] by simp
    then have "num ?l < n \<Longrightarrow> dbCanon ?d n = 0" for n using canon_zero [OF ok, of n] by auto
    then show ?thesis using True d n by (intro final [of "[]"]) (simp_all add: Reorg_def Let_def)
  next
    case False
    have m: "num ?cur < - 1" using cur by (simp add: entry_ok_def)
    have less: "unat (num ?cur) + 1 - unat (num ?l + 1) < fuel" using fuel by arith
    obtain dels where dels: "delete_above fuel ?d (num ?l + 1) = Ret dels" "list_all index_op dels"
        "\<And>c n. fold canon_put dels c n = (if num ?l + 1 \<le> n \<and> n \<le> num ?cur then 0 else c n)"
      using delete_above_ok [OF canon_zero [OF ok] m less] by blast
    let ?c = "fold canon_put dels (dbCanon ?d)"
    have up: "num ?l + 1 \<le> n \<longleftrightarrow> num ?l < n" for n using unat_next [OF nz(2)] by (auto simp: word_le_nat_alt word_less_nat_alt)
    have "?c n = dbCanon ?d n" if "n \<le> num h" for n using order_trans [OF that linked_last [OF l]] by (auto simp: dels(3) up)
    moreover have "canon_chain ?d (dbCanon ?d) n" if "dbCanon ?d n \<noteq> 0" for n
      using that canon_zero [OF ok, of n] chain_down [OF d(4)] by auto
    ultimately obtain ops where ops: "cross_link fuel ?d h (hh h) (num h) = Ret (Inr ops)" "list_all index_op ops"
        "canon_chain ?d (fold canon_put ops ?c) (num h)" "fold canon_put ops ?c (num h) = hh h"
        "\<forall>n > num h. fold canon_put ops ?c n = ?c n"
      using cross_link_ok [OF d(1), of "hh h" "num h" h fuel ?c] st fuel by (auto simp: stored_chain_def)
    have "fold canon_put ops ?c (num h - 1) = ParentHash h"
      using ops(3,4) st nz(1) by (auto simp: canon_chain_def stored_chain_def)
    moreover have "fold canon_put ops ?c n = 0" if "num ?l < n" for n
      using ops(5) order_le_less_trans [OF linked_last [OF l] that] that canon_zero [OF ok, of n] by (auto simp: dels(3) up)
    moreover have "canon_chain ?d (fold canon_put ops ?c) (num h - 1)" using chain_down [OF ops(3)] pred_less [OF nz(1)] by simp
    ultimately show ?thesis using False dels(1,2) ops(1,2)
      by (intro final [of "dels @ ops"]) (simp_all add: Reorg_def Let_def)
  qed
qed


lemma WriteHeaders_ok:
  assumes "hc_ok hh hc" "linked hh (h # hs)" "no_clash hh (hcDb hc) (h # hs)"
    and "dbTd (hcDb hc) (ParentHash h) (num h - 1) \<noteq> None"
  shows "\<exists>n e. WriteHeaders hh False (h # hs) hc = (Inr n, hc\<lparr>hcDb := e\<rparr>) \<and> hc_ok hh (hc\<lparr>hcDb := e\<rparr>) \<and>
    db_sub (hcDb hc) e \<and> stored_chain hh e (h # hs)"
proof -
  obtain ptd where p: "dbTd (hcDb hc) (ParentHash h) (num h - 1) = Some ptd" using assms(4) by blast
  have d: "db_ok hh (hcDb hc)" using assms(1) by (simp add: hc_ok_def Let_def)
  let ?w = "write_headers hh (hcDb hc) ptd True {} (h # hs)"
  obtain e where e: "batch_Write (fst ?w) (hcDb hc) = e" "db_ok hh e" "db_sub (hcDb hc) e" "stored_chain hh e (h # hs)"
    using write_known [OF assms(2,3) d, of ptd] p by auto
  have "WriteHeaders hh False (h # hs) hc = (Inr (snd ?w), hc\<lparr>hcDb := e\<rparr>)"
    using p e(1) by (simp add: WriteHeaders_def case_prod_beta Let_def del: write_headers.simps)
  then show ?thesis using hc_ok_sub [OF assms(1) e(2,3)] e(3,4) by blast
qed

lemma ReorgNeeded_known:
  "ReorgNeeded hh f coin cur ext \<noteq> None \<longleftrightarrow> fcGetTd f (hh cur) (num cur) \<noteq> None \<and> fcGetTd f (hh ext) (num ext) \<noteq> None"
  by (cases "fcGetTd f (hh cur) (num cur)"; cases "fcGetTd f (hh ext) (num ext)") (simp_all add: ReorgNeeded_def Let_def del: not_None_eq)

lemma ReorgNeeded_td:
  assumes "ReorgNeeded hh f coin cur ext = Some True" "fcTerminal f = None"
    and "fcGetTd f (hh cur) (num cur) = Some t" "fcGetTd f (hh ext) (num ext) = Some u"
  shows "t \<le> u"
  using assms by (auto simp: ReorgNeeded_def Let_def split: if_splits)

definition headTd :: "HeaderChain \<Rightarrow> int option" where
  "headTd hc = dbTd (hcDb hc) (hcCurrentHash hc) (num (hcCurrent hc))"

lemma hc_ok_td: "hc_ok hh hc \<Longrightarrow> \<exists>t. headTd hc = Some t"
proof -
  assume "hc_ok hh hc"
  then have "entry_ok hh (hcDb hc) (hcCurrentHash hc) (num (hcCurrent hc)) (hcCurrent hc)" by (simp add: hc_ok_def Let_def db_ok_def)
  then show ?thesis by (auto simp: entry_ok_def headTd_def)
qed

text \<open>
  C10: a batch of linked headers whose parent is known is always imported: the call returns, stores every header with a total
  difficulty that is its parent's plus its own, and leaves the canonical index equal to the ancestry of the head, the head marker of the
  database included and no entry above the head. The head becomes the last header exactly when the status says canonical, and otherwise
  stays; without a terminal total difficulty, the total difficulty of the head never falls. The fuel bounds the two index
  loops by the heights of the old head and of the first header. The hash is assumed not to clash on the headers involved.
\<close>

theorem header_import_follows_head:
  assumes ok: "hc_ok hh hc" and l: "linked hh (h # hs)" and "no_clash hh (hcDb hc) (h # hs)"
    and "dbTd (hcDb hc) (ParentHash h) (num h - 1) \<noteq> None" and fuel: "unat (num (hcCurrent hc)) + unat (num h) + 1 < fuel"
  shows "\<exists>s hc'. writeHeadersAndSetHead fuel hh f coin False (h # hs) hc = Ret (Inr s, hc') \<and> hc_ok hh hc' \<and>
    stored_chain hh (hcDb hc') (h # hs) \<and> hcCurrent hc' = (if s = CanonStatTy then List.last (h # hs) else hcCurrent hc) \<and>
    (fcTerminal f = None \<longrightarrow> the (headTd hc) \<le> the (headTd hc'))"
proof -
  obtain n e where e: "WriteHeaders hh False (h # hs) hc = (Inr n, hc\<lparr>hcDb := e\<rparr>)" "hc_ok hh (hc\<lparr>hcDb := e\<rparr>)"
      "db_sub (hcDb hc) e" "stored_chain hh e (h # hs)" using WriteHeaders_ok [OF assms(1-4)] by blast
  let ?hc = "hc\<lparr>hcDb := e\<rparr>" and ?l = "List.last (h # hs)" and ?f = "f\<lparr>fcGetTd := dbTd e\<rparr>"
  have de: "db_ok hh e" using e(2) by (simp add: hc_ok_def Let_def)
  obtain t where t: "headTd hc = Some t" using hc_ok_td [OF ok] ..
  then have t': "headTd ?hc = Some t" using e(3) by (simp add: headTd_def db_sub_def)
  have hash: "hcCurrentHash hc = hh (hcCurrent hc)" using ok by (simp add: hc_ok_def Let_def)
  obtain u where u: "dbTd e (hh ?l) (num ?l) = Some u"
    using stored_entry [OF de e(4) last_in_set [of "h # hs"]] by (auto simp: entry_ok_def)
  have cur: "dbTd e (hh (hcCurrent hc)) (num (hcCurrent hc)) = Some t" using t' hash by (simp add: headTd_def)
  have "ReorgNeeded hh ?f coin (hcCurrent hc) ?l \<noteq> None" using u cur ReorgNeeded_known [of hh ?f coin "hcCurrent hc" ?l] by simp
  then consider "ReorgNeeded hh ?f coin (hcCurrent hc) ?l = Some False" | "ReorgNeeded hh ?f coin (hcCurrent hc) ?l = Some True"
    by fastforce
  then show ?thesis
  proof cases
    case 1
    then show ?thesis using e t t' by (auto simp: writeHeadersAndSetHead_def Let_def)
  next
    case 2
    show ?thesis
    proof (cases "dbCanon e (num ?l) = hh ?l \<and> num ?l \<le> num (hcCurrent hc)")
      case True
      then show ?thesis using 2 e t t' by (auto simp: writeHeadersAndSetHead_def Let_def)
    next
      case False
      obtain hc' where r: "Reorg fuel hh (h # hs) ?hc = Ret (None, hc')" "hc_ok hh hc'" "hcCurrent hc' = ?l" "dbTd (hcDb hc') = dbTd e"
          "dbHeader (hcDb hc') = dbHeader e"
        using Reorg_ok [OF e(2) l, of fuel] e(4) fuel by auto
      have "headTd hc' = Some u" using r(2-4) u by (simp add: headTd_def hc_ok_def Let_def)
      moreover have "fcTerminal f = None \<Longrightarrow> t \<le> u" using ReorgNeeded_td [OF 2, of t u] u cur by simp
      moreover have "stored_chain hh (hcDb hc') (h # hs)" using r(5) e(4) by (simp add: stored_chain_def)
      ultimately show ?thesis using 2 False e(1) r t
        by (auto simp: writeHeadersAndSetHead_def Let_def)
    qed
  qed
qed


section \<open>Ancestors\<close>

text \<open>The ancestry by parent links alone.\<close>

fun ancestor_of :: "chainDb \<Rightarrow> nat \<Rightarrow> hash \<Rightarrow> u64 \<Rightarrow> hash option" where
  "ancestor_of d 0 h n = Some h"
| "ancestor_of d (Suc k) h n = (case dbHeader d h n of None \<Rightarrow> None | Some hdr \<Rightarrow> ancestor_of d k (ParentHash hdr) (n - 1))"

lemma ancestor_canon:
  "canon_chain d c m \<Longrightarrow> n \<le> m \<Longrightarrow> k \<le> unat n \<Longrightarrow> ancestor_of d k (c n) n = Some (c (n - of_nat k))"
proof (induction k arbitrary: n)
  case (Suc k)
  have nz: "n \<noteq> 0" using Suc.prems(3) by auto
  then obtain hdr where "dbHeader d (c n) n = Some hdr" "c (n - 1) = ParentHash hdr" using Suc.prems(1,2) by (auto simp: canon_chain_def)
  moreover have "k \<le> unat (n - 1)" using Suc.prems(3) nz by (simp add: unat_minus_one)
  moreover have "n - 1 \<le> m" using pred_less [OF nz] Suc.prems(2) by simp
  ultimately show ?case using Suc.IH [of "n - 1"] Suc.prems(1) by (simp add: algebra_simps)
qed simp

lemma ancestor_walk_ok:
  assumes "hc_ok hh hc" "h \<noteq> 0" "ancestor \<le> number"
  shows "case ancestor_walk (hcDb hc) h number ancestor mx of (x, n, mx') \<Rightarrow>
     (ancestor_of (hcDb hc) (unat ancestor) h number = Some x \<and> n = number - ancestor) \<or> (x = 0 \<and> n = 0)"
  using assms(2,3)
proof (induction "unat ancestor" arbitrary: h number ancestor mx)
  case 0
  then have "ancestor = 0" by (simp add: unat_eq_zero)
  then show ?case by (simp add: ancestor_walk.simps)
next
  case (Suc k)
  let ?d = "hcDb hc"
  have nz: "ancestor \<noteq> 0" "number \<noteq> 0" using Suc.hyps(2) Suc.prems(2) by auto
  show ?case
  proof (cases "dbCanon ?d number = h")
    case True
    then have n: "number \<le> num (hcCurrent hc)" using canon_zero [OF assms(1), of number] Suc.prems(1) by auto
    moreover have "unat ancestor \<le> unat number" using Suc.prems(2) by (simp add: word_le_nat_alt)
    ultimately have "ancestor_of ?d (unat ancestor) h number = Some (dbCanon ?d (number - ancestor))"
      using ancestor_canon [of ?d "dbCanon ?d" "num (hcCurrent hc)" number "unat ancestor"] assms(1) True by (simp add: hc_ok_def Let_def)
    then show ?thesis using True nz by (simp add: ancestor_walk.simps [of _ _ number])
  next
    case False
    show ?thesis
    proof (cases "mx = 0 \<or> dbHeader ?d h number = None")
      case True
      then show ?thesis using False nz by (auto simp: ancestor_walk.simps [of _ _ number])
    next
      case ok: False
      then obtain hdr where hdr: "dbHeader ?d h number = Some hdr" by auto
      then have "entry_ok hh ?d h number hdr" using assms(1) by (simp add: hc_ok_def Let_def db_ok_def)
      then obtain g where "dbHeader ?d (ParentHash hdr) (number - 1) = Some g" using nz by (auto simp: entry_ok_def)
      then have "entry_ok hh ?d (ParentHash hdr) (number - 1) g" using assms(1) by (simp add: hc_ok_def Let_def db_ok_def)
      then have p: "ParentHash hdr \<noteq> 0" by (simp add: entry_ok_def)
      have k: "k = unat (ancestor - 1)" using Suc.hyps(2) nz by (simp add: unat_minus_one)
      have le: "ancestor - 1 \<le> number - 1" using Suc.prems(2) nz by (simp add: word_le_nat_alt unat_minus_one)
      have "ancestor_walk ?d h number ancestor mx = ancestor_walk ?d (ParentHash hdr) (number - 1) (ancestor - 1) (mx - 1)"
        using ok hdr False nz by (simp add: ancestor_walk.simps [of _ _ number])
      moreover have "ancestor_of ?d (unat ancestor) h number = ancestor_of ?d (unat (ancestor - 1)) (ParentHash hdr) (number - 1)"
        using hdr Suc.hyps(2) k by (simp flip: Suc.hyps(2))
      ultimately show ?thesis using Suc.hyps(1) [OF k p le, of "mx - 1"] by simp
    qed
  qed
qed


lemma canon_ancestor:
  assumes ok: "hc_ok hh hc" and h: "dbCanon (hcDb hc) number = h" "h \<noteq> 0" and a: "ancestor \<le> number"
  shows "GetAncestor hc h number ancestor mx = (dbCanon (hcDb hc) (number - ancestor), number - ancestor, mx)"
    and "dbCanon (hcDb hc) (number - ancestor) \<noteq> 0"
proof -
  have n: "number \<le> num (hcCurrent hc)" using canon_zero [OF ok, of number] h by auto
  have "number - ancestor \<le> number" using a by (simp add: word_le_nat_alt unat_sub)
  then show "dbCanon (hcDb hc) (number - ancestor) \<noteq> 0" using n canon_zero [OF ok, of "number - ancestor"] by auto
  have "\<exists>hdr. dbHeader (hcDb hc) h number = Some hdr \<and> dbCanon (hcDb hc) (number - 1) = ParentHash hdr" if "ancestor = 1"
  proof -
    have "number \<noteq> 0" using a that by auto
    then show ?thesis using ok n h(1) by (auto simp: hc_ok_def Let_def canon_chain_def)
  qed
  then show "GetAncestor hc h number ancestor mx = (dbCanon (hcDb hc) (number - ancestor), number - ancestor, mx)"
    using a h by (auto simp: GetAncestor_def ancestor_walk.simps [of _ _ number] leD)
qed

text \<open>
  On a chain whose index follows the head, \<open>GetAncestor\<close> answers with the ancestor that the parent links give, at
  its number, or with the zero hash; for a canonical header and a distance within its number it always finds it, whatever the limit on
  non-canonical steps.
\<close>

theorem GetAncestor_exact:
  assumes "hc_ok hh hc" "h \<noteq> 0" "GetAncestor hc h number ancestor mx = (x, n, mx')"
  shows "((ancestor \<le> number \<and> ancestor_of (hcDb hc) (unat ancestor) h number = Some x \<and> n = number - ancestor) \<or> (x = 0 \<and> n = 0)) \<and>
    (dbCanon (hcDb hc) number = h \<and> ancestor \<le> number \<longrightarrow> x = dbCanon (hcDb hc) (number - ancestor) \<and> x \<noteq> 0)"
proof (intro conjI impI)
  show "(ancestor \<le> number \<and> ancestor_of (hcDb hc) (unat ancestor) h number = Some x \<and> n = number - ancestor) \<or> (x = 0 \<and> n = 0)"
  proof (cases "ancestor > number \<or> ancestor = 1")
    case True
    moreover have "1 \<le> number" if "number \<noteq> 0" using that by (simp add: word_le_nat_alt unat_gt_0 Suc_le_eq)
    ultimately show ?thesis using assms(3) by (auto simp: GetAncestor_def split: option.splits if_splits)
  next
    case False
    then show ?thesis using ancestor_walk_ok [OF assms(1,2), of ancestor number mx] assms(3) by (auto simp: GetAncestor_def)
  qed
next
  assume "dbCanon (hcDb hc) number = h \<and> ancestor \<le> number"
  then show "x = dbCanon (hcDb hc) (number - ancestor)" "x \<noteq> 0"
    using canon_ancestor(1) [OF assms(1) _ assms(2), of number ancestor mx] canon_ancestor(2) [OF assms(1) _ assms(2), of number ancestor] assms(3)
    by auto
qed

section \<open>Witnesses\<close>

definition genesis_chain :: "(Header \<Rightarrow> hash) \<Rightarrow> Header \<Rightarrow> HeaderChain" where
  "genesis_chain hh g = \<lparr>hcDb = \<lparr>dbHeader = (\<lambda>h n. if h = hh g \<and> n = 0 then Some g else None),
       dbTd = (\<lambda>h n. if h = hh g \<and> n = 0 then Some (Difficulty g) else None), dbNumber = [hh g \<mapsto> 0],
       dbCanon = (\<lambda>n. if n = 0 then hh g else 0), dbHeadHeader = hh g\<rparr>,
     hcCurrent = g, hcCurrentHash = hh g\<rparr>"

lemma genesis_ok: "Number g = 0 \<Longrightarrow> hh g \<noteq> 0 \<Longrightarrow> hc_ok hh (genesis_chain hh g)"
  by (auto simp: hc_ok_def genesis_chain_def Let_def db_ok_def entry_ok_def canon_chain_def Uint64Of_def split: if_splits)
    (simp_all add: word_less_def unsigned_minus_1_eq_mask mask_eq_exp_minus_1)


definition wit_hash :: "Header \<Rightarrow> hash" where
  "wit_hash h = word_of_int (Number h) + 1"

definition wit_genesis :: Header where
  "wit_genesis = zeroHeader\<lparr>Difficulty := 7\<rparr>"

definition wit_child :: Header where
  "wit_child = zeroHeader\<lparr>ParentHash := 1, Number := 1, Difficulty := 9\<rparr>"

definition wit_choice :: ForkChoice where
  "wit_choice = \<lparr>fcGetTd = (\<lambda>h n. None), fcTerminal = None, fcPreserve = None\<rparr>"

lemmas wit_chain_defs = wit_hash_def wit_genesis_def wit_child_def wit_choice_def zeroHeader_def

lemma wit_chain_ok: "hc_ok wit_hash (genesis_chain wit_hash wit_genesis)"
  by (rule genesis_ok) (simp_all add: wit_chain_defs)

theorem header_import_follows_head_witness:
  "\<exists>s hc'. writeHeadersAndSetHead 10 wit_hash wit_choice True False [wit_child] (genesis_chain wit_hash wit_genesis) = Ret (Inr s, hc') \<and>
    hc_ok wit_hash hc' \<and> stored_chain wit_hash (hcDb hc') [wit_child]"
proof -
  have "linked wit_hash [wit_child]" "no_clash wit_hash (hcDb (genesis_chain wit_hash wit_genesis)) [wit_child]"
    by (simp_all add: wit_chain_defs no_clash_def genesis_chain_def)
  moreover have "dbTd (hcDb (genesis_chain wit_hash wit_genesis)) (ParentHash wit_child) (num wit_child - 1) \<noteq> None"
    by (simp add: wit_chain_defs genesis_chain_def Uint64Of_def)
  moreover have "unat (num (hcCurrent (genesis_chain wit_hash wit_genesis))) + unat (num wit_child) + 1 < 10"
    by (simp add: wit_chain_defs genesis_chain_def Uint64Of_def)
  ultimately show ?thesis
    using header_import_follows_head [OF wit_chain_ok, of wit_child "[]" 10 wit_choice True] by blast
qed

theorem GetAncestor_exact_witness:
  "GetAncestor (genesis_chain wit_hash wit_genesis) 1 0 0 0 = (1, 0, 0) \<and>
    dbCanon (hcDb (genesis_chain wit_hash wit_genesis)) 0 = 1"
proof -
  have "dbCanon (hcDb (genesis_chain wit_hash wit_genesis)) 0 = 1" by (simp add: wit_chain_defs genesis_chain_def)
  moreover obtain x n m where "GetAncestor (genesis_chain wit_hash wit_genesis) 1 0 0 0 = (x, n, m)" by (metis prod_cases3)
  moreover have "m = 0" if "GetAncestor (genesis_chain wit_hash wit_genesis) 1 0 0 0 = (x, n, m)" for x n m
    using that by (simp add: GetAncestor_def ancestor_walk.simps)
  ultimately show ?thesis using GetAncestor_exact [OF wit_chain_ok, of 1 0 0 0] by fastforce
qed

section \<open>What the fork choice prefers, and the gas limit of a new block\<close>

text \<open>
  C13: with both total difficulties known and below the terminal one, the new header is preferred exactly when its height
  differs from that of the head and its total difficulty is higher, or equal at a lower height. Neither the random draw nor the preference for
  one's own blocks ever matters: a header at the height of the head is refused before the difficulties are compared, even if it is heavier.
\<close>

theorem ReorgNeeded_exact:
  assumes "fcGetTd f (hh current) (num current) = Some localTD" "fcGetTd f (hh extern) (num extern) = Some externTd"
    and "\<And>ttd. fcTerminal f = Some ttd \<Longrightarrow> externTd < ttd"
    and "0 \<le> Number current" "Number current < 2 ^ 64" "0 \<le> Number extern" "Number extern < 2 ^ 64"
  shows "ReorgNeeded hh f coin current extern = Some (Number extern \<noteq> Number current \<and>
    (localTD < externTd \<or> localTD = externTd \<and> Number extern < Number current))"
proof -
  have "uint (num h) = Number h" if "0 \<le> Number h" "Number h < 2 ^ 64" for h using that by (simp add: Uint64Of_def uint_word_of_int)
  then have n: "num extern < num current \<longleftrightarrow> Number extern < Number current" "num extern = num current \<longleftrightarrow> Number extern = Number current"
    using assms(4-7) by (simp_all add: word_less_def word_uint_eq_iff)
  have "\<not> (case fcTerminal f of Some ttd \<Rightarrow> ttd \<le> externTd | None \<Rightarrow> False)"
    using assms(3) by (auto split: option.splits)
  then show ?thesis using assms(1,2) by (auto simp: ReorgNeeded_def Let_def n)
qed

theorem ReorgNeeded_exact_witness:
  "ReorgNeeded wit_hash (wit_choice\<lparr>fcGetTd := \<lambda>h n. Some (if h = 1 then 7 else 16)\<rparr>) False wit_genesis wit_child = Some True"
  using ReorgNeeded_exact [of "wit_choice\<lparr>fcGetTd := \<lambda>h n. Some (if h = 1 then 7 else 16)\<rparr>" wit_hash wit_genesis 7 wit_child 16 False]
  by (simp add: wit_chain_defs)

lemma CalcGasLimit_uint:
  assumes "MinGasLimit \<le> p" "p \<le> MaxGasLimit" "d \<le> MaxGasLimit"
  shows "uint (CalcGasLimit p d) = (let w = max (uint d) 5000; t = uint p div 1024 - 1 in
    if uint p < w then min w (uint p + t) else if uint p > w then max w (uint p - t) else uint p)"
proof -
  have p: "5000 \<le> uint p" "uint p < 2 ^ 63" "uint d < 2 ^ 63" using assms by (simp_all add: word_le_def)
  let ?t = "p div 1024 - 1"
  have t: "uint ?t = uint p div 1024 - 1" using p by (simp add: uint_sub_if' uint_div)
  have "uint (p + ?t) = uint p + uint ?t" "uint (p - ?t) = uint p - uint ?t" using p t by (simp_all add: uint_plus_if' uint_sub_if')
  then show ?thesis using t
    by (auto simp: CalcGasLimit_def Let_def word_less_def max_def min_def)
qed

text \<open>
  the gas limit that \<open>CalcGasLimit\<close> chooses lies between the parent's and the wanted one (raised to the minimum of
  5000), and a header that carries it passes \<open>VerifyGaslimit\<close>, for every parent limit from the minimum to the maximum.
\<close>

theorem CalcGasLimit_accepted:
  assumes "MinGasLimit \<le> p" "p \<le> MaxGasLimit" "d \<le> MaxGasLimit"
  shows "VerifyGaslimit p (CalcGasLimit p d) = None \<and>
    min p (max d MinGasLimit) \<le> CalcGasLimit p d \<and> CalcGasLimit p d \<le> max p (max d MinGasLimit)"
proof -
  have p: "5000 \<le> uint p" "uint p < 2 ^ 63" "uint d < 2 ^ 63" using assms by (simp_all add: word_le_def)
  note c = CalcGasLimit_uint [OF assms]
  have b: "min (uint p) (max (uint d) 5000) \<le> uint (CalcGasLimit p d)" "uint (CalcGasLimit p d) \<le> max (uint p) (max (uint d) 5000)"
    unfolding c Let_def using p(1) by (auto simp: min_def max_def)
  have "\<bar>uint p - uint (CalcGasLimit p d)\<bar> < uint p div 1024"
    unfolding c Let_def using p(1) by (auto simp: min_def max_def)
  moreover have "CalcGasLimit p d \<le> MaxGasLimit" using b(2) p by (auto simp: word_le_def max_def split: if_splits)
  moreover have "5000 \<le> uint (CalcGasLimit p d)" using b(1) p(1) by (auto simp: min_def max_def split: if_splits)
  ultimately have "VerifyGaslimit p (CalcGasLimit p d) = None" using VerifyGaslimit_None_iff [OF assms(2)] by simp
  then show ?thesis using b by (auto simp: word_le_def min_def max_def split: if_splits)
qed

theorem CalcGasLimit_accepted_witness:
  "VerifyGaslimit 30000000 (CalcGasLimit 30000000 40000000) = None \<and> CalcGasLimit 30000000 40000000 = 30029295"
  using CalcGasLimit_accepted [of 30000000 40000000] by (simp add: CalcGasLimit_def)

end
