(* ===== verification/Go_Heap.thy ===== *)
theory Go_Heap
  imports Prelude "HOL-Library.Multiset"
begin

text \<open>
  The package \<^verbatim>\<open>container/heap\<close> of the Go library, which the transaction pool uses on slices: \<open>up\<close>, \<open>down\<close>, \<open>Init\<close>, \<open>Push\<close>,
  \<open>Pop\<close>, \<open>Remove\<close> and \<open>Fix\<close>, for a slice and the function \<open>Less\<close> of its \<open>heap.Interface\<close>. The locale \<open>heap_interface\<close> states what the
  package asks of \<open>Less\<close> (a strict weak order); in it every operation keeps the heap order and the elements, and \<open>Pop\<close>
  returns a least one.
\<close>

section \<open>The operations\<close>

definition par :: "nat \<Rightarrow> nat" where
  "par j = (j - 1) div 2"

definition heap_swap :: "nat \<Rightarrow> nat \<Rightarrow> 'a list \<Rightarrow> 'a list" where
  "heap_swap i j xs = xs[i := xs ! j, j := xs ! i]"

function heap_up :: "('a \<Rightarrow> 'a \<Rightarrow> bool) \<Rightarrow> nat \<Rightarrow> 'a list \<Rightarrow> 'a list" where
  "heap_up lt j xs =
    (let i = par j
     in if i = j \<or> \<not> lt (xs ! j) (xs ! i) then xs else heap_up lt i (heap_swap i j xs))"
  by auto

termination
  by (relation "measure (\<lambda>(lt, j, xs). j)") (auto simp: par_def)

text \<open>The first result of \<open>heap_down\<close> is the final position; the Go function returns whether it is beyond the start.\<close>

function heap_down :: "('a \<Rightarrow> 'a \<Rightarrow> bool) \<Rightarrow> nat \<Rightarrow> nat \<Rightarrow> 'a list \<Rightarrow> nat \<times> 'a list" where
  "heap_down lt i n xs =
    (let j1 = 2 * i + 1
     in if j1 \<ge> n then (i, xs)
        else let j = (if j1 + 1 < n \<and> lt (xs ! (j1 + 1)) (xs ! j1) then j1 + 1 else j1)
          in if \<not> lt (xs ! j) (xs ! i) then (i, xs) else heap_down lt j n (heap_swap i j xs))"
  by auto

termination
  by (relation "measure (\<lambda>(lt, i, n, xs). n - i)") (auto split: if_splits)

declare heap_up.simps [simp del] heap_down.simps [simp del]

fun init_loop :: "('a \<Rightarrow> 'a \<Rightarrow> bool) \<Rightarrow> nat \<Rightarrow> 'a list \<Rightarrow> 'a list" where
  "init_loop lt 0 xs = xs"
| "init_loop lt (Suc i) xs = init_loop lt i (snd (heap_down lt i (length xs) xs))"

definition heap_Init :: "('a \<Rightarrow> 'a \<Rightarrow> bool) \<Rightarrow> 'a list \<Rightarrow> 'a list" where
  "heap_Init lt xs = init_loop lt (length xs div 2) xs"

definition heap_Push :: "('a \<Rightarrow> 'a \<Rightarrow> bool) \<Rightarrow> 'a \<Rightarrow> 'a list \<Rightarrow> 'a list" where
  "heap_Push lt x xs = heap_up lt (length xs) (xs @ [x])"

text \<open>On an empty slice, \<open>Pop\<close> and \<open>Remove\<close> index out of range.\<close>

definition heap_Pop :: "('a \<Rightarrow> 'a \<Rightarrow> bool) \<Rightarrow> 'a list \<Rightarrow> ('a \<times> 'a list) go" where
  "heap_Pop lt xs =
    (if xs = [] then Panic ''index out of range''
     else let n = length xs - 1; ys = snd (heap_down lt 0 n (heap_swap 0 n xs))
       in Ret (List.last ys, butlast ys))"

definition heap_Remove :: "('a \<Rightarrow> 'a \<Rightarrow> bool) \<Rightarrow> nat \<Rightarrow> 'a list \<Rightarrow> ('a \<times> 'a list) go" where
  "heap_Remove lt i xs =
    (if i \<ge> length xs then Panic ''index out of range''
     else let n = length xs - 1;
              ys = (if n \<noteq> i then (case heap_down lt i n (heap_swap i n xs) of (k, ys) \<Rightarrow> if k > i then ys else heap_up lt i ys)
                    else xs)
       in Ret (List.last ys, butlast ys))"

definition heap_Fix :: "('a \<Rightarrow> 'a \<Rightarrow> bool) \<Rightarrow> nat \<Rightarrow> 'a list \<Rightarrow> 'a list" where
  "heap_Fix lt i xs = (case heap_down lt i (length xs) xs of (k, ys) \<Rightarrow> if k > i then ys else heap_up lt i ys)"

section \<open>Positions\<close>

lemma par_eq: "0 < j \<Longrightarrow> par j = i \<longleftrightarrow> j = 2 * i + 1 \<or> j = 2 * i + 2"
  unfolding par_def by presburger

lemma par_less: "0 < j \<Longrightarrow> par j < j"
  unfolding par_def by presburger

lemma swap_length [simp]: "length (heap_swap i j xs) = length xs"
  by (simp add: heap_swap_def)

lemma swap_mset [simp]: "i < length xs \<Longrightarrow> j < length xs \<Longrightarrow> mset (heap_swap i j xs) = mset xs"
  unfolding heap_swap_def using mset_swap [of j xs i] by simp

lemma swap_nth: "i < length xs \<Longrightarrow> j < length xs \<Longrightarrow>
    heap_swap i j xs ! k = (if k = j then xs ! i else if k = i then xs ! j else xs ! k)"
  by (auto simp: heap_swap_def nth_list_update)

lemma down_length [simp]: "length (snd (heap_down lt i n xs)) = length xs"
  by (induction lt i n xs rule: heap_down.induct) (subst heap_down.simps, auto simp: Let_def)

lemma up_length [simp]: "length (heap_up lt i xs) = length xs"
  by (induction lt i xs rule: heap_up.induct) (subst heap_up.simps, auto simp: Let_def)

lemma Push_length: "length (heap_Push lt x xs) = Suc (length xs)"
  by (simp add: heap_Push_def)

lemma Pop_length: "heap_Pop lt xs = Ret (x, ys) \<Longrightarrow> length ys < length xs"
  by (auto simp: heap_Pop_def Let_def split: if_splits)

definition is_heap :: "('a \<Rightarrow> 'a \<Rightarrow> bool) \<Rightarrow> 'a list \<Rightarrow> bool" where
  "is_heap lt xs \<longleftrightarrow> (\<forall>j. 0 < j \<and> j < length xs \<longrightarrow> \<not> lt (xs ! j) (xs ! par j))"

text \<open>\<open>down_pre\<close>: the order holds from \<open>lo\<close> on except around position \<open>i\<close>, whose children are in order with its parent.\<close>

definition down_pre :: "('a \<Rightarrow> 'a \<Rightarrow> bool) \<Rightarrow> nat \<Rightarrow> nat \<Rightarrow> nat \<Rightarrow> 'a list \<Rightarrow> bool" where
  "down_pre lt lo i n xs \<longleftrightarrow> n \<le> length xs \<and> lo \<le> i \<and>
    (\<forall>j. 0 < j \<and> j < n \<and> lo \<le> par j \<and> j \<noteq> i \<and> par j \<noteq> i \<longrightarrow> \<not> lt (xs ! j) (xs ! par j)) \<and>
    (\<forall>j. 0 < j \<and> j < n \<and> par j = i \<and> 0 < i \<and> lo \<le> par i \<longrightarrow> \<not> lt (xs ! j) (xs ! par i))"

definition up_pre :: "('a \<Rightarrow> 'a \<Rightarrow> bool) \<Rightarrow> nat \<Rightarrow> nat \<Rightarrow> 'a list \<Rightarrow> bool" where
  "up_pre lt i n xs \<longleftrightarrow> n \<le> length xs \<and> i < n \<and>
    (\<forall>j. 0 < j \<and> j < n \<and> j \<noteq> i \<longrightarrow> \<not> lt (xs ! j) (xs ! par j)) \<and>
    (\<forall>j. 0 < j \<and> j < n \<and> par j = i \<and> 0 < i \<longrightarrow> \<not> lt (xs ! j) (xs ! par i))"

section \<open>What the package promises\<close>

locale heap_interface =
  fixes lt :: "'a \<Rightarrow> 'a \<Rightarrow> bool"
  assumes asym: "lt a b \<Longrightarrow> \<not> lt b a"
    and negtrans: "\<not> lt b a \<Longrightarrow> \<not> lt c b \<Longrightarrow> \<not> lt c a"
begin

lemma down_ok:
  assumes "down_pre lt lo i n xs" "heap_down lt i n xs = (i', ys)"
  shows "(\<forall>j. 0 < j \<and> j < n \<and> lo \<le> par j \<and> (j \<noteq> i \<or> i' \<noteq> i) \<longrightarrow> \<not> lt (ys ! j) (ys ! par j)) \<and> mset ys = mset xs \<and>
    (\<forall>k. k < i \<or> n \<le> k \<longrightarrow> ys ! k = xs ! k) \<and> i \<le> i' \<and> (i' = i \<longrightarrow> ys = xs)"
  using assms
proof (induction "n - i" arbitrary: i xs rule: less_induct)
  case (less i xs)
  have pre: "n \<le> length xs" "lo \<le> i" "\<And>j. 0 < j \<Longrightarrow> j < n \<Longrightarrow> lo \<le> par j \<Longrightarrow> j \<noteq> i \<Longrightarrow> par j \<noteq> i \<Longrightarrow> \<not> lt (xs ! j) (xs ! par j)"
      "\<And>j. 0 < j \<Longrightarrow> j < n \<Longrightarrow> par j = i \<Longrightarrow> 0 < i \<Longrightarrow> lo \<le> par i \<Longrightarrow> \<not> lt (xs ! j) (xs ! par i)"
    using less.prems(1) by (auto simp: down_pre_def)
  let ?j1 = "2 * i + 1"
  let ?j = "if ?j1 + 1 < n \<and> lt (xs ! (?j1 + 1)) (xs ! ?j1) then ?j1 + 1 else ?j1"
  show ?case
  proof (cases "?j1 < n \<and> lt (xs ! ?j) (xs ! i)")
    case False
    then have stay: "i' = i" "ys = xs" using less.prems(2) by (auto simp: heap_down.simps [of _ i] Let_def split: if_splits)
    have "\<not> lt (xs ! j) (xs ! i)" if j: "0 < j" "j < n" "par j = i" for j
    proof -
      have jj: "j = ?j1 \<or> j = ?j1 + 1" using par_eq [OF j(1), of i] j(3) by simp
      then have n: "?j1 < n" using j(2) by auto
      then have nl: "\<not> lt (xs ! ?j) (xs ! i)" using False by blast
      have "\<not> lt (xs ! j) (xs ! ?j)" using jj j(2) asym [of "xs ! ?j1" "xs ! ?j1"] asym [of "xs ! (?j1 + 1)"] by auto
      with nl show ?thesis using negtrans by blast
    qed
    then have "\<not> lt (ys ! j) (ys ! par j)" if "0 < j" "j < n" "lo \<le> par j" "j \<noteq> i" for j
      using stay pre(3) [OF that] that by (cases "par j = i") auto
    then show ?thesis using stay by auto
  next
    case True
    define jj where "jj = ?j"
    let ?ys = "heap_swap i jj xs"
    have ij: "i < jj" "jj < n" "par jj = i" "0 < jj" using True par_eq [of jj i] by (auto simp: jj_def split: if_splits)
    then have len: "i < length xs" "jj < length xs" using pre(1) by auto
    note nth = swap_nth [OF len]
    have sib: "\<not> lt (xs ! k) (xs ! jj)" if "0 < k" "k < n" "par k = i" for k
      using that par_eq [OF that(1), of i] asym [of "xs ! k" "xs ! k"] asym [of "xs ! (?j1 + 1)" "xs ! ?j1"] by (auto simp: jj_def)
    have lt: "lt (xs ! jj) (xs ! i)" using True by (simp add: jj_def)
    have "\<not> lt (?ys ! k) (?ys ! par k)" if k: "0 < k" "k < n" "lo \<le> par k" "k \<noteq> jj" "par k \<noteq> jj" for k
    proof (cases "k = i")
      case True
      then have "par k \<noteq> i" "par k \<noteq> jj" using par_less [OF k(1)] ij(1) by auto
      then show ?thesis using True k pre(4) [OF ij(4,2,3)] by (simp add: nth)
    next
      case ki: False
      show ?thesis
      proof (cases "par k = i")
        case True
        then show ?thesis using ki k ij sib [OF k(1,2)] by (simp add: nth)
      next
        case False
        then show ?thesis using ki k pre(3) [OF k(1-3)] by (simp add: nth)
      qed
    qed
    moreover have "\<not> lt (?ys ! k) (?ys ! par jj)" if k: "0 < k" "k < n" "par k = jj" for k
    proof -
      have "k \<noteq> i" "k \<noteq> jj" using k(3) par_less [OF k(1)] ij(1) by auto
      then show ?thesis using k ij pre(2) pre(3) [OF k(1,2)] by (simp add: nth)
    qed
    ultimately have "down_pre lt lo jj n ?ys" using pre(1,2) ij(1) by (auto simp: down_pre_def)
    moreover have rec: "heap_down lt jj n ?ys = (i', ys)"
      using True less.prems(2) by (subst (asm) heap_down.simps) (auto simp: jj_def Let_def split: if_splits)
    moreover have "n - jj < n - i" using ij by simp
    ultimately have IH: "\<forall>j. 0 < j \<and> j < n \<and> lo \<le> par j \<and> (j \<noteq> jj \<or> i' \<noteq> jj) \<longrightarrow> \<not> lt (ys ! j) (ys ! par j)" "mset ys = mset ?ys"
        "\<forall>k. k < jj \<or> n \<le> k \<longrightarrow> ys ! k = ?ys ! k" "jj \<le> i'" "i' = jj \<longrightarrow> ys = ?ys"
      using less.hyps by blast+
    have "\<not> lt (ys ! jj) (ys ! i)" if "i' = jj" using that IH(5) asym [OF lt] ij(1) by (simp add: nth)
    then have "\<forall>j. 0 < j \<and> j < n \<and> lo \<le> par j \<longrightarrow> \<not> lt (ys ! j) (ys ! par j)" using IH(1) ij(3) by metis
    moreover have "\<forall>k. k < i \<or> n \<le> k \<longrightarrow> ys ! k = xs ! k" using IH(3) ij(1,2) by (auto simp: nth)
    ultimately show ?thesis using IH(2,4) ij(1) len by auto
  qed
qed

lemma up_ok:
  assumes "up_pre lt i n xs"
  shows "(\<forall>j. 0 < j \<and> j < n \<longrightarrow> \<not> lt (heap_up lt i xs ! j) (heap_up lt i xs ! par j)) \<and> mset (heap_up lt i xs) = mset xs \<and>
    (\<forall>k. n \<le> k \<longrightarrow> heap_up lt i xs ! k = xs ! k)"
  using assms
proof (induction i arbitrary: xs rule: less_induct)
  case (less i xs)
  have pre: "n \<le> length xs" "i < n" "\<And>j. 0 < j \<Longrightarrow> j < n \<Longrightarrow> j \<noteq> i \<Longrightarrow> \<not> lt (xs ! j) (xs ! par j)"
      "\<And>j. 0 < j \<Longrightarrow> j < n \<Longrightarrow> par j = i \<Longrightarrow> 0 < i \<Longrightarrow> \<not> lt (xs ! j) (xs ! par i)"
    using less.prems by (auto simp: up_pre_def)
  show ?case
  proof (cases "par i = i \<or> \<not> lt (xs ! i) (xs ! par i)")
    case True
    then have "heap_up lt i xs = xs" by (simp add: heap_up.simps [of _ i] Let_def)
    moreover have "\<not> lt (xs ! j) (xs ! par j)" if "0 < j" "j < n" for j
      using pre(3) [OF that] True par_less [OF that(1)] by (cases "j = i") auto
    ultimately show ?thesis by simp
  next
    case False
    let ?p = "par i" and ?ys = "heap_swap (par i) i xs"
    have i: "0 < i" using False by (cases "i = 0") (auto simp: par_def)
    then have pi: "?p < i" by (rule par_less)
    have len: "?p < length xs" "i < length xs" using pi pre(1,2) by auto
    note nth = swap_nth [OF len]
    have lp: "\<not> lt (xs ! ?p) (xs ! i)" using False asym by blast
    have "\<not> lt (?ys ! j) (?ys ! par j)" if j: "0 < j" "j < n" "j \<noteq> ?p" for j
    proof (cases "j = i")
      case True
      then show ?thesis using i pi lp by (simp add: nth)
    next
      case ji: False
      consider "par j = i" | "par j = ?p" "par j \<noteq> i" | "par j \<noteq> i" "par j \<noteq> ?p" by blast
      then show ?thesis
      proof cases
        case 1
        then show ?thesis using ji j pre(4) [OF j(1,2)] i pi by (simp add: nth)
      next
        case 2
        then show ?thesis using ji j pre(3) [OF j(1,2)] negtrans [OF lp] by (simp add: nth)
      next
        case 3
        then show ?thesis using ji j pre(3) [OF j(1,2)] by (simp add: nth)
      qed
    qed
    moreover have "\<not> lt (?ys ! j) (?ys ! par ?p)" if j: "0 < j" "j < n" "par j = ?p" "0 < ?p" for j
    proof -
      have pp: "par ?p < ?p" using par_less [OF j(4)] .
      have top: "\<not> lt (xs ! ?p) (xs ! par ?p)" using pre(3) [OF j(4)] pi pre(2) by simp
      show ?thesis
      proof (cases "j = i")
        case True
        then show ?thesis using top pp pi by (simp add: nth)
      next
        case False
        have "j \<noteq> ?p" using par_less [OF j(1)] j(3) by simp
        moreover have "\<not> lt (xs ! j) (xs ! par ?p)" using negtrans [OF top] pre(3) [OF j(1,2) False] j(3) by simp
        ultimately show ?thesis using False pp pi by (simp add: nth)
      qed
    qed
    ultimately have "up_pre lt ?p n ?ys" using pre(1,2) pi by (simp add: up_pre_def)
    note IH = less.IH [OF pi this]
    have "heap_up lt i xs = heap_up lt ?p ?ys" using False by (simp add: heap_up.simps [of _ i] Let_def)
    moreover have "\<forall>k. n \<le> k \<longrightarrow> ?ys ! k = xs ! k" using pi pre(2) by (simp add: nth)
    ultimately show ?thesis using IH len by simp
  qed
qed

lemma Push_heap:
  assumes "is_heap lt xs"
  shows "is_heap lt (heap_Push lt x xs)" "mset (heap_Push lt x xs) = add_mset x (mset xs)"
proof -
  have "up_pre lt (length xs) (length (xs @ [x])) (xs @ [x])"
    using assms par_less by (auto simp: up_pre_def is_heap_def nth_append less_Suc_eq dest: par_less) (use par_eq in fastforce)?
  note up = up_ok [OF this]
  then show ms: "mset (heap_Push lt x xs) = add_mset x (mset xs)" by (simp add: heap_Push_def)
  then have "length (heap_Push lt x xs) = Suc (length xs)" by (metis size_mset size_add_mset)
  then show "is_heap lt (heap_Push lt x xs)" using up by (simp add: is_heap_def heap_Push_def)
qed

lemma root_least: "is_heap lt xs \<Longrightarrow> j < length xs \<Longrightarrow> \<not> lt (xs ! j) (xs ! 0)"
proof (induction j rule: less_induct)
  case (less j)
  show ?case
  proof (cases "j = 0")
    case True
    then show ?thesis using asym by blast
  next
    case False
    then have p: "par j < j" using par_less by simp
    then have "\<not> lt (xs ! par j) (xs ! 0)" using less by simp
    moreover have "\<not> lt (xs ! j) (xs ! par j)" using less.prems False by (simp add: is_heap_def)
    ultimately show ?thesis by (rule negtrans)
  qed
qed

lemma drop_last:
  assumes "length ys = Suc n" "\<And>j. 0 < j \<Longrightarrow> j < n \<Longrightarrow> \<not> lt (ys ! j) (ys ! par j)"
  shows "is_heap lt (butlast ys)" "List.last ys = ys ! n" "mset ys = add_mset (ys ! n) (mset (butlast ys))"
proof -
  have "par j < n" if "0 < j" "j < n" for j using par_less [OF that(1)] that(2) by simp
  then show "is_heap lt (butlast ys)" using assms by (auto simp: is_heap_def nth_butlast)
  have ne: "ys \<noteq> []" using assms(1) by auto
  then show l: "List.last ys = ys ! n" using assms(1) by (simp add: last_conv_nth)
  have "mset ys = mset (butlast ys @ [List.last ys])" using ne by simp
  then show "mset ys = add_mset (ys ! n) (mset (butlast ys))" by (simp add: l)
qed

lemma Pop_heap:
  assumes "is_heap lt xs" "xs \<noteq> []"
  shows "\<exists>ys. heap_Pop lt xs = Ret (xs ! 0, ys) \<and> is_heap lt ys \<and> mset xs = add_mset (xs ! 0) (mset ys)"
proof -
  define n where "n = length xs - 1"
  have n: "length xs = Suc n" using assms(2) by (simp add: n_def)
  let ?zs = "heap_swap 0 n xs"
  have nth: "?zs ! k = (if k = n then xs ! 0 else if k = 0 then xs ! n else xs ! k)" for k using n by (simp add: swap_nth)
  have "par j < n" if "0 < j" "j < n" for j using par_less [OF that(1)] that(2) by simp
  then have "down_pre lt 0 0 n ?zs" using assms(1) n by (auto simp: down_pre_def nth is_heap_def)
  moreover obtain k ys where d: "heap_down lt 0 n ?zs = (k, ys)" by fastforce
  ultimately have ys: "\<forall>j. 0 < j \<and> j < n \<longrightarrow> \<not> lt (ys ! j) (ys ! par j)" "mset ys = mset ?zs" "ys ! n = ?zs ! n"
    using down_ok [of 0 0 n ?zs k ys] by auto
  have ms: "mset ys = mset xs" using ys(2) n by simp
  then have len: "length ys = Suc n" using n by (metis size_mset)
  have "heap_Pop lt xs = Ret (List.last ys, butlast ys)" using assms(2) d by (simp add: heap_Pop_def n_def Let_def)
  then show ?thesis using drop_last [OF len] ys(1,3) ms by (auto simp: nth)
qed

lemma Remove_heap:
  assumes "is_heap lt xs" "i < length xs"
  shows "\<exists>ys. heap_Remove lt i xs = Ret (xs ! i, ys) \<and> is_heap lt ys \<and> mset xs = add_mset (xs ! i) (mset ys)"
proof -
  define n where "n = length xs - 1"
  have n: "length xs = Suc n" using assms(2) by (simp add: n_def)
  have h: "\<And>j. 0 < j \<Longrightarrow> j < n \<Longrightarrow> \<not> lt (xs ! j) (xs ! par j)" using assms(1) n by (simp add: is_heap_def)
  have pl: "par j < n" "par j \<noteq> j" if "0 < j" "j < n" for j using par_less [OF that(1)] that(2) by auto
  have final: ?thesis if ys: "heap_Remove lt i xs = Ret (List.last ys, butlast ys)" "mset ys = mset xs" "ys ! n = xs ! i"
      "\<forall>j. 0 < j \<and> j < n \<longrightarrow> \<not> lt (ys ! j) (ys ! par j)" for ys
  proof -
    have "length ys = Suc n" using ys(2) n by (metis size_mset)
    then show ?thesis using drop_last [of ys n] ys by auto
  qed
  show ?thesis
  proof (cases "i = n")
    case True
    then have "heap_Remove lt i xs = Ret (List.last xs, butlast xs)" using assms(2) by (simp add: heap_Remove_def n_def)
    then show ?thesis using final [of xs] True h by simp
  next
    case False
    then have i: "i < n" using assms(2) n by simp
    let ?zs = "heap_swap i n xs"
    have nth: "?zs ! k = (if k = n then xs ! i else if k = i then xs ! n else xs ! k)" for k using n i by (simp add: swap_nth)
    have far: "\<not> lt (?zs ! j) (?zs ! par i)" if j: "0 < j" "j < n" "par j = i" "0 < i" for j
    proof -
      have "j \<noteq> i" "par i \<noteq> n" "par i \<noteq> i" using pl [OF j(1,2)] pl [OF j(4) i] j(3) by auto
      then show ?thesis using negtrans [OF h [OF j(4) i]] h [OF j(1,2)] j by (simp add: nth)
    qed
    have zs: "down_pre lt 0 i n ?zs" using far h pl n by (auto simp: down_pre_def nth)
    obtain k ys where d: "heap_down lt i n ?zs = (k, ys)" by fastforce
    note dn = down_ok [OF zs d]
    have ms: "mset ?zs = mset xs" using n i by simp
    show ?thesis
    proof (cases "k > i")
      case True
      then have "heap_Remove lt i xs = Ret (List.last ys, butlast ys)" using False assms(2) d by (simp add: heap_Remove_def n_def Let_def)
      then show ?thesis using final [of ys] dn True ms by (auto simp: nth)
    next
      case stay: False
      then have k: "k = i" "ys = ?zs" using dn by auto
      let ?us = "heap_up lt i ?zs"
      have "up_pre lt i n ?zs" using dn k far n i by (auto simp: up_pre_def)
      note up = up_ok [OF this]
      have "heap_Remove lt i xs = Ret (List.last ?us, butlast ?us)" using False stay assms(2) d k by (simp add: heap_Remove_def n_def Let_def)
      then show ?thesis using final [of ?us] up ms by (auto simp: nth)
    qed
  qed
qed

lemma Fix_heap:
  assumes "is_heap lt xs" "i < length xs"
  shows "is_heap lt (heap_Fix lt i (xs[i := x]))" "mset (heap_Fix lt i (xs[i := x])) = mset (xs[i := x])"
proof -
  let ?n = "length xs" and ?zs = "xs[i := x]"
  have h: "\<And>j. 0 < j \<Longrightarrow> j < ?n \<Longrightarrow> \<not> lt (xs ! j) (xs ! par j)" using assms(1) by (simp add: is_heap_def)
  have pl: "par j < ?n" "par j \<noteq> j" if "0 < j" "j < ?n" for j using par_less [OF that(1)] that(2) by auto
  have far: "\<not> lt (?zs ! j) (?zs ! par i)" if j: "0 < j" "j < ?n" "par j = i" "0 < i" for j
  proof -
    have "j \<noteq> i" "par i \<noteq> i" using pl [OF j(1,2)] pl [OF j(4) assms(2)] j(3) by auto
    then show ?thesis using negtrans [OF h [OF j(4) assms(2)]] h [OF j(1,2)] j by simp
  qed
  have zs: "down_pre lt 0 i ?n ?zs" using far h pl by (auto simp: down_pre_def)
  obtain k ys where d: "heap_down lt i ?n ?zs = (k, ys)" by fastforce
  note dn = down_ok [OF zs d]
  show ms: "mset (heap_Fix lt i ?zs) = mset ?zs"
    and "is_heap lt (heap_Fix lt i ?zs)"
  proof -
    have "mset (heap_Fix lt i ?zs) = mset ?zs \<and> (\<forall>j. 0 < j \<and> j < ?n \<longrightarrow> \<not> lt (heap_Fix lt i ?zs ! j) (heap_Fix lt i ?zs ! par j))"
    proof (cases "k > i")
      case True
      then show ?thesis using dn d by (simp add: heap_Fix_def)
    next
      case False
      then have k: "k = i" "ys = ?zs" using dn by auto
      then have "up_pre lt i ?n ?zs" using dn far assms(2) by (auto simp: up_pre_def)
      then show ?thesis using up_ok [of i ?n ?zs] k d by (simp add: heap_Fix_def)
    qed
    moreover from this have "length (heap_Fix lt i ?zs) = ?n" by (metis length_list_update size_mset)
    ultimately show "mset (heap_Fix lt i ?zs) = mset ?zs" "is_heap lt (heap_Fix lt i ?zs)" by (auto simp: is_heap_def)
  qed
qed

lemma init_loop_ok:
  assumes "\<And>j. 0 < j \<Longrightarrow> j < length xs \<Longrightarrow> i \<le> par j \<Longrightarrow> \<not> lt (xs ! j) (xs ! par j)"
  shows "is_heap lt (init_loop lt i xs) \<and> mset (init_loop lt i xs) = mset xs"
  using assms
proof (induction i arbitrary: xs)
  case 0
  then show ?case by (simp add: is_heap_def)
next
  case (Suc i)
  obtain k ys where d: "heap_down lt i (length xs) xs = (k, ys)" by fastforce
  have "down_pre lt i i (length xs) xs" using Suc.prems par_less [of i] by (auto simp: down_pre_def)
  from down_ok [OF this d] have ys: "\<forall>j. 0 < j \<and> j < length xs \<and> i \<le> par j \<and> (j \<noteq> i \<or> k \<noteq> i) \<longrightarrow> \<not> lt (ys ! j) (ys ! par j)" "mset ys = mset xs"
    by auto
  then have len: "length ys = length xs" by (metis size_mset)
  have "\<not> lt (ys ! j) (ys ! par j)" if "0 < j" "j < length ys" "i \<le> par j" for j
    using ys(1) that par_less [OF that(1)] len by auto
  then show ?case using Suc.IH [of ys] ys(2) d by simp
qed

lemma Init_heap: "is_heap lt (heap_Init lt xs)" "mset (heap_Init lt xs) = mset xs"
proof -
  have "\<not> length xs div 2 \<le> par j" if "0 < j" "j < length xs" for j using that unfolding par_def by linarith
  then show "is_heap lt (heap_Init lt xs)" "mset (heap_Init lt xs) = mset xs"
    using init_loop_ok [of xs "length xs div 2"] by (auto simp: heap_Init_def)
qed

end

end
