(* ===== verification/Tx_List.thy ===== *)
theory Tx_List
  imports Go_Heap Block_Processor Simulation "HOL-Library.AList"
begin

text \<open>
  The transaction lists of the pool (\<^verbatim>\<open>client/core/txpool/list.go\<close>): \<open>sortedMap\<close>, a map from nonces to transactions with a heap of
  its keys and a cache of the sorted contents, and \<open>list\<close>, the transactions of one account with their total cost and the caps
  that let \<open>Filter\<close> return early.

  The Go map \<open>items\<close> is an association list; a loop over it visits its entries in the order that an argument chooses
  (\<open>range_order\<close>), because the order in Go is random. \<open>sort.Sort\<close> on distinct keys is the sorting of the list library. A nil
  entry of \<open>items\<close> that the code would append to a result is a panic of the model; the facts exclude it.

  The facts: a \<open>sortedMap\<close> implements the list of its transactions in the order of nonces, for every sequence of
  operations; the total cost of a \<open>list\<close> is the sum of the costs of its transactions; and what \<open>Filter\<close> and \<open>Add\<close> decide.
\<close>

section \<open>The sorted map\<close>

type_synonym txItems = "(u64 \<times> Transaction) list"

record sortedMap =
  smItems :: txItems
  smIndex :: "u64 list"
  smCache :: "Transaction list option"

definition nonceLess :: "u64 \<Rightarrow> u64 \<Rightarrow> bool" where
  "nonceLess a b \<longleftrightarrow> a < b"

definition newSortedMap :: sortedMap where
  "newSortedMap = \<lparr>smItems = [], smIndex = [], smCache = None\<rparr>"

definition sm_Get :: "u64 \<Rightarrow> sortedMap \<Rightarrow> Transaction option" where
  "sm_Get nonce m = map_of (smItems m) nonce"

definition sm_Put :: "Transaction \<Rightarrow> sortedMap \<Rightarrow> sortedMap" where
  "sm_Put tx m =
    (let nonce = tNonce tx;
         m = (if map_of (smItems m) nonce = None then m\<lparr>smIndex := heap_Push nonceLess nonce (smIndex m)\<rparr> else m)
     in m\<lparr>smItems := AList.update nonce tx (smItems m), smCache := None\<rparr>)"

definition sm_item :: "txItems \<Rightarrow> u64 \<Rightarrow> Transaction go" where
  "sm_item its nonce = (case map_of its nonce of Some tx \<Rightarrow> Ret tx | None \<Rightarrow> Panic ''nil transaction'')"

function forward_loop :: "u64 \<Rightarrow> txItems \<Rightarrow> u64 list \<Rightarrow> Transaction list \<Rightarrow> (Transaction list \<times> txItems \<times> u64 list) go" where
  "forward_loop threshold its idx removed =
    (if idx \<noteq> [] \<and> idx ! 0 < threshold then
       (case heap_Pop nonceLess idx of
          Ret (nonce, idx) \<Rightarrow> (case sm_item its nonce of
            Ret tx \<Rightarrow> forward_loop threshold (AList.delete nonce its) idx (removed @ [tx])
          | Panic e \<Rightarrow> Panic e | NoFuel \<Rightarrow> NoFuel)
        | Panic e \<Rightarrow> Panic e | NoFuel \<Rightarrow> NoFuel)
     else Ret (removed, its, idx))"
  by pat_completeness auto

termination
  by (relation "measure (\<lambda>(threshold, its, idx, removed). length idx)") (auto dest: Pop_length)

definition sm_Forward :: "u64 \<Rightarrow> sortedMap \<Rightarrow> (Transaction list \<times> sortedMap) go" where
  "sm_Forward threshold m =
    go_bind (forward_loop threshold (smItems m) (smIndex m) []) (\<lambda>(removed, its, idx).
      let m = m\<lparr>smItems := its, smIndex := idx\<rparr>
      in case smCache m of
           None \<Rightarrow> Ret (removed, m)
         | Some c \<Rightarrow> if length removed > length c then Panic ''slice bounds out of range''
                     else Ret (removed, m\<lparr>smCache := Some (drop (length removed) c)\<rparr>))"

definition sm_reheap :: "(txItems \<Rightarrow> txItems) \<Rightarrow> sortedMap \<Rightarrow> sortedMap" where
  "sm_reheap ord m = m\<lparr>smIndex := heap_Init nonceLess (map fst (ord (smItems m))), smCache := None\<rparr>"

definition sm_filter :: "(txItems \<Rightarrow> txItems) \<Rightarrow> (Transaction \<Rightarrow> bool) \<Rightarrow> sortedMap \<Rightarrow> Transaction list \<times> sortedMap" where
  "sm_filter ord f m =
    (let removed = map snd (filter (\<lambda>(nonce, tx). f tx) (ord (smItems m)));
         m = m\<lparr>smItems := filter (\<lambda>(nonce, tx). \<not> f tx) (smItems m)\<rparr>
     in (removed, if removed \<noteq> [] then m\<lparr>smCache := None\<rparr> else m))"

definition sm_Filter :: "(txItems \<Rightarrow> txItems) \<Rightarrow> (txItems \<Rightarrow> txItems) \<Rightarrow> (Transaction \<Rightarrow> bool) \<Rightarrow> sortedMap \<Rightarrow> Transaction list \<times> sortedMap" where
  "sm_Filter ord ord' f m =
    (let (removed, m) = sm_filter ord f m in (removed, if removed \<noteq> [] then sm_reheap ord' m else m))"

fun cap_loop :: "u64 list \<Rightarrow> int \<Rightarrow> nat \<Rightarrow> txItems \<Rightarrow> Transaction list \<Rightarrow> (Transaction list \<times> txItems) go" where
  "cap_loop idx threshold 0 its drops = (if 0 > threshold then Panic ''index out of range'' else Ret (drops, its))"
| "cap_loop idx threshold (Suc k) its drops =
    (if int (Suc k) > threshold then
       (if k \<ge> length idx then Panic ''index out of range''
        else go_bind (sm_item its (idx ! k)) (\<lambda>tx. cap_loop idx threshold k (AList.delete (idx ! k) its) (drops @ [tx])))
     else Ret (drops, its))"

definition sm_Cap :: "int \<Rightarrow> sortedMap \<Rightarrow> (Transaction list \<times> sortedMap) go" where
  "sm_Cap threshold m =
    (if int (length (smItems m)) \<le> threshold then Ret ([], m)
     else let idx = sort (smIndex m)
       in go_bind (cap_loop idx threshold (length (smItems m)) (smItems m) []) (\<lambda>(drops, its).
            let m = m\<lparr>smItems := its, smIndex := heap_Init nonceLess (take (nat threshold) idx)\<rparr>
            in case smCache m of
                 None \<Rightarrow> Ret (drops, m)
               | Some c \<Rightarrow> if length drops > length c then Panic ''slice bounds out of range''
                           else Ret (drops, m\<lparr>smCache := Some (take (length c - length drops) c)\<rparr>)))"

fun index_of :: "u64 \<Rightarrow> u64 list \<Rightarrow> nat" where
  "index_of nonce [] = 0"
| "index_of nonce (x # xs) = (if x = nonce then 0 else Suc (index_of nonce xs))"

definition sm_Remove :: "u64 \<Rightarrow> sortedMap \<Rightarrow> (bool \<times> sortedMap) go" where
  "sm_Remove nonce m =
    (if map_of (smItems m) nonce = None then Ret (False, m)
     else let i = index_of nonce (smIndex m)
       in go_bind (if i < length (smIndex m) then heap_Remove nonceLess i (smIndex m) else Ret (nonce, smIndex m)) (\<lambda>(_, idx).
            Ret (True, m\<lparr>smIndex := idx, smItems := AList.delete nonce (smItems m), smCache := None\<rparr>)))"

function ready_loop :: "u64 \<Rightarrow> txItems \<Rightarrow> u64 list \<Rightarrow> Transaction list \<Rightarrow> (Transaction list \<times> txItems \<times> u64 list) go" where
  "ready_loop nxt its idx rdy =
    (if idx \<noteq> [] \<and> idx ! 0 = nxt then
       (case sm_item its nxt of
          Ret tx \<Rightarrow> (case heap_Pop nonceLess idx of
            Ret (_, idx) \<Rightarrow> ready_loop (nxt + 1) (AList.delete nxt its) idx (rdy @ [tx])
          | Panic e \<Rightarrow> Panic e | NoFuel \<Rightarrow> NoFuel)
        | Panic e \<Rightarrow> Panic e | NoFuel \<Rightarrow> NoFuel)
     else Ret (rdy, its, idx))"
  by pat_completeness auto

termination
  by (relation "measure (\<lambda>(nxt, its, idx, rdy). length idx)") (auto dest: Pop_length)

declare forward_loop.simps [simp del] ready_loop.simps [simp del]

definition sm_Ready :: "u64 \<Rightarrow> sortedMap \<Rightarrow> (Transaction list \<times> sortedMap) go" where
  "sm_Ready start m =
    (if smIndex m = [] \<or> smIndex m ! 0 > start then Ret ([], m)
     else go_bind (ready_loop (smIndex m ! 0) (smItems m) (smIndex m) []) (\<lambda>(rdy, its, idx).
       Ret (rdy, m\<lparr>smItems := its, smIndex := idx, smCache := None\<rparr>)))"

definition sm_Len :: "sortedMap \<Rightarrow> nat" where
  "sm_Len m = length (smItems m)"

definition sm_flatten :: "(txItems \<Rightarrow> txItems) \<Rightarrow> sortedMap \<Rightarrow> Transaction list \<times> sortedMap" where
  "sm_flatten ord m = (case smCache m of
     Some c \<Rightarrow> (c, m)
   | None \<Rightarrow> let c = sort_key tNonce (map snd (ord (smItems m))) in (c, m\<lparr>smCache := Some c\<rparr>))"

definition sm_LastElement :: "(txItems \<Rightarrow> txItems) \<Rightarrow> sortedMap \<Rightarrow> (Transaction \<times> sortedMap) go" where
  "sm_LastElement ord m =
    (let (c, m) = sm_flatten ord m in if c = [] then Panic ''index out of range'' else Ret (List.last c, m))"

section \<open>The transactions in order\<close>

interpretation nonce_heap: heap_interface nonceLess
  by unfold_locales (auto simp: nonceLess_def)

definition range_order :: "(txItems \<Rightarrow> txItems) \<Rightarrow> bool" where
  "range_order ord \<longleftrightarrow> (\<forall>xs. mset (ord xs) = mset xs)"

definition items_ok :: "txItems \<Rightarrow> bool" where
  "items_ok its \<longleftrightarrow> distinct (map fst its) \<and> (\<forall>(n, tx) \<in> set its. tNonce tx = n)"

definition core_ok :: "txItems \<Rightarrow> u64 list \<Rightarrow> bool" where
  "core_ok its idx \<longleftrightarrow> items_ok its \<and> is_heap nonceLess idx \<and> mset idx = mset (map fst its)"

definition flat :: "txItems \<Rightarrow> Transaction list" where
  "flat its = sort_key tNonce (map snd its)"

definition sm_ok :: "sortedMap \<Rightarrow> bool" where
  "sm_ok m \<longleftrightarrow> core_ok (smItems m) (smIndex m) \<and> (\<forall>c. smCache m = Some c \<longrightarrow> c = flat (smItems m))"

text \<open>Lists of transactions with increasing nonces; such a list is determined by its elements.\<close>

abbreviation by_nonce :: "Transaction list \<Rightarrow> bool" where
  "by_nonce xs \<equiv> sorted_wrt (\<lambda>a b. tNonce a < tNonce b) xs"

lemma by_nonce_unique:
  assumes "by_nonce xs" "by_nonce ys" "set xs = set ys"
  shows "xs = ys"
  using assms
proof (induction xs arbitrary: ys)
  case (Cons x xs)
  then obtain y ys' where ys: "ys = y # ys'" by (cases ys) auto
  have "x \<in> set ys" "y \<in> set (x # xs)" using Cons.prems(3) ys by auto
  then have x: "x = y" using Cons.prems(1,2) ys by (auto dest: order_less_trans)
  have "x \<notin> set xs" "x \<notin> set ys'" using Cons.prems(1,2) ys x by auto
  then have "set xs = set ys'" using Cons.prems(3) ys x by auto
  then show ?case using Cons ys x by auto
qed simp

lemma items_nonces: "items_ok its \<Longrightarrow> map tNonce (map snd its) = map fst its"
  by (induction its) (auto simp: items_ok_def)

lemma flat_nonces: "items_ok its \<Longrightarrow> mset (map tNonce (flat its)) = mset (map fst its)"
  by (simp add: flat_def image_mset.compositionality flip: items_nonces)

lemma flat_by_nonce:
  assumes "items_ok its"
  shows "by_nonce (flat its)"
proof -
  have "mset (map tNonce (flat its)) = mset (map fst its)" using assms by (rule flat_nonces)
  moreover have "distinct (map fst its)" using assms by (simp add: items_ok_def)
  ultimately have "distinct (map tNonce (flat its))" using mset_eq_imp_distinct_iff by blast
  moreover have "sorted (map tNonce (flat its))" by (simp add: flat_def)
  ultimately have "sorted_wrt (<) (map tNonce (flat its))" by (simp add: strict_sorted_iff)
  then show ?thesis by (simp add: sorted_wrt_map)
qed

lemma flat_set: "set (flat its) = snd ` set its"
  by (simp add: flat_def)

lemma flat_length: "length (flat its) = length its"
  by (simp add: flat_def)

lemma flatI: "items_ok its \<Longrightarrow> by_nonce xs \<Longrightarrow> set xs = snd ` set its \<Longrightarrow> flat its = xs"
  using by_nonce_unique [OF flat_by_nonce] flat_set by metis

lemma flat_lookup:
  assumes "items_ok its"
  shows "map_of its n = Some tx \<longleftrightarrow> tx \<in> set (flat its) \<and> tNonce tx = n"
proof -
  have "map_of its n = Some tx \<longleftrightarrow> (n, tx) \<in> set its" using assms by (simp add: items_ok_def map_of_eq_Some_iff)
  also have "\<dots> \<longleftrightarrow> tx \<in> set (flat its) \<and> tNonce tx = n" using assms by (force simp: flat_set items_ok_def)
  finally show ?thesis .
qed

lemma filter_items_ok: "items_ok its \<Longrightarrow> items_ok (filter P its)"
  by (auto simp: items_ok_def distinct_map_filter)

lemma flat_filter:
  "items_ok its \<Longrightarrow> flat (filter (\<lambda>(n, tx). P tx) its) = filter P (flat its)"
  by (simp add: flat_def filter_sort filter_map comp_def case_prod_unfold)

lemma delete_filter: "items_ok its \<Longrightarrow> AList.delete n its = filter (\<lambda>(k, tx). tNonce tx \<noteq> n) its"
  unfolding AList.delete_eq by (rule filter_cong) (auto simp: items_ok_def)

lemma delete_items_ok: "items_ok its \<Longrightarrow> items_ok (AList.delete n its)"
  by (simp add: delete_filter filter_items_ok)

lemma flat_delete: "items_ok its \<Longrightarrow> flat (AList.delete n its) = filter (\<lambda>tx. tNonce tx \<noteq> n) (flat its)"
  by (simp add: delete_filter flat_filter)

lemma delete_keys: "items_ok its \<Longrightarrow> map_of its n = Some tx \<Longrightarrow> mset (map fst its) = add_mset n (mset (map fst (AList.delete n its)))"
proof (induction its)
  case (Cons x its)
  show ?case
  proof (cases "fst x = n")
    case True
    then have "n \<notin> fst ` set its" using Cons.prems(1) by (auto simp: items_ok_def)
    then have "AList.delete n its = its" by (induction its) auto
    then show ?thesis using True by (cases x) (simp add: AList.delete_eq)
  next
    case False
    then have "map_of its n = Some tx" "items_ok its" using Cons.prems by (auto simp: items_ok_def)
    then show ?thesis using Cons.IH False by (cases x) (simp add: AList.delete_eq)
  qed
qed simp

lemma core_set: "core_ok its idx \<Longrightarrow> set idx = tNonce ` set (flat its)"
  using flat_nonces [of its] by (metis core_ok_def list.set_map set_mset_mset)

lemma core_empty: "core_ok its idx \<Longrightarrow> idx = [] \<longleftrightarrow> flat its = []"
  using core_set by fastforce

text \<open>One \<open>Pop\<close> of the index takes the first transaction.\<close>

lemma core_pop:
  assumes "core_ok its idx" "flat its = tx # rest"
  shows "\<exists>idx'. heap_Pop nonceLess idx = Ret (tNonce tx, idx') \<and> sm_item its (tNonce tx) = Ret tx \<and> idx ! 0 = tNonce tx \<and>
    core_ok (AList.delete (tNonce tx) its) idx' \<and> flat (AList.delete (tNonce tx) its) = rest"
proof -
  have it: "items_ok its" and hp: "is_heap nonceLess idx" using assms(1) by (auto simp: core_ok_def)
  have ne: "idx \<noteq> []" using core_empty [OF assms(1)] assms(2) by simp
  obtain idx' where p: "heap_Pop nonceLess idx = Ret (idx ! 0, idx')" "is_heap nonceLess idx'" "mset idx = add_mset (idx ! 0) (mset idx')"
    using nonce_heap.Pop_heap [OF hp ne] by blast
  have bn: "by_nonce (tx # rest)" using flat_by_nonce [OF it] assms(2) by simp
  have "idx ! 0 \<in> set idx" "tNonce tx \<in> set idx" using ne core_set [OF assms(1)] assms(2) by auto
  then have "\<not> tNonce tx < idx ! 0" "idx ! 0 \<in> tNonce ` set (tx # rest)"
    using nonce_heap.root_least [OF hp] core_set [OF assms(1)] assms(2) by (metis in_set_conv_nth nonceLess_def, simp)
  then have first: "idx ! 0 = tNonce tx" using bn by auto
  have look: "map_of its (tNonce tx) = Some tx" using flat_lookup [OF it] assms(2) by simp
  have "filter (\<lambda>t. tNonce t \<noteq> tNonce tx) rest = rest" using bn by (intro filter_True) auto
  then have "flat (AList.delete (tNonce tx) its) = rest" using assms(2) by (simp add: flat_delete [OF it])
  moreover have "core_ok (AList.delete (tNonce tx) its) idx'"
    using p first delete_items_ok [OF it] delete_keys [OF it look] assms(1) by (simp add: core_ok_def)
  ultimately show ?thesis using p first look by (simp add: sm_item_def)
qed

section \<open>Every operation on the ordered list\<close>

abbreviation sm_txs :: "sortedMap \<Rightarrow> Transaction list" where
  "sm_txs m \<equiv> flat (smItems m)"

definition insert_tx :: "Transaction \<Rightarrow> Transaction list \<Rightarrow> Transaction list" where
  "insert_tx tx xs = takeWhile (\<lambda>t. tNonce t < tNonce tx) xs @ tx # dropWhile (\<lambda>t. tNonce t \<le> tNonce tx) xs"

fun ready_run :: "u64 \<Rightarrow> Transaction list \<Rightarrow> Transaction list" where
  "ready_run n [] = []"
| "ready_run n (tx # xs) = (if tNonce tx = n then tx # ready_run (n + 1) xs else [])"

lemma by_nonce_filter: "by_nonce xs \<Longrightarrow> by_nonce (filter P xs)"
  by (simp add: sorted_wrt_filter)

lemma by_nonce_while: 
  assumes "by_nonce xs"
  shows "takeWhile (\<lambda>t. tNonce t < n) xs = filter (\<lambda>t. tNonce t < n) xs"
    and "dropWhile (\<lambda>t. tNonce t < n) xs = filter (\<lambda>t. n \<le> tNonce t) xs"
    and "dropWhile (\<lambda>t. tNonce t \<le> n) xs = filter (\<lambda>t. n < tNonce t) xs"
  using assms by (induction xs) (auto simp: not_le not_less intro!: filter_True [symmetric] filter_False [symmetric],
    metis leD order_less_trans)

lemma insert_tx_set:
  "by_nonce xs \<Longrightarrow> set (insert_tx tx xs) = insert tx {t \<in> set xs. tNonce t \<noteq> tNonce tx}"
  by (auto simp: insert_tx_def by_nonce_while)

lemma insert_tx_by_nonce: "by_nonce xs \<Longrightarrow> by_nonce (insert_tx tx xs)"
  by (auto simp: insert_tx_def by_nonce_while by_nonce_filter sorted_wrt_append)

lemma new_ok: "sm_ok newSortedMap" "sm_txs newSortedMap = []"
  by (simp_all add: newSortedMap_def sm_ok_def core_ok_def items_ok_def flat_def is_heap_def)

lemma update_set: "distinct (map fst its) \<Longrightarrow> set (AList.update n tx its) = insert (n, tx) {x \<in> set its. fst x \<noteq> n}"
  by (induction its) (auto simp: image_iff)

lemma update_items_ok: "items_ok its \<Longrightarrow> items_ok (AList.update (tNonce tx) tx its)"
  by (auto simp: items_ok_def distinct_update update_set)

lemma Put_ok:
  assumes "sm_ok m"
  shows "sm_ok (sm_Put tx m)" "sm_txs (sm_Put tx m) = insert_tx tx (sm_txs m)"
proof -
  let ?n = "tNonce tx" and ?its = "smItems m"
  have it: "items_ok ?its" and d: "distinct (map fst ?its)" and hp: "is_heap nonceLess (smIndex m)" and ix: "mset (smIndex m) = mset (map fst ?its)"
    using assms by (auto simp: sm_ok_def core_ok_def items_ok_def)
  let ?u = "AList.update ?n tx ?its"
  have u: "items_ok ?u" using it by (rule update_items_ok)
  have keys: "map fst ?u = (if map_of ?its ?n = None then map fst ?its @ [?n] else map fst ?its)"
    by (simp add: AList.update_keys map_of_eq_None_iff)
  have m: "smItems (sm_Put tx m) = ?u" "smCache (sm_Put tx m) = None"
      "smIndex (sm_Put tx m) = (if map_of ?its ?n = None then heap_Push nonceLess ?n (smIndex m) else smIndex m)"
    by (auto simp: sm_Put_def Let_def)
  have "core_ok ?u (smIndex (sm_Put tx m))" using u keys nonce_heap.Push_heap [OF hp, of ?n] hp ix by (simp add: core_ok_def m)
  then show "sm_ok (sm_Put tx m)" by (simp add: sm_ok_def m)
  have bn: "by_nonce (flat ?its)" using it by (rule flat_by_nonce)
  have "snd ` set ?u = insert tx {t \<in> snd ` set ?its. tNonce t \<noteq> ?n}"
    using it by (auto simp: update_set [OF d] items_ok_def image_iff) (metis fst_conv snd_conv)?
  then have "set (insert_tx tx (flat ?its)) = snd ` set ?u" by (simp add: insert_tx_set [OF bn] flat_set)
  then show "sm_txs (sm_Put tx m) = insert_tx tx (sm_txs m)" unfolding m
    using flatI [OF u insert_tx_by_nonce [OF bn]] by blast
qed

lemma forward_loop_ok:
  assumes "core_ok its idx"
  shows "\<exists>its' idx'. forward_loop n its idx acc = Ret (acc @ takeWhile (\<lambda>t. tNonce t < n) (flat its), its', idx') \<and>
    core_ok its' idx' \<and> flat its' = dropWhile (\<lambda>t. tNonce t < n) (flat its)"
  using assms
proof (induction "flat its" arbitrary: its idx acc)
  case Nil
  then show ?case using core_empty [OF Nil.prems] by (simp add: forward_loop.simps)
next
  case (Cons tx rest)
  obtain idx' where p: "heap_Pop nonceLess idx = Ret (tNonce tx, idx')" "sm_item its (tNonce tx) = Ret tx" "idx ! 0 = tNonce tx"
      "core_ok (AList.delete (tNonce tx) its) idx'" "flat (AList.delete (tNonce tx) its) = rest"
    using core_pop [OF Cons.prems Cons.hyps(2) [symmetric]] by blast
  have ne: "idx \<noteq> []" using core_empty [OF Cons.prems] Cons.hyps(2) by auto
  show ?case
  proof (cases "tNonce tx < n")
    case True
    then have "forward_loop n its idx acc = forward_loop n (AList.delete (tNonce tx) its) idx' (acc @ [tx])"
      using p ne by (subst forward_loop.simps) simp
    then show ?thesis using Cons.hyps(1) [OF p(5) [symmetric] p(4), of "acc @ [tx]"] True p(5) by (simp flip: Cons.hyps(2))
  next
    case False
    then have "forward_loop n its idx acc = Ret (acc, its, idx)" using p(3) by (subst forward_loop.simps) simp
    then show ?thesis using False Cons.prems by (simp flip: Cons.hyps(2))
  qed
qed

lemma Forward_ok:
  assumes "sm_ok m"
  shows "\<exists>m'. sm_Forward n m = Ret (takeWhile (\<lambda>t. tNonce t < n) (sm_txs m), m') \<and> sm_ok m' \<and>
    sm_txs m' = dropWhile (\<lambda>t. tNonce t < n) (sm_txs m)"
proof -
  let ?P = "\<lambda>t. tNonce t < n" and ?F = "sm_txs m"
  have "core_ok (smItems m) (smIndex m)" using assms by (simp add: sm_ok_def)
  from forward_loop_ok [OF this, of n "[]"] obtain its idx where
    l: "forward_loop n (smItems m) (smIndex m) [] = Ret (takeWhile ?P ?F, its, idx)" "core_ok its idx" "flat its = dropWhile ?P ?F"
    by auto
  have "length (takeWhile ?P ?F) \<le> length ?F" by (rule length_takeWhile_le)
  then show ?thesis using l assms by (cases "smCache m") (auto simp: sm_Forward_def Let_def sm_ok_def dropWhile_eq_drop)
qed

lemma ready_loop_ok:
  assumes "core_ok its idx"
  shows "\<exists>its' idx'. ready_loop n its idx acc = Ret (acc @ ready_run n (flat its), its', idx') \<and>
    core_ok its' idx' \<and> flat its' = drop (length (ready_run n (flat its))) (flat its)"
  using assms
proof (induction "flat its" arbitrary: its idx acc n)
  case Nil
  then show ?case using core_empty [OF Nil.prems] by (simp add: ready_loop.simps)
next
  case (Cons tx rest)
  obtain idx' where p: "heap_Pop nonceLess idx = Ret (tNonce tx, idx')" "sm_item its (tNonce tx) = Ret tx" "idx ! 0 = tNonce tx"
      "core_ok (AList.delete (tNonce tx) its) idx'" "flat (AList.delete (tNonce tx) its) = rest"
    using core_pop [OF Cons.prems Cons.hyps(2) [symmetric]] by blast
  have ne: "idx \<noteq> []" using core_empty [OF Cons.prems] Cons.hyps(2) by auto
  show ?case
  proof (cases "tNonce tx = n")
    case True
    then have "ready_loop n its idx acc = ready_loop (n + 1) (AList.delete (tNonce tx) its) idx' (acc @ [tx])"
      using p ne by (subst ready_loop.simps) auto
    then show ?thesis using Cons.hyps(1) [OF p(5) [symmetric] p(4), of "n + 1" "acc @ [tx]"] True p(5) by (simp flip: Cons.hyps(2))
  next
    case False
    then have "ready_loop n its idx acc = Ret (acc, its, idx)" using p(3) by (subst ready_loop.simps) simp
    then show ?thesis using False Cons.prems by (simp flip: Cons.hyps(2))
  qed
qed

definition ready_txs :: "u64 \<Rightarrow> Transaction list \<Rightarrow> Transaction list" where
  "ready_txs start xs = (if xs = [] \<or> tNonce (xs ! 0) > start then [] else ready_run (tNonce (xs ! 0)) xs)"

lemma Ready_ok:
  assumes "sm_ok m"
  shows "\<exists>m'. sm_Ready start m = Ret (ready_txs start (sm_txs m), m') \<and> sm_ok m' \<and>
    sm_txs m' = drop (length (ready_txs start (sm_txs m))) (sm_txs m)"
proof -
  have c: "core_ok (smItems m) (smIndex m)" using assms by (simp add: sm_ok_def)
  show ?thesis
  proof (cases "sm_txs m")
    case Nil
    then show ?thesis using assms core_empty [OF c] by (simp add: sm_Ready_def ready_txs_def)
  next
    case (Cons tx rest)
    have ne: "smIndex m \<noteq> []" "smIndex m ! 0 = tNonce tx" using core_empty [OF c] core_pop [OF c Cons] Cons by auto
    show ?thesis
    proof (cases "tNonce tx > start")
      case True
      then show ?thesis using ne assms Cons by (simp add: sm_Ready_def ready_txs_def)
    next
      case False
      from ready_loop_ok [OF c, of "tNonce tx" "[]"] obtain its idx where
        "ready_loop (tNonce tx) (smItems m) (smIndex m) [] = Ret (ready_run (tNonce tx) (sm_txs m), its, idx)" "core_ok its idx"
        "flat its = drop (length (ready_run (tNonce tx) (sm_txs m))) (sm_txs m)" by auto
      then show ?thesis using ne False Cons by (simp add: sm_Ready_def ready_txs_def sm_ok_def)
    qed
  qed
qed

lemma reheap_ok:
  assumes "items_ok (smItems m)" "range_order ord"
  shows "sm_ok (sm_reheap ord m)" "sm_txs (sm_reheap ord m) = sm_txs m"
proof -
  have "mset (map fst (ord (smItems m))) = mset (map fst (smItems m))" using assms(2) by (simp add: range_order_def)
  then show "sm_ok (sm_reheap ord m)" using assms(1) nonce_heap.Init_heap by (simp add: sm_reheap_def sm_ok_def core_ok_def)
qed (simp add: sm_reheap_def)

lemma filter_ok:
  assumes "items_ok (smItems m)" "range_order ord" "sm_filter ord f m = (removed, m')"
  shows "items_ok (smItems m')" "sm_txs m' = filter (\<lambda>t. \<not> f t) (sm_txs m)" "mset removed = mset (filter f (sm_txs m))"
    and "removed = [] \<Longrightarrow> m' = m"
proof -
  have r: "removed = map snd (filter (\<lambda>(n, tx). f tx) (ord (smItems m)))" and m': "smItems m' = filter (\<lambda>(n, tx). \<not> f tx) (smItems m)"
    using assms(3) by (auto simp: sm_filter_def Let_def)
  show "items_ok (smItems m')" using filter_items_ok [OF assms(1)] m' by simp
  show "sm_txs m' = filter (\<lambda>t. \<not> f t) (sm_txs m)" using flat_filter [OF assms(1)] m' by simp
  have "mset removed = image_mset snd (filter_mset (\<lambda>(n, tx). f tx) (mset (smItems m)))"
    using assms(2) by (simp add: r range_order_def)
  also have "\<dots> = mset (filter f (map snd (smItems m)))" by (simp add: filter_map comp_def case_prod_unfold)
  finally show "mset removed = mset (filter f (sm_txs m))" by (simp add: flat_def)
  show "m' = m" if "removed = []"
  proof -
    have "filter (\<lambda>(n, tx). f tx) (ord (smItems m)) = []" using that r by simp
    moreover have "set (ord (smItems m)) = set (smItems m)" using assms(2) by (metis range_order_def set_mset_mset)
    ultimately have "filter (\<lambda>(n, tx). \<not> f tx) (smItems m) = smItems m" by (auto simp: filter_id_conv filter_empty_conv)
    then show ?thesis using assms(3) that by (auto simp: sm_filter_def Let_def)
  qed
qed

lemma Filter_ok:
  assumes "sm_ok m" "range_order ord" "range_order ord'" "sm_Filter ord ord' f m = (removed, m')"
  shows "sm_ok m'" "sm_txs m' = filter (\<lambda>t. \<not> f t) (sm_txs m)" "mset removed = mset (filter f (sm_txs m))"
proof -
  obtain m1 where f: "sm_filter ord f m = (removed, m1)" and m': "m' = (if removed \<noteq> [] then sm_reheap ord' m1 else m1)"
    using assms(4) by (auto simp: sm_Filter_def split: prod.splits)
  have it: "items_ok (smItems m)" using assms(1) by (simp add: sm_ok_def core_ok_def)
  note ok = filter_ok [OF it assms(2) f]
  show "sm_ok m'" "sm_txs m' = filter (\<lambda>t. \<not> f t) (sm_txs m)" "mset removed = mset (filter f (sm_txs m))"
    using ok reheap_ok [OF ok(1) assms(3)] assms(1) m' by auto
qed

lemma sort_index: "core_ok its idx \<Longrightarrow> sort idx = map tNonce (flat its)"
proof -
  assume c: "core_ok its idx"
  then have it: "items_ok its" by (simp add: core_ok_def)
  have "mset (map tNonce (flat its)) = mset idx" using c flat_nonces [OF it] by (simp add: core_ok_def)
  moreover have "sorted (map tNonce (flat its))" by (simp add: flat_def)
  ultimately show ?thesis by (rule properties_for_sort)
qed

lemma cap_loop_ok:
  assumes "by_nonce F" "k \<le> length F" "items_ok its" "flat its = take k F"
  shows "\<exists>its'. cap_loop (map tNonce F) (int t) k its acc = Ret (acc @ rev (drop t (take k F)), its') \<and> items_ok its' \<and> flat its' = take t (take k F)"
  using assms(2-4)
proof (induction k arbitrary: its acc)
  case (Suc k)
  show ?case
  proof (cases "k < t")
    case True
    then show ?thesis using Suc.prems by simp
  next
    case False
    have k: "k < length F" using Suc.prems(1) by simp
    then have f: "flat its = take k F @ [F ! k]" using Suc.prems(3) by (simp add: take_Suc_conv_app_nth)
    then have it: "sm_item its (tNonce (F ! k)) = Ret (F ! k)" using flat_lookup [OF Suc.prems(2), of "tNonce (F ! k)" "F ! k"] by (simp add: sm_item_def)
    have "tNonce x \<noteq> tNonce (F ! k)" if "x \<in> set (take k F)" for x
      using sorted_wrt_nth_less [OF assms(1)] k that by (fastforce simp: in_set_conv_nth)
    then have "flat (AList.delete (tNonce (F ! k)) its) = take k F" using f by (simp add: flat_delete [OF Suc.prems(2)] filter_id_conv)
    from Suc.IH [OF _ delete_items_ok [OF Suc.prems(2)] this, of "acc @ [F ! k]"] obtain its' where
      "cap_loop (map tNonce F) (int t) k (AList.delete (tNonce (F ! k)) its) (acc @ [F ! k]) = Ret (acc @ F ! k # rev (drop t (take k F)), its')"
      "items_ok its'" "flat its' = take t (take k F)" using k by auto
    moreover have "take t (take (Suc k) F) = take t (take k F)" "rev (drop t (take (Suc k) F)) = F ! k # rev (drop t (take k F))"
      using False k by (simp_all add: take_Suc_conv_app_nth)
    ultimately show ?thesis using False k it by simp
  qed
qed simp

lemma Cap_ok:
  assumes "sm_ok m"
  shows "\<exists>m'. sm_Cap (int t) m = Ret (rev (drop t (sm_txs m)), m') \<and> sm_ok m' \<and> sm_txs m' = take t (sm_txs m)"
proof (cases "length (smItems m) \<le> t")
  case True
  then show ?thesis using assms by (simp add: sm_Cap_def flat_length)
next
  case False
  let ?F = "sm_txs m"
  have c: "core_ok (smItems m) (smIndex m)" and it: "items_ok (smItems m)" using assms by (auto simp: sm_ok_def core_ok_def)
  have "\<exists>its'. cap_loop (map tNonce ?F) (int t) (length (smItems m)) (smItems m) [] = Ret (rev (drop t ?F), its') \<and> items_ok its' \<and> flat its' = take t ?F"
    using cap_loop_ok [OF flat_by_nonce [OF it] _ it, of "length (smItems m)" t "[]"] by (simp add: flat_length)
  then obtain its' where l: "cap_loop (map tNonce ?F) (int t) (length (smItems m)) (smItems m) [] = Ret (rev (drop t ?F), its')"
      "items_ok its'" "flat its' = take t ?F" by blast
  have "mset (map tNonce (take t ?F)) = mset (map fst its')" using flat_nonces [OF l(2)] l(3) by simp
  then have "core_ok its' (heap_Init nonceLess (map tNonce (take t ?F)))" using l(2) nonce_heap.Init_heap by (simp add: core_ok_def)
  then show ?thesis using l False assms sort_index [OF c]
    by (cases "smCache m") (auto simp: sm_Cap_def Let_def sm_ok_def take_map flat_length min_def)
qed

lemma index_of_in: "n \<in> set xs \<Longrightarrow> index_of n xs < length xs \<and> xs ! index_of n xs = n"
  by (induction xs) auto

lemma Remove_ok:
  assumes "sm_ok m"
  shows "\<exists>m'. sm_Remove n m = Ret (n \<in> tNonce ` set (sm_txs m), m') \<and> sm_ok m' \<and> sm_txs m' = filter (\<lambda>t. tNonce t \<noteq> n) (sm_txs m)"
proof -
  have c: "core_ok (smItems m) (smIndex m)" and it: "items_ok (smItems m)" and hp: "is_heap nonceLess (smIndex m)"
    using assms by (auto simp: sm_ok_def core_ok_def)
  show ?thesis
  proof (cases "map_of (smItems m) n")
    case None
    then have "n \<notin> tNonce ` set (sm_txs m)" using flat_lookup [OF it, of n] by auto
    then show ?thesis using None assms by (auto simp: sm_Remove_def filter_id_conv intro!: filter_True [symmetric])
  next
    case (Some tx)
    then have n: "n \<in> tNonce ` set (sm_txs m)" using flat_lookup [OF it, of n] by auto
    then have i: "index_of n (smIndex m) < length (smIndex m)" "smIndex m ! index_of n (smIndex m) = n"
      using index_of_in core_set [OF c] by auto
    then obtain idx where "heap_Remove nonceLess (index_of n (smIndex m)) (smIndex m) = Ret (n, idx)" "is_heap nonceLess idx"
        "mset (smIndex m) = add_mset n (mset idx)" using nonce_heap.Remove_heap [OF hp i(1)] by auto
    then show ?thesis using Some n i c delete_keys [OF it Some] delete_items_ok [OF it] flat_delete [OF it]
      by (simp add: sm_Remove_def Let_def sm_ok_def core_ok_def)
  qed
qed

lemma flatten_ok:
  assumes "sm_ok m" "range_order ord"
  shows "\<exists>m'. sm_flatten ord m = (sm_txs m, m') \<and> sm_ok m' \<and> sm_txs m' = sm_txs m"
proof (cases "smCache m")
  case None
  have it: "items_ok (smItems m)" using assms(1) by (simp add: sm_ok_def core_ok_def)
  have "items_ok (ord (smItems m))"
  proof -
    have ms: "mset (ord (smItems m)) = mset (smItems m)" using assms(2) by (simp add: range_order_def)
    then have "distinct (map fst (ord (smItems m)))" using it mset_eq_imp_distinct_iff [of "map fst (ord (smItems m))" "map fst (smItems m)"]
      by (simp add: items_ok_def)
    then show ?thesis using it mset_eq_setD [OF ms] by (simp add: items_ok_def)
  qed
  moreover have "set (ord (smItems m)) = set (smItems m)" using assms(2) by (metis range_order_def set_mset_mset)
  ultimately have "sm_txs m = flat (ord (smItems m))" using flatI [OF it flat_by_nonce] flat_set by metis
  then show ?thesis using None assms(1) by (simp add: sm_flatten_def Let_def sm_ok_def flat_def)
next
  case (Some c)
  then show ?thesis using assms(1) by (simp add: sm_flatten_def sm_ok_def)
qed

section \<open>Sequences of operations\<close>

datatype smOp =
    SmPut Transaction
  | SmGet u64
  | SmForward u64
  | SmFilter "txItems \<Rightarrow> txItems" "txItems \<Rightarrow> txItems" "Transaction \<Rightarrow> bool"
  | SmCap nat
  | SmRemove u64
  | SmReady u64
  | SmFlatten "txItems \<Rightarrow> txItems"

text \<open>\<open>Filter\<close> returns its transactions in the order of the Go map; only which they are is a result here.\<close>

datatype smRes = ResNone | ResTx "Transaction option" | ResBool bool | ResTxs "Transaction list" | ResBag "Transaction multiset"

fun sm_op :: "smOp \<Rightarrow> sortedMap \<Rightarrow> (smRes \<times> sortedMap) go" where
  "sm_op (SmPut tx) m = Ret (ResNone, sm_Put tx m)"
| "sm_op (SmGet n) m = Ret (ResTx (sm_Get n m), m)"
| "sm_op (SmForward n) m = go_bind (sm_Forward n m) (\<lambda>(r, m). Ret (ResTxs r, m))"
| "sm_op (SmFilter ord ord' f) m = (case sm_Filter ord ord' f m of (r, m) \<Rightarrow> Ret (ResBag (mset r), m))"
| "sm_op (SmCap t) m = go_bind (sm_Cap (int t) m) (\<lambda>(r, m). Ret (ResTxs r, m))"
| "sm_op (SmRemove n) m = go_bind (sm_Remove n m) (\<lambda>(r, m). Ret (ResBool r, m))"
| "sm_op (SmReady n) m = go_bind (sm_Ready n m) (\<lambda>(r, m). Ret (ResTxs r, m))"
| "sm_op (SmFlatten ord) m = (case sm_flatten ord m of (r, m) \<Rightarrow> Ret (ResTxs r, m))"

fun seq_op :: "smOp \<Rightarrow> Transaction list \<Rightarrow> smRes \<times> Transaction list" where
  "seq_op (SmPut tx) xs = (ResNone, insert_tx tx xs)"
| "seq_op (SmGet n) xs = (ResTx (find (\<lambda>t. tNonce t = n) xs), xs)"
| "seq_op (SmForward n) xs = (ResTxs (takeWhile (\<lambda>t. tNonce t < n) xs), dropWhile (\<lambda>t. tNonce t < n) xs)"
| "seq_op (SmFilter ord ord' f) xs = (ResBag (mset (filter f xs)), filter (\<lambda>t. \<not> f t) xs)"
| "seq_op (SmCap t) xs = (ResTxs (rev (drop t xs)), take t xs)"
| "seq_op (SmRemove n) xs = (ResBool (n \<in> tNonce ` set xs), filter (\<lambda>t. tNonce t \<noteq> n) xs)"
| "seq_op (SmReady n) xs = (ResTxs (ready_txs n xs), drop (length (ready_txs n xs)) xs)"
| "seq_op (SmFlatten ord) xs = (ResTxs xs, xs)"

fun orders_ok :: "smOp \<Rightarrow> bool" where
  "orders_ok (SmFilter ord ord' f) = (range_order ord \<and> range_order ord')"
| "orders_ok (SmFlatten ord) = range_order ord"
| "orders_ok x = True"

definition sm_models :: "sortedMap \<Rightarrow> Transaction list \<Rightarrow> bool" where
  "sm_models m xs \<longleftrightarrow> sm_ok m \<and> sm_txs m = xs"

lemma Get_ok:
  assumes "sm_ok m"
  shows "sm_Get n m = find (\<lambda>t. tNonce t = n) (sm_txs m)"
proof -
  have it: "items_ok (smItems m)" using assms by (simp add: sm_ok_def core_ok_def)
  show ?thesis
  proof (cases "find (\<lambda>t. tNonce t = n) (sm_txs m)")
    case None
    then have "sm_Get n m = None" using flat_lookup [OF it, of n] by (cases "sm_Get n m") (auto simp: sm_Get_def find_None_iff)
    then show ?thesis using None by simp
  next
    case (Some tx)
    then have "tx \<in> set (sm_txs m)" "tNonce tx = n" by (auto simp: find_Some_iff)
    then show ?thesis using flat_lookup [OF it, of n tx] Some by (simp add: sm_Get_def)
  qed
qed

lemma sm_op_models:
  assumes "sm_models m xs" "orders_ok x"
  shows "\<exists>m'. sm_op x m = Ret (fst (seq_op x xs), m') \<and> sm_models m' (snd (seq_op x xs))"
proof (cases x)
  case (SmFilter ord ord' f)
  obtain r m' where "sm_Filter ord ord' f m = (r, m')" by fastforce
  then show ?thesis using Filter_ok [of m ord ord' f r m'] assms SmFilter by (simp add: sm_models_def)
qed (use assms Put_ok [of m] Get_ok [of m] Forward_ok [of m] Cap_ok [of m] Remove_ok [of m] Ready_ok [of m] flatten_ok [of m] in
    \<open>fastforce simp: sm_models_def\<close>)+

interpretation sorted_map: simulation sm_models sm_op seq_op orders_ok
  by unfold_locales (rule sm_op_models)

text \<open>
  C11: A \<open>sortedMap\<close> implements the list of its transactions in the order of nonces. From a map that holds the list \<open>xs\<close>, every
  sequence of operations returns what the same operations return on \<open>xs\<close>, never panics and leaves a map that holds the resulting list,
  its heap and its cache consistent, in whatever order Go visits the entries: \<open>Forward\<close> takes the transactions below a
  nonce, \<open>Cap\<close> the highest ones beyond a number, \<open>Ready\<close> the longest run of consecutive nonces, \<open>Flatten\<close> returns the list.
\<close>

theorem sortedMap_refines_sequence:
  assumes "sm_models m xs" "list_all orders_ok ops"
  shows "\<exists>m'. go_run sm_op ops m = Ret (fst (abs_run seq_op ops xs), m') \<and> sm_models m' (snd (abs_run seq_op ops xs))"
  using assms by (rule sorted_map.run_sim)


section \<open>The transactions of one account\<close>

definition Cost :: "Transaction \<Rightarrow> int" where
  "Cost tx = tGasPrice tx * uint (tGas tx) + tValue tx"

record txList =
  strict :: bool
  txs :: sortedMap
  costcap :: int
  gascap :: u64
  totalcost :: int

definition newList :: "bool \<Rightarrow> txList" where
  "newList b = \<lparr>strict = b, txs = newSortedMap, costcap = 0, gascap = 0, totalcost = 0\<rparr>"

definition list_Contains :: "u64 \<Rightarrow> txList \<Rightarrow> bool" where
  "list_Contains nonce l \<longleftrightarrow> sm_Get nonce (txs l) \<noteq> None"

definition subTotalCost :: "Transaction list \<Rightarrow> txList \<Rightarrow> txList" where
  "subTotalCost ts l = l\<lparr>totalcost := fold (\<lambda>tx c. c - Cost tx) ts (totalcost l)\<rparr>"

definition list_Add :: "Transaction \<Rightarrow> u64 \<Rightarrow> txList \<Rightarrow> bool \<times> Transaction option \<times> txList" where
  "list_Add tx priceBump l =
    (let old = sm_Get (tNonce tx) (txs l);
         better = (case old of None \<Rightarrow> True | Some old \<Rightarrow>
           tGasFeeCap old < tGasFeeCap tx \<and> tGasTipCap old < tGasTipCap tx \<and>
           (let a = sint (100 + priceBump);
                thresholdFeeCap = (a * tGasFeeCap old) div 100;
                thresholdTip = (a * tGasTipCap old) div 100
            in thresholdFeeCap \<le> tGasFeeCap tx \<and> thresholdTip \<le> tGasTipCap tx))
     in if \<not> better then (False, None, l)
        else let l = (case old of None \<Rightarrow> l | Some old \<Rightarrow> subTotalCost [old] l);
                 l = l\<lparr>totalcost := totalcost l + Cost tx, txs := sm_Put tx (txs l)\<rparr>;
                 l = (if costcap l < Cost tx then l\<lparr>costcap := Cost tx\<rparr> else l);
                 l = (if gascap l < tGas tx then l\<lparr>gascap := tGas tx\<rparr> else l)
          in (True, old, l))"

definition list_Forward :: "u64 \<Rightarrow> txList \<Rightarrow> (Transaction list \<times> txList) go" where
  "list_Forward threshold l =
    go_bind (sm_Forward threshold (txs l)) (\<lambda>(ts, m). Ret (ts, subTotalCost ts (l\<lparr>txs := m\<rparr>)))"

definition list_Filter :: "(nat \<Rightarrow> txItems \<Rightarrow> txItems) \<Rightarrow> int \<Rightarrow> u64 \<Rightarrow> txList \<Rightarrow> Transaction list \<times> Transaction list \<times> txList" where
  "list_Filter iter costLimit gasLimit l =
    (if costcap l \<le> costLimit \<and> gascap l \<le> gasLimit then ([], [], l)
     else let l = l\<lparr>costcap := costLimit, gascap := gasLimit\<rparr>;
              (removed, m) = sm_Filter (iter 0) (iter 1) (\<lambda>tx. tGas tx > gasLimit \<or> Cost tx > costLimit) (txs l)
       in if removed = [] then ([], [], l\<lparr>txs := m\<rparr>)
          else let (invalids, m) =
                     (if strict l
                      then let lowest = fold (\<lambda>tx low. if low > tNonce tx then tNonce tx else low) removed (- 1)
                           in sm_filter (iter 2) (\<lambda>tx. tNonce tx > lowest) m
                      else ([], m));
                   l = subTotalCost invalids (subTotalCost removed l)
            in (removed, invalids, l\<lparr>txs := sm_reheap (iter 3) m\<rparr>))"

definition list_Cap :: "int \<Rightarrow> txList \<Rightarrow> (Transaction list \<times> txList) go" where
  "list_Cap threshold l = go_bind (sm_Cap threshold (txs l)) (\<lambda>(ts, m). Ret (ts, subTotalCost ts (l\<lparr>txs := m\<rparr>)))"

definition list_Remove :: "(nat \<Rightarrow> txItems \<Rightarrow> txItems) \<Rightarrow> Transaction \<Rightarrow> txList \<Rightarrow> (bool \<times> Transaction list \<times> txList) go" where
  "list_Remove iter tx l =
    (let nonce = tNonce tx
     in go_bind (sm_Remove nonce (txs l)) (\<lambda>(removed, m).
          if \<not> removed then Ret (False, [], l\<lparr>txs := m\<rparr>)
          else let l = subTotalCost [tx] (l\<lparr>txs := m\<rparr>)
            in if strict l then
                 (let (ts, m) = sm_Filter (iter 0) (iter 1) (\<lambda>tx. tNonce tx > nonce) (txs l)
                  in Ret (True, ts, subTotalCost ts (l\<lparr>txs := m\<rparr>)))
               else Ret (True, [], l)))"

definition list_Ready :: "u64 \<Rightarrow> txList \<Rightarrow> (Transaction list \<times> txList) go" where
  "list_Ready start l = go_bind (sm_Ready start (txs l)) (\<lambda>(ts, m). Ret (ts, subTotalCost ts (l\<lparr>txs := m\<rparr>)))"

definition list_Len :: "txList \<Rightarrow> nat" where
  "list_Len l = sm_Len (txs l)"

definition list_Empty :: "txList \<Rightarrow> bool" where
  "list_Empty l \<longleftrightarrow> list_Len l = 0"

definition list_Flatten :: "(txItems \<Rightarrow> txItems) \<Rightarrow> txList \<Rightarrow> Transaction list \<times> txList" where
  "list_Flatten ord l = (case sm_flatten ord (txs l) of (c, m) \<Rightarrow> (c, l\<lparr>txs := m\<rparr>))"

definition list_LastElement :: "(txItems \<Rightarrow> txItems) \<Rightarrow> txList \<Rightarrow> (Transaction \<times> txList) go" where
  "list_LastElement ord l = go_bind (sm_LastElement ord (txs l)) (\<lambda>(tx, m). Ret (tx, l\<lparr>txs := m\<rparr>))"

section \<open>Total cost and caps\<close>

abbreviation total :: "Transaction list \<Rightarrow> int" where
  "total ts \<equiv> sum_list (map Cost ts)"

abbreviation list_txs :: "txList \<Rightarrow> Transaction list" where
  "list_txs l \<equiv> sm_txs (txs l)"

definition list_ok :: "txList \<Rightarrow> bool" where
  "list_ok l \<longleftrightarrow> sm_ok (txs l) \<and> totalcost l = total (list_txs l) \<and>
    (\<forall>tx \<in> set (list_txs l). Cost tx \<le> costcap l \<and> tGas tx \<le> gascap l)"

lemma subTotalCost_simps [simp]:
  "totalcost (subTotalCost ts l) = totalcost l - total ts" "txs (subTotalCost ts l) = txs l" "strict (subTotalCost ts l) = strict l"
  "costcap (subTotalCost ts l) = costcap l" "gascap (subTotalCost ts l) = gascap l"
proof -
  have "fold (\<lambda>tx c. c - Cost tx) ts c = c - total ts" for c by (induction ts arbitrary: c) auto
  then show "totalcost (subTotalCost ts l) = totalcost l - total ts" by (simp add: subTotalCost_def)
qed (simp_all add: subTotalCost_def)

lemma total_mset: "mset xs = mset ys \<Longrightarrow> total xs = total ys"
  by (metis mset_map sum_mset_sum_list)

lemma total_filter: "total (filter P xs) + total (filter (\<lambda>x. \<not> P x) xs) = total xs"
  by (induction xs) auto

text \<open>The shape of \<open>Forward\<close>, \<open>Cap\<close>, \<open>Ready\<close> and \<open>Filter\<close>: take some of the transactions out, and their cost off.\<close>

lemma take_out:
  assumes "list_ok l" "sm_ok m" "mset (list_txs l) = mset ts + mset (sm_txs m)"
  shows "list_ok (subTotalCost ts (l\<lparr>txs := m\<rparr>))"
proof -
  have "mset (list_txs l) = mset (ts @ sm_txs m)" using assms(3) by simp
  then have "total (list_txs l) = total ts + total (sm_txs m)" "set (sm_txs m) \<subseteq> set (list_txs l)"
    using total_mset [of "list_txs l" "ts @ sm_txs m"] mset_eq_setD [of "list_txs l" "ts @ sm_txs m"] by auto
  then show ?thesis using assms(1,2) by (auto simp: list_ok_def)
qed

lemma Forward_list:
  assumes "list_ok l"
  shows "\<exists>l'. list_Forward n l = Ret (takeWhile (\<lambda>t. tNonce t < n) (list_txs l), l') \<and> list_ok l' \<and>
    list_txs l' = dropWhile (\<lambda>t. tNonce t < n) (list_txs l)"
proof -
  let ?P = "\<lambda>t. tNonce t < n"
  obtain m where m: "sm_Forward n (txs l) = Ret (takeWhile ?P (list_txs l), m)" "sm_ok m" "sm_txs m = dropWhile ?P (list_txs l)"
    using Forward_ok [of "txs l" n] assms by (auto simp: list_ok_def)
  have "mset (list_txs l) = mset (takeWhile ?P (list_txs l)) + mset (sm_txs m)" unfolding m(3) by (metis mset_append takeWhile_dropWhile_id)
  then show ?thesis using take_out [OF assms m(2)] m(1,3) by (simp add: list_Forward_def)
qed

lemma Cap_list:
  assumes "list_ok l"
  shows "\<exists>l'. list_Cap (int t) l = Ret (rev (drop t (list_txs l)), l') \<and> list_ok l' \<and> list_txs l' = take t (list_txs l)"
proof -
  obtain m where m: "sm_Cap (int t) (txs l) = Ret (rev (drop t (list_txs l)), m)" "sm_ok m" "sm_txs m = take t (list_txs l)"
    using Cap_ok [of "txs l" t] assms by (auto simp: list_ok_def)
  have "mset (list_txs l) = mset (rev (drop t (list_txs l))) + mset (sm_txs m)" unfolding m(3)
    by (metis add.commute append_take_drop_id mset_append mset_rev)
  then show ?thesis using take_out [OF assms m(2)] m(1,3) by (simp add: list_Cap_def)
qed

lemma ready_prefix: "ready_txs n xs = take (length (ready_txs n xs)) xs"
proof -
  have "ready_run n xs = take (length (ready_run n xs)) xs" for n by (induction xs arbitrary: n) auto
  then show ?thesis by (simp add: ready_txs_def)
qed

lemma Ready_list:
  assumes "list_ok l"
  shows "\<exists>l'. list_Ready n l = Ret (ready_txs n (list_txs l), l') \<and> list_ok l' \<and>
    list_txs l' = drop (length (ready_txs n (list_txs l))) (list_txs l)"
proof -
  let ?r = "ready_txs n (list_txs l)"
  obtain m where m: "sm_Ready n (txs l) = Ret (?r, m)" "sm_ok m" "sm_txs m = drop (length ?r) (list_txs l)"
    using Ready_ok [of "txs l" n] assms by (auto simp: list_ok_def)
  have "mset (list_txs l) = mset ?r + mset (sm_txs m)" unfolding m(3) using ready_prefix [of n "list_txs l"]
    by (metis append_take_drop_id mset_append)
  then show ?thesis using take_out [OF assms m(2)] m(1,3) by (simp add: list_Ready_def)
qed

lemma filter_at:
  "by_nonce xs \<Longrightarrow> filter (\<lambda>t. tNonce t = n) xs = (case find (\<lambda>t. tNonce t = n) xs of None \<Rightarrow> [] | Some t \<Rightarrow> [t])"
proof (induction xs)
  case (Cons x xs)
  show ?case
  proof (cases "tNonce x = n")
    case True
    then have "filter (\<lambda>t. tNonce t = n) xs = []" using Cons.prems by (auto simp: filter_empty_conv)
    then show ?thesis using True by simp
  qed (use Cons in simp)
qed simp

lemma total_insert:
  assumes "by_nonce xs"
  shows "total (insert_tx tx xs) = total xs + Cost tx - (case find (\<lambda>t. tNonce t = tNonce tx) xs of None \<Rightarrow> 0 | Some old \<Rightarrow> Cost old)"
proof -
  let ?n = "tNonce tx"
  have "filter (\<lambda>t. tNonce t < ?n) (filter (\<lambda>t. tNonce t \<noteq> ?n) xs) = filter (\<lambda>t. tNonce t < ?n) xs"
    "filter (\<lambda>t. \<not> tNonce t < ?n) (filter (\<lambda>t. tNonce t \<noteq> ?n) xs) = filter (\<lambda>t. ?n < tNonce t) xs"
    by (auto intro!: filter_cong)
  then have "total (insert_tx tx xs) = total (filter (\<lambda>t. tNonce t \<noteq> ?n) xs) + Cost tx"
    using total_filter [of "\<lambda>t. tNonce t < ?n" "filter (\<lambda>t. tNonce t \<noteq> ?n) xs"] by (simp add: insert_tx_def by_nonce_while [OF assms])
  moreover have "total (filter (\<lambda>t. tNonce t = ?n) xs) + total (filter (\<lambda>t. tNonce t \<noteq> ?n) xs) = total xs" by (rule total_filter)
  ultimately show ?thesis by (simp add: filter_at [OF assms] split: option.splits)
qed

text \<open>When a transaction may take the place of another one with its nonce.\<close>

definition bump_ok :: "u64 \<Rightarrow> Transaction \<Rightarrow> Transaction \<Rightarrow> bool" where
  "bump_ok priceBump old tx \<longleftrightarrow> tGasFeeCap old < tGasFeeCap tx \<and> tGasTipCap old < tGasTipCap tx \<and>
    (100 + uint priceBump) * tGasFeeCap old div 100 \<le> tGasFeeCap tx \<and> (100 + uint priceBump) * tGasTipCap old div 100 \<le> tGasTipCap tx"

definition tx_at :: "u64 \<Rightarrow> Transaction list \<Rightarrow> Transaction option" where
  "tx_at n xs = find (\<lambda>t. tNonce t = n) xs"

definition accepts :: "u64 \<Rightarrow> Transaction list \<Rightarrow> Transaction \<Rightarrow> bool" where
  "accepts priceBump xs tx \<longleftrightarrow> (case tx_at (tNonce tx) xs of None \<Rightarrow> True | Some old \<Rightarrow> bump_ok priceBump old tx)"

lemma Add_list:
  assumes "list_ok l" "uint priceBump < 2 ^ 63 - 100" "list_Add tx priceBump l = (b, old, l')"
  shows "list_ok l'" "b \<longleftrightarrow> accepts priceBump (list_txs l) tx"
    "list_txs l' = (if b then insert_tx tx (list_txs l) else list_txs l)" "old = (if b then tx_at (tNonce tx) (list_txs l) else None)"
    "strict l' = strict l"
proof -
  have ok: "sm_ok (txs l)" and it: "items_ok (smItems (txs l))" using assms(1) by (auto simp: list_ok_def sm_ok_def core_ok_def)
  have get: "sm_Get (tNonce tx) (txs l) = tx_at (tNonce tx) (list_txs l)" using Get_ok [OF ok] by (simp add: tx_at_def)
  have "uint (100 + priceBump) = 100 + uint priceBump" using assms(2) by (simp add: uint_plus_if')
  then have sb: "sint (100 + priceBump) = 100 + uint priceBump" using assms(2) by (simp add: sint_uint signed_take_bit_int_eq_self)
  show b: "b \<longleftrightarrow> accepts priceBump (list_txs l) tx"
    using assms(3) by (auto simp: list_Add_def Let_def get accepts_def bump_ok_def sb split: option.splits if_splits)
  show "old = (if b then tx_at (tNonce tx) (list_txs l) else None)" "strict l' = strict l"
    using assms(3) by (auto simp: list_Add_def Let_def get split: option.splits if_splits)
  have l': "txs l' = sm_Put tx (txs l)" "totalcost l' = totalcost l + Cost tx - (case tx_at (tNonce tx) (list_txs l) of None \<Rightarrow> 0 | Some old \<Rightarrow> Cost old)"
      "costcap l' = max (costcap l) (Cost tx)" "gascap l' = max (gascap l) (tGas tx)" if b
    using assms(3) that by (auto simp: list_Add_def Let_def get max_def split: option.splits if_splits)
  have nb: "l' = l" if "\<not> b" using assms(3) that by (auto simp: list_Add_def Let_def split: if_splits)
  show t: "list_txs l' = (if b then insert_tx tx (list_txs l) else list_txs l)" using l'(1) nb Put_ok(2) [OF ok] by auto
  show "list_ok l'"
  proof (cases b)
    case True
    have bn: "by_nonce (list_txs l)" using flat_by_nonce [OF it] .
    have "totalcost l' = total (list_txs l')" using True l'(2) t total_insert [OF bn] assms(1) by (simp add: list_ok_def tx_at_def)
    moreover have "\<forall>t \<in> set (list_txs l'). Cost t \<le> costcap l' \<and> tGas t \<le> gascap l'"
      using True t l'(3,4) assms(1) by (auto simp: insert_tx_set [OF bn] list_ok_def le_max_iff_disj)
    ultimately show ?thesis using True l'(1) Put_ok(1) [OF ok] by (simp add: list_ok_def)
  next
    case False
    then show ?thesis using nb assms(1) by simp
  qed
qed

section \<open>Filtering\<close>

lemma lowest_ok:
  fixes xs :: "Transaction list"
  defines "low \<equiv> \<lambda>xs a. fold (\<lambda>tx low. if low > tNonce tx then tNonce tx else low) xs a"
  shows "low xs a \<le> a \<and> (\<forall>x \<in> set xs. low xs a \<le> tNonce x) \<and> (low xs a = a \<or> (\<exists>x \<in> set xs. low xs a = tNonce x))"
proof (induction xs arbitrary: a)
  case Nil
  then show ?case by (simp add: low_def)
next
  case (Cons x xs)
  have "low (x # xs) a = low xs (if a > tNonce x then tNonce x else a)" by (simp add: low_def)
  then show ?case using Cons.IH [of "if a > tNonce x then tNonce x else a"] by (auto split: if_splits)
qed

lemma strict_rest:
  assumes "by_nonce F" "mset removed = mset (filter bad F)" "removed \<noteq> []"
  defines "low \<equiv> fold (\<lambda>tx low. if low > tNonce tx then tNonce tx else low) removed (- 1)"
  shows "filter (\<lambda>t. \<not> tNonce t > low) (filter (\<lambda>t. \<not> bad t) F) = takeWhile (\<lambda>t. \<not> bad t) F"
    and "filter (\<lambda>t. tNonce t > low) (filter (\<lambda>t. \<not> bad t) F) = filter (\<lambda>t. \<not> bad t) (dropWhile (\<lambda>t. \<not> bad t) F)"
proof -
  have st: "set removed = set (filter bad F)" using mset_eq_setD [OF assms(2)] .
  then obtain x where "x \<in> set F" "bad x" using assms(3) by (cases removed) auto
  then obtain c rest where d: "dropWhile (\<lambda>t. \<not> bad t) F = c # rest" by (metis dropWhile_eq_Nil_conv list.exhaust)
  then have cb: "bad c" by (metis dropWhile_eq_Cons_conv)
  define T where "T = takeWhile (\<lambda>t. \<not> bad t) F"
  have F: "F = T @ c # rest" using takeWhile_dropWhile_id [of "\<lambda>t. \<not> bad t" F] d by (simp add: T_def)
  have T: "\<not> bad t" if "t \<in> set T" for t using that unfolding T_def by (metis set_takeWhileD)
  have "by_nonce (T @ c # rest)" using assms(1) F by simp
  then have o: "\<And>t. t \<in> set T \<Longrightarrow> tNonce t < tNonce c" "\<And>t. t \<in> set rest \<Longrightarrow> tNonce c < tNonce t"
    by (auto simp: sorted_wrt_append)
  have sF: "set F = set T \<union> {c} \<union> set rest" using F by auto
  have "low = tNonce c"
  proof -
    have "c \<in> set removed" using st sF cb by auto
    then have le: "low \<le> tNonce c" using lowest_ok [of removed "- 1"] by (simp add: low_def)
    have "tNonce c \<le> tNonce x" if "x \<in> set removed" for x using that st sF T o(2) by fastforce
    moreover have "low = - 1 \<or> (\<exists>x \<in> set removed. low = tNonce x)" using lowest_ok [of removed "- 1"] by (simp add: low_def)
    ultimately have "tNonce c \<le> low" by auto
    with le show ?thesis by simp
  qed
  then have low: "low = tNonce c" .
  have "filter (\<lambda>t. \<not> bad t) F = T @ filter (\<lambda>t. \<not> bad t) rest" using cb T by (simp add: F filter_id_conv)
  moreover have "filter (\<lambda>t. \<not> tNonce t > low) T = T" "filter (\<lambda>t. \<not> tNonce t > low) rest = []"
      "filter (\<lambda>t. tNonce t > low) T = []" "filter (\<lambda>t. tNonce t > low) rest = rest"
    using o o(1) [THEN order_less_not_sym] by (auto simp: low filter_id_conv filter_empty_conv)
  moreover have "filter (\<lambda>t. P t) (filter (\<lambda>t. \<not> bad t) rest) = filter (\<lambda>t. \<not> bad t) (filter P rest)" for P
    by (simp add: conj_commute)
  ultimately show "filter (\<lambda>t. \<not> tNonce t > low) (filter (\<lambda>t. \<not> bad t) F) = takeWhile (\<lambda>t. \<not> bad t) F"
    "filter (\<lambda>t. tNonce t > low) (filter (\<lambda>t. \<not> bad t) F) = filter (\<lambda>t. \<not> bad t) (dropWhile (\<lambda>t. \<not> bad t) F)"
    unfolding d using cb by (simp_all add: T_def del: filter_filter)
qed

definition unaffordable :: "int \<Rightarrow> u64 \<Rightarrow> Transaction \<Rightarrow> bool" where
  "unaffordable costLimit gasLimit tx \<longleftrightarrow> tGas tx > gasLimit \<or> Cost tx > costLimit"

lemma Filter_list:
  assumes "list_ok l" "\<And>i. range_order (iter i)" "list_Filter iter costLimit gasLimit l = (removed, invalids, l')"
  defines "bad \<equiv> unaffordable costLimit gasLimit" and "F \<equiv> list_txs l"
  shows "list_ok l' \<and> list_txs l' = (if strict l then takeWhile (\<lambda>t. \<not> bad t) F else filter (\<lambda>t. \<not> bad t) F) \<and>
    mset removed = mset (filter bad F) \<and>
    mset invalids = mset (if strict l then filter (\<lambda>t. \<not> bad t) (dropWhile (\<lambda>t. \<not> bad t) F) else [])"
proof (cases "costcap l \<le> costLimit \<and> gascap l \<le> gasLimit")
  case True
  then have g: "\<not> bad t" if "t \<in> set F" for t using assms(1) that by (fastforce simp: list_ok_def bad_def F_def unaffordable_def)
  have r: "removed = []" "invalids = []" "l' = l" using assms(3) True by (simp_all add: list_Filter_def)
  have e: "takeWhile (\<lambda>t. \<not> bad t) F = F" "filter (\<lambda>t. \<not> bad t) F = F" "filter bad F = []" "dropWhile (\<lambda>t. \<not> bad t) F = []"
    using g by (auto simp: takeWhile_eq_all_conv filter_id_conv filter_empty_conv)
  show ?thesis unfolding r e using assms(1) by (simp add: F_def)
next
  case False
  have ok: "sm_ok (txs l)" using assms(1) by (simp add: list_ok_def)
  have it: "items_ok (smItems (txs l))" using ok by (auto simp: sm_ok_def core_ok_def)
  obtain r m where f: "sm_Filter (iter 0) (iter 1) bad (txs l) = (r, m)" by fastforce
  have m: "sm_ok m" "sm_txs m = filter (\<lambda>t. \<not> bad t) F" "mset r = mset (filter bad F)"
    using Filter_ok [OF ok assms(2,2) f] by (auto simp: F_def)
  have bn: "by_nonce F" using flat_by_nonce [OF it] by (simp add: F_def)
  let ?low = "fold (\<lambda>tx low. if low > tNonce tx then tNonce tx else low) r (- 1)"
  obtain inv m2 where i: "(if strict l then sm_filter (iter 2) (\<lambda>tx. tNonce tx > ?low) m else ([], m)) = (inv, m2)" by fastforce
  have "list_Filter iter costLimit gasLimit l =
    (if r = [] then ([], [], l\<lparr>costcap := costLimit, gascap := gasLimit, txs := m\<rparr>)
     else (r, inv, (subTotalCost inv (subTotalCost r (l\<lparr>costcap := costLimit, gascap := gasLimit\<rparr>)))\<lparr>txs := sm_reheap (iter 3) m2\<rparr>))"
    using False f i by (cases "strict l") (auto simp: list_Filter_def Let_def bad_def unaffordable_def [abs_def])
  then have l': "removed = r" "invalids = (if r = [] then [] else inv)" "txs l' = (if r = [] then m else sm_reheap (iter 3) m2)"
      "costcap l' = costLimit" "gascap l' = gasLimit" "totalcost l' = totalcost l - total r - (if r = [] then 0 else total inv)"
    using assms(3) by (auto split: if_splits)
  have m2: "items_ok (smItems m2)" "sm_txs m2 = (if strict l then takeWhile (\<lambda>t. \<not> bad t) F else filter (\<lambda>t. \<not> bad t) F)"
      "mset inv = mset (if strict l then filter (\<lambda>t. \<not> bad t) (dropWhile (\<lambda>t. \<not> bad t) F) else [])" if "r \<noteq> []"
  proof -
    have im: "items_ok (smItems m)" using m(1) by (auto simp: sm_ok_def core_ok_def)
    note fl = filter_ok [OF im assms(2), of 2 "\<lambda>tx. tNonce tx > ?low" inv m2]
    note sr = strict_rest [OF bn m(3) that]
    have st: "sm_filter (iter 2) (\<lambda>tx. tNonce tx > ?low) m = (inv, m2)" if "strict l" using i that by simp
    have ns: "inv = []" "m2 = m" if "\<not> strict l" using i that by simp_all
    show "items_ok (smItems m2)" using fl(1) st ns im by (cases "strict l") auto
    show "sm_txs m2 = (if strict l then takeWhile (\<lambda>t. \<not> bad t) F else filter (\<lambda>t. \<not> bad t) F)"
      using fl(2) [OF st] ns m(2) sr(1) by (cases "strict l") simp_all
    show "mset inv = mset (if strict l then filter (\<lambda>t. \<not> bad t) (dropWhile (\<lambda>t. \<not> bad t) F) else [])"
      using fl(3) [OF st] ns unfolding m(2) sr(2) by (cases "strict l") simp_all
  qed
  have good: "Cost t \<le> costLimit \<and> tGas t \<le> gasLimit" if "\<not> bad t" for t using that by (auto simp: bad_def unaffordable_def)
  have F: "total F = total r + total (filter (\<lambda>t. \<not> bad t) F)" using total_filter [of bad F] total_mset [OF m(3)] by simp
  have tF: "totalcost l = total F" using assms(1) by (simp add: list_ok_def F_def)
  show ?thesis
  proof (cases "r = []")
    case True
    then have g: "\<not> bad t" if "t \<in> set F" for t using m(3) that by (auto simp: filter_empty_conv)
    then have e: "takeWhile (\<lambda>t. \<not> bad t) F = F" "filter (\<lambda>t. \<not> bad t) F = F" "filter bad F = []" "dropWhile (\<lambda>t. \<not> bad t) F = []"
      by (auto simp: takeWhile_eq_all_conv filter_id_conv filter_empty_conv)
    have "list_txs l' = F" using l'(3) True m(2) unfolding e by simp
    then show ?thesis unfolding e using True l' m(1) tF g good by (simp add: list_ok_def)
  next
    case False
    let ?rest = "if strict l then takeWhile (\<lambda>t. \<not> bad t) F else filter (\<lambda>t. \<not> bad t) F"
    have t': "list_txs l' = ?rest" "sm_ok (txs l')" using l'(3) False m2(1,2) [OF False] reheap_ok [of m2 "iter 3"] assms(2) by auto
    have ms: "mset (filter (\<lambda>t. \<not> bad t) F) = mset (inv @ ?rest)"
    proof -
      have dec: "filter (\<lambda>t. \<not> bad t) xs = takeWhile (\<lambda>t. \<not> bad t) xs @ filter (\<lambda>t. \<not> bad t) (dropWhile (\<lambda>t. \<not> bad t) xs)" for xs
        by (induction xs) auto
      show ?thesis
      proof (cases "strict l")
        case True
        then show ?thesis using m2(3) [OF False] by (subst dec) simp
      qed (use m2(3) [OF False] in simp)
    qed
    have "total (filter (\<lambda>t. \<not> bad t) F) = total inv + total ?rest" unfolding total_mset [OF ms] by simp
    then have "totalcost l' = total (list_txs l')" using l'(6) False F tF t'(1) by simp
    moreover have "\<forall>t \<in> set (list_txs l'). Cost t \<le> costcap l' \<and> tGas t \<le> gascap l'"
      using t'(1) good l'(4,5) by (auto dest: set_takeWhileD split: if_splits)
    ultimately show ?thesis using t' l'(1,2) False m(3) m2(3) [OF False] by (simp add: list_ok_def)
  qed
qed

section \<open>Removing one transaction\<close>

lemma Remove_list:
  assumes "list_ok l" "tx \<in> set (list_txs l)" "\<And>i. range_order (iter i)"
  shows "\<exists>invalids l'. list_Remove iter tx l = Ret (True, invalids, l') \<and> list_ok l' \<and>
    list_txs l' = filter (\<lambda>t. if strict l then tNonce t < tNonce tx else tNonce t \<noteq> tNonce tx) (list_txs l) \<and>
    mset invalids = mset (if strict l then filter (\<lambda>t. tNonce t > tNonce tx) (list_txs l) else [])"
proof -
  let ?n = "tNonce tx" and ?F = "list_txs l"
  have ok: "sm_ok (txs l)" and it: "items_ok (smItems (txs l))" using assms(1) by (auto simp: list_ok_def sm_ok_def core_ok_def)
  have bn: "by_nonce ?F" using it by (rule flat_by_nonce)
  have own: "t = tx" if "t \<in> set ?F" "tNonce t = ?n" for t
    using flat_lookup [OF it, of ?n t] flat_lookup [OF it, of ?n tx] assms(2) that by simp
  have "find (\<lambda>t. tNonce t = ?n) ?F = Some tx"
  proof (cases "find (\<lambda>t. tNonce t = ?n) ?F")
    case None
    then show ?thesis using assms(2) by (auto simp: find_None_iff)
  next
    case (Some t)
    then have "t \<in> set ?F" "tNonce t = ?n" by (auto simp: find_Some_iff)
    then show ?thesis using own Some by simp
  qed
  then have "mset ?F = mset [tx] + mset (filter (\<lambda>t. tNonce t \<noteq> ?n) ?F)"
    using filter_at [OF bn, of ?n] multiset_partition [of "mset ?F" "\<lambda>t. tNonce t = ?n"] by (metis mset_filter option.case(2))
  moreover obtain m where m: "sm_Remove ?n (txs l) = Ret (True, m)" "sm_ok m" "sm_txs m = filter (\<lambda>t. tNonce t \<noteq> ?n) ?F"
    using Remove_ok [OF ok, of ?n] assms(2) by auto
  ultimately have l1: "list_ok (subTotalCost [tx] (l\<lparr>txs := m\<rparr>))" using take_out [OF assms(1) m(2), of "[tx]"] by simp
  show ?thesis
  proof (cases "strict l")
    case False
    then show ?thesis using m l1 by (simp add: list_Remove_def Let_def)
  next
    case True
    obtain ts m2 where f: "sm_Filter (iter 0) (iter 1) (\<lambda>t. tNonce t > ?n) m = (ts, m2)" by fastforce
    have m2: "sm_ok m2" "sm_txs m2 = filter (\<lambda>t. \<not> tNonce t > ?n) (sm_txs m)" "mset ts = mset (filter (\<lambda>t. tNonce t > ?n) (sm_txs m))"
      using Filter_ok [OF m(2) assms(3,3) f] by auto
    have "mset (sm_txs m) = mset ts + mset (sm_txs m2)" unfolding m2(2,3) by (metis mset_filter multiset_partition)
    then have "list_ok (subTotalCost ts ((subTotalCost [tx] (l\<lparr>txs := m\<rparr>))\<lparr>txs := m2\<rparr>))" using take_out [OF l1 m2(1), of ts] by simp
    moreover have "sm_txs m2 = filter (\<lambda>t. tNonce t < ?n) ?F" "mset ts = mset (filter (\<lambda>t. tNonce t > ?n) ?F)"
      unfolding m2(2,3) m(3) by (auto intro!: filter_cong arg_cong [of _ _ mset] simp del: mset_filter)
    ultimately show ?thesis using True m(1) f by (simp add: list_Remove_def Let_def)
  qed
qed

section \<open>Histories of a list\<close>

inductive list_reach :: "txList \<Rightarrow> bool" where
  r_new: "list_reach (newList b)"
| r_add: "list_reach l \<Longrightarrow> uint priceBump < 2 ^ 63 - 100 \<Longrightarrow> list_Add tx priceBump l = (added, old, l') \<Longrightarrow> list_reach l'"
| r_forward: "list_reach l \<Longrightarrow> list_Forward n l = Ret (ts, l') \<Longrightarrow> list_reach l'"
| r_filter: "list_reach l \<Longrightarrow> \<forall>i. range_order (iter i) \<Longrightarrow> list_Filter iter costLimit gasLimit l = (removed, invalids, l') \<Longrightarrow> list_reach l'"
| r_cap: "list_reach l \<Longrightarrow> list_Cap (int t) l = Ret (ts, l') \<Longrightarrow> list_reach l'"
| r_remove: "list_reach l \<Longrightarrow> tx \<in> set (list_txs l) \<Longrightarrow> \<forall>i. range_order (iter i) \<Longrightarrow>
    list_Remove iter tx l = Ret (found, invalids, l') \<Longrightarrow> list_reach l'"
| r_ready: "list_reach l \<Longrightarrow> list_Ready n l = Ret (ts, l') \<Longrightarrow> list_reach l'"
| r_flatten: "list_reach l \<Longrightarrow> range_order ord \<Longrightarrow> list_Flatten ord l = (ts, l') \<Longrightarrow> list_reach l'"

lemma reach_ok: "list_reach l \<Longrightarrow> list_ok l"
proof (induction rule: list_reach.induct)
  case (r_new b)
  then show ?case using new_ok by (simp add: list_ok_def newList_def)
next
  case (r_add l bump tx added old l')
  then show ?case using Add_list(1) by blast
next
  case (r_forward l n ts l')
  then show ?case using Forward_list [of l n] by auto
next
  case (r_filter l iter costLimit gasLimit removed invalids l')
  then show ?case using Filter_list [of l iter costLimit gasLimit removed invalids l'] by blast
next
  case (r_cap l t ts l')
  then show ?case using Cap_list [of l t] by auto
next
  case (r_remove l tx iter found invalids l')
  then show ?case using Remove_list [of l tx iter] by auto
next
  case (r_ready l n ts l')
  then show ?case using Ready_list [of l n] by auto
next
  case (r_flatten l ord ts l')
  then show ?case using flatten_ok [of "txs l" ord] by (auto simp: list_ok_def list_Flatten_def)
qed

text \<open>
  C12: Whatever operations led to a list of pooled transactions, its \<open>totalcost\<close> is the sum of the costs of the transactions it
  holds, no held transaction costs more than \<open>costcap\<close> or has more gas than \<open>gascap\<close>, and the next \<open>Forward\<close>, \<open>Ready\<close> or
  \<open>Cap\<close> does not panic. \<open>Remove\<close> is called with a held transaction, as the pool does.
\<close>

theorem TxList_total:
  assumes "list_reach l"
  shows "totalcost l = total (list_txs l) \<and> (\<forall>tx \<in> set (list_txs l). Cost tx \<le> costcap l \<and> tGas tx \<le> gascap l) \<and>
    returns (list_Forward n l) \<and> returns (list_Ready n l) \<and> returns (list_Cap (int t) l)"
proof -
  have ok: "list_ok l" using assms by (rule reach_ok)
  then have "totalcost l = total (list_txs l)" "\<forall>tx \<in> set (list_txs l). Cost tx \<le> costcap l \<and> tGas tx \<le> gascap l"
    by (simp_all add: list_ok_def)
  then show ?thesis using Forward_list [OF ok, of n] Ready_list [OF ok, of n] Cap_list [OF ok, of t] by auto
qed

text \<open>
  C14: \<open>Filter\<close> is exact, its early return included: it returns the transactions that cost more than the limit or have more gas,
  and keeps the others. On a strict list, whose nonces are executed in sequence, it keeps only those before the first
  of them and returns the ones behind it as invalidated.
\<close>

theorem list_Filter_exact:
  assumes "list_reach l" "\<forall>i. range_order (iter i)" "list_Filter iter costLimit gasLimit l = (removed, invalids, l')"
  shows "list_txs l' = (if strict l then takeWhile (\<lambda>t. \<not> unaffordable costLimit gasLimit t) (list_txs l)
                        else filter (\<lambda>t. \<not> unaffordable costLimit gasLimit t) (list_txs l)) \<and>
    mset removed = mset (filter (unaffordable costLimit gasLimit) (list_txs l)) \<and>
    mset invalids = mset (if strict l then filter (\<lambda>t. \<not> unaffordable costLimit gasLimit t)
                                             (dropWhile (\<lambda>t. \<not> unaffordable costLimit gasLimit t) (list_txs l)) else [])"
  using Filter_list [OF reach_ok [OF assms(1)] _ assms(3)] assms(2) by blast

section \<open>Witnesses\<close>

definition wit_tx :: "u64 \<Rightarrow> Transaction" where
  "wit_tx n = \<lparr>tType = 0, tNonce = n, tGas = 21000, tGasPrice = 2, tGasFeeCap = 2, tGasTipCap = 2, tTo = Some 1, tValue = 5,
     tData = [], tAccessList = []\<rparr>"

lemma new_models: "sm_models newSortedMap []"
  using new_ok by (simp add: sm_models_def)

theorem sortedMap_refines_sequence_witness:
  "\<exists>m'. go_run sm_op [SmPut (wit_tx 4), SmPut (wit_tx 2), SmPut (wit_tx 3), SmReady 2, SmFlatten rev] newSortedMap =
    Ret ([ResNone, ResNone, ResNone, ResTxs [wit_tx 2, wit_tx 3, wit_tx 4], ResTxs []], m')"
  using sortedMap_refines_sequence [OF new_models, of "[SmPut (wit_tx 4), SmPut (wit_tx 2), SmPut (wit_tx 3), SmReady 2, SmFlatten rev]"]
  by (auto simp: range_order_def insert_tx_def ready_txs_def wit_tx_def)

definition wit_list :: txList where
  "wit_list = snd (snd (list_Add (wit_tx 7) 10 (newList True)))"

lemma wit_reach: "list_reach wit_list"
proof -
  obtain b old l' where a: "list_Add (wit_tx 7) 10 (newList True) = (b, old, l')" by (metis prod_cases3)
  have "list_reach l'" by (rule r_add [OF r_new _ a]) simp
  then show ?thesis using a by (simp add: wit_list_def)
qed

lemma wit_txs: "list_txs wit_list = [wit_tx 7]"
proof -
  obtain b old l' where a: "list_Add (wit_tx 7) 10 (newList True) = (b, old, l')" by (metis prod_cases3)
  have "list_ok (newList True)" using reach_ok [OF r_new] .
  note al = Add_list [OF this _ a]
  have e: "list_txs (newList True) = []" by (simp add: newList_def new_ok)
  have "b" using al(2) unfolding e by (simp add: accepts_def tx_at_def)
  then show ?thesis using al(3) a unfolding e by (simp add: wit_list_def insert_tx_def)
qed

theorem TxList_total_witness: "totalcost wit_list = 42005"
  using TxList_total [OF wit_reach, of 0 0] by (simp add: wit_txs Cost_def wit_tx_def)

theorem list_Filter_exact_witness:
  "list_txs (snd (snd (list_Filter (\<lambda>i. rev) 42004 21000 wit_list))) = [] \<and>
    fst (list_Filter (\<lambda>i. rev) 42004 21000 wit_list) = [wit_tx 7]"
proof -
  obtain r v l' where f: "list_Filter (\<lambda>i. rev) 42004 21000 wit_list = (r, v, l')" by (metis prod_cases3)
  have u: "unaffordable 42004 21000 (wit_tx 7)" by (simp add: unaffordable_def Cost_def wit_tx_def)
  have "list_txs l' = []" "mset r = {#wit_tx 7#}"
    using list_Filter_exact [OF wit_reach _ f] u by (simp_all add: wit_txs range_order_def)
  then show ?thesis using f by (auto simp: mset_single_iff)
qed

end
