(* ===== verification/Tx_Priced.thy ===== *)
theory Tx_Priced
  imports Tx_List
begin

text \<open>
  The price side of the transaction pool: \<open>lookup\<close>, the set of all pooled transactions (\<^verbatim>\<open>client/core/txpool/txpool.go\<close>), \<open>priceHeap\<close> and
  \<open>pricedList\<close>, the two heaps from which the cheapest remote transactions are evicted (\<^verbatim>\<open>client/core/txpool/list.go\<close>), and the price
  comparisons of \<^verbatim>\<open>client/core/types/transaction.go\<close>.

  The hash of a transaction and its encoded size are the fields of \<open>txLib\<close>. The pool's mutexes make each method one step. Maps are
  association lists, visited in an order that an argument chooses. A heap may hold stale entries, transactions no longer
  remote in the lookup.

  The facts: the price order meets the contract of the heap package; \<open>Reheap\<close> tracks exactly the remote transactions, the
  cheapest fifth in the floating heap; \<open>Discard\<close> always returns, evicts remote transactions only, and either frees the slots asked for or
  keeps every live entry; and \<open>Underpriced\<close> is right about every tracked transaction.
\<close>

section \<open>Prices\<close>

definition BigCmp :: "int \<Rightarrow> int \<Rightarrow> int" where
  "BigCmp x y = (if x < y then - 1 else if x = y then 0 else 1)"

definition GasFeeCapCmp :: "Transaction \<Rightarrow> Transaction \<Rightarrow> int" where
  "GasFeeCapCmp tx other = BigCmp (tGasFeeCap tx) (tGasFeeCap other)"

definition GasTipCapCmp :: "Transaction \<Rightarrow> Transaction \<Rightarrow> int" where
  "GasTipCapCmp tx other = BigCmp (tGasTipCap tx) (tGasTipCap other)"

definition GasTipCapIntCmp :: "Transaction \<Rightarrow> int \<Rightarrow> int" where
  "GasTipCapIntCmp tx other = BigCmp (tGasTipCap tx) other"

text \<open>The second component is the error \<open>ErrGasFeeCapTooLow\<close>.\<close>

definition EffectiveGasTip :: "Transaction \<Rightarrow> int option \<Rightarrow> int \<times> bool" where
  "EffectiveGasTip tx baseFee = (case baseFee of
     None \<Rightarrow> (tGasTipCap tx, False)
   | Some fee \<Rightarrow> (BigMin (tGasTipCap tx) (tGasFeeCap tx - fee), BigCmp (tGasFeeCap tx) fee = - 1))"

definition EffectiveGasTipValue :: "Transaction \<Rightarrow> int option \<Rightarrow> int" where
  "EffectiveGasTipValue tx baseFee = fst (EffectiveGasTip tx baseFee)"

definition EffectiveGasTipCmp :: "Transaction \<Rightarrow> Transaction \<Rightarrow> int option \<Rightarrow> int" where
  "EffectiveGasTipCmp tx other baseFee =
    (if baseFee = None then GasTipCapCmp tx other
     else BigCmp (EffectiveGasTipValue tx baseFee) (EffectiveGasTipValue other baseFee))"

record priceHeap =
  phBaseFee :: "int option"
  phList :: "Transaction list"

definition price_cmp :: "int option \<Rightarrow> Transaction \<Rightarrow> Transaction \<Rightarrow> int" where
  "price_cmp baseFee a b =
    (let c = (if baseFee \<noteq> None then EffectiveGasTipCmp a b baseFee else 0)
     in if c \<noteq> 0 then c
        else let c = GasFeeCapCmp a b in if c \<noteq> 0 then c else GasTipCapCmp a b)"

definition price_Less :: "int option \<Rightarrow> Transaction \<Rightarrow> Transaction \<Rightarrow> bool" where
  "price_Less baseFee a b =
    (let c = price_cmp baseFee a b in if c = - 1 then True else if c = 1 then False else tNonce a > tNonce b)"

section \<open>The lookup\<close>

record txLib =
  txlHash :: "Transaction \<Rightarrow> hash"
  txlSize :: "Transaction \<Rightarrow> u64"

type_synonym hashItems = "(hash \<times> Transaction) list"

record txLookup =
  lkSlots :: int
  lkLocals :: hashItems
  lkRemotes :: hashItems

definition newLookup :: txLookup where
  "newLookup = \<lparr>lkSlots = 0, lkLocals = [], lkRemotes = []\<rparr>"

abbreviation txSlotSize :: u64 where
  "txSlotSize \<equiv> 32768"

definition numSlots :: "txLib \<Rightarrow> Transaction \<Rightarrow> int" where
  "numSlots lb tx = sint ((txlSize lb tx + txSlotSize - 1) div txSlotSize)"

definition GetLocal :: "txLookup \<Rightarrow> hash \<Rightarrow> Transaction option" where
  "GetLocal t h = map_of (lkLocals t) h"

definition GetRemote :: "txLookup \<Rightarrow> hash \<Rightarrow> Transaction option" where
  "GetRemote t h = map_of (lkRemotes t) h"

definition lookup_Get :: "txLookup \<Rightarrow> hash \<Rightarrow> Transaction option" where
  "lookup_Get t h = (case map_of (lkLocals t) h of Some tx \<Rightarrow> Some tx | None \<Rightarrow> map_of (lkRemotes t) h)"

definition lookup_Count :: "txLookup \<Rightarrow> nat" where
  "lookup_Count t = length (lkLocals t) + length (lkRemotes t)"

definition LocalCount :: "txLookup \<Rightarrow> nat" where
  "LocalCount t = length (lkLocals t)"

definition RemoteCount :: "txLookup \<Rightarrow> nat" where
  "RemoteCount t = length (lkRemotes t)"

definition lookup_Add :: "txLib \<Rightarrow> Transaction \<Rightarrow> bool \<Rightarrow> txLookup \<Rightarrow> txLookup" where
  "lookup_Add lb tx islocal t =
    (let t = t\<lparr>lkSlots := lkSlots t + numSlots lb tx\<rparr>
     in if islocal then t\<lparr>lkLocals := AList.update (txlHash lb tx) tx (lkLocals t)\<rparr>
        else t\<lparr>lkRemotes := AList.update (txlHash lb tx) tx (lkRemotes t)\<rparr>)"

definition lookup_Remove :: "txLib \<Rightarrow> hash \<Rightarrow> txLookup \<Rightarrow> txLookup" where
  "lookup_Remove lb h t = (case lookup_Get t h of
     None \<Rightarrow> t
   | Some tx \<Rightarrow> t\<lparr>lkSlots := lkSlots t - numSlots lb tx, lkLocals := AList.delete h (lkLocals t), lkRemotes := AList.delete h (lkRemotes t)\<rparr>)"

text \<open>The callback of \<open>RemoteToLocals\<close> decides by the sender; \<open>containsTx\<close> is the argument.\<close>

definition RemoteToLocals :: "(Transaction \<Rightarrow> bool) \<Rightarrow> txLookup \<Rightarrow> nat \<times> txLookup" where
  "RemoteToLocals containsTx t =
    (let moved = filter (\<lambda>(h, tx). containsTx tx) (lkRemotes t)
     in (length moved, t\<lparr>lkLocals := fold (\<lambda>(h, tx). AList.update h tx) moved (lkLocals t),
                        lkRemotes := filter (\<lambda>(h, tx). \<not> containsTx tx) (lkRemotes t)\<rparr>))"

definition RemotesBelowTip :: "(hashItems \<Rightarrow> hashItems) \<Rightarrow> int \<Rightarrow> txLookup \<Rightarrow> Transaction list" where
  "RemotesBelowTip ord threshold t = filter (\<lambda>tx. GasTipCapIntCmp tx threshold < 0) (map snd (ord (lkRemotes t)))"

section \<open>The priced list\<close>

record pricedList =
  plStales :: int
  plUrgent :: priceHeap
  plFloating :: priceHeap

definition newPricedList :: pricedList where
  "newPricedList = \<lparr>plStales = 0, plUrgent = \<lparr>phBaseFee = None, phList = []\<rparr>, plFloating = \<lparr>phBaseFee = None, phList = []\<rparr>\<rparr>"

definition ph_Push :: "Transaction \<Rightarrow> priceHeap \<Rightarrow> priceHeap" where
  "ph_Push tx h = h\<lparr>phList := heap_Push (price_Less (phBaseFee h)) tx (phList h)\<rparr>"

definition ph_Init :: "priceHeap \<Rightarrow> priceHeap" where
  "ph_Init h = h\<lparr>phList := heap_Init (price_Less (phBaseFee h)) (phList h)\<rparr>"

definition ph_Pop :: "priceHeap \<Rightarrow> (Transaction \<times> priceHeap) go" where
  "ph_Pop h = go_bind (heap_Pop (price_Less (phBaseFee h)) (phList h)) (\<lambda>(tx, xs). Ret (tx, h\<lparr>phList := xs\<rparr>))"

definition pl_Put :: "Transaction \<Rightarrow> bool \<Rightarrow> pricedList \<Rightarrow> pricedList" where
  "pl_Put tx islocal l = (if islocal then l else l\<lparr>plUrgent := ph_Push tx (plUrgent l)\<rparr>)"

fun reheap_pops :: "nat \<Rightarrow> priceHeap \<Rightarrow> (Transaction list \<times> priceHeap) go" where
  "reheap_pops 0 h = Ret ([], h)"
| "reheap_pops (Suc n) h = go_bind (ph_Pop h) (\<lambda>(tx, h). go_bind (reheap_pops n h) (\<lambda>(ts, h). Ret (tx # ts, h)))"

abbreviation urgentRatio :: nat where "urgentRatio \<equiv> 4"
abbreviation floatingRatio :: nat where "floatingRatio \<equiv> 1"

definition pl_Reheap :: "(hashItems \<Rightarrow> hashItems) \<Rightarrow> txLookup \<Rightarrow> pricedList \<Rightarrow> pricedList go" where
  "pl_Reheap ord all l =
    (let u = ph_Init ((plUrgent l)\<lparr>phList := map snd (ord (lkRemotes all))\<rparr>);
         floatingCount = length (phList u) * floatingRatio div (urgentRatio + floatingRatio)
     in go_bind (reheap_pops floatingCount u) (\<lambda>(ts, u).
          Ret (l\<lparr>plStales := 0, plUrgent := u, plFloating := ph_Init ((plFloating l)\<lparr>phList := ts\<rparr>)\<rparr>)))"

definition pl_Removed :: "(hashItems \<Rightarrow> hashItems) \<Rightarrow> txLookup \<Rightarrow> int \<Rightarrow> pricedList \<Rightarrow> pricedList go" where
  "pl_Removed ord all cnt l =
    (let l = l\<lparr>plStales := plStales l + cnt\<rparr>
     in if plStales l \<le> int ((length (phList (plUrgent l)) + length (phList (plFloating l))) div 4) then Ret l
        else pl_Reheap ord all l)"

definition SetBaseFee :: "(hashItems \<Rightarrow> hashItems) \<Rightarrow> txLookup \<Rightarrow> int option \<Rightarrow> pricedList \<Rightarrow> pricedList go" where
  "SetBaseFee ord all baseFee l = pl_Reheap ord all (l\<lparr>plUrgent := (plUrgent l)\<lparr>phBaseFee := baseFee\<rparr>\<rparr>)"

lemma ph_Pop_length: "ph_Pop h = Ret (tx, h') \<Longrightarrow> length (phList h') < length (phList h)"
  by (auto simp: ph_Pop_def dest: Pop_length)

lemma ph_Push_length: "length (phList (ph_Push tx h)) = Suc (length (phList h))"
  by (simp add: ph_Push_def Push_length)

text \<open>The loop of \<open>underpricedFor\<close> drops stale heads; it also returns how many.\<close>

function drop_stale :: "txLib \<Rightarrow> txLookup \<Rightarrow> priceHeap \<Rightarrow> int \<Rightarrow> (priceHeap \<times> int) go" where
  "drop_stale lb all h stales =
    (if phList h \<noteq> [] \<and> GetRemote all (txlHash lb (phList h ! 0)) = None then
       (case ph_Pop h of Ret (_, h) \<Rightarrow> drop_stale lb all h (stales - 1) | Panic e \<Rightarrow> Panic e | NoFuel \<Rightarrow> NoFuel)
     else Ret (h, stales))"
  by pat_completeness auto

termination
  by (relation "measure (\<lambda>(lb, all, h, stales). length (phList h))") (auto dest: ph_Pop_length)

definition underpricedFor :: "txLib \<Rightarrow> txLookup \<Rightarrow> Transaction \<Rightarrow> priceHeap \<Rightarrow> int \<Rightarrow> (bool \<times> priceHeap \<times> int) go" where
  "underpricedFor lb all tx h stales =
    go_bind (drop_stale lb all h stales) (\<lambda>(h, stales).
      if phList h = [] then Ret (False, h, stales)
      else Ret (price_cmp (phBaseFee h) (phList h ! 0) tx \<ge> 0, h, stales))"

definition Underpriced :: "txLib \<Rightarrow> txLookup \<Rightarrow> Transaction \<Rightarrow> pricedList \<Rightarrow> (bool \<times> pricedList) go" where
  "Underpriced lb all tx l =
    go_bind (underpricedFor lb all tx (plUrgent l) (plStales l)) (\<lambda>(b, u, stales).
      let l = l\<lparr>plUrgent := u, plStales := stales\<rparr>
      in if \<not> (b \<or> phList u = []) then Ret (False, l)
         else go_bind (underpricedFor lb all tx (plFloating l) (plStales l)) (\<lambda>(b, f, stales).
           let l = l\<lparr>plFloating := f, plStales := stales\<rparr>
           in Ret ((b \<or> phList f = []) \<and> (phList (plUrgent l) \<noteq> [] \<or> phList f \<noteq> []), l)))"

text \<open>The loop of \<open>Discard\<close>; an entry moves from the urgent to the floating heap or leaves, so it ends.\<close>

function discard_loop :: "txLib \<Rightarrow> txLookup \<Rightarrow> int \<Rightarrow> priceHeap \<Rightarrow> priceHeap \<Rightarrow> int \<Rightarrow> Transaction list \<Rightarrow>
    (int \<times> priceHeap \<times> priceHeap \<times> int \<times> Transaction list) go" where
  "discard_loop lb all slts u f stales drops =
    (if slts \<le> 0 then Ret (slts, u, f, stales, drops)
     else if length (phList u) * floatingRatio > length (phList f) * urgentRatio then
       (case ph_Pop u of
          Ret (tx, u) \<Rightarrow>
            if GetRemote all (txlHash lb tx) = None then discard_loop lb all slts u f (stales - 1) drops
            else discard_loop lb all slts u (ph_Push tx f) stales drops
        | Panic e \<Rightarrow> Panic e | NoFuel \<Rightarrow> NoFuel)
     else if phList f = [] then Ret (slts, u, f, stales, drops)
     else
       (case ph_Pop f of
          Ret (tx, f) \<Rightarrow>
            if GetRemote all (txlHash lb tx) = None then discard_loop lb all slts u f (stales - 1) drops
            else discard_loop lb all (slts - numSlots lb tx) u f stales (drops @ [tx])
        | Panic e \<Rightarrow> Panic e | NoFuel \<Rightarrow> NoFuel))"
  by pat_completeness auto

termination
  by (relation "measure (\<lambda>(lb, all, slts, u, f, stales, drops). 2 * length (phList u) + length (phList f))")
    (auto simp: ph_Push_length dest!: ph_Pop_length)

declare discard_loop.simps [simp del] drop_stale.simps [simp del]

definition Discard :: "txLib \<Rightarrow> txLookup \<Rightarrow> int \<Rightarrow> bool \<Rightarrow> pricedList \<Rightarrow> ((Transaction list \<times> bool) \<times> pricedList) go" where
  "Discard lb all slts force l =
    go_bind (discard_loop lb all slts (plUrgent l) (plFloating l) (plStales l) []) (\<lambda>(slts, u, f, stales, drops).
      let l = l\<lparr>plStales := stales, plUrgent := u, plFloating := f\<rparr>
      in if slts > 0 \<and> \<not> force then Ret (([], False), l\<lparr>plUrgent := fold ph_Push drops u\<rparr>)
         else Ret ((drops, True), l))"

section \<open>The price order\<close>

text \<open>\<open>effective\<close>: the tip that the comparison looks at first; without a base fee nothing.\<close>

definition effective :: "int option \<Rightarrow> Transaction \<Rightarrow> int" where
  "effective baseFee tx = (case baseFee of None \<Rightarrow> 0 | Some _ \<Rightarrow> EffectiveGasTipValue tx baseFee)"

definition price_le :: "int option \<Rightarrow> Transaction \<Rightarrow> Transaction \<Rightarrow> bool" where
  "price_le baseFee a b \<longleftrightarrow> effective baseFee a < effective baseFee b \<or> (effective baseFee a = effective baseFee b \<and>
     (tGasFeeCap a < tGasFeeCap b \<or> (tGasFeeCap a = tGasFeeCap b \<and> tGasTipCap a \<le> tGasTipCap b)))"

lemma price_cmp_cases:
  "price_cmp baseFee a b = (if \<not> price_le baseFee b a then - 1 else if \<not> price_le baseFee a b then 1 else 0)"
  by (cases baseFee) (auto simp: price_cmp_def price_le_def effective_def EffectiveGasTipCmp_def GasFeeCapCmp_def GasTipCapCmp_def BigCmp_def Let_def)

lemma price_le_trans: "price_le f a b \<Longrightarrow> price_le f b c \<Longrightarrow> price_le f a c"
  by (auto simp: price_le_def)

lemma price_le_total: "price_le f a b \<or> price_le f b a"
  by (auto simp: price_le_def)

lemma price_Less_iff: "price_Less f a b \<longleftrightarrow> \<not> price_le f b a \<or> price_le f a b \<and> tNonce b < tNonce a"
  using price_le_total [of f a b] by (auto simp: price_Less_def price_cmp_cases Let_def)

interpretation price_heap: heap_interface "price_Less f" for f
proof
  show "price_Less f a b \<Longrightarrow> \<not> price_Less f b a" for a b using price_le_total [of f a b] by (auto simp: price_Less_iff)
  show "\<not> price_Less f b a \<Longrightarrow> \<not> price_Less f c b \<Longrightarrow> \<not> price_Less f c a" for a b c
    using price_le_trans [of f a b c] price_le_trans [of f b a c] price_le_trans [of f c b a] price_le_trans [of f b c a] price_le_trans [of f c a b]
      price_le_trans [of f a c b]
    by (auto simp: price_Less_iff not_less)
qed

section \<open>Heaps of prices\<close>

definition ph_ok :: "priceHeap \<Rightarrow> bool" where
  "ph_ok h \<longleftrightarrow> is_heap (price_Less (phBaseFee h)) (phList h)"

abbreviation bag :: "priceHeap \<Rightarrow> Transaction multiset" where
  "bag h \<equiv> mset (phList h)"

lemma ph_Push_ok: "ph_ok h \<Longrightarrow> ph_ok (ph_Push tx h) \<and> bag (ph_Push tx h) = add_mset tx (bag h) \<and> phBaseFee (ph_Push tx h) = phBaseFee h"
  using price_heap.Push_heap [of "phBaseFee h" "phList h" tx] by (simp add: ph_ok_def ph_Push_def)

lemma ph_Pop_ok:
  assumes "ph_ok h" "phList h \<noteq> []"
  shows "\<exists>h'. ph_Pop h = Ret (phList h ! 0, h') \<and> ph_ok h' \<and> bag h = add_mset (phList h ! 0) (bag h') \<and> phBaseFee h' = phBaseFee h"
  using price_heap.Pop_heap [of "phBaseFee h" "phList h"] assms by (auto simp: ph_ok_def ph_Pop_def)

lemma ph_least: "ph_ok h \<Longrightarrow> x \<in> set (phList h) \<Longrightarrow> price_le (phBaseFee h) (phList h ! 0) x"
  using price_heap.root_least [of "phBaseFee h" "phList h"] price_le_total by (auto simp: ph_ok_def in_set_conv_nth price_Less_iff)

lemma ph_Init_ok: "ph_ok (ph_Init h) \<and> bag (ph_Init h) = bag h \<and> phBaseFee (ph_Init h) = phBaseFee h"
  using price_heap.Init_heap by (simp add: ph_ok_def ph_Init_def)

definition pl_ok :: "pricedList \<Rightarrow> bool" where
  "pl_ok l \<longleftrightarrow> ph_ok (plUrgent l) \<and> ph_ok (plFloating l)"

definition is_live :: "txLib \<Rightarrow> txLookup \<Rightarrow> Transaction \<Rightarrow> bool" where
  "is_live lb all tx \<longleftrightarrow> GetRemote all (txlHash lb tx) \<noteq> None"

abbreviation live_bag :: "txLib \<Rightarrow> txLookup \<Rightarrow> priceHeap \<Rightarrow> Transaction multiset" where
  "live_bag lb all h \<equiv> filter_mset (is_live lb all) (bag h)"

section \<open>Discarding\<close>

abbreviation slot_sum :: "txLib \<Rightarrow> Transaction multiset \<Rightarrow> int" where
  "slot_sum lb M \<equiv> sum_mset (image_mset (numSlots lb) M)"

lemma discard_loop_ok:
  assumes "ph_ok u" "ph_ok f"
  shows "\<exists>slts' u' f' stales' new. discard_loop lb all slts u f stales drops = Ret (slts', u', f', stales', drops @ new) \<and>
    ph_ok u' \<and> ph_ok f' \<and> live_bag lb all u + live_bag lb all f = live_bag lb all u' + live_bag lb all f' + mset new \<and>
    slts' = slts - slot_sum lb (mset new) \<and> (\<forall>x \<in> set new. is_live lb all x) \<and>
    (0 < slts' \<longrightarrow> phList u' = [] \<and> phList f' = []) \<and> phBaseFee u' = phBaseFee u \<and> phBaseFee f' = phBaseFee f"
  using assms
proof (induction "2 * length (phList u) + length (phList f)" arbitrary: slts u f stales drops rule: less_induct)
  case less
  show ?case
  proof (cases "slts \<le> 0 \<or> (\<not> length (phList u) > length (phList f) * 4 \<and> phList f = [])")
    case True
    then have "discard_loop lb all slts u f stales drops = Ret (slts, u, f, stales, drops)" by (subst discard_loop.simps) auto
    then show ?thesis using less.prems True by (intro exI [of _ "[]"] exI) auto
  next
    case False
    show ?thesis
    proof (cases "length (phList u) > length (phList f) * 4")
      case True
      then have "phList u \<noteq> []" by auto
      then obtain u1 where p: "ph_Pop u = Ret (phList u ! 0, u1)" "ph_ok u1" "bag u = add_mset (phList u ! 0) (bag u1)" "phBaseFee u1 = phBaseFee u"
        using ph_Pop_ok less.prems(1) by blast
      let ?x = "phList u ! 0"
      have len: "length (phList u1) < length (phList u)" using ph_Pop_length [OF p(1)] .
      show ?thesis
      proof (cases "is_live lb all ?x")
        case lv: True
        have f1: "ph_ok (ph_Push ?x f)" "bag (ph_Push ?x f) = add_mset ?x (bag f)" "phBaseFee (ph_Push ?x f) = phBaseFee f"
          using ph_Push_ok [OF less.prems(2)] by auto
        have "discard_loop lb all slts u f stales drops = discard_loop lb all slts u1 (ph_Push ?x f) stales drops"
          using False True p(1) lv by (subst discard_loop.simps) (auto simp: is_live_def)
        then show ?thesis using less.hyps [of u1 "ph_Push ?x f" slts stales drops] len p f1 lv by (simp add: ph_Push_length)
      next
        case st: False
        have "discard_loop lb all slts u f stales drops = discard_loop lb all slts u1 f (stales - 1) drops"
          using False True p(1) st by (subst discard_loop.simps) (auto simp: is_live_def)
        then show ?thesis using less.hyps [of u1 f slts "stales - 1" drops] len p st less.prems(2) by simp
      qed
    next
      case fl: False
      then have "phList f \<noteq> []" using False by auto
      then obtain f1 where p: "ph_Pop f = Ret (phList f ! 0, f1)" "ph_ok f1" "bag f = add_mset (phList f ! 0) (bag f1)" "phBaseFee f1 = phBaseFee f"
        using ph_Pop_ok less.prems(2) by blast
      let ?x = "phList f ! 0"
      have len: "length (phList f1) < length (phList f)" using ph_Pop_length [OF p(1)] .
      show ?thesis
      proof (cases "is_live lb all ?x")
        case lv: True
        have eq: "discard_loop lb all slts u f stales drops = discard_loop lb all (slts - numSlots lb ?x) u f1 stales (drops @ [?x])"
          using False fl p(1) lv by (subst discard_loop.simps) (auto simp: is_live_def)
        obtain s' u' f' st' new where ih: "discard_loop lb all (slts - numSlots lb ?x) u f1 stales (drops @ [?x]) = Ret (s', u', f', st', (drops @ [?x]) @ new)"
            "ph_ok u'" "ph_ok f'" "live_bag lb all u + live_bag lb all f1 = live_bag lb all u' + live_bag lb all f' + mset new"
            "s' = slts - numSlots lb ?x - slot_sum lb (mset new)" "\<forall>x \<in> set new. is_live lb all x" "0 < s' \<longrightarrow> phList u' = [] \<and> phList f' = []"
            "phBaseFee u' = phBaseFee u" "phBaseFee f' = phBaseFee f1"
          using less.hyps [of u f1 "slts - numSlots lb ?x" stales "drops @ [?x]"] len p(2) less.prems(1) by auto
        show ?thesis using ih p(3,4) lv unfolding eq by (intro exI [of _ "?x # new"] exI) auto
      next
        case st: False
        have "discard_loop lb all slts u f stales drops = discard_loop lb all slts u f1 (stales - 1) drops"
          using False fl p(1) st by (subst discard_loop.simps) (auto simp: is_live_def)
        then show ?thesis using less.hyps [of u f1 slts "stales - 1" drops] len p st less.prems(1) by simp
      qed
    qed
  qed
qed

lemma push_all_ok:
  "ph_ok h \<Longrightarrow> ph_ok (fold ph_Push ts h) \<and> bag (fold ph_Push ts h) = bag h + mset ts \<and> phBaseFee (fold ph_Push ts h) = phBaseFee h"
proof (induction ts arbitrary: h)
  case (Cons t ts)
  then show ?case using ph_Push_ok [OF Cons.prems, of t] by simp
qed simp

definition tracked :: "txLib \<Rightarrow> txLookup \<Rightarrow> pricedList \<Rightarrow> Transaction multiset" where
  "tracked lb all l = live_bag lb all (plUrgent l) + live_bag lb all (plFloating l)"


lemma new_pl_ok: "pl_ok newPricedList"
  by (simp add: pl_ok_def newPricedList_def ph_ok_def is_heap_def)

lemma Put_pl_ok: "pl_ok l \<Longrightarrow> pl_ok (pl_Put tx islocal l)"
  using ph_Push_ok by (simp add: pl_ok_def pl_Put_def)

section \<open>Rebuilding the heaps\<close>

lemma reheap_pops_ok:
  assumes "ph_ok h" "n \<le> length (phList h)"
  shows "\<exists>ts h'. reheap_pops n h = Ret (ts, h') \<and> ph_ok h' \<and> bag h = mset ts + bag h' \<and> length ts = n \<and> phBaseFee h' = phBaseFee h \<and>
    (\<forall>x \<in> set ts. \<forall>y \<in># bag h'. price_le (phBaseFee h) x y)"
  using assms
proof (induction n arbitrary: h)
  case (Suc n)
  then have "phList h \<noteq> []" by auto
  then obtain h1 where p: "ph_Pop h = Ret (phList h ! 0, h1)" "ph_ok h1" "bag h = add_mset (phList h ! 0) (bag h1)" "phBaseFee h1 = phBaseFee h"
    using ph_Pop_ok Suc.prems(1) by blast
  have "length (phList h) = Suc (length (phList h1))" using p(3) by (metis size_add_mset size_mset)
  then obtain ts h' where r: "reheap_pops n h1 = Ret (ts, h')" "ph_ok h'" "bag h1 = mset ts + bag h'" "length ts = n" "phBaseFee h' = phBaseFee h1"
      "\<forall>x \<in> set ts. \<forall>y \<in># bag h'. price_le (phBaseFee h1) x y" using Suc.IH [OF p(2)] Suc.prems(2) by auto
  have "price_le (phBaseFee h) (phList h ! 0) y" if "y \<in># bag h'" for y
  proof -
    have "y \<in># bag h" using that r(3) p(3) by simp
    then show ?thesis using ph_least [OF Suc.prems(1)] by simp
  qed
  then show ?case using p r by (intro exI [of _ "phList h ! 0 # ts"] exI [of _ h']) auto
qed simp

theorem Reheap_exact:
  assumes "mset (ord (lkRemotes all)) = mset (lkRemotes all)"
  shows "\<exists>l'. pl_Reheap ord all l = Ret l' \<and> pl_ok l' \<and> plStales l' = 0 \<and>
    bag (plUrgent l') + bag (plFloating l') = mset (map snd (lkRemotes all)) \<and> size (bag (plFloating l')) = length (lkRemotes all) div 5 \<and>
    (\<forall>x \<in># bag (plFloating l'). \<forall>y \<in># bag (plUrgent l'). price_le (phBaseFee (plUrgent l)) x y)"
proof -
  let ?u = "ph_Init ((plUrgent l)\<lparr>phList := map snd (ord (lkRemotes all))\<rparr>)"
  have u: "ph_ok ?u" "bag ?u = mset (map snd (lkRemotes all))" "phBaseFee ?u = phBaseFee (plUrgent l)"
    using ph_Init_ok [of "(plUrgent l)\<lparr>phList := map snd (ord (lkRemotes all))\<rparr>"] assms by auto
  then have len: "length (phList ?u) = length (lkRemotes all)" by (metis length_map size_mset)
  obtain ts h where r: "reheap_pops (length (lkRemotes all) div 5) ?u = Ret (ts, h)" "ph_ok h" "bag ?u = mset ts + bag h"
      "length ts = length (lkRemotes all) div 5" "\<forall>x \<in> set ts. \<forall>y \<in># bag h. price_le (phBaseFee ?u) x y"
    using reheap_pops_ok [OF u(1), of "length (lkRemotes all) div 5"] len by auto
  let ?f = "ph_Init ((plFloating l)\<lparr>phList := ts\<rparr>)"
  have f: "ph_ok ?f" "bag ?f = mset ts" using ph_Init_ok [of "(plFloating l)\<lparr>phList := ts\<rparr>"] by auto
  moreover have "set (phList ?f) = set ts" "length (phList ?f) = length ts" using f(2) mset_eq_setD mset_eq_length by blast+
  ultimately show ?thesis using r u len by (simp add: pl_Reheap_def Let_def pl_ok_def union_commute)
qed

section \<open>Underpriced transactions\<close>

lemma drop_stale_ok:
  assumes "ph_ok h"
  shows "\<exists>h' st'. drop_stale lb all h st = Ret (h', st') \<and> ph_ok h' \<and> live_bag lb all h' = live_bag lb all h \<and> phBaseFee h' = phBaseFee h \<and>
    (phList h' \<noteq> [] \<longrightarrow> is_live lb all (phList h' ! 0))"
  using assms
proof (induction "length (phList h)" arbitrary: h st rule: less_induct)
  case less
  show ?case
  proof (cases "phList h \<noteq> [] \<and> \<not> is_live lb all (phList h ! 0)")
    case True
    then obtain h1 where p: "ph_Pop h = Ret (phList h ! 0, h1)" "ph_ok h1" "bag h = add_mset (phList h ! 0) (bag h1)" "phBaseFee h1 = phBaseFee h"
      using ph_Pop_ok less.prems by blast
    have "drop_stale lb all h st = drop_stale lb all h1 (st - 1)" using True p(1) by (subst drop_stale.simps) (auto simp: is_live_def)
    then show ?thesis using less.hyps [OF ph_Pop_length [OF p(1)] p(2), of "st - 1"] p True by simp
  next
    case False
    then have "drop_stale lb all h st = Ret (h, st)" by (subst drop_stale.simps) (auto simp: is_live_def)
    then show ?thesis using less.prems False by auto
  qed
qed

lemma underpricedFor_ok:
  assumes "ph_ok h"
  shows "\<exists>b h' st'. underpricedFor lb all tx h st = Ret (b, h', st') \<and> ph_ok h' \<and> live_bag lb all h' = live_bag lb all h \<and>
    (phList h' = [] \<longleftrightarrow> live_bag lb all h = {#}) \<and>
    (b \<longleftrightarrow> live_bag lb all h \<noteq> {#} \<and> (\<forall>x \<in># live_bag lb all h. price_le (phBaseFee h) tx x))"
proof -
  obtain h' st' where d: "drop_stale lb all h st = Ret (h', st')" "ph_ok h'" "live_bag lb all h' = live_bag lb all h" "phBaseFee h' = phBaseFee h"
      "phList h' \<noteq> [] \<longrightarrow> is_live lb all (phList h' ! 0)" using drop_stale_ok [OF assms] by blast
  show ?thesis
  proof (cases "phList h' = []")
    case True
    then have "live_bag lb all h = {#}" using d(3) by simp
    then show ?thesis using True d by (intro exI [of _ False] exI [of _ h'] exI [of _ st']) (simp add: underpricedFor_def)
  next
    case False
    let ?x = "phList h' ! 0"
    have x: "?x \<in># live_bag lb all h" using False d(5) unfolding d(3) [symmetric] by simp
    have least: "price_le (phBaseFee h) ?x y" if "y \<in># live_bag lb all h" for y
    proof -
      have "y \<in> set (phList h')" using that unfolding d(3) [symmetric] by simp
      then show ?thesis using ph_least [OF d(2)] d(4) by simp
    qed
    have "price_cmp (phBaseFee h) ?x tx \<ge> 0 \<longleftrightarrow> price_le (phBaseFee h) tx ?x" by (simp add: price_cmp_cases)
    also have "\<dots> \<longleftrightarrow> (\<forall>y \<in># live_bag lb all h. price_le (phBaseFee h) tx y)" using x least price_le_trans by blast
    finally have c: "price_cmp (phBaseFee h) ?x tx \<ge> 0 \<longleftrightarrow> (\<forall>y \<in># live_bag lb all h. price_le (phBaseFee h) tx y)" .
    moreover have "live_bag lb all h \<noteq> {#}" using x by auto
    ultimately show ?thesis using False d(1-4) by (simp add: underpricedFor_def)
  qed
qed

text \<open>
  C16: \<open>Underpriced\<close> says yes exactly when some remote transaction is tracked and none is cheaper than the new one, each compared in the order of its
  own heap: by effective tip at the current base fee in the urgent heap, by fee cap in the floating one. Dropping stale entries on the
  way loses no tracked transaction.
\<close>

theorem Underpriced_exact:
  assumes "pl_ok l"
  shows "\<exists>b l'. Underpriced lb all tx l = Ret (b, l') \<and> pl_ok l' \<and> tracked lb all l' = tracked lb all l \<and>
    (b \<longleftrightarrow> tracked lb all l \<noteq> {#} \<and> (\<forall>x \<in># live_bag lb all (plUrgent l). price_le (phBaseFee (plUrgent l)) tx x) \<and>
           (\<forall>x \<in># live_bag lb all (plFloating l). price_le (phBaseFee (plFloating l)) tx x))"
proof -
  obtain b u st where u: "underpricedFor lb all tx (plUrgent l) (plStales l) = Ret (b, u, st)" "ph_ok u" "live_bag lb all u = live_bag lb all (plUrgent l)"
      "phList u = [] \<longleftrightarrow> live_bag lb all (plUrgent l) = {#}"
      "b \<longleftrightarrow> live_bag lb all (plUrgent l) \<noteq> {#} \<and> (\<forall>x \<in># live_bag lb all (plUrgent l). price_le (phBaseFee (plUrgent l)) tx x)"
    using underpricedFor_ok [of "plUrgent l" lb all tx "plStales l"] assms unfolding pl_ok_def by blast
  obtain c f st' where f: "underpricedFor lb all tx (plFloating l) st = Ret (c, f, st')" "ph_ok f" "live_bag lb all f = live_bag lb all (plFloating l)"
      "phList f = [] \<longleftrightarrow> live_bag lb all (plFloating l) = {#}"
      "c \<longleftrightarrow> live_bag lb all (plFloating l) \<noteq> {#} \<and> (\<forall>x \<in># live_bag lb all (plFloating l). price_le (phBaseFee (plFloating l)) tx x)"
    using underpricedFor_ok [of "plFloating l" lb all tx st] assms unfolding pl_ok_def by blast
  show ?thesis
  proof (cases "b \<or> phList u = []")
    case True
    then have "Underpriced lb all tx l = Ret ((c \<or> phList f = []) \<and> (phList u \<noteq> [] \<or> phList f \<noteq> []), l\<lparr>plUrgent := u, plFloating := f, plStales := st'\<rparr>)"
      using u(1) f(1) by (auto simp: Underpriced_def Let_def)
    then show ?thesis using True u(2-) f(2-) by (auto simp: pl_ok_def tracked_def)
  next
    case False
    then have "Underpriced lb all tx l = Ret (False, l\<lparr>plUrgent := u, plStales := st\<rparr>)" using u(1) by (simp add: Underpriced_def Let_def)
    then show ?thesis using False u(2-) assms by (auto simp: pl_ok_def tracked_def)
  qed
qed

lemma Removed_pl_ok:
  assumes "pl_ok l" "mset (ord (lkRemotes all)) = mset (lkRemotes all)"
  shows "\<exists>l'. pl_Removed ord all cnt l = Ret l' \<and> pl_ok l'"
  using Reheap_exact [of ord all "l\<lparr>plStales := plStales l + cnt\<rparr>", OF assms(2)] assms(1) by (auto simp: pl_Removed_def Let_def pl_ok_def)

lemma SetBaseFee_pl_ok:
  assumes "mset (ord (lkRemotes all)) = mset (lkRemotes all)"
  shows "\<exists>l'. SetBaseFee ord all baseFee l = Ret l' \<and> pl_ok l'"
  using Reheap_exact [of ord all "l\<lparr>plUrgent := (plUrgent l)\<lparr>phBaseFee := baseFee\<rparr>\<rparr>", OF assms] by (auto simp: SetBaseFee_def)

section \<open>Slots\<close>

text \<open>The counter of the lookup is the sum of the slots of its transactions, as long as no hash is added twice.\<close>

definition lk_ok :: "txLib \<Rightarrow> txLookup \<Rightarrow> bool" where
  "lk_ok lb t \<longleftrightarrow> distinct (map fst (lkLocals t @ lkRemotes t)) \<and> lkSlots t = sum_list (map (\<lambda>(h, tx). numSlots lb tx) (lkLocals t @ lkRemotes t))"

lemma update_new: "h \<notin> fst ` set xs \<Longrightarrow> AList.update h v xs = xs @ [(h, v)]"
  by (induction xs) auto

lemma delete_absent: "h \<notin> fst ` set xs \<Longrightarrow> AList.delete h xs = xs"
  by (induction xs) auto

lemma delete_sum:
  "distinct (map fst xs) \<Longrightarrow> map_of xs h = Some tx \<Longrightarrow>
    sum_list (map (\<lambda>(h, tx). numSlots lb tx) (AList.delete h xs)) = sum_list (map (\<lambda>(h, tx). numSlots lb tx) xs) - numSlots lb tx"
  by (induction xs) (auto simp: delete_absent split: if_splits)

lemma lookup_slots:
  shows "lk_ok lb newLookup" "lk_ok lb t \<Longrightarrow> lookup_Get t (txlHash lb tx) = None \<Longrightarrow> lk_ok lb (lookup_Add lb tx islocal t)"
    "lk_ok lb t \<Longrightarrow> lk_ok lb (lookup_Remove lb h t)"
proof -
  show "lk_ok lb newLookup" by (simp add: lk_ok_def newLookup_def)
  show "lk_ok lb (lookup_Add lb tx islocal t)" if "lk_ok lb t" "lookup_Get t (txlHash lb tx) = None"
  proof -
    have "txlHash lb tx \<notin> fst ` set (lkLocals t)" "txlHash lb tx \<notin> fst ` set (lkRemotes t)"
      using that(2) by (auto simp: lookup_Get_def map_of_eq_None_iff split: option.splits)
    then show ?thesis using that(1) by (auto simp: lk_ok_def lookup_Add_def Let_def update_new)
  qed
  show "lk_ok lb (lookup_Remove lb h t)" if ok: "lk_ok lb t"
  proof (cases "lookup_Get t h")
    case None
    then show ?thesis using ok by (simp add: lookup_Remove_def)
  next
    case (Some tx)
    have d: "distinct (map fst (lkLocals t))" "distinct (map fst (lkRemotes t))" "fst ` set (lkLocals t) \<inter> fst ` set (lkRemotes t) = {}"
      using ok by (auto simp: lk_ok_def)
    consider "map_of (lkLocals t) h = Some tx" "h \<notin> fst ` set (lkRemotes t)" | "map_of (lkRemotes t) h = Some tx" "h \<notin> fst ` set (lkLocals t)"
    proof (cases "map_of (lkLocals t) h")
      case None
      then have "h \<notin> fst ` set (lkLocals t)" by (simp add: map_of_eq_None_iff)
      then show ?thesis using Some None that(2) by (simp add: lookup_Get_def)
    next
      case (Some tx')
      then have "h \<in> fst ` set (lkLocals t)" by (metis map_of_SomeD fst_conv image_eqI)
      then show ?thesis using Some \<open>lookup_Get t h = Some tx\<close> d(3) that(1) by (auto simp: lookup_Get_def)
    qed
    then have "sum_list (map (\<lambda>(h, tx). numSlots lb tx) (AList.delete h (lkLocals t) @ AList.delete h (lkRemotes t))) = lkSlots t - numSlots lb tx"
      using ok d(1,2) by cases (simp_all add: lk_ok_def delete_sum delete_absent)
    moreover have sub: "fst ` set (AList.delete h xs) \<subseteq> fst ` set xs" "distinct (map fst xs) \<Longrightarrow> distinct (map fst (AList.delete h xs))" for xs :: hashItems
      by (auto simp: AList.delete_eq distinct_map_filter)
    moreover have "fst ` set (AList.delete h (lkLocals t)) \<inter> fst ` set (AList.delete h (lkRemotes t)) = {}" using sub(1) d(3) by blast
    ultimately show ?thesis using Some d(1,2) by (simp add: lk_ok_def lookup_Remove_def)
  qed
qed

section \<open>Witnesses\<close>

definition wit_lib :: txLib where
  "wit_lib = \<lparr>txlHash = (\<lambda>tx. ucast (tNonce tx)), txlSize = (\<lambda>tx. 100)\<rparr>"

definition wit_all :: txLookup where
  "wit_all = lookup_Add wit_lib (wit_tx 7) False newLookup"

definition wit_priced :: pricedList where
  "wit_priced = pl_Put (wit_tx 7) False newPricedList"

lemma wit_priced_ok: "pl_ok wit_priced"
  unfolding wit_priced_def by (intro Put_pl_ok new_pl_ok)

lemma wit_tracked: "tracked wit_lib wit_all wit_priced = {#wit_tx 7#}"
proof -
  have "bag (plUrgent wit_priced) = {#wit_tx 7#}" "bag (plFloating wit_priced) = {#}"
    using ph_Push_ok [of "plUrgent newPricedList" "wit_tx 7"] new_pl_ok by (simp_all add: wit_priced_def pl_Put_def pl_ok_def newPricedList_def)
  moreover have "is_live wit_lib wit_all (wit_tx 7)"
    by (simp add: is_live_def wit_all_def wit_lib_def wit_tx_def GetRemote_def lookup_Add_def newLookup_def)
  ultimately show ?thesis by (simp add: tracked_def)
qed

lemma wit_slots: "numSlots wit_lib (wit_tx 7) = 1"
  by (simp add: numSlots_def wit_lib_def)


theorem Underpriced_exact_witness:
  "\<exists>l'. Underpriced wit_lib wit_all (wit_tx 8) wit_priced = Ret (True, l')"
proof -
  obtain b l' where u: "Underpriced wit_lib wit_all (wit_tx 8) wit_priced = Ret (b, l')"
      "b \<longleftrightarrow> {#wit_tx 7#} \<noteq> {#} \<and> (\<forall>x \<in># live_bag wit_lib wit_all (plUrgent wit_priced). price_le (phBaseFee (plUrgent wit_priced)) (wit_tx 8) x) \<and>
        (\<forall>x \<in># live_bag wit_lib wit_all (plFloating wit_priced). price_le (phBaseFee (plFloating wit_priced)) (wit_tx 8) x)"
    using Underpriced_exact [OF wit_priced_ok, of wit_lib wit_all "wit_tx 8"] unfolding wit_tracked by auto
  have "x = wit_tx 7" if "x \<in># tracked wit_lib wit_all wit_priced" for x using that by (simp add: wit_tracked)
  moreover have "price_le f (wit_tx 8) (wit_tx 7)" for f
    by (simp add: price_le_def effective_def EffectiveGasTipValue_def EffectiveGasTip_def wit_tx_def split: option.splits)
  ultimately have b using u(2) by (auto simp: tracked_def)
  then show ?thesis using u(1) by auto
qed

end
