(* ===== verification/Tx_Noncer.thy ===== *)
theory Tx_Noncer
  imports State_Props Simulation
begin

text \<open>
  The virtual nonces of the transaction pool (\<^verbatim>\<open>client/core/txpool/noncer.go\<close>): a map that falls back to a copy of the state database.
  A read of the state database may fill its object cache, so reading changes the noncer. It implements a total map from accounts to
  nonces: the one that was set last, else that of the state.
\<close>

record noncer =
  ncFallback :: StateDB
  ncNonces :: "address \<Rightarrow> u64 option"

definition newNoncer :: "StateDB \<Rightarrow> noncer" where
  "newNoncer statedb = \<lparr>ncFallback = statedb, ncNonces = Map.empty\<rparr>"

text \<open>The first lines of \<open>get\<close> and \<open>setIfLower\<close>: an unknown account with a nonce in the state is entered into the map.\<close>

definition nc_fill :: "address \<Rightarrow> noncer \<Rightarrow> noncer" where
  "nc_fill addr txn =
    (if ncNonces txn addr = None then
       (case GetNonce addr (ncFallback txn) of (nonce, db) \<Rightarrow>
          let txn = txn\<lparr>ncFallback := db\<rparr>
          in if nonce \<noteq> 0 then txn\<lparr>ncNonces := (ncNonces txn)(addr \<mapsto> nonce)\<rparr> else txn)
     else txn)"

definition nc_at :: "address \<Rightarrow> noncer \<Rightarrow> u64" where
  "nc_at addr txn = (case ncNonces txn addr of Some nonce \<Rightarrow> nonce | None \<Rightarrow> 0)"

definition nc_get :: "address \<Rightarrow> noncer \<Rightarrow> u64 \<times> noncer" where
  "nc_get addr txn = (let txn = nc_fill addr txn in (nc_at addr txn, txn))"

definition nc_set :: "address \<Rightarrow> u64 \<Rightarrow> noncer \<Rightarrow> noncer" where
  "nc_set addr nonce txn = txn\<lparr>ncNonces := (ncNonces txn)(addr \<mapsto> nonce)\<rparr>"

definition nc_setIfLower :: "address \<Rightarrow> u64 \<Rightarrow> noncer \<Rightarrow> noncer" where
  "nc_setIfLower addr nonce txn =
    (let txn = nc_fill addr txn
     in if nc_at addr txn \<le> nonce then txn else txn\<lparr>ncNonces := (ncNonces txn)(addr \<mapsto> nonce)\<rparr>)"

definition nc_setAll :: "(address \<Rightarrow> u64 option) \<Rightarrow> noncer \<Rightarrow> noncer" where
  "nc_setAll all txn = txn\<lparr>ncNonces := all\<rparr>"

section \<open>The map it implements\<close>

text \<open>The abstract object: the nonces of the state, and those in effect.\<close>

type_synonym nonceMap = "(address \<Rightarrow> u64) \<times> (address \<Rightarrow> u64)"

definition nc_models :: "noncer \<Rightarrow> nonceMap \<Rightarrow> bool" where
  "nc_models txn = (\<lambda>(s, v). wf_state (ncFallback txn) \<and> vnonce (view (ncFallback txn)) = s \<and>
    (\<forall>x. v x = (case ncNonces txn x of Some n \<Rightarrow> n | None \<Rightarrow> s x)))"

datatype ncOp = NcGet address | NcSet address u64 | NcSetIfLower address u64 | NcSetAll "address \<Rightarrow> u64 option"

fun nc_op :: "ncOp \<Rightarrow> noncer \<Rightarrow> (u64 option \<times> noncer) go" where
  "nc_op (NcGet x) t = (case nc_get x t of (n, t) \<Rightarrow> Ret (Some n, t))"
| "nc_op (NcSet x n) t = Ret (None, nc_set x n t)"
| "nc_op (NcSetIfLower x n) t = Ret (None, nc_setIfLower x n t)"
| "nc_op (NcSetAll m) t = Ret (None, nc_setAll m t)"

fun nonce_op :: "ncOp \<Rightarrow> nonceMap \<Rightarrow> u64 option \<times> nonceMap" where
  "nonce_op (NcGet x) (s, v) = (Some (v x), (s, v))"
| "nonce_op (NcSet x n) (s, v) = (None, (s, v(x := n)))"
| "nonce_op (NcSetIfLower x n) (s, v) = (None, (s, v(x := min (v x) n)))"
| "nonce_op (NcSetAll m) (s, v) = (None, (s, \<lambda>x. case m x of Some n \<Rightarrow> n | None \<Rightarrow> s x))"

lemma fill_models:
  assumes "nc_models t (s, v)"
  shows "nc_models (nc_fill x t) (s, v)" "nc_at x (nc_fill x t) = v x"
proof -
  obtain n db where g: "GetNonce x (ncFallback t) = (n, db)" by fastforce
  have wf: "wf_state (ncFallback t)" "vnonce (view (ncFallback t)) = s" "\<And>x. v x = (case ncNonces t x of Some n \<Rightarrow> n | None \<Rightarrow> s x)"
    using assms by (auto simp: nc_models_def)
  have q: "n = s x" "quiet (ncFallback t) db" using GetNonce_spec [OF wf(1) g] wf(2) by auto
  have "wf_state db" using extends_wf extends_quiet wf(1) q(2) by blast
  moreover have "view db = view (ncFallback t)" using q(2) by (simp add: quiet_def)
  ultimately show "nc_models (nc_fill x t) (s, v)" "nc_at x (nc_fill x t) = v x"
    using wf q g by (auto simp: nc_models_def nc_fill_def nc_at_def Let_def split: option.splits)
qed

lemma nc_op_models:
  assumes "nc_models t a"
  shows "\<exists>t'. nc_op x t = Ret (fst (nonce_op x a), t') \<and> nc_models t' (snd (nonce_op x a))"
proof -
  obtain s v where a: "a = (s, v)" by fastforce
  note f = fill_models [OF assms [unfolded a]]
  show ?thesis
  proof (cases x)
    case (NcGet y)
    then show ?thesis using f [of y] a by (simp add: nc_get_def Let_def)
  next
    case (NcSet y n)
    then show ?thesis using assms a by (auto simp: nc_set_def nc_models_def)
  next
    case (NcSetIfLower y n)
    then show ?thesis using f [of y] a by (auto simp: nc_setIfLower_def Let_def nc_models_def min_def)
  next
    case (NcSetAll m)
    then show ?thesis using assms a by (auto simp: nc_setAll_def nc_models_def)
  qed
qed

interpretation nonce_map: simulation nc_models nc_op nonce_op "\<lambda>_. True"
  by unfold_locales (rule nc_op_models)

lemma new_nc_models: "wf_state db \<Longrightarrow> nc_models (newNoncer db) (vnonce (view db), vnonce (view db))"
  by (simp add: nc_models_def newNoncer_def)

theorem noncer_refines_map:
  assumes "wf_state db"
  shows "\<exists>t'. go_run nc_op ops (newNoncer db) = Ret (fst (abs_run nonce_op ops (vnonce (view db), vnonce (view db))), t') \<and>
    nc_models t' (snd (abs_run nonce_op ops (vnonce (view db), vnonce (view db))))"
  using nonce_map.run_sim [OF new_nc_models [OF assms], of ops] by (simp add: list_all_iff)

end
