(* ===== verification/Spec2Isabelle.thy ===== *)
theory Spec2Isabelle
  imports Header_Pipeline State_Refine Block_Props Block_Validator Header_Chain Tx_Priced Tx_Noncer
begin

text \<open>
  A verification development of the R5 node, the Go client under \<^verbatim>\<open>src/client\<close>. All file names below are
  relative to that directory.

  \<^bold>\<open>The program.\<close> A node validates headers and blocks of a proof-of-work chain and executes their transactions on
  a world state. The consensus engine (\<^verbatim>\<open>consensus/ethash\<close>, \<^verbatim>\<open>consensus/misc\<close>) decides which headers and uncles
  are valid, computes difficulty, base fee and gas limits, and mints the block reward that the R5 emission
  schedule prescribes. The block processor (\<^verbatim>\<open>core/state_processor.go\<close>) turns each transaction into a message and
  applies it (\<^verbatim>\<open>core/state_transition.go\<close>) under the block's gas pool (\<^verbatim>\<open>core/gaspool.go\<close>); a message is executed by
  the virtual machine (\<^verbatim>\<open>core/vm\<close>), which calls itself for nested calls and reads and writes the journaled
  state (\<^verbatim>\<open>core/state\<close>). The header chain (\<^verbatim>\<open>core/headerchain.go\<close>, \<^verbatim>\<open>core/forkchoice.go\<close>) stores headers and chooses the head; the
  transaction pool (\<^verbatim>\<open>core/txpool\<close>) holds pending transactions, by account and by price. Accounts and storage live in
  Merkle Patricia tries (\<^verbatim>\<open>trie\<close>) whose nodes are encoded in RLP (\<^verbatim>\<open>rlp\<close>) and identified by their hashes; the chain configuration (\<^verbatim>\<open>params\<close>) selects the rules of each fork.

  \<^bold>\<open>Conventions.\<close> A Go computation is a value of type \<open>go\<close>: \<open>Ret\<close> a result, \<open>Panic\<close> with the message, or
  \<open>NoFuel\<close>, where a recursion takes a fuel argument. Errors that the code returns are values (an option, or the left side of
  a sum). 64-bit and 256-bit integers are words with their wrap-around, \<^verbatim>\<open>big.Int\<close> is \<open>int\<close>. State is passed
  explicitly: a method on a struct takes the record and returns it. Maps are partial functions; where the
  iteration order of a Go map is random, the model acts on all keys at once, or visits the entries in an order that is an
  argument, where the order can show. What lies outside the sources or
  below the modelled part is an argument: hash functions and curves (\<open>cryptoLib\<close>), the 256-bit division routines
  (\<open>uint256Lib\<close>), the trie database (\<open>Database\<close>), the hashimoto functions (\<open>PowParams\<close>), sender recovery
  and hashing of blocks (\<open>procLib\<close>). Facts about the interpreter assume nothing of them.

  \<^bold>\<open>Theories.\<close>
  \<^item> \<open>Prelude\<close>: the \<open>go\<close> monad, machine words, byte strings, shared lemmas and collections. \<open>Types\<close>: headers.
  \<^item> \<open>Params\<close> (\<^verbatim>\<open>params/protocol_params.go\<close>, \<^verbatim>\<open>params/config.go\<close>): constants, \<open>ChainConfig\<close>, fork predicates, \<open>Rules\<close>,
    \<open>CheckConfigForkOrder\<close>, \<open>CheckCompatible\<close>. \<open>Config_Props\<close>: accepted configurations activate their forks in order;
    when \<open>CheckCompatible\<close> ends and what it reports, and a pair of accepted configurations on which it does not end.
  \<^item> \<open>Misc_Fees\<close> (\<^verbatim>\<open>consensus/misc\<close>): base fee, blob fee, gas-limit corridor, DAO header rule.
  \<^item> \<open>Ethash\<close> (\<^verbatim>\<open>consensus/ethash/consensus.go\<close>, \<^verbatim>\<open>difficulty.go\<close>): header verification, uncles, seal, difficulty in both
    arithmetics, circulating supply and block reward. Facts: \<open>verifyHeader\<close> accepts exactly the valid headers; the
    supply is the premine plus all rewards; the cap is not reached by the schedule; difficulty bounds.
  \<^item> \<open>Header_Pipeline\<close> (\<open>VerifyHeaders\<close>): coordinator and workers as a step relation; every interleaving delivers the
    verdicts in order, and every run ends.
  \<^item> \<open>Access_List\<close>, \<open>State_Object\<close>, \<open>State_DB\<close> (\<^verbatim>\<open>core/state\<close>): the state database with its object cache, storage layers
    and journal. \<open>State_View\<close>: the observable state, and the revert functions as functions on it. \<open>State_Snapshot\<close>: the
    invariant \<open>wf_state\<close>, the effect of every operation on the view, and the locale \<open>snapshot_store\<close>, the contract of
    snapshots. \<open>State_Frame\<close>: what a read-only execution may change (nothing observable). \<open>State_Props\<close>: reverting
    restores the view, reading back writes, \<open>Finalise\<close>. \<open>State_Refine\<close>: the journaled database refines an abstract
    machine in which reverting is going back to a saved value.
  \<^item> \<open>VM_Base\<close>, \<open>VM_Analysis\<close>, \<open>VM_Table\<close>, \<open>VM_Precompiles\<close>, \<open>VM_Contract\<close>, \<open>VM_Gas\<close>, \<open>VM_EVM\<close>, \<open>VM_Instructions\<close>,
    \<open>VM_Interpreter\<close> (\<^verbatim>\<open>core/vm\<close>): stack, memory, jump analysis, instruction tables, precompiled contracts, contracts and
    their caches, gas functions, calls and creations, instructions, the interpreter loop.
  \<^item> \<open>VM_Gas_Props\<close>, \<open>VM_Call_Props\<close>, \<open>VM_Exec_Props\<close>, \<open>VM_Run_Props\<close>, \<open>VM_Fuel\<close>: the invariants of a frame (stack within
    1024, memory whole words, bounded and paid for), gas functions without overflow, calls relative to what the
    interpreter promises (\<open>run_ok\<close>), instructions, the loop, and independence of the fuel. \<open>VM_Props\<close>: what the machine
    promises its callers.
  \<^item> \<open>State_Transition\<close>, \<open>Transition_Props\<close> (\<^verbatim>\<open>core/state_transition.go\<close>, \<^verbatim>\<open>core/gaspool.go\<close>): messages, intrinsic gas, checks,
    refunds, fees; exactness of the checks, gas accounting, the effect of a failed transaction.
  \<^item> \<open>Bloom\<close> (\<^verbatim>\<open>core/types/bloom9.go\<close>), \<open>Block_Processor\<close>, \<open>Block_Props\<close> (\<^verbatim>\<open>core/state_processor.go\<close>, \<^verbatim>\<open>core/evm.go\<close>,
    \<open>Finalize\<close>): receipts, logs and blooms, cumulative gas, rewards.
  \<^item> \<open>RLP\<close> (\<^verbatim>\<open>rlp/raw.go\<close>, integer and header encoding of \<^verbatim>\<open>rlp/encode.go\<close>): splitting accepts exactly the canonical encodings
    and never leaves its input; integers round-trip. \<open>RLP_Buffer\<close> (\<^verbatim>\<open>rlp/encbuffer.go\<close>): the buffer that inserts list headers
    afterwards writes the recursive encoding.
  \<^item> \<open>Trie_Encoding\<close>, \<open>Trie_Node\<close>, \<open>Trie_Ops\<close> (\<^verbatim>\<open>trie/encoding.go\<close>, \<^verbatim>\<open>node.go\<close>, \<^verbatim>\<open>node_enc.go\<close>, \<^verbatim>\<open>trie.go\<close>, \<^verbatim>\<open>tracer.go\<close>,
    \<^verbatim>\<open>trie_reader.go\<close>): key encodings, nodes and their decoding, get, insert and delete. \<open>Trie_Props\<close>: the invariant
    \<open>denotes\<close> (which map a partly loaded trie holds) and that every operation keeps it. \<open>Simulation\<close>: the locale of
    components that implement an abstract object. \<open>Trie_Map\<close>: a trie implements a finite map, and its shape depends on
    the map only. \<open>Trie_Hasher\<close> (\<^verbatim>\<open>trie/hasher.go\<close>), \<open>Trie_Root\<close>: the root hash is a function of the map and commits to it.
  \<^item> \<open>Stack_Trie\<close> (\<^verbatim>\<open>trie/stacktrie.go\<close>), \<open>Derive_Sha\<close> (\<^verbatim>\<open>core/types/hashing.go\<close>): the trie that hashes finished subtrees while it is
    filled, and the root of a list. The locale \<open>trie_hasher\<close> is the interface \<open>TrieHasher\<close>; stack tries and tries fulfil it, so
    \<open>DeriveSha\<close> returns the same root with either, and the root commits to the list.
  \<^item> \<open>Block_Validator\<close> (\<^verbatim>\<open>core/block_validator.go\<close>, encodings of receipts, logs and withdrawals): the checks before and after a block is
    processed; a header commits to the transactions, withdrawals and receipts of every block accepted with it.
  \<^item> \<open>Header_Chain\<close> (\<^verbatim>\<open>core/forkchoice.go\<close>, \<^verbatim>\<open>core/headerchain.go\<close>, \<open>CalcGasLimit\<close> of \<^verbatim>\<open>core/block_validator.go\<close>): the database of headers,
    total difficulties and canonical hashes; the invariant \<open>hc_ok\<close> (the canonical index is the ancestry of the head), that importing
    headers keeps it, what the fork choice prefers, ancestors, and the gas limit of new blocks.
  \<^item> \<open>Go_Heap\<close>: the package \<^verbatim>\<open>container/heap\<close>; the locale \<open>heap_interface\<close> is what it asks of \<open>Less\<close>, interpreted for nonces and for prices.
    \<open>Tx_List\<close>, \<open>Tx_Priced\<close>, \<open>Tx_Noncer\<close> (\<^verbatim>\<open>core/txpool/list.go\<close>, \<open>lookup\<close> of \<^verbatim>\<open>txpool.go\<close>, \<^verbatim>\<open>noncer.go\<close>): the nonce-sorted map as an
    implementation of a sorted list, total cost and caps of an account's list, eviction by price, virtual nonces as an implementation of a map.

  \<^bold>\<open>Fuel.\<close> The interpreter loop and the nested calls share one fuel argument. Every iteration that continues consumes
  gas and a nested call gets less gas than its caller had, so any fuel above the gas supplied is enough and gives
  the same result (\<open>Run_returns\<close>); \<open>2^64\<close> is enough for every transaction. The recursions of the trie operations take
  fuel too; four times the length of the key plus four is enough (\<open>Trie_refines_map\<close>), and the decoder of nodes uses the
  length of its input. The two index loops of a header reorganisation need no more than the heights of the two heads
  (\<open>header_import_follows_head\<close>). All other loops of the
  model are structural or have a termination proof, except \<open>CheckCompatible\<close>, which may not end and is an
  option-valued partial function.

  \<^bold>\<open>Preconditions.\<close> Facts about execution assume a well-formed state (\<open>wf_state\<close>; it holds of a new state database
  and every operation keeps it) and an instruction table as \<open>NewEVMInterpreter\<close> builds it without extra EIPs
  (\<open>configured\<close>), for rules in which Berlin and later forks come with EIP-150. The panics excluded are listed in
  \<open>vm_panics\<close>: bounds of stack and memory, unpaid memory, unknown revisions, gas pool overflow. Others remain
  possible in the model: a chain without an id, code of more than \<open>2^63\<close> bytes, the refund counter.

  \<^bold>\<open>Not modelled.\<close> The commit of tries to the node database, proofs, iterators and state sync; the state root
  (\<open>IntermediateRoot\<close>, \<open>Commit\<close>) and the snapshot layers; the reflection-based part of RLP; the chain manager and
  block import, rewinding the head (\<open>SetHead\<close>); the pool that drives the transaction lists; the miner; networking,
  RPC, accounts and commands; tracers; the ancestor-hash cache \<open>GetHashFn\<close>; mining
  and the dataset files of Ethash; the engines R5 does not use (Clique, beacon).
\<close>

end
